(* ===== verification/Pumps_Prelude.thy ===== *)
theory Pumps_Prelude
  imports Main "HOL-Library.Word"
begin

text \<open>
  Prelude of the pumpsOS development: names for the machine integers of the C sources,
  the lemma collections the component theories share, and generic facts about bounded
  search loops, list slices, words read as natural numbers and little-endian byte groups.

  A C loop \<^verbatim>\<open>for (i = 0; i < N; i++) if (c(i)) { ... return; }\<close> is written throughout as a
  case distinction on \<open>find c [0..<N]\<close>: the first index that satisfies the condition.
\<close>

unbundle bit_operations_syntax

type_synonym u8 = "8 word"
type_synonym u16 = "16 word"
type_synonym u32 = "32 word"
type_synonym u64 = "64 word"

text \<open>A NUL-terminated C string, without its terminator; a pointer into it is a suffix.\<close>

type_synonym cstr = "u8 list"

abbreviation (input) PAGE_SIZE :: u32 where
  "PAGE_SIZE \<equiv> 4096"

text \<open>
  \<open>layout\<close> holds facts on addresses and offsets, \<open>frame_rules\<close> the facts that an operation
  leaves some field or memory cell alone, \<open>byte_rules\<close> those on byte encodings.
\<close>

named_theorems layout
named_theorems frame_rules
named_theorems byte_rules

definition cstr_lit :: "string \<Rightarrow> cstr" where
  "cstr_lit s = map of_char s"

text \<open>The character a pointer designates: the terminator where the string has ended.\<close>

fun deref :: "cstr \<Rightarrow> u8" where
  "deref [] = 0"
| "deref (c # _) = c"

text \<open>\<open>splice xs k ys\<close> writes \<open>ys\<close> over \<open>xs\<close> from position \<open>k\<close> on, as \<^verbatim>\<open>memcpy(xs + k, ys, n)\<close>.\<close>

definition splice :: "'a list \<Rightarrow> nat \<Rightarrow> 'a list \<Rightarrow> 'a list" where
  "splice xs k ys = take k xs @ ys @ drop (k + length ys) xs"

definition slice :: "nat \<Rightarrow> nat \<Rightarrow> 'a list \<Rightarrow> 'a list" where
  "slice k n xs = take n (drop k xs)"

text \<open>Little-endian 16-bit and 32-bit values, as the i386 stores them.\<close>

definition le16 :: "u16 \<Rightarrow> u8 list" where
  "le16 w = [ucast w, ucast (drop_bit 8 w)]"

definition le32 :: "u32 \<Rightarrow> u8 list" where
  "le32 w = [ucast w, ucast (drop_bit 8 w), ucast (drop_bit 16 w), ucast (drop_bit 24 w)]"

definition un_le16 :: "u8 list \<Rightarrow> u16" where
  "un_le16 bs = ucast (bs ! 0) OR push_bit 8 (ucast (bs ! 1))"

definition un_le32 :: "u8 list \<Rightarrow> u32" where
  "un_le32 bs = ucast (bs ! 0) OR push_bit 8 (ucast (bs ! 1))
     OR push_bit 16 (ucast (bs ! 2)) OR push_bit 24 (ucast (bs ! 3))"

section \<open>Bounded search\<close>

lemma find_upt_Some_iff:
  "find P [a..<b] = Some k \<longleftrightarrow> a \<le> k \<and> k < b \<and> P k \<and> (\<forall>j. a \<le> j \<and> j < k \<longrightarrow> \<not> P j)"
proof
  assume "find P [a..<b] = Some k"
  then obtain i where i: "i < b - a" "P (a + i)" "k = a + i" "\<forall>j<i. \<not> P (a + j)"
    by (auto simp: find_Some_iff)
  show "a \<le> k \<and> k < b \<and> P k \<and> (\<forall>j. a \<le> j \<and> j < k \<longrightarrow> \<not> P j)"
  proof (intro conjI allI impI)
    show "a \<le> k" "k < b" "P k" using i by auto
    fix j assume "a \<le> j \<and> j < k"
    then have "j - a < i" "j = a + (j - a)" using i(3) by auto
    then show "\<not> P j" using i(4) by metis
  qed
next
  assume k: "a \<le> k \<and> k < b \<and> P k \<and> (\<forall>j. a \<le> j \<and> j < k \<longrightarrow> \<not> P j)"
  then show "find P [a..<b] = Some k"
    by (auto simp: find_Some_iff intro!: exI [of _ "k - a"])
qed

lemma find_upt_None_iff:
  "find P [a..<b] = None \<longleftrightarrow> (\<forall>j. a \<le> j \<and> j < b \<longrightarrow> \<not> P j)"
  by (auto simp: find_None_iff)

lemma find_upt0_Some_iff:
  "find P [0..<b] = Some k \<longleftrightarrow> k < b \<and> P k \<and> (\<forall>j<k. \<not> P j)"
  by (auto simp: find_upt_Some_iff)

section \<open>Slices\<close>

lemma length_splice [simp]:
  "k + length ys \<le> length xs \<Longrightarrow> length (splice xs k ys) = length xs"
  by (simp add: splice_def)

lemma length_slice [simp]: "k + n \<le> length xs \<Longrightarrow> length (slice k n xs) = n"
  by (simp add: slice_def)

lemma nth_splice:
  "k + length ys \<le> length xs \<Longrightarrow> i < length xs \<Longrightarrow>
    splice xs k ys ! i = (if k \<le> i \<and> i < k + length ys then ys ! (i - k) else xs ! i)"
  by (auto simp: splice_def nth_append min_def)

lemma nth_slice: "i < n \<Longrightarrow> k + n \<le> length xs \<Longrightarrow> slice k n xs ! i = xs ! (k + i)"
  by (simp add: slice_def)

lemma slice_splice_same:
  "k + length ys \<le> length xs \<Longrightarrow> n = length ys \<Longrightarrow> slice k n (splice xs k ys) = ys"
  by (simp add: slice_def splice_def)

lemma slice_splice_disjoint:
  assumes "k + length ys \<le> length xs" "j + n \<le> length xs" "j + n \<le> k \<or> k + length ys \<le> j"
  shows "slice j n (splice xs k ys) = slice j n xs"
proof (rule nth_equalityI)
  show "length (slice j n (splice xs k ys)) = length (slice j n xs)"
    using assms by simp
  fix i assume "i < length (slice j n (splice xs k ys))"
  then show "slice j n (splice xs k ys) ! i = slice j n xs ! i"
    using assms by (auto simp: nth_slice nth_splice)
qed

section \<open>Words as natural numbers\<close>

lemma unat_div_num [simp]: "unat ((x :: 'a::len word) div y) = unat x div unat y"
  by (simp add: unat_div)

lemma unat_mod_num [simp]: "unat ((x :: 'a::len word) mod y) = unat x mod unat y"
  by (simp add: unat_mod)

lemma unat_u32_bound: "unat (x :: u32) < 4294967296"
  using unsigned_less [of x] by simp

lemma unat_u16_bound: "unat (x :: u16) < 65536"
  using unsigned_less [of x] by simp

lemma unat_u8_bound: "unat (x :: u8) < 256"
  using unsigned_less [of x] by simp

lemma unat_div_page [simp]: "unat (x :: u32) div 4096 < 1048576"
  using unat_u32_bound [of x] by linarith

lemma unat_add_u32: "unat a + unat b < 4294967296 \<Longrightarrow> unat ((a :: u32) + b) = unat a + unat b"
  by (simp add: unat_word_ariths)

lemma unat_sub_u32: "unat b \<le> unat a \<Longrightarrow> unat ((a :: u32) - b) = unat a - unat b"
  by (simp add: unat_sub word_le_nat_alt)

lemma unat_of_nat_u32: "n < 4294967296 \<Longrightarrow> unat (of_nat n :: u32) = n"
  by (simp add: unat_of_nat)

lemma unat_ucast_mod:
  "unat (ucast (w :: 'a::len word) :: 'b::len word) = unat w mod 2 ^ LENGTH('b)"
  by (simp add: unsigned_ucast_eq take_bit_eq_mod)

lemma word_eq_unat: "((x :: 'a::len word) = y) = (unat x = unat y)"
  by (rule word_unat_eq_iff)

lemma word_of_nat_unat_add: "of_nat (unat (x :: 'a::len word) + n) = x + of_nat n"
  by simp

lemma add_mult_div: "k < d \<Longrightarrow> (k + c * d) div d = (c :: nat)"
  by simp

lemma add_mult_mod: "k < d \<Longrightarrow> (k + c * d) mod d = (k :: nat)"
  by simp

text \<open>Rounding down to a multiple of a power of two.\<close>

lemma unat_drop_bit: "unat (drop_bit n (x :: u32)) = unat x div 2 ^ n"
proof -
  have "unat (drop_bit n x) = drop_bit n (take_bit 32 (unat x))"
    using unsigned_drop_bit_eq [of n x] by simp
  moreover have "take_bit 32 (unat x) = unat x"
    using unat_u32_bound [of x] by (simp add: take_bit_nat_eq_self)
  ultimately show ?thesis by (simp only: drop_bit_eq_div)
qed

lemma unat_and_not_mask: "unat (x AND NOT (mask n)) = unat x div 2 ^ n * 2 ^ n" for x :: u32
proof -
  have e: "n \<le> i \<Longrightarrow> n + (i - n) = i" for i :: nat by arith
  have "x AND NOT (mask n) = push_bit n (drop_bit n x)"
    by (simp add: bit_eq_iff bit_simps) (auto simp: not_less e)
  then have "unat (x AND NOT (mask n)) = take_bit 32 (push_bit n (unat (drop_bit n x)))"
    using unsigned_push_bit_eq [of n "drop_bit n x"] by simp
  also have "\<dots> = take_bit 32 (unat x div 2 ^ n * 2 ^ n)" by (simp only: unat_drop_bit push_bit_eq_mult)
  also have "\<dots> = unat x div 2 ^ n * 2 ^ n"
    by (intro take_bit_nat_eq_self le_less_trans [OF div_times_less_eq_dividend]) (simp add: unat_u32_bound)
  finally show ?thesis .
qed

lemma align4: "unat (x AND NOT 3) = unat x div 4 * 4" for x :: u32
  using unat_and_not_mask [of x 2] by (simp add: mask_eq_exp_minus_1)

section \<open>Little-endian groups\<close>

lemma length_le16 [simp]: "length (le16 w) = 2"
  by (simp add: le16_def)

lemma length_le32 [simp]: "length (le32 w) = 4"
  by (simp add: le32_def)

lemma un_le16_le16 [simp]: "un_le16 (le16 w) = w"
  by (rule bit_word_eqI) (auto simp: un_le16_def le16_def bit_simps)

lemma un_le32_le32 [simp]: "un_le32 (le32 w) = w"
proof (rule bit_word_eqI)
  fix n assume "n < LENGTH(32)"
  then consider "n < 8" | "8 \<le> n" "n < 16" | "16 \<le> n" "n < 24" | "24 \<le> n" "n < 32"
    by fastforce
  then show "bit (un_le32 (le32 w)) n = bit w n"
    by cases (auto simp: un_le32_def le32_def bit_simps)
qed

lemma un_le32_cong:
  "(\<And>i. i < 4 \<Longrightarrow> as ! i = bs ! i) \<Longrightarrow> un_le32 as = un_le32 bs"
  by (simp add: un_le32_def)

end
