(* ===== verification/Memory_Map.thy ===== *)
theory Memory_Map
  imports Pumps_Prelude
begin

text \<open>
  The multiboot information block (\<^verbatim>\<open>kernel/kernel/multiboot.h\<close>) and the physical memory
  map built from it (\<^verbatim>\<open>kernel/kernel/memory_map.c\<close>). The memory the boot loader left the
  entries in is the parameter \<open>entry_at\<close>, from a kernel virtual address to the entry
  stored there. The filled prefix of the array \<^verbatim>\<open>regions\<close> is a list, so \<^verbatim>\<open>region_count\<close>
  is its length; diagnostic output is left out.
\<close>

section \<open>Data\<close>

record multiboot_info =
  mb_flags :: u32
  mem_lower :: u32
  mem_upper :: u32
  boot_device :: u32
  mb_cmdline :: u32
  mods_count :: u32
  mods_addr :: u32
  mmap_length :: u32
  mmap_addr :: u32
  framebuffer_addr :: u64
  framebuffer_pitch :: u32
  framebuffer_width :: u32
  framebuffer_height :: u32
  framebuffer_bpp :: u8

record multiboot_mmap_entry =
  entry_size :: u32
  entry_addr :: u64
  entry_len :: u64
  entry_type :: u32

record memory_region =
  region_base :: u64
  region_length :: u64
  region_type :: u32

record memory_map =
  regions :: "memory_region list"
  total_memory :: u64
  usable_memory :: u64
  highest_address :: u64
  mem_lower_kb :: u32
  mem_upper_kb :: u32

abbreviation (input) MEMORY_REGION_AVAILABLE :: u32 where
  "MEMORY_REGION_AVAILABLE \<equiv> 1"

abbreviation (input) MAX_MEMORY_REGIONS :: nat where
  "MAX_MEMORY_REGIONS \<equiv> 32"

abbreviation region_count :: "memory_map \<Rightarrow> nat" where
  "region_count g \<equiv> length (regions g)"

section \<open>Operations\<close>

definition memory_region_type_string :: "u32 \<Rightarrow> string" where
  "memory_region_type_string t =
     (if t = 1 then ''Available''
      else if t = 2 then ''Reserved''
      else if t = 3 then ''ACPI Reclaimable''
      else if t = 4 then ''ACPI NVS''
      else if t = 5 then ''Bad Memory''
      else ''Unknown'')"

text \<open>The body of the parse loop: record one entry and account for it.\<close>

definition add_region :: "multiboot_mmap_entry \<Rightarrow> memory_map \<Rightarrow> memory_map" where
  "add_region e g =
     (let g1 = g\<lparr>regions := regions g @ [\<lparr>region_base = entry_addr e,
                     region_length = entry_len e, region_type = entry_type e\<rparr>],
                 total_memory := total_memory g + entry_len e\<rparr>
      in if entry_type e = MEMORY_REGION_AVAILABLE then
           (let g2 = g1\<lparr>usable_memory := usable_memory g1 + entry_len e\<rparr>;
                region_end = entry_addr e + entry_len e
            in if region_end > highest_address g2 then g2\<lparr>highest_address := region_end\<rparr> else g2)
         else g1)"

lemma region_count_add_region [simp]: "region_count (add_region e g) = Suc (region_count g)"
  by (simp add: add_region_def Let_def)

function mmap_loop ::
  "(u32 \<Rightarrow> multiboot_mmap_entry) \<Rightarrow> u32 \<Rightarrow> u32 \<Rightarrow> memory_map \<Rightarrow> memory_map" where
  "mmap_loop entry_at mmap mmap_end g =
     (if mmap < mmap_end \<and> region_count g < MAX_MEMORY_REGIONS
      then mmap_loop entry_at (mmap + entry_size (entry_at mmap) + 4) mmap_end
             (add_region (entry_at mmap) g)
      else g)"
  by pat_completeness auto
termination
  by (relation "measure (\<lambda>(r, a, b, g). MAX_MEMORY_REGIONS - region_count g)") auto

definition memory_map_empty :: memory_map where
  "memory_map_empty = \<lparr>regions = [], total_memory = 0, usable_memory = 0,
     highest_address = 0, mem_lower_kb = 0, mem_upper_kb = 0\<rparr>"

definition memory_map_init ::
  "(u32 \<Rightarrow> multiboot_mmap_entry) \<Rightarrow> multiboot_info \<Rightarrow> bool \<times> memory_map" where
  "memory_map_init entry_at mboot =
     (let g = memory_map_empty;
          g1 = (if mb_flags mboot AND 1 \<noteq> 0
                then g\<lparr>mem_lower_kb := mem_lower mboot, mem_upper_kb := mem_upper mboot\<rparr>
                else g)
      in if mb_flags mboot AND 64 = 0 then (False, g1)
         else (let mmap_virt = mmap_addr mboot + 0xC0000000;
                   mmap_end = mmap_virt + mmap_length mboot
               in (True, mmap_loop entry_at mmap_virt mmap_end g1)))"

definition memory_map_get_usable :: "memory_map \<Rightarrow> u64" where
  "memory_map_get_usable g = usable_memory g"

definition memory_map_get_highest_address :: "memory_map \<Rightarrow> u64" where
  "memory_map_get_highest_address g = highest_address g"

definition memory_map_is_usable :: "memory_map \<Rightarrow> u64 \<Rightarrow> u64 \<Rightarrow> bool" where
  "memory_map_is_usable g addr len =
     (let end = addr + len
      in find (\<lambda>r. region_type r = MEMORY_REGION_AVAILABLE \<and>
                   (let region_end = region_base r + region_length r
                    in addr \<ge> region_base r \<and> end \<le> region_end)) (regions g) \<noteq> None)"

section \<open>Parsing\<close>

declare mmap_loop.simps [simp del]

definition region_available :: "memory_region \<Rightarrow> bool" where
  "region_available r \<longleftrightarrow> region_type r = MEMORY_REGION_AVAILABLE"

text \<open>
  What the map promises: the two totals are the sums over the recorded regions, and
  \<open>highest_address\<close> is the greatest end of an available one.
\<close>

definition memory_map_ok :: "memory_map \<Rightarrow> bool" where
  "memory_map_ok g \<longleftrightarrow>
     region_count g \<le> MAX_MEMORY_REGIONS \<and>
     total_memory g = sum_list (map region_length (regions g)) \<and>
     usable_memory g = sum_list (map region_length (filter region_available (regions g))) \<and>
     highest_address g =
       fold max (map (\<lambda>r. region_base r + region_length r)
                   (filter region_available (regions g))) 0"

lemma add_region_ok:
  assumes "memory_map_ok g" "region_count g < MAX_MEMORY_REGIONS"
  shows "memory_map_ok (add_region e g)"
  using assms by (auto simp: memory_map_ok_def add_region_def Let_def region_available_def max_def)

lemma mmap_loop_ok:
  "memory_map_ok g \<Longrightarrow> memory_map_ok (mmap_loop entry_at a b g)"
proof (induction entry_at a b g rule: mmap_loop.induct)
  case (1 entry_at a b g)
  then show ?case
    using add_region_ok by (subst mmap_loop.simps) auto
qed

lemma fold_max_ge: "x \<in> set xs \<union> {a} \<Longrightarrow> x \<le> fold max xs (a :: 'a::linorder)"
  by (auto simp: Max.set_eq_fold [symmetric])

lemma memory_map_ok_highest:
  assumes "memory_map_ok g" "r \<in> set (regions g)" "region_available r"
  shows "region_base r + region_length r \<le> highest_address g"
  using assms by (auto simp: memory_map_ok_def intro!: fold_max_ge)

section \<open>Properties\<close>

text \<open>
  Parsing the boot loader's map always ends with a consistent map: at most
  \<^verbatim>\<open>MAX_MEMORY_REGIONS\<close> regions, \<^verbatim>\<open>total_memory\<close> and \<^verbatim>\<open>usable_memory\<close> the (64-bit) sums of
  the recorded lengths and \<^verbatim>\<open>highest_address\<close> the greatest end of an available region. It
  reports success exactly when the loader supplied a map.
\<close>

theorem memory_map_init_ok:
  "memory_map_ok (snd (memory_map_init entry_at mboot)) \<and>
   (fst (memory_map_init entry_at mboot) \<longleftrightarrow> mb_flags mboot AND 64 \<noteq> 0)"
proof -
  have "memory_map_ok memory_map_empty"
    by (simp add: memory_map_ok_def memory_map_empty_def)
  moreover have "memory_map_ok (memory_map_empty\<lparr>mem_lower_kb := a, mem_upper_kb := b\<rparr>)" for a b
    by (simp add: memory_map_ok_def memory_map_empty_def)
  ultimately show ?thesis
    by (simp add: memory_map_init_def Let_def mmap_loop_ok)
qed

text \<open>
  The query \<^verbatim>\<open>memory_map_is_usable\<close> decides containment: as long as neither the queried range nor
  a region passes the top of the 64-bit address space, it answers yes exactly when some
  available region contains the whole range.
\<close>

theorem memory_map_is_usable_iff:
  assumes "unat addr + unat len < 2 ^ 64"
    and "\<forall>r \<in> set (regions g). unat (region_base r) + unat (region_length r) < 2 ^ 64"
  shows "memory_map_is_usable g addr len \<longleftrightarrow>
    (\<exists>r \<in> set (regions g). region_available r \<and> unat (region_base r) \<le> unat addr \<and>
       unat addr + unat len \<le> unat (region_base r) + unat (region_length r))"
proof -
  have "unat (addr + len) = unat addr + unat len"
    using assms(1) by (simp add: unat_word_ariths)
  moreover have "unat (region_base r + region_length r) = unat (region_base r) + unat (region_length r)"
    if "r \<in> set (regions g)" for r
    using assms(2) that by (simp add: unat_word_ariths)
  ultimately show ?thesis
    by (auto simp: memory_map_is_usable_def find_None_iff region_available_def word_le_nat_alt Let_def)
qed

definition map_example :: memory_map where
  "map_example = snd (memory_map_init
     (\<lambda>a. if a = 0xC0001000
          then \<lparr>entry_size = 20, entry_addr = 0, entry_len = 0x9FC00, entry_type = 1\<rparr>
          else if a = 0xC0001018
          then \<lparr>entry_size = 20, entry_addr = 0x9FC00, entry_len = 0x400, entry_type = 2\<rparr>
          else \<lparr>entry_size = 20, entry_addr = 0x100000, entry_len = 0x7EE0000, entry_type = 1\<rparr>)
     \<lparr>mb_flags = 65, mem_lower = 639, mem_upper = 129920, boot_device = 0, mb_cmdline = 0,
      mods_count = 0, mods_addr = 0, mmap_length = 72, mmap_addr = 0x1000,
      framebuffer_addr = 0, framebuffer_pitch = 0, framebuffer_width = 0,
      framebuffer_height = 0, framebuffer_bpp = 0\<rparr>)"

lemma map_example_eval:
  "map_example = \<lparr>regions = [\<lparr>region_base = 0, region_length = 0x9FC00, region_type = 1\<rparr>,
      \<lparr>region_base = 0x9FC00, region_length = 0x400, region_type = 2\<rparr>,
      \<lparr>region_base = 0x100000, region_length = 0x7EE0000, region_type = 1\<rparr>],
    total_memory = 0x7F80000, usable_memory = 0x7F7FC00, highest_address = 0x7FE0000,
    mem_lower_kb = 639, mem_upper_kb = 129920\<rparr>"
  by (simp add: map_example_def memory_map_init_def memory_map_empty_def Let_def
      mmap_loop.simps add_region_def)

theorem memory_map_is_usable_iff_witness:
  "memory_map_is_usable map_example 0x200000 0x1000 \<and>
   \<not> memory_map_is_usable map_example 0x9F000 0x1000"
proof -
  have r: "\<forall>r \<in> set (regions map_example). unat (region_base r) + unat (region_length r) < 2 ^ 64"
    by (simp add: map_example_eval)
  have "unat (0x200000 :: u64) + unat (0x1000 :: u64) < 2 ^ 64"
    and "unat (0x9F000 :: u64) + unat (0x1000 :: u64) < 2 ^ 64" by simp_all
  note this [THEN memory_map_is_usable_iff, OF r]
  then show ?thesis by (simp add: map_example_eval region_available_def)
qed

text \<open>
  The 64-bit sum in \<^verbatim>\<open>memory_map_is_usable\<close> is not checked: a length close to $2^{64}$
  wraps around, and the range is reported usable although no region can hold it.
\<close>

theorem memory_map_is_usable_wraps:
  "memory_map_is_usable map_example 0x200000 0xFFFFFFFFFFFFFFFF"
  by (simp add: memory_map_is_usable_def map_example_eval Let_def)

end
