(* ===== verification/Pmm.thy ===== *)
theory Pmm
  imports Memory_Map
begin

text \<open>
  The physical memory manager, \<^verbatim>\<open>kernel/kernel/pmm.c\<close>: a bitmap of page frames (1 = used),
  the page counters, single-page allocation and release, region marking, and \<^verbatim>\<open>pmm_init\<close>.
  The array \<^verbatim>\<open>bitmap\<close> is a function from byte index to byte; \<open>addr_to_frame_bound\<close> shows
  that every index the operations use is below \<^verbatim>\<open>BITMAP_SIZE\<close>.

  The locale \<open>frame_allocator\<close> states what its clients (the virtual memory manager and the
  kernel heap) rely on; it is interpreted on \<open>pmm_alloc_page\<close> and \<open>pmm_free_page\<close>.
\<close>

section \<open>State and bitmap helpers\<close>

record pmm =
  bitmap :: "nat \<Rightarrow> u8"
  total_pages :: u32
  used_pages :: u32

abbreviation (input) MAX_PAGES :: nat where
  "MAX_PAGES \<equiv> 1048576"

definition addr_to_frame :: "u32 \<Rightarrow> u32" where
  "addr_to_frame addr = addr div PAGE_SIZE"

definition frame_to_addr :: "u32 \<Rightarrow> u32" where
  "frame_to_addr frame = frame * PAGE_SIZE"

definition bitmap_set :: "u32 \<Rightarrow> pmm \<Rightarrow> pmm" where
  "bitmap_set frame p =
     p\<lparr>bitmap := (bitmap p)(unat (frame div 8) :=
         bitmap p (unat (frame div 8)) OR push_bit (unat (frame mod 8)) 1)\<rparr>"

definition bitmap_clear :: "u32 \<Rightarrow> pmm \<Rightarrow> pmm" where
  "bitmap_clear frame p =
     p\<lparr>bitmap := (bitmap p)(unat (frame div 8) :=
         bitmap p (unat (frame div 8)) AND NOT (push_bit (unat (frame mod 8)) 1))\<rparr>"

definition bitmap_test :: "u32 \<Rightarrow> pmm \<Rightarrow> bool" where
  "bitmap_test frame p \<longleftrightarrow>
     bitmap p (unat (frame div 8)) AND push_bit (unat (frame mod 8)) 1 \<noteq> 0"

section \<open>Operations\<close>

definition mark_free_step :: "u32 \<Rightarrow> pmm \<Rightarrow> pmm" where
  "mark_free_step frame p =
     (if bitmap_test frame p
      then (bitmap_clear frame p)\<lparr>used_pages := used_pages p - 1\<rparr> else p)"

definition pmm_mark_region_free :: "u32 \<Rightarrow> u32 \<Rightarrow> pmm \<Rightarrow> pmm" where
  "pmm_mark_region_free base len p =
     (let start_frame = addr_to_frame base;
          end_frame = addr_to_frame (base + len);
          start_frame = (if base mod PAGE_SIZE \<noteq> 0 then start_frame + 1 else start_frame)
      in fold mark_free_step (map of_nat [unat start_frame..<unat end_frame]) p)"

definition mark_used_step :: "u32 \<Rightarrow> pmm \<Rightarrow> pmm" where
  "mark_used_step frame p =
     (if \<not> bitmap_test frame p
      then (bitmap_set frame p)\<lparr>used_pages := used_pages p + 1\<rparr> else p)"

definition pmm_mark_region_used :: "u32 \<Rightarrow> u32 \<Rightarrow> pmm \<Rightarrow> pmm" where
  "pmm_mark_region_used base len p =
     (let start_frame = addr_to_frame base;
          end_frame = addr_to_frame (base + len + PAGE_SIZE - 1)
      in fold mark_used_step (map of_nat [unat start_frame..<unat end_frame]) p)"

text \<open>The loop body of \<^verbatim>\<open>pmm_init\<close>, with its two skips and the 28-bit clamping constant.\<close>

definition pmm_init_region :: "memory_region \<Rightarrow> pmm \<Rightarrow> pmm" where
  "pmm_init_region r p =
     (if region_type r \<noteq> MEMORY_REGION_AVAILABLE then p
      else if region_base r \<ge> 0x100000000 then p
      else (let base = ucast (region_base r) :: u32;
                len = ucast (region_length r) :: u32;
                len = (if region_base r + region_length r > 0x100000000
                       then 0xFFFFFFF - base else len)
            in pmm_mark_region_free base len p))"

definition pmm_init :: "memory_map \<Rightarrow> u32 \<Rightarrow> u32 \<Rightarrow> pmm" where
  "pmm_init g kernel_start kernel_end =
     (let highest = memory_map_get_highest_address g;
          total = (if highest > of_nat MAX_PAGES * 4096 then of_nat MAX_PAGES
                   else ucast (highest div 4096)) :: u32;
          p = \<lparr>bitmap = (\<lambda>_. 0xFF), total_pages = total, used_pages = total\<rparr>;
          p = fold pmm_init_region (regions g) p;
          p = pmm_mark_region_used 0 PAGE_SIZE p;
          kernel_phys_end = kernel_end - 0xC0000000
      in pmm_mark_region_used kernel_start (kernel_phys_end - kernel_start) p)"

fun alloc_scan :: "(nat \<Rightarrow> u8) \<Rightarrow> nat list \<Rightarrow> (nat \<times> nat) option" where
  "alloc_scan bm [] = None"
| "alloc_scan bm (i # is) =
     (if bm i = 0xFF then alloc_scan bm is
      else case find (\<lambda>b. bm i AND push_bit b 1 = 0) [0..<8] of
             Some b \<Rightarrow> Some (i, b)
           | None \<Rightarrow> alloc_scan bm is)"

definition pmm_alloc_page :: "pmm \<Rightarrow> pmm \<times> u32" where
  "pmm_alloc_page p =
     (case alloc_scan (bitmap p) [0..<unat (total_pages p div 8)] of
        Some (i, b) \<Rightarrow>
          (let frame = of_nat i * 8 + of_nat b
           in ((bitmap_set frame p)\<lparr>used_pages := used_pages p + 1\<rparr>, frame_to_addr frame))
      | None \<Rightarrow> (p, 0))"

definition pmm_free_page :: "u32 \<Rightarrow> pmm \<Rightarrow> pmm" where
  "pmm_free_page phys_addr p =
     (let frame = addr_to_frame phys_addr
      in if \<not> bitmap_test frame p then p
         else (bitmap_clear frame p)\<lparr>used_pages := used_pages p - 1\<rparr>)"

definition pmm_get_free_page_count :: "pmm \<Rightarrow> u32" where
  "pmm_get_free_page_count p = total_pages p - used_pages p"

definition pmm_get_total_page_count :: "pmm \<Rightarrow> u32" where
  "pmm_get_total_page_count p = total_pages p"

section \<open>The set of used frames\<close>

definition pmm_bit :: "pmm \<Rightarrow> nat \<Rightarrow> bool" where
  "pmm_bit p n \<longleftrightarrow> bit (bitmap p (n div 8)) (n mod 8)"

definition used_frames :: "pmm \<Rightarrow> nat set" where
  "used_frames p = {f. f < MAX_PAGES \<and> pmm_bit p f}"

lemma addr_to_frame_bound: "unat (addr_to_frame a) < MAX_PAGES"
  by (simp add: addr_to_frame_def)

lemma unat_addr_to_frame [simp]: "unat (addr_to_frame a) = unat a div 4096"
  by (simp add: addr_to_frame_def)

lemma bitmap_test_iff [simp]: "bitmap_test f p \<longleftrightarrow> pmm_bit p (unat f)"
  by (simp add: bitmap_test_def pmm_bit_def bit_iff_and_push_bit_not_eq_0)

lemma div_mod_8_eq: "(n :: nat) div 8 = m div 8 \<Longrightarrow> n mod 8 = m mod 8 \<Longrightarrow> n = m"
  by (metis div_mult_mod_eq)

lemma pmm_bit_set [simp]: "pmm_bit (bitmap_set f p) n \<longleftrightarrow> n = unat f \<or> pmm_bit p n"
  using div_mod_8_eq [of n "unat f"]
  by (auto simp: pmm_bit_def bitmap_set_def bit_simps)

lemma pmm_bit_clear [simp]: "pmm_bit (bitmap_clear f p) n \<longleftrightarrow> n \<noteq> unat f \<and> pmm_bit p n"
  using div_mod_8_eq [of n "unat f"]
  by (auto simp: pmm_bit_def bitmap_clear_def bit_simps)

lemma pmm_bit_used_pages [simp]: "pmm_bit (p\<lparr>used_pages := u\<rparr>) n = pmm_bit p n"
  by (simp add: pmm_bit_def)

lemma bitmap_set_counters [simp]:
  "total_pages (bitmap_set f p) = total_pages p" "used_pages (bitmap_set f p) = used_pages p"
  "total_pages (bitmap_clear f p) = total_pages p" "used_pages (bitmap_clear f p) = used_pages p"
  by (simp_all add: bitmap_set_def bitmap_clear_def)

text \<open>
  The counter invariant. Frames at or above \<^verbatim>\<open>total_pages\<close> are never released by a region
  of the map, so their bits stay set and only frames below it are counted.
\<close>

definition pmm_count_ok :: "pmm \<Rightarrow> bool" where
  "pmm_count_ok p \<longleftrightarrow>
     unat (total_pages p) \<le> MAX_PAGES \<and> {unat (total_pages p)..<MAX_PAGES} \<subseteq> used_frames p \<and>
     used_pages p = of_nat (card (used_frames p \<inter> {..<unat (total_pages p)}))"

definition pmm_inv :: "pmm \<Rightarrow> bool" where
  "pmm_inv p \<longleftrightarrow> pmm_count_ok p \<and> 0 \<in> used_frames p"

lemma finite_used_frames [simp]: "finite (used_frames p)"
  by (simp add: used_frames_def)

lemma used_frames_used_pages [simp]: "used_frames (p\<lparr>used_pages := u\<rparr>) = used_frames p"
  by (simp add: used_frames_def)

lemma used_frames_clear [simp]: "used_frames (bitmap_clear f p) = used_frames p - {unat f}"
  by (auto simp: used_frames_def)

lemma used_frames_set:
  "unat f < MAX_PAGES \<Longrightarrow> used_frames (bitmap_set f p) = insert (unat f) (used_frames p)"
  by (auto simp: used_frames_def)

lemma release_count_ok:
  assumes "pmm_count_ok p" "pmm_bit p (unat f)" "unat f < unat (total_pages p)"
  shows "pmm_count_ok ((bitmap_clear f p)\<lparr>used_pages := used_pages p - 1\<rparr>)"
proof -
  let ?S = "used_frames p \<inter> {..<unat (total_pages p)}"
  have f: "unat f \<in> ?S" using assms by (auto simp: pmm_count_ok_def used_frames_def)
  have S: "(used_frames p - {unat f}) \<inter> {..<unat (total_pages p)} = ?S - {unat f}" by auto
  have "card ?S > 0" using f by (auto simp: card_gt_0_iff)
  then have "of_nat (card (?S - {unat f})) = (of_nat (card ?S) - 1 :: u32)"
    using f by (simp add: of_nat_diff)
  then show ?thesis
    using assms by (auto simp: pmm_count_ok_def S)
qed

lemma acquire_count_ok:
  assumes "pmm_count_ok p" "\<not> pmm_bit p (unat f)" "unat f < MAX_PAGES"
  shows "pmm_count_ok ((bitmap_set f p)\<lparr>used_pages := used_pages p + 1\<rparr>)"
proof -
  let ?S = "used_frames p \<inter> {..<unat (total_pages p)}"
  have nin: "unat f \<notin> used_frames p" using assms(2) by (simp add: used_frames_def)
  then have lt: "unat f < unat (total_pages p)"
    using assms(1,3) by (auto simp: pmm_count_ok_def not_less [symmetric])
  have S: "insert (unat f) (used_frames p) \<inter> {..<unat (total_pages p)} = insert (unat f) ?S"
    using lt by auto
  show ?thesis
    using assms nin by (auto simp: pmm_count_ok_def used_frames_set S)
qed

section \<open>Region marking\<close>

lemma mark_free_step_used: "used_frames (mark_free_step f p) = used_frames p - {unat f}"
  by (auto simp: mark_free_step_def used_frames_def)

lemma mark_free_step_total [simp]: "total_pages (mark_free_step f p) = total_pages p"
  by (simp add: mark_free_step_def)

lemma mark_used_step_used:
  "unat f < MAX_PAGES \<Longrightarrow> used_frames (mark_used_step f p) = insert (unat f) (used_frames p)"
  by (auto simp: mark_used_step_def used_frames_def)

lemma mark_used_step_total [simp]: "total_pages (mark_used_step f p) = total_pages p"
  by (simp add: mark_used_step_def)

lemma fold_mark_free:
  "used_frames (fold mark_free_step fs p) = used_frames p - unat ` set fs \<and>
   total_pages (fold mark_free_step fs p) = total_pages p \<and>
   (pmm_count_ok p \<and> (\<forall>f \<in> set fs. unat f < unat (total_pages p)) \<longrightarrow>
    pmm_count_ok (fold mark_free_step fs p))"
proof (induction fs arbitrary: p)
  case (Cons f fs)
  have "pmm_count_ok p \<Longrightarrow> unat f < unat (total_pages p) \<Longrightarrow> pmm_count_ok (mark_free_step f p)"
    using release_count_ok by (simp add: mark_free_step_def)
  then show ?case using Cons.IH [of "mark_free_step f p"] by (auto simp: mark_free_step_used)
qed simp

lemma fold_mark_used:
  "\<forall>f \<in> set fs. unat f < MAX_PAGES \<Longrightarrow>
   used_frames (fold mark_used_step fs p) = used_frames p \<union> unat ` set fs \<and>
   total_pages (fold mark_used_step fs p) = total_pages p \<and>
   (pmm_count_ok p \<longrightarrow> pmm_count_ok (fold mark_used_step fs p))"
proof (induction fs arbitrary: p)
  case (Cons f fs)
  have "pmm_count_ok p \<Longrightarrow> pmm_count_ok (mark_used_step f p)"
    using acquire_count_ok Cons.prems by (simp add: mark_used_step_def)
  then show ?case
    using Cons.IH [of "mark_used_step f p"] Cons.prems by (auto simp: mark_used_step_used)
qed simp

lemma unat_image_upt: "b \<le> 4294967296 \<Longrightarrow> unat ` set (map (of_nat :: nat \<Rightarrow> u32) [a..<b]) = {a..<b}"
  by (force simp: unat_of_nat_u32 image_image)

definition free_first :: "u32 \<Rightarrow> nat" where
  "free_first base = (if unat base mod 4096 = 0 then unat base div 4096 else Suc (unat base div 4096))"

lemma mark_region_free_fold:
  "pmm_mark_region_free base len p =
     fold mark_free_step (map of_nat [free_first base..<unat (base + len) div 4096]) p"
proof -
  have "unat (addr_to_frame base + 1) = Suc (unat base div 4096)"
    using unat_div_page [of base] by (subst unat_add_u32) (auto simp del: unat_div_page)
  moreover have "base mod PAGE_SIZE \<noteq> 0 \<longleftrightarrow> unat base mod 4096 \<noteq> 0"
    by (simp add: word_eq_unat)
  ultimately show ?thesis
    by (simp add: pmm_mark_region_free_def free_first_def Let_def)
qed

lemma pmm_mark_region_free_used:
  "used_frames (pmm_mark_region_free base len p) =
     used_frames p - {free_first base..<unat (base + len) div 4096}"
proof -
  have "unat ` set (map (of_nat :: nat \<Rightarrow> u32) [free_first base..<unat (base + len) div 4096]) =
      {free_first base..<unat (base + len) div 4096}"
    using unat_div_page [of "base + len"] by (intro unat_image_upt) linarith
  then show ?thesis unfolding mark_region_free_fold using fold_mark_free by blast
qed

lemma pmm_mark_region_free_total [simp]:
  "total_pages (pmm_mark_region_free base len p) = total_pages p"
  by (simp add: mark_region_free_fold fold_mark_free)

lemma pmm_mark_region_free_count_ok:
  assumes "pmm_count_ok p" "unat (base + len) div 4096 \<le> unat (total_pages p)"
  shows "pmm_count_ok (pmm_mark_region_free base len p)"
proof -
  have "\<forall>f \<in> set (map of_nat [free_first base..<unat (base + len) div 4096]).
          unat (f :: u32) < unat (total_pages p)"
    using assms(2) unat_div_page [of "base + len"]
    by (auto simp del: unat_div_page simp: unat_of_nat_u32)
  then show ?thesis
    unfolding mark_region_free_fold using assms(1) fold_mark_free by blast
qed

lemma pmm_mark_region_used_all:
  defines "fs b l \<equiv> {unat b div 4096..<unat (b + l + PAGE_SIZE - 1) div 4096}"
  shows "used_frames (pmm_mark_region_used base len p) = used_frames p \<union> fs base len"
    and "total_pages (pmm_mark_region_used base len p) = total_pages p"
    and "pmm_count_ok p \<Longrightarrow> pmm_count_ok (pmm_mark_region_used base len p)"
proof -
  let ?e = "unat (base + len + PAGE_SIZE - 1) div 4096"
  let ?l = "map of_nat [unat base div 4096..<?e] :: u32 list"
  have e: "?e < MAX_PAGES" by (rule unat_div_page)
  have "\<forall>f \<in> set ?l. unat f < MAX_PAGES" using e by (auto simp del: unat_div_page simp: unat_of_nat_u32)
  note fold_mark_used [OF this, of p]
  moreover have "pmm_mark_region_used base len p = fold mark_used_step ?l p"
    by (simp add: pmm_mark_region_used_def Let_def)
  moreover have "unat ` set ?l = fs base len"
    unfolding fs_def using e by (intro unat_image_upt) linarith
  ultimately show "used_frames (pmm_mark_region_used base len p) = used_frames p \<union> fs base len"
    "total_pages (pmm_mark_region_used base len p) = total_pages p"
    "pmm_count_ok p \<Longrightarrow> pmm_count_ok (pmm_mark_region_used base len p)" by simp_all
qed

section \<open>Page allocation\<close>

lemma and_push_bit_zero:
  "((w :: u8) AND push_bit b 1 = 0) \<longleftrightarrow> \<not> bit w b" "((w :: u8) AND 2 ^ b = 0) \<longleftrightarrow> \<not> bit w b"
  by (simp_all add: bit_iff_and_push_bit_not_eq_0)

lemma not_full_has_clear_bit: "(w :: u8) \<noteq> 0xFF \<Longrightarrow> \<exists>b<8. \<not> bit w b"
proof (rule ccontr)
  assume "w \<noteq> 0xFF" "\<not> (\<exists>b<8. \<not> bit w b)"
  then have "w = mask 8" by (intro bit_word_eqI) (auto simp: bit_simps)
  then show False using \<open>w \<noteq> 0xFF\<close> by (simp add: mask_eq_exp_minus_1)
qed

lemma full_all_bits: "b < 8 \<Longrightarrow> bit (0xFF :: u8) b"
proof -
  have "(0xFF :: u8) = mask 8" by (simp add: mask_eq_exp_minus_1)
  then show "b < 8 \<Longrightarrow> bit (0xFF :: u8) b" by (simp only: bit_mask_iff) simp
qed

lemma bit_255_int: "bit (255 :: int) n \<longleftrightarrow> n < 8"
proof -
  have "(255 :: int) = mask 8" by (simp add: mask_eq_exp_minus_1)
  then show ?thesis by (simp only: bit_mask_iff) simp
qed

text \<open>The scan returns the first clear bit of the listed bytes, or reports that there is none.\<close>

lemma alloc_scan_upt:
  "case alloc_scan bm [a..<n] of
     Some (i, b) \<Rightarrow> a \<le> i \<and> i < n \<and> b < 8 \<and> \<not> bit (bm i) b \<and>
       (\<forall>j c. a \<le> j \<and> c < 8 \<and> 8 * j + c < 8 * i + b \<longrightarrow> bit (bm j) c)
   | None \<Rightarrow> \<forall>j c. a \<le> j \<and> j < n \<and> c < 8 \<longrightarrow> bit (bm j) c"
proof (induction "n - a" arbitrary: a)
  case 0
  then show ?case by auto
next
  case (Suc k)
  then have an: "a < n" and IH: "k = n - Suc a" by auto
  note IH = Suc.hyps(1) [OF IH]
  have upt: "[a..<n] = a # [Suc a..<n]" using an by (simp add: upt_conv_Cons)
  show ?case
  proof (cases "bm a = 0xFF")
    case True
    have "a \<le> j \<longleftrightarrow> j = a \<or> Suc a \<le> j" for j by auto
    moreover have "c < 8 \<Longrightarrow> bit (bm a) c" for c using True full_all_bits by simp
    moreover have "alloc_scan bm [a..<n] = alloc_scan bm [Suc a..<n]" using True by (simp add: upt)
    ultimately show ?thesis
      using IH an by (cases "alloc_scan bm [Suc a..<n]") auto
  next
    case False
    then obtain b where b: "find (\<lambda>b. bm a AND push_bit b 1 = 0) [0..<8] = Some b"
      using not_full_has_clear_bit
      by (cases "find (\<lambda>b. bm a AND push_bit b 1 = 0) [0..<8]")
         (auto simp: find_None_iff and_push_bit_zero)
    then have "b < 8" "\<not> bit (bm a) b" "\<forall>c<b. bit (bm a) c"
      by (auto simp: find_upt0_Some_iff and_push_bit_zero)
    moreover have "bit (bm j) c" if "8 * j + c < 8 * a + b" "a \<le> j" for j c :: nat
    proof -
      have "j = a \<and> c < b" using that \<open>b < 8\<close> by presburger
      then show ?thesis using \<open>\<forall>c<b. bit (bm a) c\<close> by simp
    qed
    ultimately show ?thesis using False b an by (auto simp: upt)
  qed
qed

text \<open>What \<open>pmm_alloc_page\<close> does, over the set of used frames: first fit, or failure.\<close>

definition alloc_limit :: "pmm \<Rightarrow> nat" where
  "alloc_limit p = 8 * (unat (total_pages p) div 8)"

lemma pmm_alloc_page_spec:
  assumes "unat (total_pages p) \<le> MAX_PAGES"
  shows "(pmm_alloc_page p = (p, 0) \<and> {..<alloc_limit p} \<subseteq> used_frames p) \<or>
    (\<exists>f. f < alloc_limit p \<and> f \<notin> used_frames p \<and> {..<f} \<subseteq> used_frames p \<and>
      pmm_alloc_page p = ((bitmap_set (of_nat f) p)\<lparr>used_pages := used_pages p + 1\<rparr>,
        frame_to_addr (of_nat f)))"
proof (cases "alloc_scan (bitmap p) [0..<unat (total_pages p div 8)]")
  case None
  with alloc_scan_upt [where bm = "bitmap p" and a = 0 and n = "unat (total_pages p div 8)"]
  have "f < alloc_limit p \<Longrightarrow> f \<in> used_frames p" for f
    using assms by (auto simp: used_frames_def pmm_bit_def alloc_limit_def
        dest: spec2 [of _ "f div 8" "f mod 8"])
  then show ?thesis using None by (auto simp: pmm_alloc_page_def)
next
  case (Some ib)
  obtain i b where ib: "ib = (i, b)" by force
  let ?f = "8 * i + b"
  have s: "i < unat (total_pages p) div 8" "b < 8" "\<not> bit (bitmap p i) b"
    "\<forall>j c. c < 8 \<and> 8 * j + c < ?f \<longrightarrow> bit (bitmap p j) c"
    using alloc_scan_upt [where bm = "bitmap p" and a = 0 and n = "unat (total_pages p div 8)"] Some ib by auto
  have "g \<in> used_frames p" if "g < ?f" for g
    using s(4) [rule_format, of "g mod 8" "g div 8"] that s(1,2) assms
    by (auto simp: used_frames_def pmm_bit_def)
  moreover have "?f < alloc_limit p" using s(1,2) by (simp add: alloc_limit_def)
  moreover have "?f \<notin> used_frames p" using s(2,3) by (simp add: used_frames_def pmm_bit_def)
  moreover have "of_nat i * 8 + of_nat b = (of_nat ?f :: u32)" by simp
  ultimately show ?thesis
    using Some ib by (auto simp: pmm_alloc_page_def Let_def simp del: of_nat_add of_nat_mult)
qed

lemma unat_frame_to_addr: "f < MAX_PAGES \<Longrightarrow> unat (frame_to_addr (of_nat f)) = f * 4096"
  by (simp add: frame_to_addr_def unat_word_ariths unat_of_nat)

lemma pmm_alloc_page_cases:
  assumes inv: "pmm_inv p" and r: "pmm_alloc_page p = (p', a)"
  obtains (fail) "a = 0" "p' = p" "{..<alloc_limit p} \<subseteq> used_frames p"
  | (ok) f where "unat a = f * 4096" "0 < f" "f < alloc_limit p" "f \<notin> used_frames p"
      "{..<f} \<subseteq> used_frames p" "used_frames p' = insert f (used_frames p)"
      "total_pages p' = total_pages p" "pmm_inv p'"
proof -
  have tot: "unat (total_pages p) \<le> MAX_PAGES" and u0: "0 \<in> used_frames p"
    using inv by (auto simp: pmm_inv_def pmm_count_ok_def)
  show thesis
  proof (rule disjE [OF pmm_alloc_page_spec [OF tot]])
    assume "pmm_alloc_page p = (p, 0) \<and> {..<alloc_limit p} \<subseteq> used_frames p"
    then show thesis using fail r by auto
  next
    assume "\<exists>f. f < alloc_limit p \<and> f \<notin> used_frames p \<and> {..<f} \<subseteq> used_frames p \<and>
      pmm_alloc_page p = ((bitmap_set (of_nat f) p)\<lparr>used_pages := used_pages p + 1\<rparr>,
        frame_to_addr (of_nat f))"
    then obtain f where f: "f < alloc_limit p" "f \<notin> used_frames p" "{..<f} \<subseteq> used_frames p"
      "p' = (bitmap_set (of_nat f) p)\<lparr>used_pages := used_pages p + 1\<rparr>"
      "a = frame_to_addr (of_nat f)" using r by auto
    have lt: "f < MAX_PAGES" using f(1) tot by (simp add: alloc_limit_def)
    then have "unat (of_nat f :: u32) = f" by (simp add: unat_of_nat)
    with f(2,4) lt inv have "pmm_inv p'" "used_frames p' = insert f (used_frames p)"
      using acquire_count_ok [of p "of_nat f"]
      by (auto simp: pmm_inv_def used_frames_set used_frames_def)
    moreover have "0 < f" using u0 f(2) by (metis gr0I)
    ultimately show thesis using ok [of f] f lt unat_frame_to_addr [of f] by simp
  qed
qed

lemma pmm_free_page_used:
  "unat a div 4096 \<in> used_frames p \<Longrightarrow>
    used_frames (pmm_free_page a p) = used_frames p - {unat a div 4096}"
  by (auto simp: pmm_free_page_def Let_def used_frames_def)

lemma pmm_free_page_total [simp]: "total_pages (pmm_free_page a p) = total_pages p"
  by (simp add: pmm_free_page_def Let_def)

lemma pmm_free_page_inv:
  assumes "pmm_inv p" "0 < unat a div 4096" "unat a div 4096 < unat (total_pages p)"
  shows "pmm_inv (pmm_free_page a p)"
  using assms release_count_ok [of p "addr_to_frame a"]
  by (auto simp: pmm_inv_def pmm_free_page_def Let_def)

section \<open>The frame allocator interface\<close>

text \<open>
  \<open>used\<close> is the set of frame numbers taken, \<open>limit\<close> the number of frames managed. Address 0
  is the failure value, which is sound because the invariant keeps frame 0 taken.
\<close>

locale frame_allocator =
  fixes alloc :: "'s \<Rightarrow> 's \<times> u32"
    and free :: "u32 \<Rightarrow> 's \<Rightarrow> 's"
    and used :: "'s \<Rightarrow> nat set"
    and limit :: "'s \<Rightarrow> nat"
    and inv :: "'s \<Rightarrow> bool"
  assumes alloc_fail: "inv s \<Longrightarrow> alloc s = (s', 0) \<Longrightarrow> s' = s"
    and alloc_ok: "inv s \<Longrightarrow> alloc s = (s', a) \<Longrightarrow> a \<noteq> 0 \<Longrightarrow>
      unat a mod 4096 = 0 \<and> 0 < unat a div 4096 \<and> unat a div 4096 < limit s \<and>
      unat a div 4096 \<notin> used s \<and> used s' = insert (unat a div 4096) (used s) \<and>
      limit s' = limit s \<and> inv s'"
    and free_ok: "inv s \<Longrightarrow> unat a div 4096 \<in> used s \<Longrightarrow> 0 < unat a div 4096 \<Longrightarrow>
      unat a div 4096 < limit s \<Longrightarrow>
      used (free a s) = used s - {unat a div 4096} \<and> limit (free a s) = limit s \<and> inv (free a s)"
begin

lemma alloc_inv:
  assumes "inv s" "alloc s = (s', a)"
  shows "inv s'"
  using alloc_fail [of s s'] alloc_ok [OF assms] assms by (cases "a = 0") auto

lemma alloc_mono:
  assumes "inv s" "alloc s = (s', a)"
  shows "used s \<subseteq> used s'"
  using alloc_fail [of s s'] alloc_ok [OF assms] assms by (cases "a = 0") auto

lemma alloc_free_roundtrip:
  assumes "inv s" "alloc s = (s', a)" "a \<noteq> 0"
  shows "used (free a s') = used s \<and> inv (free a s')"
  using alloc_ok [OF assms] free_ok [of s' a] by auto

fun alloc_seq :: "nat \<Rightarrow> 's \<Rightarrow> u32 list \<times> 's" where
  "alloc_seq 0 s = ([], s)"
| "alloc_seq (Suc n) s = (case alloc s of (s1, a) \<Rightarrow>
     if a = 0 then ([], s1) else case alloc_seq n s1 of (as, s2) \<Rightarrow> (a # as, s2))"

lemma alloc_seq_distinct:
  assumes "inv s" "alloc_seq n s = (as, s')"
  shows "distinct (map (\<lambda>a. unat a div 4096) as)"
    and "set (map (\<lambda>a. unat a div 4096) as) \<inter> used s = {}"
    and "used s' = used s \<union> set (map (\<lambda>a. unat a div 4096) as)"
proof -
  have "distinct (map (\<lambda>a. unat a div 4096) as) \<and>
    set (map (\<lambda>a. unat a div 4096) as) \<inter> used s = {} \<and>
    used s' = used s \<union> set (map (\<lambda>a. unat a div 4096) as)"
    using assms
  proof (induction n arbitrary: s as)
    case (Suc n)
    obtain s1 a where a: "alloc s = (s1, a)" by force
    show ?case
    proof (cases "a = 0")
      case True
      with Suc.prems a alloc_fail [of s s1] show ?thesis by auto
    next
      case False
      obtain bs s2 where bs: "alloc_seq n s1 = (bs, s2)" by force
      have "as = a # bs" "s' = s2" using Suc.prems(2) a False bs by auto
      with alloc_ok [OF Suc.prems(1) a False] Suc.IH [of s1 bs] bs show ?thesis by auto
    qed
  qed simp
  then show "distinct (map (\<lambda>a. unat a div 4096) as)"
    "set (map (\<lambda>a. unat a div 4096) as) \<inter> used s = {}"
    "used s' = used s \<union> set (map (\<lambda>a. unat a div 4096) as)" by auto
qed

end

interpretation pmm_frames: frame_allocator pmm_alloc_page pmm_free_page used_frames
  "\<lambda>p. unat (total_pages p)" pmm_inv
proof unfold_locales
  fix s s' :: pmm assume "pmm_inv s" "pmm_alloc_page s = (s', 0)"
  then show "s' = s" by (cases rule: pmm_alloc_page_cases) auto
next
  fix s s' :: pmm and a :: u32 assume *: "pmm_inv s" "pmm_alloc_page s = (s', a)" and "a \<noteq> 0"
  have "f < alloc_limit s \<Longrightarrow> f < unat (total_pages s)" for f
    by (simp add: alloc_limit_def)
  with * \<open>a \<noteq> 0\<close> show "unat a mod 4096 = 0 \<and> 0 < unat a div 4096 \<and>
      unat a div 4096 < unat (total_pages s) \<and> unat a div 4096 \<notin> used_frames s \<and>
      used_frames s' = insert (unat a div 4096) (used_frames s) \<and>
      unat (total_pages s') = unat (total_pages s) \<and> pmm_inv s'"
    by (cases rule: pmm_alloc_page_cases) auto
next
  fix s :: pmm and a :: u32
  assume "pmm_inv s" "unat a div 4096 \<in> used_frames s" "0 < unat a div 4096"
    "unat a div 4096 < unat (total_pages s)"
  then show "used_frames (pmm_free_page a s) = used_frames s - {unat a div 4096} \<and>
    unat (total_pages (pmm_free_page a s)) = unat (total_pages s) \<and> pmm_inv (pmm_free_page a s)"
    by (simp add: pmm_free_page_used pmm_free_page_inv)
qed

section \<open>Initialisation\<close>

text \<open>The frames that lie wholly inside a region.\<close>

definition region_frames :: "memory_region \<Rightarrow> nat set" where
  "region_frames r = {f. unat (region_base r) \<le> 4096 * f \<and>
     4096 * Suc f \<le> unat (region_base r) + unat (region_length r)}"

definition region_no_wrap :: "memory_region \<Rightarrow> bool" where
  "region_no_wrap r \<longleftrightarrow> unat (region_base r) + unat (region_length r) < 2 ^ 64"

lemma free_first_le: "free_first base \<le> f \<Longrightarrow> unat base \<le> 4096 * f"
  by (auto simp: free_first_def split: if_splits)

lemma pmm_init_region_cases:
  assumes "region_no_wrap r"
  obtains (skip) "pmm_init_region r p = p"
  | (mark) base len where "region_available r" "pmm_init_region r p = pmm_mark_region_free base len p"
      "unat base = unat (region_base r)"
      "unat (base + len) \<le> unat (region_base r) + unat (region_length r)"
proof (cases "region_type r \<noteq> 1 \<or> region_base r \<ge> 0x100000000")
  case True
  then show thesis using skip by (auto simp: pmm_init_region_def)
next
  case False
  let ?base = "ucast (region_base r) :: u32"
  have lt: "unat (region_base r) < 4294967296" using False by (simp add: word_less_nat_alt not_le)
  then have b: "unat ?base = unat (region_base r)" by (simp add: unat_ucast_mod)
  have sum: "unat (region_base r + region_length r) = unat (region_base r) + unat (region_length r)"
    using assms by (simp add: region_no_wrap_def unat_word_ariths)
  have av: "region_available r" using False by (simp add: region_available_def)
  show thesis
  proof (cases "region_base r + region_length r > 0x100000000")
    case True
    have "pmm_init_region r p = pmm_mark_region_free ?base (0xFFFFFFF - ?base) p"
      using False True by (auto simp: pmm_init_region_def Let_def not_le)
    moreover have "unat (?base + (0xFFFFFFF - ?base)) \<le> unat (region_base r) + unat (region_length r)"
      using True sum by (simp add: word_less_nat_alt)
    ultimately show thesis using mark av b by blast
  next
    case cross: False
    let ?len = "ucast (region_length r) :: u32"
    have "pmm_init_region r p = pmm_mark_region_free ?base ?len p"
      using False cross by (auto simp: pmm_init_region_def Let_def not_le)
    moreover have "unat (?base + ?len) \<le> unat (region_base r) + unat (region_length r)"
      by (simp add: unat_word_ariths unat_ucast_mod mod_add_eq)
    ultimately show thesis using mark av b by blast
  qed
qed

lemma pmm_init_region_keeps:
  assumes nw: "region_no_wrap r" and inv: "pmm_count_ok p" "- used_frames p \<inter> {..<MAX_PAGES} \<subseteq> F"
    and tot: "region_available r \<Longrightarrow>
      min MAX_PAGES ((unat (region_base r) + unat (region_length r)) div 4096) \<le> unat (total_pages p)"
  shows "pmm_count_ok (pmm_init_region r p)" "total_pages (pmm_init_region r p) = total_pages p"
    "- used_frames (pmm_init_region r p) \<inter> {..<MAX_PAGES} \<subseteq>
       F \<union> (if region_available r then region_frames r else {})"
proof -
  have "pmm_count_ok (pmm_init_region r p) \<and> total_pages (pmm_init_region r p) = total_pages p \<and>
    - used_frames (pmm_init_region r p) \<inter> {..<MAX_PAGES} \<subseteq>
       F \<union> (if region_available r then region_frames r else {})"
  proof (cases rule: pmm_init_region_cases [OF nw, of p])
    case 1
    then show ?thesis using inv by auto
  next
    case (2 base len)
    have "unat (base + len) div 4096 \<le> (unat (region_base r) + unat (region_length r)) div 4096"
      using 2(4) by (rule div_le_mono)
    then have "unat (base + len) div 4096 \<le> unat (total_pages p)"
      using tot [OF 2(1)] unat_div_page [of "base + len"] by linarith
    moreover have "f \<in> region_frames r"
      if "free_first base \<le> f" "f < unat (base + len) div 4096" for f
    proof -
      have "4096 * Suc f \<le> unat (base + len)" using that(2) by (simp add: less_eq_div_iff_mult_less_eq Suc_le_eq [symmetric] mult.commute)
      with free_first_le [OF that(1)] 2(3,4) show ?thesis by (simp add: region_frames_def)
    qed
    ultimately show ?thesis
      using 2(1,2) inv by (auto simp: pmm_mark_region_free_used pmm_mark_region_free_count_ok)
  qed
  then show "pmm_count_ok (pmm_init_region r p)" "total_pages (pmm_init_region r p) = total_pages p"
    "- used_frames (pmm_init_region r p) \<inter> {..<MAX_PAGES} \<subseteq>
       F \<union> (if region_available r then region_frames r else {})" by auto
qed

lemma fold_pmm_init_region:
  assumes "pmm_count_ok p" "- used_frames p \<inter> {..<MAX_PAGES} \<subseteq> F"
    and "\<forall>r \<in> set rs. region_no_wrap r \<and> (region_available r \<longrightarrow>
      min MAX_PAGES ((unat (region_base r) + unat (region_length r)) div 4096) \<le> unat (total_pages p))"
  shows "pmm_count_ok (fold pmm_init_region rs p) \<and>
    total_pages (fold pmm_init_region rs p) = total_pages p \<and>
    - used_frames (fold pmm_init_region rs p) \<inter> {..<MAX_PAGES} \<subseteq>
      F \<union> (\<Union>r \<in> {r \<in> set rs. region_available r}. region_frames r)"
  using assms
proof (induction rs arbitrary: p F)
  case (Cons r rs)
  let ?F = "F \<union> (if region_available r then region_frames r else {})"
  note k = pmm_init_region_keeps [of r p F]
  have "pmm_count_ok (fold pmm_init_region rs (pmm_init_region r p)) \<and>
    total_pages (fold pmm_init_region rs (pmm_init_region r p)) = total_pages (pmm_init_region r p) \<and>
    - used_frames (fold pmm_init_region rs (pmm_init_region r p)) \<inter> {..<MAX_PAGES} \<subseteq>
      ?F \<union> (\<Union>r \<in> {r \<in> set rs. region_available r}. region_frames r)"
    using Cons.prems k by (intro Cons.IH) auto
  moreover have "total_pages (pmm_init_region r p) = total_pages p" using Cons.prems k(2) by auto
  ultimately show ?case by (auto split: if_splits)
qed simp

lemma init_total_bound:
  assumes "memory_map_ok g" "r \<in> set (regions g)" "region_no_wrap r" "region_available r"
  defines "tot \<equiv> (if highest_address g > of_nat MAX_PAGES * 4096 then of_nat MAX_PAGES
                   else ucast (highest_address g div 4096)) :: u32"
  shows "min MAX_PAGES ((unat (region_base r) + unat (region_length r)) div 4096) \<le> unat tot"
proof -
  have "unat (region_base r + region_length r) = unat (region_base r) + unat (region_length r)"
    using assms(3) by (simp add: region_no_wrap_def unat_word_ariths)
  with memory_map_ok_highest [OF assms(1,2,4)]
  have "unat (region_base r) + unat (region_length r) \<le> unat (highest_address g)"
    by (simp add: word_le_nat_alt)
  then have "(unat (region_base r) + unat (region_length r)) div 4096 \<le> unat (highest_address g) div 4096"
    by (rule div_le_mono)
  then show ?thesis
    by (auto simp: tot_def unat_ucast_mod word_less_nat_alt)
qed

lemma used_frames_initial: "used_frames \<lparr>bitmap = (\<lambda>_. 0xFF), total_pages = t, used_pages = u\<rparr> = {..<MAX_PAGES}"
  by (auto simp: used_frames_def pmm_bit_def bit_255_int)

section \<open>Properties\<close>

lemma pmm_init_spec:
  assumes ok: "memory_map_ok g" and nw: "\<forall>r \<in> set (regions g). region_no_wrap r"
    and kend: "unat (kernel_end - 0xC0000000) + 4095 < 2 ^ 32"
    and p_def: "p = pmm_init g kernel_start kernel_end"
  shows "pmm_inv p \<and>
    (\<forall>f<MAX_PAGES. f \<notin> used_frames p \<longrightarrow>
       (\<exists>r \<in> set (regions g). region_available r \<and> f \<in> region_frames r)) \<and>
    (\<forall>f. unat kernel_start div 4096 \<le> f \<and> 4096 * f < unat (kernel_end - 0xC0000000) \<longrightarrow>
       f \<in> used_frames p)"
proof -
  let ?t = "(if highest_address g > of_nat MAX_PAGES * 4096 then of_nat MAX_PAGES
             else ucast (highest_address g div 4096)) :: u32"
  let ?p0 = "\<lparr>bitmap = (\<lambda>_. 0xFF), total_pages = ?t, used_pages = ?t\<rparr>"
  let ?p1 = "fold pmm_init_region (regions g) ?p0"
  have t: "unat ?t \<le> MAX_PAGES"
    by (auto simp: unat_ucast_mod word_less_nat_alt not_less)
  have cx: "pmm_count_ok \<lparr>bitmap = (\<lambda>_. 0xFF), total_pages = x, used_pages = x\<rparr>"
    if "unat x \<le> MAX_PAGES" for x
  proof -
    have "{..<MAX_PAGES} \<inter> {..<unat x} = {..<unat x}" using that by auto
    moreover have "{unat x..<MAX_PAGES} \<subseteq> {..<MAX_PAGES}" by auto
    ultimately show ?thesis using that
      by (simp only: pmm_count_ok_def used_frames_initial pmm.simps card_lessThan) simp
  qed
  have c0: "pmm_count_ok ?p0" by (rule cx [OF t])
  have f0: "- used_frames ?p0 \<inter> {..<MAX_PAGES} \<subseteq> {}" unfolding used_frames_initial by blast
  have "pmm_count_ok ?p1 \<and> total_pages ?p1 = total_pages ?p0 \<and>
    - used_frames ?p1 \<inter> {..<MAX_PAGES} \<subseteq>
      {} \<union> (\<Union>r \<in> {r \<in> set (regions g). region_available r}. region_frames r)"
    using c0 f0 nw init_total_bound [OF ok] by (intro fold_pmm_init_region) auto
  then have p1: "pmm_count_ok ?p1" "- used_frames ?p1 \<inter> {..<MAX_PAGES} \<subseteq>
      (\<Union>r \<in> {r \<in> set (regions g). region_available r}. region_frames r)" by auto
  have p: "p = pmm_mark_region_used kernel_start (kernel_end - 0xC0000000 - kernel_start)
      (pmm_mark_region_used 0 PAGE_SIZE ?p1)"
    by (simp add: p_def pmm_init_def memory_map_get_highest_address_def Let_def)
  have up: "used_frames p = used_frames ?p1 \<union> {0} \<union>
      {unat kernel_start div 4096..<unat (kernel_end - 0xC0000000 + 4095) div 4096}"
  proof -
    have "unat (0 + PAGE_SIZE + PAGE_SIZE - 1) div 4096 = Suc 0" by simp
    moreover have "kernel_start + (kernel_end - 0xC0000000 - kernel_start) + PAGE_SIZE - 1
        = kernel_end - 0xC0000000 + 4095" by simp
    ultimately show ?thesis unfolding p pmm_mark_region_used_all(1) by (simp only:) auto
  qed
  have "unat (kernel_end - 0xC0000000 + 4095) = unat (kernel_end - 0xC0000000) + 4095"
    using kend by (subst unat_add_u32) simp_all
  then have "f < unat (kernel_end - 0xC0000000 + 4095) div 4096"
    if "4096 * f < unat (kernel_end - 0xC0000000)" for f
    using that by (simp only:)
  then show ?thesis
    using p1 up by (auto simp: pmm_inv_def p pmm_mark_region_used_all(3))
qed

text \<open>
  The allocator comes up in a consistent state. Whatever map the boot loader gave (as
  long as no region wraps the 64-bit address space), after \<^verbatim>\<open>pmm_init\<close> the page counters
  agree with the bitmap, frame 0 is taken (so that 0 can mean failure), every free frame lies
  wholly inside a region the map calls available, and no frame of the kernel image is free.
\<close>

theorem pmm_init_safe:
  assumes ok: "memory_map_ok g" and nw: "\<forall>r \<in> set (regions g). region_no_wrap r"
    and kend: "unat (kernel_end - 0xC0000000) + 4095 < 2 ^ 32"
    and p_def: "p = pmm_init g kernel_start kernel_end"
  shows "pmm_inv p \<and>
    (\<forall>f<MAX_PAGES. f \<notin> used_frames p \<longrightarrow>
       (\<exists>r \<in> set (regions g). region_available r \<and> f \<in> region_frames r)) \<and>
    (\<forall>f. unat kernel_start div 4096 \<le> f \<and> 4096 * f < unat (kernel_end - 0xC0000000) \<longrightarrow>
       f \<in> used_frames p)"
  by (rule pmm_init_spec [OF assms])

theorem pmm_init_safe_witness:
  "pmm_inv (pmm_init map_example 0x100000 0xC0400000) \<and>
   0x3FF \<in> used_frames (pmm_init map_example 0x100000 0xC0400000)"
proof -
  have "memory_map_ok map_example"
    by (simp add: map_example_eval memory_map_ok_def region_available_def)
  moreover have "\<forall>r \<in> set (regions map_example). region_no_wrap r"
    by (simp add: map_example_eval region_no_wrap_def)
  moreover have "unat (0xC0400000 - 0xC0000000 :: u32) + 4095 < 2 ^ 32" by simp
  ultimately show ?thesis
    using pmm_init_safe [of map_example "0xC0400000" "pmm_init map_example 0x100000 0xC0400000"
        "0x100000"] by simp
qed

text \<open>
  C16: \<^verbatim>\<open>pmm_alloc_page\<close> is a first-fit allocator. In a consistent state it either returns 0,
  changes nothing and then no frame below \<open>8 * (total_pages / 8)\<close> is free, or it returns the
  page-aligned address of the lowest free frame, marks exactly that frame used, lowers the
  free-page count by one and keeps the state consistent.
\<close>

theorem pmm_alloc_page_first_fit:
  assumes "pmm_inv p" and "pmm_alloc_page p = (p', a)"
  shows "(a = 0 \<and> p' = p \<and> {..<alloc_limit p} \<subseteq> used_frames p) \<or>
    (\<exists>f. unat a = f * 4096 \<and> 0 < f \<and> f < alloc_limit p \<and>
       f \<notin> used_frames p \<and> {..<f} \<subseteq> used_frames p \<and>
       used_frames p' = insert f (used_frames p) \<and>
       pmm_get_free_page_count p' = pmm_get_free_page_count p - 1 \<and> pmm_inv p')"
proof -
  have "used_pages p' = used_pages p + 1 \<and> total_pages p' = total_pages p \<or> a = 0"
    using assms(2) by (auto simp: pmm_alloc_page_def Let_def split: option.splits)
  with assms show ?thesis
    by (cases rule: pmm_alloc_page_cases) (auto simp: pmm_get_free_page_count_def)
qed

definition pmm_example :: pmm where
  "pmm_example = \<lparr>bitmap = (\<lambda>i. if i = 0 then 7 else 0xFF), total_pages = 8, used_pages = 3\<rparr>"

lemma pmm_example_alloc: "snd (pmm_alloc_page pmm_example) = 0x3000"
  by code_simp

lemma pmm_example_inv: "pmm_inv pmm_example"
proof -
  have "(7 :: int) = mask 3" by (simp add: mask_eq_exp_minus_1)
  then have b: "bit (7 :: int) n \<longleftrightarrow> n < 3" for n by (simp only: bit_mask_iff) simp
  have "used_frames pmm_example \<inter> {..<8} = {..<3}"
    by (auto simp: used_frames_def pmm_bit_def pmm_example_def b)
  moreover have "{8..<MAX_PAGES} \<subseteq> used_frames pmm_example" "0 \<in> used_frames pmm_example"
    by (auto simp: used_frames_def pmm_bit_def pmm_example_def b bit_255_int)
  moreover have "total_pages pmm_example = 8" "used_pages pmm_example = 3"
    by (simp_all add: pmm_example_def)
  ultimately show ?thesis by (simp add: pmm_inv_def pmm_count_ok_def)
qed

theorem pmm_alloc_page_first_fit_witness:
  "snd (pmm_alloc_page pmm_example) = 0x3000 \<and> pmm_inv (fst (pmm_alloc_page pmm_example))"
proof -
  have e: "pmm_alloc_page pmm_example = (fst (pmm_alloc_page pmm_example), 0x3000)"
    using pmm_example_alloc by (metis prod.collapse)
  from pmm_alloc_page_first_fit [OF pmm_example_inv e] show ?thesis
    by (auto simp: pmm_example_alloc)
qed

text \<open>
  Releasing the page just allocated gives back the set of used frames that was there
  before, with the counters again consistent; and any number of allocations in a row returns
  pairwise different frames, none of them in use before.
\<close>

theorem pmm_alloc_free_roundtrip:
  assumes "pmm_inv p" and "pmm_alloc_page p = (p', a)" and "a \<noteq> 0"
  shows "used_frames (pmm_free_page a p') = used_frames p \<and> pmm_inv (pmm_free_page a p') \<and>
    (\<forall>n as q. pmm_frames.alloc_seq n p = (as, q) \<longrightarrow>
       distinct (map (\<lambda>a. unat a div 4096) as) \<and>
       set (map (\<lambda>a. unat a div 4096) as) \<inter> used_frames p = {})"
  using pmm_frames.alloc_free_roundtrip [OF assms] pmm_frames.alloc_seq_distinct [OF assms(1)] by blast

theorem pmm_alloc_free_roundtrip_witness:
  "used_frames (pmm_free_page 0x3000 (fst (pmm_alloc_page pmm_example))) = used_frames pmm_example"
proof -
  have e: "pmm_alloc_page pmm_example = (fst (pmm_alloc_page pmm_example), 0x3000)"
    using pmm_example_alloc by (metis prod.collapse)
  from pmm_alloc_free_roundtrip [OF pmm_example_inv e] show ?thesis by simp
qed

text \<open>
  A region that starts above 256 MB and crosses the 4 GB boundary should be clamped to the
  boundary; the clamping constant \<^verbatim>\<open>0xFFFFFFF\<close> has one digit too few, so the end of the region
  wraps below its start and none of its frames becomes free.
\<close>

theorem pmm_init_clamp_loses_memory:
  assumes "region_available r" "region_base r = 0x10000000" "region_length r = 0x100000000"
  shows "used_frames (pmm_init_region r p) = used_frames p"
  using assms by (simp add: pmm_init_region_def region_available_def Let_def
      pmm_mark_region_free_used free_first_def)

end
