(* ===== verification/Vmm.thy ===== *)
theory Vmm
  imports Pmm "HOL-Library.Monad_Syntax"
begin

text \<open>
  The virtual memory manager, \<^verbatim>\<open>kernel/kernel/vmm.c\<close> with \<^verbatim>\<open>vmm.h\<close>, over byte-addressed
  physical memory. \<open>translate\<close> is the two-level page walk of the i386; the C code reaches
  page directories and tables only through virtual addresses (the recursive mapping at
  \<^verbatim>\<open>0xFFC00000\<close>, the scratch page at \<^verbatim>\<open>0xE0000000\<close>), and so do the definitions here:
  every access goes through \<open>translate\<close>, and \<open>None\<close> is a page fault. TLB flushes have no
  counterpart: the walk always reads the tables. The pair a function returns is its C
  result and the machine after it. \<^verbatim>\<open>preemption_enabled\<close> is the flag of the scheduler,
  which \<^verbatim>\<open>vmm_destroy_address_space\<close> clears and sets. Cloning needs the kernel heap and is in
  the theory of address spaces.
\<close>

section \<open>Machine\<close>

record machine =
  pmm_state :: pmm
  pmem :: "nat \<Rightarrow> nat \<Rightarrow> u8"
  cr3 :: u32
  preemption_enabled :: bool

text \<open>Physical memory is indexed by frame number and byte offset; word \<open>i\<close> of a frame is at \<open>4 * i\<close>.\<close>

definition ld32 :: "(nat \<Rightarrow> nat \<Rightarrow> u8) \<Rightarrow> nat \<Rightarrow> nat \<Rightarrow> u32" where
  "ld32 mem f i = un_le32 [mem f (4 * i), mem f (4 * i + 1), mem f (4 * i + 2), mem f (4 * i + 3)]"

definition st32 :: "(nat \<Rightarrow> nat \<Rightarrow> u8) \<Rightarrow> nat \<Rightarrow> nat \<Rightarrow> u32 \<Rightarrow> (nat \<Rightarrow> nat \<Rightarrow> u8)" where
  "st32 mem f i v = mem(f := (\<lambda>k. if 4 * i \<le> k \<and> k < 4 * i + 4 then le32 v ! (k - 4 * i) else mem f k))"

abbreviation (input) PTE_PRESENT :: u32 where "PTE_PRESENT \<equiv> 1"
abbreviation (input) PTE_WRITABLE :: u32 where "PTE_WRITABLE \<equiv> 2"
abbreviation (input) PTE_USER :: u32 where "PTE_USER \<equiv> 4"
abbreviation (input) RECURSIVE_ENTRY :: nat where "RECURSIVE_ENTRY \<equiv> 1023"
abbreviation (input) SCRATCH :: u32 where "SCRATCH \<equiv> 0xE0000000"

definition pd_index :: "u32 \<Rightarrow> u32" where
  "pd_index vaddr = drop_bit 22 vaddr"

definition pt_index :: "u32 \<Rightarrow> u32" where
  "pt_index vaddr = drop_bit 12 vaddr AND 0x3FF"

definition pte_frame :: "u32 \<Rightarrow> nat" where
  "pte_frame e = unat (drop_bit 12 e)"

definition translate :: "machine \<Rightarrow> u32 \<Rightarrow> (nat \<times> nat) option" where
  "translate m v =
     (let pde = ld32 (pmem m) (pte_frame (cr3 m)) (unat (pd_index v))
      in if pde AND PTE_PRESENT = 0 then None
         else let pte = ld32 (pmem m) (pte_frame pde) (unat (pt_index v))
              in if pte AND PTE_PRESENT = 0 then None
                 else Some (pte_frame pte, unat (v AND 0xFFF)))"

definition vread32 :: "u32 \<Rightarrow> machine \<Rightarrow> u32 option" where
  "vread32 v m = do { (f, k) \<leftarrow> translate m v; Some (ld32 (pmem m) f (k div 4)) }"

definition vwrite32 :: "u32 \<Rightarrow> u32 \<Rightarrow> machine \<Rightarrow> machine option" where
  "vwrite32 v x m =
     do { (f, k) \<leftarrow> translate m v; Some (m\<lparr>pmem := st32 (pmem m) f (k div 4) x\<rparr>) }"

text \<open>\<^verbatim>\<open>memset(v, 0, PAGE_SIZE)\<close> at a page-aligned address: all of one frame.\<close>

definition vzero_page :: "u32 \<Rightarrow> machine \<Rightarrow> machine option" where
  "vzero_page v m =
     do { (f, k) \<leftarrow> translate m v; Some (m\<lparr>pmem := (pmem m)(f := (\<lambda>_. 0))\<rparr>) }"

text \<open>A C loop over a list of index values whose body may fault.\<close>

fun for_each :: "('a \<Rightarrow> 's \<Rightarrow> 's option) \<Rightarrow> 'a list \<Rightarrow> 's \<Rightarrow> 's option" where
  "for_each body [] s = Some s"
| "for_each body (x # xs) s = Option.bind (body x s) (for_each body xs)"

section \<open>Operations\<close>

definition vmm_get_page_directory :: u32 where
  "vmm_get_page_directory = 0xFFFFF000"

definition vmm_get_page_table :: "u32 \<Rightarrow> u32" where
  "vmm_get_page_table pdi = 0xFFC00000 + pdi * PAGE_SIZE"

text \<open>\<^verbatim>\<open>vmm_init\<close> stores the recursive entry in the boot page directory; \<open>pd_phys\<close> is its address.\<close>

definition vmm_init :: "u32 \<Rightarrow> machine \<Rightarrow> machine" where
  "vmm_init pd_phys m =
     m\<lparr>pmem := st32 (pmem m) (pte_frame pd_phys) RECURSIVE_ENTRY
         (pd_phys OR PTE_PRESENT OR PTE_WRITABLE)\<rparr>"

definition vmm_map_page :: "u32 \<Rightarrow> u32 \<Rightarrow> u32 \<Rightarrow> machine \<Rightarrow> (bool \<times> machine) option" where
  "vmm_map_page virtual_addr physical_addr flags m =
     do {
       let pdi = pd_index virtual_addr;
       let pti = pt_index virtual_addr;
       let pd = vmm_get_page_directory;
       pde \<leftarrow> vread32 (pd + 4 * pdi) m;
       (ok, m) \<leftarrow>
         (if pde AND PTE_PRESENT = 0 then
            (case pmm_alloc_page (pmm_state m) of (p, pt_phys) \<Rightarrow>
               if pt_phys = 0 then Some (False, m\<lparr>pmm_state := p\<rparr>)
               else do {
                 m \<leftarrow> vwrite32 (pd + 4 * pdi)
                       (pt_phys OR PTE_PRESENT OR PTE_WRITABLE OR (flags AND PTE_USER))
                       (m\<lparr>pmm_state := p\<rparr>);
                 m \<leftarrow> vzero_page (vmm_get_page_table pdi) m;
                 Some (True, m) })
          else Some (True, m));
       if \<not> ok then Some (False, m)
       else do {
         let pt = vmm_get_page_table pdi;
         old \<leftarrow> vread32 (pt + 4 * pti) m;
         m \<leftarrow> vwrite32 (pt + 4 * pti)
               ((physical_addr AND 0xFFFFF000) OR (flags AND 0xFFF) OR PTE_PRESENT) m;
         Some (True, m) }
     }"

definition vmm_unmap_page :: "u32 \<Rightarrow> machine \<Rightarrow> (u32 \<times> machine) option" where
  "vmm_unmap_page virtual_addr m =
     do {
       let pdi = pd_index virtual_addr;
       let pti = pt_index virtual_addr;
       pde \<leftarrow> vread32 (vmm_get_page_directory + 4 * pdi) m;
       if pde AND PTE_PRESENT = 0 then Some (0, m)
       else do {
         let pt = vmm_get_page_table pdi;
         pte \<leftarrow> vread32 (pt + 4 * pti) m;
         if pte AND PTE_PRESENT = 0 then Some (0, m)
         else do {
           m \<leftarrow> vwrite32 (pt + 4 * pti) 0 m;
           Some (pte AND 0xFFFFF000, m) } }
     }"

definition vmm_is_mapped :: "u32 \<Rightarrow> machine \<Rightarrow> bool option" where
  "vmm_is_mapped virtual_addr m =
     do {
       let pdi = pd_index virtual_addr;
       let pti = pt_index virtual_addr;
       pde \<leftarrow> vread32 (vmm_get_page_directory + 4 * pdi) m;
       if pde AND PTE_PRESENT = 0 then Some False
       else do {
         pte \<leftarrow> vread32 (vmm_get_page_table pdi + 4 * pti) m;
         Some (pte AND PTE_PRESENT \<noteq> 0) }
     }"

definition vmm_get_physical :: "u32 \<Rightarrow> machine \<Rightarrow> u32 option" where
  "vmm_get_physical virtual_addr m =
     do {
       let pdi = pd_index virtual_addr;
       let pti = pt_index virtual_addr;
       pde \<leftarrow> vread32 (vmm_get_page_directory + 4 * pdi) m;
       if pde AND PTE_PRESENT = 0 then Some 0
       else do {
         pte \<leftarrow> vread32 (vmm_get_page_table pdi + 4 * pti) m;
         if pte AND PTE_PRESENT = 0 then Some 0
         else Some ((pte AND 0xFFFFF000) OR (virtual_addr AND 0xFFF)) }
     }"

definition vmm_switch_address_space :: "u32 \<Rightarrow> machine \<Rightarrow> machine" where
  "vmm_switch_address_space pd_phys m = m\<lparr>cr3 := pd_phys\<rparr>"

definition vmm_get_current_address_space :: "machine \<Rightarrow> u32" where
  "vmm_get_current_address_space m = cr3 m"

definition vmm_create_address_space :: "machine \<Rightarrow> (u32 \<times> machine) option" where
  "vmm_create_address_space m =
     (case pmm_alloc_page (pmm_state m) of (p, new_pd_phys) \<Rightarrow>
        let m = m\<lparr>pmm_state := p\<rparr> in
        if new_pd_phys = 0 then Some (0, m)
        else do {
          (ok, m) \<leftarrow> vmm_map_page SCRATCH new_pd_phys (PTE_PRESENT OR PTE_WRITABLE) m;
          if \<not> ok then Some (0, m\<lparr>pmm_state := pmm_free_page new_pd_phys (pmm_state m)\<rparr>)
          else do {
            m \<leftarrow> for_each (\<lambda>i. vwrite32 (SCRATCH + 4 * of_nat i) 0) [0..<768] m;
            m \<leftarrow> for_each (\<lambda>i m. do {
                    e \<leftarrow> vread32 (vmm_get_page_directory + 4 * of_nat i) m;
                    vwrite32 (SCRATCH + 4 * of_nat i) e m }) [768..<1023] m;
            m \<leftarrow> vwrite32 (SCRATCH + 4 * drop_bit 22 SCRATCH) 0 m;
            m \<leftarrow> vwrite32 (SCRATCH + 4 * 1023) (new_pd_phys OR PTE_PRESENT OR PTE_WRITABLE) m;
            (_, m) \<leftarrow> vmm_unmap_page SCRATCH m;
            Some (new_pd_phys, m) } })"

section \<open>Words of a frame\<close>

lemma ld32_st32_same [simp]: "ld32 (st32 mem f i v) f i = v"
proof -
  have "ld32 (st32 mem f i v) f i = un_le32 [le32 v ! 0, le32 v ! 1, le32 v ! 2, le32 v ! 3]"
    by (simp add: ld32_def st32_def)
  also have "\<dots> = un_le32 (le32 v)" by (simp add: un_le32_def numeral_eq_Suc)
  finally show ?thesis by simp
qed

lemma ld32_st32_other: "(f, i) \<noteq> (g, j) \<Longrightarrow> ld32 (st32 mem f i v) g j = ld32 mem g j"
  by (auto simp: ld32_def st32_def)

lemma ld32_st32 [simp]:
  "ld32 (st32 mem f i v) g j = (if f = g \<and> i = j then v else ld32 mem g j)"
  using ld32_st32_other [of f i g j] by auto

lemma ld32_zero_frame [simp]:
  "ld32 (mem(f := (\<lambda>_. 0))) g j = (if f = g then 0 else ld32 mem g j)"
  by (simp add: ld32_def un_le32_def)

section \<open>Addresses\<close>

lemma mask_numerals: "(0xFFF :: u32) = mask 12" "(0x3FF :: u32) = mask 10"
  "(0xFFFFF000 :: u32) = NOT (mask 12)"
  by (simp_all add: mask_eq_exp_minus_1)

lemma unat_pd_index [layout]: "unat (pd_index v) = unat v div 4194304"
  by (simp add: pd_index_def drop_bit_eq_div unat_div)

lemma unat_and_mask: "unat ((x :: u32) AND mask n) = unat x mod 2 ^ n"
proof -
  have "unat (take_bit n x) = take_bit n (unat x)" by (rule unsigned_take_bit_eq)
  then show ?thesis by (simp only: take_bit_eq_mask [symmetric] take_bit_eq_mod)
qed

lemma unat_pt_index [layout]: "unat (pt_index v) = unat v div 4096 mod 1024"
  by (simp add: pt_index_def mask_numerals unat_and_mask unat_drop_bit)

lemma unat_offset [layout]: "unat (v AND 0xFFF :: u32) = unat v mod 4096"
  by (simp add: mask_numerals unat_and_mask)

lemma pte_frame_unat [layout]: "pte_frame e = unat e div 4096"
  by (simp add: pte_frame_def unat_drop_bit)

lemma pd_index_lt: "unat (pd_index v) < 1024"
  using unat_u32_bound [of v] by (simp add: unat_pd_index)

lemma pt_index_lt: "unat (pt_index v) < 1024"
  by (simp add: unat_pt_index)

lemma same_page_iff:
  "pd_index w = pd_index v \<and> pt_index w = pt_index v \<longleftrightarrow> unat w div 4096 = unat v div 4096"
proof -
  have "unat x div 4194304 = unat x div 4096 div 1024" for x :: u32
    by (simp add: div_mult2_eq [symmetric])
  then have "pd_index w = pd_index v \<and> pt_index w = pt_index v \<longleftrightarrow>
      unat w div 4096 div 1024 = unat v div 4096 div 1024 \<and>
      unat w div 4096 mod 1024 = unat v div 4096 mod 1024"
    by (simp only: word_eq_unat unat_pd_index unat_pt_index)
  also have "\<dots> \<longleftrightarrow> unat w div 4096 = unat v div 4096"
    by (metis div_mult_mod_eq)
  finally show ?thesis .
qed

section \<open>Directory and table entries\<close>

abbreviation present :: "u32 \<Rightarrow> bool" where
  "present e \<equiv> e AND 1 \<noteq> 0"

definition pdf :: "machine \<Rightarrow> nat" where
  "pdf m = pte_frame (cr3 m)"

definition pde :: "machine \<Rightarrow> nat \<Rightarrow> u32" where
  "pde m i = ld32 (pmem m) (pdf m) i"

definition pte :: "machine \<Rightarrow> nat \<Rightarrow> nat \<Rightarrow> u32" where
  "pte m i j = ld32 (pmem m) (pte_frame (pde m i)) j"

definition rec_ok :: "machine \<Rightarrow> bool" where
  "rec_ok m \<longleftrightarrow> present (pde m 1023) \<and> pte_frame (pde m 1023) = pdf m"

definition table_indices :: "machine \<Rightarrow> nat set" where
  "table_indices m = {i. i < 1024 \<and> present (pde m i)}"

text \<open>
  Well-formed paging: the directory maps itself at entry 1023, no two present entries share a
  table frame, and every table frame is marked used, so that none is ever handed out again.
\<close>

definition vm_wf :: "machine \<Rightarrow> bool" where
  "vm_wf m \<longleftrightarrow> pmm_inv (pmm_state m) \<and> rec_ok m \<and>
     inj_on (\<lambda>i. pte_frame (pde m i)) (table_indices m) \<and>
     (\<forall>i \<in> table_indices m. pte_frame (pde m i) \<in> used_frames (pmm_state m))"

lemma vm_wf_rec_ok: "vm_wf m \<Longrightarrow> rec_ok m"
  by (simp add: vm_wf_def)

lemma translate_entries:
  "translate m v = (if present (pde m (unat (pd_index v))) \<and>
       present (pte m (unat (pd_index v)) (unat (pt_index v)))
     then Some (pte_frame (pte m (unat (pd_index v)) (unat (pt_index v))), unat v mod 4096) else None)"
  by (simp add: translate_def pde_def pte_def pdf_def unat_offset Let_def)

lemma translate_at:
  assumes "unat v = i * 4194304 + j * 4096 + k" "i < 1024" "j < 1024" "k < 4096"
  shows "translate m v = (if present (pde m i) \<and> present (pte m i j)
    then Some (pte_frame (pte m i j), k) else None)"
proof -
  have v: "unat v = k + (j + i * 1024) * 4096" using assms(1) by simp
  have "unat v div 4096 = j + i * 1024" "unat v mod 4096 = k"
    unfolding v by (rule add_mult_div [OF assms(4)], rule add_mult_mod [OF assms(4)])
  moreover have "unat v div 4194304 = unat v div 4096 div 1024"
    by (simp add: div_mult2_eq [symmetric])
  ultimately have "unat v div 4194304 = i" "unat v div 4096 mod 1024 = j" "unat v mod 4096 = k"
    using assms(3) by simp_all
  then show ?thesis unfolding translate_entries unat_pd_index unat_pt_index by simp
qed

lemma pte_1023: "rec_ok m \<Longrightarrow> pte m 1023 i = pde m i"
  by (simp add: rec_ok_def pte_def pde_def)

lemma translate_pd_slot:
  assumes "rec_ok m" "unat i < 1024"
  shows "translate m (vmm_get_page_directory + 4 * i) = Some (pdf m, 4 * unat i)"
proof -
  have "unat (4 * i) = 4 * unat i" using assms(2) by (simp add: unat_word_ariths)
  then have "unat (vmm_get_page_directory + 4 * i) = 1023 * 4194304 + 1023 * 4096 + 4 * unat i"
    using assms(2) by (simp add: vmm_get_page_directory_def unat_word_ariths)
  from translate_at [OF this] assms pte_1023 [OF assms(1), of 1023] show ?thesis
    by (simp add: rec_ok_def)
qed

lemma translate_pt_slot:
  assumes "rec_ok m" "unat i < 1024" "unat j < 1024" "present (pde m (unat i))"
  shows "translate m (vmm_get_page_table i + 4 * j) = Some (pte_frame (pde m (unat i)), 4 * unat j)"
proof -
  have "unat (4 * j) = 4 * unat j" using assms(3) by (simp add: unat_word_ariths)
  moreover have "unat (i * 4096) = 4096 * unat i" using assms(2) by (simp add: unat_word_ariths)
  ultimately have "unat (vmm_get_page_table i + 4 * j) = 1023 * 4194304 + unat i * 4096 + 4 * unat j"
    using assms(2,3) by (simp add: vmm_get_page_table_def unat_word_ariths)
  from translate_at [OF this] assms pte_1023 [OF assms(1)] show ?thesis
    by (simp add: rec_ok_def)
qed

text \<open>Through the recursive mapping, the C accesses are accesses to directory and table entries.\<close>

definition set_pde :: "nat \<Rightarrow> u32 \<Rightarrow> machine \<Rightarrow> machine" where
  "set_pde i x m = m\<lparr>pmem := st32 (pmem m) (pdf m) i x\<rparr>"

definition set_pte :: "nat \<Rightarrow> nat \<Rightarrow> u32 \<Rightarrow> machine \<Rightarrow> machine" where
  "set_pte i j x m = m\<lparr>pmem := st32 (pmem m) (pte_frame (pde m i)) j x\<rparr>"

definition zero_table :: "nat \<Rightarrow> machine \<Rightarrow> machine" where
  "zero_table i m = m\<lparr>pmem := (pmem m)(pte_frame (pde m i) := (\<lambda>_. 0))\<rparr>"

lemma pd_access:
  assumes "rec_ok m" "unat i < 1024"
  shows "vread32 (vmm_get_page_directory + 4 * i) m = Some (pde m (unat i))"
    and "vwrite32 (vmm_get_page_directory + 4 * i) x m = Some (set_pde (unat i) x m)"
  by (simp_all add: vread32_def vwrite32_def translate_pd_slot [OF assms] pde_def set_pde_def)

lemma pt_access:
  assumes "rec_ok m" "unat i < 1024" "unat j < 1024" "present (pde m (unat i))"
  shows "vread32 (vmm_get_page_table i + 4 * j) m = Some (pte m (unat i) (unat j))"
    and "vwrite32 (vmm_get_page_table i + 4 * j) x m = Some (set_pte (unat i) (unat j) x m)"
  by (simp_all add: vread32_def vwrite32_def translate_pt_slot [OF assms] pte_def set_pte_def)

lemma pt_zero:
  assumes "rec_ok m" "unat i < 1024" "present (pde m (unat i))"
  shows "vzero_page (vmm_get_page_table i) m = Some (zero_table (unat i) m)"
  using translate_pt_slot [OF assms(1,2) _ assms(3), of 0]
  by (simp add: vzero_page_def zero_table_def)

lemma entry_setters_frame [frame_rules, simp]:
  "cr3 (set_pde i x m) = cr3 m" "pmm_state (set_pde i x m) = pmm_state m" "pdf (set_pde i x m) = pdf m"
  "cr3 (set_pte i j x m) = cr3 m" "pmm_state (set_pte i j x m) = pmm_state m" "pdf (set_pte i j x m) = pdf m"
  "cr3 (zero_table i m) = cr3 m" "pmm_state (zero_table i m) = pmm_state m" "pdf (zero_table i m) = pdf m"
  "cr3 (m\<lparr>pmm_state := p\<rparr>) = cr3 m" "pdf (m\<lparr>pmm_state := p\<rparr>) = pdf m" "pde (m\<lparr>pmm_state := p\<rparr>) = pde m"
  "pte (m\<lparr>pmm_state := p\<rparr>) = pte m"
  by (simp_all add: set_pde_def set_pte_def zero_table_def pdf_def pde_def pte_def fun_eq_iff)

lemma pde_set_pde [simp]: "pde (set_pde i x m) k = (if k = i then x else pde m k)"
  unfolding pde_def by (simp add: set_pde_def pdf_def)

lemma rec_ok_pmm [simp]: "rec_ok (m\<lparr>pmm_state := p\<rparr>) = rec_ok m"
  by (simp add: rec_ok_def)

lemma table_indices_pmm [simp]: "table_indices (m\<lparr>pmm_state := p\<rparr>) = table_indices m"
  by (simp add: table_indices_def)

lemma table_1023: "rec_ok m \<Longrightarrow> 1023 \<in> table_indices m"
  by (simp add: rec_ok_def table_indices_def)

lemma table_frames_differ:
  assumes "vm_wf m" "i \<in> table_indices m" "k \<in> table_indices m" "i \<noteq> k"
  shows "pte_frame (pde m i) \<noteq> pte_frame (pde m k)"
  using assms by (auto simp: vm_wf_def dest: inj_onD)

lemma table_frame_not_dir:
  assumes "vm_wf m" "i \<in> table_indices m" "i \<noteq> 1023"
  shows "pte_frame (pde m i) \<noteq> pdf m"
  using table_frames_differ [OF assms(1,2) table_1023 assms(3)] assms(1)
  by (simp add: vm_wf_def rec_ok_def)

section \<open>Changing a table entry\<close>

lemma set_pte_entries:
  assumes "vm_wf m" "i \<in> table_indices m" "i \<noteq> 1023"
  shows "pde (set_pte i j x m) = pde m"
    and "k \<in> table_indices m \<Longrightarrow> pte (set_pte i j x m) k l = (if k = i \<and> l = j then x else pte m k l)"
proof -
  have "pte_frame (pde m i) \<noteq> pdf m" by (rule table_frame_not_dir [OF assms])
  then show pd: "pde (set_pte i j x m) = pde m"
    by (auto simp: fun_eq_iff pde_def set_pte_def pdf_def)
  assume "k \<in> table_indices m"
  then have "k \<noteq> i \<Longrightarrow> pte_frame (pde m i) \<noteq> pte_frame (pde m k)"
    using table_frames_differ [OF assms(1,2)] by blast
  then show "pte (set_pte i j x m) k l = (if k = i \<and> l = j then x else pte m k l)"
    unfolding pte_def pd by (auto simp: set_pte_def)
qed

lemma set_pte_wf:
  assumes "vm_wf m" "i \<in> table_indices m" "i \<noteq> 1023"
  shows "vm_wf (set_pte i j x m)"
  using assms(1) set_pte_entries(1) [OF assms]
  by (simp add: vm_wf_def rec_ok_def table_indices_def)

lemma set_pte_translate:
  assumes "vm_wf m" "i \<in> table_indices m" "i \<noteq> 1023"
  shows "translate (set_pte i j x m) w =
    (if unat (pd_index w) = i \<and> unat (pt_index w) = j
     then if present x then Some (pte_frame x, unat w mod 4096) else None
     else translate m w)"
proof (cases "unat (pd_index w) \<in> table_indices m")
  case True
  then show ?thesis
    using set_pte_entries [OF assms] by (auto simp: translate_entries table_indices_def)
next
  case False
  then have "\<not> present (pde m (unat (pd_index w)))" "unat (pd_index w) \<noteq> i"
    using pd_index_lt [of w] assms(2) by (auto simp: table_indices_def)
  then show ?thesis
    using set_pte_entries [OF assms] by (simp add: translate_entries)
qed

section \<open>Installing a page table\<close>

lemma pte_frame_or_low: "unat x < 4096 \<Longrightarrow> pte_frame (a OR x) = pte_frame a"
proof -
  assume "unat x < 4096"
  then have "drop_bit 12 x = 0" by (simp add: word_eq_unat unat_drop_bit)
  then show ?thesis by (simp add: pte_frame_def)
qed

lemma unat_and_le: "unat ((x :: u32) AND y) \<le> unat y"
  using word_and_le1 [of x y] by (simp add: word_le_nat_alt)

lemma unat_or_12: "unat x < 4096 \<Longrightarrow> unat y < 4096 \<Longrightarrow> unat ((x :: u32) OR y) < 4096"
proof -
  assume "unat x < 4096" "unat y < 4096"
  then have "drop_bit 12 x = 0" "drop_bit 12 y = 0" by (simp_all add: word_eq_unat unat_drop_bit)
  then have "drop_bit 12 (x OR y) = 0" by simp
  then have "unat (x OR y) div 2 ^ 12 = 0" by (metis unat_drop_bit unat_0)
  then show ?thesis by simp
qed

definition new_table :: "nat \<Rightarrow> u32 \<Rightarrow> u32 \<Rightarrow> machine \<Rightarrow> machine" where
  "new_table i a flags m = zero_table i (set_pde i (a OR 1 OR 2 OR (flags AND 4)) m)"

lemma pte_frame_new: "pte_frame (a OR 1 OR 2 OR (flags AND 4)) = pte_frame a"
  using unat_and_le [of flags 4] by (intro pte_frame_or_low unat_or_12) (auto simp: or.assoc)

lemma present_or_1 [simp]: "present (a OR 1 OR b)"
proof -
  have "bit (a OR 1 OR b) 0" by (simp add: bit_or_iff)
  then show ?thesis by (simp add: and_one_eq odd_iff_mod_2_eq_one bit_0)
qed

lemma fresh_frame:
  assumes "vm_wf m" "pmm_alloc_page (pmm_state m) = (p, a)" "a \<noteq> 0"
  shows "pmm_inv p" "used_frames p = insert (pte_frame a) (used_frames (pmm_state m))"
    "pte_frame a \<noteq> pdf m" "k \<in> table_indices m \<Longrightarrow> pte_frame a \<noteq> pte_frame (pde m k)"
    "pte_frame a \<notin> used_frames (pmm_state m)"
proof -
  have pi: "pmm_inv (pmm_state m)" using assms(1) by (simp add: vm_wf_def)
  from pmm_frames.alloc_ok [OF pi assms(2,3)]
  have a: "pte_frame a \<notin> used_frames (pmm_state m)" "pmm_inv p"
    "used_frames p = insert (pte_frame a) (used_frames (pmm_state m))"
    by (simp_all add: pte_frame_unat)
  then show "pmm_inv p" "used_frames p = insert (pte_frame a) (used_frames (pmm_state m))"
    "pte_frame a \<notin> used_frames (pmm_state m)" by simp_all
  show ne: "k \<in> table_indices m \<Longrightarrow> pte_frame a \<noteq> pte_frame (pde m k)" for k
    using a(1) assms(1) by (auto simp: vm_wf_def)
  show "pte_frame a \<noteq> pdf m"
    using ne [OF table_1023] assms(1) by (simp add: vm_wf_def rec_ok_def)
qed

lemma new_table_entries:
  assumes "vm_wf m" "i < 1023" "\<not> present (pde m i)"
    and "pmm_alloc_page (pmm_state m) = (p, a)" "a \<noteq> 0"
  shows "pde (new_table i a flags (m\<lparr>pmm_state := p\<rparr>)) k =
      (if k = i then a OR 1 OR 2 OR (flags AND 4) else pde m k)"
    and "pte (new_table i a flags (m\<lparr>pmm_state := p\<rparr>)) i l = 0"
    and "k \<in> table_indices m \<Longrightarrow> k \<noteq> 1023 \<Longrightarrow>
      pte (new_table i a flags (m\<lparr>pmm_state := p\<rparr>)) k l = pte m k l"
proof -
  note fr = fresh_frame [OF assms(1,4,5)]
  let ?s = "set_pde i (a OR 1 OR 2 OR (flags AND 4)) (m\<lparr>pmm_state := p\<rparr>)"
  have f: "pte_frame (pde ?s i) = pte_frame a" by (simp add: pte_frame_new)
  have d: "pde (new_table i a flags (m\<lparr>pmm_state := p\<rparr>)) = pde ?s"
    using fr(3) by (simp add: fun_eq_iff new_table_def zero_table_def f pde_def pdf_def set_pde_def pte_frame_new)
  show "pde (new_table i a flags (m\<lparr>pmm_state := p\<rparr>)) k =
      (if k = i then a OR 1 OR 2 OR (flags AND 4) else pde m k)"
    unfolding d by simp
  show "pte (new_table i a flags (m\<lparr>pmm_state := p\<rparr>)) i l = 0"
    unfolding pte_def d f by (simp add: new_table_def zero_table_def f pte_frame_new)
  assume k: "k \<in> table_indices m" "k \<noteq> 1023"
  then have "k \<noteq> i" using assms(3) by (auto simp: table_indices_def)
  moreover have "pte_frame a \<noteq> pte_frame (pde m k)" "pdf m \<noteq> pte_frame (pde m k)"
    using fr(4) [OF k(1)] table_frame_not_dir [OF assms(1) k] by auto
  ultimately show "pte (new_table i a flags (m\<lparr>pmm_state := p\<rparr>)) k l = pte m k l"
    unfolding pte_def d by (simp add: new_table_def zero_table_def pte_frame_new) (simp add: set_pde_def)
qed

lemma new_table_frame [simp]:
  "cr3 (new_table i a flags m) = cr3 m" "pmm_state (new_table i a flags m) = pmm_state m"
  "pdf (new_table i a flags m) = pdf m"
  by (simp_all add: new_table_def)

lemma new_table_wf:
  assumes "vm_wf m" "i < 1023" "\<not> present (pde m i)"
    and "pmm_alloc_page (pmm_state m) = (p, a)" "a \<noteq> 0"
  shows "vm_wf (new_table i a flags (m\<lparr>pmm_state := p\<rparr>))"
    and "table_indices (new_table i a flags (m\<lparr>pmm_state := p\<rparr>)) = insert i (table_indices m)"
proof -
  note fr = fresh_frame [OF assms(1,4,5)] and e = new_table_entries(1) [OF assms]
  show ti: "table_indices (new_table i a flags (m\<lparr>pmm_state := p\<rparr>)) = insert i (table_indices m)"
    using assms(2) by (auto simp: table_indices_def e)
  have i: "i \<notin> table_indices m" using assms(3) by (simp add: table_indices_def)
  have rec: "rec_ok (new_table i a flags (m\<lparr>pmm_state := p\<rparr>))"
    using vm_wf_rec_ok [OF assms(1)] assms(2) by (simp add: rec_ok_def e)
  have inj: "inj_on (\<lambda>k. pte_frame (pde m k)) (table_indices m)"
    and used: "\<forall>k \<in> table_indices m. pte_frame (pde m k) \<in> used_frames (pmm_state m)"
    using assms(1) by (simp_all add: vm_wf_def)
  have "inj_on (\<lambda>k. pte_frame (pde (new_table i a flags (m\<lparr>pmm_state := p\<rparr>)) k)) (insert i (table_indices m))"
  proof (rule inj_onI)
    fix x y assume "x \<in> insert i (table_indices m)" "y \<in> insert i (table_indices m)"
      and "pte_frame (pde (new_table i a flags (m\<lparr>pmm_state := p\<rparr>)) x) =
           pte_frame (pde (new_table i a flags (m\<lparr>pmm_state := p\<rparr>)) y)"
    then show "x = y"
      using inj fr(4) fr(4) [THEN not_sym] i by (auto simp: e pte_frame_new dest: inj_onD split: if_splits)
  qed
  moreover have "\<forall>k \<in> insert i (table_indices m).
      pte_frame (pde (new_table i a flags (m\<lparr>pmm_state := p\<rparr>)) k) \<in> used_frames p"
    using used fr(2) by (auto simp: e pte_frame_new)
  ultimately show "vm_wf (new_table i a flags (m\<lparr>pmm_state := p\<rparr>))"
    unfolding vm_wf_def ti using fr(1) rec by simp
qed

lemma new_table_translate:
  assumes "vm_wf m" "i < 1023" "\<not> present (pde m i)"
    and "pmm_alloc_page (pmm_state m) = (p, a)" "a \<noteq> 0" "unat (pd_index w) \<noteq> 1023"
  shows "translate (new_table i a flags (m\<lparr>pmm_state := p\<rparr>)) w = translate m w"
proof (cases "unat (pd_index w) \<in> table_indices m")
  case True
  then show ?thesis
    using new_table_entries [OF assms(1-5)] assms(3,6)
    by (auto simp: translate_entries table_indices_def)
next
  case False
  then have "\<not> present (pde m (unat (pd_index w)))"
    using pd_index_lt [of w] by (simp add: table_indices_def)
  then show ?thesis
    using new_table_entries [OF assms(1-5)] by (simp add: translate_entries)
qed

section \<open>Mapping, unmapping and looking up pages\<close>

lemma new_pte:
  "present ((pa AND 0xFFFFF000) OR (flags AND 0xFFF) OR 1)"
  "pte_frame ((pa AND 0xFFFFF000) OR (flags AND 0xFFF) OR 1) = pte_frame pa"
proof -
  have "bit ((pa AND 0xFFFFF000) OR (flags AND 0xFFF) OR 1) 0" by (simp add: bit_or_iff)
  then show "present ((pa AND 0xFFFFF000) OR (flags AND 0xFFF) OR 1)"
    by (simp add: and_one_eq odd_iff_mod_2_eq_one bit_0)
  have "unat ((flags AND 0xFFF) OR 1) < 4096"
    by (rule unat_or_12) (simp_all add: unat_offset)
  then have "pte_frame ((pa AND 0xFFFFF000) OR (flags AND 0xFFF) OR 1) = pte_frame (pa AND 0xFFFFF000)"
    by (simp add: pte_frame_or_low or.assoc)
  also have "\<dots> = pte_frame pa"
    by (simp add: pte_frame_def mask_numerals) (auto simp: bit_eq_iff bit_simps dest: bit_imp_le_length)
  finally show "pte_frame ((pa AND 0xFFFFF000) OR (flags AND 0xFFF) OR 1) = pte_frame pa" .
qed

text \<open>What \<^verbatim>\<open>vmm_map_page\<close> does, in terms of the entries: the case split of its code.\<close>

lemma vmm_map_page_steps:
  assumes "vm_wf m" "unat (pd_index v) \<noteq> 1023"
  shows "vmm_map_page v pa flags m =
    (let i = unat (pd_index v); j = unat (pt_index v);
         x = (pa AND 0xFFFFF000) OR (flags AND 0xFFF) OR 1;
         (p, a) = pmm_alloc_page (pmm_state m)
     in if present (pde m i) then Some (True, set_pte i j x m)
        else if a = 0 then Some (False, m\<lparr>pmm_state := p\<rparr>)
        else Some (True, set_pte i j x (new_table i a flags (m\<lparr>pmm_state := p\<rparr>))))"
proof -
  obtain p a where al: "pmm_alloc_page (pmm_state m) = (p, a)" by fastforce
  have rec: "rec_ok m" by (rule vm_wf_rec_ok [OF assms(1)])
  note lt = pd_index_lt [of v] pt_index_lt [of v]
  have i: "unat (pd_index v) < 1023" using lt assms(2) by simp
  show ?thesis
  proof (cases "present (pde m (unat (pd_index v)))")
    case True
    then show ?thesis
      by (simp add: vmm_map_page_def pd_access [OF rec] pt_access [OF rec] lt al Let_def)
  next
    case False
    let ?n = "new_table (unat (pd_index v)) a flags (m\<lparr>pmm_state := p\<rparr>)"
    have "a \<noteq> 0 \<Longrightarrow> rec_ok ?n"
      by (rule vm_wf_rec_ok, rule new_table_wf(1) [OF assms(1) i False al])
    moreover have "a \<noteq> 0 \<Longrightarrow> pde ?n (unat (pd_index v)) = a OR 1 OR 2 OR (flags AND 4)"
      using new_table_entries(1) [OF assms(1) i False al] by simp
    moreover have "rec_ok (set_pde (unat (pd_index v)) (a OR 1 OR 2 OR (flags AND 4)) (m\<lparr>pmm_state := p\<rparr>))"
      using rec i by (simp add: rec_ok_def)
    ultimately show ?thesis
      using False
      by (simp add: vmm_map_page_def pd_access rec pt_access lt al Let_def pt_zero
            flip: new_table_def)
  qed
qed

lemma pd_index_kernel: "unat v < 0xFFC00000 \<longleftrightarrow> unat (pd_index v) \<noteq> 1023"
  using pd_index_lt [of v] by (auto simp: unat_pd_index)

lemma entry_installed:
  assumes "vm_wf m" "unat (pd_index v) \<in> table_indices m" "unat (pd_index v) \<noteq> 1023"
    and x: "x = (pa AND 0xFFFFF000) OR (flags AND 0xFFF) OR 1"
  shows "translate (set_pte (unat (pd_index v)) (unat (pt_index v)) x m) w =
    (if unat w div 4096 = unat v div 4096 then Some (pte_frame pa, unat w mod 4096) else translate m w)"
proof -
  have "unat (pd_index w) = unat (pd_index v) \<and> unat (pt_index w) = unat (pt_index v) \<longleftrightarrow>
      unat w div 4096 = unat v div 4096"
    using same_page_iff [of w v] by (simp only: word_eq_unat)
  then show ?thesis
    unfolding set_pte_translate [OF assms(1-3)] x using new_pte by simp
qed

lemma new_table_present:
  assumes "vm_wf m" "i < 1023" "\<not> present (pde m i)"
    and "pmm_alloc_page (pmm_state m) = (p, a)" "a \<noteq> 0"
  shows "i \<in> table_indices (new_table i a flags (m\<lparr>pmm_state := p\<rparr>))"
  by (simp add: new_table_wf(2) [OF assms])

lemma map_page_spec:
  assumes "vm_wf m" "unat v < 0xFFC00000"
  shows "\<exists>ok m'. vmm_map_page v pa flags m = Some (ok, m') \<and> vm_wf m' \<and> cr3 m' = cr3 m \<and>
    (ok \<longrightarrow> (\<forall>w. unat w div 4096 = unat v div 4096 \<longrightarrow>
       translate m' w = Some (unat pa div 4096, unat w mod 4096))) \<and>
    (\<forall>w. unat w < 0xFFC00000 \<and> unat w div 4096 \<noteq> unat v div 4096 \<longrightarrow>
       translate m' w = translate m w) \<and>
    (\<not> ok \<longrightarrow> m' = m \<and> snd (pmm_alloc_page (pmm_state m)) = 0 \<and> translate m v = None)"
proof -
  let ?i = "unat (pd_index v)" and ?j = "unat (pt_index v)"
  obtain p a where al: "pmm_alloc_page (pmm_state m) = (p, a)" by fastforce
  have v: "?i \<noteq> 1023" "?i < 1023" using assms(2) pd_index_lt [of v] by (auto simp: pd_index_kernel)
  note steps = vmm_map_page_steps [OF assms(1) v(1), of pa flags, unfolded al Let_def prod.case]
  show ?thesis
  proof (cases "present (pde m ?i)")
    case True
    then have "?i \<in> table_indices m" using v by (simp add: table_indices_def)
    from entry_installed [OF assms(1) this v(1) refl] set_pte_wf [OF assms(1) this v(1)] True
    show ?thesis by (auto simp: steps pte_frame_unat)
  next
    case np: False
    show ?thesis
    proof (cases "a = 0")
      case True
      have "p = pmm_state m"
        using pmm_frames.alloc_fail [of "pmm_state m" p] assms(1) al True by (simp add: vm_wf_def)
      with np True al assms(1) show ?thesis by (auto simp: steps translate_entries)
    next
      case False
      note nt = new_table_wf(1) [OF assms(1) v(2) np al False, of flags]
        new_table_present [OF assms(1) v(2) np al False, of flags]
      have "translate (new_table ?i a flags (m\<lparr>pmm_state := p\<rparr>)) w = translate m w"
        if "unat w < 0xFFC00000" for w
        using new_table_translate [OF assms(1) v(2) np al False] that by (simp add: pd_index_kernel)
      then show ?thesis
        using entry_installed [OF nt v(1) refl] set_pte_wf [OF nt v(1)] np False
        by (auto simp: steps pte_frame_unat)
    qed
  qed
qed

text \<open>
  C2: in a well-formed address space \<^verbatim>\<open>vmm_map_page\<close> never faults and keeps the paging
  structures well-formed. When it answers true, the processor translates every address of the
  page to the requested frame, with the page offset kept; every other page outside the
  recursive window translates as before. It answers false only when a page table was missing
  and no frame was left, and then nothing has changed.
\<close>

theorem vmm_map_page_correct:
  assumes "vm_wf m" "unat v < 0xFFC00000"
  shows "\<exists>ok m'. vmm_map_page v pa flags m = Some (ok, m') \<and> vm_wf m' \<and> cr3 m' = cr3 m \<and>
    (ok \<longrightarrow> (\<forall>w. unat w div 4096 = unat v div 4096 \<longrightarrow>
       translate m' w = Some (unat pa div 4096, unat w mod 4096))) \<and>
    (\<forall>w. unat w < 0xFFC00000 \<and> unat w div 4096 \<noteq> unat v div 4096 \<longrightarrow>
       translate m' w = translate m w) \<and>
    (\<not> ok \<longrightarrow> m' = m \<and> snd (pmm_alloc_page (pmm_state m)) = 0 \<and> translate m v = None)"
  by (rule map_page_spec [OF assms])

lemma frame_bits_unat: "unat (x AND 0xFFFFF000 :: u32) = unat x div 4096 * 4096"
proof -
  have "x AND 0xFFFFF000 = push_bit 12 (drop_bit 12 x)"
    by (simp add: mask_numerals) (auto simp: bit_eq_iff bit_simps)
  then have "x AND 0xFFFFF000 = drop_bit 12 x * 4096" by (simp add: push_bit_eq_mult)
  moreover have "unat x div 4096 * 4096 < 4294967296"
    using unat_u32_bound [of x] by linarith
  ultimately show ?thesis by (simp add: unat_word_ariths unat_drop_bit)
qed

lemma frame_and_offset_unat:
  "unat ((x AND 0xFFFFF000) OR (v AND 0xFFF) :: u32) = unat x div 4096 * 4096 + unat v mod 4096"
proof -
  have "(x AND 0xFFFFF000) OR (v AND 0xFFF) = (x AND 0xFFFFF000) + (v AND 0xFFF)"
    by (rule disjunctive_add [symmetric]) (auto simp: mask_numerals bit_simps)
  moreover have "unat x div 4096 * 4096 + unat v mod 4096 < 4294967296"
    using unat_div_page [of x] by (simp del: unat_div_page add: algebra_simps)
  ultimately show ?thesis by (simp add: unat_add_u32 frame_bits_unat unat_offset)
qed

text \<open>
  The two queries agree with the processor. \<^verbatim>\<open>vmm_is_mapped\<close> holds exactly when the page
  walk succeeds, and \<^verbatim>\<open>vmm_get_physical\<close> returns the physical address the walk ends at, or 0;
  neither can fault as long as the directory maps itself.
\<close>

theorem vmm_queries_are_the_page_walk:
  assumes "rec_ok m"
  shows "vmm_is_mapped v m = Some (translate m v \<noteq> None) \<and>
    vmm_get_physical v m =
      Some (case translate m v of None \<Rightarrow> 0 | Some (f, k) \<Rightarrow> of_nat (f * 4096 + k))"
proof -
  note acc = pd_access [OF assms pd_index_lt] pt_access [OF assms pd_index_lt pt_index_lt]
  have "(x AND 0xFFFFF000) OR (v AND 0xFFF) = of_nat (unat x div 4096 * 4096 + unat v mod 4096)" for x
    by (simp add: frame_and_offset_unat [symmetric] del: of_nat_add of_nat_mult)
  then have "vmm_get_physical v m =
      Some (case translate m v of None \<Rightarrow> 0 | Some (f, k) \<Rightarrow> of_nat (f * 4096 + k))"
    by (simp add: vmm_get_physical_def acc translate_entries Let_def pte_frame_unat)
  moreover have "vmm_is_mapped v m = Some (translate m v \<noteq> None)"
    by (simp add: vmm_is_mapped_def acc translate_entries Let_def)
  ultimately show ?thesis by simp
qed

lemma vmm_unmap_page_steps:
  assumes "rec_ok m"
  shows "vmm_unmap_page v m =
    (let i = unat (pd_index v); j = unat (pt_index v)
     in if present (pde m i) \<and> present (pte m i j)
        then Some (pte m i j AND 0xFFFFF000, set_pte i j 0 m) else Some (0, m))"
  by (simp add: vmm_unmap_page_def Let_def pd_access [OF assms pd_index_lt]
      pt_access [OF assms pd_index_lt pt_index_lt])

lemma unmap_page_spec:
  assumes "vm_wf m" "unat v < 0xFFC00000"
  shows "\<exists>r m'. vmm_unmap_page v m = Some (r, m') \<and> vm_wf m' \<and> cr3 m' = cr3 m \<and>
    unat r = (case translate m v of None \<Rightarrow> 0 | Some (f, _) \<Rightarrow> f * 4096) \<and>
    (\<forall>w. translate m' w = (if unat w div 4096 = unat v div 4096 then None else translate m w))"
proof -
  let ?i = "unat (pd_index v)" and ?j = "unat (pt_index v)"
  have rec: "rec_ok m" by (rule vm_wf_rec_ok [OF assms(1)])
  have i: "?i \<noteq> 1023" using assms(2) by (simp add: pd_index_kernel)
  have page: "unat (pd_index w) = ?i \<and> unat (pt_index w) = ?j \<longleftrightarrow> unat w div 4096 = unat v div 4096" for w
    using same_page_iff [of w v] by (simp only: word_eq_unat)
  show ?thesis
  proof (cases "present (pde m ?i) \<and> present (pte m ?i ?j)")
    case True
    then have ti: "?i \<in> table_indices m" using pd_index_lt [of v] by (simp add: table_indices_def)
    have "translate (set_pte ?i ?j 0 m) w = (if unat w div 4096 = unat v div 4096 then None else translate m w)" for w
      unfolding set_pte_translate [OF assms(1) ti i] page by simp
    then show ?thesis
      using True set_pte_wf [OF assms(1) ti i]
      by (auto simp: vmm_unmap_page_steps [OF rec] Let_def translate_entries frame_bits_unat pte_frame_unat)
  next
    case False
    have "translate m w = None" if "unat w div 4096 = unat v div 4096" for w
      using that False page [of w] by (auto simp: translate_entries)
    then show ?thesis
      using False assms(1) by (auto simp: vmm_unmap_page_steps [OF rec] Let_def split: option.splits)
  qed
qed

text \<open>
  \<^verbatim>\<open>vmm_unmap_page\<close> returns the frame the page was mapped to (0 if it was not mapped),
  removes exactly that page from the translation and keeps the paging structures well-formed.
\<close>

theorem vmm_unmap_page_correct:
  assumes "vm_wf m" "unat v < 0xFFC00000"
  shows "\<exists>r m'. vmm_unmap_page v m = Some (r, m') \<and> vm_wf m' \<and> cr3 m' = cr3 m \<and>
    unat r = (case translate m v of None \<Rightarrow> 0 | Some (f, _) \<Rightarrow> f * 4096) \<and>
    (\<forall>w. translate m' w = (if unat w div 4096 = unat v div 4096 then None else translate m w))"
  by (rule unmap_page_spec [OF assms])

section \<open>Address spaces\<close>

text \<open>
  While a frame \<open>F\<close> is mapped at the scratch page and is not itself a directory or a table of the
  current space, writing through the scratch page changes \<open>F\<close> and nothing of the paging structures.
\<close>

definition scratch_at :: "nat \<Rightarrow> machine \<Rightarrow> bool" where
  "scratch_at F m \<longleftrightarrow> vm_wf m \<and> 896 \<in> table_indices m \<and>
     (\<forall>k \<in> table_indices m. pte_frame (pde m k) \<noteq> F) \<and>
     present (pte m 896 0) \<and> pte_frame (pte m 896 0) = F"

definition wr :: "nat \<Rightarrow> nat \<Rightarrow> u32 \<Rightarrow> machine \<Rightarrow> machine" where
  "wr F i x m = m\<lparr>pmem := st32 (pmem m) F i x\<rparr>"

lemma wr_frame [simp]:
  "cr3 (wr F i x m) = cr3 m" "pmm_state (wr F i x m) = pmm_state m" "pdf (wr F i x m) = pdf m"
  "preemption_enabled (wr F i x m) = preemption_enabled m"
  by (simp_all add: wr_def pdf_def)

lemma wr_entries:
  assumes "scratch_at F m"
  shows "pde (wr F i x m) = pde m"
    and "k \<in> table_indices m \<Longrightarrow> pte (wr F i x m) k = pte m k"
proof -
  have "pdf m \<noteq> F"
    using assms table_1023 [of m] by (auto simp: scratch_at_def vm_wf_def rec_ok_def)
  then show p: "pde (wr F i x m) = pde m"
    by (auto simp: fun_eq_iff pde_def wr_def pdf_def)
  assume "k \<in> table_indices m"
  then have "pte_frame (pde m k) \<noteq> F" using assms by (simp add: scratch_at_def)
  then show "pte (wr F i x m) k = pte m k"
    by (auto simp: fun_eq_iff pte_def p) (auto simp: wr_def)
qed

lemma wr_scratch_at:
  assumes "scratch_at F m"
  shows "scratch_at F (wr F i x m)" "table_indices (wr F i x m) = table_indices m"
proof -
  note e = wr_entries [OF assms]
  show ti: "table_indices (wr F i x m) = table_indices m"
    by (simp add: table_indices_def e(1))
  show "scratch_at F (wr F i x m)"
    using assms by (simp add: scratch_at_def vm_wf_def rec_ok_def ti e)
qed

lemma scratch_translate:
  assumes "scratch_at F m" "i < 1024"
  shows "translate m (SCRATCH + 4 * of_nat i) = Some (F, 4 * i)"
proof -
  have "unat (4 * of_nat i :: u32) = 4 * i" using assms(2) by (simp add: unat_word_ariths unat_of_nat_u32)
  then have "unat (SCRATCH + 4 * of_nat i) = 896 * 4194304 + 0 * 4096 + 4 * i"
    using assms(2) by (subst unat_add_u32) simp_all
  from translate_at [OF this] assms show ?thesis
    by (simp add: scratch_at_def table_indices_def)
qed

lemma scratch_write:
  "scratch_at F m \<Longrightarrow> i < 1024 \<Longrightarrow> vwrite32 (SCRATCH + 4 * of_nat i) x m = Some (wr F i x m)"
  by (simp add: vwrite32_def scratch_translate wr_def)

lemma scratch_loop:
  assumes "scratch_at F m" "\<forall>i \<in> set is. i < 1024"
    and "\<forall>i m'. scratch_at F m' \<and> pde m' = pde m \<and> i < 1024 \<longrightarrow> body i m' = Some (wr F i (g i) m')"
  shows "for_each body is m = Some (fold (\<lambda>i. wr F i (g i)) is m)"
    and "scratch_at F (fold (\<lambda>i. wr F i (g i)) is m)"
    and "pde (fold (\<lambda>i. wr F i (g i)) is m) = pde m"
    and "k \<in> table_indices m \<Longrightarrow> pte (fold (\<lambda>i. wr F i (g i)) is m) k = pte m k"
    and "ld32 (pmem (fold (\<lambda>i. wr F i (g i)) is m)) F j =
      (if j \<in> set is then g j else ld32 (pmem m) F j)"
    and "cr3 (fold (\<lambda>i. wr F i (g i)) is m) = cr3 m \<and>
      pmm_state (fold (\<lambda>i. wr F i (g i)) is m) = pmm_state m"
proof -
  let ?P = "\<lambda>is m m'. for_each body is m = Some m' \<and> scratch_at F m' \<and> pde m' = pde m \<and>
    (\<forall>k \<in> table_indices m. pte m' k = pte m k) \<and>
    (\<forall>j. ld32 (pmem m') F j = (if j \<in> set is then g j else ld32 (pmem m) F j)) \<and>
    cr3 m' = cr3 m \<and> pmm_state m' = pmm_state m"
  have "?P is m (fold (\<lambda>i. wr F i (g i)) is m)"
    using assms
  proof (induction "is" arbitrary: m)
    case (Cons i "is")
    note e = wr_entries [OF Cons.prems(1), where i = i and x = "g i"]
      wr_scratch_at [OF Cons.prems(1), where i = i and x = "g i"]
    have "?P is (wr F i (g i) m) (fold (\<lambda>i. wr F i (g i)) is (wr F i (g i) m))"
      using Cons.prems e by (intro Cons.IH) auto
    moreover have "ld32 (pmem (wr F i (g i) m)) F j = (if j = i then g i else ld32 (pmem m) F j)" for j
      by (simp add: wr_def)
    ultimately show ?case using Cons.prems e by simp
  qed simp
  then show "for_each body is m = Some (fold (\<lambda>i. wr F i (g i)) is m)"
    "scratch_at F (fold (\<lambda>i. wr F i (g i)) is m)" "pde (fold (\<lambda>i. wr F i (g i)) is m) = pde m"
    "k \<in> table_indices m \<Longrightarrow> pte (fold (\<lambda>i. wr F i (g i)) is m) k = pte m k"
    "ld32 (pmem (fold (\<lambda>i. wr F i (g i)) is m)) F j = (if j \<in> set is then g j else ld32 (pmem m) F j)"
    "cr3 (fold (\<lambda>i. wr F i (g i)) is m) = cr3 m \<and> pmm_state (fold (\<lambda>i. wr F i (g i)) is m) = pmm_state m"
    by auto
qed

lemma SCRATCH_indices [simp]: "pd_index SCRATCH = 896" "pt_index SCRATCH = 0"
  by (simp_all add: word_eq_unat unat_pd_index unat_pt_index)

lemma map_scratch:
  assumes "vm_wf m" "pte_frame a \<in> used_frames (pmm_state m)"
    and "\<forall>k \<in> table_indices m. pte_frame (pde m k) \<noteq> pte_frame a"
  shows "\<exists>ok m'. vmm_map_page SCRATCH a flags m = Some (ok, m') \<and>
    (ok \<longrightarrow> scratch_at (pte_frame a) m' \<and> cr3 m' = cr3 m \<and>
       (\<forall>k. k \<noteq> 896 \<longrightarrow> pde m' k = pde m k) \<and>
       used_frames (pmm_state m) \<subseteq> used_frames (pmm_state m') \<and>
       (\<forall>w. unat w < 0xFFC00000 \<and> unat w div 4096 \<noteq> 0xE0000 \<longrightarrow> translate m' w = translate m w)) \<and>
    (\<not> ok \<longrightarrow> m' = m \<and> snd (pmm_alloc_page (pmm_state m)) = 0)"
proof -
  obtain ok m' where m': "vmm_map_page SCRATCH a flags m = Some (ok, m')" "vm_wf m'" "cr3 m' = cr3 m"
    and tr: "\<forall>w. unat w < 0xFFC00000 \<and> unat w div 4096 \<noteq> 0xE0000 \<longrightarrow> translate m' w = translate m w"
    and no: "\<not> ok \<longrightarrow> m' = m \<and> snd (pmm_alloc_page (pmm_state m)) = 0"
    using map_page_spec [OF assms(1), of SCRATCH a flags] by auto
  obtain p b where al: "pmm_alloc_page (pmm_state m) = (p, b)" by fastforce
  let ?x = "(a AND 0xFFFFF000) OR (flags AND 0xFFF) OR 1"
  let ?n = "new_table 896 b flags (m\<lparr>pmm_state := p\<rparr>)"
  have steps: "vmm_map_page SCRATCH a flags m =
      (if present (pde m 896) then Some (True, set_pte 896 0 ?x m)
       else if b = 0 then Some (False, m\<lparr>pmm_state := p\<rparr>) else Some (True, set_pte 896 0 ?x ?n))"
    using vmm_map_page_steps [OF assms(1), of SCRATCH a flags] by (simp add: al Let_def)
  have "scratch_at (pte_frame a) m' \<and> (\<forall>k. k \<noteq> 896 \<longrightarrow> pde m' k = pde m k) \<and>
      used_frames (pmm_state m) \<subseteq> used_frames (pmm_state m')" if ok
  proof (cases "present (pde m 896)")
    case True
    then have ti: "896 \<in> table_indices m" by (simp add: table_indices_def)
    have "m' = set_pte 896 0 ?x m" using m'(1) True by (simp add: steps)
    then show ?thesis
      using set_pte_entries [OF assms(1) ti] ti assms(3) m'(2) new_pte
      by (simp add: scratch_at_def table_indices_def)
  next
    case False
    then have b: "b \<noteq> 0" and eq: "m' = set_pte 896 0 ?x ?n" using m'(1) \<open>ok\<close> by (auto simp: steps split: if_splits)
    note fr = fresh_frame [OF assms(1) al b]
    note w = new_table_wf [OF assms(1) _ False al b, of flags, simplified]
    have ti: "896 \<in> table_indices ?n" by (simp add: w(2))
    note e = set_pte_entries [OF w(1) ti] new_table_entries [OF assms(1) _ False al b]
    have "pde m' = pde ?n" "table_indices m' = insert 896 (table_indices m)"
      using e(1) w(2) by (simp_all add: eq table_indices_def)
    moreover have "pte_frame b \<noteq> pte_frame a" using fr(5) assms(2) by auto
    ultimately show ?thesis
      using e ti assms(3) m'(2) new_pte fr(2)
      by (auto simp: scratch_at_def pte_frame_new eq)
  qed
  with m' tr no show ?thesis by auto
qed

lemma vm_wf_pmm_mono:
  assumes "vm_wf m" "pmm_inv p" "used_frames (pmm_state m) \<subseteq> used_frames p"
  shows "vm_wf (m\<lparr>pmm_state := p\<rparr>)"
  using assms by (auto simp: vm_wf_def)

text \<open>The contents of a new page directory at frame \<open>F\<close>, seen from the current space.\<close>

definition fresh_directory :: "nat \<Rightarrow> u32 \<Rightarrow> machine \<Rightarrow> bool" where
  "fresh_directory F a m \<longleftrightarrow>
     (\<forall>j < 1024. ld32 (pmem m) F j =
        (if j < 768 \<or> j = 896 then 0 else if j = 1023 then a OR 1 OR 2 else pde m j))"

lemma fill_directory:
  assumes "scratch_at F m" and xs: "xs = [0..<768]" and ys: "ys = [768..<1023]"
  shows "\<exists>m'. do {
      m \<leftarrow> for_each (\<lambda>i. vwrite32 (SCRATCH + 4 * of_nat i) 0) xs m;
      m \<leftarrow> for_each (\<lambda>i m. do {
              e \<leftarrow> vread32 (vmm_get_page_directory + 4 * of_nat i) m;
              vwrite32 (SCRATCH + 4 * of_nat i) e m }) ys m;
      m \<leftarrow> vwrite32 (SCRATCH + 4 * drop_bit 22 SCRATCH) 0 m;
      m \<leftarrow> vwrite32 (SCRATCH + 4 * 1023) (a OR 1 OR 2) m;
      (_, m) \<leftarrow> vmm_unmap_page SCRATCH m;
      Some (a, m) } = Some (a, m') \<and> vm_wf m' \<and> cr3 m' = cr3 m \<and> pmm_state m' = pmm_state m \<and>
    pde m' = pde m \<and> fresh_directory F a m' \<and>
    (\<forall>w. translate m' w = (if unat w div 4096 = 0xE0000 then None else translate m w))"
proof -
  have sets: "set xs = {0..<768}" "set ys = {768..<1023}" by (simp_all only: xs ys set_upt)
  then have lt: "\<forall>i \<in> set xs. i < 1024" "\<forall>i \<in> set ys. i < 1024" by auto
  let ?m1 = "fold (\<lambda>i. wr F i 0) xs m"
  have b0: "\<forall>i m'. scratch_at F m' \<and> pde m' = pde m \<and> i < 1024 \<longrightarrow>
      vwrite32 (SCRATCH + 4 * of_nat i) 0 m' = Some (wr F i 0 m')"
    by (simp add: scratch_write)
  note l1 = scratch_loop [OF assms(1) lt(1), of "\<lambda>i. vwrite32 (SCRATCH + 4 * of_nat i) 0" "\<lambda>_. 0", OF b0]
  let ?b = "\<lambda>i m. Option.bind (vread32 (vmm_get_page_directory + 4 * of_nat i) m)
    (\<lambda>e. vwrite32 (SCRATCH + 4 * of_nat i) e m)"
  let ?m2 = "fold (\<lambda>i. wr F i (pde ?m1 i)) ys ?m1"
  have "vread32 (vmm_get_page_directory + 4 * of_nat i) m' = Some (pde m' i)"
    if "scratch_at F m'" "i < 1024" for i m'
    using that pd_access(1) [of m' "of_nat i"] by (simp add: scratch_at_def vm_wf_def unat_of_nat_u32)
  then have b: "\<forall>i m'. scratch_at F m' \<and> pde m' = pde ?m1 \<and> i < 1024 \<longrightarrow>
      ?b i m' = Some (wr F i (pde ?m1 i) m')"
    by (simp add: scratch_write)
  note l2 = scratch_loop [OF l1(2) lt(2), of ?b "pde ?m1", OF b]
  let ?m3 = "wr F 1023 (a OR 1 OR 2) (wr F 896 0 ?m2)"
  note s3 = wr_scratch_at [OF l2(2)] wr_scratch_at [OF wr_scratch_at(1) [OF l2(2)]]
  note e3 = wr_entries [OF l2(2)] wr_entries [OF s3(1)]
  have w: "vwrite32 (SCRATCH + 4 * drop_bit 22 SCRATCH) 0 ?m2 = Some (wr F 896 0 ?m2)"
    "vwrite32 (SCRATCH + 4 * 1023) (a OR 1 OR 2) (wr F 896 0 ?m2) = Some ?m3"
    using scratch_write [OF l2(2), of 896] scratch_write [OF s3(1), of 1023] by simp_all
  have wf3: "vm_wf ?m3" and t3: "896 \<in> table_indices ?m3" and F3: "pte_frame (pde ?m3 896) \<noteq> F"
    using s3(3) by (auto simp: scratch_at_def)
  obtain r m' where u: "vmm_unmap_page SCRATCH ?m3 = Some (r, m')" "vm_wf m'"
    and tr: "translate m' w = (if unat w div 4096 = 0xE0000 then None else translate ?m3 w)" for w
    using unmap_page_spec [OF wf3, of SCRATCH] by auto
  have "m' = set_pte 896 0 0 ?m3"
    using u(1) s3(3) vmm_unmap_page_steps [OF vm_wf_rec_ok [OF wf3], of SCRATCH]
    by (simp add: scratch_at_def table_indices_def Let_def)
  then have m': "pde m' = pde ?m3" "ld32 (pmem m') F = ld32 (pmem ?m3) F" "cr3 m' = cr3 ?m3"
    "pmm_state m' = pmm_state ?m3"
    using set_pte_entries(1) [OF wf3 t3] F3 by (simp_all add: fun_eq_iff) (simp add: set_pte_def)
  have p3: "pde ?m3 = pde m" using e3 l1(3) l2(3) by simp
  moreover have "pte ?m3 k = pte m k" if "k \<in> table_indices m" for k
    using that e3 l1(3,4) l2(3,4) s3 by (simp add: table_indices_def)
  ultimately have "translate ?m3 w = translate m w" for w
    using pd_index_lt [of w] by (auto simp: translate_entries table_indices_def)
  moreover have "fresh_directory F a m'"
    unfolding fresh_directory_def m' p3
    using l1(3,5) l2(5) by (auto simp: wr_def sets)
  ultimately show ?thesis
    using l1(1,6) l2(1,6) w u tr m' p3 by (simp flip: or.assoc)
qed

lemma switch_fields [simp]:
  "pmm_state (vmm_switch_address_space a m) = pmm_state m" "pmem (vmm_switch_address_space a m) = pmem m"
  "cr3 (vmm_switch_address_space a m) = a" "pdf (vmm_switch_address_space a m) = pte_frame a"
  by (simp_all add: vmm_switch_address_space_def pdf_def)

lemma fresh_directory_space:
  assumes "vm_wf m" "fresh_directory (pte_frame a) a m"
    and "pte_frame a \<in> used_frames (pmm_state m)"
    and "\<forall>k \<in> table_indices m. k \<noteq> 896 \<longrightarrow> pte_frame (pde m k) \<noteq> pte_frame a"
  shows "vm_wf (vmm_switch_address_space a m)"
    and "unat w < 0xFFC00000 \<Longrightarrow> translate (vmm_switch_address_space a m) w =
      (if unat w < 0xC0000000 \<or> unat (pd_index w) = 896 then None else translate m w)"
proof -
  let ?m = "vmm_switch_address_space a m"
  have pd: "pde ?m j = (if j < 768 \<or> j = 896 then 0 else if j = 1023 then a OR 1 OR 2 else pde m j)"
    if "j < 1024" for j
    using assms(2) that by (simp add: fresh_directory_def pde_def)
  have fa: "pte_frame (a OR 1 OR 2) = pte_frame a"
    using pte_frame_new [of a 0] by simp
  have pr: "present (a OR 1 OR 2)" by (rule present_or_1)
  have ti: "table_indices ?m = insert 1023 {k \<in> table_indices m. 768 \<le> k \<and> k \<noteq> 896 \<and> k \<noteq> 1023}"
    using pr by (auto simp: table_indices_def pd split: if_splits)
  have fr: "pte_frame (pde ?m k) = (if k = 1023 then pte_frame a else pte_frame (pde m k))"
    if "k \<in> table_indices ?m" for k
    using that fa unfolding ti by (auto simp: pd table_indices_def)
  have "rec_ok ?m" using pr fa by (simp add: rec_ok_def pd)
  moreover have "inj_on (\<lambda>k. pte_frame (pde ?m k)) (table_indices ?m)"
  proof (rule inj_onI)
    fix x y assume xy: "x \<in> table_indices ?m" "y \<in> table_indices ?m"
      "pte_frame (pde ?m x) = pte_frame (pde ?m y)"
    then show "x = y"
      using table_frames_differ [OF assms(1), of x y] assms(4)
      unfolding fr [OF xy(1)] fr [OF xy(2)] ti by (auto split: if_splits)
  qed
  moreover have "\<forall>k \<in> table_indices ?m. pte_frame (pde ?m k) \<in> used_frames (pmm_state ?m)"
    using assms(1,3) by (auto simp: fr ti vm_wf_def)
  ultimately show "vm_wf ?m" using assms(1) by (simp add: vm_wf_def)
  assume w: "unat w < 0xFFC00000"
  then have "unat (pd_index w) \<noteq> 1023" "unat (pd_index w) < 768 \<longleftrightarrow> unat w < 0xC0000000"
    by (auto simp: pd_index_kernel unat_pd_index)
  then show "translate ?m w =
      (if unat w < 0xC0000000 \<or> unat (pd_index w) = 896 then None else translate m w)"
    using pd [OF pd_index_lt, of w] by (auto simp: translate_entries pte_def)
qed

text \<open>
  C13: \<^verbatim>\<open>vmm_create_address_space\<close> builds a new address space without disturbing the current
  one. It never faults; the current translation is unchanged outside the scratch page, which
  ends up unmapped. On success the returned directory is a frame that was free, the machine
  switched to it is again well-formed, the user half is empty and the kernel half is shared
  (all but the 4 MB around the scratch page). It fails only when fewer than two frames are left,
  and then returns 0 with the set of used frames as before.
\<close>

theorem vmm_create_address_space_correct:
  assumes "vm_wf m"
  shows "\<exists>a m'. vmm_create_address_space m = Some (a, m') \<and> vm_wf m' \<and> cr3 m' = cr3 m \<and>
    (\<forall>w. unat w < 0xFFC00000 \<and> unat w div 4096 \<noteq> 0xE0000 \<longrightarrow> translate m' w = translate m w) \<and>
    (a = 0 \<longrightarrow> used_frames (pmm_state m') = used_frames (pmm_state m) \<and>
       (snd (pmm_alloc_page (pmm_state m)) = 0 \<or>
        snd (pmm_alloc_page (fst (pmm_alloc_page (pmm_state m)))) = 0)) \<and>
    (a \<noteq> 0 \<longrightarrow> unat a div 4096 \<notin> used_frames (pmm_state m) \<and>
       unat a div 4096 \<in> used_frames (pmm_state m') \<and>
       vm_wf (vmm_switch_address_space a m') \<and>
       (\<forall>w. unat w < 0xFFC00000 \<longrightarrow> translate (vmm_switch_address_space a m') w =
         (if unat w < 0xC0000000 \<or> unat (pd_index w) = 896 then None else translate m w)))"
proof -
  obtain p a where al: "pmm_alloc_page (pmm_state m) = (p, a)" by fastforce
  have inv: "pmm_inv (pmm_state m)" using assms by (simp add: vm_wf_def)
  show ?thesis
  proof (cases "a = 0")
    case True
    then have "p = pmm_state m" using pmm_frames.alloc_fail [OF inv] al by simp
    with True al assms show ?thesis by (simp add: vmm_create_address_space_def)
  next
    case False
    let ?m0 = "m\<lparr>pmm_state := p\<rparr>"
    note fr = fresh_frame [OF assms al False]
    have wf0: "vm_wf ?m0" using fr(1,2) by (intro vm_wf_pmm_mono [OF assms]) auto
    have tr0: "translate ?m0 w = translate m w" for w by (simp add: translate_entries)
    obtain ok m1 where m1: "vmm_map_page SCRATCH a 3 ?m0 = Some (ok, m1)"
      and m1': "ok \<longrightarrow> scratch_at (pte_frame a) m1 \<and> cr3 m1 = cr3 m \<and>
         (\<forall>k. k \<noteq> 896 \<longrightarrow> pde m1 k = pde m k) \<and> used_frames p \<subseteq> used_frames (pmm_state m1) \<and>
         (\<forall>w. unat w < 0xFFC00000 \<and> unat w div 4096 \<noteq> 0xE0000 \<longrightarrow> translate m1 w = translate m w)"
        "\<not> ok \<longrightarrow> m1 = ?m0 \<and> snd (pmm_alloc_page p) = 0"
      using map_scratch [OF wf0, of a 3] fr(2) fr(4) [THEN not_sym] by (auto simp: tr0)
    show ?thesis
    proof (cases ok)
      case no: False
      have "used_frames (pmm_free_page a p) = used_frames (pmm_state m) \<and> pmm_inv (pmm_free_page a p)"
        by (rule pmm_frames.alloc_free_roundtrip [OF inv al False])
      then have "vm_wf (m\<lparr>pmm_state := pmm_free_page a p\<rparr>)"
        using vm_wf_pmm_mono [OF assms] by simp
      with no m1 m1' al False \<open>used_frames _ = _ \<and> _\<close> show ?thesis
        by (simp add: vmm_create_address_space_def Let_def translate_entries)
    next
      case True
      have sc: "scratch_at (pte_frame a) m1" using True m1' by simp
      obtain m' where m': "vmm_create_address_space m = Some (a, m')" "vm_wf m'" "cr3 m' = cr3 m1"
        "pmm_state m' = pmm_state m1" "pde m' = pde m1" "fresh_directory (pte_frame a) a m'"
        "translate m' w = (if unat w div 4096 = 0xE0000 then None else translate m1 w)" for w
        using fill_directory [OF sc refl refl, of a] True m1 al False
        by (auto simp: vmm_create_address_space_def Let_def simp del: upt_rec_numeral)
      have "unat w div 4096 \<noteq> 0xE0000" if "unat (pd_index w) \<noteq> 896" for w
        using that by (auto simp: unat_pd_index)
      moreover have "\<forall>k \<in> table_indices m'. k \<noteq> 896 \<longrightarrow> pte_frame (pde m' k) \<noteq> pte_frame a"
        using sc m'(5) by (simp add: scratch_at_def table_indices_def)
      moreover have "pte_frame a \<in> used_frames (pmm_state m')" using m'(4) m1' True fr(2) by auto
      ultimately show ?thesis
        using m' m1' True False fr(5) fresh_directory_space [OF m'(2,6)] by (auto simp: pte_frame_unat)
    qed
  qed
qed

section \<open>A concrete machine\<close>

text \<open>A machine just after \<^verbatim>\<open>vmm_init\<close>: an empty directory in frame 1 of \<open>pmm_example\<close>.\<close>

definition vm_example :: machine where
  "vm_example = vmm_init 0x1000
     \<lparr>pmm_state = pmm_example, pmem = (\<lambda>_ _. 0), cr3 = 0x1000, preemption_enabled = True\<rparr>"

lemma vm_example_pde: "pde vm_example i = (if i = 1023 then 0x1003 else 0)"
  by (simp add: vm_example_def vmm_init_def pde_def pdf_def pte_frame_unat ld32_def [of "\<lambda>_ _. 0"]
      un_le32_def)

lemma vm_example_wf: "vm_wf vm_example"
proof -
  have "table_indices vm_example = {1023}"
    by (auto simp: table_indices_def vm_example_pde)
  moreover have "pmm_state vm_example = pmm_example" "pdf vm_example = 1"
    by (simp_all add: vm_example_def vmm_init_def pdf_def pte_frame_unat)
  moreover have "1 \<in> used_frames pmm_example"
  proof -
    have "bit (7 :: u8) 1" by (simp add: bit_iff_odd)
    then show ?thesis by (simp add: used_frames_def pmm_bit_def pmm_example_def)
  qed
  ultimately show ?thesis
    using pmm_example_inv by (simp add: vm_wf_def rec_ok_def vm_example_pde pte_frame_unat)
qed

lemma vm_example_pmm: "pmm_state vm_example = pmm_example"
  by (simp add: vm_example_def vmm_init_def)

lemma vm_example_unmapped: "unat (pd_index v) \<noteq> 1023 \<Longrightarrow> translate vm_example v = None"
  by (simp add: translate_entries vm_example_pde)

theorem vmm_map_page_correct_witness:
  "\<exists>m'. vmm_map_page 0x400123 0x5000 7 vm_example = Some (True, m') \<and>
     translate m' 0x400123 = Some (5, 0x123) \<and> translate m' 0x401000 = None"
proof -
  have "snd (pmm_alloc_page (pmm_state vm_example)) \<noteq> 0"
    by (simp add: vm_example_pmm pmm_example_alloc)
  moreover have "translate vm_example 0x401000 = None"
    by (rule vm_example_unmapped) (simp add: unat_pd_index)
  ultimately show ?thesis
    using vmm_map_page_correct [OF vm_example_wf, of "0x400123" "0x5000" 7] by fastforce
qed

theorem vmm_queries_are_the_page_walk_witness:
  "vmm_is_mapped 0x400000 vm_example = Some False \<and> vmm_get_physical 0xFFFFF010 vm_example = Some 0x1010"
proof -
  have "rec_ok vm_example" by (rule vm_wf_rec_ok [OF vm_example_wf])
  from vmm_queries_are_the_page_walk [OF this]
  have "vmm_is_mapped 0x400000 vm_example = Some (translate vm_example 0x400000 \<noteq> None)"
    "vmm_get_physical 0xFFFFF010 vm_example = Some (case translate vm_example 0xFFFFF010 of
       None \<Rightarrow> 0 | Some (f, k) \<Rightarrow> of_nat (f * 4096 + k))" by auto
  moreover have "translate vm_example 0x400000 = None"
    by (rule vm_example_unmapped) (simp add: unat_pd_index)
  moreover have "translate vm_example 0xFFFFF010 = Some (1, 0x10)"
    using translate_pd_slot [OF \<open>rec_ok vm_example\<close>, of 4]
    by (simp add: vmm_get_page_directory_def vm_example_def vmm_init_def pdf_def pte_frame_unat)
  ultimately show ?thesis by simp
qed

theorem vmm_unmap_page_correct_witness:
  "\<exists>m'. vmm_unmap_page 0x400000 vm_example = Some (0, m') \<and> vm_wf m'"
proof -
  have "translate vm_example 0x400000 = None"
    by (rule vm_example_unmapped) (simp add: unat_pd_index)
  then show ?thesis
    using vmm_unmap_page_correct [OF vm_example_wf, of "0x400000"] by (auto simp: unat_eq_0)
qed

lemma pmm_example_alloc_twice:
  "snd (pmm_alloc_page (fst (pmm_alloc_page pmm_example))) = 0x4000"
  by code_simp

theorem vmm_create_address_space_correct_witness:
  "\<exists>a m'. vmm_create_address_space vm_example = Some (a, m') \<and> a \<noteq> 0 \<and>
     vm_wf (vmm_switch_address_space a m') \<and>
     translate (vmm_switch_address_space a m') 0x400000 = None"
proof -
  have "unat (0x400000 :: u32) < 0xFFC00000" "unat (0x400000 :: u32) < 0xC0000000" by simp_all
  then show ?thesis
    using vmm_create_address_space_correct [OF vm_example_wf]
    by (fastforce simp: vm_example_pmm pmm_example_alloc pmm_example_alloc_twice)
qed

end
