(* ===== verification/Kheap.thy ===== *)
theory Kheap
  imports Vmm
begin

text \<open>
  The kernel heap, \<^verbatim>\<open>kernel/kernel/heap.c\<close> and \<^verbatim>\<open>heap.h\<close>. Block headers live in an explicit
  store indexed by address, so that the next and previous pointers alias as in C; a header is
  20 bytes (\<^verbatim>\<open>sizeof(block_header_t)\<close> on the i386, padding after the flag included). Growing the
  heap allocates frames and maps pages on the machine of the virtual memory manager; \<open>None\<close> is a
  page fault in there, or a list walk of \<^verbatim>\<open>kmalloc\<close> that does not end. Pointers are 32-bit
  words and \<^verbatim>\<open>NULL\<close> is 0.
\<close>

section \<open>State and operations\<close>

record block_header =
  magic :: u32
  size :: u32
  free :: bool
  "next" :: u32
  prev :: u32

record heap =
  mach :: machine
  blk :: "u32 \<Rightarrow> block_header"
  heap_start :: u32
  heap_end :: u32
  heap_max :: u32
  first_block :: u32
  total_allocs :: u32
  total_frees :: u32

abbreviation (input) HEAP_MAGIC :: u32 where "HEAP_MAGIC \<equiv> 0xDEADBEEF"
abbreviation (input) HEADER_SIZE :: u32 where "HEADER_SIZE \<equiv> 20"
abbreviation (input) MIN_BLOCK_SIZE :: u32 where "MIN_BLOCK_SIZE \<equiv> 16"
abbreviation (input) ALIGNMENT :: u32 where "ALIGNMENT \<equiv> 8"
abbreviation (input) KHEAP_START :: u32 where "KHEAP_START \<equiv> 0xD0000000"
abbreviation (input) KHEAP_INITIAL_SIZE :: u32 where "KHEAP_INITIAL_SIZE \<equiv> 0x10000"
abbreviation (input) KHEAP_MAX_SIZE :: u32 where "KHEAP_MAX_SIZE \<equiv> 0x01000000"

definition ALIGN_UP :: "u32 \<Rightarrow> u32" where
  "ALIGN_UP x = (x + ALIGNMENT - 1) AND NOT (ALIGNMENT - 1)"

text \<open>Assignments through a block pointer.\<close>

definition upd :: "u32 \<Rightarrow> (block_header \<Rightarrow> block_header) \<Rightarrow> heap \<Rightarrow> heap" where
  "upd b f h = h\<lparr>blk := (blk h)(b := f (blk h b))\<rparr>"

fun expand_pages :: "u32 list \<Rightarrow> heap \<Rightarrow> (bool \<times> heap) option" where
  "expand_pages [] h = Some (True, h)"
| "expand_pages (addr # addrs) h =
     (case pmm_alloc_page (pmm_state (mach h)) of (p, phys) \<Rightarrow>
        let h = h\<lparr>mach := (mach h)\<lparr>pmm_state := p\<rparr>\<rparr> in
        if phys = 0 then Some (False, h)
        else do {
          (ok, m) \<leftarrow> vmm_map_page addr phys (PTE_PRESENT OR PTE_WRITABLE) (mach h);
          if \<not> ok then Some (False, h\<lparr>mach := m\<rparr>)
          else expand_pages addrs (h\<lparr>mach := m\<rparr>) })"

text \<open>
  The page addresses of the loop \<^verbatim>\<open>for (addr = heap_end; addr < new_end; addr += PAGE_SIZE)\<close>;
  \<^verbatim>\<open>new_end\<close> is page-aligned there, so \<^verbatim>\<open>addr\<close> never wraps around.
\<close>

definition page_addrs :: "u32 \<Rightarrow> u32 \<Rightarrow> u32 list" where
  "page_addrs a e = map (\<lambda>i. a + PAGE_SIZE * of_nat i) [0..<(unat e - unat a + 4095) div 4096]"

definition heap_expand :: "u32 \<Rightarrow> heap \<Rightarrow> (bool \<times> heap) option" where
  "heap_expand new_end h =
     (if new_end > heap_max h then Some (False, h)
      else do {
        let new_end = (new_end + PAGE_SIZE - 1) AND NOT (PAGE_SIZE - 1);
        (ok, h) \<leftarrow> expand_pages (page_addrs (heap_end h) new_end) h;
        if \<not> ok then Some (False, h) else Some (True, h\<lparr>heap_end := new_end\<rparr>) })"

definition heap_init :: "heap \<Rightarrow> heap option" where
  "heap_init h =
     do {
       let h = h\<lparr>heap_start := KHEAP_START, heap_end := KHEAP_START,
                 heap_max := KHEAP_START + KHEAP_MAX_SIZE, total_allocs := 0, total_frees := 0\<rparr>;
       (ok, h) \<leftarrow> heap_expand (KHEAP_START + KHEAP_INITIAL_SIZE) h;
       if \<not> ok then Some h
       else Some (upd (heap_start h) (\<lambda>_. \<lparr>magic = HEAP_MAGIC, size = KHEAP_INITIAL_SIZE - HEADER_SIZE,
                    free = True, next = 0, prev = 0\<rparr>) (h\<lparr>first_block := heap_start h\<rparr>)) }"

definition split_block :: "u32 \<Rightarrow> u32 \<Rightarrow> heap \<Rightarrow> heap" where
  "split_block b sz h =
     (let remaining = size (blk h b) - sz - HEADER_SIZE in
      if remaining < MIN_BLOCK_SIZE then h
      else let new_block = b + HEADER_SIZE + sz;
               h = upd new_block (\<lambda>r. r\<lparr>magic := HEAP_MAGIC\<rparr>) h;
               h = upd new_block (\<lambda>r. r\<lparr>size := remaining\<rparr>) h;
               h = upd new_block (\<lambda>r. r\<lparr>free := True\<rparr>) h;
               h = upd new_block (\<lambda>r. r\<lparr>next := next (blk h b)\<rparr>) h;
               h = upd new_block (\<lambda>r. r\<lparr>prev := b\<rparr>) h;
               h = (if next (blk h b) \<noteq> 0
                    then upd (next (blk h b)) (\<lambda>r. r\<lparr>prev := new_block\<rparr>) h else h);
               h = upd b (\<lambda>r. r\<lparr>next := new_block\<rparr>) h
           in upd b (\<lambda>r. r\<lparr>size := sz\<rparr>) h)"

definition merge_next :: "u32 \<Rightarrow> heap \<Rightarrow> heap" where
  "merge_next b h =
     (let n = next (blk h b) in
      if n \<noteq> 0 \<and> free (blk h n)
      then let h = upd b (\<lambda>r. r\<lparr>size := size r + (HEADER_SIZE + size (blk h n))\<rparr>) h;
               h = upd b (\<lambda>r. r\<lparr>next := next (blk h n)\<rparr>) h
           in if next (blk h b) \<noteq> 0
              then upd (next (blk h b)) (\<lambda>r. r\<lparr>prev := b\<rparr>) h else h
      else h)"

definition merge_prev :: "u32 \<Rightarrow> heap \<Rightarrow> heap" where
  "merge_prev b h =
     (let p = prev (blk h b) in
      if p \<noteq> 0 \<and> free (blk h p)
      then let h = upd p (\<lambda>r. r\<lparr>size := size r + (HEADER_SIZE + size (blk h b))\<rparr>) h;
               h = upd p (\<lambda>r. r\<lparr>next := next (blk h b)\<rparr>) h
           in if next (blk h b) \<noteq> 0
              then upd (next (blk h b)) (\<lambda>r. r\<lparr>prev := prev (blk h b)\<rparr>) h else h
      else h)"

definition merge_free_blocks :: "u32 \<Rightarrow> heap \<Rightarrow> heap" where
  "merge_free_blocks b h = merge_prev b (merge_next b h)"

partial_function (option) kmalloc_loop :: "u32 \<Rightarrow> u32 \<Rightarrow> heap \<Rightarrow> (u32 \<times> heap) option" where
  "kmalloc_loop sz current h =
     (if current = 0 then Some (0, h)
      else if magic (blk h current) \<noteq> HEAP_MAGIC then Some (0, h)
      else if free (blk h current) \<and> size (blk h current) \<ge> sz then
        (let h = split_block current sz h;
             h = upd current (\<lambda>r. r\<lparr>free := False\<rparr>) h
         in Some (current + HEADER_SIZE, h\<lparr>total_allocs := total_allocs h + 1\<rparr>))
      else if next (blk h current) = 0 then
        (let needed = sz + HEADER_SIZE in
         Option.bind (heap_expand (heap_end h + needed) h) (\<lambda>(ok, h).
           if \<not> ok then Some (0, h)
           else if free (blk h current) then
             kmalloc_loop sz current (upd current (\<lambda>r. r\<lparr>size := size r + needed\<rparr>) h)
           else let new_block = current + HEADER_SIZE + size (blk h current);
                    h = upd new_block (\<lambda>r. \<lparr>magic = HEAP_MAGIC, size = needed - HEADER_SIZE, free = True,
                           next = 0, prev = current\<rparr>) h
                in kmalloc_loop sz current (upd current (\<lambda>r. r\<lparr>next := new_block\<rparr>) h)))
      else kmalloc_loop sz (next (blk h current)) h)"

declare kmalloc_loop.simps [code]

definition kmalloc :: "u32 \<Rightarrow> heap \<Rightarrow> (u32 \<times> heap) option" where
  "kmalloc sz h = (if sz = 0 then Some (0, h) else kmalloc_loop (ALIGN_UP sz) (first_block h) h)"

definition kfree :: "u32 \<Rightarrow> heap \<Rightarrow> heap" where
  "kfree ptr h =
     (if ptr = 0 then h
      else let b = ptr - HEADER_SIZE in
        if magic (blk h b) \<noteq> HEAP_MAGIC then h
        else if free (blk h b) then h
        else let h = upd b (\<lambda>r. r\<lparr>free := True\<rparr>) h
             in merge_free_blocks b (h\<lparr>total_frees := total_frees h + 1\<rparr>))"

text \<open>The counts of \<^verbatim>\<open>heap_print_stats\<close>: blocks in all, used, free, and the bytes of each.\<close>

record heap_stats =
  total_blocks :: u32
  used_blocks :: u32
  free_blocks :: u32
  used_bytes :: u32
  free_bytes :: u32

partial_function (option) heap_stats_loop :: "heap \<Rightarrow> u32 \<Rightarrow> heap_stats \<Rightarrow> heap_stats option" where
  "heap_stats_loop h current s =
     (if current = 0 then Some s
      else let s = s\<lparr>total_blocks := total_blocks s + 1\<rparr>;
               r = blk h current;
               s = (if free r then s\<lparr>free_blocks := free_blocks s + 1, free_bytes := free_bytes s + size r\<rparr>
                    else s\<lparr>used_blocks := used_blocks s + 1, used_bytes := used_bytes s + size r\<rparr>)
           in heap_stats_loop h (next r) s)"

declare heap_stats_loop.simps [code]

definition heap_print_stats :: "heap \<Rightarrow> heap_stats option" where
  "heap_print_stats h = heap_stats_loop h (first_block h)
     \<lparr>total_blocks = 0, used_blocks = 0, free_blocks = 0, used_bytes = 0, free_bytes = 0\<rparr>"

section \<open>Chains of blocks\<close>

text \<open>
  \<open>seg m e p bs z\<close>: from a block with predecessor \<open>p\<close>, the next pointers run through \<open>bs\<close> to
  \<open>z\<close>; each block ends where its successor begins, and the last one (when \<open>z\<close> is \<^verbatim>\<open>NULL\<close>)
  at or before \<open>e\<close>.
\<close>

definition ends_at :: "nat \<Rightarrow> u32 \<Rightarrow> u32 \<Rightarrow> u32 \<Rightarrow> bool" where
  "ends_at e b s z \<longleftrightarrow>
     (if z = 0 then unat b + 20 + unat s \<le> e else unat b + 20 + unat s = unat z)"

fun seg :: "(u32 \<Rightarrow> block_header) \<Rightarrow> nat \<Rightarrow> u32 \<Rightarrow> u32 list \<Rightarrow> u32 \<Rightarrow> bool" where
  "seg m e p [] z \<longleftrightarrow> True"
| "seg m e p (b # bs) z \<longleftrightarrow>
     b \<noteq> 0 \<and> magic (m b) = HEAP_MAGIC \<and> prev (m b) = p \<and> next (m b) = hd (bs @ [z]) \<and>
     ends_at e b (size (m b)) (hd (bs @ [z])) \<and> seg m e b bs z"

lemma seg_append:
  "seg m e p (xs @ ys) z \<longleftrightarrow> seg m e p xs (hd (ys @ [z])) \<and> seg m e (last (p # xs)) ys z"
  by (induction xs arbitrary: p) auto

lemma seg_cong:
  "(\<And>b. b \<in> set bs \<Longrightarrow> m b = m' b) \<Longrightarrow> seg m e p bs z \<longleftrightarrow> seg m' e p bs z"
  by (induction bs arbitrary: p) auto

lemma seg_upd_other [simp]: "b \<notin> set bs \<Longrightarrow> seg (m(b := r)) e p bs z \<longleftrightarrow> seg m e p bs z"
  by (rule seg_cong) auto

text \<open>Setting the previous pointer of the first block of \<open>ys\<close>, if there is one.\<close>

definition relink :: "u32 \<Rightarrow> u32 list \<Rightarrow> (u32 \<Rightarrow> block_header) \<Rightarrow> (u32 \<Rightarrow> block_header)" where
  "relink q ys m = (if ys = [] then m else m(hd ys := (m (hd ys))\<lparr>prev := q\<rparr>))"

lemma seg_relink: "seg m e p ys z \<Longrightarrow> distinct ys \<Longrightarrow> seg (relink q ys m) e q ys z"
  by (cases ys) (simp_all add: relink_def)

lemma relink_other [simp]: "b \<notin> set ys \<Longrightarrow> relink q ys m b = m b"
  by (auto simp: relink_def)

lemma relink_fields [simp]:
  "size (relink q ys m b) = size (m b)" "free (relink q ys m b) = free (m b)"
  "magic (relink q ys m b) = magic (m b)" "next (relink q ys m b) = next (m b)"
  by (auto simp: relink_def)

lemma seg_relink_other [simp]: "set bs \<inter> set ys = {} \<Longrightarrow> seg (relink q ys m) e p bs z \<longleftrightarrow> seg m e p bs z"
  by (rule seg_cong) (auto simp: relink_def)

lemma seg_next_null: "seg m e p (b # ys) 0 \<Longrightarrow> next (m b) = 0 \<longleftrightarrow> ys = []"
  by (cases ys) auto

lemma seg_nonnull: "seg m e p bs z \<Longrightarrow> b \<in> set bs \<Longrightarrow> b \<noteq> 0"
  by (induction bs arbitrary: p) auto

lemma seg_mono: "seg m e p bs z \<Longrightarrow> e \<le> e' \<Longrightarrow> seg m e' p bs z"
  by (induction bs arbitrary: p) (auto simp: ends_at_def split: if_splits)

lemma seg_end: "seg m e p bs 0 \<Longrightarrow> b \<in> set bs \<Longrightarrow> unat b + 20 + unat (size (m b)) \<le> e"
proof (induction bs arbitrary: p b)
  case (Cons a bs)
  show ?case
  proof (cases bs)
    case Nil
    with Cons.prems show ?thesis by (simp add: ends_at_def)
  next
    case (Cons c cs)
    then have "seg m e a bs 0" "unat a + 20 + unat (size (m a)) = unat c" "c \<in> set bs"
      using Cons.prems by (auto simp: ends_at_def split: if_splits)
    with Cons.IH [of a b] Cons.IH [of a c] Cons.prems(2) show ?thesis by auto
  qed
qed simp

text \<open>Block addresses increase along the chain: a block ends before every later block begins.\<close>

lemma seg_before:
  "seg m e p (b # bs) z \<Longrightarrow> c \<in> set bs \<Longrightarrow> unat b + 20 + unat (size (m b)) \<le> unat c"
proof (induction bs arbitrary: p b)
  case (Cons a bs)
  have "unat b + 20 + unat (size (m b)) = unat a" and a: "seg m e b (a # bs) z"
    using Cons.prems(1) by (auto simp: ends_at_def split: if_splits)
  then show ?case
    using Cons.IH [OF a] Cons.prems(2) by (cases "c = a") auto
qed simp

lemma seg_disjoint:
  assumes "seg m e p bs z" "b \<in> set bs" "c \<in> set bs" "b \<noteq> c"
  shows "unat b + 20 + unat (size (m b)) \<le> unat c \<or> unat c + 20 + unat (size (m c)) \<le> unat b"
  using assms
proof (induction bs arbitrary: p)
  case (Cons a bs)
  from seg_before [OF Cons.prems(1)] Cons show ?case by auto
qed simp

lemma seg_distinct: "seg m e p bs z \<Longrightarrow> distinct bs"
proof (induction bs arbitrary: p)
  case (Cons a bs)
  from seg_before [OF Cons.prems, of a] Cons show ?case by auto
qed simp

section \<open>Well-formed heaps\<close>

definition heap_wf :: "heap \<Rightarrow> u32 list \<Rightarrow> bool" where
  "heap_wf h bs \<longleftrightarrow> bs \<noteq> [] \<and> hd bs = first_block h \<and>
     seg (blk h) (unat (heap_end h)) 0 bs 0 \<and>
     vm_wf (mach h) \<and> unat (heap_end h) \<le> 0xD1000000 \<and> heap_max h = KHEAP_START + KHEAP_MAX_SIZE \<and>
     unat (heap_end h) mod 4096 = 0"

definition used_set :: "heap \<Rightarrow> u32 list \<Rightarrow> (u32 \<times> u32) set" where
  "used_set h bs = {(b, size (blk h b)) | b. b \<in> set bs \<and> \<not> free (blk h b)}"

lemma upd_simps [simp]:
  "blk (upd b f h) = (blk h)(b := f (blk h b))" "mach (upd b f h) = mach h"
  "heap_end (upd b f h) = heap_end h" "heap_max (upd b f h) = heap_max h"
  "heap_start (upd b f h) = heap_start h" "first_block (upd b f h) = first_block h"
  "total_allocs (upd b f h) = total_allocs h" "total_frees (upd b f h) = total_frees h"
  by (simp_all add: upd_def)

subsection \<open>Splitting\<close>

text \<open>The frame of the list operations: they touch the store only.\<close>

lemma split_block_frame [simp]:
  "mach (split_block b sz h) = mach h" "heap_end (split_block b sz h) = heap_end h"
  "heap_max (split_block b sz h) = heap_max h" "first_block (split_block b sz h) = first_block h"
  "heap_start (split_block b sz h) = heap_start h" "total_allocs (split_block b sz h) = total_allocs h"
  "total_frees (split_block b sz h) = total_frees h"
  by (simp_all add: split_block_def Let_def)

lemma merge_frame [simp]:
  "mach (merge_free_blocks b h) = mach h" "heap_end (merge_free_blocks b h) = heap_end h"
  "heap_max (merge_free_blocks b h) = heap_max h" "first_block (merge_free_blocks b h) = first_block h"
  by (simp_all add: merge_free_blocks_def merge_next_def merge_prev_def Let_def)

text \<open>
  The block \<open>b\<close> in the middle of the chain, taken by \<^verbatim>\<open>kmalloc\<close>: with room for a further header
  the chain gets one more block or stays as it is, and \<open>b\<close> is the one new used block.
\<close>

definition take_block :: "u32 \<Rightarrow> u32 \<Rightarrow> heap \<Rightarrow> heap" where
  "take_block sz b h = upd b (\<lambda>r. r\<lparr>free := False\<rparr>) (split_block b sz h)"

lemma remaining_unat:
  assumes "unat sz + 20 \<le> unat s"
  shows "unat (s - sz - 20 :: u32) = unat s - unat sz - 20"
proof -
  have "unat (s - sz) = unat s - unat sz" using assms by (intro unat_sub_u32) simp
  then show ?thesis using assms by (subst unat_sub_u32) auto
qed

lemma take_block_blk:
  assumes "\<not> size (blk h b) - sz - HEADER_SIZE < MIN_BLOCK_SIZE" "n = b + HEADER_SIZE + sz"
    and "next (blk h b) = hd (ys @ [0])" "hd (ys @ [0]) \<noteq> 0 \<longleftrightarrow> ys \<noteq> []"
    and "n \<noteq> b" "n \<notin> set ys" "b \<notin> set ys"
  shows "blk (take_block sz b h) =
    (relink n ys ((blk h)(n := \<lparr>magic = HEAP_MAGIC, size = size (blk h b) - sz - HEADER_SIZE,
        free = True, next = hd (ys @ [0]), prev = b\<rparr>)))
      (b := (blk h b)\<lparr>next := n, size := sz, free := False\<rparr>)"
proof -
  have ne: "b \<noteq> n" using assms(5) by simp
  show ?thesis
  proof (cases ys)
    case Nil
    then show ?thesis
      using assms(1,3,5) ne unfolding take_block_def split_block_def assms(2) [symmetric]
      by (simp add: relink_def fun_eq_iff)
  next
    case (Cons c cs)
    then have "c \<noteq> 0" "c \<noteq> n" "c \<noteq> b" "n \<noteq> c" "b \<noteq> c" using assms(4,6,7) by auto
    then show ?thesis
      using Cons assms(1,3,5) ne unfolding take_block_def split_block_def assms(2) [symmetric]
      by (simp add: relink_def fun_eq_iff)
  qed
qed

lemma take_block_seg:
  assumes seg: "seg (blk h) e p (xs @ b # ys) 0" and e: "e < 4294967296"
    and room: "unat sz + 20 \<le> unat (size (blk h b))"
  shows "\<exists>zs. seg (blk (take_block sz b h)) e p (xs @ b # zs @ ys) 0 \<and> length zs \<le> 1 \<and>
    \<not> free (blk (take_block sz b h) b) \<and> unat sz \<le> unat (size (blk (take_block sz b h) b)) \<and>
    size (blk (take_block sz b h) b) \<le> size (blk h b) \<and>
    (\<forall>z \<in> set zs. free (blk (take_block sz b h) z) \<and> z \<notin> set (xs @ b # ys)) \<and>
    (\<forall>c \<in> set (xs @ ys). size (blk (take_block sz b h) c) = size (blk h c) \<and>
       free (blk (take_block sz b h) c) = free (blk h c))"
proof -
  let ?s = "size (blk h b)" and ?n = "b + HEADER_SIZE + sz"
  let ?rem = "?s - sz - HEADER_SIZE"
  have rem: "unat ?rem = unat ?s - unat sz - 20" by (rule remaining_unat [OF room])
  have bend: "unat b + 20 + unat ?s \<le> e" using seg_end [OF seg, of b] by simp
  have dist: "distinct (xs @ b # ys)" by (rule seg_distinct [OF seg])
  have parts: "seg (blk h) e p xs b" "seg (blk h) e (last (p # xs)) (b # ys) 0"
    using seg by (simp_all add: seg_append)
  show ?thesis
  proof (cases "?rem < MIN_BLOCK_SIZE")
    case True
    then have "take_block sz b h = upd b (\<lambda>r. r\<lparr>free := False\<rparr>) h"
      by (simp add: take_block_def split_block_def)
    moreover have "seg ((blk h)(b := (blk h b)\<lparr>free := False\<rparr>)) e p (xs @ b # ys) 0"
      using parts dist by (simp add: seg_append)
    ultimately show ?thesis
      using dist room by (intro exI [of _ "[]"]) auto
  next
    case False
    define n where n_def: "n = b + HEADER_SIZE + sz"
    have n: "unat n = unat b + 20 + unat sz"
      unfolding n_def using bend room e by (subst unat_add_u32; simp add: unat_add_u32)
    then have nb: "n \<noteq> b" by auto
    have nin: "n \<notin> set (xs @ b # ys)"
      using seg_disjoint [OF seg, of b n] n room nb by auto
    let ?m1 = "relink n ys ((blk h)(n := \<lparr>magic = HEAP_MAGIC, size = ?rem, free = True,
        next = hd (ys @ [0]), prev = b\<rparr>))"
    let ?m = "?m1(b := (blk h b)\<lparr>next := n, size := sz, free := False\<rparr>)"
    have nx: "next (blk h b) = hd (ys @ [0])" "hd (ys @ [0]) \<noteq> 0 \<longleftrightarrow> ys \<noteq> []"
      using parts seg_nonnull [OF parts(2)] by (auto simp: hd_append)
    have m: "blk (take_block sz b h) = ?m"
      using nin dist nb by (intro take_block_blk [OF False n_def nx]) auto
    have "seg ?m e p xs b" "seg ?m e n ys 0"
      using parts nin dist seg_relink [of "(blk h)(n := \<lparr>magic = HEAP_MAGIC, size = ?rem, free = True,
        next = hd (ys @ [0]), prev = b\<rparr>)" e b ys 0 n] by auto
    moreover have "ends_at e b sz n" using n nb by (auto simp: ends_at_def)
    moreover have "ends_at e n ?rem (hd (ys @ [0]))"
      using parts(2) room by (auto simp: ends_at_def rem n split: if_splits)
    ultimately have "seg ?m e p (xs @ b # [n] @ ys) 0"
      using parts nin dist n by (auto simp: seg_append)
    then show ?thesis
      using nin dist room unfolding m by (intro exI [of _ "[n]"]) (auto simp: word_le_nat_alt)
  qed
qed

subsection \<open>Merging\<close>

text \<open>Both halves of \<^verbatim>\<open>merge_free_blocks\<close> do the same: block \<open>a\<close> absorbs its successor \<open>b\<close>.\<close>

definition absorbed :: "(u32 \<Rightarrow> block_header) \<Rightarrow> u32 \<Rightarrow> u32 \<Rightarrow> u32 list \<Rightarrow> (u32 \<Rightarrow> block_header)" where
  "absorbed m a b ys = relink a ys
     (m(a := (m a)\<lparr>size := size (m a) + (HEADER_SIZE + size (m b)), next := next (m b)\<rparr>))"

lemma seg_absorb:
  assumes "seg m e p (xs @ a # b # ys) 0" "e < 4294967296"
  shows "seg (absorbed m a b ys) e p (xs @ a # ys) 0"
proof -
  have parts: "seg m e p xs a" "seg m e (last (p # xs)) (a # b # ys) 0"
    using assms(1) by (simp_all add: seg_append)
  have dist: "distinct (xs @ a # b # ys)" by (rule seg_distinct [OF assms(1)])
  let ?m = "m(a := (m a)\<lparr>size := size (m a) + (HEADER_SIZE + size (m b)), next := next (m b)\<rparr>)"
  have a: "unat a + 20 + unat (size (m a)) = unat b"
    using parts(2) by (auto simp: ends_at_def split: if_splits)
  have "unat b + 20 + unat (size (m b)) \<le> e" using seg_end [OF assms(1), of b] by simp
  then have sz: "unat (size (m a) + (20 + size (m b))) = unat (size (m a)) + 20 + unat (size (m b))"
    using a assms(2) by (subst unat_add_u32; simp add: unat_add_u32)
  have "ends_at e a (size (m a) + (20 + size (m b))) (hd (ys @ [0]))"
    using parts(2) a by (auto simp: ends_at_def sz split: if_splits)
  moreover have "seg (relink a ys ?m) e a ys 0" "seg (relink a ys ?m) e p xs a"
    using parts dist seg_relink [of ?m e b ys 0 a] by auto
  ultimately show ?thesis
    using parts(2) dist unfolding absorbed_def by (simp add: seg_append)
qed

lemma absorbed_fields:
  assumes "c \<noteq> a"
  shows "size (absorbed m a b ys c) = size (m c)" "free (absorbed m a b ys c) = free (m c)"
  using assms by (simp_all add: absorbed_def)

lemma absorbed_free [simp]: "free (absorbed m a b ys a) = free (m a)"
  by (simp add: absorbed_def)

lemma merge_next_blk:
  assumes "seg (blk h) e p (xs @ b # ys) 0"
  shows "blk (merge_next b h) =
    (case ys of [] \<Rightarrow> blk h
     | c # zs \<Rightarrow> if free (blk h c) then absorbed (blk h) b c zs else blk h)"
proof (cases ys)
  case Nil
  then show ?thesis using assms by (simp add: merge_next_def seg_append)
next
  case (Cons c zs)
  have nx: "next (blk h b) = c" "c \<noteq> 0" "c \<noteq> b" "next (blk h c) = hd (zs @ [0])" "\<forall>z \<in> set zs. z \<noteq> 0"
    using assms seg_distinct [OF assms] seg_nonnull [OF assms] by (auto simp: Cons seg_append)
  then show ?thesis
    using Cons seg_distinct [OF assms]
    by (cases zs) (auto simp: merge_next_def absorbed_def relink_def fun_eq_iff Let_def)
qed

lemma merge_prev_blk:
  assumes "seg (blk h) e 0 (xs @ b # ys) 0"
  shows "blk (merge_prev b h) =
    (if xs \<noteq> [] \<and> free (blk h (last xs)) then absorbed (blk h) (last xs) b ys else blk h)"
proof (cases xs rule: rev_cases)
  case Nil
  then show ?thesis using assms by (simp add: merge_prev_def)
next
  case (snoc us a)
  have pr: "prev (blk h b) = a" "a \<noteq> 0" "a \<noteq> b" "next (blk h b) = hd (ys @ [0])" "\<forall>z \<in> set ys. z \<noteq> 0"
    using assms seg_distinct [OF assms] seg_nonnull [OF assms] by (auto simp: snoc seg_append)
  then show ?thesis
    using snoc seg_distinct [OF assms]
    by (cases ys) (auto simp: merge_prev_def absorbed_def relink_def fun_eq_iff Let_def)
qed

text \<open>No two neighbours in the chain are both free.\<close>

definition coalesced :: "(u32 \<Rightarrow> block_header) \<Rightarrow> u32 list \<Rightarrow> bool" where
  "coalesced m bs \<longleftrightarrow> successively (\<lambda>a b. \<not> (free (m a) \<and> free (m b))) bs"

lemma coalesced_append:
  "coalesced m (xs @ ys) \<longleftrightarrow> coalesced m xs \<and> coalesced m ys \<and>
     (xs = [] \<or> ys = [] \<or> \<not> (free (m (last xs)) \<and> free (m (hd ys))))"
  by (auto simp: coalesced_def successively_append_iff)

lemma coalesced_Cons:
  "coalesced m (b # ys) \<longleftrightarrow> coalesced m ys \<and> (ys = [] \<or> \<not> (free (m b) \<and> free (m (hd ys))))"
  by (cases ys) (auto simp: coalesced_def)

lemma coalesced_Nil [simp]: "coalesced m []"
  by (simp add: coalesced_def)

lemma coalesced_cong:
  "(\<And>b. b \<in> set bs \<Longrightarrow> free (m b) = free (m' b)) \<Longrightarrow> coalesced m bs = coalesced m' bs"
  unfolding coalesced_def by (rule successively_cong) auto

text \<open>The used blocks of a chain survive with their sizes while free blocks are joined.\<close>

definition joins :: "(u32 \<Rightarrow> block_header) \<Rightarrow> u32 list \<Rightarrow> (u32 \<Rightarrow> block_header) \<Rightarrow> u32 list \<Rightarrow> bool" where
  "joins m bs m' bs' \<longleftrightarrow> hd bs' = hd bs \<and> (bs \<noteq> [] \<longrightarrow> bs' \<noteq> []) \<and> set bs' \<subseteq> set bs \<and>
     (\<forall>c \<in> set bs'. free (m' c) = free (m c)) \<and>
     (\<forall>c \<in> set bs. \<not> free (m c) \<longrightarrow> c \<in> set bs' \<and> size (m' c) = size (m c))"

lemma joins_refl [simp]: "joins m bs m bs"
  by (simp add: joins_def)

lemma joins_trans: "joins m bs m' bs' \<Longrightarrow> joins m' bs' m'' bs'' \<Longrightarrow> joins m bs m'' bs''"
  unfolding joins_def by (intro conjI; auto)

lemma joins_absorb:
  assumes "seg m e p (xs @ a # b # ys) 0" "free (m a)" "free (m b)"
  shows "joins m (xs @ a # b # ys) (absorbed m a b ys) (xs @ a # ys)"
proof -
  have "free (absorbed m a b ys c) = free (m c)" for c
    by (cases "c = a") (simp_all add: absorbed_fields)
  moreover have "size (absorbed m a b ys c) = size (m c)" if "\<not> free (m c)" for c
    using assms(2) that by (intro absorbed_fields) auto
  moreover have "hd (xs @ a # ys) = hd (xs @ a # b # ys)" by (cases xs) auto
  ultimately show ?thesis
    using assms by (auto simp: joins_def)
qed

lemma merge_free_blocks_spec:
  assumes "seg (blk h) e 0 (xs @ b # ys) 0" "e < 4294967296" "free (blk h b)"
  shows "\<exists>bs'. seg (blk (merge_free_blocks b h)) e 0 bs' 0 \<and>
    joins (blk h) (xs @ b # ys) (blk (merge_free_blocks b h)) bs' \<and>
    (coalesced (blk h) xs \<and> coalesced (blk h) ys \<longrightarrow> coalesced (blk (merge_free_blocks b h)) bs')"
proof -
  let ?h = "merge_next b h"
  have "\<exists>zs. seg (blk ?h) e 0 (xs @ b # zs) 0 \<and> joins (blk h) (xs @ b # ys) (blk ?h) (xs @ b # zs) \<and>
     (coalesced (blk h) ys \<longrightarrow> coalesced (blk h) zs \<and> (zs = [] \<or> \<not> free (blk h (hd zs))))"
  proof (cases "\<exists>c zs. ys = c # zs \<and> free (blk h c)")
    case True
    then obtain c zs where c: "ys = c # zs" "free (blk h c)" by blast
    then have "blk ?h = absorbed (blk h) b c zs" by (simp add: merge_next_blk [OF assms(1)])
    with c assms seg_absorb [of "blk h" e 0 xs b c zs] joins_absorb [of "blk h" e 0 xs b c zs] show ?thesis
      by (intro exI [of _ zs]) (auto simp: coalesced_Cons)
  next
    case False
    then have "blk ?h = blk h" by (auto simp: merge_next_blk [OF assms(1)] split: list.splits)
    with False assms(1) show ?thesis by (intro exI [of _ ys]) (cases ys; auto)
  qed
  then obtain zs where zs: "seg (blk ?h) e 0 (xs @ b # zs) 0"
    and j: "joins (blk h) (xs @ b # ys) (blk ?h) (xs @ b # zs)"
    and co: "coalesced (blk h) ys \<longrightarrow> coalesced (blk h) zs \<and> (zs = [] \<or> \<not> free (blk h (hd zs)))"
    by blast
  have fr: "free (blk ?h c) = free (blk h c)" if "c \<in> set (xs @ b # zs)" for c
    using j that by (auto simp: joins_def)
  show ?thesis
  proof (cases "xs \<noteq> [] \<and> free (blk ?h (last xs))")
    case True
    then obtain us a where xs: "xs = us @ [a]" and a: "free (blk ?h a)"
      by (metis append_butlast_last_id)
    have m: "blk (merge_free_blocks b h) = absorbed (blk ?h) a b zs"
      using merge_prev_blk [OF zs] True xs by (simp add: merge_free_blocks_def)
    have sg: "seg (blk ?h) e 0 (us @ a # b # zs) 0" using zs xs by simp
    have j2: "joins (blk ?h) (xs @ b # zs) (blk (merge_free_blocks b h)) (us @ a # zs)"
      using joins_absorb [OF sg a] fr [of b] assms(3) by (simp add: m xs)
    have "coalesced (blk h) xs \<and> coalesced (blk h) ys \<longrightarrow> coalesced (blk h) (us @ a # zs)"
      using co xs by (auto simp: coalesced_append coalesced_Cons)
    moreover have "coalesced (blk (merge_free_blocks b h)) (us @ a # zs) = coalesced (blk h) (us @ a # zs)"
      using j2 fr by (intro coalesced_cong) (auto simp: joins_def xs)
    ultimately show ?thesis
      using seg_absorb [OF sg assms(2)] joins_trans [OF j j2] by (auto simp: m)
  next
    case False
    then have m: "blk (merge_free_blocks b h) = blk ?h"
      using merge_prev_blk [OF zs] by (auto simp: merge_free_blocks_def)
    have "coalesced (blk ?h) (xs @ b # zs) = coalesced (blk h) (xs @ b # zs)"
      using fr by (intro coalesced_cong) auto
    then show ?thesis
      using zs j co False fr
      by (intro exI [of _ "xs @ b # zs"]) (auto simp: m coalesced_append coalesced_Cons)
  qed
qed

lemma heap_wf_end: "heap_wf h bs \<Longrightarrow> unat (heap_end h) < 4294967296"
  by (simp add: unat_u32_bound)

lemma joins_used_set:
  "joins (blk h) bs (blk h') bs' \<Longrightarrow> used_set h' bs' = used_set h bs"
  unfolding joins_def used_set_def by auto

lemma kfree_used:
  assumes "heap_wf h bs" "b \<in> set bs" "\<not> free (blk h b)"
  shows "\<exists>bs'. heap_wf (kfree (b + HEADER_SIZE) h) bs' \<and>
    used_set (kfree (b + HEADER_SIZE) h) bs' = used_set h bs - {(b, size (blk h b))} \<and>
    (coalesced (blk h) bs \<longrightarrow> coalesced (blk (kfree (b + HEADER_SIZE) h)) bs')"
proof -
  obtain xs ys where bs: "bs = xs @ b # ys" using assms(2) by (meson split_list)
  have sg: "seg (blk h) (unat (heap_end h)) 0 (xs @ b # ys) 0" using assms(1) bs by (simp add: heap_wf_def)
  have dist: "distinct (xs @ b # ys)" by (rule seg_distinct [OF sg])
  let ?h = "(upd b (\<lambda>r. r\<lparr>free := True\<rparr>) h)\<lparr>total_frees := total_frees h + 1\<rparr>"
  have e: "unat b + 20 \<le> unat (heap_end h)" using seg_end [OF sg, of b] by simp
  have "b + HEADER_SIZE \<noteq> 0"
  proof
    assume "b + HEADER_SIZE = 0"
    moreover have "unat (b + HEADER_SIZE) = unat b + 20"
      using e unat_u32_bound [of "heap_end h"] by (simp add: unat_add_u32)
    ultimately show False by simp
  qed
  moreover have "magic (blk h b) = HEAP_MAGIC" using sg by (simp add: seg_append)
  ultimately have k: "kfree (b + HEADER_SIZE) h = merge_free_blocks b ?h"
    using assms(3) by (simp add: kfree_def Let_def)
  have sg': "seg (blk ?h) (unat (heap_end h)) 0 (xs @ b # ys) 0"
    using sg dist by (simp add: seg_append)
  obtain bs' where bs': "seg (blk (merge_free_blocks b ?h)) (unat (heap_end h)) 0 bs' 0"
    "joins (blk ?h) (xs @ b # ys) (blk (merge_free_blocks b ?h)) bs'"
    and co: "coalesced (blk ?h) xs \<and> coalesced (blk ?h) ys \<longrightarrow> coalesced (blk (merge_free_blocks b ?h)) bs'"
    using merge_free_blocks_spec [OF sg' unat_u32_bound] by auto
  have "coalesced (blk ?h) xs = coalesced (blk h) xs" "coalesced (blk ?h) ys = coalesced (blk h) ys"
    using dist by (auto intro!: coalesced_cong split: if_splits)
  then have "coalesced (blk h) bs \<longrightarrow> coalesced (blk (kfree (b + HEADER_SIZE) h)) bs'"
    using co k bs by (auto simp: coalesced_append coalesced_Cons)
  moreover have "heap_wf (kfree (b + HEADER_SIZE) h) bs'"
    using bs' assms(1) unfolding k heap_wf_def by (auto simp: joins_def bs)
  moreover have "used_set ?h (xs @ b # ys) = used_set h bs - {(b, size (blk h b))}"
    using dist assms(3) unfolding bs used_set_def by auto
  ultimately show ?thesis
    using joins_used_set [OF bs'(2)] unfolding k by auto
qed

subsection \<open>Growing\<close>

lemma map_heap_page:
  assumes "vm_wf m" "pmm_alloc_page (pmm_state m) = (p, a)" "a \<noteq> 0" "unat v < 0xFFC00000"
  shows "\<exists>ok m'. vmm_map_page v a 3 (m\<lparr>pmm_state := p\<rparr>) = Some (ok, m') \<and> vm_wf m' \<and>
    (ok \<longrightarrow> translate m' v \<noteq> None) \<and>
    (\<forall>w. unat w < 0xFFC00000 \<and> unat w div 4096 \<noteq> unat v div 4096 \<longrightarrow> translate m' w = translate m w)"
proof -
  note fr = fresh_frame [OF assms(1-3)]
  have wf: "vm_wf (m\<lparr>pmm_state := p\<rparr>)"
    using fr(1,2) by (intro vm_wf_pmm_mono [OF assms(1)]) auto
  have "translate (m\<lparr>pmm_state := p\<rparr>) w = translate m w" for w by (simp add: translate_entries)
  then show ?thesis using map_page_spec [OF wf assms(4), of a 3] by auto
qed

lemma expand_pages_spec:
  assumes "vm_wf (mach h)" "\<forall>a \<in> set addrs. unat a < 0xFFC00000"
    and "distinct (map (\<lambda>a. unat a div 4096) addrs)"
  shows "\<exists>ok m'. expand_pages addrs h = Some (ok, h\<lparr>mach := m'\<rparr>) \<and> vm_wf m' \<and>
    (ok \<longrightarrow> (\<forall>a \<in> set addrs. translate m' a \<noteq> None)) \<and>
    (\<forall>w. unat w < 0xFFC00000 \<and> unat w div 4096 \<notin> (\<lambda>a. unat a div 4096) ` set addrs \<longrightarrow>
       translate m' w = translate (mach h) w)"
  using assms
proof (induction addrs arbitrary: h)
  case Nil
  then show ?case by (intro exI [of _ True] exI [of _ "mach h"]) simp
next
  case (Cons v addrs)
  obtain p a where al: "pmm_alloc_page (pmm_state (mach h)) = (p, a)" by fastforce
  have inv: "pmm_inv (pmm_state (mach h))" using Cons.prems(1) by (simp add: vm_wf_def)
  show ?case
  proof (cases "a = 0")
    case True
    then have p: "p = pmm_state (mach h)" using pmm_frames.alloc_fail [OF inv] al by simp
    show ?thesis
      using Cons.prems True al p by (intro exI [of _ False] exI [of _ "mach h"]) simp
  next
    case False
    obtain ok m1 where m1: "vmm_map_page v a 3 ((mach h)\<lparr>pmm_state := p\<rparr>) = Some (ok, m1)" "vm_wf m1"
      and v: "ok \<longrightarrow> translate m1 v \<noteq> None"
      and tr: "\<forall>w. unat w < 0xFFC00000 \<and> unat w div 4096 \<noteq> unat v div 4096 \<longrightarrow>
        translate m1 w = translate (mach h) w"
      using map_heap_page [OF Cons.prems(1) al False, of v] Cons.prems(2) by auto
    show ?thesis
    proof (cases ok)
      case no: False
      then show ?thesis
        using m1 tr al False by (intro exI [of _ False] exI [of _ m1]) simp
    next
      case True
      obtain ok' m' where m': "expand_pages addrs (h\<lparr>mach := m1\<rparr>) = Some (ok', h\<lparr>mach := m'\<rparr>)" "vm_wf m'"
        "ok' \<longrightarrow> (\<forall>a \<in> set addrs. translate m' a \<noteq> None)"
        "\<forall>w. unat w < 0xFFC00000 \<and> unat w div 4096 \<notin> (\<lambda>a. unat a div 4096) ` set addrs \<longrightarrow>
           translate m' w = translate m1 w"
        using Cons.IH [of "h\<lparr>mach := m1\<rparr>"] m1(2) Cons.prems(2,3) by auto
      have "translate m' v = translate m1 v" using m'(4) Cons.prems(2,3) by auto
      then show ?thesis
        using m' m1(1) v tr al False True
        by (intro exI [of _ ok'] exI [of _ m']) auto
    qed
  qed
qed

lemma translate_same_page:
  "unat w div 4096 = unat v div 4096 \<Longrightarrow> translate m w = None \<longleftrightarrow> translate m v = None"
  using same_page_iff [of w v] by (simp add: translate_entries)

lemma page_up_unat:
  assumes "unat x \<le> 0xD1000000"
  shows "unat ((x + PAGE_SIZE - 1) AND NOT (PAGE_SIZE - 1)) = (unat x + 4095) div 4096 * 4096"
proof -
  have "unat (x + PAGE_SIZE - 1) = unat x + 4095"
    using assms unat_add_u32 [of x 4095] by (simp add: add_diff_eq [symmetric])
  moreover have "NOT (PAGE_SIZE - 1) = (0xFFFFF000 :: u32)" by (simp add: word_eq_unat)
  ultimately show ?thesis by (simp only: frame_bits_unat)
qed

lemma page_addrs_unat:
  fixes a e :: u32
  assumes "unat a mod 4096 = 0" "unat e mod 4096 = 0" "i < (unat e - unat a + 4095) div 4096"
  shows "unat (a + PAGE_SIZE * of_nat i) = unat a + 4096 * i \<and> unat a + 4096 * i < unat e"
proof -
  have lt: "unat a + 4096 * i < unat e" using assms by linarith
  then have "i < 4294967296" "4096 * i < 4294967296" using unat_u32_bound [of e] by linarith+
  then have "unat (PAGE_SIZE * of_nat i :: u32) = 4096 * i"
    by (simp add: unat_word_ariths unat_of_nat_u32)
  then show ?thesis using lt unat_u32_bound [of e] by (simp add: unat_add_u32)
qed

lemma page_addrs_props:
  fixes a e w :: u32
  assumes "unat a mod 4096 = 0" "unat e mod 4096 = 0" "unat e \<le> 0xD1000000"
  shows "\<forall>v \<in> set (page_addrs a e). unat v < 0xFFC00000"
    and "distinct (map (\<lambda>v. unat v div 4096) (page_addrs a e))"
    and "unat a \<le> unat w \<Longrightarrow> unat w < unat e \<Longrightarrow> \<exists>v \<in> set (page_addrs a e). unat w div 4096 = unat v div 4096"
proof -
  note pa = page_addrs_unat [OF assms(1,2)]
  show "\<forall>v \<in> set (page_addrs a e). unat v < 0xFFC00000"
    using pa assms(3) by (fastforce simp: page_addrs_def)
  show "distinct (map (\<lambda>v. unat v div 4096) (page_addrs a e))"
    using pa by (auto simp: page_addrs_def distinct_map inj_on_def)
  assume w: "unat a \<le> unat w" "unat w < unat e"
  let ?i = "unat w div 4096 - unat a div 4096"
  obtain k l where kl: "unat a = 4096 * k" "unat e = 4096 * l" using assms(1,2) by (metis mult_div_mod_eq add_0_right)
  have "unat w div 4096 < l" "k \<le> unat w div 4096"
    using w by (simp_all add: kl div_less_iff_less_mult less_eq_div_iff_mult_less_eq algebra_simps)
  moreover have "4096 * l - 4096 * k + 4095 = 4095 + (l - k) * 4096" by (simp add: algebra_simps diff_mult_distrib)
  ultimately have i: "?i < (unat e - unat a + 4095) div 4096" by (simp add: kl del: add.commute)
  have "unat (a + PAGE_SIZE * of_nat ?i) div 4096 = unat w div 4096"
    using pa [OF i] w(1) by (simp add: div_le_mono)
  with i show "\<exists>v \<in> set (page_addrs a e). unat w div 4096 = unat v div 4096"
    by (auto simp: page_addrs_def intro!: bexI [of _ ?i])
qed

lemma heap_expand_spec:
  assumes "vm_wf (mach h)" "unat (heap_end h) mod 4096 = 0" "heap_max h = KHEAP_START + KHEAP_MAX_SIZE"
    and "unat (heap_end h) \<le> unat ne"
  shows "\<exists>ok m' e'. heap_expand ne h = Some (ok, h\<lparr>mach := m', heap_end := e'\<rparr>) \<and> vm_wf m' \<and>
    (\<not> ok \<longrightarrow> e' = heap_end h) \<and>
    (ok \<longrightarrow> unat e' = (unat ne + 4095) div 4096 * 4096 \<and> unat e' \<le> 0xD1000000 \<and>
       (\<forall>w. unat (heap_end h) \<le> unat w \<and> unat w < unat e' \<longrightarrow> translate m' w \<noteq> None))"
proof (cases "ne > heap_max h")
  case True
  then show ?thesis
    using assms(1) by (intro exI [of _ False] exI [of _ "mach h"] exI [of _ "heap_end h"])
      (simp add: heap_expand_def)
next
  case False
  let ?e = "(ne + PAGE_SIZE - 1) AND NOT (PAGE_SIZE - 1)"
  have ne: "unat ne \<le> 0xD1000000" using False assms(3) by (simp add: word_less_nat_alt)
  have e: "unat ?e = (unat ne + 4095) div 4096 * 4096" by (rule page_up_unat [OF ne])
  moreover have "(unat ne + 4095) div 4096 \<le> (0xD1000000 + 4095) div 4096"
    using ne by (intro div_le_mono) simp
  ultimately have e': "unat ?e mod 4096 = 0" "unat ?e \<le> 0xD1000000" by simp_all
  note pa = page_addrs_props [OF assms(2) e']
  obtain ok m' where m': "expand_pages (page_addrs (heap_end h) ?e) h = Some (ok, h\<lparr>mach := m'\<rparr>)"
    "vm_wf m'" "ok \<longrightarrow> (\<forall>a \<in> set (page_addrs (heap_end h) ?e). translate m' a \<noteq> None)"
    using expand_pages_spec [OF assms(1) pa(1,2)] by auto
  have "translate m' w \<noteq> None" if "ok" "unat (heap_end h) \<le> unat w" "unat w < unat ?e" for w
    using pa(3) [OF that(2,3)] m'(3) that(1) translate_same_page by blast
  then show ?thesis
    using m' False e e'
    by (intro exI [of _ ok] exI [of _ m'] exI [of _ "if ok then ?e else heap_end h"])
      (simp add: heap_expand_def Let_def)
qed

section \<open>Allocation\<close>

text \<open>What a successful \<^verbatim>\<open>kmalloc\<close> establishes: exactly one more used block, large enough.\<close>

definition alloc_post :: "u32 \<Rightarrow> heap \<Rightarrow> u32 list \<Rightarrow> u32 \<Rightarrow> heap \<Rightarrow> u32 list \<Rightarrow> bool" where
  "alloc_post sz h bs r h' bs' \<longleftrightarrow> heap_wf h' bs' \<and>
     (coalesced (blk h) bs \<longrightarrow> coalesced (blk h') bs') \<and> r \<noteq> 0 \<and>
     (\<exists>s. (r - HEADER_SIZE, s) \<in> used_set h' bs' \<and> unat sz \<le> unat s \<and>
        r - HEADER_SIZE \<notin> fst ` used_set h bs \<and>
        used_set h' bs' = insert (r - HEADER_SIZE, s) (used_set h bs))"

lemma take_block_frame [simp]:
  "mach (take_block sz b h) = mach h" "heap_end (take_block sz b h) = heap_end h"
  "heap_max (take_block sz b h) = heap_max h" "first_block (take_block sz b h) = first_block h"
  by (simp_all add: take_block_def)

lemma block_ptr_nonnull:
  assumes "heap_wf h bs" "b \<in> set bs"
  shows "b + HEADER_SIZE \<noteq> 0"
proof
  assume z: "b + HEADER_SIZE = 0"
  have "unat b + 20 \<le> unat (heap_end h)"
    using assms seg_end [of "blk h" "unat (heap_end h)" 0 bs b] by (simp add: heap_wf_def)
  then have "unat (b + HEADER_SIZE) = unat b + 20"
    using unat_u32_bound [of "heap_end h"] by (simp add: unat_add_u32)
  with z show False by simp
qed

lemma take_block_post:
  assumes "heap_wf h (xs @ b # ys)" "free (blk h b)" "unat sz + 20 \<le> unat (size (blk h b))"
  shows "\<exists>bs'. alloc_post sz h (xs @ b # ys) (b + HEADER_SIZE)
    ((take_block sz b h)\<lparr>total_allocs := t\<rparr>) bs'"
proof -
  let ?h = "(take_block sz b h)\<lparr>total_allocs := t\<rparr>"
  have sg: "seg (blk h) (unat (heap_end h)) 0 (xs @ b # ys) 0" using assms(1) by (simp add: heap_wf_def)
  have dist: "distinct (xs @ b # ys)" by (rule seg_distinct [OF sg])
  obtain zs where zs: "seg (blk ?h) (unat (heap_end h)) 0 (xs @ b # zs @ ys) 0" "length zs \<le> 1"
    "\<not> free (blk ?h b)" "unat sz \<le> unat (size (blk ?h b))"
    "\<forall>z \<in> set zs. free (blk ?h z) \<and> z \<notin> set (xs @ b # ys)"
    "\<forall>c \<in> set (xs @ ys). size (blk ?h c) = size (blk h c) \<and> free (blk ?h c) = free (blk h c)"
    using take_block_seg [OF sg unat_u32_bound assms(3)] by auto
  have "hd (xs @ b # zs @ ys) = hd (xs @ b # ys)" by (cases xs) auto
  then have wf: "heap_wf ?h (xs @ b # zs @ ys)" using assms(1) zs(1) by (simp add: heap_wf_def)
  have us: "used_set ?h (xs @ b # zs @ ys) = insert (b, size (blk ?h b)) (used_set h (xs @ b # ys))"
    using zs(3,5,6) assms(2) by (auto simp: used_set_def)
  have "coalesced (blk h) ys = coalesced (blk ?h) ys" "coalesced (blk h) xs = coalesced (blk ?h) xs"
    using zs(6) by (auto intro!: coalesced_cong)
  then have "coalesced (blk h) (xs @ b # ys) \<longrightarrow> coalesced (blk ?h) (xs @ b # zs @ ys)"
    using zs(2,3,6) assms(2)
    by (cases zs; cases ys) (auto simp: coalesced_append coalesced_Cons)
  moreover have "b \<notin> fst ` used_set h (xs @ b # ys)" using assms(2) by (auto simp: used_set_def)
  moreover have "b + HEADER_SIZE \<noteq> 0" using block_ptr_nonnull [OF assms(1)] by simp
  ultimately have "alloc_post sz h (xs @ b # ys) (b + HEADER_SIZE) ?h (xs @ b # zs @ ys)"
    using wf zs(4) us unfolding alloc_post_def by auto
  then show ?thesis by blast
qed

lemma kmalloc_found:
  assumes "b \<noteq> 0" "magic (blk h b) = HEAP_MAGIC" "free (blk h b)" "sz \<le> size (blk h b)"
  shows "kmalloc_loop sz b h =
    Some (b + HEADER_SIZE, (take_block sz b h)\<lparr>total_allocs := total_allocs h + 1\<rparr>)"
  using assms by (subst kmalloc_loop.simps) (simp add: take_block_def Let_def)

lemma kmalloc_grown:
  assumes wf: "heap_wf h (xs @ [b])" and fr: "free (blk h b)" and no: "\<not> sz \<le> size (blk h b)"
    and sz: "unat sz + 20 + 0xD1000000 < 2 ^ 32"
  shows "\<exists>r h' bs'. kmalloc_loop sz b h = Some (r, h') \<and>
    (if r = 0 then heap_wf h' (xs @ [b]) \<and> blk h' = blk h else alloc_post sz h (xs @ [b]) r h' bs')"
proof -
  have sg: "seg (blk h) (unat (heap_end h)) 0 (xs @ [b]) 0" and e: "unat (heap_end h) \<le> 0xD1000000"
    using wf by (simp_all add: heap_wf_def)
  then have b: "b \<noteq> 0" "magic (blk h b) = HEAP_MAGIC" "next (blk h b) = 0" "b \<notin> set xs"
    "unat b + 20 + unat (size (blk h b)) \<le> unat (heap_end h)"
    using seg_end [OF sg, of b] seg_distinct [OF sg] by (auto simp: seg_append)
  have n: "unat (sz + HEADER_SIZE) = unat sz + 20" using sz by (simp add: unat_add_u32)
  have ne: "unat (heap_end h + (sz + HEADER_SIZE)) = unat (heap_end h) + unat sz + 20"
    using sz e by (simp add: unat_add_u32 n)
  obtain ok m' e' where ex: "heap_expand (heap_end h + (sz + HEADER_SIZE)) h =
      Some (ok, h\<lparr>mach := m', heap_end := e'\<rparr>)" "vm_wf m'" "\<not> ok \<longrightarrow> e' = heap_end h"
    "ok \<longrightarrow> unat e' = (unat (heap_end h + (sz + HEADER_SIZE)) + 4095) div 4096 * 4096 \<and> unat e' \<le> 0xD1000000"
    using heap_expand_spec [of h "heap_end h + (sz + HEADER_SIZE)"] wf ne
    by (auto simp: heap_wf_def)
  let ?g = "h\<lparr>mach := m', heap_end := e'\<rparr>"
  let ?g' = "upd b (\<lambda>r. r\<lparr>size := size r + (sz + HEADER_SIZE)\<rparr>) ?g"
  have step: "kmalloc_loop sz b h = (if ok then kmalloc_loop sz b ?g' else Some (0, ?g))"
    using b fr no ex(1) by (subst kmalloc_loop.simps) (simp add: Let_def)
  show ?thesis
  proof (cases ok)
    case False
    then show ?thesis using step ex(2,3) wf by (simp add: heap_wf_def)
  next
    case True
    have e': "unat (heap_end h) + unat sz + 20 \<le> unat e'" "unat e' mod 4096 = 0" "unat e' \<le> 0xD1000000"
      using ex(4) True ne by simp_all
    have s: "unat (size (blk h b) + (sz + 20)) = unat (size (blk h b)) + unat sz + 20"
      using b(5) e sz by (simp add: unat_add_u32 n)
    have "seg (blk ?g') (unat e') 0 (xs @ [b]) 0"
      using seg_mono [OF sg, of "unat e'"] b e' s by (auto simp: seg_append ends_at_def)
    then have wf': "heap_wf ?g' (xs @ [b])"
      using wf ex(2) e' by (simp add: heap_wf_def)
    have "kmalloc_loop sz b ?g' = Some (b + HEADER_SIZE,
        (take_block sz b ?g')\<lparr>total_allocs := total_allocs ?g' + 1\<rparr>)"
      using b fr s by (intro kmalloc_found) (simp_all add: word_le_nat_alt)
    moreover obtain bs' where "alloc_post sz ?g' (xs @ [b]) (b + HEADER_SIZE)
        ((take_block sz b ?g')\<lparr>total_allocs := total_allocs ?g' + 1\<rparr>) bs'"
      using take_block_post [OF wf'] fr s by fastforce
    moreover have "used_set ?g' (xs @ [b]) = used_set h (xs @ [b])"
      using fr b(4) by (auto simp: used_set_def)
    moreover have "coalesced (blk ?g') (xs @ [b]) = coalesced (blk h) (xs @ [b])"
      by (intro coalesced_cong) auto
    ultimately show ?thesis
      using step True by (auto simp: alloc_post_def)
  qed
qed

lemma kmalloc_walk:
  assumes "heap_wf h (xs @ b # ys)" "free (blk h (last (b # ys)))"
    and "\<forall>c \<in> set (b # ys). free (blk h c) \<and> sz \<le> size (blk h c) \<longrightarrow> unat sz + 20 \<le> unat (size (blk h c))"
    and "unat sz + 20 + 0xD1000000 < 2 ^ 32"
  shows "\<exists>r h' bs'. kmalloc_loop sz b h = Some (r, h') \<and>
    (if r = 0 then heap_wf h' (xs @ b # ys) \<and> blk h' = blk h
     else alloc_post sz h (xs @ b # ys) r h' bs')"
  using assms
proof (induction ys arbitrary: xs b)
  case Nil
  have b: "b \<noteq> 0" "magic (blk h b) = HEAP_MAGIC"
    using Nil.prems(1) by (auto simp: heap_wf_def seg_append)
  show ?case
  proof (cases "sz \<le> size (blk h b)")
    case True
    moreover have "b + HEADER_SIZE \<noteq> 0" using block_ptr_nonnull [OF Nil.prems(1)] by simp
    moreover obtain bs' where "alloc_post sz h (xs @ [b]) (b + HEADER_SIZE)
        ((take_block sz b h)\<lparr>total_allocs := total_allocs h + 1\<rparr>) bs'"
      using take_block_post [OF Nil.prems(1)] Nil.prems(2,3) True by fastforce
    ultimately show ?thesis
      using kmalloc_found [OF b] Nil.prems(2) by auto
  next
    case False
    then show ?thesis using kmalloc_grown Nil.prems by simp
  qed
next
  case (Cons c ys)
  have b: "b \<noteq> 0" "magic (blk h b) = HEAP_MAGIC" "next (blk h b) = c" "c \<noteq> 0"
    using Cons.prems(1) by (auto simp: heap_wf_def seg_append)
  show ?case
  proof (cases "free (blk h b) \<and> sz \<le> size (blk h b)")
    case True
    moreover have "b + HEADER_SIZE \<noteq> 0" using block_ptr_nonnull [OF Cons.prems(1)] by simp
    moreover obtain bs' where "alloc_post sz h (xs @ b # c # ys) (b + HEADER_SIZE)
        ((take_block sz b h)\<lparr>total_allocs := total_allocs h + 1\<rparr>) bs'"
      using take_block_post [OF Cons.prems(1)] Cons.prems(3) True by fastforce
    ultimately show ?thesis using kmalloc_found [OF b(1,2)] by auto
  next
    case False
    then have "kmalloc_loop sz b h = kmalloc_loop sz c h"
      using b by (subst kmalloc_loop.simps) auto
    moreover have "heap_wf h ((xs @ [b]) @ c # ys)" using Cons.prems(1) by simp
    ultimately show ?thesis using Cons.IH [of "xs @ [b]" c] Cons.prems by fastforce
  qed
qed

lemma ALIGN_UP_unat:
  assumes "unat x + 7 < 2 ^ 32"
  shows "unat (ALIGN_UP x) = (unat x + 7) div 8 * 8"
proof -
  have a: "unat (x + 7) = unat x + 7" using assms by (simp add: unat_add_u32)
  have "(x + 7) AND NOT (mask 3) = push_bit 3 (drop_bit 3 (x + 7))"
    by (auto simp: bit_eq_iff bit_simps)
  moreover have "ALIGN_UP x = (x + 7) AND NOT (mask 3)"
    by (simp add: ALIGN_UP_def mask_eq_exp_minus_1 add_diff_eq [symmetric])
  ultimately have "ALIGN_UP x = drop_bit 3 (x + 7) * 8" by (simp add: push_bit_eq_mult)
  moreover have "(unat x + 7) div 8 * 8 < 4294967296"
    using assms div_times_less_eq_dividend [of "unat x + 7" 8] by simp
  ultimately show ?thesis by (simp add: unat_word_ariths unat_drop_bit a)
qed

section \<open>Properties\<close>

text \<open>
  C4: \<^verbatim>\<open>kmalloc\<close> on a well-formed heap always returns. It either returns \<^verbatim>\<open>NULL\<close> and leaves
  every block as it was, or it returns a block that was not in use: the used blocks are
  the earlier ones, with their sizes, and one more, which is at least as large as the request
  and overlaps none of them, headers included. The chain stays well-formed and, if it was so
  before, free of adjacent free blocks. The two assumptions rule out what \<^verbatim>\<open>split_block\<close> and the
  growth of a heap whose last block is in use get wrong: a free block that fits must have
  room for one more header.
\<close>

theorem kmalloc_correct:
  assumes "heap_wf h bs" "free (blk h (last bs))" "0 < unat sz" "unat sz \<le> 0x2E000000"
    and "\<forall>c \<in> set bs. free (blk h c) \<and> ALIGN_UP sz \<le> size (blk h c) \<longrightarrow>
      unat (ALIGN_UP sz) + 20 \<le> unat (size (blk h c))"
  shows "\<exists>r h' bs'. kmalloc sz h = Some (r, h') \<and> heap_wf h' bs' \<and>
    (coalesced (blk h) bs \<longrightarrow> coalesced (blk h') bs') \<and>
    (if r = 0 then bs' = bs \<and> blk h' = blk h
     else \<exists>s. used_set h' bs' = insert (r - HEADER_SIZE, s) (used_set h bs) \<and> unat sz \<le> unat s \<and>
       (\<forall>(c, t) \<in> used_set h bs.
          unat c + 20 + unat t \<le> unat (r - HEADER_SIZE) \<or>
          unat (r - HEADER_SIZE) + 20 + unat s \<le> unat c))"
proof -
  obtain b ys where bs: "bs = [] @ b # ys" "b = first_block h"
    using assms(1) by (cases bs) (auto simp: heap_wf_def)
  have al: "unat (ALIGN_UP sz) = (unat sz + 7) div 8 * 8" using assms(4) by (intro ALIGN_UP_unat) simp
  then have le: "unat sz \<le> unat (ALIGN_UP sz)" "unat (ALIGN_UP sz) + 20 + 0xD1000000 < 2 ^ 32"
    using assms(4) by simp_all
  have "kmalloc sz h = kmalloc_loop (ALIGN_UP sz) b h"
    using assms(3) bs by (simp add: kmalloc_def unat_eq_0 [symmetric])
  moreover have "heap_wf h ([] @ b # ys)" "free (blk h (last (b # ys)))"
    "\<forall>c \<in> set (b # ys). free (blk h c) \<and> ALIGN_UP sz \<le> size (blk h c) \<longrightarrow>
      unat (ALIGN_UP sz) + 20 \<le> unat (size (blk h c))"
    using assms bs by simp_all
  from kmalloc_walk [OF this le(2)] obtain r h' bs' where r: "kmalloc_loop (ALIGN_UP sz) b h = Some (r, h')"
    "if r = 0 then heap_wf h' bs \<and> blk h' = blk h else alloc_post (ALIGN_UP sz) h bs r h' bs'"
    unfolding bs(1) [symmetric] by blast
  ultimately show ?thesis
  proof (cases "r = 0")
    case True
    then show ?thesis using r \<open>kmalloc sz h = _\<close> by (intro exI [of _ r] exI [of _ h'] exI [of _ bs]) simp
  next
    case False
    then obtain s where post: "heap_wf h' bs'" "coalesced (blk h) bs \<longrightarrow> coalesced (blk h') bs'"
      "(r - HEADER_SIZE, s) \<in> used_set h' bs'" "unat (ALIGN_UP sz) \<le> unat s"
      "r - HEADER_SIZE \<notin> fst ` used_set h bs" "used_set h' bs' = insert (r - HEADER_SIZE, s) (used_set h bs)"
      using r(2) by (auto simp: alloc_post_def)
    have "unat c + 20 + unat t \<le> unat (r - HEADER_SIZE) \<or> unat (r - HEADER_SIZE) + 20 + unat s \<le> unat c"
      if ct: "(c, t) \<in> used_set h bs" for c t
    proof -
      have "(c, t) \<in> used_set h' bs'" "c \<noteq> r - HEADER_SIZE" using ct post(5,6) by force+
      then show ?thesis
        using seg_disjoint [of "blk h'" _ 0 bs' 0 c "r - HEADER_SIZE"] post(1,3)
        by (auto simp: used_set_def heap_wf_def)
    qed
    then show ?thesis
      using r(1) post le(1) False \<open>kmalloc sz h = _\<close>
      by (intro exI [of _ r] exI [of _ h'] exI [of _ bs']) (auto intro!: exI [of _ s])
  qed
qed

text \<open>
  C15: \<^verbatim>\<open>kfree\<close> of a block in use removes exactly that block from the used ones: the chain stays
  well-formed, every other used block keeps its place and size, and the freed block is merged
  with its free neighbours, so that no two adjacent blocks are free if that was so before.
  A null pointer, a pointer without the magic word in front and a second free change nothing.
\<close>

theorem kfree_correct:
  assumes "heap_wf h bs"
  shows "(\<forall>b \<in> set bs. \<not> free (blk h b) \<longrightarrow>
      (\<exists>bs'. heap_wf (kfree (b + HEADER_SIZE) h) bs' \<and>
         used_set (kfree (b + HEADER_SIZE) h) bs' = used_set h bs - {(b, size (blk h b))} \<and>
         (coalesced (blk h) bs \<longrightarrow> coalesced (blk (kfree (b + HEADER_SIZE) h)) bs'))) \<and>
    (\<forall>ptr. ptr = 0 \<or> magic (blk h (ptr - HEADER_SIZE)) \<noteq> HEAP_MAGIC \<or> free (blk h (ptr - HEADER_SIZE)) \<longrightarrow>
       kfree ptr h = h)"
  using kfree_used [OF assms] by (auto simp: kfree_def Let_def)

text \<open>
  \<^verbatim>\<open>heap_init\<close> on a well-formed address space never faults and either finds no memory or
  ends with a well-formed heap: one free block that spans the first 64 KB, every byte of which
  is mapped.
\<close>

theorem heap_init_correct:
  assumes "vm_wf (mach h)"
  shows "\<exists>h'. heap_init h = Some h' \<and> vm_wf (mach h') \<and>
    (heap_end h' = KHEAP_START \<or>
     heap_end h' = KHEAP_START + KHEAP_INITIAL_SIZE \<and> heap_wf h' [KHEAP_START] \<and>
     free (blk h' KHEAP_START) \<and>
     (\<forall>w. unat KHEAP_START \<le> unat w \<and> unat w < unat (heap_end h') \<longrightarrow> translate (mach h') w \<noteq> None))"
proof -
  let ?h = "h\<lparr>heap_start := KHEAP_START, heap_end := KHEAP_START,
    heap_max := KHEAP_START + KHEAP_MAX_SIZE, total_allocs := 0, total_frees := 0\<rparr>"
  obtain ok m' e' where ex: "heap_expand (KHEAP_START + KHEAP_INITIAL_SIZE) ?h =
      Some (ok, ?h\<lparr>mach := m', heap_end := e'\<rparr>)" "vm_wf m'" "\<not> ok \<longrightarrow> e' = KHEAP_START"
    "ok \<longrightarrow> unat e' = unat (KHEAP_START + KHEAP_INITIAL_SIZE) \<and>
       (\<forall>w. unat KHEAP_START \<le> unat w \<and> unat w < unat e' \<longrightarrow> translate m' w \<noteq> None)"
    using heap_expand_spec [of ?h "KHEAP_START + KHEAP_INITIAL_SIZE"] assms by auto
  have "ok \<longrightarrow> e' = KHEAP_START + KHEAP_INITIAL_SIZE" using ex(4) by (simp only: word_eq_unat) simp
  then show ?thesis
    using ex by (cases ok) (simp_all add: heap_init_def heap_wf_def ends_at_def)
qed

subsection \<open>A concrete heap\<close>

definition heap_example :: heap where
  "heap_example =
     \<lparr>mach = vm_example,
      blk = (\<lambda>_. \<lparr>magic = 0, size = 0, free = False, next = 0, prev = 0\<rparr>)
        (KHEAP_START := \<lparr>magic = HEAP_MAGIC, size = 0xFFEC, free = True, next = 0, prev = 0\<rparr>),
      heap_start = KHEAP_START, heap_end = 0xD0010000, heap_max = 0xD1000000,
      first_block = KHEAP_START, total_allocs = 0, total_frees = 0\<rparr>"

lemma heap_example_wf: "heap_wf heap_example [KHEAP_START]"
  by (simp add: heap_wf_def heap_example_def ends_at_def vm_example_wf)

theorem kmalloc_correct_witness:
  "\<exists>r h' bs'. kmalloc 100 heap_example = Some (r, h') \<and> heap_wf h' bs'"
proof -
  have "unat (ALIGN_UP 100) = 104" by (simp add: ALIGN_UP_unat)
  then show ?thesis
    using kmalloc_correct [OF heap_example_wf, of 100] by (auto simp: heap_example_def)
qed

definition heap_example_used :: heap where
  "heap_example_used = upd KHEAP_START (\<lambda>r. r\<lparr>free := False\<rparr>) heap_example"

theorem kfree_correct_witness:
  "\<exists>bs'. heap_wf (kfree 0xD0000014 heap_example_used) bs' \<and>
     used_set (kfree 0xD0000014 heap_example_used) bs' = {}"
proof -
  have "heap_wf heap_example_used [KHEAP_START]"
    using heap_example_wf by (simp add: heap_wf_def heap_example_used_def)
  moreover have "\<not> free (blk heap_example_used KHEAP_START)" by (simp add: heap_example_used_def)
  ultimately show ?thesis
    using kfree_correct [of heap_example_used "[KHEAP_START]"]
    by (auto simp: used_set_def heap_example_used_def)
qed

theorem heap_init_correct_witness:
  "\<exists>h'. heap_init heap_example = Some h' \<and> vm_wf (mach h')"
  using heap_init_correct [of heap_example] vm_example_wf by (auto simp: heap_example_def)

subsection \<open>What the splitting gets wrong\<close>

text \<open>
  \<^verbatim>\<open>split_block\<close> computes \<^verbatim>\<open>block->size - size - HEADER_SIZE\<close> without checking that it is not
  negative. When a free block fits but leaves less than a header, the remainder wraps around,
  and a header for a block of almost 4 GB is written over the one that follows. Allocating
  two blocks, freeing the first and asking for the same size again marks the second block
  free while it is in use; the next request gets the same memory.
\<close>

definition alloc_free_realloc :: "heap \<Rightarrow> (u32 \<times> u32 \<times> u32 \<times> u32) option" where
  "alloc_free_realloc h = do {
     (a, h) \<leftarrow> kmalloc 16 h;
     (b, h) \<leftarrow> kmalloc 16 h;
     let h = kfree a h;
     (c, h) \<leftarrow> kmalloc 16 h;
     (d, h) \<leftarrow> kmalloc 16 h;
     Some (a, b, c, d) }"

theorem kmalloc_hands_out_a_block_twice:
  "alloc_free_realloc heap_example = Some (0xD0000014, 0xD0000038, 0xD0000014, 0xD0000038)"
  by code_simp

text \<open>
  Two further wrap-arounds: rounding the size up wraps to 0 for the greatest sizes, and the
  new end of the heap wraps below the maximum for a request of 1 GB; both requests succeed.
\<close>

lemma kmalloc_wraps_size: "map_option fst (kmalloc 0xFFFFFFFF heap_example) = Some 0xD0000014"
  by code_simp

lemma kmalloc_wraps_end: "map_option fst (kmalloc 0x40000000 heap_example) = Some 0xD0000014"
proof -
  have "ALIGN_UP 0x40000000 = 0x40000000" by (simp add: word_eq_unat ALIGN_UP_unat)
  moreover have ex: "heap_expand (0xD0010000 + 0x40000014) heap_example = Some (True, heap_example\<lparr>heap_end := 0x10011000\<rparr>)"
    by (simp add: heap_expand_def heap_example_def page_addrs_def)
  let ?h = "upd KHEAP_START (\<lambda>r. r\<lparr>size := size r + 0x40000014\<rparr>) (heap_example\<lparr>heap_end := 0x10011000\<rparr>)"
  have "kmalloc_loop 0x40000000 KHEAP_START heap_example = kmalloc_loop 0x40000000 KHEAP_START ?h"
    using ex by (subst kmalloc_loop.simps) (simp add: heap_example_def Let_def)
  moreover have "kmalloc_loop 0x40000000 KHEAP_START ?h =
      Some (KHEAP_START + HEADER_SIZE, (take_block 0x40000000 KHEAP_START ?h)\<lparr>total_allocs := total_allocs ?h + 1\<rparr>)"
    by (rule kmalloc_found) (simp_all add: heap_example_def)
  ultimately show ?thesis by (simp add: kmalloc_def heap_example_def)
qed

end
