(* ===== verification/Libc.thy ===== *)
theory Libc
  imports Pumps_Prelude
begin

text \<open>
  The string functions of \<^verbatim>\<open>libc/string\<close>. A pointer into a byte array is the list of the bytes
  from there on; where a list has ended, \<open>deref\<close> reads the terminator. Functions that write
  return the new contents of the destination. \<^verbatim>\<open>memmove\<close> is given on one array with two offsets,
  since it is about overlapping regions.
\<close>

section \<open>Memory blocks\<close>

fun memcmp :: "u8 list \<Rightarrow> u8 list \<Rightarrow> nat \<Rightarrow> int" where
  "memcmp a b 0 = 0"
| "memcmp a b (Suc n) =
     (if deref a < deref b then -1 else if deref b < deref a then 1 else memcmp (tl a) (tl b) n)"

definition memset :: "u8 list \<Rightarrow> u8 \<Rightarrow> nat \<Rightarrow> u8 list" where
  "memset buf v n = splice buf 0 (replicate n v)"

text \<open>\<^verbatim>\<open>memcpy\<close> into \<open>dst\<close>, byte by byte upwards.\<close>

definition memcpy :: "u8 list \<Rightarrow> u8 list \<Rightarrow> nat \<Rightarrow> u8 list" where
  "memcpy dst src n = fold (\<lambda>i d. d[i := src ! i]) [0..<n] dst"

text \<open>\<^verbatim>\<open>memmove(a + d, a + s, n)\<close>: upwards when the destination is below the source, else downwards.\<close>

definition memmove :: "u8 list \<Rightarrow> nat \<Rightarrow> nat \<Rightarrow> nat \<Rightarrow> u8 list" where
  "memmove a d s n =
     (if d < s then fold (\<lambda>i x. x[d + i := x ! (s + i)]) [0..<n] a
      else fold (\<lambda>i x. x[d + i := x ! (s + i)]) (rev [0..<n]) a)"

section \<open>Strings\<close>

text \<open>The string a pointer designates: the bytes before the first NUL.\<close>

definition cstr_of :: "u8 list \<Rightarrow> cstr" where
  "cstr_of p = takeWhile (\<lambda>c. c \<noteq> 0) p"

fun strcmp :: "u8 list \<Rightarrow> u8 list \<Rightarrow> int" where
  "strcmp a b =
     (if a \<noteq> [] \<and> deref a \<noteq> 0 \<and> deref a = deref b then strcmp (tl a) (tl b)
      else int (unat (deref a)) - int (unat (deref b)))"

fun strlen :: "u8 list \<Rightarrow> nat" where
  "strlen p = (if p \<noteq> [] \<and> deref p \<noteq> 0 then Suc (strlen (tl p)) else 0)"

fun strncpy_bytes :: "u8 list \<Rightarrow> nat \<Rightarrow> u8 list" where
  "strncpy_bytes src 0 = []"
| "strncpy_bytes src (Suc n) =
     (if deref src \<noteq> 0 then deref src # strncpy_bytes (tl src) n else replicate (Suc n) 0)"

definition strncpy :: "u8 list \<Rightarrow> u8 list \<Rightarrow> nat \<Rightarrow> u8 list" where
  "strncpy dest src n = splice dest 0 (strncpy_bytes src n)"

declare strcmp.simps [simp del] strlen.simps [simp del]

section \<open>Facts\<close>

lemma deref_ne_0: "deref p \<noteq> 0 \<Longrightarrow> p \<noteq> []"
  by auto

lemma cstr_of_step: "cstr_of p = (if deref p \<noteq> 0 then deref p # cstr_of (tl p) else [])"
  by (cases p) (simp_all add: cstr_of_def)

lemma strcmp_0_iff: "strcmp a b = 0 \<longleftrightarrow> cstr_of a = cstr_of b"
proof (induction a b rule: strcmp.induct)
  case (1 a b)
  show ?case
  proof (cases "a \<noteq> [] \<and> deref a \<noteq> 0 \<and> deref a = deref b")
    case True
    then have "strcmp a b = strcmp (tl a) (tl b)" by (subst strcmp.simps) auto
    with 1 True cstr_of_step [of a] cstr_of_step [of b] show ?thesis by auto
  next
    case False
    then have "strcmp a b = int (unat (deref a)) - int (unat (deref b))" by (subst strcmp.simps) auto
    then have "strcmp a b = 0 \<longleftrightarrow> deref a = deref b" by (simp add: word_uint_eq_iff)
    with False cstr_of_step [of a] cstr_of_step [of b] show ?thesis by (cases a) auto
  qed
qed

lemma strlen_cstr: "strlen p = length (cstr_of p)"
proof (induction p rule: strlen.induct)
  case (1 p)
  then show ?case
    by (subst strlen.simps) (cases p; simp add: cstr_of_def)
qed

lemma length_strncpy_bytes [simp]: "length (strncpy_bytes src n) = n"
  by (induction n arbitrary: src) auto

lemma strncpy_bytes_eq:
  "strncpy_bytes src n = take n (cstr_of src) @ replicate (n - length (cstr_of src)) 0"
proof (induction n arbitrary: src)
  case (Suc n)
  then show ?case using cstr_of_step [of src] by (cases "deref src = 0") simp_all
qed simp

lemma cstr_of_nonzero: "c \<in> set (cstr_of p) \<Longrightarrow> c \<noteq> 0"
  by (auto simp: cstr_of_def dest: set_takeWhileD)

lemma cstr_of_append_0: "\<forall>c \<in> set s. c \<noteq> 0 \<Longrightarrow> cstr_of (s @ 0 # r) = s"
  by (induction s) (simp_all add: cstr_of_def)

lemma cstr_of_id: "\<forall>c \<in> set s. c \<noteq> 0 \<Longrightarrow> cstr_of s = s"
  by (simp add: cstr_of_def)

text \<open>A name that is shorter than the field survives the copy into it.\<close>

lemma cstr_of_strncpy_bytes:
  "length (cstr_of src) < n \<Longrightarrow> cstr_of (strncpy_bytes src n @ r) = cstr_of src"
proof -
  assume n: "length (cstr_of src) < n"
  then have "strncpy_bytes src n @ r = cstr_of src @ 0 # replicate (n - length (cstr_of src) - 1) 0 @ r"
    by (simp add: strncpy_bytes_eq Suc_diff_Suc [symmetric])
  then show ?thesis using cstr_of_nonzero [of _ src] cstr_of_append_0 by metis
qed

lemma memcmp_0_iff:
  "n \<le> length a \<Longrightarrow> n \<le> length b \<Longrightarrow> memcmp a b n = 0 \<longleftrightarrow> take n a = take n b"
proof (induction n arbitrary: a b)
  case (Suc n)
  then show ?case by (cases a; cases b) auto
qed simp

lemma fold_write_up:
  assumes "n \<le> length src" "n \<le> length dst"
  shows "fold (\<lambda>i d. d[i := src ! i]) [0..<n] dst = take n src @ drop n dst"
  using assms
proof (induction n)
  case (Suc n)
  then show ?case
    by (simp add: list_update_append take_Suc_conv_app_nth list_update_beyond
        Cons_nth_drop_Suc [symmetric])
qed simp

lemma memcpy_splice: "n \<le> length src \<Longrightarrow> n \<le> length dst \<Longrightarrow> memcpy dst src n = splice dst 0 (take n src)"
  by (simp add: memcpy_def fold_write_up splice_def)

lemma memmove_up:
  assumes "d < s" "s + n \<le> length a"
  shows "fold (\<lambda>i x. x[d + i := x ! (s + i)]) [0..<n] a = splice a d (slice s n a)"
  using assms(2)
proof (induction n)
  case 0
  then show ?case using assms(1) by (simp add: splice_def slice_def)
next
  case (Suc n)
  let ?x = "splice a d (slice s n a)"
  have len: "length ?x = length a" using Suc.prems assms(1) by simp
  have rd: "?x ! (s + n) = a ! (s + n)"
    using Suc.prems assms(1) by (subst nth_splice) simp_all
  have "?x[d + n := a ! (s + n)] = splice a d (slice s (Suc n) a)"
  proof (rule nth_equalityI)
    show "length (?x[d + n := a ! (s + n)]) = length (splice a d (slice s (Suc n) a))"
      using Suc.prems assms(1) len by simp
    fix i assume "i < length (?x[d + n := a ! (s + n)])"
    then have i: "i < length a" using len by simp
    then show "?x[d + n := a ! (s + n)] ! i = splice a d (slice s (Suc n) a) ! i"
      using Suc.prems assms(1) len
      by (simp add: nth_list_update nth_splice nth_slice less_Suc_eq) (auto simp: nth_splice nth_slice)
  qed
  then show ?case using Suc rd by simp
qed

lemma memmove_down:
  assumes "s \<le> d" "d + n \<le> length a"
  shows "fold (\<lambda>i x. x[d + i := x ! (s + i)]) (rev [0..<n]) a = splice a d (slice s n a)"
  using assms(2)
proof (induction n arbitrary: a)
  case 0
  then show ?case by (simp add: splice_def slice_def)
next
  case (Suc n)
  let ?a = "a[d + n := a ! (s + n)]"
  have "slice s n ?a = slice s n a"
    using Suc.prems assms(1) by (intro nth_equalityI) (simp_all add: nth_slice)
  moreover have "splice ?a d (slice s n a) = splice a d (slice s (Suc n) a)"
  proof (rule nth_equalityI)
    show "length (splice ?a d (slice s n a)) = length (splice a d (slice s (Suc n) a))"
      using Suc.prems assms(1) by simp
    fix i assume "i < length (splice ?a d (slice s n a))"
    then have "i < length a" using Suc.prems assms(1) by simp
    then show "splice ?a d (slice s n a) ! i = splice a d (slice s (Suc n) a) ! i"
      using Suc.prems assms(1)
      by (simp add: nth_splice nth_list_update less_Suc_eq) (auto simp: nth_slice)
  qed
  ultimately show ?case using Suc.IH [of ?a] Suc.prems by simp
qed

section \<open>Properties\<close>

text \<open>
  The function \<^verbatim>\<open>memmove\<close> is correct for overlapping regions in both directions: afterwards the
  destination holds what the source held before, and every other byte is unchanged.
\<close>

theorem memmove_correct:
  assumes "s + n \<le> length a" "d + n \<le> length a"
  shows "memmove a d s n = splice a d (slice s n a)"
  using assms memmove_up [of d s n a] memmove_down [of s d n a] by (simp add: memmove_def)

theorem memmove_correct_witness:
  "memmove [1, 2, 3, 4, 5] 1 0 3 = [1, 1, 2, 3, 5] \<and> memmove [1, 2, 3, 4, 5] 0 1 3 = [2, 3, 4, 4, 5]"
  using memmove_correct [of 0 3 "[1, 2, 3, 4, 5]" 1] memmove_correct [of 1 3 "[1, 2, 3, 4, 5]" 0]
  by (simp add: splice_def slice_def)

end
