(* ===== verification/Ata.thy ===== *)
theory Ata
  imports Libc
begin

text \<open>
  The ATA PIO driver, \<^verbatim>\<open>kernel/arch/i386/ata.c\<close>. The drive is a map from logical block
  addresses to 512-byte sectors; for every command it stays busy for some number of status
  reads and then shows a final status. Both are parameters of the drive, so that time-outs,
  error bits and a missing data request are covered. The task-file registers are written in
  full before each command, so they are values of the call and not part of the state.
\<close>

section \<open>Drive and operations\<close>

record ata =
  disk :: "u32 \<Rightarrow> u8 list"
  busy_polls :: "u8 \<Rightarrow> u32 \<Rightarrow> nat"
  end_status :: "u8 \<Rightarrow> u32 \<Rightarrow> u8"

abbreviation (input) ATA_SR_BSY :: u8 where "ATA_SR_BSY \<equiv> 0x80"
abbreviation (input) ATA_SR_DRQ :: u8 where "ATA_SR_DRQ \<equiv> 0x08"
abbreviation (input) ATA_SR_ERR :: u8 where "ATA_SR_ERR \<equiv> 0x81"
abbreviation (input) ATA_CMD_READ_PIO :: u8 where "ATA_CMD_READ_PIO \<equiv> 0x20"
abbreviation (input) ATA_CMD_WRITE_PIO :: u8 where "ATA_CMD_WRITE_PIO \<equiv> 0x30"
abbreviation (input) ATA_CMD_CACHE_FLUSH :: u8 where "ATA_CMD_CACHE_FLUSH \<equiv> 0xE7"

text \<open>The value of the \<open>k\<close>-th read of the status port after a command.\<close>

definition ata_status :: "ata \<Rightarrow> u8 \<Rightarrow> u32 \<Rightarrow> nat \<Rightarrow> u8" where
  "ata_status a cmd lba k = (if k < busy_polls a cmd lba then ATA_SR_BSY else end_status a cmd lba)"

text \<open>
  \<^verbatim>\<open>while (inb(ATA_STATUS) & ATA_SR_BSY) if (--timeout == 0) return false\<close>; the result is the
  number of the next status read, or \<open>None\<close> on time-out.
\<close>

fun ata_wait :: "(nat \<Rightarrow> u8) \<Rightarrow> nat \<Rightarrow> nat \<Rightarrow> nat option" where
  "ata_wait st k timeout =
     (if st k AND ATA_SR_BSY = 0 then Some (Suc k)
      else if timeout \<le> 1 then None
      else ata_wait st (Suc k) (timeout - 1))"

declare ata_wait.simps [simp del]

definition ata_poll :: "(nat \<Rightarrow> u8) \<Rightarrow> bool" where
  "ata_poll st =
     (case ata_wait st 4 100000 of
        None \<Rightarrow> False
      | Some k \<Rightarrow> st k AND ATA_SR_ERR = 0 \<and> st k AND ATA_SR_DRQ \<noteq> 0)"

text \<open>The task-file registers the driver writes, and the block address the drive makes of them.\<close>

definition ata_regs :: "u32 \<Rightarrow> u8 \<times> u8 \<times> u8 \<times> u8" where
  "ata_regs lba =
     (ucast (0xE0 OR (drop_bit 24 lba AND 0x0F)), ucast (lba AND 0xFF),
      ucast (drop_bit 8 lba AND 0xFF), ucast (drop_bit 16 lba AND 0xFF))"

definition drive_lba :: "u8 \<times> u8 \<times> u8 \<times> u8 \<Rightarrow> u32" where
  "drive_lba = (\<lambda>(drive, low, mid, high).
     push_bit 24 (ucast drive AND 0x0F) OR push_bit 16 (ucast high) OR push_bit 8 (ucast mid) OR ucast low)"

text \<open>The 256 word transfers, each a little-endian pair of bytes.\<close>

definition sector_words :: "u8 list \<Rightarrow> u16 list" where
  "sector_words s = map (\<lambda>i. un_le16 [s ! (2 * i), s ! (2 * i + 1)]) [0..<256]"

definition words_bytes :: "u16 list \<Rightarrow> u8 list" where
  "words_bytes ws = concat (map le16 ws)"

definition ata_read_sector :: "u32 \<Rightarrow> ata \<Rightarrow> u8 list option" where
  "ata_read_sector lba a =
     (let l = drive_lba (ata_regs lba) in
      if \<not> ata_poll (ata_status a ATA_CMD_READ_PIO l) then None
      else Some (words_bytes (sector_words (disk a l))))"

definition ata_write_sector :: "u32 \<Rightarrow> u8 list \<Rightarrow> ata \<Rightarrow> bool \<times> ata" where
  "ata_write_sector lba buf a =
     (let l = drive_lba (ata_regs lba) in
      if \<not> ata_poll (ata_status a ATA_CMD_WRITE_PIO l) then (False, a)
      else let a = a\<lparr>disk := (disk a)(l := words_bytes (sector_words buf))\<rparr>
           in (ata_wait (ata_status a ATA_CMD_CACHE_FLUSH l) 0 100000 \<noteq> None, a))"

section \<open>Addressing\<close>

lemma drive_lba_regs:
  assumes "lba < 0x10000000"
  shows "drive_lba (ata_regs lba) = lba"
proof (rule bit_word_eqI)
  fix n assume n: "n < LENGTH(32)"
  have m: "(0x0F :: u32) = mask 4" "(0xFF :: u32) = mask 8"
    by (simp_all add: mask_eq_exp_minus_1)
  have "unat (take_bit 28 lba) = unat lba"
    using assms by (simp add: unsigned_take_bit_eq take_bit_eq_mod word_less_nat_alt)
  then have "take_bit 28 lba = lba" by (simp only: word_eq_unat)
  then have hi: "\<not> bit lba k" if "28 \<le> k" for k
    using that by (metis bit_take_bit_iff linorder_not_le)
  consider "n < 8" | "8 \<le> n" "n < 16" | "16 \<le> n" "n < 24" | "n = 24" | "n = 25" | "n = 26" | "n = 27" | "28 \<le> n"
    by linarith
  then show "bit (drive_lba (ata_regs lba)) n = bit lba n"
    using hi by cases (auto simp: drive_lba_def ata_regs_def m bit_simps)
qed

lemma words_bytes_sector:
  assumes "length s = 512"
  shows "words_bytes (sector_words s) = s"
proof -
  have le: "le16 (un_le16 [x, y]) = [x, y]" for x y
    by (auto simp: le16_def un_le16_def bit_eq_iff bit_simps dest: bit_imp_le_length)
  have "concat (map (\<lambda>i. [s ! (2 * i), s ! (2 * i + 1)]) [0..<n]) = take (2 * n) s" if "2 * n \<le> length s" for n
    using that by (induction n) (auto simp: take_Suc_conv_app_nth)
  from this [of 256] show ?thesis
    using assms by (simp add: words_bytes_def sector_words_def comp_def le)
qed

section \<open>A working drive\<close>

text \<open>
  The drive works on a sector if none of its commands is still busy after the four dummy
  reads and the time-out, and the final status shows data requested, not busy and no error.
\<close>

definition drive_ready :: "ata \<Rightarrow> u8 \<Rightarrow> u32 \<Rightarrow> bool" where
  "drive_ready a cmd l \<longleftrightarrow> busy_polls a cmd l < 100000 \<and> end_status a cmd l AND 0x89 = 8"

definition ata_ok :: "ata \<Rightarrow> bool" where
  "ata_ok a \<longleftrightarrow> (\<forall>cmd l. drive_ready a cmd l) \<and> (\<forall>l. length (disk a l) = 512)"

lemma ready_bits:
  assumes "drive_ready a cmd l"
  shows "end_status a cmd l AND ATA_SR_BSY = 0" "end_status a cmd l AND ATA_SR_ERR = 0"
    "end_status a cmd l AND ATA_SR_DRQ = 8"
proof -
  have e: "end_status a cmd l AND 0x89 = 8" using assms by (simp add: drive_ready_def)
  have b: "end_status a cmd l AND k = 8 AND k" if "(0x89 AND k :: u8) = k" for k
    using that by (metis e and.assoc)
  show "end_status a cmd l AND ATA_SR_BSY = 0" "end_status a cmd l AND ATA_SR_ERR = 0"
    "end_status a cmd l AND ATA_SR_DRQ = 8" by (simp_all add: b)
qed

lemma ata_wait_ready:
  assumes "drive_ready a cmd l" "busy_polls a cmd l < k + timeout"
  shows "\<exists>j. ata_wait (ata_status a cmd l) k timeout = Some j \<and> busy_polls a cmd l < j"
  using assms(2)
proof (induction timeout arbitrary: k)
  case 0
  then have "ata_status a cmd l k = end_status a cmd l" by (simp add: ata_status_def)
  then show ?case using ready_bits [OF assms(1)] 0 by (subst ata_wait.simps) simp
next
  case (Suc t)
  show ?case
  proof (cases "k < busy_polls a cmd l")
    case True
    then have "t \<noteq> 0" "ata_status a cmd l k = ATA_SR_BSY" using Suc.prems by (auto simp: ata_status_def)
    then have "ata_wait (ata_status a cmd l) k (Suc t) = ata_wait (ata_status a cmd l) (Suc k) t"
      by (subst ata_wait.simps) simp
    then show ?thesis using Suc.IH [of "Suc k"] Suc.prems by simp
  next
    case False
    then have "ata_status a cmd l k = end_status a cmd l" by (simp add: ata_status_def)
    then show ?thesis using ready_bits [OF assms(1)] False by (subst ata_wait.simps) simp
  qed
qed

lemma ata_poll_ready: "drive_ready a cmd l \<Longrightarrow> ata_poll (ata_status a cmd l)"
proof -
  assume r: "drive_ready a cmd l"
  then obtain j where "ata_wait (ata_status a cmd l) 4 100000 = Some j" "busy_polls a cmd l < j"
    using ata_wait_ready [OF r, of 4 100000] by (auto simp: drive_ready_def)
  then show ?thesis using ready_bits [OF r] by (simp add: ata_poll_def ata_status_def)
qed

text \<open>
  A block device as its clients see it: reading returns the contents of the sector, writing
  replaces exactly one sector, as long as the device works and the address is in range.
\<close>

locale sector_device =
  fixes rd :: "u32 \<Rightarrow> 'd \<Rightarrow> u8 list option"
    and wr :: "u32 \<Rightarrow> u8 list \<Rightarrow> 'd \<Rightarrow> bool \<times> 'd"
    and sect :: "'d \<Rightarrow> u32 \<Rightarrow> u8 list"
    and ok :: "'d \<Rightarrow> bool"
    and lim :: u32
  assumes rd_ok: "ok d \<Longrightarrow> l < lim \<Longrightarrow> rd l d = Some (sect d l)"
    and wr_ok: "ok d \<Longrightarrow> l < lim \<Longrightarrow> length b = 512 \<Longrightarrow>
      \<exists>d'. wr l b d = (True, d') \<and> sect d' = (sect d)(l := b) \<and> ok d'"
    and sect_length: "ok d \<Longrightarrow> length (sect d l) = 512"
begin

lemma read_after_write:
  assumes "ok d" "l < lim" "k < lim" "length b = 512" "wr l b d = (r, d')"
  shows "r \<and> rd k d' = Some (if k = l then b else sect d k)"
  using wr_ok [OF assms(1,2,4)] rd_ok [of d' k] assms(3,5) by auto

lemma write_commutes:
  assumes "ok d" "l < lim" "k < lim" "k \<noteq> l" "length b = 512" "length c = 512"
  shows "sect (snd (wr k c (snd (wr l b d)))) = sect (snd (wr l b (snd (wr k c d))))"
proof -
  obtain d1 d2 where d: "wr l b d = (True, d1)" "sect d1 = (sect d)(l := b)" "ok d1"
    "wr k c d = (True, d2)" "sect d2 = (sect d)(k := c)" "ok d2"
    using wr_ok [OF assms(1,2,5)] wr_ok [OF assms(1,3,6)] by blast
  obtain d3 d4 where "wr k c d1 = (True, d3)" "sect d3 = (sect d1)(k := c)"
    "wr l b d2 = (True, d4)" "sect d4 = (sect d2)(l := b)"
    using wr_ok [OF d(3) assms(3,6)] wr_ok [OF d(6) assms(2,5)] by blast
  with d assms(4) show ?thesis by (simp add: fun_upd_twist)
qed

end

lemma ata_read_ok: "ata_ok a \<Longrightarrow> l < 0x10000000 \<Longrightarrow> ata_read_sector l a = Some (disk a l)"
  by (simp add: ata_read_sector_def drive_lba_regs ata_ok_def ata_poll_ready words_bytes_sector)

lemma ata_ok_disk: "ata_ok a \<Longrightarrow> length b = 512 \<Longrightarrow> ata_ok (a\<lparr>disk := (disk a)(l := b)\<rparr>)"
  by (simp add: ata_ok_def drive_ready_def)

lemma ata_write_ok:
  assumes "ata_ok a" "l < 0x10000000" "length b = 512"
  shows "ata_write_sector l b a = (True, a\<lparr>disk := (disk a)(l := b)\<rparr>)"
proof -
  let ?a = "a\<lparr>disk := (disk a)(l := b)\<rparr>"
  have "drive_ready ?a ATA_CMD_CACHE_FLUSH l" using assms(1) by (simp add: ata_ok_def drive_ready_def)
  then have "ata_wait (ata_status ?a ATA_CMD_CACHE_FLUSH l) 0 100000 \<noteq> None"
    using ata_wait_ready [of ?a ATA_CMD_CACHE_FLUSH l 0 100000] by (auto simp: drive_ready_def)
  then show ?thesis
    using assms by (simp add: ata_write_sector_def drive_lba_regs ata_ok_def ata_poll_ready words_bytes_sector)
qed

interpretation ata_disk: sector_device ata_read_sector ata_write_sector disk ata_ok "0x10000000"
proof unfold_locales
  fix d l assume "ata_ok d" "l < (0x10000000 :: u32)"
  then show "ata_read_sector l d = Some (disk d l)" by (rule ata_read_ok)
next
  fix d l b assume "ata_ok d" "l < (0x10000000 :: u32)" "length (b :: u8 list) = 512"
  then show "\<exists>d'. ata_write_sector l b d = (True, d') \<and> disk d' = (disk d)(l := b) \<and> ata_ok d'"
    using ata_write_ok [of d l b] ata_ok_disk [of d b l] by simp
next
  fix d l assume "ata_ok d"
  then show "length (disk d l) = 512" by (simp add: ata_ok_def)
qed


definition ata_example :: ata where
  "ata_example = \<lparr>disk = (\<lambda>_. replicate 512 0), busy_polls = (\<lambda>_ _. 10), end_status = (\<lambda>_ _. 0x48)\<rparr>"

lemma ata_example_ok: "ata_ok ata_example"
  by (simp add: ata_ok_def ata_example_def drive_ready_def)


text \<open>A block address of 29 bits or more is cut off: the drive gets another sector.\<close>

lemma ata_lba_truncated: "drive_lba (ata_regs 0x10000005) = 5"
  by (simp add: drive_lba_def ata_regs_def)

end
