(* ===== verification/Pfs.thy ===== *)
theory Pfs
  imports Ata "HOL-Library.Monad_Syntax"
begin

text \<open>
  PumpsFS, \<^verbatim>\<open>kernel/kernel/pfs.c\<close> and \<^verbatim>\<open>pfs.h\<close>, with the byte-offset write of \<^verbatim>\<open>pfs_vfs.c\<close>. The
  on-disk structures are read and written at their byte offsets in 512-byte sectors, as the
  casts in the C code do. The state is the drive and the in-memory superblock. Functions that
  return \<^verbatim>\<open>-1\<close> for failure return an \<open>int\<close>; a bool result and the new state are returned as a
  pair. Sector buffers on the stack are lists of 512 bytes.
\<close>

section \<open>On-disk structures\<close>

record superblock =
  sb_magic :: u32
  total_blocks :: u32
  total_inodes :: u32
  inode_bitmap_sec :: u32
  block_bitmap_sec :: u32
  inode_table_sec :: u32
  data_start_sec :: u32
  root_inode :: u32

record inode =
  itype :: u32
  isize :: u32
  iblocks :: "u32 list"
  ireserved :: "u32 list"

record pfs =
  dev :: ata
  sb :: superblock

abbreviation (input) PFS_MAGIC :: u32 where "PFS_MAGIC \<equiv> 0x50465321"
abbreviation (input) PFS_BLOCK_SIZE :: u32 where "PFS_BLOCK_SIZE \<equiv> 512"
abbreviation (input) PFS_TOTAL_BLOCKS :: nat where "PFS_TOTAL_BLOCKS \<equiv> 32768"
abbreviation (input) PFS_TOTAL_INODES :: nat where "PFS_TOTAL_INODES \<equiv> 4096"
abbreviation (input) PFS_DIRECT_BLOCKS :: nat where "PFS_DIRECT_BLOCKS \<equiv> 12"
abbreviation (input) PFS_SUPERBLOCK_SEC :: u32 where "PFS_SUPERBLOCK_SEC \<equiv> 0"
abbreviation (input) PFS_INODE_BITMAP_SEC :: u32 where "PFS_INODE_BITMAP_SEC \<equiv> 1"
abbreviation (input) PFS_BLOCK_BITMAP_SEC :: u32 where "PFS_BLOCK_BITMAP_SEC \<equiv> 2"
abbreviation (input) PFS_INODE_TABLE_SEC :: u32 where "PFS_INODE_TABLE_SEC \<equiv> 10"
abbreviation (input) PFS_DATA_START_SEC :: u32 where "PFS_DATA_START_SEC \<equiv> 522"
abbreviation (input) PFS_TYPE_FILE :: u32 where "PFS_TYPE_FILE \<equiv> 1"
abbreviation (input) PFS_TYPE_DIR :: u32 where "PFS_TYPE_DIR \<equiv> 2"

text \<open>32-bit fields at a byte offset of a buffer.\<close>

definition get32 :: "u8 list \<Rightarrow> nat \<Rightarrow> u32" where
  "get32 buf k = un_le32 (slice k 4 buf)"

definition put32 :: "nat \<Rightarrow> u32 \<Rightarrow> u8 list \<Rightarrow> u8 list" where
  "put32 k v buf = splice buf k (le32 v)"

definition superblock_of :: "u8 list \<Rightarrow> superblock" where
  "superblock_of b = \<lparr>sb_magic = get32 b 0, total_blocks = get32 b 4, total_inodes = get32 b 8,
     inode_bitmap_sec = get32 b 12, block_bitmap_sec = get32 b 16, inode_table_sec = get32 b 20,
     data_start_sec = get32 b 24, root_inode = get32 b 28\<rparr>"

definition inode_of :: "u8 list \<Rightarrow> inode" where
  "inode_of b = \<lparr>itype = get32 b 0, isize = get32 b 4,
     iblocks = map (\<lambda>k. get32 b (8 + 4 * k)) [0..<PFS_DIRECT_BLOCKS],
     ireserved = map (\<lambda>k. get32 b (56 + 4 * k)) [0..<2]\<rparr>"

definition inode_bytes :: "inode \<Rightarrow> u8 list" where
  "inode_bytes n = concat (map le32 (itype n # isize n # iblocks n @ ireserved n))"

definition zero_sector :: "u8 list" where
  "zero_sector = replicate 512 0"

section \<open>Formatting and mounting\<close>

text \<open>\<^verbatim>\<open>pfs_mkfs\<close> ignores the results of its writes.\<close>

definition wsec :: "u32 \<Rightarrow> u8 list \<Rightarrow> ata \<Rightarrow> ata" where
  "wsec l b a = snd (ata_write_sector l b a)"

definition mkfs_superblock :: "u8 list" where
  "mkfs_superblock =
     put32 28 1 (put32 24 PFS_DATA_START_SEC (put32 20 PFS_INODE_TABLE_SEC
       (put32 16 PFS_BLOCK_BITMAP_SEC (put32 12 PFS_INODE_BITMAP_SEC
         (put32 8 (of_nat PFS_TOTAL_INODES) (put32 4 (of_nat PFS_TOTAL_BLOCKS)
           (put32 0 PFS_MAGIC zero_sector)))))))"

definition mkfs_inode_bitmap :: "u8 list" where
  "mkfs_inode_bitmap =
     (let s = zero_sector[0 := zero_sector ! 0 OR 0x01] in s[0 := s ! 0 OR 0x02])"

definition mkfs_block_bitmap :: "u8 list" where
  "mkfs_block_bitmap = zero_sector[0 := zero_sector ! 0 OR 0x01]"

definition mkfs_root_inode :: "u8 list" where
  "mkfs_root_inode = put32 (64 + 8) 0 (put32 (64 + 4) PFS_BLOCK_SIZE (put32 64 PFS_TYPE_DIR zero_sector))"

definition mkfs_root_dir :: "u8 list" where
  "mkfs_root_dir =
     (let s = put32 0 1 zero_sector;
          s = splice s 4 (strncpy_bytes (cstr_lit ''.'') 28);
          s = put32 32 1 s
      in splice s 36 (strncpy_bytes (cstr_lit ''..'') 28))"

definition pfs_mkfs :: "ata \<Rightarrow> ata" where
  "pfs_mkfs a =
     (let a = wsec PFS_SUPERBLOCK_SEC mkfs_superblock a;
          a = wsec PFS_INODE_BITMAP_SEC mkfs_inode_bitmap a;
          a = wsec PFS_BLOCK_BITMAP_SEC mkfs_block_bitmap a;
          a = fold (\<lambda>i. wsec (PFS_BLOCK_BITMAP_SEC + of_nat i) zero_sector) [1..<8] a;
          a = wsec PFS_INODE_TABLE_SEC mkfs_root_inode a
      in wsec (PFS_DATA_START_SEC + 0) mkfs_root_dir a)"

definition pfs_mount :: "pfs \<Rightarrow> bool \<times> pfs" where
  "pfs_mount fs =
     (case ata_read_sector PFS_SUPERBLOCK_SEC (dev fs) of
        None \<Rightarrow> (False, fs)
      | Some sector \<Rightarrow>
          let fs = fs\<lparr>sb := superblock_of sector\<rparr>
          in (sb_magic (sb fs) = PFS_MAGIC, fs))"

section \<open>Inodes\<close>

definition pfs_read_inode :: "u32 \<Rightarrow> pfs \<Rightarrow> inode option" where
  "pfs_read_inode n fs =
     (if n \<ge> of_nat PFS_TOTAL_INODES then None
      else do {
        sector \<leftarrow> ata_read_sector (inode_table_sec (sb fs) + n div 8) (dev fs);
        Some (inode_of (slice (unat (n mod 8) * 64) 64 sector)) })"

definition pfs_write_inode :: "u32 \<Rightarrow> inode \<Rightarrow> pfs \<Rightarrow> bool \<times> pfs" where
  "pfs_write_inode n nd fs =
     (if n \<ge> of_nat PFS_TOTAL_INODES then (False, fs)
      else let sec = inode_table_sec (sb fs) + n div 8 in
        case ata_read_sector sec (dev fs) of
          None \<Rightarrow> (False, fs)
        | Some sector \<Rightarrow>
            (case ata_write_sector sec (splice sector (unat (n mod 8) * 64) (inode_bytes nd)) (dev fs) of
               (ok, d) \<Rightarrow> (ok, fs\<lparr>dev := d\<rparr>)))"

section \<open>Bitmaps\<close>

definition bm_test :: "u8 list \<Rightarrow> nat \<Rightarrow> bool" where
  "bm_test bm i \<longleftrightarrow> bm ! (i div 8) AND push_bit (i mod 8) 1 \<noteq> 0"

definition bm_set :: "nat \<Rightarrow> u8 list \<Rightarrow> u8 list" where
  "bm_set i bm = bm[i div 8 := bm ! (i div 8) OR push_bit (i mod 8) 1]"

definition pfs_alloc_inode :: "pfs \<Rightarrow> int \<times> pfs" where
  "pfs_alloc_inode fs =
     (case ata_read_sector (inode_bitmap_sec (sb fs)) (dev fs) of
        None \<Rightarrow> (-1, fs)
      | Some bitmap \<Rightarrow>
          (case find (\<lambda>i. \<not> bm_test bitmap i) [0..<PFS_TOTAL_INODES] of
             None \<Rightarrow> (-1, fs)
           | Some i \<Rightarrow> (int i, fs\<lparr>dev := wsec (inode_bitmap_sec (sb fs)) (bm_set i bitmap) (dev fs)\<rparr>)))"

fun alloc_block_loop :: "nat list \<Rightarrow> pfs \<Rightarrow> int \<times> pfs" where
  "alloc_block_loop [] fs = (-1, fs)"
| "alloc_block_loop (s # ss) fs =
     (case ata_read_sector (block_bitmap_sec (sb fs) + of_nat s) (dev fs) of
        None \<Rightarrow> (-1, fs)
      | Some bitmap \<Rightarrow>
          (case find (\<lambda>i. s * 4096 + i \<ge> PFS_TOTAL_BLOCKS \<or> \<not> bm_test bitmap i) [0..<4096] of
             None \<Rightarrow> alloc_block_loop ss fs
           | Some i \<Rightarrow>
               if s * 4096 + i \<ge> PFS_TOTAL_BLOCKS then (-1, fs)
               else (int (s * 4096 + i),
                     fs\<lparr>dev := wsec (block_bitmap_sec (sb fs) + of_nat s) (bm_set i bitmap) (dev fs)\<rparr>)))"

definition pfs_alloc_block :: "pfs \<Rightarrow> int \<times> pfs" where
  "pfs_alloc_block fs = alloc_block_loop [0..<8] fs"

section \<open>Directories and files\<close>

text \<open>A directory sector holds 16 entries of 32 bytes: the inode number and a 28-byte name.\<close>

definition pfs_dir_add :: "u32 \<Rightarrow> cstr \<Rightarrow> u32 \<Rightarrow> pfs \<Rightarrow> bool \<times> pfs" where
  "pfs_dir_add dir_inode_num name inode_num fs =
     (case pfs_read_inode dir_inode_num fs of
        None \<Rightarrow> (False, fs)
      | Some dir \<Rightarrow>
          if itype dir \<noteq> PFS_TYPE_DIR then (False, fs)
          else let data_sec = data_start_sec (sb fs) + iblocks dir ! 0 in
            case ata_read_sector data_sec (dev fs) of
              None \<Rightarrow> (False, fs)
            | Some sector \<Rightarrow>
                (case find (\<lambda>i. get32 sector (32 * i) = 0) [0..<16] of
                   None \<Rightarrow> (False, fs)
                 | Some i \<Rightarrow>
                     let sector = put32 (32 * i) inode_num sector;
                         sector = splice sector (32 * i + 4) (strncpy_bytes name 28);
                         sector = sector[32 * i + 31 := 0]
                     in (case ata_write_sector data_sec sector (dev fs) of
                           (ok, d) \<Rightarrow> (ok, fs\<lparr>dev := d\<rparr>))))"

definition pfs_create :: "cstr \<Rightarrow> pfs \<Rightarrow> int \<times> pfs" where
  "pfs_create name fs =
     (case pfs_alloc_inode fs of (ino, fs) \<Rightarrow>
        if ino < 1 then (-1, fs)
        else let node = \<lparr>itype = PFS_TYPE_FILE, isize = 0, iblocks = replicate 12 0, ireserved = [0, 0]\<rparr> in
          case pfs_write_inode (of_int ino) node fs of (ok, fs) \<Rightarrow>
            if \<not> ok then (-1, fs)
            else case pfs_dir_add (root_inode (sb fs)) name (of_int ino) fs of (ok, fs) \<Rightarrow>
              if \<not> ok then (-1, fs) else (ino, fs))"

text \<open>
  The loop of \<^verbatim>\<open>pfs_write_file\<close>: the slots still to do, the bytes written so far and the inode
  in memory. \<open>None\<close> as the first component is \<^verbatim>\<open>return false\<close>.
\<close>

definition write_slot :: "nat \<Rightarrow> inode \<Rightarrow> pfs \<Rightarrow> (inode option) \<times> pfs" where
  "write_slot b node fs =
     (if iblocks node ! b = 0
      then (case pfs_alloc_block fs of (blk, fs) \<Rightarrow>
              if blk < 0 then (None, fs)
              else (Some (node\<lparr>iblocks := (iblocks node)[b := of_int blk]\<rparr>), fs))
      else (Some node, fs))"

fun write_blocks :: "nat list \<Rightarrow> u8 list \<Rightarrow> u32 \<Rightarrow> u32 \<Rightarrow> inode \<Rightarrow> pfs \<Rightarrow> (inode option) \<times> pfs" where
  "write_blocks [] data len written node fs = (Some node, fs)"
| "write_blocks (b # bs) data len written node fs =
     (case write_slot b node fs of
        (None, fs) \<Rightarrow> (None, fs)
      | (Some node, fs) \<Rightarrow>
          let chunk = (if len - written > PFS_BLOCK_SIZE then PFS_BLOCK_SIZE else len - written);
              sector = splice zero_sector 0 (slice (unat written) (unat chunk) data)
          in case ata_write_sector (data_start_sec (sb fs) + iblocks node ! b) sector (dev fs) of
               (ok, d) \<Rightarrow>
                 if \<not> ok then (None, fs\<lparr>dev := d\<rparr>)
                 else write_blocks bs data len (written + chunk) node (fs\<lparr>dev := d\<rparr>))"

definition pfs_write_file :: "u32 \<Rightarrow> u8 list \<Rightarrow> u32 \<Rightarrow> pfs \<Rightarrow> bool \<times> pfs" where
  "pfs_write_file ino data len fs =
     (case pfs_read_inode ino fs of
        None \<Rightarrow> (False, fs)
      | Some node \<Rightarrow>
          if itype node \<noteq> PFS_TYPE_FILE then (False, fs)
          else let blocks_needed = (len + PFS_BLOCK_SIZE - 1) div PFS_BLOCK_SIZE in
            if blocks_needed > of_nat PFS_DIRECT_BLOCKS then (False, fs)
            else case write_blocks [0..<unat blocks_needed] data len 0 node fs of
                   (None, fs) \<Rightarrow> (False, fs)
                 | (Some node, fs) \<Rightarrow> pfs_write_inode ino (node\<lparr>isize := len\<rparr>) fs)"

fun read_blocks :: "nat list \<Rightarrow> u32 \<Rightarrow> u8 list \<Rightarrow> inode \<Rightarrow> pfs \<Rightarrow> (u8 list) option" where
  "read_blocks [] to_read out node fs = Some out"
| "read_blocks (b # bs) to_read out node fs =
     (if \<not> length out < unat to_read then Some out
      else if iblocks node ! b = 0 then Some out
      else case ata_read_sector (data_start_sec (sb fs) + iblocks node ! b) (dev fs) of
             None \<Rightarrow> None
           | Some sector \<Rightarrow>
               read_blocks bs to_read (out @ take (min (unat to_read - length out) 512) sector) node fs)"

text \<open>\<^verbatim>\<open>pfs_read_file\<close> returns the bytes it stored in the buffer; \<open>None\<close> is \<^verbatim>\<open>-1\<close>.\<close>

definition pfs_read_file :: "u32 \<Rightarrow> u32 \<Rightarrow> pfs \<Rightarrow> (u8 list) option" where
  "pfs_read_file ino maxlen fs =
     do {
       node \<leftarrow> pfs_read_inode ino fs;
       if itype node \<noteq> PFS_TYPE_FILE then None
       else let to_read = (if isize node > maxlen then maxlen else isize node)
            in read_blocks [0..<PFS_DIRECT_BLOCKS] to_read [] node fs }"

definition pfs_lookup :: "cstr \<Rightarrow> pfs \<Rightarrow> int" where
  "pfs_lookup name fs =
     (case pfs_read_inode (root_inode (sb fs)) fs of
        None \<Rightarrow> -1
      | Some root \<Rightarrow>
          (case ata_read_sector (data_start_sec (sb fs) + iblocks root ! 0) (dev fs) of
             None \<Rightarrow> -1
           | Some sector \<Rightarrow>
               (case find (\<lambda>i. get32 sector (32 * i) \<noteq> 0 \<and> strcmp (drop (32 * i + 4) sector) name = 0) [0..<16] of
                  None \<Rightarrow> -1
                | Some i \<Rightarrow> sint (get32 sector (32 * i)))))"

definition pfs_get_root_inode :: "pfs \<Rightarrow> u32" where
  "pfs_get_root_inode fs = root_inode (sb fs)"

definition pfs_data_sector :: "u32 \<Rightarrow> pfs \<Rightarrow> u32" where
  "pfs_data_sector block fs = data_start_sec (sb fs) + block"

section \<open>Encodings\<close>

lemma slice_concat_le32:
  "k < length ws \<Longrightarrow> slice (4 * k) 4 (concat (map le32 ws)) = le32 (ws ! k)"
proof (induction ws arbitrary: k)
  case (Cons w ws)
  then show ?case
    by (cases k) (simp_all add: slice_def)
qed simp

lemma length_concat_le32 [simp]: "length (concat (map le32 ws)) = 4 * length ws"
  by (induction ws) simp_all

lemma get32_concat: "k < length ws \<Longrightarrow> get32 (concat (map le32 ws)) (4 * k) = ws ! k"
  by (simp add: get32_def slice_concat_le32)

lemma get32_put32_same: "k + 4 \<le> length b \<Longrightarrow> get32 (put32 k v b) k = v"
  by (simp add: get32_def put32_def slice_splice_same)

lemma get32_splice_other:
  "j + 4 \<le> length b \<Longrightarrow> k + length ys \<le> length b \<Longrightarrow> j + 4 \<le> k \<or> k + length ys \<le> j \<Longrightarrow>
   get32 (splice b k ys) j = get32 b j"
  by (simp add: get32_def slice_splice_disjoint)

lemma get32_put32_other:
  "j + 4 \<le> length b \<Longrightarrow> k + 4 \<le> length b \<Longrightarrow> j + 4 \<le> k \<or> k + 4 \<le> j \<Longrightarrow>
   get32 (put32 k v b) j = get32 b j"
  by (simp add: put32_def get32_splice_other)

lemma length_put32 [simp]: "k + 4 \<le> length b \<Longrightarrow> length (put32 k v b) = length b"
  by (simp add: put32_def)

text \<open>An inode in memory has 12 block slots and two reserved words.\<close>

definition inode_ok :: "inode \<Rightarrow> bool" where
  "inode_ok nd \<longleftrightarrow> length (iblocks nd) = 12 \<and> length (ireserved nd) = 2"

lemma length_inode_bytes [simp]: "inode_ok nd \<Longrightarrow> length (inode_bytes nd) = 64"
  by (simp add: inode_bytes_def inode_ok_def del: map_append concat_append)

lemma inode_of_bytes:
  assumes "inode_ok nd"
  shows "inode_of (inode_bytes nd) = nd"
proof -
  let ?ws = "itype nd # isize nd # iblocks nd @ ireserved nd"
  have len: "length ?ws = 16" using assms by (simp add: inode_ok_def)
  have g: "get32 (inode_bytes nd) (4 * k) = ?ws ! k" if "k < 16" for k
    unfolding inode_bytes_def using that len by (intro get32_concat) simp
  have "get32 (inode_bytes nd) (8 + 4 * k) = iblocks nd ! k" if "k < 12" for k
    using g [of "k + 2"] that assms by (simp add: inode_ok_def nth_append algebra_simps)
  then have b: "map (\<lambda>k. get32 (inode_bytes nd) (8 + 4 * k)) [0..<12] = iblocks nd"
    using assms by (intro nth_equalityI) (simp_all add: inode_ok_def)
  have "get32 (inode_bytes nd) (56 + 4 * k) = ireserved nd ! k" if "k < 2" for k
    using g [of "k + 14"] that assms by (simp add: inode_ok_def nth_append algebra_simps)
  then have r: "map (\<lambda>k. get32 (inode_bytes nd) (56 + 4 * k)) [0..<2] = ireserved nd"
    using assms by (intro nth_equalityI) (simp_all add: inode_ok_def)
  show ?thesis
    using b r g [of 0] g [of 1] unfolding inode_of_def by (cases nd) simp
qed

lemma inode_of_ok [simp]: "inode_ok (inode_of b)"
  by (simp add: inode_ok_def inode_of_def)

section \<open>The mounted file system\<close>

definition std_sb :: superblock where
  "std_sb = \<lparr>sb_magic = PFS_MAGIC, total_blocks = 32768, total_inodes = 4096, inode_bitmap_sec = 1,
     block_bitmap_sec = 2, inode_table_sec = 10, data_start_sec = 522, root_inode = 1\<rparr>"

definition fs_ok :: "pfs \<Rightarrow> bool" where
  "fs_ok fs \<longleftrightarrow> ata_ok (dev fs) \<and> sb fs = std_sb"

text \<open>
  The parts of the disk by number: sectors, inodes, the two bitmaps and the data blocks. The
  operations are described by what they do to these.
\<close>

definition sec :: "pfs \<Rightarrow> nat \<Rightarrow> u8 list" where
  "sec fs k = disk (dev fs) (of_nat k)"

definition inode_at :: "pfs \<Rightarrow> nat \<Rightarrow> inode" where
  "inode_at fs n = inode_of (slice (n mod 8 * 64) 64 (sec fs (10 + n div 8)))"

definition ibit :: "pfs \<Rightarrow> nat \<Rightarrow> bool" where
  "ibit fs n = bm_test (sec fs 1) n"

definition bbit :: "pfs \<Rightarrow> nat \<Rightarrow> bool" where
  "bbit fs b = bm_test (sec fs (2 + b div 4096)) (b mod 4096)"

definition data_at :: "pfs \<Rightarrow> nat \<Rightarrow> u8 list" where
  "data_at fs b = sec fs (522 + b)"

definition set_sec :: "nat \<Rightarrow> u8 list \<Rightarrow> pfs \<Rightarrow> pfs" where
  "set_sec k b fs = fs\<lparr>dev := (dev fs)\<lparr>disk := (disk (dev fs))(of_nat k := b)\<rparr>\<rparr>"

lemma sb_set_sec [simp]: "sb (set_sec k b fs) = sb fs"
  by (simp add: set_sec_def)

lemma of_nat_u32_eq: "j < 4294967296 \<Longrightarrow> k < 4294967296 \<Longrightarrow> (of_nat j :: u32) = of_nat k \<longleftrightarrow> j = k"
  by (simp add: word_eq_unat unat_of_nat_u32)

lemma sec_set_sec:
  "k < 100000 \<Longrightarrow> j < 100000 \<Longrightarrow> sec (set_sec k b fs) j = (if j = k then b else sec fs j)"
  by (simp add: sec_def set_sec_def of_nat_u32_eq)

lemma fs_ok_set_sec: "fs_ok fs \<Longrightarrow> length b = 512 \<Longrightarrow> fs_ok (set_sec k b fs)"
  by (simp add: fs_ok_def set_sec_def ata_ok_disk)

lemma length_sec [simp]: "fs_ok fs \<Longrightarrow> length (sec fs k) = 512"
  by (simp add: fs_ok_def sec_def ata_ok_def)

lemma rd_sec:
  "fs_ok fs \<Longrightarrow> k < 100000 \<Longrightarrow> ata_read_sector (of_nat k) (dev fs) = Some (sec fs k)"
  by (simp add: fs_ok_def sec_def ata_read_ok word_less_nat_alt unat_of_nat_u32)

lemma wr_sec:
  assumes "fs_ok fs" "k < 100000" "length b = 512"
  shows "ata_write_sector (of_nat k) b (dev fs) = (True, dev (set_sec k b fs))"
proof -
  have "(of_nat k :: u32) < 0x10000000" using assms(2) by (simp add: word_less_nat_alt unat_of_nat_u32)
  then show ?thesis using assms ata_write_ok [of "dev fs" "of_nat k" b] by (simp add: fs_ok_def set_sec_def)
qed

lemma set_sec_dev: "fs\<lparr>dev := dev (set_sec k b fs)\<rparr> = set_sec k b fs"
  by (simp add: set_sec_def)

lemma wsec_sec:
  "fs_ok fs \<Longrightarrow> k < 100000 \<Longrightarrow> length b = 512 \<Longrightarrow> fs\<lparr>dev := wsec (of_nat k) b (dev fs)\<rparr> = set_sec k b fs"
  by (simp add: wsec_def wr_sec set_sec_dev)

section \<open>Operations on the parts\<close>

definition set_inode :: "nat \<Rightarrow> inode \<Rightarrow> pfs \<Rightarrow> pfs" where
  "set_inode n nd fs =
     set_sec (10 + n div 8) (splice (sec fs (10 + n div 8)) (n mod 8 * 64) (inode_bytes nd)) fs"

definition set_ibit :: "nat \<Rightarrow> pfs \<Rightarrow> pfs" where
  "set_ibit n fs = set_sec 1 (bm_set n (sec fs 1)) fs"

definition set_bbit :: "nat \<Rightarrow> pfs \<Rightarrow> pfs" where
  "set_bbit b fs = set_sec (2 + b div 4096) (bm_set (b mod 4096) (sec fs (2 + b div 4096))) fs"

definition set_data :: "nat \<Rightarrow> u8 list \<Rightarrow> pfs \<Rightarrow> pfs" where
  "set_data b xs fs = set_sec (522 + b) xs fs"

lemma bm_test_bit: "bm_test bm i \<longleftrightarrow> bit (bm ! (i div 8)) (i mod 8)"
  by (simp add: bm_test_def bit_iff_and_push_bit_not_eq_0)

lemma length_bm_set [simp]: "length (bm_set i bm) = length bm"
  by (simp add: bm_set_def)

lemma bm_test_set:
  assumes "length bm = 512" "i < 4096" "j < 4096"
  shows "bm_test (bm_set i bm) j \<longleftrightarrow> j = i \<or> bm_test bm j"
proof -
  have "i div 8 = j div 8 \<and> i mod 8 = j mod 8 \<longleftrightarrow> i = j" by (metis div_mult_mod_eq)
  moreover have "i div 8 < 512" "j div 8 < 512" using assms(2,3) by auto
  ultimately show ?thesis
    using assms(1) by (auto simp: bm_test_bit bm_set_def nth_list_update bit_simps)
qed

lemma fs_ok_setters:
  "fs_ok fs \<Longrightarrow> inode_ok nd \<Longrightarrow> fs_ok (set_inode n nd fs)"
  "fs_ok fs \<Longrightarrow> fs_ok (set_ibit n fs)" "fs_ok fs \<Longrightarrow> fs_ok (set_bbit b fs)"
  "fs_ok fs \<Longrightarrow> length xs = 512 \<Longrightarrow> fs_ok (set_data b xs fs)"
proof -
  have "n mod 8 * 64 + 64 \<le> 512" by (simp add: mult.commute)
  then show "fs_ok fs \<Longrightarrow> inode_ok nd \<Longrightarrow> fs_ok (set_inode n nd fs)"
    by (simp add: set_inode_def fs_ok_set_sec)
qed (simp_all add: set_ibit_def set_bbit_def set_data_def fs_ok_set_sec)

lemma bitmap_sec_lt: "(b :: nat) < 32768 \<Longrightarrow> b div 4096 < 8"
  by (simp add: div_less_iff_less_mult)

lemma set_inode_view [simp]:
  assumes "fs_ok fs" "inode_ok nd" "n < 4096"
  shows "m < 4096 \<Longrightarrow> inode_at (set_inode n nd fs) m = (if m = n then nd else inode_at fs m)"
    and "ibit (set_inode n nd fs) = ibit fs"
    and "b < 32768 \<Longrightarrow> bbit (set_inode n nd fs) b = bbit fs b"
    and "b < 32768 \<Longrightarrow> data_at (set_inode n nd fs) b = data_at fs b"
proof -
  have lim: "k mod 8 * 64 + 64 \<le> 512" for k :: nat by (simp add: mult.commute)
  assume m: "m < 4096"
  show "inode_at (set_inode n nd fs) m = (if m = n then nd else inode_at fs m)"
  proof (cases "m div 8 = n div 8")
    case True
    have "m mod 8 = n mod 8 \<Longrightarrow> m = n" using True by (metis div_mult_mod_eq)
    moreover have "m mod 8 < n mod 8 \<or> n mod 8 < m mod 8" if "m \<noteq> n"
      using True that by (metis div_mult_mod_eq nat_neq_iff)
    then have "m mod 8 * 64 + 64 \<le> n mod 8 * 64 \<or> n mod 8 * 64 + 64 \<le> m mod 8 * 64" if "m \<noteq> n"
      using that by auto
    ultimately show ?thesis
      using assms m True lim [of n] lim [of m]
      by (auto simp: inode_at_def set_inode_def sec_set_sec slice_splice_same slice_splice_disjoint inode_of_bytes)
  next
    case False
    then show ?thesis using assms(3) m by (auto simp: inode_at_def set_inode_def sec_set_sec)
  qed
next
  show "ibit (set_inode n nd fs) = ibit fs"
    using assms(3) by (simp add: fun_eq_iff ibit_def set_inode_def sec_set_sec)
  assume "b < 32768"
  moreover have "n div 8 < 512" using assms(3) by (simp add: div_less_iff_less_mult)
  ultimately show "bbit (set_inode n nd fs) b = bbit fs b" "data_at (set_inode n nd fs) b = data_at fs b"
    using assms(3) bitmap_sec_lt [of b] by (simp_all add: bbit_def data_at_def set_inode_def sec_set_sec)
qed

lemma set_ibit_view [simp]:
  assumes "fs_ok fs" "n < 4096"
  shows "m < 4096 \<Longrightarrow> inode_at (set_ibit n fs) m = inode_at fs m"
    and "m < 4096 \<Longrightarrow> ibit (set_ibit n fs) m \<longleftrightarrow> m = n \<or> ibit fs m"
    and "b < 32768 \<Longrightarrow> bbit (set_ibit n fs) b = bbit fs b"
    and "b < 32768 \<Longrightarrow> data_at (set_ibit n fs) b = data_at fs b"
  using assms by (simp_all add: inode_at_def ibit_def bbit_def data_at_def set_ibit_def sec_set_sec bm_test_set)

lemma set_bbit_view [simp]:
  assumes "fs_ok fs" "b < 32768"
  shows "m < 4096 \<Longrightarrow> inode_at (set_bbit b fs) m = inode_at fs m"
    and "ibit (set_bbit b fs) = ibit fs"
    and "c < 32768 \<Longrightarrow> bbit (set_bbit b fs) c \<longleftrightarrow> c = b \<or> bbit fs c"
    and "c < 32768 \<Longrightarrow> data_at (set_bbit b fs) c = data_at fs c"
proof -
  show "ibit (set_bbit b fs) = ibit fs"
    using assms by (simp add: fun_eq_iff ibit_def set_bbit_def sec_set_sec)
  show "m < 4096 \<Longrightarrow> inode_at (set_bbit b fs) m = inode_at fs m"
    "c < 32768 \<Longrightarrow> data_at (set_bbit b fs) c = data_at fs c"
    using assms bitmap_sec_lt [OF assms(2)] by (simp_all add: inode_at_def data_at_def set_bbit_def sec_set_sec)
  have "c = b \<longleftrightarrow> c div 4096 = b div 4096 \<and> c mod 4096 = b mod 4096" by (metis div_mult_mod_eq)
  then show "c < 32768 \<Longrightarrow> bbit (set_bbit b fs) c \<longleftrightarrow> c = b \<or> bbit fs c"
    using assms by (auto simp: bbit_def set_bbit_def sec_set_sec bm_test_set)
qed

lemma set_data_view [simp]:
  assumes "b < 32768"
  shows "m < 4096 \<Longrightarrow> inode_at (set_data b xs fs) m = inode_at fs m"
    and "ibit (set_data b xs fs) = ibit fs"
    and "c < 32768 \<Longrightarrow> bbit (set_data b xs fs) c = bbit fs c"
    and "c < 32768 \<Longrightarrow> data_at (set_data b xs fs) c = (if c = b then xs else data_at fs c)"
proof -
  show "m < 4096 \<Longrightarrow> inode_at (set_data b xs fs) m = inode_at fs m" "ibit (set_data b xs fs) = ibit fs"
    "c < 32768 \<Longrightarrow> data_at (set_data b xs fs) c = (if c = b then xs else data_at fs c)"
    using assms by (simp_all add: fun_eq_iff inode_at_def ibit_def data_at_def set_data_def sec_set_sec)
  show "c < 32768 \<Longrightarrow> bbit (set_data b xs fs) c = bbit fs c"
    using assms bitmap_sec_lt [of c] by (simp add: bbit_def set_data_def sec_set_sec)
qed

lemma unat_lt_inodes: "(4096 \<le> (n :: u32)) = (\<not> unat n < 4096)"
  by (simp add: word_le_nat_alt not_less)

lemma inode_sector: "(10 :: u32) + n div 8 = of_nat (10 + unat n div 8)"
proof -
  have "of_nat (unat (n div 8)) = n div 8" by (simp del: unat_div_num)
  then show ?thesis by simp
qed

lemma read_inode_at:
  assumes "fs_ok fs" "unat n < 4096"
  shows "pfs_read_inode n fs = Some (inode_at fs (unat n))"
proof -
  have "10 + unat n div 8 < 100000" using assms(2) by simp
  from rd_sec [OF assms(1) this] show ?thesis
    using assms by (simp add: pfs_read_inode_def unat_lt_inodes inode_at_def fs_ok_def std_sb_def inode_sector)
qed

lemma write_inode_at:
  assumes "fs_ok fs" "unat n < 4096" "inode_ok nd"
  shows "pfs_write_inode n nd fs = (True, set_inode (unat n) nd fs)"
proof -
  have k: "10 + unat n div 8 < 100000" using assms(2) by simp
  have "unat n mod 8 * 64 + 64 \<le> 512" by (simp add: mult.commute)
  then have len: "length (splice (sec fs (10 + unat n div 8)) (unat n mod 8 * 64) (inode_bytes nd)) = 512"
    using assms(1,3) by simp
  have sb: "sb fs = std_sb" using assms(1) by (simp add: fs_ok_def)
  show ?thesis
    using assms rd_sec [OF assms(1) k] wr_sec [OF assms(1) k len]
    by (simp add: pfs_write_inode_def unat_lt_inodes sb std_sb_def inode_sector set_inode_def
        set_sec_dev Let_def)
qed

lemma alloc_inode_at:
  assumes "fs_ok fs"
  shows "pfs_alloc_inode fs =
    (case find (\<lambda>i. \<not> ibit fs i) [0..<4096] of None \<Rightarrow> (-1, fs) | Some i \<Rightarrow> (int i, set_ibit i fs))"
proof -
  have "ata_read_sector 1 (dev fs) = Some (sec fs 1)" using rd_sec [OF assms, of 1] by simp
  moreover have "fs\<lparr>dev := wsec 1 (bm_set i (sec fs 1)) (dev fs)\<rparr> = set_ibit i fs" for i
    using wsec_sec [OF assms, of 1 "bm_set i (sec fs 1)"] assms by (simp add: set_ibit_def)
  moreover have "sb fs = std_sb" using assms by (simp add: fs_ok_def)
  ultimately show ?thesis
    by (simp add: pfs_alloc_inode_def std_sb_def ibit_def cong: option.case_cong)
qed

lemma alloc_block_loop_at:
  assumes "fs_ok fs" "s \<le> 8"
  shows "(\<exists>b. alloc_block_loop [s..<8] fs = (int b, set_bbit b fs) \<and> s * 4096 \<le> b \<and> b < 32768 \<and>
      \<not> bbit fs b \<and> (\<forall>c. s * 4096 \<le> c \<and> c < b \<longrightarrow> bbit fs c)) \<or>
    (alloc_block_loop [s..<8] fs = (-1, fs) \<and> (\<forall>c. s * 4096 \<le> c \<and> c < 32768 \<longrightarrow> bbit fs c))"
  using assms(2)
proof (induction rule: inc_induct)
  case base
  show ?case by auto
next
  case (step s)
  have sbq: "sb fs = std_sb" using assms(1) by (simp add: fs_ok_def)
  have rd: "ata_read_sector (2 + of_nat s) (dev fs) = Some (sec fs (2 + s))"
    using rd_sec [OF assms(1), of "2 + s"] step.hyps by simp
  have loop: "alloc_block_loop [s..<8] fs =
      (case find (\<lambda>i. \<not> bm_test (sec fs (2 + s)) i) [0..<4096] of
         None \<Rightarrow> alloc_block_loop [Suc s..<8] fs
       | Some i \<Rightarrow> if s * 4096 + i \<ge> 32768 then (-1, fs)
           else (int (s * 4096 + i), fs\<lparr>dev := wsec (2 + of_nat s) (bm_set i (sec fs (2 + s))) (dev fs)\<rparr>))"
  proof -
    have "find (\<lambda>i. s * 4096 + i \<ge> 32768 \<or> \<not> bm_test (sec fs (2 + s)) i) [0..<4096] =
        find (\<lambda>i. \<not> bm_test (sec fs (2 + s)) i) [0..<4096]"
      using step.hyps by (intro find_cong) auto
    then show ?thesis
      using step.hyps rd upt_conv_Cons [of s 8] by (simp add: sbq std_sb_def del: upt_Suc upt_rec_numeral split: option.split)
  qed
  have bb: "bbit fs (s * 4096 + i) = bm_test (sec fs (2 + s)) i" if "i < 4096" for i
    using that by (simp add: bbit_def)
  show ?case
  proof (cases "find (\<lambda>i. \<not> bm_test (sec fs (2 + s)) i) [0..<4096]")
    case None
    then have all: "bbit fs c" if "s * 4096 \<le> c" "c < Suc s * 4096" for c
      using that bb [of "c - s * 4096"] by (auto simp: find_upt_None_iff)
    then have lift: "\<forall>c. s * 4096 \<le> c \<and> c < b \<longrightarrow> bbit fs c"
      if "\<forall>c. Suc s * 4096 \<le> c \<and> c < b \<longrightarrow> bbit fs c" for b
      using that by (meson not_le)
    have eq: "alloc_block_loop [s..<8] fs = alloc_block_loop [Suc s..<8] fs" using None loop by simp
    have "s * 4096 \<le> b" if "Suc s * 4096 \<le> b" for b using that by simp
    with step.IH lift show ?thesis unfolding eq by blast
  next
    case (Some i)
    then have i: "i < 4096" "\<not> bm_test (sec fs (2 + s)) i" "\<forall>j<i. bm_test (sec fs (2 + s)) j"
      by (auto simp: find_upt0_Some_iff)
    have "fs\<lparr>dev := wsec (of_nat (2 + s)) (bm_set i (sec fs (2 + s))) (dev fs)\<rparr> = set_bbit (s * 4096 + i) fs"
      using wsec_sec [OF assms(1), of "2 + s" "bm_set i (sec fs (2 + s))"] assms(1) step.hyps i(1)
      by (simp add: set_bbit_def)
    moreover have "s * 4096 + i < 32768" using step.hyps i(1) by linarith
    moreover have "bbit fs c" if "s * 4096 \<le> c" "c < s * 4096 + i" for c
      using that i bb [of "c - s * 4096"] by auto
    ultimately show ?thesis
      using loop Some i bb [OF i(1)] by (intro disjI1 exI [of _ "s * 4096 + i"]) auto
  qed
qed

lemma alloc_block_at:
  assumes "fs_ok fs"
  shows "(\<exists>b. pfs_alloc_block fs = (int b, set_bbit b fs) \<and> b < 32768 \<and> \<not> bbit fs b \<and> (\<forall>c<b. bbit fs c)) \<or>
    (pfs_alloc_block fs = (-1, fs) \<and> (\<forall>c<32768. bbit fs c))"
  using alloc_block_loop_at [OF assms, of 0] by (simp add: pfs_alloc_block_def)

section \<open>Well-formed file systems\<close>

definition live_file :: "pfs \<Rightarrow> nat \<Rightarrow> bool" where
  "live_file fs n \<longleftrightarrow> n < 4096 \<and> ibit fs n \<and> itype (inode_at fs n) = PFS_TYPE_FILE"

definition blocks_of :: "inode \<Rightarrow> nat set" where
  "blocks_of nd = {unat b | b. b \<in> set (iblocks nd) \<and> b \<noteq> 0}"

definition nd_ok :: "pfs \<Rightarrow> inode \<Rightarrow> bool" where
  "nd_ok fs nd \<longleftrightarrow> inode_ok nd \<and> (\<forall>b \<in> blocks_of nd. b < 32768 \<and> bbit fs b) \<and>
     (\<forall>i<12. \<forall>j<12. i \<noteq> j \<and> iblocks nd ! i = iblocks nd ! j \<longrightarrow> iblocks nd ! i = 0)"

text \<open>
  No block belongs to two files or to two slots of one file, all blocks of files are marked in
  the bitmap, and the root directory is inode 1 with its entries in block 0.
\<close>

definition fs_wf :: "pfs \<Rightarrow> bool" where
  "fs_wf fs \<longleftrightarrow> fs_ok fs \<and> bbit fs 0 \<and> ibit fs 0 \<and> ibit fs 1 \<and>
     itype (inode_at fs 1) = PFS_TYPE_DIR \<and> iblocks (inode_at fs 1) ! 0 = 0 \<and>
     (\<forall>n. live_file fs n \<longrightarrow> nd_ok fs (inode_at fs n)) \<and>
     (\<forall>n m. live_file fs n \<and> live_file fs m \<and> n \<noteq> m \<longrightarrow>
        blocks_of (inode_at fs n) \<inter> blocks_of (inode_at fs m) = {})"

lemma blocks_of_nth: "inode_ok nd \<Longrightarrow> i < 12 \<Longrightarrow> iblocks nd ! i \<noteq> 0 \<Longrightarrow> unat (iblocks nd ! i) \<in> blocks_of nd"
  by (auto simp: blocks_of_def inode_ok_def)

lemma blocks_of_cases:
  "inode_ok nd \<Longrightarrow> c \<in> blocks_of nd \<Longrightarrow> \<exists>i<12. c = unat (iblocks nd ! i) \<and> iblocks nd ! i \<noteq> 0"
  by (auto simp: blocks_of_def inode_ok_def in_set_conv_nth)

lemma blocks_of_idx:
  "inode_ok nd \<Longrightarrow> c \<in> blocks_of nd \<longleftrightarrow> (\<exists>i<12. c = unat (iblocks nd ! i) \<and> iblocks nd ! i \<noteq> 0)"
  using blocks_of_cases blocks_of_nth by blast

lemma zero_not_in_blocks [simp]: "0 \<notin> blocks_of nd"
  by (auto simp: blocks_of_def unat_eq_0)

section \<open>Writing a file\<close>

text \<open>
  What the writing of some slots keeps: inodes, the inode bitmap and the marked blocks; new
  blocks of the file were free; only blocks of the file change.
\<close>

definition extends :: "pfs \<Rightarrow> inode \<Rightarrow> pfs \<Rightarrow> inode \<Rightarrow> bool" where
  "extends fs nd fs' nd' \<longleftrightarrow> fs_ok fs' \<and> nd_ok fs' nd' \<and> itype nd' = itype nd \<and> isize nd' = isize nd \<and>
     (\<forall>n<4096. inode_at fs' n = inode_at fs n) \<and> ibit fs' = ibit fs \<and>
     (\<forall>c<32768. bbit fs c \<longrightarrow> bbit fs' c) \<and>
     (\<forall>c \<in> blocks_of nd'. c \<in> blocks_of nd \<or> \<not> bbit fs c) \<and>
     (\<forall>c<32768. c \<notin> blocks_of nd' \<longrightarrow> data_at fs' c = data_at fs c)"

lemma extends_refl: "fs_ok fs \<Longrightarrow> nd_ok fs nd \<Longrightarrow> extends fs nd fs nd"
  by (simp add: extends_def)

lemma extends_trans:
  assumes "extends fs nd fs1 nd1" "extends fs1 nd1 fs2 nd2" "blocks_of nd1 \<subseteq> blocks_of nd2"
  shows "extends fs nd fs2 nd2"
proof -
  have "c < 32768" if "c \<in> blocks_of nd2" for c using assms(2) that by (auto simp: extends_def nd_ok_def)
  with assms show ?thesis unfolding extends_def by (auto; blast)
qed

lemma write_slot_at:
  assumes "fs_ok fs" "nd_ok fs nd" "bbit fs 0" "k < 12"
  shows "(\<exists>nd' fs'. write_slot k nd fs = (Some nd', fs') \<and> extends fs nd fs' nd' \<and>
      iblocks nd' ! k \<noteq> 0 \<and> (\<forall>i<12. i \<noteq> k \<longrightarrow> iblocks nd' ! i = iblocks nd ! i) \<and>
      blocks_of nd \<subseteq> blocks_of nd' \<and> (\<forall>c<32768. data_at fs' c = data_at fs c)) \<or>
    (write_slot k nd fs = (None, fs) \<and> (\<forall>c<32768. bbit fs c))"
proof (cases "iblocks nd ! k = 0")
  case False
  then show ?thesis
    using assms extends_refl by (intro disjI1 exI [of _ nd] exI [of _ fs]) (simp add: write_slot_def)
next
  case True
  from alloc_block_at [OF assms(1)] show ?thesis
  proof
    assume "\<exists>b. pfs_alloc_block fs = (int b, set_bbit b fs) \<and> b < 32768 \<and> \<not> bbit fs b \<and> (\<forall>c<b. bbit fs c)"
    then obtain b where b: "pfs_alloc_block fs = (int b, set_bbit b fs)" "b < 32768" "\<not> bbit fs b" by blast
    let ?nd = "nd\<lparr>iblocks := (iblocks nd)[k := of_nat b]\<rparr>" and ?fs = "set_bbit b fs"
    have b0: "b \<noteq> 0" using assms(3) b(3) by (cases "b = 0") auto
    have u: "unat (of_nat b :: u32) = b" using b(2) by (simp add: unat_of_nat_u32)
    then have nz: "(of_nat b :: u32) \<noteq> 0" using b0 by (metis unat_0)
    have len: "length (iblocks nd) = 12" using assms(2) by (simp add: nd_ok_def inode_ok_def)
    have nin: "b \<notin> blocks_of nd" using assms(2) b(3) by (auto simp: nd_ok_def)
    have ok: "inode_ok nd" "inode_ok ?nd" using assms(2) by (simp_all add: nd_ok_def inode_ok_def)
    have nth: "iblocks ?nd ! i = (if i = k then of_nat b else iblocks nd ! i)" if "i < 12" for i
      using that len by simp
    have bl: "c \<in> blocks_of ?nd \<longleftrightarrow> c = b \<or> c \<in> blocks_of nd" for c
      unfolding blocks_of_idx [OF ok(1)] blocks_of_idx [OF ok(2)]
      using nth u nz True assms(4) by (auto; metis)
    have "nd_ok ?fs ?nd"
      unfolding nd_ok_def
    proof (intro conjI allI impI ballI)
      fix c assume "c \<in> blocks_of ?nd"
      then show "c < 32768" "bbit ?fs c" using bl b(2) assms(1,2) by (auto simp: nd_ok_def)
    next
      fix i j assume ij: "i < 12" "j < 12" "i \<noteq> j \<and> iblocks ?nd ! i = iblocks ?nd ! j"
      have "iblocks nd ! l \<noteq> of_nat b" if "l < 12" for l
        using blocks_of_nth [OF ok(1) that] nin u nz by metis
      then show "iblocks ?nd ! i = 0"
        using ij assms(2) nth unfolding nd_ok_def by (metis (full_types))
    qed (rule ok(2))
    then have "extends fs nd ?fs ?nd"
      using assms(1) b bl by (auto simp: extends_def fs_ok_setters)
    moreover have "write_slot k nd fs = (Some ?nd, ?fs)" using True b(1) by (simp add: write_slot_def)
    ultimately show ?thesis
      using nth nz assms(1,4) b(2) bl by (intro disjI1 exI [of _ ?nd] exI [of _ ?fs]) auto
  next
    assume "pfs_alloc_block fs = (-1, fs) \<and> (\<forall>c<32768. bbit fs c)"
    then show ?thesis using True by (simp add: write_slot_def)
  qed
qed

lemma data_sector: "unat b < 32768 \<Longrightarrow> (522 :: u32) + b = of_nat (522 + unat b)"
  by simp

lemma rd_data:
  assumes "fs_ok fs" "unat b < 32768"
  shows "ata_read_sector (data_start_sec (sb fs) + b) (dev fs) = Some (data_at fs (unat b))"
  using rd_sec [OF assms(1), of "522 + unat b"] assms by (simp add: fs_ok_def std_sb_def data_at_def)

lemma wr_data:
  assumes "fs_ok fs" "unat b < 32768" "length xs = 512"
  shows "\<exists>d. ata_write_sector (data_start_sec (sb fs) + b) xs (dev fs) = (True, d) \<and>
    fs\<lparr>dev := d\<rparr> = set_data (unat b) xs fs"
  using wr_sec [OF assms(1), of "522 + unat b" xs] assms
  by (simp add: fs_ok_def std_sb_def set_data_def set_sec_dev)

lemma extends_set_data:
  assumes "extends fs nd fs' nd'" "c \<in> blocks_of nd'" "length xs = 512"
  shows "extends fs nd (set_data c xs fs') nd'"
proof -
  have c: "c < 32768" using assms(1,2) by (auto simp: extends_def nd_ok_def)
  then have "nd_ok (set_data c xs fs') nd'" using assms(1) by (auto simp: extends_def nd_ok_def)
  then show ?thesis
    using assms c unfolding extends_def by (auto simp: fs_ok_setters)
qed

text \<open>The \<open>k\<close>-th sector of a file with contents \<open>xs\<close>, padded with zeros.\<close>

definition file_sector :: "u8 list \<Rightarrow> nat \<Rightarrow> u8 list" where
  "file_sector xs k = (let c = take 512 (drop (512 * k) xs) in c @ replicate (512 - length c) 0)"

lemma length_file_sector [simp]: "length (file_sector xs k) = 512"
  by (simp add: file_sector_def Let_def)

lemma written_sector:
  assumes "length data = unat len" "512 * k < unat len" "unat written = 512 * k"
    and "chunk = (if len - written > PFS_BLOCK_SIZE then PFS_BLOCK_SIZE else len - written)"
  shows "splice zero_sector 0 (slice (unat written) (unat chunk) data) = file_sector data k"
    and "Suc k * 512 < unat len \<Longrightarrow> unat (written + chunk) = 512 * Suc k"
proof -
  have d: "unat (len - written) = unat len - 512 * k"
    using assms(2,3) by (simp add: unat_sub_u32)
  then have c: "unat chunk = min 512 (unat len - 512 * k)"
    using assms(4) by (simp add: word_less_nat_alt)
  have "slice (unat written) (unat chunk) data = take 512 (drop (512 * k) data)"
    unfolding assms(3) slice_def c using assms(1) by (simp add: min_def)
  then show "splice zero_sector 0 (slice (unat written) (unat chunk) data) = file_sector data k"
    by (simp add: file_sector_def splice_def zero_sector_def Let_def)
  assume "Suc k * 512 < unat len"
  then show "unat (written + chunk) = 512 * Suc k"
    using c assms(3) unat_u32_bound [of len] by (simp add: unat_add_u32)
qed

lemma write_blocks_at:
  assumes "k \<le> n" "n \<le> 12" "fs_ok fs" "nd_ok fs nd" "bbit fs 0"
    and "length data = unat len" "unat len \<le> 512 * n" "512 * n < unat len + 512"
    and "k < n \<longrightarrow> unat written = 512 * k"
  shows "(\<exists>nd' fs'. write_blocks [k..<n] data len written nd fs = (Some nd', fs') \<and>
      extends fs nd fs' nd' \<and> blocks_of nd \<subseteq> blocks_of nd' \<and>
      (\<forall>i<12. i < k \<longrightarrow> iblocks nd' ! i = iblocks nd ! i) \<and>
      (\<forall>i<12. i < k \<and> iblocks nd ! i \<noteq> 0 \<longrightarrow>
         data_at fs' (unat (iblocks nd ! i)) = data_at fs (unat (iblocks nd ! i))) \<and>
      (\<forall>i. k \<le> i \<and> i < n \<longrightarrow> iblocks nd' ! i \<noteq> 0 \<and>
         data_at fs' (unat (iblocks nd' ! i)) = file_sector data i)) \<or>
    (\<exists>nd' fs'. write_blocks [k..<n] data len written nd fs = (None, fs') \<and> extends fs nd fs' nd' \<and>
      blocks_of nd \<subseteq> blocks_of nd' \<and> (\<forall>c<32768. bbit fs' c))"
  using assms
proof (induction "n - k" arbitrary: k written nd fs)
  case 0
  then show ?case using extends_refl by auto
next
  case (Suc d)
  then have k: "k < n" "k < 12" "512 * k < unat len" "unat written = 512 * k" by auto
  let ?chunk = "if len - written > PFS_BLOCK_SIZE then PFS_BLOCK_SIZE else len - written"
  have up: "[k..<n] = k # [Suc k..<n]" using k(1) by (rule upt_conv_Cons)
  from write_slot_at [OF Suc.prems(3,4,5) k(2)] show ?case
  proof (elim disjE exE conjE)
    assume "write_slot k nd fs = (None, fs)" "\<forall>c<32768. bbit fs c"
    then show ?thesis
      unfolding up using extends_refl [OF Suc.prems(3,4)] by (intro disjI2 exI [of _ nd] exI [of _ fs]) simp
  next
    fix nd1 fs1
    assume ws: "write_slot k nd fs = (Some nd1, fs1)" and ex: "extends fs nd fs1 nd1"
      and nz: "iblocks nd1 ! k \<noteq> 0" and same: "\<forall>i<12. i \<noteq> k \<longrightarrow> iblocks nd1 ! i = iblocks nd ! i"
      and sub: "blocks_of nd \<subseteq> blocks_of nd1" and dat: "\<forall>c<32768. data_at fs1 c = data_at fs c"
    let ?b = "unat (iblocks nd1 ! k)" and ?x = "file_sector data k"
    have ok1: "fs_ok fs1" "nd_ok fs1 nd1" "inode_ok nd1" using ex by (auto simp: extends_def nd_ok_def)
    have bin: "?b \<in> blocks_of nd1" by (rule blocks_of_nth [OF ok1(3) k(2) nz])
    then have b: "?b < 32768" using ok1(2) by (auto simp: nd_ok_def)
    obtain dv where wr: "ata_write_sector (data_start_sec (sb fs1) + iblocks nd1 ! k) ?x (dev fs1) = (True, dv)"
      "fs1\<lparr>dev := dv\<rparr> = set_data ?b ?x fs1"
      using wr_data [OF ok1(1) b, of ?x] by auto
    let ?fs2 = "set_data ?b ?x fs1"
    have ex2: "extends fs nd ?fs2 nd1" by (rule extends_set_data [OF ex bin]) simp
    have step: "write_blocks [k..<n] data len written nd fs =
        write_blocks [Suc k..<n] data len (written + ?chunk) nd1 ?fs2"
      using ws wr written_sector(1) [OF Suc.prems(6) k(3,4) refl] unfolding up by (simp add: Let_def)
    have ok2: "fs_ok ?fs2" "nd_ok ?fs2 nd1" "bbit ?fs2 0"
      using ex2 Suc.prems(5) by (auto simp: extends_def)
    have w2: "Suc k < n \<longrightarrow> unat (written + ?chunk) = 512 * Suc k"
      using written_sector(2) [OF Suc.prems(6) k(3,4) refl] Suc.prems(8) by simp
    have nk: "d = n - Suc k" "Suc k \<le> n" using Suc.hyps(2) k(1) by auto
    from Suc.hyps(1) [OF nk Suc.prems(2) ok2 Suc.prems(6,7,8) w2] show ?thesis
    proof (elim disjE exE conjE)
      fix nd' fs'
      assume wb: "write_blocks [Suc k..<n] data len (written + ?chunk) nd1 ?fs2 = (Some nd', fs')"
        and ex': "extends ?fs2 nd1 fs' nd'" and sub': "blocks_of nd1 \<subseteq> blocks_of nd'"
        and pre: "\<forall>i<12. i < Suc k \<longrightarrow> iblocks nd' ! i = iblocks nd1 ! i"
        and pred: "\<forall>i<12. i < Suc k \<and> iblocks nd1 ! i \<noteq> 0 \<longrightarrow>
          data_at fs' (unat (iblocks nd1 ! i)) = data_at ?fs2 (unat (iblocks nd1 ! i))"
        and post: "\<forall>i. Suc k \<le> i \<and> i < n \<longrightarrow> iblocks nd' ! i \<noteq> 0 \<and>
          data_at fs' (unat (iblocks nd' ! i)) = file_sector data i"
      have "data_at fs' (unat (iblocks nd ! i)) = data_at fs (unat (iblocks nd ! i))"
        if i: "i < 12" "i < k" "iblocks nd ! i \<noteq> 0" for i
      proof -
        have e: "iblocks nd1 ! i = iblocks nd ! i" using same i by auto
        then have "iblocks nd1 ! i \<noteq> iblocks nd1 ! k" using ok1(2) i k(2) unfolding nd_ok_def by (metis less_irrefl)
        then have "unat (iblocks nd1 ! i) \<noteq> ?b" by (simp add: word_eq_unat)
        moreover have "unat (iblocks nd1 ! i) < 32768"
          using ok1(2) blocks_of_nth [OF ok1(3) i(1)] e i(3) by (auto simp: nd_ok_def)
        ultimately show ?thesis using pred i e b dat by auto
      qed
      moreover have "iblocks nd' ! k = iblocks nd1 ! k" "data_at fs' ?b = ?x"
        using pre pred k(2) nz b by auto
      then have "\<forall>i. k \<le> i \<and> i < n \<longrightarrow> iblocks nd' ! i \<noteq> 0 \<and>
           data_at fs' (unat (iblocks nd' ! i)) = file_sector data i"
        using post nz by (metis Suc_leI le_neq_implies_less)
      ultimately have "extends fs nd fs' nd' \<and> blocks_of nd \<subseteq> blocks_of nd' \<and>
        (\<forall>i<12. i < k \<longrightarrow> iblocks nd' ! i = iblocks nd ! i) \<and>
        (\<forall>i<12. i < k \<and> iblocks nd ! i \<noteq> 0 \<longrightarrow>
           data_at fs' (unat (iblocks nd ! i)) = data_at fs (unat (iblocks nd ! i))) \<and>
        (\<forall>i. k \<le> i \<and> i < n \<longrightarrow> iblocks nd' ! i \<noteq> 0 \<and>
           data_at fs' (unat (iblocks nd' ! i)) = file_sector data i)"
        using extends_trans [OF ex2 ex' sub'] sub sub' pre same by auto
      then show ?thesis using step wb by auto
    next
      fix nd' fs'
      assume "write_blocks [Suc k..<n] data len (written + ?chunk) nd1 ?fs2 = (None, fs')"
        "extends ?fs2 nd1 fs' nd'" "blocks_of nd1 \<subseteq> blocks_of nd'" "\<forall>c<32768. bbit fs' c"
      then show ?thesis
        using step extends_trans [OF ex2] sub by (intro disjI2 exI [of _ nd'] exI [of _ fs']) auto
    qed
  qed
qed

lemma read_blocks_at:
  assumes "fs_ok fs" "nd_ok fs nd" "k \<le> 12" "m \<le> length data" "unat to_read = m"
    and "m \<le> 512 * 12" "length data \<le> 512 * n" "n \<le> 12"
    and "\<forall>i<n. iblocks nd ! i \<noteq> 0 \<and> data_at fs (unat (iblocks nd ! i)) = file_sector data i"
  shows "read_blocks [k..<12] to_read (take (min m (512 * k)) data) nd fs = Some (take m data)"
  using assms(3)
proof (induction rule: inc_induct)
  case base
  then show ?case using assms(6) by (simp add: min_def)
next
  case (step k)
  have up: "[k..<12] = k # [Suc k..<12]" using step.hyps(2) by (rule upt_conv_Cons)
  show ?case
  proof (cases "512 * k < m")
    case False
    then show ?thesis unfolding up using assms(4,5) by (simp add: min_def)
  next
    case True
    have kn: "k < n" using True assms(4,7) by linarith
    then have nz: "iblocks nd ! k \<noteq> 0" "data_at fs (unat (iblocks nd ! k)) = file_sector data k"
      using assms(9) by auto
    have "unat (iblocks nd ! k) < 32768"
      using assms(2,8) kn nz(1) blocks_of_nth [of nd k] by (auto simp: nd_ok_def)
    note rd = rd_data [OF assms(1) this]
    have len: "length (take (min m (512 * k)) data) = 512 * k" using True assms(4) by simp
    let ?c = "min (m - 512 * k) 512"
    have "take ?c (file_sector data k) = take ?c (drop (512 * k) data)"
      using assms(4) by (simp add: file_sector_def Let_def)
    then have "take (512 * k) data @ take ?c (file_sector data k) = take (512 * k + ?c) data"
      by (simp add: take_add)
    also have "512 * k + ?c = min m (512 * Suc k)" using True by simp
    finally have out: "take (min m (512 * k)) data @ take ?c (file_sector data k) = take (min m (512 * Suc k)) data"
      using True by (simp add: min_def)
    show ?thesis
      unfolding up read_blocks.simps len assms(5) rd option.case nz(2) out
      using True nz(1) step.IH by simp
  qed
qed

section \<open>The whole file system\<close>

lemma nd_ok_mono:
  "nd_ok fs nd \<Longrightarrow> (\<forall>c<32768. bbit fs c \<longrightarrow> bbit fs' c) \<Longrightarrow> nd_ok fs' nd"
  by (auto simp: nd_ok_def)

text \<open>
  Replacing the inode of a live file by one that extends it keeps the file system well-formed,
  and no other file sees a difference.
\<close>

lemma extends_wf:
  assumes "fs_wf fs" "live_file fs n" "extends fs (inode_at fs n) fs' nd'"
  shows "fs_wf (set_inode n (nd'\<lparr>isize := z\<rparr>) fs')"
    and "fs_wf fs'"
    and "live_file fs m \<Longrightarrow> m \<noteq> n \<Longrightarrow> c \<in> blocks_of (inode_at fs m) \<Longrightarrow> c < 32768 \<and> data_at fs' c = data_at fs c"
proof -
  let ?nd = "nd'\<lparr>isize := z\<rparr>" and ?fs = "set_inode n (nd'\<lparr>isize := z\<rparr>) fs'"
  have n: "n < 4096" "ibit fs n" "itype (inode_at fs n) = 1" using assms(2) by (auto simp: live_file_def)
  have n1: "n \<noteq> 1" using assms(1,2) by (auto simp: fs_wf_def live_file_def)
  have e: "fs_ok fs'" "nd_ok fs' nd'" "itype nd' = 1" "\<forall>m<4096. inode_at fs' m = inode_at fs m"
    "ibit fs' = ibit fs" "\<forall>c<32768. bbit fs c \<longrightarrow> bbit fs' c"
    "\<forall>c \<in> blocks_of nd'. c \<in> blocks_of (inode_at fs n) \<or> \<not> bbit fs c"
    "\<forall>c<32768. c \<notin> blocks_of nd' \<longrightarrow> data_at fs' c = data_at fs c"
    using assms(3) n(3) by (auto simp: extends_def)
  have ok: "inode_ok ?nd" "blocks_of ?nd = blocks_of nd'" "inode_ok nd'"
    using e(2) by (auto simp: nd_ok_def inode_ok_def blocks_of_def)
  have old: "nd_ok fs (inode_at fs m)" if "live_file fs m" for m using assms(1) that by (simp add: fs_wf_def)
  have disj: "blocks_of nd' \<inter> blocks_of (inode_at fs m) = {}" if "live_file fs m" "m \<noteq> n" for m
    using e(7) old [OF that(1)] assms(1,2) that unfolding nd_ok_def fs_wf_def by blast
  show "live_file fs m \<Longrightarrow> m \<noteq> n \<Longrightarrow> c \<in> blocks_of (inode_at fs m) \<Longrightarrow> c < 32768 \<and> data_at fs' c = data_at fs c"
    using disj e(8) old unfolding nd_ok_def by blast
  have live': "live_file fs' m = live_file fs m" for m using e(4,5) by (auto simp: live_file_def)
  have nd': "nd_ok fs' (inode_at fs m)" if "live_file fs m" for m
    using nd_ok_mono [OF old [OF that] e(6)] .
  show "fs_wf fs'"
    using assms(1) e live' nd' unfolding fs_wf_def by (auto simp: live_file_def)
  have at: "inode_at ?fs m = (if m = n then ?nd else inode_at fs m)" if "m < 4096" for m
    using e(1,4) ok(1) n(1) that by simp
  have live: "live_file ?fs m = live_file fs m" for m
    using at e(1,3,5) ok(1) n by (auto simp: live_file_def split: if_splits)
  have "nd_ok ?fs ?nd" using e(1,2) ok n(1) by (auto simp: nd_ok_def)
  moreover have "nd_ok ?fs (inode_at fs m)" if "live_file fs m" for m
    using nd' [OF that] e(1) ok(1) n(1) by (auto simp: nd_ok_def)
  ultimately have nds: "nd_ok ?fs (inode_at ?fs m)" if "live_file fs m" for m
    using at [of m] that by (auto simp: live_file_def)
  have dj: "blocks_of (inode_at ?fs m) \<inter> blocks_of (inode_at ?fs l) = {}"
    if "live_file fs m" "live_file fs l" "m \<noteq> l" for m l
    using disj [of m] disj [of l] that at [of m] at [of l] ok(2) assms(1)
    unfolding fs_wf_def live_file_def by auto
  have "fs_ok ?fs" using e(1) ok(1) by (rule fs_ok_setters)
  moreover have "bbit ?fs 0 \<and> ibit ?fs 0 \<and> ibit ?fs 1 \<and> itype (inode_at ?fs 1) = 2 \<and> iblocks (inode_at ?fs 1) ! 0 = 0"
    using assms(1) e(1,5,6) ok(1) n(1) n1 at [of 1] by (simp add: fs_wf_def)
  ultimately show "fs_wf ?fs" unfolding fs_wf_def live using nds dj by blast
qed

lemma read_blocks_cong:
  assumes "fs_ok fs" "fs_ok fs'" "inode_ok nd" "\<forall>b \<in> set bs. b < 12"
    and "\<forall>c \<in> blocks_of nd. c < 32768 \<and> data_at fs' c = data_at fs c"
  shows "read_blocks bs to_read out nd fs' = read_blocks bs to_read out nd fs"
  using assms(4)
proof (induction bs arbitrary: out)
  case (Cons b bs)
  show ?case
  proof (cases "iblocks nd ! b = 0")
    case False
    then have "unat (iblocks nd ! b) \<in> blocks_of nd" using blocks_of_nth [OF assms(3)] Cons.prems by simp
    then have u: "unat (iblocks nd ! b) < 32768"
      "data_at fs' (unat (iblocks nd ! b)) = data_at fs (unat (iblocks nd ! b))" using assms(5) by auto
    show ?thesis
      using Cons rd_data [OF assms(1) u(1)] rd_data [OF assms(2) u(1)] u(2) by simp
  qed simp
qed simp

lemma read_file_cong:
  assumes "fs_ok fs" "fs_ok fs'" "m < 4096" "inode_at fs' m = inode_at fs m" "inode_ok (inode_at fs m)"
    and "\<forall>c \<in> blocks_of (inode_at fs m). c < 32768 \<and> data_at fs' c = data_at fs c"
  shows "pfs_read_file (of_nat m) x fs' = pfs_read_file (of_nat m) x fs"
proof -
  have "unat (of_nat m :: u32) = m" using assms(3) by (simp add: unat_of_nat_u32)
  then have "pfs_read_inode (of_nat m) fs = Some (inode_at fs m)" "pfs_read_inode (of_nat m) fs' = Some (inode_at fs m)"
    using read_inode_at [of _ "of_nat m"] assms(1-4) by simp_all
  moreover have "\<forall>b \<in> set [0..<12]. b < 12" by simp
  note read_blocks_cong [OF assms(1,2,5) this assms(6)]
  ultimately show ?thesis unfolding pfs_read_file_def by (simp del: upt_rec_numeral)
qed

lemma read_back:
  assumes "fs_ok fs" "unat ino < 4096" "inode_at fs (unat ino) = nd" "nd_ok fs nd"
    and "itype nd = PFS_TYPE_FILE" "isize nd = len" "length data = unat len" "unat len \<le> 6144"
    and "n \<le> 12" "unat len \<le> 512 * n"
    and "\<forall>i<n. iblocks nd ! i \<noteq> 0 \<and> data_at fs (unat (iblocks nd ! i)) = file_sector data i"
  shows "pfs_read_file ino maxlen fs = Some (take (unat maxlen) data)"
proof -
  have rd: "read_blocks [0..<12] to_read [] nd fs = Some (take (unat to_read) data)"
    if "unat to_read \<le> unat len" for to_read
    using read_blocks_at [OF assms(1,4), of 0 "unat to_read" data to_read n] that assms(7-11)
    by (simp del: upt_rec_numeral)
  have "pfs_read_file ino maxlen fs = read_blocks [0..<12] (if len > maxlen then maxlen else len) [] nd fs"
    using read_inode_at [OF assms(1,2)] assms(3,5,6) by (simp add: pfs_read_file_def del: upt_rec_numeral)
  also have "\<dots> = Some (take (unat maxlen) data)"
    using rd [of maxlen] rd [of len] assms(7) by (auto simp: word_less_nat_alt not_less)
  finally show ?thesis .
qed

text \<open>The two outcomes of \<^verbatim>\<open>pfs_write_file\<close>: all blocks written, or no free block left.\<close>

lemma write_file_cases:
  assumes "fs_wf fs" "live_file fs (unat ino)" "length data = unat len" "unat len \<le> 6144"
  obtains (written) nd1 fs1 where "extends fs (inode_at fs (unat ino)) fs1 nd1"
      "pfs_write_file ino data len fs = (True, set_inode (unat ino) (nd1\<lparr>isize := len\<rparr>) fs1)"
      "\<forall>i<(unat len + 511) div 512. iblocks nd1 ! i \<noteq> 0 \<and> data_at fs1 (unat (iblocks nd1 ! i)) = file_sector data i"
  | (full) nd1 fs1 where "extends fs (inode_at fs (unat ino)) fs1 nd1"
      "pfs_write_file ino data len fs = (False, fs1)" "\<forall>c<32768. bbit fs1 c"
proof -
  let ?n = "unat ino" and ?nd = "inode_at fs (unat ino)" and ?k = "(unat len + 511) div 512"
  have fok: "fs_ok fs" "bbit fs 0" and nok: "nd_ok fs ?nd" and lt: "?n < 4096" and ft: "itype ?nd = 1"
    using assms(1,2) by (auto simp: fs_wf_def live_file_def)
  have "unat (len + PFS_BLOCK_SIZE - 1) = unat len + 511"
    using assms(4) unat_add_u32 [of len 511] by (simp add: add_diff_eq [symmetric])
  then have bn: "unat ((len + PFS_BLOCK_SIZE - 1) div PFS_BLOCK_SIZE) = ?k" by simp
  have k: "?k \<le> 12" "unat len \<le> 512 * ?k" "512 * ?k < unat len + 512" using assms(4) by auto
  have w: "pfs_write_file ino data len fs =
      (case write_blocks [0..<?k] data len 0 ?nd fs of
         (None, fs) \<Rightarrow> (False, fs) | (Some node, fs) \<Rightarrow> pfs_write_inode ino (node\<lparr>isize := len\<rparr>) fs)"
    using read_inode_at [OF fok(1) lt] ft bn k(1)
    by (simp add: pfs_write_file_def word_less_nat_alt Let_def)
  have z: "0 \<le> ?k" "0 < ?k \<longrightarrow> unat (0 :: u32) = 512 * 0" by simp_all
  from write_blocks_at [OF z(1) k(1) fok(1) nok fok(2) assms(3) k(2,3) z(2)] show thesis
  proof (elim disjE exE conjE)
    fix nd1 fs1
    assume wb: "write_blocks [0..<?k] data len 0 ?nd fs = (Some nd1, fs1)" and ex: "extends fs ?nd fs1 nd1"
      and post: "\<forall>i. 0 \<le> i \<and> i < ?k \<longrightarrow> iblocks nd1 ! i \<noteq> 0 \<and>
        data_at fs1 (unat (iblocks nd1 ! i)) = file_sector data i"
    have "fs_ok fs1" "inode_ok (nd1\<lparr>isize := len\<rparr>)" using ex by (auto simp: extends_def nd_ok_def inode_ok_def)
    then show thesis using written [OF ex] w wb write_inode_at [of fs1 ino] lt post by simp
  next
    fix nd1 fs1
    assume "write_blocks [0..<?k] data len 0 ?nd fs = (None, fs1)" "extends fs ?nd fs1 nd1" "\<forall>c<32768. bbit fs1 c"
    then show thesis using full w by simp
  qed
qed

lemma write_read_spec:
  assumes "fs_wf fs" "live_file fs (unat ino)" "length data = unat len" "unat len \<le> 6144"
    and "pfs_write_file ino data len fs = (ok, fs')"
  shows "fs_wf fs' \<and>
    (ok \<longrightarrow> pfs_read_file ino maxlen fs' = Some (take (unat maxlen) data)) \<and>
    (\<not> ok \<longrightarrow> (\<forall>c<32768. bbit fs' c)) \<and> data_at fs' 0 = data_at fs 0 \<and>
    (\<forall>m x. live_file fs m \<and> m \<noteq> unat ino \<longrightarrow> pfs_read_file (of_nat m) x fs' = pfs_read_file (of_nat m) x fs)"
proof (cases rule: write_file_cases [OF assms(1-4), case_names written full])
  case (written nd1 fs1)
  let ?n = "unat ino" and ?nd' = "nd1\<lparr>isize := len\<rparr>" and ?k = "(unat len + 511) div 512"
  let ?fs = "set_inode ?n ?nd' fs1"
  have lt: "?n < 4096" "itype (inode_at fs ?n) = 1" using assms(2) by (auto simp: live_file_def)
  have e: "fs_ok fs1" "inode_ok nd1" "inode_ok ?nd'" "nd_ok fs1 nd1"
    using written(1) by (auto simp: extends_def nd_ok_def inode_ok_def)
  note xw = extends_wf [OF assms(1,2) written(1)]
  have k: "?k \<le> 12" "unat len \<le> 512 * ?k" using assms(4) by auto
  have fs'ok: "fs_ok ?fs" using e by (intro fs_ok_setters)
  have at: "inode_at ?fs ?n = ?nd'" using e lt by simp
  have nok': "nd_ok ?fs ?nd'" using e lt by (auto simp: nd_ok_def blocks_of_def inode_ok_def)
  have "iblocks ?nd' ! i \<noteq> 0 \<and> data_at ?fs (unat (iblocks ?nd' ! i)) = file_sector data i" if "i < ?k" for i
    using written(3) that e lt k(1) blocks_of_nth [OF e(2), of i] unfolding nd_ok_def by simp
  then have "pfs_read_file ino maxlen ?fs = Some (take (unat maxlen) data)"
    using read_back [OF fs'ok lt(1) at nok' _ _ assms(3,4) k] written(1) lt(2) by (simp add: extends_def)
  moreover have "pfs_read_file (of_nat m) x ?fs = pfs_read_file (of_nat m) x fs" if "live_file fs m" "m \<noteq> ?n" for m x
  proof (rule read_file_cong [OF _ fs'ok])
    show "fs_ok fs" "m < 4096" "inode_at ?fs m = inode_at fs m" "inode_ok (inode_at fs m)"
      using that written(1) e lt assms(1) by (auto simp: live_file_def extends_def fs_wf_def nd_ok_def)
    show "\<forall>c \<in> blocks_of (inode_at fs m). c < 32768 \<and> data_at ?fs c = data_at fs c" using xw(3) [OF that] e lt by simp
  qed
  ultimately show ?thesis using assms(5) written(1,2) xw(1) e lt by (auto simp: extends_def)
next
  case (full nd1 fs1)
  have "pfs_read_file (of_nat m) x fs1 = pfs_read_file (of_nat m) x fs" if "live_file fs m" "m \<noteq> unat ino" for m x
    using that full(1) extends_wf(3) [OF assms(1,2) full(1) that] assms(1)
    by (intro read_file_cong) (auto simp: live_file_def extends_def fs_wf_def nd_ok_def)
  then show ?thesis using assms(5) full extends_wf(2) [OF assms(1,2) full(1)] by (auto simp: extends_def)
qed

text \<open>
  C5: what \<^verbatim>\<open>pfs_write_file\<close> writes is what \<^verbatim>\<open>pfs_read_file\<close> reads: after a successful write of
  at most 6144 bytes to a live file, reading it returns the data (cut off at the size of the
  reader's buffer). The file system stays well-formed whether or not the write succeeds, the
  root directory and the contents of all other files are unchanged, and the write fails only when
  no free data block is left.
\<close>

theorem pfs_write_read_file:
  assumes "fs_wf fs" "live_file fs (unat ino)" "length data = unat len" "unat len \<le> 6144"
    and "pfs_write_file ino data len fs = (ok, fs')"
  shows "fs_wf fs' \<and>
    (ok \<longrightarrow> pfs_read_file ino maxlen fs' = Some (take (unat maxlen) data)) \<and>
    (\<not> ok \<longrightarrow> (\<forall>c<32768. bbit fs' c)) \<and> data_at fs' 0 = data_at fs 0 \<and>
    (\<forall>m x. live_file fs m \<and> m \<noteq> unat ino \<longrightarrow> pfs_read_file (of_nat m) x fs' = pfs_read_file (of_nat m) x fs)"
  by (rule write_read_spec [OF assms])

section \<open>The root directory\<close>

definition dir_ino :: "u8 list \<Rightarrow> nat \<Rightarrow> u32" where
  "dir_ino d i = get32 d (32 * i)"

definition dir_name :: "u8 list \<Rightarrow> nat \<Rightarrow> cstr" where
  "dir_name d i = cstr_of (slice (32 * i + 4) 28 d)"

text \<open>Every entry in use has a terminated name and a valid inode number.\<close>

definition dir_wf :: "u8 list \<Rightarrow> bool" where
  "dir_wf d \<longleftrightarrow> length d = 512 \<and>
     (\<forall>i<16. dir_ino d i \<noteq> 0 \<longrightarrow> 0 \<in> set (slice (32 * i + 4) 28 d) \<and> unat (dir_ino d i) < 4096)"

lemma cstr_of_slice:
  assumes "0 \<in> set (slice k n d)"
  shows "cstr_of (drop k d) = cstr_of (slice k n d)"
proof -
  have "drop k d = slice k n d @ drop n (drop k d)"
    unfolding slice_def by (rule append_take_drop_id [symmetric])
  then show ?thesis
    using assms takeWhile_append1 [of 0 "slice k n d" "\<lambda>c. c \<noteq> 0" "drop n (drop k d)"]
    by (simp add: cstr_of_def)
qed

text \<open>Lookup and the slot for a new entry, as functions of the directory sector.\<close>

lemma root_dir:
  assumes "fs_wf fs"
  shows "pfs_read_inode (root_inode (sb fs)) fs = Some (inode_at fs 1)"
    and "ata_read_sector (data_start_sec (sb fs) + iblocks (inode_at fs 1) ! 0) (dev fs) = Some (data_at fs 0)"
    and "sb fs = std_sb"
proof -
  have ok: "fs_ok fs" "iblocks (inode_at fs 1) ! 0 = 0" using assms by (simp_all add: fs_wf_def)
  then show "sb fs = std_sb" by (simp add: fs_ok_def)
  then show "pfs_read_inode (root_inode (sb fs)) fs = Some (inode_at fs 1)"
    using read_inode_at [OF ok(1), of 1] by (simp add: std_sb_def)
  show "ata_read_sector (data_start_sec (sb fs) + iblocks (inode_at fs 1) ! 0) (dev fs) = Some (data_at fs 0)"
    using rd_data [OF ok(1), of 0] ok(2) by simp
qed

lemma lookup_at:
  assumes "fs_wf fs" "dir_wf (data_at fs 0)"
  shows "pfs_lookup name fs =
    (case find (\<lambda>i. dir_ino (data_at fs 0) i \<noteq> 0 \<and> dir_name (data_at fs 0) i = cstr_of name) [0..<16] of
       None \<Rightarrow> -1 | Some i \<Rightarrow> sint (dir_ino (data_at fs 0) i))"
proof -
  let ?d = "data_at fs 0"
  have "find (\<lambda>i. get32 ?d (32 * i) \<noteq> 0 \<and> strcmp (drop (32 * i + 4) ?d) name = 0) [0..<16] =
      find (\<lambda>i. dir_ino ?d i \<noteq> 0 \<and> dir_name ?d i = cstr_of name) [0..<16]"
  proof (rule find_cong [OF refl])
    fix i assume "i \<in> set [0..<16]"
    then show "(get32 ?d (32 * i) \<noteq> 0 \<and> strcmp (drop (32 * i + 4) ?d) name = 0) =
        (dir_ino ?d i \<noteq> 0 \<and> dir_name ?d i = cstr_of name)"
      using assms(2) cstr_of_slice [of "32 * i + 4" 28 ?d]
      by (auto simp: dir_wf_def dir_ino_def dir_name_def strcmp_0_iff)
  qed
  then show ?thesis
    unfolding pfs_lookup_def root_dir(1) [OF assms(1)] option.case root_dir(2) [OF assms(1)]
    by (simp add: dir_ino_def del: upt_rec_numeral split: option.split)
qed

definition dir_entry :: "nat \<Rightarrow> u32 \<Rightarrow> cstr \<Rightarrow> u8 list \<Rightarrow> u8 list" where
  "dir_entry i ino name d = (splice (put32 (32 * i) ino d) (32 * i + 4) (strncpy_bytes name 28))[32 * i + 31 := 0]"

lemma list_update_splice: "k < length xs \<Longrightarrow> xs[k := v] = splice xs k [v]"
  by (simp add: splice_def upd_conv_take_nth_drop)

lemma slice_update_inside:
  assumes "k \<le> j" "j < k + n" "k + n \<le> length xs"
  shows "slice k n (xs[j := v]) = (slice k n xs)[j - k := v]"
  using assms by (intro nth_equalityI) (auto simp: nth_slice nth_list_update)

lemma dir_entry_view:
  assumes "length d = 512" "i < 16"
  shows "length (dir_entry i ino name d) = 512"
    and "dir_ino (dir_entry i ino name d) i = ino"
    and "slice (32 * i + 4) 28 (dir_entry i ino name d) = (strncpy_bytes name 28)[27 := 0]"
    and "j < 16 \<Longrightarrow> j \<noteq> i \<Longrightarrow> dir_ino (dir_entry i ino name d) j = dir_ino d j"
    and "j < 16 \<Longrightarrow> j \<noteq> i \<Longrightarrow> slice (32 * j + 4) 28 (dir_entry i ino name d) = slice (32 * j + 4) 28 d"
proof -
  have r: "32 * i + 32 \<le> 512" using assms(2) by simp
  let ?p = "put32 (32 * i) ino d"
  let ?s = "splice ?p (32 * i + 4) (strncpy_bytes name 28)"
  have len: "length ?p = 512" "length ?s = 512" using r assms(1) by simp_all
  have e: "dir_entry i ino name d = splice ?s (32 * i + 31) [0]"
    using r len by (simp add: dir_entry_def list_update_splice)
  show "length (dir_entry i ino name d) = 512" using r len by (simp add: dir_entry_def)
  show "dir_ino (dir_entry i ino name d) i = ino"
    unfolding e dir_ino_def using r len assms(1)
    by (simp add: get32_splice_other get32_put32_same)
  show "slice (32 * i + 4) 28 (dir_entry i ino name d) = (strncpy_bytes name 28)[27 := 0]"
    unfolding dir_entry_def using r len
    by (subst slice_update_inside) (simp_all add: slice_splice_same)
  assume j: "j < 16" "j \<noteq> i"
  then have jr: "32 * j + 32 \<le> 512" "32 * j + 32 \<le> 32 * i \<or> 32 * i + 32 \<le> 32 * j" by auto
  show "dir_ino (dir_entry i ino name d) j = dir_ino d j"
    unfolding e dir_ino_def using r jr len assms(1)
    by (subst get32_splice_other; (subst get32_splice_other)?; (subst get32_put32_other)?) auto
  show "slice (32 * j + 4) 28 (dir_entry i ino name d) = slice (32 * j + 4) 28 d"
    unfolding e put32_def using r jr len [unfolded put32_def] assms(1)
    by (subst slice_splice_disjoint; (subst slice_splice_disjoint)?; (subst slice_splice_disjoint)?) auto
qed

lemma dir_entry_name:
  assumes "length d = 512" "i < 16" "length (cstr_of name) < 28"
  shows "dir_name (dir_entry i ino name d) i = cstr_of name"
    and "0 \<in> set (slice (32 * i + 4) 28 (dir_entry i ino name d))"
proof -
  have b: "strncpy_bytes name 28 = cstr_of name @ replicate (28 - length (cstr_of name)) 0"
    using assms(3) by (simp add: strncpy_bytes_eq)
  then have "strncpy_bytes name 28 ! 27 = 0" using assms(3) by (simp add: nth_append)
  then have u: "(strncpy_bytes name 28)[27 := 0] = strncpy_bytes name 28"
    by (metis list_update_id)
  show "dir_name (dir_entry i ino name d) i = cstr_of name"
    unfolding dir_name_def dir_entry_view(3) [OF assms(1,2)] u
    using cstr_of_strncpy_bytes [OF assms(3), of "[]"] by simp
  show "0 \<in> set (slice (32 * i + 4) 28 (dir_entry i ino name d))"
    unfolding dir_entry_view(3) [OF assms(1,2)] u using assms(3) by (simp add: b)
qed

lemma dir_entry_wf:
  assumes "dir_wf d" "i < 16" "length (cstr_of name) < 28" "unat ino < 4096"
  shows "dir_wf (dir_entry i ino name d)"
proof -
  have l: "length d = 512" using assms(1) by (simp add: dir_wf_def)
  note v = dir_entry_view [OF l assms(2)] dir_entry_name(2) [OF l assms(2,3)]
  show ?thesis
    unfolding dir_wf_def using assms v by (metis dir_wf_def)
qed

lemma dir_add_at:
  assumes "fs_wf fs" "dir_wf (data_at fs 0)"
  shows "pfs_dir_add 1 name ino fs =
    (case find (\<lambda>i. dir_ino (data_at fs 0) i = 0) [0..<16] of
       None \<Rightarrow> (False, fs) | Some i \<Rightarrow> (True, set_data 0 (dir_entry i ino name (data_at fs 0)) fs))"
proof (cases "find (\<lambda>i. dir_ino (data_at fs 0) i = 0) [0..<16]")
  case None
  then show ?thesis
    using root_dir [OF assms(1)] assms(1)
    by (simp add: pfs_dir_add_def dir_ino_def fs_wf_def std_sb_def Let_def del: upt_rec_numeral)
next
  case (Some i)
  then have i: "i < 16" by (auto simp: find_upt0_Some_iff simp del: upt_rec_numeral)
  have ok: "fs_ok fs" "iblocks (inode_at fs 1) ! 0 = 0" "itype (inode_at fs 1) = 2" "length (data_at fs 0) = 512"
    using assms by (simp_all add: fs_wf_def dir_wf_def)
  let ?d = "dir_entry i ino name (data_at fs 0)"
  have len: "length ?d = 512" using dir_entry_view(1) [OF ok(4) i] .
  obtain dv where w: "ata_write_sector (data_start_sec (sb fs) + 0) ?d (dev fs) = (True, dv)"
    "fs\<lparr>dev := dv\<rparr> = set_data 0 ?d fs"
    using wr_data [OF ok(1), of 0 ?d] len by auto
  have rd: "ata_read_sector (data_start_sec (sb fs) + 0) (dev fs) = Some (data_at fs 0)"
    using root_dir(2) [OF assms(1)] ok(2) by simp
  have "pfs_read_inode 1 fs = Some (inode_at fs 1)"
    using root_dir(1,3) [OF assms(1)] by (simp add: std_sb_def)
  then show ?thesis
    using Some w rd ok
    by (simp add: pfs_dir_add_def Let_def dir_entry_def dir_ino_def del: upt_rec_numeral)
qed

definition empty_file :: inode where
  "empty_file = \<lparr>itype = PFS_TYPE_FILE, isize = 0, iblocks = replicate 12 0, ireserved = [0, 0]\<rparr>"

lemma empty_file_ok [simp]: "inode_ok empty_file" "blocks_of empty_file = {}" "itype empty_file = 1"
  "isize empty_file = 0"
  by (auto simp: empty_file_def inode_ok_def blocks_of_def)

lemma nd_ok_empty [simp]: "nd_ok fs empty_file"
  by (simp add: nd_ok_def) (simp add: empty_file_def)

lemma new_inode_wf:
  assumes "fs_wf fs" "n < 4096" "\<not> ibit fs n"
  shows "fs_wf (set_inode n empty_file (set_ibit n fs))"
    and "live_file (set_inode n empty_file (set_ibit n fs)) n"
proof -
  let ?g = "set_ibit n fs" and ?fs = "set_inode n empty_file (set_ibit n fs)"
  have ok: "fs_ok fs" "fs_ok ?g" "fs_ok ?fs" using assms(1) by (simp_all add: fs_wf_def fs_ok_setters)
  have "ibit fs 0" "ibit fs 1" using assms(1) by (simp_all add: fs_wf_def)
  then have n: "n \<noteq> 0" "n \<noteq> 1" using assms(3) by metis+
  have at: "inode_at ?fs m = (if m = n then empty_file else inode_at fs m)"
    "ibit ?fs m \<longleftrightarrow> m = n \<or> ibit fs m" if "m < 4096" for m
    using ok assms(2) that by simp_all
  have bb: "bbit ?fs c = bbit fs c" if "c < 32768" for c using ok assms(2) that by simp
  show "live_file ?fs n" using at [of n] assms(2) by (simp add: live_file_def)
  have live: "live_file ?fs m \<longleftrightarrow> m = n \<or> live_file fs m" for m
    using at [of m] assms(2,3) by (auto simp: live_file_def)
  have "nd_ok ?fs (inode_at ?fs m)" if "live_file ?fs m" for m
  proof (cases "m = n")
    case False
    then have "nd_ok fs (inode_at fs m)" "inode_at ?fs m = inode_at fs m"
      using that live [of m] at [of m] assms(1) by (auto simp: fs_wf_def live_file_def)
    then show ?thesis using nd_ok_mono bb by simp
  qed (use at [of n] assms(2) in simp)
  moreover have "blocks_of (inode_at ?fs m) \<inter> blocks_of (inode_at ?fs l) = {}"
    if ml: "live_file ?fs m" "live_file ?fs l" "m \<noteq> l" for m l
  proof (cases "m = n \<or> l = n")
    case True
    then show ?thesis using at(1) [of n] assms(2) by auto
  next
    case False
    then have "live_file fs m" "live_file fs l" using ml live by auto
    moreover from this have "inode_at ?fs m = inode_at fs m" "inode_at ?fs l = inode_at fs l"
      using at(1) False by (auto simp: live_file_def)
    ultimately show ?thesis using assms(1) ml(3) unfolding fs_wf_def by simp
  qed
  moreover have "bbit ?fs 0 \<and> ibit ?fs 0 \<and> ibit ?fs 1 \<and> itype (inode_at ?fs 1) = 2 \<and> iblocks (inode_at ?fs 1) ! 0 = 0"
    using assms(1) n at [of 0] at [of 1] bb [of 0] by (auto simp: fs_wf_def)
  ultimately show "fs_wf ?fs" unfolding fs_wf_def using ok(3) by blast
qed

lemma set_dir_wf:
  assumes "fs_wf fs" "length d = 512"
  shows "fs_wf (set_data 0 d fs)" "live_file (set_data 0 d fs) = live_file fs"
proof -
  have nd: "nd_ok (set_data 0 d fs) x = nd_ok fs x" for x by (auto simp: nd_ok_def)
  show lv: "live_file (set_data 0 d fs) = live_file fs" by (auto simp: live_file_def fun_eq_iff)
  have "live_file fs n \<Longrightarrow> n < 4096" for n by (simp add: live_file_def)
  then show "fs_wf (set_data 0 d fs)"
    using assms unfolding fs_wf_def lv by (auto simp: fs_ok_setters nd)
qed

lemma lookup_missing:
  assumes "fs_wf fs" "dir_wf (data_at fs 0)"
  shows "pfs_lookup name fs = -1 \<longleftrightarrow>
    find (\<lambda>i. dir_ino (data_at fs 0) i \<noteq> 0 \<and> dir_name (data_at fs 0) i = cstr_of name) [0..<16] = None"
proof -
  have "sint (dir_ino (data_at fs 0) i) \<noteq> -1" if "i < 16" "dir_ino (data_at fs 0) i \<noteq> 0" for i
  proof
    assume "sint (dir_ino (data_at fs 0) i) = -1"
    then have "dir_ino (data_at fs 0) i = -1" by (metis sint_n1 signed_word_eqI)
    then have "unat (dir_ino (data_at fs 0) i) = 4294967295"
      by (simp add: unsigned_minus_1_eq_mask mask_eq_exp_minus_1)
    then show False using that assms(2) by (auto simp: dir_wf_def)
  qed
  then show ?thesis
    unfolding lookup_at [OF assms]
    by (auto simp: find_upt0_Some_iff simp del: upt_rec_numeral split: option.split)
qed

lemma sint_small: "n < 4096 \<Longrightarrow> sint (of_nat n :: u32) = int n"
  by (simp add: signed_of_nat signed_take_bit_int_eq_self)

lemma lookup_new_entry:
  assumes "fs_wf fs" "dir_wf (data_at fs 0)" "fs_wf fs'" "i < 16" "dir_ino (data_at fs 0) i = 0"
    and "data_at fs' 0 = dir_entry i (of_nat n) name (data_at fs 0)" "0 < n" "n < 4096"
    and "length (cstr_of name) < 28" "pfs_lookup name fs = -1"
  shows "pfs_lookup name fs' = int n"
    and "cstr_of name' \<noteq> cstr_of name \<Longrightarrow> pfs_lookup name' fs' = pfs_lookup name' fs"
proof -
  let ?d = "data_at fs 0" and ?d' = "data_at fs' 0"
  have l: "length ?d = 512" using assms(2) by (simp add: dir_wf_def)
  have u: "unat (of_nat n :: u32) = n" "(of_nat n :: u32) \<noteq> 0"
    using assms(7,8) by (simp_all add: unat_of_nat_u32 word_eq_unat)
  have wf': "dir_wf ?d'" unfolding assms(6) using assms(2,4,8,9) u by (intro dir_entry_wf) simp_all
  have di: "dir_ino ?d' i = of_nat n" "dir_name ?d' i = cstr_of name"
    using dir_entry_view(2) [OF l assms(4)] dir_entry_name(1) [OF l assms(4,9)] by (simp_all add: assms(6))
  have dj: "dir_ino ?d' j = dir_ino ?d j" "dir_name ?d' j = dir_name ?d j" if "j < 16" "j \<noteq> i" for j
    using dir_entry_view(4,5) [OF l assms(4) that] by (simp_all add: assms(6) dir_name_def)
  have no: "\<not> (dir_ino ?d j \<noteq> 0 \<and> dir_name ?d j = cstr_of name)" if "j < 16" for j
    using lookup_missing [OF assms(1,2)] assms(10) that by (auto simp: find_upt_None_iff simp del: upt_rec_numeral)
  have "\<forall>j<i. \<not> (dir_ino ?d' j \<noteq> 0 \<and> dir_name ?d' j = cstr_of name)"
    using dj no assms(4) by (metis less_trans nat_neq_iff)
  then have "find (\<lambda>j. dir_ino ?d' j \<noteq> 0 \<and> dir_name ?d' j = cstr_of name) [0..<16] = Some i"
    using di u assms(4) by (auto simp: find_upt0_Some_iff simp del: upt_rec_numeral)
  then show "pfs_lookup name fs' = int n"
    using lookup_at [OF assms(3) wf', of name] di sint_small [OF assms(8)] by simp
  assume ne: "cstr_of name' \<noteq> cstr_of name"
  have eq: "find (\<lambda>j. dir_ino ?d' j \<noteq> 0 \<and> dir_name ?d' j = cstr_of name') [0..<16] =
      find (\<lambda>j. dir_ino ?d j \<noteq> 0 \<and> dir_name ?d j = cstr_of name') [0..<16]"
  proof (rule find_cong [OF refl])
    fix j assume "j \<in> set [0..<16]"
    then have "j < 16" by simp
    then show "(dir_ino ?d' j \<noteq> 0 \<and> dir_name ?d' j = cstr_of name') =
        (dir_ino ?d j \<noteq> 0 \<and> dir_name ?d j = cstr_of name')"
      using dj [of j] di ne assms(5) by (cases "j = i") auto
  qed
  show "pfs_lookup name' fs' = pfs_lookup name' fs"
    unfolding lookup_at [OF assms(3) wf'] lookup_at [OF assms(1,2)] eq
  proof (cases "find (\<lambda>j. dir_ino ?d j \<noteq> 0 \<and> dir_name ?d j = cstr_of name') [0..<16]")
    case (Some k)
    then have "k < 16" "k \<noteq> i" using assms(5) unfolding find_upt0_Some_iff by auto
    with Some dj show "(case find (\<lambda>j. dir_ino ?d j \<noteq> 0 \<and> dir_name ?d j = cstr_of name') [0..<16] of
        None \<Rightarrow> - 1 | Some i \<Rightarrow> sint (dir_ino ?d' i)) =
      (case find (\<lambda>j. dir_ino ?d j \<noteq> 0 \<and> dir_name ?d j = cstr_of name') [0..<16] of
        None \<Rightarrow> - 1 | Some i \<Rightarrow> sint (dir_ino ?d i))" by simp
  qed simp
qed

lemma create_spec:
  assumes "fs_wf fs" "dir_wf (data_at fs 0)" "length (cstr_of name) < 28" "pfs_lookup name fs = -1"
    and "\<exists>i<16. dir_ino (data_at fs 0) i = 0" "\<exists>n<4096. \<not> ibit fs n"
  shows "\<exists>n fs'. pfs_create name fs = (int n, fs') \<and> n < 4096 \<and> \<not> ibit fs n \<and>
    fs_wf fs' \<and> dir_wf (data_at fs' 0) \<and> live_file fs' n \<and>
    pfs_lookup name fs' = int n \<and> pfs_read_file (of_nat n) 6144 fs' = Some [] \<and>
    (\<forall>name'. cstr_of name' \<noteq> cstr_of name \<longrightarrow> pfs_lookup name' fs' = pfs_lookup name' fs) \<and>
    (\<forall>c<32768. bbit fs' c = bbit fs c)"
proof -
  obtain n where n: "find (\<lambda>i. \<not> ibit fs i) [0..<4096] = Some n"
    using assms(6) find_upt_None_iff [of "\<lambda>i. \<not> ibit fs i" 0 4096] by fastforce
  then have nb: "n < 4096" "\<not> ibit fs n" unfolding find_upt0_Some_iff by auto
  have "ibit fs 0" using assms(1) by (simp add: fs_wf_def)
  then have n0: "0 < n" using nb(2) by (metis gr0I)
  have ok: "fs_ok fs" using assms(1) by (simp add: fs_wf_def)
  let ?fs1 = "set_ibit n fs" and ?fs2 = "set_inode n empty_file (set_ibit n fs)"
  have al: "pfs_alloc_inode fs = (int n, ?fs1)" using alloc_inode_at [OF ok] n by simp
  have u: "unat (of_nat n :: u32) = n" using nb(1) by (simp add: unat_of_nat_u32)
  have wi: "pfs_write_inode (of_nat n) empty_file ?fs1 = (True, ?fs2)"
    using write_inode_at [of ?fs1 "of_nat n" empty_file] ok nb(1) u by (simp add: fs_ok_setters)
  note wf2 = new_inode_wf [OF assms(1) nb]
  have d2: "data_at ?fs2 0 = data_at fs 0" using ok nb(1) by (simp add: fs_ok_setters)
  obtain i where i: "find (\<lambda>i. dir_ino (data_at fs 0) i = 0) [0..<16] = Some i"
    using assms(5) find_upt_None_iff [of "\<lambda>i. dir_ino (data_at fs 0) i = 0" 0 16] by fastforce
  then have ib: "i < 16" "dir_ino (data_at fs 0) i = 0" unfolding find_upt0_Some_iff by auto
  let ?d = "dir_entry i (of_nat n) name (data_at fs 0)" and ?fs3 = "set_data 0 (dir_entry i (of_nat n) name (data_at fs 0)) ?fs2"
  have len: "length ?d = 512" using assms(2) ib dir_entry_view(1) by (simp add: dir_wf_def)
  have "sb ?fs2 = std_sb" using root_dir(3) [OF wf2(1)] .
  then have da: "pfs_dir_add (root_inode (sb ?fs2)) name (of_nat n) ?fs2 = (True, ?fs3)"
    using dir_add_at [OF wf2(1), of name "of_nat n"] assms(2) i d2 by (simp add: std_sb_def del: upt_rec_numeral)
  have cr: "pfs_create name fs = (int n, ?fs3)"
    using al wi da n0 by (simp add: pfs_create_def empty_file_def [symmetric])
  note wf3 = set_dir_wf [OF wf2(1) len]
  have d3: "data_at ?fs3 0 = ?d" by simp
  have "inode_at ?fs3 n = empty_file" using nb(1) ok by (simp add: fs_ok_setters)
  then have "pfs_read_file (of_nat n) 6144 ?fs3 = Some []"
    using read_back [of ?fs3 "of_nat n" empty_file 0 "[]" 0 6144] wf3(1) nb(1) u by (simp add: fs_wf_def)
  moreover have "dir_wf ?d" using dir_entry_wf [OF assms(2) ib(1) assms(3), of "of_nat n"] nb(1) u by simp
  moreover have "bbit ?fs3 c = bbit fs c" if "c < 32768" for c using that nb(1) ok by (simp add: fs_ok_setters)
  moreover note lookup_new_entry [OF assms(1,2) wf3(1) ib d3 n0 nb(1) assms(3,4)]
  ultimately show ?thesis
    using cr nb wf3 wf2(2) d3 by (intro exI [of _ n] exI [of _ ?fs3]) auto
qed


section \<open>A formatted disk\<close>

lemma length_zero_sector [simp]: "length zero_sector = 512"
  by (simp add: zero_sector_def)

lemma get32_zero_sector [simp]: "k + 4 \<le> 512 \<Longrightarrow> get32 zero_sector k = 0"
  by (simp add: get32_def slice_def zero_sector_def un_le32_def min_def)

lemma get32_slice: "k + 4 \<le> n \<Longrightarrow> get32 (slice j n b) k = get32 b (j + k)"
  by (simp add: get32_def slice_def drop_take min_def add.commute)

lemma mkfs_sectors [simp]:
  "length mkfs_superblock = 512" "length mkfs_inode_bitmap = 512" "length mkfs_block_bitmap = 512"
  "length mkfs_root_inode = 512"
  by (simp_all add: mkfs_superblock_def mkfs_inode_bitmap_def mkfs_block_bitmap_def mkfs_root_inode_def Let_def)

lemma mkfs_superblock_decoded: "superblock_of mkfs_superblock = std_sb"
  by (simp add: superblock_of_def std_sb_def mkfs_superblock_def get32_put32_same get32_put32_other)

lemma mkfs_inode_decoded:
  "itype (inode_of (slice 64 64 mkfs_root_inode)) = 2" "iblocks (inode_of (slice 64 64 mkfs_root_inode)) ! 0 = 0"
  "itype (inode_of (slice 0 64 mkfs_root_inode)) = 0"
  by (simp_all add: inode_of_def get32_slice mkfs_root_inode_def get32_put32_same get32_put32_other
      del: upt_rec_numeral)

lemma dir_entry_short:
  assumes "length d = 512" "i < 16" "length (cstr_of name) < 28"
  shows "dir_entry i ino name d = splice (put32 (32 * i) ino d) (32 * i + 4) (strncpy_bytes name 28)"
proof -
  have r: "32 * i + 32 \<le> 512" using assms(2) by simp
  have "strncpy_bytes name 28 ! 27 = 0" using assms(3) by (simp add: strncpy_bytes_eq nth_append)
  then have "splice (put32 (32 * i) ino d) (32 * i + 4) (strncpy_bytes name 28) ! (32 * i + 31) = 0"
    using r assms(1) by (simp add: nth_splice)
  then show ?thesis unfolding dir_entry_def by (metis list_update_id)
qed

lemma dot_names: "cstr_of (cstr_lit ''.'') = [46]" "cstr_of (cstr_lit ''..'') = [46, 46]"
  by code_simp+

lemma mkfs_dir_entries:
  "mkfs_root_dir = dir_entry 1 1 (cstr_lit ''..'') (dir_entry 0 1 (cstr_lit ''.'') zero_sector)"
proof -
  have e: "dir_entry 0 1 (cstr_lit ''.'') zero_sector = splice (put32 0 1 zero_sector) 4 (strncpy_bytes (cstr_lit ''.'') 28)"
    using dir_entry_short [of zero_sector 0 "cstr_lit ''.''" 1] dot_names by simp
  have "length (dir_entry 0 1 (cstr_lit ''.'') zero_sector) = 512" by (rule dir_entry_view) simp_all
  then show ?thesis
    using dir_entry_short [of "dir_entry 0 1 (cstr_lit ''.'') zero_sector" 1 "cstr_lit ''..''" 1] dot_names e
    by (simp add: mkfs_root_dir_def Let_def)
qed

lemma mkfs_dir_wf: "dir_wf mkfs_root_dir" "dir_ino mkfs_root_dir 2 = 0" "length mkfs_root_dir = 512"
proof -
  have z: "dir_wf zero_sector" by (simp add: dir_wf_def dir_ino_def)
  have d0: "dir_wf (dir_entry 0 1 (cstr_lit ''.'') zero_sector)"
    using dot_names by (intro dir_entry_wf [OF z]) simp_all
  show w: "dir_wf mkfs_root_dir"
    unfolding mkfs_dir_entries using dot_names by (intro dir_entry_wf [OF d0]) simp_all
  then show "length mkfs_root_dir = 512" by (simp add: dir_wf_def)
  have "length (dir_entry 0 1 (cstr_lit ''.'') zero_sector) = 512" using d0 by (simp add: dir_wf_def)
  then show "dir_ino mkfs_root_dir 2 = 0"
    unfolding mkfs_dir_entries by (simp add: dir_entry_view) (simp add: dir_ino_def)
qed

lemma mkfs_dir_lookup:
  "dir_ino mkfs_root_dir 0 = 1" "dir_name mkfs_root_dir 0 = [46]"
  "dir_ino mkfs_root_dir 1 = 1" "dir_name mkfs_root_dir 1 = [46, 46]"
proof -
  let ?d = "dir_entry 0 1 (cstr_lit ''.'') zero_sector"
  have l: "length zero_sector = 512" "length ?d = 512" by (simp_all add: dir_entry_view)
  show "dir_ino mkfs_root_dir 1 = 1" "dir_name mkfs_root_dir 1 = [46, 46]"
    unfolding mkfs_dir_entries
    using dir_entry_view(2) [OF l(2), of 1] dir_entry_name(1) [OF l(2), of 1] dot_names by simp_all
  show "dir_ino mkfs_root_dir 0 = 1" "dir_name mkfs_root_dir 0 = [46]"
    unfolding mkfs_dir_entries dir_name_def
    using dir_entry_view(4,5) [OF l(2), of 1 0] dir_entry_view(2) [OF l(1), of 0]
      dir_entry_name(1) [OF l(1), of 0 "cstr_lit ''.''"] dot_names
    by (simp_all add: dir_name_def)
qed

lemma mkfs_bits:
  "n < 4096 \<Longrightarrow> bm_test mkfs_inode_bitmap n \<longleftrightarrow> n < 2" "bm_test mkfs_block_bitmap 0"
proof -
  have b3: "bit (3 :: u8) k \<longleftrightarrow> k < 2" "bit (3 :: int) k \<longleftrightarrow> k < 2" for k
  proof -
    have "(3 :: u8) = mask 2" "(3 :: int) = mask 2" by (simp_all add: mask_eq_exp_minus_1)
    then show "bit (3 :: u8) k \<longleftrightarrow> k < 2" "bit (3 :: int) k \<longleftrightarrow> k < 2"
      by (simp_all only: bit_mask_iff possible_bit_word) auto
  qed
  have z: "mkfs_inode_bitmap = zero_sector[0 := 3]" "mkfs_block_bitmap = zero_sector[0 := 1]"
    by (simp_all add: mkfs_inode_bitmap_def mkfs_block_bitmap_def zero_sector_def Let_def)
  show "bm_test mkfs_block_bitmap 0"
    by (simp add: bm_test_bit z zero_sector_def nth_list_update bit_0)
  assume n: "n < 4096"
  then have "n div 8 < 512" by (simp add: div_less_iff_less_mult)
  then have "mkfs_inode_bitmap ! (n div 8) = (if n div 8 = 0 then 3 else 0)"
    unfolding z zero_sector_def by (simp add: nth_list_update)
  then show "bm_test mkfs_inode_bitmap n \<longleftrightarrow> n < 2"
    by (cases "n < 8") (auto simp: bm_test_bit b3)
qed

definition formatted :: "ata \<Rightarrow> pfs" where
  "formatted a = set_sec 522 mkfs_root_dir (set_sec 10 mkfs_root_inode
     (fold (\<lambda>i. set_sec (2 + i) zero_sector) [1..<8] (set_sec 2 mkfs_block_bitmap
       (set_sec 1 mkfs_inode_bitmap (set_sec 0 mkfs_superblock \<lparr>dev = a, sb = std_sb\<rparr>)))))"

lemma mkfs_step:
  assumes "fs_ok fs" "k < 100000" "length b = 512"
  shows "wsec (of_nat k) b (dev fs) = dev (set_sec k b fs)" "fs_ok (set_sec k b fs)"
  using wr_sec [OF assms] fs_ok_set_sec [OF assms(1,3)] by (simp_all add: wsec_def)

lemma mkfs_formatted:
  assumes "ata_ok a"
  shows "pfs_mkfs a = dev (formatted a)" "fs_ok (formatted a)"
proof -
  have ok: "fs_ok \<lparr>dev = a, sb = std_sb\<rparr>" using assms by (simp add: fs_ok_def)
  let ?g2 = "set_sec 2 mkfs_block_bitmap (set_sec 1 mkfs_inode_bitmap
      (set_sec 0 mkfs_superblock \<lparr>dev = a, sb = std_sb\<rparr>))"
  have g2: "fs_ok ?g2" using ok mkfs_sectors by (intro mkfs_step(2)) simp_all
  have "dev (fold (\<lambda>i. set_sec (2 + i) zero_sector) is fs) =
      fold (\<lambda>i. wsec (2 + of_nat i) zero_sector) is (dev fs) \<and>
      fs_ok (fold (\<lambda>i. set_sec (2 + i) zero_sector) is fs)"
    if "fs_ok fs" "\<forall>i \<in> set is. i < 8" for "is" fs
    using that
  proof (induction "is" arbitrary: fs)
    case (Cons i "is")
    have "wsec (of_nat (2 + i)) zero_sector (dev fs) = dev (set_sec (2 + i) zero_sector fs)"
      "fs_ok (set_sec (2 + i) zero_sector fs)"
      using Cons.prems mkfs_step [of fs "2 + i" zero_sector] by simp_all
    with Cons show ?case by simp
  qed simp
  from this [OF g2, of "[1..<8]"]
  have fold: "dev (fold (\<lambda>i. set_sec (2 + i) zero_sector) [1..<8] ?g2) =
      fold (\<lambda>i. wsec (2 + of_nat i) zero_sector) [1..<8] (dev ?g2)"
    and g3: "fs_ok (fold (\<lambda>i. set_sec (2 + i) zero_sector) [1..<8] ?g2)" by auto
  let ?g3 = "fold (\<lambda>i. set_sec (2 + i) zero_sector) [1..<8] ?g2"
  show "fs_ok (formatted a)" unfolding formatted_def
    using g3 mkfs_dir_wf(3) by (intro mkfs_step(2)) simp_all
  let ?g0 = "\<lparr>dev = a, sb = std_sb\<rparr>" and ?g1 = "set_sec 0 mkfs_superblock \<lparr>dev = a, sb = std_sb\<rparr>"
  have ok1: "fs_ok ?g1" "fs_ok (set_sec 1 mkfs_inode_bitmap ?g1)" "fs_ok (set_sec 10 mkfs_root_inode ?g3)"
    using ok g3 by (intro mkfs_step(2); simp)+
  have w: "wsec 0 mkfs_superblock a = dev ?g1"
    "wsec 1 mkfs_inode_bitmap (dev ?g1) = dev (set_sec 1 mkfs_inode_bitmap ?g1)"
    "wsec 2 mkfs_block_bitmap (dev (set_sec 1 mkfs_inode_bitmap ?g1)) = dev ?g2"
    "wsec 10 mkfs_root_inode (dev ?g3) = dev (set_sec 10 mkfs_root_inode ?g3)"
    "wsec (522 + 0) mkfs_root_dir (dev (set_sec 10 mkfs_root_inode ?g3)) = dev (formatted a)"
    using mkfs_step(1) [OF ok, of 0 mkfs_superblock] mkfs_step(1) [OF ok1(1), of 1 mkfs_inode_bitmap]
      mkfs_step(1) [OF ok1(2), of 2 mkfs_block_bitmap] mkfs_step(1) [OF g3, of 10 mkfs_root_inode]
      mkfs_step(1) [OF ok1(3), of 522 mkfs_root_dir] mkfs_dir_wf(3)
    by (simp_all add: formatted_def)
  show "pfs_mkfs a = dev (formatted a)"
    unfolding pfs_mkfs_def Let_def w(1-3) fold [symmetric] w(4,5) ..
qed

lemma formatted_sectors:
  "sec (formatted a) 0 = mkfs_superblock" "sec (formatted a) 1 = mkfs_inode_bitmap"
  "sec (formatted a) 2 = mkfs_block_bitmap" "sec (formatted a) 10 = mkfs_root_inode"
  "sec (formatted a) 522 = mkfs_root_dir"
proof -
  have f: "sec (fold (\<lambda>i. set_sec (2 + i) zero_sector) is fs) k = sec fs k"
    if "\<forall>i \<in> set is. 2 + i \<noteq> k \<and> i < 8" "k < 100000" for "is" k fs
    using that by (induction "is" arbitrary: fs) (auto simp: sec_set_sec)
  have "\<forall>i \<in> set [1..<8]. 2 + i \<noteq> (0::nat) \<and> i < 8" "\<forall>i \<in> set [1..<8]. 2 + i \<noteq> (1::nat) \<and> i < 8"
    "\<forall>i \<in> set [1..<8]. 2 + i \<noteq> (2::nat) \<and> i < 8" by auto
  note f [OF this(1)] f [OF this(2)] f [OF this(3)]
  then show "sec (formatted a) 0 = mkfs_superblock" "sec (formatted a) 1 = mkfs_inode_bitmap"
    "sec (formatted a) 2 = mkfs_block_bitmap" "sec (formatted a) 10 = mkfs_root_inode"
    "sec (formatted a) 522 = mkfs_root_dir"
    unfolding formatted_def by (simp_all add: sec_set_sec)
qed

lemma mount_formatted:
  assumes "ata_ok a"
  shows "pfs_mount \<lparr>dev = pfs_mkfs a, sb = s\<rparr> = (True, formatted a)"
proof -
  note mk = mkfs_formatted [OF assms]
  have "ata_read_sector 0 (dev (formatted a)) = Some mkfs_superblock" using rd_sec [OF mk(2), of 0] formatted_sectors by simp
  moreover have "sb (formatted a) = std_sb" using mk(2) by (simp add: fs_ok_def)
  ultimately show ?thesis by (simp add: pfs_mount_def mk(1) mkfs_superblock_decoded) (simp add: std_sb_def)
qed

lemma mkfs_mount_spec:
  assumes "ata_ok a"
  shows "\<exists>fs. pfs_mount \<lparr>dev = pfs_mkfs a, sb = s\<rparr> = (True, fs) \<and> fs_wf fs \<and> sb fs = std_sb \<and>
    dir_wf (data_at fs 0) \<and> (\<forall>n. \<not> live_file fs n) \<and>
    pfs_lookup (cstr_lit ''.'') fs = 1 \<and> pfs_lookup (cstr_lit ''..'') fs = 1 \<and>
    (\<exists>i<16. dir_ino (data_at fs 0) i = 0) \<and> (\<exists>n<4096. \<not> ibit fs n)"
proof -
  note mk = mkfs_formatted [OF assms] and fsec = formatted_sectors [of a]
  let ?fs = "formatted a"
  have sbq: "sb ?fs = std_sb" using mk(2) by (simp add: fs_ok_def)
  note mount = mount_formatted [OF assms, of s]
  have ib: "ibit ?fs n \<longleftrightarrow> n < 2" if "n < 4096" for n
    unfolding ibit_def fsec using that by (rule mkfs_bits)
  have at: "itype (inode_at ?fs 0) = 0" "itype (inode_at ?fs 1) = 2" "iblocks (inode_at ?fs 1) ! 0 = 0"
    using mkfs_inode_decoded by (simp_all add: inode_at_def fsec)
  have none: "\<not> live_file ?fs n" for n
    using ib [of n] at by (auto simp: live_file_def less_2_cases_iff)
  have "bbit ?fs 0" by (simp add: bbit_def fsec mkfs_bits)
  then have wf: "fs_wf ?fs" using mk(2) ib [of 0] ib [of 1] at none by (simp add: fs_wf_def)
  have d: "data_at ?fs 0 = mkfs_root_dir" by (simp add: data_at_def fsec)
  have dw: "dir_wf (data_at ?fs 0)" using mkfs_dir_wf by (simp add: d)
  have f: "find (\<lambda>i. dir_ino mkfs_root_dir i \<noteq> 0 \<and> dir_name mkfs_root_dir i = [46]) [0..<16] = Some 0"
    "find (\<lambda>i. dir_ino mkfs_root_dir i \<noteq> 0 \<and> dir_name mkfs_root_dir i = [46, 46]) [0..<16] = Some 1"
    unfolding find_upt0_Some_iff using mkfs_dir_lookup by auto
  have "pfs_lookup (cstr_lit ''.'') ?fs = 1" "pfs_lookup (cstr_lit ''..'') ?fs = 1"
    unfolding lookup_at [OF wf dw] d dot_names f using mkfs_dir_lookup by simp_all
  moreover have "\<exists>i<16. dir_ino (data_at ?fs 0) i = 0" using mkfs_dir_wf(2) d by (intro exI [of _ 2]) simp
  moreover have "\<exists>n<4096. \<not> ibit ?fs n" using ib [of 2] by (intro exI [of _ 2]) simp
  ultimately show ?thesis using mount wf dw none sbq by blast
qed

text \<open>
  Formatting a working disk and mounting it gives a well-formed, empty file system: the
  mount succeeds, the superblock has the layout of the header file, the root directory holds
  only \<open>.\<close> and \<open>..\<close> and is well-formed, no file is live, and inodes and directory slots are left.
\<close>

theorem pfs_mkfs_mount:
  assumes "ata_ok a"
  shows "\<exists>fs. pfs_mount \<lparr>dev = pfs_mkfs a, sb = s\<rparr> = (True, fs) \<and> fs_wf fs \<and> sb fs = std_sb \<and>
    dir_wf (data_at fs 0) \<and> (\<forall>n. \<not> live_file fs n) \<and>
    pfs_lookup (cstr_lit ''.'') fs = 1 \<and> pfs_lookup (cstr_lit ''..'') fs = 1 \<and>
    (\<exists>i<16. dir_ino (data_at fs 0) i = 0) \<and> (\<exists>n<4096. \<not> ibit fs n)"
  by (rule mkfs_mount_spec [OF assms])

section \<open>Examples\<close>

lemma mkfs_dir_empty: "2 \<le> j \<Longrightarrow> j < 16 \<Longrightarrow> dir_ino mkfs_root_dir j = 0"
proof -
  assume j: "2 \<le> j" "j < 16"
  let ?d = "dir_entry 0 1 (cstr_lit ''.'') zero_sector"
  have l: "length zero_sector = 512" "length ?d = 512" by (simp_all add: dir_entry_view)
  show ?thesis
    unfolding mkfs_dir_entries
    using dir_entry_view(4) [OF l(2), of 1 j] dir_entry_view(4) [OF l(1), of 0 j] j
    by (simp add: dir_ino_def)
qed

lemma formatted_dir: "data_at (formatted a) 0 = mkfs_root_dir"
  by (simp add: data_at_def formatted_sectors)

lemma formatted_wf: "ata_ok a \<Longrightarrow> fs_wf (formatted a)"
  using mkfs_mount_spec [of a std_sb] mount_formatted [of a std_sb] by auto

lemma name_a: "cstr_of (cstr_lit ''a'') = [97]"
  by code_simp

lemma formatted_lookup_none:
  assumes "ata_ok a" "cstr_of name \<noteq> [46]" "cstr_of name \<noteq> [46, 46]"
  shows "pfs_lookup name (formatted a) = -1"
proof -
  have "\<not> (dir_ino mkfs_root_dir j \<noteq> 0 \<and> dir_name mkfs_root_dir j = cstr_of name)" if "j < 16" for j
  proof -
    consider "j = 0" | "j = 1" | "2 \<le> j" by linarith
    then show ?thesis using that assms(2,3) mkfs_dir_lookup mkfs_dir_empty by cases auto
  qed
  then have "find (\<lambda>j. dir_ino mkfs_root_dir j \<noteq> 0 \<and> dir_name mkfs_root_dir j = cstr_of name) [0..<16] = None"
    unfolding find_upt_None_iff by auto
  then show ?thesis
    using lookup_missing [OF formatted_wf [OF assms(1)], of name] mkfs_dir_wf(1)
    by (simp add: formatted_dir del: upt_rec_numeral)
qed

lemma formatted_no_a: "ata_ok a \<Longrightarrow> pfs_lookup (cstr_lit ''a'') (formatted a) = -1"
  by (rule formatted_lookup_none) (simp_all add: name_a)

lemma formatted_free_block: "\<not> bbit (formatted a) 1"
proof -
  have "\<not> bm_test mkfs_block_bitmap 1" by code_simp
  then show ?thesis by (simp add: bbit_def formatted_sectors)
qed

lemma formatted_room: "ata_ok a \<Longrightarrow> (\<exists>i<16. dir_ino (data_at (formatted a) 0) i = 0) \<and> (\<exists>n<4096. \<not> ibit (formatted a) n)"
proof
  assume "ata_ok a"
  show "\<exists>i<16. dir_ino (data_at (formatted a) 0) i = 0"
    using mkfs_dir_wf(2) by (intro exI [of _ 2]) (simp add: formatted_dir)
  have "ibit (formatted a) 2 \<longleftrightarrow> (2 :: nat) < 2" unfolding ibit_def formatted_sectors by (rule mkfs_bits) simp
  then show "\<exists>n<4096. \<not> ibit (formatted a) n" by (intro exI [of _ 2]) simp
qed

theorem pfs_mkfs_mount_witness:
  "\<exists>fs. pfs_mount \<lparr>dev = pfs_mkfs ata_example, sb = std_sb\<rparr> = (True, fs) \<and> fs_wf fs"
  using pfs_mkfs_mount [OF ata_example_ok, of std_sb] by blast


lemma example_file: "\<exists>fs n. fs_wf fs \<and> live_file fs n \<and> n < 4096"
proof -
  note ok = ata_example_ok
  have "dir_wf (data_at (formatted ata_example) 0)" "length (cstr_of (cstr_lit ''a'')) < 28"
    by (simp_all add: formatted_dir mkfs_dir_wf name_a)
  from create_spec [OF formatted_wf [OF ok] this formatted_no_a [OF ok]] formatted_room [OF ok]
  show ?thesis by blast
qed

theorem pfs_write_read_file_witness:
  "\<exists>fs ino ok fs'. pfs_write_file ino [1, 2, 3] 3 fs = (ok, fs') \<and> fs_wf fs' \<and>
     (pfs_read_file ino 100 fs' = Some [1, 2, 3] \<or> (\<forall>c<32768. bbit fs' c))"
proof -
  obtain fs n where fs: "fs_wf fs" "live_file fs n" "n < 4096" using example_file by blast
  then have u: "unat (of_nat n :: u32) = n" by (simp add: unat_of_nat_u32)
  obtain ok fs' where w: "pfs_write_file (of_nat n) [1, 2, 3] 3 fs = (ok, fs')" by fastforce
  have "live_file fs (unat (of_nat n :: u32))" using fs u by simp
  from pfs_write_read_file [OF fs(1) this _ _ w, of 100] w show ?thesis by (cases ok) auto
qed

end
