(* ===== verification/Fifo.thy ===== *)
theory Fifo
  imports Pumps_Prelude
begin

text \<open>
  Ring buffers. The keyboard, the network card and the audio player each keep a circular array
  with a read and a write index and leave one slot unused to tell full from empty.
  \<open>ring_list\<close> is the queue such an array represents; the locale \<open>bounded_fifo\<close> is the contract
  their clients rely on, a queue of bounded length that drops what does not fit.
\<close>

section \<open>Circular arrays\<close>

definition ring_count :: "nat \<Rightarrow> nat \<Rightarrow> nat \<Rightarrow> nat" where
  "ring_count N rd wr = (wr + N - rd) mod N"

definition ring_list :: "nat \<Rightarrow> (nat \<Rightarrow> 'a) \<Rightarrow> nat \<Rightarrow> nat \<Rightarrow> 'a list" where
  "ring_list N buf rd wr = map (\<lambda>i. buf ((rd + i) mod N)) [0..<ring_count N rd wr]"

lemma ring_count_cases:
  "rd < N \<Longrightarrow> wr < N \<Longrightarrow> ring_count N rd wr = (if rd \<le> wr then wr - rd else wr + N - rd)"
  by (auto simp: ring_count_def mod_if)

lemma ring_count_lt: "rd < N \<Longrightarrow> wr < N \<Longrightarrow> ring_count N rd wr < N"
  by (auto simp: ring_count_cases)

lemma length_ring_list [simp]: "length (ring_list N buf rd wr) = ring_count N rd wr"
  by (simp add: ring_list_def)

lemma ring_empty_iff: "rd < N \<Longrightarrow> wr < N \<Longrightarrow> ring_list N buf rd wr = [] \<longleftrightarrow> rd = wr"
  by (auto simp: ring_list_def ring_count_cases)

lemma ring_full_iff:
  "rd < N \<Longrightarrow> wr < N \<Longrightarrow> (wr + 1) mod N = rd \<longleftrightarrow> ring_count N rd wr = N - 1"
  by (cases "wr + 1 = N") (auto simp: ring_count_cases)

lemma ring_count_push:
  assumes "rd < N" "wr < N" "(wr + 1) mod N \<noteq> rd"
  shows "ring_count N rd ((wr + 1) mod N) = Suc (ring_count N rd wr)"
proof (cases "wr + 1 = N")
  case True
  then show ?thesis using assms by (auto simp: ring_count_cases)
next
  case False
  then have "(wr + 1) mod N = wr + 1" "wr + 1 < N" using assms(2) by auto
  then show ?thesis using assms by (auto simp: ring_count_cases)
qed

lemma ring_slot: "rd < N \<Longrightarrow> wr < N \<Longrightarrow> (rd + ring_count N rd wr) mod N = wr"
  by (auto simp: ring_count_cases)

lemma mod_once: "x < 2 * N \<Longrightarrow> x mod N = (if x < N then x else x - N)" for x N :: nat
  by (simp add: le_mod_geq)

lemma ring_slot_neq:
  assumes "rd < N" "wr < N" "i < ring_count N rd wr"
  shows "(rd + i) mod N \<noteq> wr"
proof -
  have "rd + i < 2 * N" using assms ring_count_lt [OF assms(1,2)] by simp
  then show ?thesis
    using assms by (auto simp: mod_once ring_count_cases split: if_splits)
qed

lemma ring_push:
  assumes "rd < N" "wr < N" "(wr + 1) mod N \<noteq> rd"
  shows "ring_list N (buf(wr := c)) rd ((wr + 1) mod N) = ring_list N buf rd wr @ [c]"
proof -
  have "(buf(wr := c)) ((rd + i) mod N) = buf ((rd + i) mod N)" if "i < ring_count N rd wr" for i
    using ring_slot_neq [OF assms(1,2) that] by simp
  then show ?thesis
    unfolding ring_list_def ring_count_push [OF assms] using ring_slot [OF assms(1,2)] by simp
qed

lemma ring_count_pop:
  assumes "rd < N" "wr < N" "rd \<noteq> wr"
  shows "ring_count N rd wr = Suc (ring_count N ((rd + 1) mod N) wr)"
proof (cases "rd + 1 = N")
  case True
  then show ?thesis using assms by (auto simp: ring_count_cases)
next
  case False
  then have "(rd + 1) mod N = rd + 1" "rd + 1 < N" using assms(1) by auto
  then show ?thesis using assms by (auto simp: ring_count_cases)
qed

lemma ring_pop:
  assumes "rd < N" "wr < N" "rd \<noteq> wr"
  shows "ring_list N buf rd wr = buf rd # ring_list N buf ((rd + 1) mod N) wr"
proof -
  have "(rd + Suc i) mod N = ((rd + 1) mod N + i) mod N" for i
    by (simp add: mod_simps)
  then show ?thesis
    unfolding ring_list_def ring_count_pop [OF assms] using assms(1)
    by (simp add: upt_conv_Cons map_Suc_upt [symmetric] del: upt_Suc)
qed

section \<open>The contract\<close>

locale bounded_fifo =
  fixes put :: "'a \<Rightarrow> 's \<Rightarrow> 's"
    and get :: "'s \<Rightarrow> 'a \<times> 's"
    and contents :: "'s \<Rightarrow> 'a list"
    and inv :: "'s \<Rightarrow> bool"
    and storable :: "'a \<Rightarrow> bool"
    and cap :: nat
  assumes put_inv: "inv s \<Longrightarrow> storable c \<Longrightarrow> inv (put c s)"
    and put_contents: "inv s \<Longrightarrow> storable c \<Longrightarrow>
      contents (put c s) = (if length (contents s) < cap then contents s @ [c] else contents s)"
    and get_inv: "inv s \<Longrightarrow> contents s \<noteq> [] \<Longrightarrow> inv (snd (get s))"
    and get_contents: "inv s \<Longrightarrow> contents s \<noteq> [] \<Longrightarrow>
      contents s = fst (get s) # contents (snd (get s))"
    and bounded: "inv s \<Longrightarrow> length (contents s) \<le> cap"
begin

lemma puts_contents:
  assumes "inv s" "\<forall>c \<in> set cs. storable c"
  shows "inv (fold put cs s)"
    and "contents (fold put cs s) = contents s @ take (cap - length (contents s)) cs"
proof -
  have "inv (fold put cs s) \<and> contents (fold put cs s) = contents s @ take (cap - length (contents s)) cs"
    using assms
  proof (induction cs arbitrary: s)
    case (Cons c cs)
    have "inv (put c s)" "contents (put c s) = (if length (contents s) < cap then contents s @ [c] else contents s)"
      using Cons.prems put_inv put_contents by simp_all
    moreover have "length (contents s) \<le> cap" by (rule bounded [OF Cons.prems(1)])
    moreover have "take (cap - length (contents s)) (c # cs) = c # take (cap - Suc (length (contents s))) cs"
      if "length (contents s) < cap" using that by (simp add: Suc_diff_Suc [symmetric])
    ultimately show ?case
      using Cons.IH [of "put c s"] Cons.prems(2) by auto
  qed simp
  then show "inv (fold put cs s)" "contents (fold put cs s) = contents s @ take (cap - length (contents s)) cs"
    by simp_all
qed

fun gets :: "nat \<Rightarrow> 's \<Rightarrow> 'a list \<times> 's" where
  "gets 0 s = ([], s)"
| "gets (Suc n) s = (case get s of (c, s1) \<Rightarrow> case gets n s1 of (cs, s2) \<Rightarrow> (c # cs, s2))"

lemma gets_contents:
  assumes "inv s" "n \<le> length (contents s)"
  shows "fst (gets n s) = take n (contents s)" "contents (snd (gets n s)) = drop n (contents s)"
    "inv (snd (gets n s))"
proof -
  have "fst (gets n s) = take n (contents s) \<and> contents (snd (gets n s)) = drop n (contents s) \<and>
      inv (snd (gets n s))"
    using assms
  proof (induction n arbitrary: s)
    case (Suc n)
    obtain c s1 where g: "get s = (c, s1)" by fastforce
    have ne: "contents s \<noteq> []" using Suc.prems(2) by auto
    then have "contents s = c # contents s1" "inv s1"
      using get_contents [OF Suc.prems(1)] get_inv [OF Suc.prems(1)] g by simp_all
    with Suc.IH [of s1] Suc.prems(2) g show ?case by (cases "gets n s1") auto
  qed simp
  then show "fst (gets n s) = take n (contents s)" "contents (snd (gets n s)) = drop n (contents s)"
    "inv (snd (gets n s))" by simp_all
qed

text \<open>What goes in comes out, in order: nothing is lost as long as it fits.\<close>

lemma fifo_order:
  assumes "inv s" "contents s = []" "\<forall>c \<in> set cs. storable c" "length cs \<le> cap"
  shows "fst (gets (length cs) (fold put cs s)) = cs"
  using puts_contents [OF assms(1,3)] gets_contents(1) [of "fold put cs s" "length cs"] assms(2,4)
  by simp

end

end
