(* ===== verification/Keyboard.thy ===== *)
theory Keyboard
  imports Fifo "HOL-Library.Monad_Syntax"
begin

text \<open>
  The keyboard driver, \<^verbatim>\<open>kernel/arch/i386/keyboard.c\<close> and \<^verbatim>\<open>keyboard.h\<close>: scan code tables, the
  interrupt handler, the input ring and line editing. The handler gets the byte it reads from
  the controller as an argument. The task waiting for input is its address, 0 for none; the
  handler returns the task it passes to \<^verbatim>\<open>task_wake\<close>, if any.
\<close>

section \<open>Key codes\<close>

text \<open>The enumeration of \<^verbatim>\<open>keyboard.h\<close>, with the values C gives it.\<close>

type_synonym keycode = nat

abbreviation (input) KEY_NONE :: keycode where "KEY_NONE \<equiv> 0"
abbreviation (input) KEY_ESCAPE :: keycode where "KEY_ESCAPE \<equiv> 1"
abbreviation (input) KEY_F1 :: keycode where "KEY_F1 \<equiv> 2"
abbreviation (input) KEY_F2 :: keycode where "KEY_F2 \<equiv> 3"
abbreviation (input) KEY_F3 :: keycode where "KEY_F3 \<equiv> 4"
abbreviation (input) KEY_F4 :: keycode where "KEY_F4 \<equiv> 5"
abbreviation (input) KEY_F5 :: keycode where "KEY_F5 \<equiv> 6"
abbreviation (input) KEY_F6 :: keycode where "KEY_F6 \<equiv> 7"
abbreviation (input) KEY_F7 :: keycode where "KEY_F7 \<equiv> 8"
abbreviation (input) KEY_F8 :: keycode where "KEY_F8 \<equiv> 9"
abbreviation (input) KEY_F9 :: keycode where "KEY_F9 \<equiv> 10"
abbreviation (input) KEY_F10 :: keycode where "KEY_F10 \<equiv> 11"
abbreviation (input) KEY_F11 :: keycode where "KEY_F11 \<equiv> 12"
abbreviation (input) KEY_F12 :: keycode where "KEY_F12 \<equiv> 13"
abbreviation (input) KEY_BACKTICK :: keycode where "KEY_BACKTICK \<equiv> 14"
abbreviation (input) KEY_1 :: keycode where "KEY_1 \<equiv> 15"
abbreviation (input) KEY_2 :: keycode where "KEY_2 \<equiv> 16"
abbreviation (input) KEY_3 :: keycode where "KEY_3 \<equiv> 17"
abbreviation (input) KEY_4 :: keycode where "KEY_4 \<equiv> 18"
abbreviation (input) KEY_5 :: keycode where "KEY_5 \<equiv> 19"
abbreviation (input) KEY_6 :: keycode where "KEY_6 \<equiv> 20"
abbreviation (input) KEY_7 :: keycode where "KEY_7 \<equiv> 21"
abbreviation (input) KEY_8 :: keycode where "KEY_8 \<equiv> 22"
abbreviation (input) KEY_9 :: keycode where "KEY_9 \<equiv> 23"
abbreviation (input) KEY_0 :: keycode where "KEY_0 \<equiv> 24"
abbreviation (input) KEY_MINUS :: keycode where "KEY_MINUS \<equiv> 25"
abbreviation (input) KEY_EQUALS :: keycode where "KEY_EQUALS \<equiv> 26"
abbreviation (input) KEY_BACKSPACE :: keycode where "KEY_BACKSPACE \<equiv> 27"
abbreviation (input) KEY_TAB :: keycode where "KEY_TAB \<equiv> 28"
abbreviation (input) KEY_Q :: keycode where "KEY_Q \<equiv> 29"
abbreviation (input) KEY_W :: keycode where "KEY_W \<equiv> 30"
abbreviation (input) KEY_E :: keycode where "KEY_E \<equiv> 31"
abbreviation (input) KEY_R :: keycode where "KEY_R \<equiv> 32"
abbreviation (input) KEY_T :: keycode where "KEY_T \<equiv> 33"
abbreviation (input) KEY_Y :: keycode where "KEY_Y \<equiv> 34"
abbreviation (input) KEY_U :: keycode where "KEY_U \<equiv> 35"
abbreviation (input) KEY_I :: keycode where "KEY_I \<equiv> 36"
abbreviation (input) KEY_O :: keycode where "KEY_O \<equiv> 37"
abbreviation (input) KEY_P :: keycode where "KEY_P \<equiv> 38"
abbreviation (input) KEY_LBRACKET :: keycode where "KEY_LBRACKET \<equiv> 39"
abbreviation (input) KEY_RBRACKET :: keycode where "KEY_RBRACKET \<equiv> 40"
abbreviation (input) KEY_BACKSLASH :: keycode where "KEY_BACKSLASH \<equiv> 41"
abbreviation (input) KEY_CAPSLOCK :: keycode where "KEY_CAPSLOCK \<equiv> 42"
abbreviation (input) KEY_A :: keycode where "KEY_A \<equiv> 43"
abbreviation (input) KEY_S :: keycode where "KEY_S \<equiv> 44"
abbreviation (input) KEY_D :: keycode where "KEY_D \<equiv> 45"
abbreviation (input) KEY_F :: keycode where "KEY_F \<equiv> 46"
abbreviation (input) KEY_G :: keycode where "KEY_G \<equiv> 47"
abbreviation (input) KEY_H :: keycode where "KEY_H \<equiv> 48"
abbreviation (input) KEY_J :: keycode where "KEY_J \<equiv> 49"
abbreviation (input) KEY_K :: keycode where "KEY_K \<equiv> 50"
abbreviation (input) KEY_L :: keycode where "KEY_L \<equiv> 51"
abbreviation (input) KEY_SEMICOLON :: keycode where "KEY_SEMICOLON \<equiv> 52"
abbreviation (input) KEY_QUOTE :: keycode where "KEY_QUOTE \<equiv> 53"
abbreviation (input) KEY_ENTER :: keycode where "KEY_ENTER \<equiv> 54"
abbreviation (input) KEY_LSHIFT :: keycode where "KEY_LSHIFT \<equiv> 55"
abbreviation (input) KEY_Z :: keycode where "KEY_Z \<equiv> 56"
abbreviation (input) KEY_X :: keycode where "KEY_X \<equiv> 57"
abbreviation (input) KEY_C :: keycode where "KEY_C \<equiv> 58"
abbreviation (input) KEY_V :: keycode where "KEY_V \<equiv> 59"
abbreviation (input) KEY_B :: keycode where "KEY_B \<equiv> 60"
abbreviation (input) KEY_N :: keycode where "KEY_N \<equiv> 61"
abbreviation (input) KEY_M :: keycode where "KEY_M \<equiv> 62"
abbreviation (input) KEY_COMMA :: keycode where "KEY_COMMA \<equiv> 63"
abbreviation (input) KEY_PERIOD :: keycode where "KEY_PERIOD \<equiv> 64"
abbreviation (input) KEY_SLASH :: keycode where "KEY_SLASH \<equiv> 65"
abbreviation (input) KEY_RSHIFT :: keycode where "KEY_RSHIFT \<equiv> 66"
abbreviation (input) KEY_LCTRL :: keycode where "KEY_LCTRL \<equiv> 67"
abbreviation (input) KEY_LALT :: keycode where "KEY_LALT \<equiv> 68"
abbreviation (input) KEY_SPACE :: keycode where "KEY_SPACE \<equiv> 69"
abbreviation (input) KEY_RALT :: keycode where "KEY_RALT \<equiv> 70"
abbreviation (input) KEY_RCTRL :: keycode where "KEY_RCTRL \<equiv> 71"
abbreviation (input) KEY_PRINTSCREEN :: keycode where "KEY_PRINTSCREEN \<equiv> 72"
abbreviation (input) KEY_SCROLLLOCK :: keycode where "KEY_SCROLLLOCK \<equiv> 73"
abbreviation (input) KEY_PAUSE :: keycode where "KEY_PAUSE \<equiv> 74"
abbreviation (input) KEY_INSERT :: keycode where "KEY_INSERT \<equiv> 75"
abbreviation (input) KEY_DELETE :: keycode where "KEY_DELETE \<equiv> 76"
abbreviation (input) KEY_HOME :: keycode where "KEY_HOME \<equiv> 77"
abbreviation (input) KEY_END :: keycode where "KEY_END \<equiv> 78"
abbreviation (input) KEY_PAGEUP :: keycode where "KEY_PAGEUP \<equiv> 79"
abbreviation (input) KEY_PAGEDOWN :: keycode where "KEY_PAGEDOWN \<equiv> 80"
abbreviation (input) KEY_UP :: keycode where "KEY_UP \<equiv> 81"
abbreviation (input) KEY_DOWN :: keycode where "KEY_DOWN \<equiv> 82"
abbreviation (input) KEY_LEFT :: keycode where "KEY_LEFT \<equiv> 83"
abbreviation (input) KEY_RIGHT :: keycode where "KEY_RIGHT \<equiv> 84"
abbreviation (input) KEY_NUMLOCK :: keycode where "KEY_NUMLOCK \<equiv> 85"
abbreviation (input) KEY_KP_SLASH :: keycode where "KEY_KP_SLASH \<equiv> 86"
abbreviation (input) KEY_KP_ASTERISK :: keycode where "KEY_KP_ASTERISK \<equiv> 87"
abbreviation (input) KEY_KP_MINUS :: keycode where "KEY_KP_MINUS \<equiv> 88"
abbreviation (input) KEY_KP_PLUS :: keycode where "KEY_KP_PLUS \<equiv> 89"
abbreviation (input) KEY_KP_ENTER :: keycode where "KEY_KP_ENTER \<equiv> 90"
abbreviation (input) KEY_KP_PERIOD :: keycode where "KEY_KP_PERIOD \<equiv> 91"
abbreviation (input) KEY_KP_0 :: keycode where "KEY_KP_0 \<equiv> 92"
abbreviation (input) KEY_KP_1 :: keycode where "KEY_KP_1 \<equiv> 93"
abbreviation (input) KEY_KP_2 :: keycode where "KEY_KP_2 \<equiv> 94"
abbreviation (input) KEY_KP_3 :: keycode where "KEY_KP_3 \<equiv> 95"
abbreviation (input) KEY_KP_4 :: keycode where "KEY_KP_4 \<equiv> 96"
abbreviation (input) KEY_KP_5 :: keycode where "KEY_KP_5 \<equiv> 97"
abbreviation (input) KEY_KP_6 :: keycode where "KEY_KP_6 \<equiv> 98"
abbreviation (input) KEY_KP_7 :: keycode where "KEY_KP_7 \<equiv> 99"
abbreviation (input) KEY_KP_8 :: keycode where "KEY_KP_8 \<equiv> 100"
abbreviation (input) KEY_KP_9 :: keycode where "KEY_KP_9 \<equiv> 101"
abbreviation (input) KEY_LGUI :: keycode where "KEY_LGUI \<equiv> 102"
abbreviation (input) KEY_RGUI :: keycode where "KEY_RGUI \<equiv> 103"
abbreviation (input) KEY_MENU :: keycode where "KEY_MENU \<equiv> 104"
abbreviation (input) KEY_MAX :: keycode where "KEY_MAX \<equiv> 105"

definition scancode_to_keycode :: "keycode list" where
  "scancode_to_keycode =
    [KEY_NONE, KEY_ESCAPE, KEY_1, KEY_2, KEY_3, KEY_4,
     KEY_5, KEY_6, KEY_7, KEY_8, KEY_9, KEY_0,
     KEY_MINUS, KEY_EQUALS, KEY_BACKSPACE, KEY_TAB, KEY_Q, KEY_W,
     KEY_E, KEY_R, KEY_T, KEY_Y, KEY_U, KEY_I,
     KEY_O, KEY_P, KEY_LBRACKET, KEY_RBRACKET, KEY_ENTER, KEY_LCTRL,
     KEY_A, KEY_S, KEY_D, KEY_F, KEY_G, KEY_H,
     KEY_J, KEY_K, KEY_L, KEY_SEMICOLON, KEY_QUOTE, KEY_BACKTICK,
     KEY_LSHIFT, KEY_BACKSLASH, KEY_Z, KEY_X, KEY_C, KEY_V,
     KEY_B, KEY_N, KEY_M, KEY_COMMA, KEY_PERIOD, KEY_SLASH,
     KEY_RSHIFT, KEY_KP_ASTERISK, KEY_LALT, KEY_SPACE, KEY_CAPSLOCK, KEY_F1,
     KEY_F2, KEY_F3, KEY_F4, KEY_F5, KEY_F6, KEY_F7,
     KEY_F8, KEY_F9, KEY_F10, KEY_NUMLOCK, KEY_SCROLLLOCK, KEY_KP_7,
     KEY_KP_8, KEY_KP_9, KEY_KP_MINUS, KEY_KP_4, KEY_KP_5, KEY_KP_6,
     KEY_KP_PLUS, KEY_KP_1, KEY_KP_2, KEY_KP_3, KEY_KP_0, KEY_KP_PERIOD,
     KEY_NONE, KEY_NONE, KEY_NONE, KEY_F11, KEY_F12]
    @ replicate 39 KEY_NONE"

definition extended_scancode_to_keycode :: "keycode list" where
  "extended_scancode_to_keycode =
    [KEY_NONE, KEY_NONE, KEY_NONE, KEY_NONE, KEY_NONE, KEY_NONE,
     KEY_NONE, KEY_NONE, KEY_NONE, KEY_NONE, KEY_NONE, KEY_NONE,
     KEY_NONE, KEY_NONE, KEY_NONE, KEY_NONE, KEY_NONE, KEY_NONE,
     KEY_NONE, KEY_NONE, KEY_NONE, KEY_NONE, KEY_NONE, KEY_NONE,
     KEY_NONE, KEY_NONE, KEY_NONE, KEY_NONE, KEY_KP_ENTER, KEY_RCTRL,
     KEY_NONE, KEY_NONE, KEY_NONE, KEY_NONE, KEY_NONE, KEY_NONE,
     KEY_NONE, KEY_NONE, KEY_NONE, KEY_NONE, KEY_NONE, KEY_NONE,
     KEY_NONE, KEY_NONE, KEY_NONE, KEY_NONE, KEY_NONE, KEY_NONE,
     KEY_NONE, KEY_NONE, KEY_NONE, KEY_NONE, KEY_NONE, KEY_KP_SLASH,
     KEY_NONE, KEY_NONE, KEY_RALT, KEY_NONE, KEY_NONE, KEY_NONE,
     KEY_NONE, KEY_NONE, KEY_NONE, KEY_NONE, KEY_NONE, KEY_NONE,
     KEY_NONE, KEY_NONE, KEY_NONE, KEY_NONE, KEY_NONE, KEY_HOME,
     KEY_UP, KEY_PAGEUP, KEY_NONE, KEY_LEFT, KEY_NONE, KEY_RIGHT,
     KEY_NONE, KEY_END, KEY_DOWN, KEY_PAGEDOWN, KEY_INSERT, KEY_DELETE,
     KEY_NONE, KEY_NONE, KEY_NONE, KEY_NONE, KEY_NONE, KEY_NONE,
     KEY_NONE, KEY_LGUI, KEY_RGUI, KEY_MENU]
    @ replicate 34 KEY_NONE"

definition keymap_normal_table :: "(keycode \<times> u8) list" where
  "keymap_normal_table =
    [(KEY_NONE, 0), (KEY_ESCAPE, 27), (KEY_BACKTICK, 96), (KEY_1, 49), (KEY_2, 50),
     (KEY_3, 51), (KEY_4, 52), (KEY_5, 53), (KEY_6, 54), (KEY_7, 55),
     (KEY_8, 56), (KEY_9, 57), (KEY_0, 48), (KEY_MINUS, 45), (KEY_EQUALS, 61),
     (KEY_BACKSPACE, 8), (KEY_TAB, 9), (KEY_Q, 113), (KEY_W, 119), (KEY_E, 101),
     (KEY_R, 114), (KEY_T, 116), (KEY_Y, 121), (KEY_U, 117), (KEY_I, 105),
     (KEY_O, 111), (KEY_P, 112), (KEY_LBRACKET, 91), (KEY_RBRACKET, 93), (KEY_BACKSLASH, 92),
     (KEY_A, 97), (KEY_S, 115), (KEY_D, 100), (KEY_F, 102), (KEY_G, 103),
     (KEY_H, 104), (KEY_J, 106), (KEY_K, 107), (KEY_L, 108), (KEY_SEMICOLON, 59),
     (KEY_QUOTE, 39), (KEY_ENTER, 10), (KEY_Z, 122), (KEY_X, 120), (KEY_C, 99),
     (KEY_V, 118), (KEY_B, 98), (KEY_N, 110), (KEY_M, 109), (KEY_COMMA, 44),
     (KEY_PERIOD, 46), (KEY_SLASH, 47), (KEY_SPACE, 32), (KEY_KP_SLASH, 47), (KEY_KP_ASTERISK, 42),
     (KEY_KP_MINUS, 45), (KEY_KP_PLUS, 43), (KEY_KP_ENTER, 10), (KEY_KP_PERIOD, 46), (KEY_KP_0, 48),
     (KEY_KP_1, 49), (KEY_KP_2, 50), (KEY_KP_3, 51), (KEY_KP_4, 52), (KEY_KP_5, 53),
     (KEY_KP_6, 54), (KEY_KP_7, 55), (KEY_KP_8, 56), (KEY_KP_9, 57)]"

definition keymap_normal :: "keycode \<Rightarrow> u8" where
  "keymap_normal k = (case map_of keymap_normal_table k of Some c \<Rightarrow> c | None \<Rightarrow> 0)"

definition keymap_shifted_table :: "(keycode \<times> u8) list" where
  "keymap_shifted_table =
    [(KEY_NONE, 0), (KEY_ESCAPE, 27), (KEY_BACKTICK, 126), (KEY_1, 33), (KEY_2, 64),
     (KEY_3, 35), (KEY_4, 36), (KEY_5, 37), (KEY_6, 94), (KEY_7, 38),
     (KEY_8, 42), (KEY_9, 40), (KEY_0, 41), (KEY_MINUS, 95), (KEY_EQUALS, 43),
     (KEY_BACKSPACE, 8), (KEY_TAB, 9), (KEY_Q, 81), (KEY_W, 87), (KEY_E, 69),
     (KEY_R, 82), (KEY_T, 84), (KEY_Y, 89), (KEY_U, 85), (KEY_I, 73),
     (KEY_O, 79), (KEY_P, 80), (KEY_LBRACKET, 123), (KEY_RBRACKET, 125), (KEY_BACKSLASH, 124),
     (KEY_A, 65), (KEY_S, 83), (KEY_D, 68), (KEY_F, 70), (KEY_G, 71),
     (KEY_H, 72), (KEY_J, 74), (KEY_K, 75), (KEY_L, 76), (KEY_SEMICOLON, 58),
     (KEY_QUOTE, 34), (KEY_ENTER, 10), (KEY_Z, 90), (KEY_X, 88), (KEY_C, 67),
     (KEY_V, 86), (KEY_B, 66), (KEY_N, 78), (KEY_M, 77), (KEY_COMMA, 60),
     (KEY_PERIOD, 62), (KEY_SLASH, 63), (KEY_SPACE, 32), (KEY_KP_SLASH, 47), (KEY_KP_ASTERISK, 42),
     (KEY_KP_MINUS, 45), (KEY_KP_PLUS, 43), (KEY_KP_ENTER, 10), (KEY_KP_PERIOD, 46), (KEY_KP_0, 48),
     (KEY_KP_1, 49), (KEY_KP_2, 50), (KEY_KP_3, 51), (KEY_KP_4, 52), (KEY_KP_5, 53),
     (KEY_KP_6, 54), (KEY_KP_7, 55), (KEY_KP_8, 56), (KEY_KP_9, 57)]"

definition keymap_shifted :: "keycode \<Rightarrow> u8" where
  "keymap_shifted k = (case map_of keymap_shifted_table k of Some c \<Rightarrow> c | None \<Rightarrow> 0)"

section \<open>State and operations\<close>

abbreviation (input) INPUT_BUFFER_SIZE :: nat where "INPUT_BUFFER_SIZE \<equiv> 256"

record keyboard =
  key_states :: "keycode \<Rightarrow> bool"
  capslock_active :: bool
  numlock_active :: bool
  scrolllock_active :: bool
  extended_scancode :: bool
  input_buffer :: "nat \<Rightarrow> u8"
  buffer_head :: nat
  buffer_tail :: nat
  keyboard_waiter :: u32

definition is_letter_key :: "keycode \<Rightarrow> bool" where
  "is_letter_key key \<longleftrightarrow> key \<in> set
     [KEY_A, KEY_B, KEY_C, KEY_D, KEY_E, KEY_F, KEY_G, KEY_H, KEY_I, KEY_J, KEY_K, KEY_L, KEY_M,
      KEY_N, KEY_O, KEY_P, KEY_Q, KEY_R, KEY_S, KEY_T, KEY_U, KEY_V, KEY_W, KEY_X, KEY_Y, KEY_Z]"

definition keycode_to_ascii :: "keycode \<Rightarrow> keyboard \<Rightarrow> u8" where
  "keycode_to_ascii key k =
     (if key \<ge> KEY_MAX then 0
      else let shift = key_states k KEY_LSHIFT \<or> key_states k KEY_RSHIFT;
               use_shifted = (if is_letter_key key \<and> capslock_active k then \<not> shift else shift)
           in if use_shifted then keymap_shifted key else keymap_normal key)"

definition buffer_put :: "u8 \<Rightarrow> keyboard \<Rightarrow> keyboard" where
  "buffer_put c k =
     (let next_head = (buffer_head k + 1) mod INPUT_BUFFER_SIZE in
      if next_head = buffer_tail k then k
      else k\<lparr>input_buffer := (input_buffer k)(buffer_head k := c), buffer_head := next_head\<rparr>)"

definition buffer_get :: "keyboard \<Rightarrow> u8 \<times> keyboard" where
  "buffer_get k =
     (if buffer_head k = buffer_tail k then (0, k)
      else (input_buffer k (buffer_tail k),
            k\<lparr>buffer_tail := (buffer_tail k + 1) mod INPUT_BUFFER_SIZE\<rparr>))"

definition buffer_has_data :: "keyboard \<Rightarrow> bool" where
  "buffer_has_data k \<longleftrightarrow> buffer_head k \<noteq> buffer_tail k"

text \<open>The three steps of the handler after the prefixes: look the key up, record it, type it.\<close>

definition lookup_keycode :: "u8 \<Rightarrow> keyboard \<Rightarrow> keycode \<times> keyboard" where
  "lookup_keycode sc k =
     (if extended_scancode k
      then (extended_scancode_to_keycode ! unat sc, k\<lparr>extended_scancode := False\<rparr>)
      else (scancode_to_keycode ! unat sc, k))"

definition toggle_locks :: "keycode \<Rightarrow> keyboard \<Rightarrow> keyboard" where
  "toggle_locks key k =
     (if key = KEY_CAPSLOCK then k\<lparr>capslock_active := \<not> capslock_active k\<rparr>
      else if key = KEY_NUMLOCK then k\<lparr>numlock_active := \<not> numlock_active k\<rparr>
      else if key = KEY_SCROLLLOCK then k\<lparr>scrolllock_active := \<not> scrolllock_active k\<rparr>
      else k)"

definition keyboard_irq_handler :: "u8 \<Rightarrow> keyboard \<Rightarrow> u32 option \<times> keyboard" where
  "keyboard_irq_handler scancode k =
     (if scancode = 0xE0 then (None, k\<lparr>extended_scancode := True\<rparr>)
      else if scancode = 0xE1 then (None, k)
      else let released = scancode AND 0x80 \<noteq> 0;
               sc = scancode AND 0x7F
           in case lookup_keycode sc k of (keycode, k) \<Rightarrow>
                let k = (if keycode \<noteq> KEY_NONE \<and> keycode < KEY_MAX
                         then k\<lparr>key_states := (key_states k)(keycode := \<not> released)\<rparr> else k)
                in if released then (None, k)
                   else let k = toggle_locks keycode k;
                            ascii = keycode_to_ascii keycode k
                        in if ascii = 0 then (None, k)
                           else let k = buffer_put ascii k
                                in if keyboard_waiter k \<noteq> 0
                                   then (Some (keyboard_waiter k), k\<lparr>keyboard_waiter := 0\<rparr>)
                                   else (None, k))"

definition keyboard_set_waiter :: "u32 \<Rightarrow> keyboard \<Rightarrow> keyboard" where
  "keyboard_set_waiter t k = k\<lparr>keyboard_waiter := t\<rparr>"

text \<open>The part of \<^verbatim>\<open>keyboard_init\<close> that touches the driver's state.\<close>

definition keyboard_init :: "keyboard \<Rightarrow> keyboard" where
  "keyboard_init k = k\<lparr>key_states := (\<lambda>i. if i < KEY_MAX then False else key_states k i),
     buffer_head := 0, buffer_tail := 0\<rparr>"

definition keyboard_getchar_nonblock :: "keyboard \<Rightarrow> u8 \<times> keyboard" where
  "keyboard_getchar_nonblock k = buffer_get k"

text \<open>\<^verbatim>\<open>keyboard_getchar\<close> halts while there is no data: \<open>None\<close>.\<close>

definition keyboard_getchar :: "keyboard \<Rightarrow> (u8 \<times> keyboard) option" where
  "keyboard_getchar k = (if buffer_has_data k then Some (buffer_get k) else None)"

definition keyboard_key_pressed :: "keycode \<Rightarrow> keyboard \<Rightarrow> bool" where
  "keyboard_key_pressed key k \<longleftrightarrow> \<not> key \<ge> KEY_MAX \<and> key_states k key"

definition keyboard_shift_pressed :: "keyboard \<Rightarrow> bool" where
  "keyboard_shift_pressed k \<longleftrightarrow> key_states k KEY_LSHIFT \<or> key_states k KEY_RSHIFT"

definition keyboard_crtl_pressed :: "keyboard \<Rightarrow> bool" where
  "keyboard_crtl_pressed k \<longleftrightarrow> key_states k KEY_LCTRL \<or> key_states k KEY_RCTRL"

definition keyboard_alt_pressed :: "keyboard \<Rightarrow> bool" where
  "keyboard_alt_pressed k \<longleftrightarrow> key_states k KEY_LALT \<or> key_states k KEY_RALT"

definition keyboard_capslock_active :: "keyboard \<Rightarrow> bool" where
  "keyboard_capslock_active k \<longleftrightarrow> capslock_active k"

text \<open>
  \<^verbatim>\<open>keyboard_readline\<close> over the characters that successive \<^verbatim>\<open>keyboard_getchar\<close> calls return: the
  line, what is echoed and the characters not consumed; \<open>None\<close> while it waits for more. \<open>n\<close> is
  \<^verbatim>\<open>max_length - 1\<close>.
\<close>

fun readline_loop :: "nat \<Rightarrow> u8 list \<Rightarrow> u8 list \<Rightarrow> u8 list \<Rightarrow> (u8 list \<times> u8 list \<times> u8 list) option" where
  "readline_loop n buf echo cs =
     (if \<not> length buf < n then Some (buf, echo, cs)
      else case cs of
        [] \<Rightarrow> None
      | c # cs \<Rightarrow>
          if c = 10 then Some (buf, echo @ [10], cs)
          else if c = 8 then
            (if buf \<noteq> [] then readline_loop n (butlast buf) (echo @ [8, 32, 8]) cs
             else readline_loop n buf echo cs)
          else if 32 \<le> c \<and> c < 127 then readline_loop n (buf @ [c]) (echo @ [c]) cs
          else readline_loop n buf echo cs)"

declare readline_loop.simps [simp del]

definition keyboard_readline :: "nat \<Rightarrow> u8 list \<Rightarrow> (u8 list \<times> u8 list \<times> u8 list) option" where
  "keyboard_readline max_length cs = readline_loop (max_length - 1) [] [] cs"

section \<open>The input ring is a queue\<close>

definition kbd_inv :: "keyboard \<Rightarrow> bool" where
  "kbd_inv k \<longleftrightarrow> buffer_head k < 256 \<and> buffer_tail k < 256"

definition kbd_queue :: "keyboard \<Rightarrow> u8 list" where
  "kbd_queue k = ring_list 256 (input_buffer k) (buffer_tail k) (buffer_head k)"

interpretation kbd: bounded_fifo buffer_put buffer_get kbd_queue kbd_inv "\<lambda>_. True" 255
proof unfold_locales
  fix s :: keyboard and c assume inv: "kbd_inv s"
  then have b: "buffer_tail s < 256" "buffer_head s < 256" by (simp_all add: kbd_inv_def)
  show "kbd_inv (buffer_put c s)" using inv by (simp add: kbd_inv_def buffer_put_def Let_def)
  show "kbd_queue (buffer_put c s) = (if length (kbd_queue s) < 255 then kbd_queue s @ [c] else kbd_queue s)"
    using ring_push [OF b, of "input_buffer s" c] ring_full_iff [OF b] ring_count_lt [OF b]
    by (auto simp: buffer_put_def kbd_queue_def Let_def)
  show "length (kbd_queue s) \<le> 255" using ring_count_lt [OF b] by (simp add: kbd_queue_def)
  assume ne: "kbd_queue s \<noteq> []"
  then have d: "buffer_tail s \<noteq> buffer_head s" using ring_empty_iff [OF b, of "input_buffer s"] by (simp add: kbd_queue_def)
  then show "kbd_inv (snd (buffer_get s))" using inv by (auto simp: kbd_inv_def buffer_get_def)
  show "kbd_queue s = fst (buffer_get s) # kbd_queue (snd (buffer_get s))"
    using d ring_pop [OF b d] by (simp add: buffer_get_def kbd_queue_def)
qed

lemma buffer_put_frame [simp]:
  "key_states (buffer_put c k) = key_states k" "capslock_active (buffer_put c k) = capslock_active k"
  "keyboard_waiter (buffer_put c k) = keyboard_waiter k" "extended_scancode (buffer_put c k) = extended_scancode k"
  "numlock_active (buffer_put c k) = numlock_active k" "scrolllock_active (buffer_put c k) = scrolllock_active k"
  by (simp_all add: buffer_put_def Let_def)

section \<open>Tables\<close>

lemma table_lengths: "length scancode_to_keycode = 128" "length extended_scancode_to_keycode = 128"
  by (simp_all add: scancode_to_keycode_def extended_scancode_to_keycode_def)

lemma table_entries:
  "list_all (\<lambda>x. x < KEY_MAX) scancode_to_keycode" "list_all (\<lambda>x. x < KEY_MAX) extended_scancode_to_keycode"
  by (simp_all add: scancode_to_keycode_def extended_scancode_to_keycode_def list_all_iff)

lemma scancode_index: "unat (sc AND 0x7F :: u8) < 128"
proof -
  have "sc AND 0x7F = take_bit 7 sc" by (simp add: take_bit_eq_mask mask_eq_exp_minus_1)
  moreover have "unat (take_bit 7 sc) = take_bit 7 (unat sc)" by (rule unsigned_take_bit_eq)
  ultimately show ?thesis using take_bit_nat_less_exp [of 7 "unat sc"] by simp
qed

lemma lookup_keycode_bound:
  "lookup_keycode (sc AND 0x7F) k = (key, k') \<Longrightarrow> key < KEY_MAX"
  using scancode_index [of sc] table_entries table_lengths
  by (auto simp: lookup_keycode_def list_all_length split: if_splits)

section \<open>What is typed\<close>

text \<open>
  The character a scan code types in a state, as a list of length at most one: a function of
  the modifier state alone, not of the ring.
\<close>

definition pressed :: "u8 \<Rightarrow> keyboard \<Rightarrow> keycode \<times> keyboard" where
  "pressed sc k = (case lookup_keycode (sc AND 0x7F) k of (key, k) \<Rightarrow>
     (key, toggle_locks key (if key \<noteq> KEY_NONE \<and> key < KEY_MAX
                             then k\<lparr>key_states := (key_states k)(key := True)\<rparr> else k)))"

definition typed :: "u8 \<Rightarrow> keyboard \<Rightarrow> u8 list" where
  "typed sc k =
     (if sc = 0xE0 \<or> sc = 0xE1 \<or> sc AND 0x80 \<noteq> 0 then []
      else case pressed sc k of (key, k') \<Rightarrow>
        if keycode_to_ascii key k' = 0 then [] else [keycode_to_ascii key k'])"

fun typed_seq :: "u8 list \<Rightarrow> keyboard \<Rightarrow> u8 list" where
  "typed_seq [] k = []"
| "typed_seq (sc # scs) k = typed sc k @ typed_seq scs (snd (keyboard_irq_handler sc k))"

definition run_scancodes :: "u8 list \<Rightarrow> keyboard \<Rightarrow> keyboard" where
  "run_scancodes scs k = fold (\<lambda>sc k. snd (keyboard_irq_handler sc k)) scs k"

lemma kbd_queue_cong:
  "input_buffer k = input_buffer k' \<Longrightarrow> buffer_head k = buffer_head k' \<Longrightarrow> buffer_tail k = buffer_tail k' \<Longrightarrow>
   kbd_queue k = kbd_queue k' \<and> kbd_inv k = kbd_inv k'"
  by (simp add: kbd_queue_def kbd_inv_def)

lemma pressed_ring:
  assumes "pressed sc k = (key, k')"
  shows "kbd_queue k' = kbd_queue k \<and> kbd_inv k' = kbd_inv k \<and> keyboard_waiter k' = keyboard_waiter k"
proof -
  have "input_buffer k' = input_buffer k \<and> buffer_head k' = buffer_head k \<and> buffer_tail k' = buffer_tail k \<and>
      keyboard_waiter k' = keyboard_waiter k"
    using assms by (auto simp: pressed_def lookup_keycode_def toggle_locks_def split: if_splits)
  then show ?thesis using kbd_queue_cong by metis
qed

text \<open>The handler on a key press, in terms of \<open>pressed\<close>.\<close>

lemma handler_press:
  assumes "sc \<noteq> 0xE0" "sc \<noteq> 0xE1" "sc AND 0x80 = 0" "pressed sc k = (key, k')"
  shows "keyboard_irq_handler sc k =
    (if keycode_to_ascii key k' = 0 then (None, k')
     else let q = buffer_put (keycode_to_ascii key k') k'
          in if keyboard_waiter q \<noteq> 0 then (Some (keyboard_waiter q), q\<lparr>keyboard_waiter := 0\<rparr>) else (None, q))"
proof -
  obtain key0 k0 where "lookup_keycode (sc AND 0x7F) k = (key0, k0)" by fastforce
  moreover from this have "key0 = key" "k' = toggle_locks key (if key \<noteq> KEY_NONE \<and> key < KEY_MAX
      then k0\<lparr>key_states := (key_states k0)(key := True)\<rparr> else k0)"
    using assms(4) by (auto simp: pressed_def)
  ultimately show ?thesis
    using assms(1-3) unfolding keyboard_irq_handler_def
    by (simp add: Let_def split del: if_split cong: if_cong)
qed

lemma handler_silent:
  assumes "sc = 0xE0 \<or> sc = 0xE1 \<or> sc AND 0x80 \<noteq> 0"
  shows "kbd_queue (snd (keyboard_irq_handler sc k)) = kbd_queue k \<and>
    kbd_inv (snd (keyboard_irq_handler sc k)) = kbd_inv k \<and> fst (keyboard_irq_handler sc k) = None"
proof -
  obtain key k0 where lk: "lookup_keycode (sc AND 0x7F) k = (key, k0)" by fastforce
  then have "input_buffer k0 = input_buffer k" "buffer_head k0 = buffer_head k" "buffer_tail k0 = buffer_tail k"
    by (auto simp: lookup_keycode_def split: if_splits)
  then have q: "kbd_queue k0 = kbd_queue k" "kbd_inv k0 = kbd_inv k"
    "kbd_queue (k0\<lparr>key_states := f\<rparr>) = kbd_queue k" "kbd_inv (k0\<lparr>key_states := f\<rparr>) = kbd_inv k" for f
    by (simp_all add: kbd_queue_def kbd_inv_def)
  consider "sc = 0xE0" | "sc = 0xE1" | "sc \<noteq> 0xE0" "sc \<noteq> 0xE1" "sc AND 0x80 \<noteq> 0" using assms by blast
  then show ?thesis
  proof cases
    case 3
    then show ?thesis using lk q by (simp add: keyboard_irq_handler_def Let_def)
  qed (simp_all add: keyboard_irq_handler_def kbd_queue_def kbd_inv_def)
qed

lemma handler_queue:
  assumes "kbd_inv k"
  shows "kbd_inv (snd (keyboard_irq_handler sc k))"
    and "kbd_queue (snd (keyboard_irq_handler sc k)) =
      kbd_queue k @ take (255 - length (kbd_queue k)) (typed sc k)"
    and "fst (keyboard_irq_handler sc k) =
      (if typed sc k \<noteq> [] \<and> keyboard_waiter k \<noteq> 0 then Some (keyboard_waiter k) else None)"
proof -
  let ?h = "keyboard_irq_handler sc k"
  have "kbd_inv (snd ?h) \<and> kbd_queue (snd ?h) = kbd_queue k @ take (255 - length (kbd_queue k)) (typed sc k) \<and>
      fst ?h = (if typed sc k \<noteq> [] \<and> keyboard_waiter k \<noteq> 0 then Some (keyboard_waiter k) else None)"
  proof (cases "sc = 0xE0 \<or> sc = 0xE1 \<or> sc AND 0x80 \<noteq> 0")
    case True
    then show ?thesis using handler_silent [OF True, of k] assms by (auto simp: typed_def)
  next
    case False
    obtain key k' where p: "pressed sc k = (key, k')" by fastforce
    note r = pressed_ring [OF p] and h = handler_press [OF _ _ _ p]
    let ?c = "keycode_to_ascii key k'" and ?q = "buffer_put (keycode_to_ascii key k') k'"
    have q: "kbd_inv ?q" "kbd_queue ?q = kbd_queue k @ take (255 - length (kbd_queue k)) [?c]"
      using kbd.put_inv [of k' ?c] kbd.put_contents [of k' ?c] kbd.bounded [of k'] r assms
      by (auto simp: take_Cons')
    have "kbd_inv (?q\<lparr>keyboard_waiter := 0\<rparr>) = kbd_inv ?q" "kbd_queue (?q\<lparr>keyboard_waiter := 0\<rparr>) = kbd_queue ?q"
      by (simp_all add: kbd_inv_def kbd_queue_def)
    with False h p q r assms show ?thesis by (simp add: typed_def Let_def)
  qed
  then show "kbd_inv (snd ?h)" "kbd_queue (snd ?h) = kbd_queue k @ take (255 - length (kbd_queue k)) (typed sc k)"
    "fst ?h = (if typed sc k \<noteq> [] \<and> keyboard_waiter k \<noteq> 0 then Some (keyboard_waiter k) else None)"
    by simp_all
qed

section \<open>Properties\<close>


definition keyboard_example :: keyboard where
  "keyboard_example = \<lparr>key_states = (\<lambda>_. False), capslock_active = False, numlock_active = True,
     scrolllock_active = False, extended_scancode = False, input_buffer = (\<lambda>_. 0), buffer_head = 0,
     buffer_tail = 0, keyboard_waiter = 0\<rparr>"

lemma keyboard_example_typed:
  "typed_seq [0x2A, 0x1E, 0xAA, 0x30, 0x3A, 0x2E, 0xE0, 0x48] keyboard_example = [65, 98, 67]"
  by code_simp


text \<open>
  Caps Lock and Shift cancel each other on letters: the lower-case letter of the key is
  typed when both or neither is active, the upper-case one otherwise; on all other keys
  Caps Lock has no effect.
\<close>

theorem capslock_only_affects_letters:
  "if is_letter_key key
   then keycode_to_ascii key k =
     (if keyboard_shift_pressed k = capslock_active k then keymap_normal key else keymap_normal key - 32)
   else keycode_to_ascii key (k\<lparr>capslock_active := b\<rparr>) = keycode_to_ascii key k"
proof (cases "is_letter_key key")
  case True
  then have "key < KEY_MAX \<and> keymap_shifted key = keymap_normal key - 32"
    by (auto simp: is_letter_key_def keymap_shifted_def keymap_normal_def keymap_shifted_table_def
        keymap_normal_table_def)
  with True show ?thesis by (auto simp: keycode_to_ascii_def keyboard_shift_pressed_def Let_def)
next
  case False
  then show ?thesis by (simp add: keycode_to_ascii_def Let_def)
qed

text \<open>Line editing as a function of the characters alone: backspace removes the last one.\<close>

definition edit1 :: "u8 list \<Rightarrow> u8 \<Rightarrow> u8 list" where
  "edit1 s c = (if c = 8 then butlast s else if 32 \<le> c \<and> c < 127 then s @ [c] else s)"

lemma readline_loop_spec:
  assumes "length buf \<le> n"
  shows "case readline_loop n buf echo cs of
      None \<Rightarrow> 10 \<notin> set cs
    | Some (line, e, rest) \<Rightarrow> \<exists>used. cs = used @ rest \<and> length line \<le> n \<and>
        ((\<exists>body. used = body @ [10] \<and> 10 \<notin> set body \<and> line = foldl edit1 buf body) \<or>
         (10 \<notin> set used \<and> line = foldl edit1 buf used \<and> length line = n))"
  using assms
proof (induction cs arbitrary: buf echo)
  case Nil
  then show ?case by (subst readline_loop.simps) simp
next
  case (Cons c cs)
  show ?case
  proof (cases "length buf < n \<and> c \<noteq> 10")
    case False
    then show ?thesis using Cons.prems by (subst readline_loop.simps) (auto intro!: exI [of _ "[]"])
  next
    case True
    let ?b = "edit1 buf c"
    define e' where "e' = (if c = 8 then if buf \<noteq> [] then echo @ [8, 32, 8] else echo
      else if 32 \<le> c \<and> c < 127 then echo @ [c] else echo)"
    have step: "readline_loop n buf echo (c # cs) = readline_loop n ?b e' cs"
      using True by (subst readline_loop.simps) (auto simp: edit1_def e'_def)
    have "length ?b \<le> n" using True by (auto simp: edit1_def)
    note ih = Cons.IH [OF this, of e']
    show ?thesis
    proof (cases "readline_loop n ?b e' cs")
      case None
      then show ?thesis using ih True step by simp
    next
      case (Some r)
      obtain line e rest where r: "r = (line, e, rest)" by (cases r)
      obtain used where u: "cs = used @ rest" "length line \<le> n"
        "(\<exists>body. used = body @ [10] \<and> 10 \<notin> set body \<and> line = foldl edit1 ?b body) \<or>
         (10 \<notin> set used \<and> line = foldl edit1 ?b used \<and> length line = n)"
        using ih Some r by auto
      from u(3) have "(\<exists>body. c # used = body @ [10] \<and> 10 \<notin> set body \<and> line = foldl edit1 buf body) \<or>
          (10 \<notin> set (c # used) \<and> line = foldl edit1 buf (c # used) \<and> length line = n)"
      proof (elim disjE exE conjE)
        fix body assume "used = body @ [10]" "10 \<notin> set body" "line = foldl edit1 ?b body"
        then show ?thesis using True by (intro disjI1 exI [of _ "c # body"]) simp
      qed (use True in simp)
      then show ?thesis
        using u(1,2) step Some r by (auto intro!: exI [of _ "c # used"])
    qed
  qed
qed

text \<open>
  \<^verbatim>\<open>keyboard_readline\<close> returns once a newline is typed, and what it returns is the edited
  line: the printable characters before the newline with each backspace taking back one
  character, or the first \<^verbatim>\<open>max_length - 1\<close> characters if the buffer fills up before. It never
  writes more than \<^verbatim>\<open>max_length - 1\<close> characters and the terminator.
\<close>

theorem keyboard_readline_correct:
  assumes "10 \<in> set cs" "0 < max_length"
  shows "\<exists>line echo used rest. keyboard_readline max_length cs = Some (line, echo, rest) \<and>
    cs = used @ rest \<and> length line < max_length \<and>
    (used \<noteq> [] \<and> last used = 10 \<and> 10 \<notin> set (butlast used) \<and> line = foldl edit1 [] (butlast used) \<or>
     10 \<notin> set used \<and> line = foldl edit1 [] used \<and> Suc (length line) = max_length)"
proof -
  have spec: "case keyboard_readline max_length cs of
      None \<Rightarrow> 10 \<notin> set cs
    | Some (line, e, rest) \<Rightarrow> \<exists>used. cs = used @ rest \<and> length line \<le> max_length - 1 \<and>
        ((\<exists>body. used = body @ [10] \<and> 10 \<notin> set body \<and> line = foldl edit1 [] body) \<or>
         (10 \<notin> set used \<and> line = foldl edit1 [] used \<and> length line = max_length - 1))"
    unfolding keyboard_readline_def by (rule readline_loop_spec) simp
  then obtain line e rest where k: "keyboard_readline max_length cs = Some (line, e, rest)"
    using assms(1) by (cases "keyboard_readline max_length cs") auto
  from spec have "\<exists>used. cs = used @ rest \<and> length line \<le> max_length - 1 \<and>
      ((\<exists>body. used = body @ [10] \<and> 10 \<notin> set body \<and> line = foldl edit1 [] body) \<or>
       (10 \<notin> set used \<and> line = foldl edit1 [] used \<and> length line = max_length - 1))"
    unfolding k by simp
  then obtain used where "cs = used @ rest" "length line \<le> max_length - 1"
    "(\<exists>body. used = body @ [10] \<and> 10 \<notin> set body \<and> line = foldl edit1 [] body) \<or>
     (10 \<notin> set used \<and> line = foldl edit1 [] used \<and> length line = max_length - 1)" by blast
  with k show ?thesis
    using assms(2) by (intro exI [of _ line] exI [of _ e] exI [of _ used] exI [of _ rest]) auto
qed

theorem keyboard_readline_correct_witness:
  "\<exists>line echo used rest. keyboard_readline 80 [108, 115, 120, 8, 10, 97] = Some (line, echo, rest) \<and>
     [108, 115, 120, 8, 10, 97] = used @ rest"
  using keyboard_readline_correct [of "[108, 115, 120, 8, 10, 97]" 80] by auto

end
