(* ===== verification/Pfs_Vfs.thy ===== *)
theory Pfs_Vfs
  imports Pfs Kheap Keyboard
begin

text \<open>
  The nodes of the virtual file system (\<^verbatim>\<open>kernel/kernel/vfs.h\<close>), the state its back ends share, and
  the first back end, the disk file system (\<^verbatim>\<open>pfs_vfs.c\<close>). A \<^verbatim>\<open>vfs_node_t*\<close> is one of the node objects the kernel has, a \<open>vref\<close>; the objects
  themselves are in the state, so that the one static node all PFS lookups share is shared here
  too. A function pointer is the name of the function it points to. A read returns the bytes
  stored in the caller's buffer, or \<open>None\<close> where the caller is blocked.
\<close>

section \<open>Nodes\<close>

datatype vref = Initrd_root | Initrd_node nat | Pfs_root | Pfs_lookup_node | Console | Keyboard_dev

datatype read_func = Initrd_read | Pfs_vfs_read | Console_read | Keyboard_read
datatype write_func = Pfs_vfs_write | Console_write | Keyboard_write
datatype readdir_func = Initrd_readdir | Pfs_vfs_readdir
datatype finddir_func = Initrd_finddir | Pfs_vfs_finddir
datatype create_func = Pfs_vfs_create

record vfs_node =
  nname :: cstr
  nmask :: u32
  uid :: u32
  gid :: u32
  flags :: u32
  ninode :: u32
  nlength :: u32
  impl :: u32
  read_fn :: "read_func option"
  write_fn :: "write_func option"
  readdir_fn :: "readdir_func option"
  finddir_fn :: "finddir_func option"
  create_fn :: "create_func option"

record dirent =
  dname :: cstr
  dinode :: u32

record initrd_file =
  fname :: cstr
  fdata :: u32
  fsize :: u32

record mount =
  prefix :: cstr
  mroot :: vref
  mused :: bool

record vfs_state =
  vnodes :: "vref \<Rightarrow> vfs_node"
  initrd_files :: "initrd_file list"
  initrd_file_count :: u32
  memory :: "u32 \<Rightarrow> u8"
  vfs_root :: "vref option"
  mounts :: "mount list"
  fs :: pfs
  kheap :: heap
  kbd :: keyboard
  tty_out :: "u8 list"

abbreviation (input) VFS_NAME_MAX :: nat where "VFS_NAME_MAX \<equiv> 64"
abbreviation (input) VFS_FILE :: u32 where "VFS_FILE \<equiv> 1"
abbreviation (input) VFS_DIRECTORY :: u32 where "VFS_DIRECTORY \<equiv> 2"
abbreviation (input) VFS_CHARDEVICE :: u32 where "VFS_CHARDEVICE \<equiv> 3"
abbreviation (input) MAX_MOUNTS :: nat where "MAX_MOUNTS \<equiv> 4"

text \<open>A node cleared by \<^verbatim>\<open>memset(node, 0, sizeof(vfs_node_t))\<close>.\<close>

definition zero_node :: vfs_node where
  "zero_node = \<lparr>nname = [], nmask = 0, uid = 0, gid = 0, flags = 0, ninode = 0, nlength = 0, impl = 0,
     read_fn = None, write_fn = None, readdir_fn = None, finddir_fn = None, create_fn = None\<rparr>"

text \<open>
  \<^verbatim>\<open>strncpy(field, name, n)\<close> into a zeroed or freshly terminated name field: at most \<open>n\<close>
  characters of the string.
\<close>

definition name_copy :: "cstr \<Rightarrow> nat \<Rightarrow> cstr" where
  "name_copy name n = cstr_of (strncpy_bytes name n)"

section \<open>PFS as a VFS back end\<close>

definition pfs_vfs_read :: "vref \<Rightarrow> u32 \<Rightarrow> u32 \<Rightarrow> vfs_state \<Rightarrow> u8 list" where
  "pfs_vfs_read node offset sz s =
     (case pfs_read_file (ninode (vnodes s node)) (512 * 12) (fs s) of
        None \<Rightarrow> []
      | Some tmp \<Rightarrow>
          if unat offset \<ge> length tmp then []
          else let avail = length tmp - unat offset;
                   to_copy = (if unat sz < avail then unat sz else avail)
               in take to_copy (drop (unat offset) tmp))"

lemma chunk_progress: "w < l \<Longrightarrow> b < 512 \<Longrightarrow> l - (w + min (512 - b) (l - w)) < l - (w :: nat)"
  by linarith

text \<open>
  The loop of \<^verbatim>\<open>pfs_write_file_at\<close>. \<open>None\<close> is an access outside the twelve block slots of the
  inode; the inner \<open>None\<close> is \<^verbatim>\<open>return false\<close>.
\<close>

function write_at_loop :: "u32 \<Rightarrow> u8 list \<Rightarrow> u32 \<Rightarrow> nat \<Rightarrow> inode \<Rightarrow> pfs \<Rightarrow> ((inode option) \<times> pfs) option" where
  "write_at_loop off data len written node p =
     (if \<not> written < unat len then Some (Some node, p)
      else let pos = off + of_nat written;
               block_idx = unat (pos div PFS_BLOCK_SIZE);
               block_off = unat (pos mod PFS_BLOCK_SIZE)
           in if block_idx \<ge> PFS_DIRECT_BLOCKS then None
              else case write_slot block_idx node p of
                (None, p) \<Rightarrow> Some (None, p)
              | (Some node, p) \<Rightarrow>
                  (case ata_read_sector (pfs_data_sector (iblocks node ! block_idx) p) (dev p) of
                     None \<Rightarrow> Some (None, p)
                   | Some sector \<Rightarrow>
                       let chunk = min (512 - block_off) (unat len - written);
                           sector = splice sector block_off (slice written chunk data)
                       in case ata_write_sector (pfs_data_sector (iblocks node ! block_idx) p) sector (dev p) of
                            (ok, d) \<Rightarrow>
                              if \<not> ok then Some (None, p\<lparr>dev := d\<rparr>)
                              else write_at_loop off data len (written + chunk) node (p\<lparr>dev := d\<rparr>)))"
  by pat_completeness auto

termination
  by (relation "measure (\<lambda>(off, data, len, written, node, p). unat len - written)")
    (simp_all add: chunk_progress)

declare write_at_loop.simps [simp del]

definition pfs_write_file_at :: "u32 \<Rightarrow> u32 \<Rightarrow> u8 list \<Rightarrow> u32 \<Rightarrow> pfs \<Rightarrow> (bool \<times> pfs) option" where
  "pfs_write_file_at ino off data len p =
     (case pfs_read_inode ino p of
        None \<Rightarrow> Some (False, p)
      | Some node \<Rightarrow>
          if itype node \<noteq> PFS_TYPE_FILE then Some (False, p)
          else let end_pos = off + len in
            if end_pos > of_nat (PFS_DIRECT_BLOCKS * 512) then Some (False, p)
            else (case write_at_loop off data len 0 node p of
                    None \<Rightarrow> None
                  | Some (None, p) \<Rightarrow> Some (False, p)
                  | Some (Some node, p) \<Rightarrow>
                      let node = (if end_pos > isize node then node\<lparr>isize := end_pos\<rparr> else node)
                      in Some (pfs_write_inode ino node p)))"

definition pfs_vfs_write :: "vref \<Rightarrow> u32 \<Rightarrow> u32 \<Rightarrow> u8 list \<Rightarrow> vfs_state \<Rightarrow> (u32 \<times> vfs_state) option" where
  "pfs_vfs_write node offset sz buffer s =
     do {
       (ok, p) \<leftarrow> pfs_write_file_at (ninode (vnodes s node)) offset buffer sz (fs s);
       Some (if ok then sz else 0, s\<lparr>fs := p\<rparr>) }"

definition pfs_make_node :: "vref \<Rightarrow> u32 \<Rightarrow> cstr \<Rightarrow> vfs_state \<Rightarrow> vfs_state" where
  "pfs_make_node node ino name s =
     (let n = zero_node\<lparr>nname := name_copy name (VFS_NAME_MAX - 1), ninode := ino, flags := VFS_FILE,
                        read_fn := Some Pfs_vfs_read, write_fn := Some Pfs_vfs_write\<rparr>;
          n = (case pfs_read_inode ino (fs s) of None \<Rightarrow> n | Some pnode \<Rightarrow> n\<lparr>nlength := isize pnode\<rparr>)
      in s\<lparr>vnodes := (vnodes s)(node := n)\<rparr>)"

definition pfs_vfs_finddir :: "cstr \<Rightarrow> vfs_state \<Rightarrow> vref option \<times> vfs_state" where
  "pfs_vfs_finddir name s =
     (let ino = pfs_lookup name (fs s) in
      if ino < 0 then (None, s)
      else (Some Pfs_lookup_node, pfs_make_node Pfs_lookup_node (of_int ino) name s))"

fun readdir_scan :: "u8 list \<Rightarrow> nat \<Rightarrow> nat \<Rightarrow> nat list \<Rightarrow> dirent option" where
  "readdir_scan sector index count [] = None"
| "readdir_scan sector index count (i # is) =
     (if get32 sector (32 * i) \<noteq> 0 then
        (if count = index
         then Some \<lparr>dname = name_copy (drop (32 * i + 4) sector) 27, dinode = get32 sector (32 * i)\<rparr>
         else readdir_scan sector index (count + 1) is)
      else readdir_scan sector index count is)"

definition pfs_vfs_readdir :: "u32 \<Rightarrow> vfs_state \<Rightarrow> dirent option" where
  "pfs_vfs_readdir index s =
     do {
       root \<leftarrow> pfs_read_inode (pfs_get_root_inode (fs s)) (fs s);
       sector \<leftarrow> ata_read_sector (pfs_data_sector (iblocks root ! 0) (fs s)) (dev (fs s));
       readdir_scan sector (unat index) 0 [0..<16] }"

definition pfs_vfs_create :: "cstr \<Rightarrow> vfs_state \<Rightarrow> vref option \<times> vfs_state" where
  "pfs_vfs_create name s =
     (if pfs_lookup name (fs s) \<ge> 0 then (None, s)
      else case pfs_create name (fs s) of (ino, p) \<Rightarrow>
        let s = s\<lparr>fs := p\<rparr> in
        if ino < 0 then (None, s)
        else (Some Pfs_lookup_node, pfs_make_node Pfs_lookup_node (of_int ino) name s))"

definition pfs_vfs_init :: "vfs_state \<Rightarrow> vref \<times> vfs_state" where
  "pfs_vfs_init s =
     (Pfs_root, s\<lparr>vnodes := (vnodes s)(Pfs_root := zero_node\<lparr>nname := name_copy (cstr_lit ''/'') (VFS_NAME_MAX - 1),
        flags := VFS_DIRECTORY, finddir_fn := Some Pfs_vfs_finddir, readdir_fn := Some Pfs_vfs_readdir,
        create_fn := Some Pfs_vfs_create\<rparr>)\<rparr>)"

section \<open>Writing into a file\<close>

text \<open>The byte of a file at a position, where its block slot is filled.\<close>

definition file_byte :: "pfs \<Rightarrow> inode \<Rightarrow> nat \<Rightarrow> u8" where
  "file_byte p nd k = data_at p (unat (iblocks nd ! (k div 512))) ! (k mod 512)"

definition no_holes :: "inode \<Rightarrow> bool" where
  "no_holes nd \<longleftrightarrow> unat (isize nd) \<le> 6144 \<and> (\<forall>i. 512 * i < unat (isize nd) \<longrightarrow> iblocks nd ! i \<noteq> 0)"

definition contents :: "pfs \<Rightarrow> nat \<Rightarrow> u8 list" where
  "contents p n = map (file_byte p (inode_at p n)) [0..<unat (isize (inode_at p n))]"

lemma block_lt: "nd_ok p nd \<Longrightarrow> i < 12 \<Longrightarrow> iblocks nd ! i \<noteq> 0 \<Longrightarrow> unat (iblocks nd ! i) < 32768"
  using blocks_of_nth [of nd i] by (auto simp: nd_ok_def)

text \<open>One round of the loop: the slot is filled and the bytes of the chunk are replaced.\<close>

lemma write_chunk:
  assumes "fs_ok p1" "nd_ok p1 nd" "i < 12" "iblocks nd ! i \<noteq> 0" "b < 512" "b + length xs \<le> 512"
    and "p2 = set_data (unat (iblocks nd ! i)) (splice (data_at p1 (unat (iblocks nd ! i))) b xs) p1"
    and "k < 6144" "iblocks nd ! (k div 512) \<noteq> 0"
  shows "file_byte p2 nd k =
    (if 512 * i + b \<le> k \<and> k < 512 * i + b + length xs then xs ! (k - (512 * i + b)) else file_byte p1 nd k)"
proof -
  let ?c = "unat (iblocks nd ! i)"
  have c: "?c < 32768" by (rule block_lt [OF assms(2-4)])
  have len: "length (data_at p1 ?c) = 512" using assms(1) by (simp add: data_at_def)
  have k: "k div 512 < 12" "unat (iblocks nd ! (k div 512)) < 32768"
    using assms(8) block_lt [OF assms(2) _ assms(9)] by auto
  show ?thesis
  proof (cases "k div 512 = i")
    case True
    obtain m where m: "k = 512 * i + m" "m < 512" using True by (metis mult_div_mod_eq mod_less_divisor zero_less_numeral)
    then have "file_byte p2 nd k = splice (data_at p1 ?c) b xs ! m"
      using assms(1,6,7) c len by (simp add: file_byte_def)
    then show ?thesis
      using assms(6) len m by (simp add: nth_splice file_byte_def)
  next
    case False
    then have "unat (iblocks nd ! (k div 512)) \<noteq> ?c"
      using assms(2,3,9) k(1) unfolding nd_ok_def word_eq_unat [symmetric] by blast
    moreover have "\<not> (512 * i + b \<le> k \<and> k < 512 * i + b + length xs)" using False assms(6) by auto
    ultimately show ?thesis using assms(1,6,7) c k len by (auto simp: file_byte_def)
  qed
qed

text \<open>
  What a write of the bytes from \<open>lo\<close> to \<open>hi\<close> does to a file: its inode and blocks grow, the
  slots of the range are filled, the range holds the data and every other byte of a filled slot
  is as before.
\<close>

definition written_range :: "pfs \<Rightarrow> inode \<Rightarrow> nat \<Rightarrow> nat \<Rightarrow> (nat \<Rightarrow> u8) \<Rightarrow> pfs \<Rightarrow> inode \<Rightarrow> bool" where
  "written_range p nd lo hi d p' nd' \<longleftrightarrow> extends p nd p' nd' \<and> blocks_of nd \<subseteq> blocks_of nd' \<and>
     (\<forall>i<12. iblocks nd ! i \<noteq> 0 \<longrightarrow> iblocks nd' ! i = iblocks nd ! i) \<and>
     (\<forall>k<6144. lo \<le> k \<and> k < hi \<longrightarrow> iblocks nd' ! (k div 512) \<noteq> 0 \<and> file_byte p' nd' k = d k) \<and>
     (\<forall>k<6144. \<not> (lo \<le> k \<and> k < hi) \<and> iblocks nd ! (k div 512) \<noteq> 0 \<longrightarrow> file_byte p' nd' k = file_byte p nd k)"

lemma written_range_empty: "fs_ok p \<Longrightarrow> nd_ok p nd \<Longrightarrow> hi \<le> lo \<Longrightarrow> written_range p nd lo hi d p nd"
  by (auto simp: written_range_def extends_refl)

lemma written_range_trans:
  assumes "written_range p nd lo mid d p1 nd1" "written_range p1 nd1 mid hi d p2 nd2" "lo \<le> mid" "mid \<le> hi" "hi \<le> 6144"
  shows "written_range p nd lo hi d p2 nd2"
proof -
  note w1 = assms(1) [unfolded written_range_def] and w2 = assms(2) [unfolded written_range_def]
  have k12: "k div 512 < 12" if "k < 6144" for k :: nat using that by simp
  show ?thesis
    unfolding written_range_def
  proof (intro conjI allI impI)
    show "extends p nd p2 nd2" "blocks_of nd \<subseteq> blocks_of nd2" using w1 w2 extends_trans by blast+
    show "iblocks nd2 ! i = iblocks nd ! i" if "i < 12" "iblocks nd ! i \<noteq> 0" for i
      using that w1 w2 by metis
    fix k :: nat assume k: "k < 6144"
    show "iblocks nd2 ! (k div 512) \<noteq> 0" if "lo \<le> k \<and> k < hi"
      using that w1 w2 k k12 [OF k] by (metis not_le)
    show "file_byte p2 nd2 k = d k" if "lo \<le> k \<and> k < hi"
    proof (cases "mid \<le> k")
      case False
      then have "iblocks nd1 ! (k div 512) \<noteq> 0" "file_byte p1 nd1 k = d k" using that w1 k by auto
      then show ?thesis using w2 k False by auto
    qed (use that w2 k in auto)
    show "file_byte p2 nd2 k = file_byte p nd k" if "\<not> (lo \<le> k \<and> k < hi) \<and> iblocks nd ! (k div 512) \<noteq> 0"
    proof -
      have "\<not> (lo \<le> k \<and> k < mid)" "\<not> (mid \<le> k \<and> k < hi)" using that assms(3,4) by auto
      moreover have "iblocks nd1 ! (k div 512) \<noteq> 0" using that w1 k12 [OF k] by metis
      ultimately show ?thesis using that w1 w2 k by metis
    qed
  qed
qed

lemma write_round:
  assumes "fs_ok p" "nd_ok p nd" "bbit p 0" "i < 12" "b < 512" "b + length xs \<le> 512"
  shows "(\<exists>nd1 p1 d. write_slot i nd p = (Some nd1, p1) \<and>
      ata_read_sector (pfs_data_sector (iblocks nd1 ! i) p1) (dev p1) = Some (data_at p1 (unat (iblocks nd1 ! i))) \<and>
      ata_write_sector (pfs_data_sector (iblocks nd1 ! i) p1)
        (splice (data_at p1 (unat (iblocks nd1 ! i))) b xs) (dev p1) = (True, d) \<and>
      written_range p nd (512 * i + b) (512 * i + b + length xs) (\<lambda>k. xs ! (k - (512 * i + b))) (p1\<lparr>dev := d\<rparr>) nd1) \<or>
    (write_slot i nd p = (None, p) \<and> (\<forall>c<32768. bbit p c))"
  using write_slot_at [OF assms(1-4)]
proof (elim disjE exE conjE)
  fix nd1 p1
  assume w: "write_slot i nd p = (Some nd1, p1)" and ex: "extends p nd p1 nd1" and nz: "iblocks nd1 ! i \<noteq> 0"
    and same: "\<forall>j<12. j \<noteq> i \<longrightarrow> iblocks nd1 ! j = iblocks nd ! j" and sub: "blocks_of nd \<subseteq> blocks_of nd1"
    and dat: "\<forall>c<32768. data_at p1 c = data_at p c"
  let ?c = "unat (iblocks nd1 ! i)"
  let ?x = "splice (data_at p1 ?c) b xs"
  have ok: "fs_ok p1" "nd_ok p1 nd1" using ex by (simp_all add: extends_def)
  have c: "?c < 32768" by (rule block_lt [OF ok(2) assms(4) nz])
  have len: "length (data_at p1 ?c) = 512" using ok(1) by (simp add: data_at_def)
  then have lx: "length ?x = 512" using assms(6) by simp
  obtain d where d: "ata_write_sector (data_start_sec (sb p1) + iblocks nd1 ! i) ?x (dev p1) = (True, d)"
    "p1\<lparr>dev := d\<rparr> = set_data ?c ?x p1"
    using wr_data [OF ok(1) c lx] by blast
  have old: "iblocks nd1 ! j = iblocks nd ! j" if "j < 12" "iblocks nd ! j \<noteq> 0" for j
    using that same w by (cases "j = i") (auto simp: write_slot_def)
  have fb1: "file_byte p1 nd1 k = file_byte p nd k" if "k < 6144" "iblocks nd ! (k div 512) \<noteq> 0" for k
  proof -
    have "k div 512 < 12" using that(1) by simp
    then show ?thesis using that(2) old [of "k div 512"] block_lt [OF ok(2), of "k div 512"] dat by (simp add: file_byte_def)
  qed
  have "k div 512 = i" if "512 * i + b \<le> k" "k < 512 * i + b + length xs" for k
    using that assms(6) by (intro div_nat_eqI) auto
  then have "written_range p nd (512 * i + b) (512 * i + b + length xs) (\<lambda>k. xs ! (k - (512 * i + b))) (p1\<lparr>dev := d\<rparr>) nd1"
    unfolding written_range_def d(2)
    using extends_set_data [OF ex _ lx, of ?c] blocks_of_nth [of nd1 i] ok(2) assms(4) nz sub old fb1
      write_chunk [OF ok assms(4) nz assms(5,6) refl]
    by (auto simp: nd_ok_def)
  then show ?thesis
    using w d(1) rd_data [OF ok(1) c] by (auto simp: pfs_data_sector_def)
qed simp

lemma write_at_loop_at:
  assumes "fs_ok p" "nd_ok p nd" "bbit p 0" "length data = unat len" "unat off + unat len \<le> 6144" "written \<le> unat len"
  shows "(\<exists>nd' p'. write_at_loop off data len written nd p = Some (Some nd', p') \<and>
      written_range p nd (unat off + written) (unat off + unat len) (\<lambda>k. data ! (k - unat off)) p' nd') \<or>
    (\<exists>nd' p'. write_at_loop off data len written nd p = Some (None, p') \<and> extends p nd p' nd' \<and>
      blocks_of nd \<subseteq> blocks_of nd' \<and> (\<forall>c<32768. bbit p' c))"
  using assms
proof (induction "unat len - written" arbitrary: written nd p rule: less_induct)
  case less
  show ?case
  proof (cases "written < unat len")
    case False
    then show ?thesis
      using less.prems written_range_empty by (subst (1 2) write_at_loop.simps) auto
  next
    case True
    define pos where "pos = off + of_nat written"
    have pos: "unat pos = unat off + written"
      using True less.prems(5) by (simp add: pos_def unat_add_u32 unat_of_nat_u32)
    let ?i = "unat pos div 512" and ?b = "unat pos mod 512"
    define chunk where "chunk = min (512 - ?b) (unat len - written)"
    let ?xs = "slice written chunk data"
    have i: "?i < 12" "?b < 512" "512 * ?i + ?b = unat off + written"
      using True less.prems(5) pos by simp_all
    have ch: "0 < chunk" "written + chunk \<le> unat len" "length ?xs = chunk" "?b + length ?xs \<le> 512"
      using True less.prems(4) by (auto simp: chunk_def)
    have step: "write_at_loop off data len written nd p =
       (case write_slot ?i nd p of
          (None, p) \<Rightarrow> Some (None, p)
        | (Some node, p) \<Rightarrow>
            (case ata_read_sector (pfs_data_sector (iblocks node ! ?i) p) (dev p) of
               None \<Rightarrow> Some (None, p)
             | Some sector \<Rightarrow>
                 (case ata_write_sector (pfs_data_sector (iblocks node ! ?i) p) (splice sector ?b ?xs) (dev p) of
                    (ok, d) \<Rightarrow> if \<not> ok then Some (None, p\<lparr>dev := d\<rparr>)
                      else write_at_loop off data len (written + chunk) node (p\<lparr>dev := d\<rparr>))))"
      using True i(1) by (subst write_at_loop.simps)
        (simp add: pos_def [symmetric] chunk_def Let_def split: prod.split option.split)
    have data: "?xs ! (k - (unat off + written)) = data ! (k - unat off)"
      if "unat off + written \<le> k" "k < unat off + written + chunk" for k
      using that ch less.prems(4) by (subst nth_slice) (auto intro!: arg_cong [where f = "(!) data"])
    from write_round [OF less.prems(1-3) i(1,2) ch(4)] show ?thesis
    proof (elim disjE exE conjE)
      fix nd1 p1 d
      assume r: "write_slot ?i nd p = (Some nd1, p1)"
        "ata_read_sector (pfs_data_sector (iblocks nd1 ! ?i) p1) (dev p1) = Some (data_at p1 (unat (iblocks nd1 ! ?i)))"
        "ata_write_sector (pfs_data_sector (iblocks nd1 ! ?i) p1)
          (splice (data_at p1 (unat (iblocks nd1 ! ?i))) ?b ?xs) (dev p1) = (True, d)"
        and wr: "written_range p nd (512 * ?i + ?b) (512 * ?i + ?b + length ?xs) (\<lambda>k. ?xs ! (k - (512 * ?i + ?b))) (p1\<lparr>dev := d\<rparr>) nd1"
      have wr1: "written_range p nd (unat off + written) (unat off + (written + chunk)) (\<lambda>k. data ! (k - unat off)) (p1\<lparr>dev := d\<rparr>) nd1"
        using wr data ch(3) unfolding written_range_def i(3) by (auto simp: add.assoc)
      have ok: "fs_ok (p1\<lparr>dev := d\<rparr>)" "nd_ok (p1\<lparr>dev := d\<rparr>) nd1" "bbit (p1\<lparr>dev := d\<rparr>) 0"
        using wr1 less.prems(3) by (auto simp: written_range_def extends_def)
      have w: "write_at_loop off data len written nd p = write_at_loop off data len (written + chunk) nd1 (p1\<lparr>dev := d\<rparr>)"
        using step r by simp
      have "unat len - (written + chunk) < unat len - written" using True ch(1) by simp
      from less.hyps [OF this ok less.prems(4,5) ch(2)] show ?thesis
        unfolding w
        using written_range_trans [OF wr1] extends_trans [of p nd "p1\<lparr>dev := d\<rparr>" nd1] wr1 ch(2) less.prems(5)
        unfolding written_range_def [of p nd "unat off + written" "unat off + (written + chunk)"]
        by (elim disjE exE conjE) (auto; blast)+
    next
      assume "write_slot ?i nd p = (None, p)" "\<forall>c<32768. bbit p c"
      then show ?thesis using step extends_refl [OF less.prems(1,2)] by auto
    qed
  qed
qed

lemma read_blocks_bytes:
  assumes "fs_ok p" "nd_ok p nd" "k \<le> 12" "unat to_read = m" "m \<le> 6144"
    and "\<forall>i. 512 * i < m \<longrightarrow> iblocks nd ! i \<noteq> 0"
  shows "read_blocks [k..<12] to_read (map (file_byte p nd) [0..<min m (512 * k)]) nd p = Some (map (file_byte p nd) [0..<m])"
  using assms(3)
proof (induction rule: inc_induct)
  case base
  then show ?case using assms(5) by (simp add: min_def)
next
  case (step k)
  have up: "[k..<12] = k # [Suc k..<12]" using step.hyps(2) by (rule upt_conv_Cons)
  show ?case
  proof (cases "512 * k < m")
    case False
    then show ?thesis unfolding up using assms(4) by (simp add: min_def)
  next
    case True
    then have nz: "iblocks nd ! k \<noteq> 0" using assms(6) by simp
    note rd = rd_data [OF assms(1) block_lt [OF assms(2) step.hyps(2) nz]]
    let ?c = "min (m - 512 * k) 512" and ?s = "data_at p (unat (iblocks nd ! k))"
    have "length ?s = 512" using assms(1) by (simp add: data_at_def)
    then have "take ?c ?s = map (\<lambda>j. file_byte p nd (512 * k + j)) [0..<?c]"
      by (intro nth_equalityI) (auto simp: file_byte_def)
    also have "\<dots> = map (file_byte p nd) [512 * k..<512 * k + ?c]"
      by (intro nth_equalityI) auto
    finally have "map (file_byte p nd) [0..<512 * k] @ take ?c ?s = map (file_byte p nd) [0..<512 * k + ?c]"
      by (simp add: upt_add_eq_append [of 0 "512 * k" ?c])
    moreover have "512 * k + ?c = min m (512 * Suc k)" "min m (512 * k) = 512 * k" using True by auto
    ultimately show ?thesis
      unfolding up read_blocks.simps assms(4) rd option.case length_map length_upt
      using True nz step.IH by simp
  qed
qed

lemma take_upt_min: "take m [0..<n] = [0..<min m n]"
  by (simp add: min_def)

lemma read_contents:
  assumes "fs_ok p" "live_file p (unat ino)" "nd_ok p (inode_at p (unat ino))" "no_holes (inode_at p (unat ino))"
  shows "pfs_read_file ino maxlen p = Some (take (unat maxlen) (contents p (unat ino)))"
proof -
  let ?nd = "inode_at p (unat ino)"
  have n: "unat ino < 4096" "itype ?nd = PFS_TYPE_FILE" using assms(2) by (auto simp: live_file_def)
  define t where "t = (if isize ?nd > maxlen then maxlen else isize ?nd)"
  have t: "unat t = min (unat maxlen) (unat (isize ?nd))" by (auto simp: t_def word_less_nat_alt)
  moreover have "unat t \<le> 6144" "\<forall>i. 512 * i < unat t \<longrightarrow> iblocks ?nd ! i \<noteq> 0"
    using t assms(4) by (simp_all add: no_holes_def min_le_iff_disj)
  ultimately have "read_blocks [0..<12] t [] ?nd p = Some (map (file_byte p ?nd) [0..<unat t])"
    using read_blocks_bytes [OF assms(1,3), of 0 t "unat t"] by (simp del: upt_rec_numeral)
  then show ?thesis
    using read_inode_at [OF assms(1) n(1)] n(2) t
    by (simp add: pfs_read_file_def contents_def take_map t_def [symmetric] take_upt_min del: upt_rec_numeral)
qed

lemma block_start_less: "k < n \<Longrightarrow> 512 * (k div 512) < (n :: nat)"
  by (rule le_less_trans [OF times_div_less_eq_dividend])

lemma write_at_contents:
  assumes "written_range p nd off (off + length data) (\<lambda>k. data ! (k - off)) p' nd'" "no_holes nd"
    and "off \<le> unat (isize nd)" "off + length data \<le> 6144" "unat z = max (unat (isize nd)) (off + length data)"
  shows "no_holes (nd'\<lparr>isize := z\<rparr>)"
    and "map (file_byte p' nd') [0..<unat z] =
      take off (map (file_byte p nd) [0..<unat (isize nd)]) @ data @
      drop (off + length data) (map (file_byte p nd) [0..<unat (isize nd)])"
proof -
  note w = assms(1) [unfolded written_range_def]
  have sz: "unat (isize nd) \<le> 6144" using assms(2) by (simp add: no_holes_def)
  have old: "iblocks nd ! (k div 512) \<noteq> 0" if "k < unat (isize nd)" for k
  proof -
    have "512 * (k div 512) < unat (isize nd)" using that by (rule block_start_less)
    then show ?thesis using assms(2) by (simp add: no_holes_def)
  qed
  have "iblocks nd' ! i \<noteq> 0" if i: "512 * i < unat z" for i
  proof (cases "512 * i < unat (isize nd)")
    case True
    then have "i < 12" "iblocks nd ! i \<noteq> 0" using old [of "512 * i"] sz by simp_all
    then show ?thesis using w by metis
  next
    case False
    then have "512 * i < 6144" "off \<le> 512 * i \<and> 512 * i < off + length data" using i assms(3-5) by auto
    then show ?thesis using w by (metis nonzero_mult_div_cancel_left zero_neq_numeral)
  qed
  then show "no_holes (nd'\<lparr>isize := z\<rparr>)" using assms(4,5) sz by (simp add: no_holes_def)
  show "map (file_byte p' nd') [0..<unat z] =
      take off (map (file_byte p nd) [0..<unat (isize nd)]) @ data @
      drop (off + length data) (map (file_byte p nd) [0..<unat (isize nd)])"
  proof (rule nth_equalityI)
    show len: "length (map (file_byte p' nd') [0..<unat z]) = length (take off (map (file_byte p nd) [0..<unat (isize nd)]) @ data @
      drop (off + length data) (map (file_byte p nd) [0..<unat (isize nd)]))"
      using assms(3,5) by simp
    fix k assume "k < length (map (file_byte p' nd') [0..<unat z])"
    then have k: "k < unat z" "k < 6144" using assms(4,5) sz by simp_all
    have "file_byte p' nd' k = (if off \<le> k \<and> k < off + length data then data ! (k - off) else file_byte p nd k)"
    proof (cases "off \<le> k \<and> k < off + length data")
      case False
      then have "k < unat (isize nd)" using k assms(3,5) by auto
      then show ?thesis using w False old k by auto
    qed (use w k in auto)
    then show "map (file_byte p' nd') [0..<unat z] ! k = (take off (map (file_byte p nd) [0..<unat (isize nd)]) @ data @
      drop (off + length data) (map (file_byte p nd) [0..<unat (isize nd)])) ! k"
      using k(1) assms(3,5) by (auto simp: nth_append)
  qed
qed

text \<open>
  C18: \<^verbatim>\<open>pfs_write_file_at\<close> always returns when the range lies in the first 6144 bytes, and keeps the
  file system well-formed and the contents of all other files. It fails only when no data block
  is left. On success, with a file without holes and an offset not beyond its end, the contents are the old ones with
  the written bytes in place of those from the offset on, extended where the write passes the
  old end; and that is what \<^verbatim>\<open>pfs_read_file\<close> then reads.
\<close>

theorem pfs_write_file_at_correct:
  assumes "fs_wf p" "live_file p (unat ino)" "length data = unat len" "unat off + unat len \<le> 6144"
  shows "\<exists>ok p'. pfs_write_file_at ino off data len p = Some (ok, p') \<and> fs_wf p' \<and>
    (\<not> ok \<longrightarrow> (\<forall>c<32768. bbit p' c)) \<and>
    (\<forall>m x. live_file p m \<and> m \<noteq> unat ino \<longrightarrow> pfs_read_file (of_nat m) x p' = pfs_read_file (of_nat m) x p) \<and>
    (ok \<and> no_holes (inode_at p (unat ino)) \<and> unat off \<le> length (contents p (unat ino)) \<longrightarrow>
       live_file p' (unat ino) \<and> no_holes (inode_at p' (unat ino)) \<and>
       contents p' (unat ino) = take (unat off) (contents p (unat ino)) @ data @
         drop (unat off + unat len) (contents p (unat ino)) \<and>
       pfs_read_file ino maxlen p' = Some (take (unat maxlen) (contents p' (unat ino))))"
proof -
  let ?n = "unat ino" and ?nd = "inode_at p (unat ino)"
  have fok: "fs_ok p" "bbit p 0" and nok: "nd_ok p ?nd" and lt: "?n < 4096" and ft: "itype ?nd = 1"
    using assms(1,2) by (auto simp: fs_wf_def live_file_def)
  have e: "unat (off + len) = unat off + unat len" using assms(4) by (intro unat_add_u32) simp
  have w: "pfs_write_file_at ino off data len p =
      (case write_at_loop off data len 0 ?nd p of
         None \<Rightarrow> None | Some (None, p) \<Rightarrow> Some (False, p)
       | Some (Some node, p) \<Rightarrow>
           Some (pfs_write_inode ino (if off + len > isize node then node\<lparr>isize := off + len\<rparr> else node) p))"
    using read_inode_at [OF fok(1) lt] ft e assms(4)
    by (simp add: pfs_write_file_at_def word_less_nat_alt Let_def split: option.split)
  from write_at_loop_at [OF fok(1) nok fok(2) assms(3,4) le0] show ?thesis
  proof (elim disjE exE conjE)
    fix nd1 p1
    assume wl: "write_at_loop off data len 0 ?nd p = Some (Some nd1, p1)"
      and wr: "written_range p ?nd (unat off + 0) (unat off + unat len) (\<lambda>k. data ! (k - unat off)) p1 nd1"
    define z where "z = (if off + len > isize nd1 then off + len else isize nd1)"
    let ?nd' = "nd1\<lparr>isize := z\<rparr>" and ?p = "set_inode ?n (nd1\<lparr>isize := z\<rparr>) p1"
    have nz: "(if off + len > isize nd1 then nd1\<lparr>isize := off + len\<rparr> else nd1) = ?nd'" by (simp add: z_def)
    have ex: "extends p ?nd p1 nd1" using wr by (simp add: written_range_def)
    have x: "fs_ok p1" "inode_ok nd1" "inode_ok ?nd'" "nd_ok p1 nd1" "isize nd1 = isize ?nd" "itype nd1 = 1"
      using ex ft by (auto simp: extends_def nd_ok_def inode_ok_def)
    have r: "pfs_write_file_at ino off data len p = Some (True, ?p)"
      using w wl nz write_inode_at [OF x(1) lt x(3)] by simp
    note xw = extends_wf [OF assms(1,2) ex]
    have pok: "fs_ok ?p" using x by (intro fs_ok_setters)
    have at: "inode_at ?p ?n = ?nd'" using x lt by simp
    have live: "live_file ?p ?n" using at x lt assms(2) ex by (simp add: live_file_def extends_def)
    have zu: "unat z = max (unat (isize ?nd)) (unat off + length data)"
      using e x(5) assms(3) by (auto simp: z_def word_less_nat_alt)
    have c: "contents ?p ?n = take (unat off) (contents p ?n) @ data @ drop (unat off + unat len) (contents p ?n) \<and>
        no_holes (inode_at ?p ?n)" if h: "no_holes ?nd" "unat off \<le> length (contents p ?n)"
    proof -
      have "file_byte ?p ?nd' k = file_byte p1 nd1 k" if "k < unat z" for k
      proof -
        have k: "512 * (k div 512) < unat z" using that by (rule block_start_less)
        have "k < 6144" using that zu h(1) assms(3,4) unfolding no_holes_def by linarith
        then have "k div 512 < 12" by simp
        then have "unat (iblocks nd1 ! (k div 512)) < 32768"
          using write_at_contents(1) [of p ?nd "unat off" data p1 nd1 z] wr h assms(3,4) zu k block_lt [OF x(4)]
          by (simp add: no_holes_def contents_def)
        then show ?thesis using x lt by (simp add: file_byte_def)
      qed
      then have "contents ?p ?n = map (file_byte p1 nd1) [0..<unat z]" unfolding contents_def at by simp
      then show ?thesis
        using write_at_contents [of p ?nd "unat off" data p1 nd1 z] wr h assms(3,4) zu at
        by (simp add: contents_def [of p])
    qed
    have "nd_ok ?p (inode_at ?p ?n)" using xw(1) live by (simp add: fs_wf_def)
    note rc = read_contents [OF pok live this]
    have "pfs_read_file (of_nat m) y ?p = pfs_read_file (of_nat m) y p"
      if "live_file p m" "m \<noteq> ?n" for m y
    proof (rule read_file_cong [OF fok(1) pok])
      show "m < 4096" "inode_at ?p m = inode_at p m" "inode_ok (inode_at p m)"
        using that ex x lt assms(1) by (auto simp: live_file_def extends_def fs_wf_def nd_ok_def)
      show "\<forall>c \<in> blocks_of (inode_at p m). c < 32768 \<and> data_at ?p c = data_at p c"
        using xw(3) [OF that] x lt by simp
    qed
    then show ?thesis using r xw(1) live c rc by blast
  next
    fix nd1 p1
    assume wl: "write_at_loop off data len 0 ?nd p = Some (None, p1)" and ex: "extends p ?nd p1 nd1"
      and full: "\<forall>c<32768. bbit p1 c"
    note xw = extends_wf [OF assms(1,2) ex]
    have "pfs_read_file (of_nat m) y p1 = pfs_read_file (of_nat m) y p"
      if "live_file p m" "m \<noteq> ?n" for m y
      using that ex xw(3) [OF that] assms(1)
      by (intro read_file_cong [OF fok(1)]) (auto simp: live_file_def extends_def fs_wf_def nd_ok_def)
    then show ?thesis using w wl xw(2) full by auto
  qed
qed

theorem pfs_write_file_at_correct_witness:
  "\<exists>p n ok p'. pfs_write_file_at (of_nat n) 0 (cstr_lit ''hi'') 2 p = Some (ok, p') \<and> fs_wf p'"
proof -
  obtain p n where p: "fs_wf p" "live_file p n" "n < 4096" using example_file by blast
  then have "unat (of_nat n :: u32) = n" by (simp add: unat_of_nat_u32)
  then show ?thesis
    using pfs_write_file_at_correct [of p "of_nat n" "cstr_lit ''hi''" 2 0 0] p by (auto simp: cstr_lit_def)
qed

text \<open>
  The bound on the end of the write is checked after a 32-bit addition. An offset near \<open>2\<^sup>3\<^sup>2\<close>
  passes, and the block slot it selects is far outside the inode.
\<close>

lemma pfs_write_file_at_out_of_bounds:
  assumes "fs_wf p" "live_file p (unat ino)"
  shows "pfs_write_file_at ino 0xFFFFFE00 data 0x400 p = None"
proof -
  have "pfs_read_inode ino p = Some (inode_at p (unat ino))" "itype (inode_at p (unat ino)) = PFS_TYPE_FILE"
    using assms read_inode_at [of p ino] by (auto simp: fs_wf_def live_file_def)
  moreover have "(0xFFFFFE00 + 0x400 :: u32) = 0x200" by (simp add: word_eq_unat unsigned_numeral)
  moreover have "write_at_loop 0xFFFFFE00 data 0x400 0 (inode_at p (unat ino)) p = None"
    by (subst write_at_loop.simps) simp
  ultimately show ?thesis
    unfolding pfs_write_file_at_def Let_def by (simp only: option.case) simp
qed

end
