(* ===== verification/Initrd.thy ===== *)
theory Initrd
  imports Pfs_Vfs
begin

text \<open>
  The initial RAM disk, a read-only file system over a USTAR archive in memory:
  \<^verbatim>\<open>kernel/kernel/initrd.c\<close>. Two passes over the archive, the functions behind the node
  operations, and the entry point that finds the archive in the boot loader's module list.
\<close>

section \<open>The initial RAM disk\<close>

text \<open>A field of the USTAR header at address \<open>a\<close>: \<open>n\<close> bytes from offset \<open>k\<close>.\<close>

definition mem_bytes :: "(u32 \<Rightarrow> u8) \<Rightarrow> u32 \<Rightarrow> nat \<Rightarrow> u8 list" where
  "mem_bytes mem a n = map (\<lambda>i. mem (a + of_nat i)) [0..<n]"

fun parse_octal :: "u8 list \<Rightarrow> u32 \<Rightarrow> u32" where
  "parse_octal [] result = result"
| "parse_octal (c # cs) result =
     (if c = 0 \<or> c < 48 \<or> c > 55 then result
      else parse_octal cs (push_bit 3 result OR ucast (c - 48)))"

record ustar =
  uname :: "u8 list"
  usize :: "u8 list"
  utype :: u8
  umagic :: "u8 list"

definition ustar_header :: "(u32 \<Rightarrow> u8) \<Rightarrow> u32 \<Rightarrow> ustar" where
  "ustar_header mem a = \<lparr>uname = mem_bytes mem a 100, usize = mem_bytes mem (a + 124) 12,
     utype = mem (a + 156), umagic = mem_bytes mem (a + 257) 6\<rparr>"

definition ustar_step :: "u32 \<Rightarrow> u32" where
  "ustar_step sz = 512 + ((sz + 511) AND NOT 511)"

text \<open>First pass: count the regular files. \<open>None\<close>: the offset wraps around and the walk never ends.\<close>

partial_function (option) initrd_count :: "(u32 \<Rightarrow> u8) \<Rightarrow> u32 \<Rightarrow> u32 \<Rightarrow> u32 \<Rightarrow> u32 \<Rightarrow> u32 option" where
  "initrd_count mem loc sz offset count =
     (if \<not> offset < sz then Some count
      else let hdr = ustar_header mem (loc + offset) in
        if uname hdr ! 0 = 0 then Some count
        else if memcmp (umagic hdr) (cstr_lit ''ustar'') 5 \<noteq> 0 then Some count
        else initrd_count mem loc sz (offset + ustar_step (parse_octal (usize hdr) 0))
               (if utype hdr = 48 \<or> utype hdr = 0 then count + 1 else count))"

text \<open>Second pass: record name, address and size of each. The files and their nodes go together.\<close>

partial_function (option) initrd_collect ::
  "(u32 \<Rightarrow> u8) \<Rightarrow> u32 \<Rightarrow> u32 \<Rightarrow> u32 \<Rightarrow> u32 \<Rightarrow> initrd_file list \<Rightarrow> initrd_file list option" where
  "initrd_collect mem loc sz file_count offset acc =
     (if \<not> (offset < sz \<and> of_nat (length acc) < file_count) then Some acc
      else let hdr = ustar_header mem (loc + offset) in
        if uname hdr ! 0 = 0 then Some acc
        else let fsz = parse_octal (usize hdr) 0;
                 name = cstr_of (uname hdr);
                 name = (if deref name = 46 \<and> deref (tl name) = 47 then drop 2 name else name)
             in initrd_collect mem loc sz file_count (offset + ustar_step fsz)
                  (if utype hdr = 48 \<or> utype hdr = 0
                   then acc @ [\<lparr>fname = name_copy name (VFS_NAME_MAX - 1), fdata = loc + offset + 512, fsize = fsz\<rparr>]
                   else acc))"

definition initrd_make_node :: "nat \<Rightarrow> initrd_file \<Rightarrow> vfs_node \<Rightarrow> vfs_node" where
  "initrd_make_node i f n = n\<lparr>nname := fname f, nmask := 0, uid := 0, gid := 0, flags := VFS_FILE,
     ninode := of_nat i, nlength := fsize f, impl := 0, read_fn := Some Initrd_read, write_fn := None,
     readdir_fn := None, finddir_fn := None\<rparr>"

definition initrd_make_root :: "vfs_node \<Rightarrow> vfs_node" where
  "initrd_make_root n = n\<lparr>nname := cstr_lit ''/'', nmask := 0, flags := VFS_DIRECTORY, ninode := 0,
     nlength := 0, read_fn := None, write_fn := None, readdir_fn := Some Initrd_readdir,
     finddir_fn := Some Initrd_finddir\<rparr>"

text \<open>
  The three allocations are made on the kernel heap (76 bytes per file record, 124 per node);
  the arrays themselves are the list of files and the node objects. The third allocation is not
  checked: a failure is a write through a null pointer (\<open>None\<close>, as for a walk that never ends). The \<^verbatim>\<open>create\<close> pointer of the
  new nodes is not assigned and keeps whatever the memory held.
\<close>

definition initrd_init :: "u32 \<Rightarrow> u32 \<Rightarrow> vfs_state \<Rightarrow> (vref option \<times> vfs_state) option" where
  "initrd_init location sz s =
     do {
       file_count \<leftarrow> initrd_count (memory s) location sz 0 0;
       if file_count = 0 then Some (None, s\<lparr>initrd_file_count := 0\<rparr>)
       else do {
         (a, h) \<leftarrow> kmalloc (76 * file_count) (kheap s);
         (b, h) \<leftarrow> kmalloc (124 * file_count) h;
         if a = 0 \<or> b = 0 then Some (None, s\<lparr>kheap := h, initrd_file_count := file_count\<rparr>)
         else do {
           files \<leftarrow> initrd_collect (memory s) location sz file_count 0 [];
           (r, h) \<leftarrow> kmalloc 124 h;
           if r = 0 then None
           else Some (Some Initrd_root, s\<lparr>kheap := h, initrd_files := files, initrd_file_count := file_count,
             vnodes := (\<lambda>v. case v of
                Initrd_root \<Rightarrow> initrd_make_root (vnodes s Initrd_root)
              | Initrd_node i \<Rightarrow> (if i < length files then initrd_make_node i (files ! i) (vnodes s v) else vnodes s v)
              | _ \<Rightarrow> vnodes s v)\<rparr>) } } }"

definition initrd_read :: "vref \<Rightarrow> u32 \<Rightarrow> u32 \<Rightarrow> vfs_state \<Rightarrow> u8 list" where
  "initrd_read node offset sz s =
     (if ninode (vnodes s node) \<ge> initrd_file_count s then []
      else let f = initrd_files s ! unat (ninode (vnodes s node)) in
        if offset \<ge> fsize f then []
        else let sz = (if offset + sz > fsize f then fsize f - offset else sz)
             in mem_bytes (memory s) (fdata f + offset) (unat sz))"

definition initrd_readdir :: "vref \<Rightarrow> u32 \<Rightarrow> vfs_state \<Rightarrow> dirent option" where
  "initrd_readdir node index s =
     (if node \<noteq> Initrd_root then None
      else if index \<ge> initrd_file_count s then None
      else Some \<lparr>dname = name_copy (fname (initrd_files s ! unat index)) (VFS_NAME_MAX - 1), dinode = index\<rparr>)"

definition initrd_finddir :: "vref \<Rightarrow> cstr \<Rightarrow> vfs_state \<Rightarrow> vref option" where
  "initrd_finddir node name s =
     (if node \<noteq> Initrd_root then None
      else map_option Initrd_node
        (find (\<lambda>i. strcmp (fname (initrd_files s ! i)) name = 0) [0..<unat (initrd_file_count s)]))"

text \<open>
  The module list is read from memory as little-endian words; the archive is the first module,
  seen through the kernel's window on physical memory.
\<close>

definition initrd_init_from_multiboot :: "multiboot_info \<Rightarrow> vfs_state \<Rightarrow> (vref option \<times> vfs_state) option" where
  "initrd_init_from_multiboot mboot s =
     (if mb_flags mboot AND 8 = 0 then Some (None, s)
      else if mods_count mboot = 0 then Some (None, s)
      else let mods = mods_addr mboot + 0xC0000000;
               mod_start = un_le32 (mem_bytes (memory s) mods 4);
               mod_end = un_le32 (mem_bytes (memory s) (mods + 4) 4);
               size = mod_end - mod_start
           in initrd_init (mod_start + 0xC0000000) size s)"

section \<open>Parsing an archive\<close>

text \<open>
  An archive with the given headers starts at offset \<open>off\<close>: each header is in place with its
  magic, the data of a member ends before the 32-bit offset wraps, and the archive ends at its
  size or at a header with an empty name.
\<close>

definition member_size :: "ustar \<Rightarrow> u32" where
  "member_size h = parse_octal (usize h) 0"

definition is_regular :: "ustar \<Rightarrow> bool" where
  "is_regular h \<longleftrightarrow> utype h = 48 \<or> utype h = 0"

fun archive_at :: "(u32 \<Rightarrow> u8) \<Rightarrow> u32 \<Rightarrow> u32 \<Rightarrow> u32 \<Rightarrow> ustar list \<Rightarrow> bool" where
  "archive_at mem loc sz off [] \<longleftrightarrow> off \<ge> sz \<or> uname (ustar_header mem (loc + off)) ! 0 = 0"
| "archive_at mem loc sz off (h # hs) \<longleftrightarrow> off < sz \<and> ustar_header mem (loc + off) = h \<and> uname h ! 0 \<noteq> 0 \<and>
     memcmp (umagic h) (cstr_lit ''ustar'') 5 = 0 \<and>
     unat off + 512 + (unat (member_size h) + 511) div 512 * 512 < 4294967296 \<and>
     archive_at mem loc sz (off + ustar_step (member_size h)) hs"

definition member_name :: "ustar \<Rightarrow> cstr" where
  "member_name h = (let name = cstr_of (uname h) in if take 2 name = cstr_lit ''./'' then drop 2 name else name)"

fun members :: "u32 \<Rightarrow> u32 \<Rightarrow> ustar list \<Rightarrow> initrd_file list" where
  "members loc off [] = []"
| "members loc off (h # hs) =
     (if is_regular h then [\<lparr>fname = take 63 (member_name h), fdata = loc + off + 512, fsize = member_size h\<rparr>] else []) @
     members loc (off + ustar_step (member_size h)) hs"

lemma and_not_511: "(x :: u32) AND NOT 511 = of_nat (unat x div 512 * 512)"
proof -
  have "x AND NOT 511 = x AND NOT (mask 9)" by (simp add: mask_eq_exp_minus_1)
  also have "\<dots> = push_bit 9 (drop_bit 9 x)" by (simp add: bit_eq_iff bit_simps) auto
  also have "drop_bit 9 x = of_nat (unat x div 512)"
    using unat_u32_bound [of x] by (simp add: word_eq_unat drop_bit_eq_div unat_of_nat_u32 less_mult_imp_div_less)
  also have "push_bit 9 (of_nat (unat x div 512) :: u32) = of_nat (unat x div 512 * 512)"
    by (simp add: push_bit_eq_mult)
  finally show ?thesis .
qed

lemma ustar_step_unat:
  assumes "512 + (unat sz + 511) div 512 * 512 < 4294967296"
  shows "unat (ustar_step sz) = 512 + (unat sz + 511) div 512 * 512"
proof -
  have "unat sz + 511 < 4294967296" using assms by linarith
  then have "unat (sz + 511) = unat sz + 511" using unat_add_u32 [of sz 511] by simp
  then have e: "unat ((sz + 511) AND NOT 511) = (unat sz + 511) div 512 * 512"
    using assms unfolding and_not_511 by (subst unat_of_nat_u32) simp_all
  then show ?thesis
    unfolding ustar_step_def using assms by (subst unat_add_u32) simp_all
qed

lemma archive_step:
  assumes "archive_at mem loc sz off (h # hs)"
  shows "unat (off + ustar_step (member_size h)) = unat off + 512 + (unat (member_size h) + 511) div 512 * 512"
  using assms ustar_step_unat [of "member_size h"] by (subst unat_add_u32) auto

lemma archive_length: "archive_at mem loc sz off hs \<Longrightarrow> unat off + 512 * length hs < 4294967296"
proof (induction hs arbitrary: off)
  case (Cons h hs)
  have "archive_at mem loc sz (off + ustar_step (member_size h)) hs" using Cons.prems by simp
  from Cons.IH [OF this] archive_step [OF Cons.prems] show ?case by simp
qed (use unat_u32_bound in simp)

lemma count_at:
  "archive_at mem loc sz off hs \<Longrightarrow>
   initrd_count mem loc sz off c = Some (c + of_nat (length (filter is_regular hs)))"
proof (induction hs arbitrary: off c)
  case Nil
  then show ?case by (subst initrd_count.simps) (auto simp: Let_def not_less)
next
  case (Cons h hs)
  then show ?case
    by (subst initrd_count.simps)
      (auto simp: Let_def is_regular_def [of h] is_regular_def [of "ustar_header mem (loc + off)"] member_size_def)
qed

lemma length_members: "length (members loc off hs) = length (filter is_regular hs)"
  by (induction hs arbitrary: off) auto

lemma name_copy_63: "\<forall>c \<in> set name. c \<noteq> 0 \<Longrightarrow> name_copy name n = take n name"
  using cstr_of_id [of "take n name"] cstr_of_append_0 [of "take n name"] in_set_takeD [of _ n name]
  by (cases "n - length name") (auto simp: name_copy_def strncpy_bytes_eq cstr_of_id)

lemma member_name_eq:
  "(if deref (cstr_of (uname h)) = 46 \<and> deref (tl (cstr_of (uname h))) = 47
    then drop 2 (cstr_of (uname h)) else cstr_of (uname h)) = member_name h"
  unfolding member_name_def Let_def cstr_lit_def
  by (cases "cstr_of (uname h)"; cases "tl (cstr_of (uname h))") auto

lemma member_name_nonzero: "c \<in> set (member_name h) \<Longrightarrow> c \<noteq> 0"
  by (auto simp: member_name_def Let_def split: if_splits dest: cstr_of_nonzero in_set_dropD)

lemma collect_at:
  assumes "archive_at mem loc sz off hs" "unat n = length acc + length (filter is_regular hs)"
  shows "initrd_collect mem loc sz n off acc = Some (acc @ members loc off hs)"
  using assms
proof (induction hs arbitrary: off acc)
  case Nil
  then have "length acc = unat n" by simp
  then have "of_nat (length acc) = n" by simp
  then have "\<not> of_nat (length acc) < n" by simp
  then show ?case by (subst initrd_collect.simps) auto
next
  case (Cons h hs)
  let ?off = "off + ustar_step (member_size h)"
  have arch: "archive_at mem loc sz ?off hs" using Cons.prems(1) by simp
  show ?case
  proof (cases "filter is_regular (h # hs) = []")
    case True
    then have "length acc = unat n" "members loc off (h # hs) = []"
      using Cons.prems(2) length_members [of loc off "h # hs"] by simp_all
    moreover from this(1) have "of_nat (length acc) = n" by simp
    then have nl: "\<not> of_nat (length acc) < n" by simp
    ultimately show ?thesis
      by (subst initrd_collect.simps) (simp only: nl simp_thms if_True append_Nil2)
  next
    case False
    then have "0 < length (filter is_regular (h # hs))" by (simp only: length_greater_0_conv not_False_eq_True)
    then have "length acc < unat n" using Cons.prems(2) by linarith
    then have "of_nat (length acc) < n" by (simp add: word_less_nat_alt unat_of_nat_u32 less_trans [OF _ unat_u32_bound])
    then have "initrd_collect mem loc sz n off acc = initrd_collect mem loc sz n ?off
        (if is_regular h then acc @ [\<lparr>fname = take 63 (member_name h), fdata = loc + off + 512, fsize = member_size h\<rparr>] else acc)"
      using Cons.prems(1) member_name_eq [of h] name_copy_63 [of "member_name h" 63] member_name_nonzero [of _ h]
      by (subst initrd_collect.simps) (simp add: Let_def is_regular_def member_size_def)
    also have "\<dots> = Some (acc @ members loc off (h # hs))"
      using Cons.prems(2) Cons.IH [OF arch] by simp
    finally show ?thesis .
  qed
qed

lemma member_names: "f \<in> set (members loc off hs) \<Longrightarrow> \<forall>c \<in> set (fname f). c \<noteq> 0"
  by (induction hs arbitrary: off) (auto split: if_splits dest!: in_set_takeD member_name_nonzero)

section \<open>Mounting an archive\<close>

lemma mem_bytes_nth [simp]: "i < n \<Longrightarrow> mem_bytes mem a n ! i = mem (a + of_nat i)"
  by (simp add: mem_bytes_def)

lemma mem_bytes_0 [simp]: "mem_bytes mem a 0 = []"
  by (simp add: mem_bytes_def)

lemma length_mem_bytes [simp]: "length (mem_bytes mem a n) = n"
  by (simp add: mem_bytes_def)

lemma take_mem_bytes: "k \<le> n \<Longrightarrow> take k (mem_bytes mem a n) = mem_bytes mem a k"
  by (simp add: mem_bytes_def take_map)

lemma drop_mem_bytes: "drop k (mem_bytes mem a n) = mem_bytes mem (a + of_nat k) (n - k)"
  by (rule nth_equalityI) (simp_all add: ac_simps)

lemma initrd_read_slice:
  assumes "ninode (vnodes s node) = of_nat i" "i < unat (initrd_file_count s)"
    and "unat off + unat len < 4294967296"
  shows "initrd_read node off len s =
    slice (unat off) (unat len) (mem_bytes (memory s) (fdata (initrd_files s ! i)) (unat (fsize (initrd_files s ! i))))"
proof -
  let ?f = "initrd_files s ! i"
  have i: "unat (of_nat i :: u32) = i" using assms(2) unat_u32_bound by (simp add: unat_of_nat_u32 less_trans)
  then have "\<not> initrd_file_count s \<le> of_nat i" using assms(2) by (simp add: word_le_nat_alt)
  moreover have "unat (off + len) = unat off + unat len" using assms(3) by (rule unat_add_u32)
  ultimately show ?thesis
    using assms(1) i unat_sub_u32 [of off "fsize ?f"]
    by (auto simp: initrd_read_def Let_def slice_def drop_mem_bytes take_mem_bytes word_le_nat_alt word_less_nat_alt not_less)
qed


text \<open>An archive with one member: \<^verbatim>\<open>a\<close>, five bytes long.\<close>

definition tar_example :: "u32 \<Rightarrow> u8" where
  "tar_example = (\<lambda>_. 0)(0 := 97, 124 := 53, 156 := 48, 257 := 117, 258 := 115, 259 := 116, 260 := 97, 261 := 114,
     512 := 104, 513 := 101, 514 := 108, 515 := 108, 516 := 111)"

definition initrd_example :: vfs_state where
  "initrd_example = \<lparr>vnodes = \<lambda>_. zero_node, initrd_files = [], initrd_file_count = 0, memory = tar_example,
     vfs_root = None, mounts = replicate 4 \<lparr>prefix = [], mroot = Pfs_root, mused = False\<rparr>,
     fs = formatted ata_example, kheap = heap_example, kbd = keyboard_example, tty_out = []\<rparr>"

lemma tar_example_size: "parse_octal (mem_bytes tar_example 124 12) 0 = 5"
  by code_simp

lemma tar_example_magic: "memcmp (mem_bytes tar_example 257 6) (cstr_lit ''ustar'') 5 = 0"
  by code_simp

lemma tar_example_archive: "archive_at tar_example 0 2048 0 [ustar_header tar_example 0]"
  using tar_example_size tar_example_magic
  by (simp add: ustar_header_def member_size_def ustar_step_def) (simp add: tar_example_def)

lemma tar_example_members: "members 0 0 [ustar_header tar_example 0] = [\<lparr>fname = [97], fdata = 512, fsize = 5\<rparr>]"
  by code_simp

lemma initrd_example_allocs:
  "do {(a, h1) \<leftarrow> kmalloc 76 heap_example; (b, h2) \<leftarrow> kmalloc 124 h1; (r, h3) \<leftarrow> kmalloc 124 h2;
       Some (a, b, r)} = Some (0xD0000014, 0xD0000078, 0xD000010C)"
  by code_simp


section \<open>What the archive walk and the bounds checks get wrong\<close>

text \<open>
  The offset arithmetic is not checked. A member whose size field reads \<^verbatim>\<open>37777777000\<close> has a step
  of \<open>2\<^sup>3\<^sup>2\<close>, so the offset does not advance, and the first pass over the archive never ends.
\<close>

lemma ustar_step_zero: "ustar_step (parse_octal (cstr_lit ''37777777000'') 0) = 0"
  by code_simp

lemma initrd_count_diverges:
  assumes "off < sz" "uname (ustar_header mem (loc + off)) ! 0 \<noteq> 0"
    and "memcmp (umagic (ustar_header mem (loc + off))) (cstr_lit ''ustar'') 5 = 0"
    and "ustar_step (parse_octal (usize (ustar_header mem (loc + off))) 0) = 0"
  shows "initrd_count mem loc sz off c = None"
proof -
  have "\<not> (a = mem \<and> b = loc \<and> d = sz \<and> e = off)" if "initrd_count a b d e f = Some r" for a b d e f r
    by (rule initrd_count.raw_induct [OF _ that, where P = "\<lambda>a b d e f r. \<not> (a = mem \<and> b = loc \<and> d = sz \<and> e = off)"])
      (use assms in \<open>force simp: Let_def\<close>)
  then show ?thesis by (cases "initrd_count mem loc sz off c") blast+
qed

text \<open>
  \<^verbatim>\<open>initrd_read\<close> checks \<^verbatim>\<open>offset + size > f->size\<close> in 32 bits. Reading from offset 1 of a file with
  \<^verbatim>\<open>size = 0xFFFFFFFF\<close> passes the check and copies 4 GB from the archive.
\<close>

lemma initrd_read_wraps:
  assumes "ninode (vnodes s node) < initrd_file_count s"
    and "1 < fsize (initrd_files s ! unat (ninode (vnodes s node)))"
  shows "length (initrd_read node 1 0xFFFFFFFF s) = 4294967295"
proof -
  have "(1 :: u32) + 0xFFFFFFFF = 0" by (simp add: word_eq_unat unsigned_numeral)
  then have "\<not> 1 + 0xFFFFFFFF > fsize (initrd_files s ! unat (ninode (vnodes s node)))" by (simp only: word_not_simps not_False_eq_True)
  then show ?thesis using assms unfolding initrd_read_def Let_def by (simp only: not_le if_False length_mem_bytes) (simp add: not_le)
qed

end
