(* ===== verification/Vfs.thy ===== *)
theory Vfs
  imports Initrd
begin

text \<open>
  The virtual file system (\<^verbatim>\<open>kernel/kernel/vfs.c\<close>): dispatch through the function pointers of a
  node, the mount table and the walk along a path; and the character devices behind standard
  input and output (\<^verbatim>\<open>console.c\<close>).
\<close>

section \<open>Console and keyboard devices\<close>

definition console_write :: "u32 \<Rightarrow> u8 list \<Rightarrow> vfs_state \<Rightarrow> u32 \<times> vfs_state" where
  "console_write sz buffer s = (sz, s\<lparr>tty_out := tty_out s @ take (unat sz) buffer\<rparr>)"

definition console_read :: "vfs_state \<Rightarrow> u8 list" where
  "console_read s = []"

text \<open>The inner loop of \<^verbatim>\<open>keyboard_read\<close>: take characters until the buffer is full or none is left.\<close>

fun keyboard_more :: "nat \<Rightarrow> keyboard \<Rightarrow> u8 list \<times> keyboard" where
  "keyboard_more 0 k = ([], k)"
| "keyboard_more (Suc n) k =
     (case keyboard_getchar_nonblock k of (c, k) \<Rightarrow>
        if c = 0 then ([], k)
        else case keyboard_more n k of (cs, k) \<Rightarrow> (c # cs, k))"

text \<open>
  One round of the outer loop. Without a character the reader registers itself as the
  keyboard's waiter and blocks (\<open>None\<close>); when it is woken it runs the round again.
\<close>

definition keyboard_read :: "u32 \<Rightarrow> u32 \<Rightarrow> keyboard \<Rightarrow> u8 list option \<times> keyboard" where
  "keyboard_read self sz k =
     (if sz = 0 then (Some [], k)
      else case keyboard_getchar_nonblock k of (c, k) \<Rightarrow>
        if c \<noteq> 0
        then (case keyboard_more (unat sz - 1) k of (cs, k) \<Rightarrow> (Some (c # cs), k))
        else (None, keyboard_set_waiter self k))"

definition keyboard_write :: "vfs_state \<Rightarrow> u32 \<times> vfs_state" where
  "keyboard_write s = (0, s)"

definition console_init :: "vfs_state \<Rightarrow> vfs_state" where
  "console_init s = s\<lparr>vnodes := (vnodes s)
     (Console := zero_node\<lparr>nname := name_copy (cstr_lit ''console'') (VFS_NAME_MAX - 1), flags := VFS_CHARDEVICE,
        read_fn := Some Console_read, write_fn := Some Console_write\<rparr>,
      Keyboard_dev := zero_node\<lparr>nname := name_copy (cstr_lit ''keyboard'') (VFS_NAME_MAX - 1), flags := VFS_CHARDEVICE,
        read_fn := Some Keyboard_read, write_fn := Some Keyboard_write\<rparr>)\<rparr>"

section \<open>Dispatch\<close>

text \<open>
  \<open>self\<close> is the current task, for a read that blocks. The \<^verbatim>\<open>open\<close> and \<^verbatim>\<open>close\<close> pointers are null in
  every node the kernel makes, so \<^verbatim>\<open>vfs_open\<close> and \<^verbatim>\<open>vfs_close\<close> do nothing.
\<close>

definition vfs_read :: "u32 \<Rightarrow> vref option \<Rightarrow> u32 \<Rightarrow> u32 \<Rightarrow> vfs_state \<Rightarrow> u8 list option \<times> vfs_state" where
  "vfs_read self node offset sz s =
     (case node of
        None \<Rightarrow> (Some [], s)
      | Some n \<Rightarrow>
          (case read_fn (vnodes s n) of
             None \<Rightarrow> (Some [], s)
           | Some Initrd_read \<Rightarrow> (Some (initrd_read n offset sz s), s)
           | Some Pfs_vfs_read \<Rightarrow> (Some (pfs_vfs_read n offset sz s), s)
           | Some Console_read \<Rightarrow> (Some (console_read s), s)
           | Some Keyboard_read \<Rightarrow> (case keyboard_read self sz (kbd s) of (r, k) \<Rightarrow> (r, s\<lparr>kbd := k\<rparr>))))"

text \<open>\<open>None\<close> is the out-of-bounds access of \<^verbatim>\<open>pfs_write_file_at\<close>.\<close>

definition vfs_write :: "vref option \<Rightarrow> u32 \<Rightarrow> u32 \<Rightarrow> u8 list \<Rightarrow> vfs_state \<Rightarrow> (u32 \<times> vfs_state) option" where
  "vfs_write node offset sz buffer s =
     (case node of
        None \<Rightarrow> Some (0, s)
      | Some n \<Rightarrow>
          (case write_fn (vnodes s n) of
             None \<Rightarrow> Some (0, s)
           | Some Pfs_vfs_write \<Rightarrow> pfs_vfs_write n offset sz buffer s
           | Some Console_write \<Rightarrow> Some (console_write sz buffer s)
           | Some Keyboard_write \<Rightarrow> Some (keyboard_write s)))"

definition vfs_readdir :: "vref option \<Rightarrow> u32 \<Rightarrow> vfs_state \<Rightarrow> dirent option" where
  "vfs_readdir node index s =
     (case node of
        None \<Rightarrow> None
      | Some n \<Rightarrow>
          if flags (vnodes s n) AND 7 = VFS_DIRECTORY
          then (case readdir_fn (vnodes s n) of
                  None \<Rightarrow> None
                | Some Initrd_readdir \<Rightarrow> initrd_readdir n index s
                | Some Pfs_vfs_readdir \<Rightarrow> pfs_vfs_readdir index s)
          else None)"

definition vfs_finddir :: "vref option \<Rightarrow> cstr \<Rightarrow> vfs_state \<Rightarrow> vref option \<times> vfs_state" where
  "vfs_finddir node name s =
     (case node of
        None \<Rightarrow> (None, s)
      | Some n \<Rightarrow>
          if flags (vnodes s n) AND 7 = VFS_DIRECTORY
          then (case finddir_fn (vnodes s n) of
                  None \<Rightarrow> (None, s)
                | Some Initrd_finddir \<Rightarrow> (initrd_finddir n name s, s)
                | Some Pfs_vfs_finddir \<Rightarrow> pfs_vfs_finddir name s)
          else (None, s))"

section \<open>Paths and mounts\<close>

text \<open>Copy characters up to a slash, the end or the room in the buffer; the component and the rest.\<close>

fun path_component :: "cstr \<Rightarrow> nat \<Rightarrow> cstr \<times> cstr" where
  "path_component p 0 = ([], p)"
| "path_component p (Suc n) =
     (if deref p \<noteq> 0 \<and> deref p \<noteq> 47
      then (case path_component (tl p) n of (c, r) \<Rightarrow> (deref p # c, r))
      else ([], p))"

definition skip_slash :: "cstr \<Rightarrow> cstr" where
  "skip_slash p = (if deref p = 47 then tl p else p)"

lemma path_component_length: "path_component p n = (c, r) \<Longrightarrow> length p = length c + length r"
proof (induction p n arbitrary: c r rule: path_component.induct)
  case (2 p n)
  then show ?case by (cases p) (auto split: if_splits prod.splits)
qed simp

lemma path_component_progress: "length (skip_slash (snd (path_component p (Suc n)))) < length p" if "deref p \<noteq> 0"
proof -
  obtain c r where cr: "path_component p (Suc n) = (c, r)" by fastforce
  have "length p = length c + length r" by (rule path_component_length [OF cr])
  moreover have "c \<noteq> [] \<or> deref r = 47 \<and> r \<noteq> []"
    using cr that deref_ne_0 [OF that] by (auto split: if_splits prod.splits)
  ultimately show ?thesis using cr by (cases r) (auto simp: skip_slash_def)
qed

function walk_path :: "cstr \<Rightarrow> vref option \<Rightarrow> vfs_state \<Rightarrow> vref option \<times> vfs_state" where
  "walk_path p current s =
     (if deref p = 0 \<or> current = None then (current, s)
      else let c = path_component p (VFS_NAME_MAX - 1);
               f = vfs_finddir current (fst c) s
           in walk_path (skip_slash (snd c)) (fst f) (snd f))"
  by pat_completeness auto

termination
  using path_component_progress [of _ 62]
  by (relation "measure (\<lambda>(p, current, s). length p)") (simp_all add: numeral_eq_Suc)

declare walk_path.simps [simp del]

text \<open>The mount whose prefix is the first component of the path, and the path below it.\<close>

definition find_mount :: "cstr \<Rightarrow> vfs_state \<Rightarrow> mount option" where
  "find_mount first s = find (\<lambda>m. mused m \<and> strcmp (prefix m) first = 0) (mounts s)"

definition vfs_lookup :: "cstr option \<Rightarrow> vfs_state \<Rightarrow> vref option \<times> vfs_state" where
  "vfs_lookup path s =
     (case (vfs_root s, path) of
        (Some root, Some path) \<Rightarrow>
          (let path = skip_slash path in
           if deref path = 0 then (Some root, s)
           else let (first, p) = path_component path (VFS_NAME_MAX - 1) in
             (case find_mount first s of
                Some m \<Rightarrow>
                  (let p = skip_slash p in
                   if deref p = 0 then (Some (mroot m), s) else vfs_finddir (Some (mroot m)) p s)
              | None \<Rightarrow> walk_path path (Some root) s))
      | _ \<Rightarrow> (None, s))"

definition vfs_mount :: "cstr \<Rightarrow> vref \<Rightarrow> vfs_state \<Rightarrow> vfs_state" where
  "vfs_mount pre root s =
     (case find (\<lambda>i. \<not> mused (mounts s ! i)) [0..<MAX_MOUNTS] of
        None \<Rightarrow> s
      | Some i \<Rightarrow> s\<lparr>mounts := (mounts s)[i := \<lparr>prefix = name_copy pre (VFS_NAME_MAX - 1), mroot = root, mused = True\<rparr>]\<rparr>)"

definition vfs_create :: "cstr \<Rightarrow> vfs_state \<Rightarrow> vref option \<times> vfs_state" where
  "vfs_create path s =
     (let (first, p) = path_component (skip_slash path) (VFS_NAME_MAX - 1) in
      case find_mount first s of
        Some m \<Rightarrow>
          (let p = skip_slash p in
           if deref p = 0 then (None, s)
           else case create_fn (vnodes s (mroot m)) of
                  Some Pfs_vfs_create \<Rightarrow> pfs_vfs_create p s
                | None \<Rightarrow> (None, s))
      | None \<Rightarrow> (None, s))"

section \<open>Reading the keyboard\<close>

lemma getchar_cons:
  assumes "kbd_inv k" "kbd_queue k = c # q"
  shows "\<exists>k'. keyboard_getchar_nonblock k = (c, k') \<and> kbd_inv k' \<and> kbd_queue k' = q"
  using kbd.get_contents [OF assms(1)] kbd.get_inv [OF assms(1)] assms(2)
  by (cases "buffer_get k") (auto simp: keyboard_getchar_nonblock_def)

lemma getchar_empty:
  assumes "kbd_inv k" "kbd_queue k = []"
  shows "keyboard_getchar_nonblock k = (0, k)"
  using assms ring_empty_iff [of "buffer_tail k" 256 "buffer_head k" "input_buffer k"]
  by (auto simp: keyboard_getchar_nonblock_def buffer_get_def kbd_inv_def kbd_queue_def)

lemma keyboard_more_queue:
  assumes "kbd_inv k" "0 \<notin> set (kbd_queue k)" "keyboard_more n k = (cs, k')"
  shows "cs = take n (kbd_queue k) \<and> kbd_queue k' = drop n (kbd_queue k) \<and> kbd_inv k'"
  using assms
proof (induction n arbitrary: k cs)
  case (Suc n)
  show ?case
  proof (cases "kbd_queue k")
    case Nil
    then show ?thesis using Suc.prems getchar_empty [OF Suc.prems(1)] by simp
  next
    case (Cons c q)
    then obtain k1 where k1: "keyboard_getchar_nonblock k = (c, k1)" "kbd_inv k1" "kbd_queue k1 = q"
      using getchar_cons [OF Suc.prems(1)] by blast
    then show ?thesis
      using Suc.IH [of k1] Suc.prems Cons by (auto split: prod.splits)
  qed
qed simp

text \<open>
  A read of the keyboard device returns the oldest typed characters, as many as fit, in the
  order they were typed, and leaves the rest in the buffer. It blocks exactly when room was asked for and nothing
  has been typed; the reader is then the one that the next key press wakes.
\<close>

theorem keyboard_read_correct:
  assumes "kbd_inv k" "0 \<notin> set (kbd_queue k)" "keyboard_read self sz k = (r, k')"
  shows "kbd_inv k' \<and>
    (if sz \<noteq> 0 \<and> kbd_queue k = [] then r = None \<and> k' = keyboard_set_waiter self k
     else r = Some (take (unat sz) (kbd_queue k)) \<and> kbd_queue k' = drop (unat sz) (kbd_queue k))"
proof (cases "kbd_queue k")
  case Nil
  then show ?thesis
    using assms getchar_empty [OF assms(1) Nil]
    by (auto simp: keyboard_read_def keyboard_set_waiter_def kbd_inv_def split: if_splits)
next
  case (Cons c q)
  then obtain k1 where k1: "keyboard_getchar_nonblock k = (c, k1)" "kbd_inv k1" "kbd_queue k1 = q"
    using getchar_cons [OF assms(1)] by blast
  obtain cs k2 where m: "keyboard_more (unat sz - 1) k1 = (cs, k2)" by fastforce
  have "0 \<notin> set (kbd_queue k1)" using assms(2) Cons k1(3) by simp
  note more = keyboard_more_queue [OF k1(2) this m]
  show ?thesis
  proof (cases "sz = 0")
    case False
    then obtain n where n: "unat sz = Suc n" by (cases "unat sz") (auto simp: unat_eq_0)
    show ?thesis using assms Cons k1 m more n False by (simp add: keyboard_read_def)
  qed (use assms Cons in \<open>auto simp: keyboard_read_def\<close>)
qed

text \<open>\<^verbatim>\<open>h\<close> and \<^verbatim>\<open>i\<close> typed into the example keyboard; a read of one character.\<close>

theorem keyboard_read_correct_witness:
  "\<exists>k'. keyboard_read 0 1 (buffer_put 105 (buffer_put 104 keyboard_example)) = (Some [104], k') \<and> kbd_queue k' = [105]"
proof -
  let ?k = "buffer_put 105 (buffer_put 104 keyboard_example)"
  have "kbd_inv ?k \<and> kbd_queue ?k = [104, 105]"
    by (simp add: keyboard_example_def kbd_inv_def kbd_queue_def buffer_put_def ring_list_def ring_count_def upt_rec)
  then show ?thesis
    using keyboard_read_correct [of ?k 0 1] by (cases "keyboard_read 0 1 ?k") auto
qed

section \<open>The walk along a path\<close>

text \<open>The components of a path: what stands between slashes; one slash at the end does not count.\<close>

fun components :: "cstr \<Rightarrow> cstr list" where
  "components [] = []"
| "components (c # p) =
     (let first = takeWhile (\<lambda>c. c \<noteq> 47) (c # p) in first # components (drop (length first + 1) (c # p)))"

definition walk :: "cstr list \<Rightarrow> vref option \<Rightarrow> vfs_state \<Rightarrow> vref option \<times> vfs_state" where
  "walk cs node s = fold (\<lambda>c (node, s). vfs_finddir node c s) cs (node, s)"

lemma path_component_takeWhile:
  assumes "0 \<notin> set p" "length (takeWhile (\<lambda>c. c \<noteq> 47) p) \<le> n"
  shows "path_component p n = (takeWhile (\<lambda>c. c \<noteq> 47) p, dropWhile (\<lambda>c. c \<noteq> 47) p)"
  using assms
proof (induction p n rule: path_component.induct)
  case (2 p n)
  then show ?case by (cases p) auto
next
  case (1 p)
  then show ?case by (cases p) (auto split: if_splits)
qed

lemma skip_slash_dropWhile:
  "skip_slash (dropWhile (\<lambda>c. c \<noteq> 47) p) = drop (length (takeWhile (\<lambda>c. c \<noteq> 47) p) + 1) p"
  by (induction p) (auto simp: skip_slash_def)

lemma walk_None [simp]: "walk cs None s = (None, s)"
  by (induction cs) (simp_all add: walk_def vfs_finddir_def)

lemma walk_path_components:
  assumes "0 \<notin> set p" "\<forall>c \<in> set (components p). length c \<le> 63"
  shows "walk_path p node s = walk (components p) node s"
  using assms
proof (induction p arbitrary: node s rule: components.induct)
  case 1
  show ?case by (subst walk_path.simps) (simp add: walk_def)
next
  case (2 c p)
  let ?p = "c # p" and ?w = "takeWhile (\<lambda>c. c \<noteq> 47) (c # p)"
  let ?r = "drop (length ?w + 1) ?p"
  have pc: "path_component ?p 63 = (?w, dropWhile (\<lambda>c. c \<noteq> 47) ?p)"
    using 2(2,3) by (intro path_component_takeWhile) (simp_all add: Let_def)
  have ss: "skip_slash (dropWhile (\<lambda>c. c \<noteq> 47) ?p) = ?r" by (rule skip_slash_dropWhile)
  have ne: "deref ?p \<noteq> 0" using 2(2) by auto
  show ?case
  proof (cases node)
    case None
    then show ?thesis by (subst walk_path.simps) simp
  next
    case (Some n)
    obtain f s' where f: "vfs_finddir node ?w s = (f, s')" by fastforce
    have "walk_path ?p node s = walk_path ?r f s'"
      using ne Some f pc ss by (subst walk_path.simps) (simp add: Let_def)
    also have "\<dots> = walk (components ?r) f s'"
      using 2(2,3) by (intro 2(1) [OF refl]) (auto simp: Let_def dest: in_set_dropD)
    also have "\<dots> = walk (components ?p) node s" using f by (simp add: walk_def Let_def)
    finally show ?thesis .
  qed
qed

text \<open>
  C27: path resolution. \<^verbatim>\<open>vfs_lookup\<close> always returns; it strips one leading slash, splits the path
  at the slashes, and looks the components up one after the other from the root. When the
  first component names a mount point, the whole rest of the path is handed to the directory
  mounted there.
\<close>

theorem vfs_lookup_correct:
  assumes "vfs_root s = Some root" "0 \<notin> set path" "\<forall>c \<in> set (components path). length c \<le> 63" "hd path \<noteq> 47 \<or> path = []"
  shows "vfs_lookup (Some path) s = vfs_lookup (Some (47 # path)) s \<and>
    vfs_lookup (Some path) s =
      (case components path of
         [] \<Rightarrow> (Some root, s)
       | c # cs \<Rightarrow>
           (case find (\<lambda>m. mused m \<and> cstr_of (prefix m) = c) (mounts s) of
              None \<Rightarrow> walk (c # cs) (Some root) s
            | Some m \<Rightarrow>
                let below = drop (length c + 1) path in
                if below = [] then (Some (mroot m), s) else vfs_finddir (Some (mroot m)) below s))"
proof (cases path)
  case Nil
  then show ?thesis using assms(1) by (simp add: vfs_lookup_def skip_slash_def)
next
  case (Cons d p)
  let ?w = "takeWhile (\<lambda>c. c \<noteq> 47) path"
  have ss: "skip_slash path = path" using assms(4) Cons by (simp add: skip_slash_def)
  have same: "vfs_lookup (Some path) s = vfs_lookup (Some (47 # path)) s"
    using assms(1) ss by (simp add: vfs_lookup_def skip_slash_def [of "47 # path"])
  have cs: "components path = ?w # components (drop (length ?w + 1) path)" using Cons by (simp add: Let_def)
  have pc: "path_component path 63 = (?w, dropWhile (\<lambda>c. c \<noteq> 47) path)"
    using assms(2,3) cs by (intro path_component_takeWhile) auto
  have below: "skip_slash (dropWhile (\<lambda>c. c \<noteq> 47) path) = drop (length ?w + 1) path"
    by (rule skip_slash_dropWhile)
  have nz: "deref path \<noteq> 0" "cstr_of ?w = ?w"
    using assms(2) Cons by (auto intro!: cstr_of_id dest: set_takeWhileD)
  have nb: "deref (drop (length ?w + 1) path) = 0 \<longleftrightarrow> drop (length ?w + 1) path = []"
    using assms(2) in_set_dropD [of 0 "length ?w + 1" path] by (cases "drop (length ?w + 1) path") auto
  show ?thesis
    unfolding cs using same assms(1) ss pc nz nb below walk_path_components [OF assms(2,3)] cs
    by (auto simp: vfs_lookup_def find_mount_def strcmp_0_iff Let_def split: option.splits)
qed

text \<open>The disk mounted as \<^verbatim>\<open>disk\<close>; \<^verbatim>\<open>/disk\<close> is its root directory.\<close>

definition mounted_example :: vfs_state where
  "mounted_example = vfs_mount (cstr_lit ''disk'') Pfs_root (snd (pfs_vfs_init (initrd_example\<lparr>vfs_root := Some Initrd_root\<rparr>)))"

lemma mounted_example_mounts:
  "find (\<lambda>m. mused m \<and> cstr_of (prefix m) = cstr_lit ''disk'') (mounts mounted_example) =
     Some \<lparr>prefix = cstr_lit ''disk'', mroot = Pfs_root, mused = True\<rparr>"
proof -
  have "name_copy (cstr_lit ''disk'') 63 = cstr_lit ''disk''" "cstr_of (cstr_lit ''disk'') = cstr_lit ''disk''"
    by (simp_all add: name_copy_63 cstr_of_id cstr_lit_def)
  moreover have "replicate 4 x = [x, x, x, x]" for x :: mount by (simp add: numeral_eq_Suc)
  moreover have "[0..<4] = [0, 1, 2, 3]" by (simp add: upt_rec)
  ultimately show ?thesis
    by (simp add: mounted_example_def vfs_mount_def initrd_example_def pfs_vfs_init_def)
qed

theorem vfs_lookup_correct_witness:
  "vfs_lookup (Some (cstr_lit ''/disk'')) mounted_example = (Some Pfs_root, mounted_example)"
proof -
  have "components (cstr_lit ''disk'') = [cstr_lit ''disk'']" "0 \<notin> set (cstr_lit ''disk'')"
    "hd (cstr_lit ''disk'') \<noteq> 47" "cstr_lit ''/disk'' = 47 # cstr_lit ''disk''" "length (cstr_lit ''disk'') = 4"
    by (simp_all add: cstr_lit_def)
  moreover have "vfs_root mounted_example = Some Initrd_root"
    by (simp add: mounted_example_def vfs_mount_def initrd_example_def pfs_vfs_init_def split: option.split)
  ultimately show ?thesis
    using vfs_lookup_correct [of mounted_example Initrd_root "cstr_lit ''disk''"] mounted_example_mounts by fastforce
qed

end
