(* ===== verification/Vmm_Space.thy ===== *)
theory Vmm_Space
  imports Kheap
begin

text \<open>
  Whole address spaces: \<^verbatim>\<open>vmm_destroy_address_space\<close> and \<^verbatim>\<open>vmm_clone_address_space\<close> of
  \<^verbatim>\<open>kernel/kernel/vmm.c\<close>, and byte and page access through the page tables. A fault is \<open>None\<close>.
  The two functions of \<^verbatim>\<open>task.c\<close> that switch preemption are here because destroying a space uses them.
\<close>

section \<open>Memory access\<close>

definition vread8 :: "u32 \<Rightarrow> machine \<Rightarrow> u8 option" where
  "vread8 v m = do { (f, k) \<leftarrow> translate m v; Some (pmem m f k) }"

definition vwrite8 :: "u32 \<Rightarrow> u8 \<Rightarrow> machine \<Rightarrow> machine option" where
  "vwrite8 v x m = do { (f, k) \<leftarrow> translate m v; Some (m\<lparr>pmem := (pmem m)(f := (pmem m f)(k := x))\<rparr>) }"

fun vread_bytes :: "u32 \<Rightarrow> nat \<Rightarrow> machine \<Rightarrow> u8 list option" where
  "vread_bytes v 0 m = Some []"
| "vread_bytes v (Suc n) m = do { x \<leftarrow> vread8 v m; xs \<leftarrow> vread_bytes (v + 1) n m; Some (x # xs) }"

fun vwrite_bytes :: "u32 \<Rightarrow> u8 list \<Rightarrow> machine \<Rightarrow> machine option" where
  "vwrite_bytes v [] m = Some m"
| "vwrite_bytes v (x # xs) m = do { m \<leftarrow> vwrite8 v x m; vwrite_bytes (v + 1) xs m }"

text \<open>The frame behind a page-aligned address, and a copy of a whole page to it.\<close>

definition vread_page :: "u32 \<Rightarrow> machine \<Rightarrow> (nat \<Rightarrow> u8) option" where
  "vread_page v m = do { (f, k) \<leftarrow> translate m v; Some (pmem m f) }"

definition vwrite_page :: "u32 \<Rightarrow> (nat \<Rightarrow> u8) \<Rightarrow> machine \<Rightarrow> machine option" where
  "vwrite_page v page m = do { (f, k) \<leftarrow> translate m v; Some (m\<lparr>pmem := (pmem m)(f := page)\<rparr>) }"

definition free_frame :: "u32 \<Rightarrow> machine \<Rightarrow> machine" where
  "free_frame a m = m\<lparr>pmm_state := pmm_free_page a (pmm_state m)\<rparr>"

section \<open>Destroying an address space\<close>

definition scheduler_enable_preemption :: "machine \<Rightarrow> machine" where
  "scheduler_enable_preemption m = m\<lparr>preemption_enabled := True\<rparr>"

definition scheduler_disable_preemption :: "machine \<Rightarrow> machine" where
  "scheduler_disable_preemption m = m\<lparr>preemption_enabled := False\<rparr>"

abbreviation (input) SCRATCH_PAGE :: u32 where "SCRATCH_PAGE \<equiv> 0xE0000000"

text \<open>The inner loop: free every page that the table in the scratch slot maps.\<close>

definition free_table_pages :: "machine \<Rightarrow> machine option" where
  "free_table_pages m =
     for_each (\<lambda>pti m. do {
       pte \<leftarrow> vread32 (SCRATCH_PAGE + 4 * of_nat pti) m;
       Some (if pte AND PTE_PRESENT \<noteq> 0 then free_frame (pte AND 0xFFFFF000) m else m) }) [0..<1024] m"

text \<open>The outer loop over the user half; the flag tells whether it ran to its end.\<close>

fun destroy_tables :: "u32 \<Rightarrow> nat list \<Rightarrow> machine \<Rightarrow> (bool \<times> machine) option" where
  "destroy_tables pd_phys [] m = Some (True, m)"
| "destroy_tables pd_phys (pdi # pdis) m =
     do {
       pde \<leftarrow> vread32 (SCRATCH_PAGE + 4 * of_nat pdi) m;
       if pde AND PTE_PRESENT = 0 then destroy_tables pd_phys pdis m
       else do {
         let pt_phys = pde AND 0xFFFFF000;
         (_, m) \<leftarrow> vmm_unmap_page SCRATCH_PAGE m;
         (ok, m) \<leftarrow> vmm_map_page SCRATCH_PAGE pt_phys (PTE_PRESENT OR PTE_WRITABLE) m;
         if \<not> ok then do {
           (_, m) \<leftarrow> vmm_map_page SCRATCH_PAGE pd_phys (PTE_PRESENT OR PTE_WRITABLE) m;
           destroy_tables pd_phys pdis m }
         else do {
           m \<leftarrow> free_table_pages m;
           (_, m) \<leftarrow> vmm_unmap_page SCRATCH_PAGE m;
           (ok, m) \<leftarrow> vmm_map_page SCRATCH_PAGE pd_phys (PTE_PRESENT OR PTE_WRITABLE) (free_frame pt_phys m);
           if \<not> ok then Some (False, scheduler_enable_preemption (free_frame pd_phys m))
           else destroy_tables pd_phys pdis m } } }"

definition vmm_destroy_address_space :: "u32 \<Rightarrow> machine \<Rightarrow> machine option" where
  "vmm_destroy_address_space pd_phys m =
     do {
       let m = scheduler_disable_preemption m;
       (ok, m) \<leftarrow> vmm_map_page SCRATCH_PAGE pd_phys (PTE_PRESENT OR PTE_WRITABLE) m;
       if \<not> ok then Some (free_frame pd_phys (scheduler_enable_preemption m))
       else do {
         (done, m) \<leftarrow> destroy_tables pd_phys [0..<768] m;
         if \<not> done then Some m
         else do {
           (_, m) \<leftarrow> vmm_unmap_page SCRATCH_PAGE m;
           Some (scheduler_enable_preemption (free_frame pd_phys m)) } } }"

section \<open>Cloning an address space\<close>

text \<open>
  Copy one page of the source into the child. The bounce buffer lies on the kernel heap; its
  contents are the value \<open>page\<close>. The flag is false when memory ran out.
\<close>

definition clone_page :: "u32 \<Rightarrow> u32 \<Rightarrow> u32 \<Rightarrow> u32 \<Rightarrow> machine \<Rightarrow> (bool \<times> machine) option" where
  "clone_page src_pd child_pd vaddr src_flags m =
     do {
       page \<leftarrow> vread_page vaddr m;
       let m = vmm_switch_address_space child_pd m;
       let (p, child_phys) = pmm_alloc_page (pmm_state m);
       let m = m\<lparr>pmm_state := p\<rparr>;
       if child_phys = 0 then Some (False, m)
       else do {
         (ok, m) \<leftarrow> vmm_map_page vaddr child_phys src_flags m;
         if \<not> ok then Some (False, free_frame child_phys m)
         else do {
           m \<leftarrow> vwrite_page vaddr page m;
           Some (True, vmm_switch_address_space src_pd m) } } }"

fun clone_table :: "u32 \<Rightarrow> u32 \<Rightarrow> nat \<Rightarrow> nat list \<Rightarrow> machine \<Rightarrow> (bool \<times> machine) option" where
  "clone_table src_pd child_pd pdi [] m = Some (True, m)"
| "clone_table src_pd child_pd pdi (pti # ptis) m =
     do {
       pte \<leftarrow> vread32 (0xFFC00000 + of_nat pdi * PAGE_SIZE + 4 * of_nat pti) m;
       if pte AND PTE_PRESENT = 0 then clone_table src_pd child_pd pdi ptis m
       else do {
         (ok, m) \<leftarrow> clone_page src_pd child_pd (push_bit 22 (of_nat pdi) OR push_bit 12 (of_nat pti)) (pte AND 0xFFF) m;
         if ok then clone_table src_pd child_pd pdi ptis m else Some (False, m) } }"

fun clone_tables :: "u32 \<Rightarrow> u32 \<Rightarrow> nat list \<Rightarrow> machine \<Rightarrow> (bool \<times> machine) option" where
  "clone_tables src_pd child_pd [] m = Some (True, m)"
| "clone_tables src_pd child_pd (pdi # pdis) m =
     do {
       pde \<leftarrow> vread32 (vmm_get_page_directory + 4 * of_nat pdi) m;
       if pde AND PTE_PRESENT = 0 then clone_tables src_pd child_pd pdis m
       else do {
         (ok, m) \<leftarrow> clone_table src_pd child_pd pdi [0..<1024] m;
         if ok then clone_tables src_pd child_pd pdis m else Some (False, m) } }"

definition vmm_clone_address_space :: "u32 \<Rightarrow> heap \<Rightarrow> (u32 \<times> heap) option" where
  "vmm_clone_address_space src_pd_phys h =
     do {
       (child_pd, m) \<leftarrow> vmm_create_address_space (mach h);
       let h = h\<lparr>mach := m\<rparr>;
       if child_pd = 0 then Some (0, h)
       else do {
         (page_buffer, h) \<leftarrow> kmalloc PAGE_SIZE h;
         if page_buffer = 0 then do {
           m \<leftarrow> vmm_destroy_address_space child_pd (mach h);
           Some (0, h\<lparr>mach := m\<rparr>) }
         else do {
           let saved_pd = vmm_get_current_address_space (mach h);
           let m = (if saved_pd \<noteq> src_pd_phys then vmm_switch_address_space src_pd_phys (mach h) else mach h);
           (ok, m) \<leftarrow> clone_tables src_pd_phys child_pd [0..<768] m;
           let h = kfree page_buffer (h\<lparr>mach := m\<rparr>);
           let m = vmm_switch_address_space saved_pd (mach h);
           if ok then Some (child_pd, h\<lparr>mach := m\<rparr>)
           else do {
             m \<leftarrow> vmm_destroy_address_space child_pd m;
             Some (0, h\<lparr>mach := m\<rparr>) } } } }"

text \<open>The number of mapped pages that \<^verbatim>\<open>vmm_print_mappings\<close> reports.\<close>

definition count_table :: "nat \<Rightarrow> machine \<Rightarrow> nat option" where
  "count_table pdi m =
     map_option snd (for_each (\<lambda>j (m, n). do {
       pte \<leftarrow> vread32 (vmm_get_page_table (of_nat pdi) + 4 * of_nat j) m;
       Some (m, if pte AND PTE_PRESENT \<noteq> 0 then n + 1 else n) }) [0..<1024] (m, 0))"

definition vmm_print_mappings :: "machine \<Rightarrow> nat option" where
  "vmm_print_mappings m =
     map_option snd (for_each (\<lambda>i (m, n). do {
       pde \<leftarrow> vread32 (vmm_get_page_directory + 4 * of_nat i) m;
       if pde AND PTE_PRESENT \<noteq> 0 \<and> i \<noteq> RECURSIVE_ENTRY
       then do { k \<leftarrow> count_table i m; Some (m, n + k) }
       else Some (m, n) }) [0..<1024] (m, 0))"

section \<open>Data pages and table pages\<close>

definition table_frames :: "machine \<Rightarrow> nat set" where
  "table_frames m = (\<lambda>i. pte_frame (pde m i)) ` table_indices m"

abbreviation (input) user_addr :: "u32 \<Rightarrow> bool" where
  "user_addr v \<equiv> unat v < 0xC0000000"

text \<open>
  The user half is private and separate from the paging structures: a frame mapped there is in
  use, holds no page table, and is mapped at one page only.
\<close>

definition data_ok :: "machine \<Rightarrow> bool" where
  "data_ok m \<longleftrightarrow>
     (\<forall>v f k. user_addr v \<and> translate m v = Some (f, k) \<longrightarrow>
        f \<in> used_frames (pmm_state m) \<and> f \<notin> table_frames m) \<and>
     (\<forall>v w f k l. user_addr v \<and> user_addr w \<and> translate m v = Some (f, k) \<and> translate m w = Some (f, l) \<longrightarrow>
        unat v div 4096 = unat w div 4096)"

definition space_wf :: "machine \<Rightarrow> bool" where
  "space_wf m \<longleftrightarrow> vm_wf m \<and> data_ok m"

lemma table_frame_1023: "vm_wf m \<Longrightarrow> pdf m \<in> table_frames m"
  using table_1023 [of m] imageI [of 1023 "table_indices m" "\<lambda>i. pte_frame (pde m i)"]
  by (simp add: table_frames_def vm_wf_def rec_ok_def)

lemma translate_offset: "translate m v = Some (f, k) \<Longrightarrow> k = unat v mod 4096"
  by (simp add: translate_entries split: if_splits)

lemma translate_page:
  assumes "unat v div 4096 = unat w div 4096"
  shows "translate m v = map_option (\<lambda>(f, _). (f, unat v mod 4096)) (translate m w)"
  using same_page_iff [of v w] assms by (auto simp: translate_entries)

text \<open>Writing to a frame that holds no table leaves the translation as it is.\<close>

lemma data_frame_write:
  assumes "vm_wf m" "f \<notin> table_frames m" "m' = m\<lparr>pmem := (pmem m)(f := g)\<rparr>"
  shows "pde m' = pde m" "table_frames m' = table_frames m" "translate m' = translate m" "vm_wf m'"
proof -
  have d: "pdf m \<noteq> f" using table_frame_1023 [OF assms(1)] assms(2) by auto
  show pd: "pde m' = pde m" using d by (simp add: fun_eq_iff pde_def pdf_def ld32_def assms(3))
  then have ti: "table_indices m' = table_indices m" by (simp add: table_indices_def)
  then show tf: "table_frames m' = table_frames m" by (simp add: table_frames_def pd)
  have pt: "pte m' i j = pte m i j" if "i \<in> table_indices m" for i j
  proof -
    have "pte_frame (pde m i) \<noteq> f" using that assms(2) by (auto simp: table_frames_def)
    then show ?thesis unfolding pte_def pd by (simp add: assms(3) ld32_def)
  qed
  show "translate m' = translate m"
  proof
    fix v
    have "present (pde m (unat (pd_index v))) \<longleftrightarrow> unat (pd_index v) \<in> table_indices m"
      using pd_index_lt [of v] by (simp add: table_indices_def)
    then show "translate m' v = translate m v" by (auto simp: translate_entries pd pt)
  qed
  show "vm_wf m'"
    using assms(1) unfolding vm_wf_def rec_ok_def ti pd by (simp add: assms(3) pdf_def)
qed

definition same_map :: "machine \<Rightarrow> machine \<Rightarrow> bool" where
  "same_map m m' \<longleftrightarrow> translate m' = translate m \<and> cr3 m' = cr3 m \<and> pmm_state m' = pmm_state m \<and>
     table_frames m' = table_frames m \<and> space_wf m'"

lemma same_map_refl: "space_wf m \<Longrightarrow> same_map m m"
  by (simp add: same_map_def)

lemma same_map_trans: "same_map a b \<Longrightarrow> same_map b c \<Longrightarrow> same_map a c"
  by (simp add: same_map_def)

lemma page_write:
  assumes "space_wf m" "user_addr v" "translate m v = Some (f, k)" "m' = m\<lparr>pmem := (pmem m)(f := g)\<rparr>"
  shows "same_map m m'"
    and "user_addr w \<Longrightarrow> vread8 w m' = (if unat w div 4096 = unat v div 4096 then Some (g (unat w mod 4096)) else vread8 w m)"
proof -
  have nt: "f \<notin> table_frames m" using assms(1-3) by (auto simp: space_wf_def data_ok_def)
  note dw = data_frame_write [OF _ nt assms(4)]
  show sm: "same_map m m'"
    using assms(1,4) dw by (auto simp: same_map_def space_wf_def data_ok_def)
  assume w: "user_addr w"
  show "vread8 w m' = (if unat w div 4096 = unat v div 4096 then Some (g (unat w mod 4096)) else vread8 w m)"
  proof (cases "unat w div 4096 = unat v div 4096")
    case True
    then have "translate m w = Some (f, unat w mod 4096)" using translate_page [OF True] assms(3) by simp
    then show ?thesis using True sm assms(4) by (simp add: vread8_def same_map_def)
  next
    case False
    have "fst p \<noteq> f" if "translate m w = Some p" for p
      using that False w assms(1-3) unfolding space_wf_def data_ok_def by (metis prod.collapse)
    then show ?thesis using False sm assms(4) by (cases "translate m w") (auto simp: vread8_def same_map_def)
  qed
qed

lemma unat_eq_page: "unat (v :: u32) = unat w \<longleftrightarrow> unat v div 4096 = unat w div 4096 \<and> unat v mod 4096 = unat w mod 4096"
  by (metis mult_div_mod_eq)

lemma byte_write:
  assumes "space_wf m" "user_addr v" "translate m v \<noteq> None"
  shows "\<exists>m'. vwrite8 v x m = Some m' \<and> same_map m m' \<and>
    (\<forall>w. user_addr w \<longrightarrow> vread8 w m' = (if w = v then Some x else vread8 w m))"
proof -
  obtain f k where t: "translate m v = Some (f, k)" using assms(3) by auto
  let ?m = "m\<lparr>pmem := (pmem m)(f := (pmem m f)(k := x))\<rparr>"
  note pw = page_write [OF assms(1,2) t refl, where g = "(pmem m f)(k := x)"]
  have "vread8 w ?m = (if w = v then Some x else vread8 w m)" if "user_addr w" for w
    using pw(2) [OF that] translate_offset [OF t] translate_page [of w v m] t unat_eq_page [of w v]
    by (auto simp: vread8_def word_eq_unat)
  then show ?thesis using t pw(1) by (intro exI [of _ ?m]) (simp add: vwrite8_def)
qed

lemma bytes_write:
  assumes "space_wf m" "unat v + length xs \<le> 0xC0000000" "\<forall>w. unat v \<le> unat w \<and> unat w < unat v + length xs \<longrightarrow> translate m w \<noteq> None"
  shows "\<exists>m'. vwrite_bytes v xs m = Some m' \<and> same_map m m' \<and>
    (\<forall>w. user_addr w \<longrightarrow> vread8 w m' =
       (if unat v \<le> unat w \<and> unat w < unat v + length xs then Some (xs ! (unat w - unat v)) else vread8 w m))"
  using assms
proof (induction xs arbitrary: v m)
  case Nil
  then show ?case using same_map_refl by auto
next
  case (Cons x xs)
  have v1: "unat (v + 1) = unat v + 1" using Cons.prems(2) unat_add_u32 [of v 1] by simp
  have u: "user_addr v" "translate m v \<noteq> None" using Cons.prems(2,3) by auto
  from byte_write [OF Cons.prems(1) u] obtain m1 where m1: "vwrite8 v x m = Some m1" "same_map m m1"
    "\<forall>w. user_addr w \<longrightarrow> vread8 w m1 = (if w = v then Some x else vread8 w m)" by blast
  have "space_wf m1" "unat (v + 1) + length xs \<le> 0xC0000000"
    "\<forall>w. unat (v + 1) \<le> unat w \<and> unat w < unat (v + 1) + length xs \<longrightarrow> translate m1 w \<noteq> None"
    using m1(2) Cons.prems v1 by (auto simp: same_map_def)
  from Cons.IH [OF this] obtain m2 where m2: "vwrite_bytes (v + 1) xs m1 = Some m2" "same_map m1 m2"
    "\<forall>w. user_addr w \<longrightarrow> vread8 w m2 =
       (if unat (v + 1) \<le> unat w \<and> unat w < unat (v + 1) + length xs then Some (xs ! (unat w - unat (v + 1))) else vread8 w m1)"
    by blast
  have "vread8 w m2 = (if unat v \<le> unat w \<and> unat w < unat v + length (x # xs)
      then Some ((x # xs) ! (unat w - unat v)) else vread8 w m)" if "user_addr w" for w
    using that m1(3) m2(3) v1 by (auto simp: word_eq_unat nth_Cons' le_less Suc_le_eq)
  then show ?case using m1 m2(1,2) same_map_trans [OF m1(2) m2(2)] by (intro exI [of _ m2]) simp
qed

section \<open>Mapping a fresh page\<close>

lemma st32_other_frame: "f \<noteq> g \<Longrightarrow> st32 mem g i x f = mem f"
  by (simp add: st32_def)

lemma new_table_pmem: "f \<noteq> pdf m \<Longrightarrow> f \<noteq> pte_frame a \<Longrightarrow> pmem (new_table i a flags m) f = pmem m f"
  by (simp add: new_table_def zero_table_def set_pde_def st32_other_frame pte_frame_new pde_def pdf_def)

text \<open>
  What \<^verbatim>\<open>vmm_map_page\<close> does to frames: it writes to table frames only, and the one table it may
  add lies in a frame that was free.
\<close>

lemma map_page_frames:
  assumes "vm_wf m" "unat v < 0xFFC00000" "vmm_map_page v pa flags m = Some (True, m')"
  shows "\<exists>F. F \<inter> used_frames (pmm_state m) = {} \<and> table_frames m' = table_frames m \<union> F \<and>
    used_frames (pmm_state m') = used_frames (pmm_state m) \<union> F \<and>
    (\<forall>f. f \<notin> table_frames m' \<longrightarrow> pmem m' f = pmem m f)"
proof -
  let ?i = "unat (pd_index v)" and ?j = "unat (pt_index v)" and ?x = "(pa AND 0xFFFFF000) OR (flags AND 0xFFF) OR 1"
  obtain p a where al: "pmm_alloc_page (pmm_state m) = (p, a)" by fastforce
  have v: "?i \<noteq> 1023" "?i < 1023" using assms(2) pd_index_lt [of v] by (auto simp: pd_index_kernel)
  note steps = vmm_map_page_steps [OF assms(1) v(1), of pa flags, unfolded al Let_def prod.case]
  show ?thesis
  proof (cases "present (pde m ?i)")
    case True
    then have ti: "?i \<in> table_indices m" using v by (simp add: table_indices_def)
    have m': "m' = set_pte ?i ?j ?x m" using assms(3) steps True by simp
    have "table_frames m' = table_frames m"
      using set_pte_entries(1) [OF assms(1) ti v(1)] by (simp add: m' table_frames_def table_indices_def)
    moreover have "pte_frame (pde m ?i) \<in> table_frames m" using ti by (simp add: table_frames_def)
    moreover have "pmem m' f = pmem m f" if "f \<noteq> pte_frame (pde m ?i)" for f
      using that by (simp add: m' set_pte_def st32_other_frame)
    moreover have "pmm_state m' = pmm_state m" by (simp add: m')
    ultimately show ?thesis by (intro exI [of _ "{}"]) (metis Int_empty_left Un_empty_right)
  next
    case np: False
    then have a: "a \<noteq> 0" and m': "m' = set_pte ?i ?j ?x (new_table ?i a flags (m\<lparr>pmm_state := p\<rparr>))"
      using assms(3) steps by (auto split: if_splits)
    let ?n = "new_table ?i a flags (m\<lparr>pmm_state := p\<rparr>)"
    note fr = fresh_frame [OF assms(1) al a] and nt = new_table_wf [OF assms(1) v(2) np al a, of flags]
      and ne = new_table_entries(1) [OF assms(1) v(2) np al a, of flags]
    have ti: "?i \<in> table_indices ?n" by (simp add: nt(2))
    have pd: "pde m' = pde ?n" using set_pte_entries(1) [OF nt(1) ti v(1)] by (simp add: m')
    have "?i \<notin> table_indices m" using np by (simp add: table_indices_def)
    then have tf: "table_frames m' = insert (pte_frame a) (table_frames m)"
      using nt(2) pd by (auto simp: table_frames_def table_indices_def ne pte_frame_new image_iff split: if_splits)
    have "pmem m' f = pmem m f" if "f \<notin> table_frames m'" for f
    proof -
      have "f \<noteq> pte_frame a" "f \<noteq> pdf m" using that tf table_frame_1023 [OF assms(1)] by auto
      moreover have "f \<noteq> pte_frame (pde ?n ?i)" using calculation by (simp add: ne pte_frame_new)
      ultimately show ?thesis by (simp add: m' set_pte_def st32_other_frame new_table_pmem)
    qed
    then show ?thesis using tf fr(2,5) by (intro exI [of _ "{pte_frame a}"]) (auto simp: m')
  qed
qed

lemma space_wf_vm [simp]: "space_wf m \<Longrightarrow> vm_wf m"
  by (simp add: space_wf_def)

lemma translate_pmm [simp]: "translate (m\<lparr>pmm_state := p\<rparr>) = translate m"
  by (simp add: fun_eq_iff translate_entries)

lemma space_wf_pmm_mono:
  assumes "space_wf m" "pmm_inv p" "used_frames (pmm_state m) \<subseteq> used_frames p"
  shows "space_wf (m\<lparr>pmm_state := p\<rparr>)"
  using assms vm_wf_pmm_mono [of m p] by (auto simp: space_wf_def data_ok_def table_frames_def)

lemma map_fresh_page:
  assumes "space_wf m" "user_addr v" "translate m v = None" "pmm_alloc_page (pmm_state m) = (p, phys)" "phys \<noteq> 0"
  shows "\<exists>ok m'. vmm_map_page v phys flags (m\<lparr>pmm_state := p\<rparr>) = Some (ok, m') \<and> space_wf m' \<and> cr3 m' = cr3 m \<and>
    (if ok then (\<forall>w. unat w < 0xFFC00000 \<longrightarrow> translate m' w =
         (if unat w div 4096 = unat v div 4096 then Some (unat phys div 4096, unat w mod 4096) else translate m w)) \<and>
       (\<forall>w. user_addr w \<and> unat w div 4096 \<noteq> unat v div 4096 \<longrightarrow> vread8 w m' = vread8 w m)
     else m' = m\<lparr>pmm_state := p\<rparr>)"
proof -
  let ?m = "m\<lparr>pmm_state := p\<rparr>"
  note fr = fresh_frame [OF space_wf_vm [OF assms(1)] assms(4,5)]
  have wf: "space_wf ?m" using fr(1,2) by (intro space_wf_pmm_mono [OF assms(1)]) auto
  have v: "unat v < 0xFFC00000" using assms(2) by simp
  from map_page_spec [OF space_wf_vm [OF wf] v, of phys flags] obtain ok m'
    where m': "vmm_map_page v phys flags ?m = Some (ok, m')" "vm_wf m'" "cr3 m' = cr3 ?m"
      "ok \<Longrightarrow> unat w div 4096 = unat v div 4096 \<Longrightarrow> translate m' w = Some (unat phys div 4096, unat w mod 4096)"
      "unat w < 0xFFC00000 \<Longrightarrow> unat w div 4096 \<noteq> unat v div 4096 \<Longrightarrow> translate m' w = translate ?m w"
      "\<not> ok \<Longrightarrow> m' = ?m" for w
    by blast
  show ?thesis
  proof (cases ok)
    case False
    then show ?thesis using m' wf by auto
  next
    case True
    have "vmm_map_page v phys flags ?m = Some (True, m')" using m'(1) True by simp
    from map_page_frames [OF space_wf_vm [OF wf] v this] obtain F
      where F0: "F \<inter> used_frames (pmm_state ?m) = {}" "table_frames m' = table_frames ?m \<union> F"
        "used_frames (pmm_state m') = used_frames (pmm_state ?m) \<union> F"
        "\<forall>f. f \<notin> table_frames m' \<longrightarrow> pmem m' f = pmem ?m f"
      by blast
    have "pmm_state ?m = p" "pmem ?m = pmem m" by simp_all
    note F = F0 [unfolded this]
    have tf: "table_frames ?m = table_frames m" by (simp add: table_frames_def)
    have old: "f \<in> used_frames (pmm_state m) \<and> f \<notin> table_frames m'" if "user_addr w" "translate m w = Some (f, k)" for w f k
      using that assms(1) F(1,2) fr(2) tf unfolding space_wf_def data_ok_def by blast
    have new: "unat phys div 4096 \<in> used_frames p" "unat phys div 4096 \<notin> used_frames (pmm_state m)"
      using fr(2,5) by (simp_all add: pte_frame_unat)
    moreover have "unat phys div 4096 \<notin> table_frames m"
      using new(2) assms(1) by (auto simp: space_wf_def vm_wf_def table_frames_def)
    ultimately have nt: "unat phys div 4096 \<notin> table_frames m'" using F(1,2) tf by auto
    have tr: "translate m' w = (if unat w div 4096 = unat v div 4096 then Some (unat phys div 4096, unat w mod 4096) else translate m w)"
      if "unat w < 0xFFC00000" for w
      using m'(4,5) that True by auto
    have "data_ok m'"
      unfolding data_ok_def
    proof (intro conjI allI impI)
      fix w f k assume w: "user_addr w \<and> translate m' w = Some (f, k)"
      then have "translate m w = Some (f, k) \<or> f = unat phys div 4096" using tr [of w] by (auto split: if_splits)
      then show "f \<in> used_frames (pmm_state m')" "f \<notin> table_frames m'"
        using w old [of w f k] new nt F(3) fr(2) by blast+
    next
      fix w x f k l
      assume wx: "user_addr w \<and> user_addr x \<and> translate m' w = Some (f, k) \<and> translate m' x = Some (f, l)"
      have side: "unat y div 4096 = unat v div 4096 \<and> f = unat phys div 4096 \<or>
          translate m y = Some (f, n) \<and> f \<in> used_frames (pmm_state m)"
        if "user_addr y" "translate m' y = Some (f, n)" for y n
        using tr [of y] old [of y f n] that by (auto split: if_splits)
      show "unat w div 4096 = unat x div 4096"
        using side [of w k] side [of x l] wx new(2) assms(1) unfolding space_wf_def data_ok_def by metis
    qed
    moreover have "vread8 w m' = vread8 w m" if "user_addr w" "unat w div 4096 \<noteq> unat v div 4096" for w
      using that tr [of w] old [of w] F(4) by (cases "translate m w") (auto simp: vread8_def)
    ultimately show ?thesis using m'(1-3) True tr by (auto simp: space_wf_def)
  qed
qed

text \<open>The page after \<^verbatim>\<open>memset\<close>.\<close>

lemma zero_page:
  assumes "space_wf m" "user_addr v" "translate m v \<noteq> None"
  shows "\<exists>m'. vzero_page v m = Some m' \<and> same_map m m' \<and>
    (\<forall>w. user_addr w \<longrightarrow> vread8 w m' = (if unat w div 4096 = unat v div 4096 then Some 0 else vread8 w m))"
proof -
  obtain f k where t: "translate m v = Some (f, k)" using assms(3) by auto
  show ?thesis
    using page_write [OF assms(1,2) t refl, where g = "\<lambda>_. 0"] t by (auto simp: vzero_page_def)
qed

lemma alloc_free_space:
  assumes "space_wf m" "pmm_alloc_page (pmm_state m) = (p, phys)" "phys \<noteq> 0"
  shows "space_wf (free_frame phys (m\<lparr>pmm_state := p\<rparr>))"
    "translate (free_frame phys (m\<lparr>pmm_state := p\<rparr>)) = translate m"
    "cr3 (free_frame phys (m\<lparr>pmm_state := p\<rparr>)) = cr3 m"
proof -
  have "pmm_inv (pmm_state m)" using assms(1) by (simp add: space_wf_def vm_wf_def)
  note af = pmm_frames.alloc_free_roundtrip [OF this assms(2,3)]
  show "space_wf (free_frame phys (m\<lparr>pmm_state := p\<rparr>))"
    using space_wf_pmm_mono [OF assms(1)] af by (simp add: free_frame_def)
qed (simp_all add: free_frame_def)

end
