(* ===== verification/Elf.thy ===== *)
theory Elf
  imports Vfs Vmm_Space
begin

text \<open>
  The ELF loader (\<^verbatim>\<open>kernel/kernel/elf.c\<close>, \<^verbatim>\<open>elf.h\<close>): validation of the header and loading of the
  program segments into an address space. Headers are decoded from the bytes the virtual file
  system returns. \<open>None\<close> is a page fault (or a read that blocks) in the loader.
\<close>

section \<open>Headers\<close>

record Elf32_Ehdr =
  e_ident :: "u8 list"
  e_type :: u16
  e_machine :: u16
  e_version :: u32
  e_entry :: u32
  e_phoff :: u32
  e_shoff :: u32
  e_flags :: u32
  e_ehsize :: u16
  e_phentsize :: u16
  e_phnum :: u16
  e_shentsize :: u16
  e_shnum :: u16
  e_shstrndx :: u16

record Elf32_Phdr =
  p_type :: u32
  p_offset :: u32
  p_vaddr :: u32
  p_paddr :: u32
  p_filesz :: u32
  p_memsz :: u32
  p_flags :: u32
  p_align :: u32

abbreviation (input) KERNEL_BASE :: u32 where "KERNEL_BASE \<equiv> 0xC0000000"
abbreviation (input) PT_LOAD :: u32 where "PT_LOAD \<equiv> 1"
abbreviation (input) ET_EXEC :: u16 where "ET_EXEC \<equiv> 2"
abbreviation (input) EM_386 :: u16 where "EM_386 \<equiv> 3"
abbreviation (input) EHDR_SIZE :: u32 where "EHDR_SIZE \<equiv> 52"
abbreviation (input) PHDR_SIZE :: u32 where "PHDR_SIZE \<equiv> 32"

text \<open>The packed structs, as the reads into them fill them.\<close>

definition get16 :: "u8 list \<Rightarrow> nat \<Rightarrow> u16" where
  "get16 b k = un_le16 (slice k 2 b)"

definition ehdr_of :: "u8 list \<Rightarrow> Elf32_Ehdr" where
  "ehdr_of b = \<lparr>e_ident = take 16 b, e_type = get16 b 16, e_machine = get16 b 18, e_version = get32 b 20,
     e_entry = get32 b 24, e_phoff = get32 b 28, e_shoff = get32 b 32, e_flags = get32 b 36,
     e_ehsize = get16 b 40, e_phentsize = get16 b 42, e_phnum = get16 b 44, e_shentsize = get16 b 46,
     e_shnum = get16 b 48, e_shstrndx = get16 b 50\<rparr>"

definition phdr_of :: "u8 list \<Rightarrow> Elf32_Phdr" where
  "phdr_of b = \<lparr>p_type = get32 b 0, p_offset = get32 b 4, p_vaddr = get32 b 8, p_paddr = get32 b 12,
     p_filesz = get32 b 16, p_memsz = get32 b 20, p_flags = get32 b 24, p_align = get32 b 28\<rparr>"

definition elf_validate :: "Elf32_Ehdr \<Rightarrow> bool" where
  "elf_validate hdr =
     (if e_ident hdr ! 0 \<noteq> 0x7F \<or> e_ident hdr ! 1 \<noteq> 69 \<or> e_ident hdr ! 2 \<noteq> 76 \<or> e_ident hdr ! 3 \<noteq> 70 then False
      else if e_ident hdr ! 4 \<noteq> 1 then False
      else if e_ident hdr ! 5 \<noteq> 1 then False
      else if e_type hdr \<noteq> ET_EXEC then False
      else if e_machine hdr \<noteq> EM_386 then False
      else if e_phnum hdr = 0 then False
      else if e_phentsize hdr \<noteq> ucast PHDR_SIZE then False
      else if e_entry hdr \<ge> KERNEL_BASE then False
      else True)"

section \<open>Loading\<close>

definition PAGE_FLOOR :: "u32 \<Rightarrow> u32" where
  "PAGE_FLOOR x = x AND NOT (PAGE_SIZE - 1)"

definition PAGE_CEIL :: "u32 \<Rightarrow> u32" where
  "PAGE_CEIL x = (x + PAGE_SIZE - 1) AND NOT (PAGE_SIZE - 1)"

definition set_machine :: "machine \<Rightarrow> vfs_state \<Rightarrow> vfs_state" where
  "set_machine m s = s\<lparr>kheap := (kheap s)\<lparr>mach := m\<rparr>\<rparr>"

abbreviation machine_of :: "vfs_state \<Rightarrow> machine" where
  "machine_of s \<equiv> mach (kheap s)"

text \<open>
  \<^verbatim>\<open>vfs_read\<close> into memory: the number of bytes read, with the bytes stored at \<open>dst\<close> of the current
  address space. Reads into variables of the loader keep the bytes instead.
\<close>

definition read_local :: "vref \<Rightarrow> u32 \<Rightarrow> u32 \<Rightarrow> vfs_state \<Rightarrow> (u8 list \<times> vfs_state) option" where
  "read_local node off n s =
     (case vfs_read 0 (Some node) off n s of (None, s) \<Rightarrow> None | (Some bs, s) \<Rightarrow> Some (bs, s))"

definition read_into :: "vref \<Rightarrow> u32 \<Rightarrow> u32 \<Rightarrow> u32 \<Rightarrow> vfs_state \<Rightarrow> (u32 \<times> vfs_state) option" where
  "read_into node off n dst s =
     do {
       (bs, s) \<leftarrow> read_local node off n s;
       m \<leftarrow> vwrite_bytes dst bs (machine_of s);
       Some (of_nat (length bs), set_machine m s) }"

text \<open>
  Map the pages from \<open>v\<close> up to \<open>end\<close>. The counter of the loop is a 32-bit address; a loop that
  wraps around below \<open>end\<close> would never end (\<open>None\<close>).
\<close>

partial_function (option) map_segment :: "u32 \<Rightarrow> u32 \<Rightarrow> machine \<Rightarrow> (bool \<times> machine) option" where
  "map_segment v limit m =
     (if \<not> v < limit then Some (True, m)
      else Option.bind (vmm_is_mapped v m) (\<lambda>mapped.
        if mapped then map_segment (v + PAGE_SIZE) limit m
        else case pmm_alloc_page (pmm_state m) of (p, phys) \<Rightarrow>
          if phys = 0 then Some (False, m\<lparr>pmm_state := p\<rparr>)
          else Option.bind (vmm_map_page v phys (PTE_PRESENT OR PTE_WRITABLE OR PTE_USER) (m\<lparr>pmm_state := p\<rparr>)) (\<lambda>r.
            if \<not> fst r then Some (False, free_frame phys (snd r))
            else Option.bind (vzero_page v (snd r)) (\<lambda>m. map_segment (v + PAGE_SIZE) limit m))))"

text \<open>One program header; the flag is false where the code jumps to \<^verbatim>\<open>fail\<close>.\<close>

definition segment_ok :: "Elf32_Phdr \<Rightarrow> bool" where
  "segment_ok ph \<longleftrightarrow>
     \<not> (p_vaddr ph \<ge> KERNEL_BASE \<or> p_vaddr ph + p_memsz ph > KERNEL_BASE \<or> p_filesz ph > p_memsz ph)"

definition load_segment :: "vref \<Rightarrow> Elf32_Phdr \<Rightarrow> vfs_state \<Rightarrow> (bool \<times> vfs_state) option" where
  "load_segment node ph s =
     (if p_type ph \<noteq> PT_LOAD then Some (True, s)
      else if p_memsz ph = 0 then Some (True, s)
      else if \<not> segment_ok ph then Some (False, s)
      else if p_offset ph + p_filesz ph > nlength (vnodes s node) then Some (False, s)
      else do {
        (ok, m) \<leftarrow> map_segment (PAGE_FLOOR (p_vaddr ph)) (PAGE_CEIL (p_vaddr ph + p_memsz ph)) (machine_of s);
        let s = set_machine m s;
        if \<not> ok then Some (False, s)
        else if p_filesz ph > 0 then do {
          (n, s) \<leftarrow> read_into node (p_offset ph) (p_filesz ph) (p_vaddr ph) s;
          Some (n = p_filesz ph, s) }
        else Some (True, s) })"

fun load_segments :: "vref \<Rightarrow> u32 \<Rightarrow> nat list \<Rightarrow> vfs_state \<Rightarrow> (bool \<times> vfs_state) option" where
  "load_segments node phoff [] s = Some (True, s)"
| "load_segments node phoff (i # is) s =
     do {
       (bs, s) \<leftarrow> read_local node (phoff + of_nat i * PHDR_SIZE) PHDR_SIZE s;
       if length bs \<noteq> 32 then Some (False, s)
       else do {
         (ok, s) \<leftarrow> load_segment node (phdr_of bs) s;
         if ok then load_segments node phoff is s else Some (False, s) } }"

definition elf_load :: "vref \<Rightarrow> u32 \<Rightarrow> vfs_state \<Rightarrow> (u32 \<times> vfs_state) option" where
  "elf_load node pd_phys s =
     (if nlength (vnodes s node) < EHDR_SIZE then Some (0, s)
      else do {
        (bs, s) \<leftarrow> read_local node 0 EHDR_SIZE s;
        if length bs \<noteq> 52 then Some (0, s)
        else do {
          let ehdr = ehdr_of bs;
          if \<not> elf_validate ehdr then Some (0, s)
          else do {
            let pht_bytes = ucast (e_phnum ehdr) * PHDR_SIZE;
            if e_phoff ehdr + pht_bytes > nlength (vnodes s node) then Some (0, s)
            else do {
              let saved_pd = vmm_get_current_address_space (machine_of s);
              let s = set_machine (vmm_switch_address_space pd_phys (machine_of s)) s;
              (ok, s) \<leftarrow> load_segments node (e_phoff ehdr) [0..<unat (e_phnum ehdr)] s;
              let s = set_machine (vmm_switch_address_space saved_pd (machine_of s)) s;
              Some (if ok then e_entry ehdr else 0, s) } } } })"

section \<open>The pages of a segment\<close>

lemma page_mask: "(- 4096 :: u32) = 0xFFFFF000"
  by code_simp

lemma floor_unat: "unat (PAGE_FLOOR x) = unat x div 4096 * 4096"
proof -
  have "PAGE_FLOOR x = x AND 0xFFFFF000" by (simp add: PAGE_FLOOR_def page_mask)
  then show ?thesis by (simp only: frame_bits_unat)
qed

lemma ceil_unat: "unat x \<le> 0xC0000000 \<Longrightarrow> unat (PAGE_CEIL x) = (unat x + 4095) div 4096 * 4096"
proof -
  assume "unat x \<le> 0xC0000000"
  then have "unat (x + PAGE_SIZE - 1) = unat x + 4095"
    using unat_add_u32 [of x 4095] by (simp add: add_diff_eq [symmetric])
  moreover have "PAGE_CEIL x = (x + PAGE_SIZE - 1) AND 0xFFFFF000" by (simp add: PAGE_CEIL_def page_mask)
  ultimately show ?thesis by (simp only: frame_bits_unat)
qed

definition in_pages :: "u32 \<Rightarrow> u32 \<Rightarrow> u32 \<Rightarrow> bool" where
  "in_pages v limit w \<longleftrightarrow> unat v \<le> unat w \<and> unat w < unat limit"

text \<open>
  What mapping the pages from \<open>v\<close> up to \<open>limit\<close> gives: all of them are mapped, those that were
  already keep their frame and contents, the others are filled with zeros, and nothing
  else changes below the recursive window.
\<close>

definition pages_mapped :: "u32 \<Rightarrow> u32 \<Rightarrow> machine \<Rightarrow> machine \<Rightarrow> bool" where
  "pages_mapped v limit m m' \<longleftrightarrow> space_wf m' \<and> cr3 m' = cr3 m \<and>
     (\<forall>w. in_pages v limit w \<longrightarrow> translate m' w \<noteq> None) \<and>
     (\<forall>w. unat w < 0xFFC00000 \<and> (\<not> in_pages v limit w \<or> translate m w \<noteq> None) \<longrightarrow> translate m' w = translate m w) \<and>
     (\<forall>w. user_addr w \<longrightarrow> vread8 w m' = (if in_pages v limit w \<and> translate m w = None then Some 0 else vread8 w m))"

lemma is_mapped_iff: "space_wf m \<Longrightarrow> vmm_is_mapped v m = Some (translate m v \<noteq> None)"
  using vm_wf_rec_ok [OF space_wf_vm, of m] pd_index_lt [of v] pt_index_lt [of v]
  by (simp add: vmm_is_mapped_def pd_access pt_access translate_entries Let_def)

lemma page_step:
  assumes "unat v mod 4096 = 0" "unat v < unat limit" "unat limit mod 4096 = 0" "unat limit \<le> 0xC0000000"
  shows "unat (v + PAGE_SIZE) = unat v + 4096" "unat v + 4096 \<le> unat limit"
    "in_pages v limit w \<longleftrightarrow> unat w div 4096 = unat v div 4096 \<or> in_pages (v + PAGE_SIZE) limit w"
    "in_pages (v + PAGE_SIZE) limit w \<Longrightarrow> unat w div 4096 \<noteq> unat v div 4096"
proof -
  obtain a b where ab: "unat v = 4096 * a" "unat limit = 4096 * b"
    using assms(1,3) by (metis add_0_right mult_div_mod_eq)
  show u: "unat (v + PAGE_SIZE) = unat v + 4096" using assms(2,4) by (intro trans [OF unat_add_u32]) simp_all
  show le: "unat v + 4096 \<le> unat limit" using ab assms(2) by simp
  have "unat w div 4096 = unat v div 4096 \<longleftrightarrow> unat v \<le> unat w \<and> unat w < unat v + 4096"
    unfolding ab by (auto intro!: div_nat_eqI)
  then show "in_pages v limit w \<longleftrightarrow> unat w div 4096 = unat v div 4096 \<or> in_pages (v + PAGE_SIZE) limit w"
    "in_pages (v + PAGE_SIZE) limit w \<Longrightarrow> unat w div 4096 \<noteq> unat v div 4096"
    unfolding in_pages_def u using le by auto
qed

lemma pages_mapped_refl: "space_wf m \<Longrightarrow> \<not> unat v < unat limit \<Longrightarrow> pages_mapped v limit m m"
  by (auto simp: pages_mapped_def in_pages_def)

lemma map_segment_spec:
  assumes "space_wf m" "unat v mod 4096 = 0" "unat limit mod 4096 = 0" "unat limit \<le> 0xC0000000"
  shows "\<exists>ok m'. map_segment v limit m = Some (ok, m') \<and> space_wf m' \<and> cr3 m' = cr3 m \<and>
    (\<forall>w. unat w < 0xFFC00000 \<and> (\<not> in_pages v limit w \<or> translate m w \<noteq> None) \<longrightarrow> translate m' w = translate m w) \<and>
    (ok \<longrightarrow> pages_mapped v limit m m')"
  using assms
proof (induction "unat limit - unat v" arbitrary: v m rule: less_induct)
  case less
  show ?case
  proof (cases "unat v < unat limit")
    case False
    then show ?thesis
      using less.prems(1) pages_mapped_refl by (subst map_segment.simps) (auto simp: word_less_nat_alt)
  next
    case True
    note st = page_step [OF less.prems(2) True less.prems(3,4)]
    have v: "user_addr v" "v < limit" using True less.prems(4) by (simp_all add: word_less_nat_alt)
    have dec: "unat limit - unat (v + PAGE_SIZE) < unat limit - unat v" "unat (v + PAGE_SIZE) mod 4096 = 0"
      using st(1,2) less.prems(2) by (simp_all del: unat_mod_num)
    note IH = less.hyps [OF dec(1) _ dec(2) less.prems(3,4)]
    show ?thesis
    proof (cases "translate m v = None")
      case False
      have "map_segment v limit m = map_segment (v + PAGE_SIZE) limit m"
        using False v is_mapped_iff [OF less.prems(1), of v] by (subst map_segment.simps) simp
      moreover have here: "translate m w \<noteq> None" if "unat w div 4096 = unat v div 4096" for w
        using False translate_page [OF that] by auto
      moreover from IH [OF less.prems(1)] obtain ok m' where m': "map_segment (v + PAGE_SIZE) limit m = Some (ok, m')"
        "space_wf m'" "cr3 m' = cr3 m"
        "\<forall>w. unat w < 0xFFC00000 \<and> (\<not> in_pages (v + PAGE_SIZE) limit w \<or> translate m w \<noteq> None) \<longrightarrow> translate m' w = translate m w"
        "ok \<longrightarrow> pages_mapped (v + PAGE_SIZE) limit m m'" by blast
      moreover have "pages_mapped v limit m m'" if ok
      proof -
        have "translate m' w \<noteq> None" if "in_pages v limit w" for w
        proof (cases "in_pages (v + PAGE_SIZE) limit w")
          case True
          then show ?thesis using m'(5) \<open>ok\<close> by (simp add: pages_mapped_def)
        next
          case False
          then have "unat w div 4096 = unat v div 4096" using st(3) that by blast
          moreover have "unat w < 0xFFC00000" using that less.prems(4) by (simp add: in_pages_def)
          ultimately show ?thesis using m'(4) here by metis
        qed
        moreover have "in_pages v limit w \<and> translate m w = None \<longleftrightarrow> in_pages (v + PAGE_SIZE) limit w \<and> translate m w = None" for w
          using st(3) [of w] here by blast
        ultimately show ?thesis using m'(2-5) \<open>ok\<close> st(3) unfolding pages_mapped_def by auto
      qed
      ultimately show ?thesis using st(3) by auto
    next
      case None: True
      obtain p phys where al: "pmm_alloc_page (pmm_state m) = (p, phys)" by fastforce
      have seg: "map_segment v limit m =
         (if phys = 0 then Some (False, m\<lparr>pmm_state := p\<rparr>)
          else Option.bind (vmm_map_page v phys (PTE_PRESENT OR PTE_WRITABLE OR PTE_USER) (m\<lparr>pmm_state := p\<rparr>)) (\<lambda>r.
            if \<not> fst r then Some (False, free_frame phys (snd r))
            else Option.bind (vzero_page v (snd r)) (\<lambda>m. map_segment (v + PAGE_SIZE) limit m)))"
        using None v is_mapped_iff [OF less.prems(1), of v] al by (subst map_segment.simps) simp
      show ?thesis
      proof (cases "phys = 0")
        case True
        then have "p = pmm_state m"
          using pmm_frames.alloc_fail [of "pmm_state m" p] less.prems(1) al by (simp add: space_wf_def vm_wf_def)
        then show ?thesis using seg True less.prems(1) by auto
      next
        case False
        from map_fresh_page [OF less.prems(1) v(1) None al False, of "PTE_PRESENT OR PTE_WRITABLE OR PTE_USER"]
        obtain ok m1 where m1: "vmm_map_page v phys (PTE_PRESENT OR PTE_WRITABLE OR PTE_USER) (m\<lparr>pmm_state := p\<rparr>) = Some (ok, m1)"
          "space_wf m1" "cr3 m1 = cr3 m"
          and r: "if ok then (\<forall>w. unat w < 0xFFC00000 \<longrightarrow> translate m1 w =
               (if unat w div 4096 = unat v div 4096 then Some (unat phys div 4096, unat w mod 4096) else translate m w)) \<and>
             (\<forall>w. user_addr w \<and> unat w div 4096 \<noteq> unat v div 4096 \<longrightarrow> vread8 w m1 = vread8 w m)
           else m1 = m\<lparr>pmm_state := p\<rparr>" by blast
        show ?thesis
        proof (cases ok)
          case nok: False
          have "space_wf (free_frame phys m1)" "translate (free_frame phys m1) = translate m" "cr3 (free_frame phys m1) = cr3 m"
            using r nok alloc_free_space [OF less.prems(1) al False] by auto
          then show ?thesis using seg False m1(1) nok by auto
        next
          case True
          then have tr1: "translate m1 w =
               (if unat w div 4096 = unat v div 4096 then Some (unat phys div 4096, unat w mod 4096) else translate m w)"
            if "unat w < 0xFFC00000" for w using r that by auto
          have "translate m1 v \<noteq> None" using tr1 [of v] v(1) by simp
          from zero_page [OF m1(2) v(1) this] obtain m2 where m2: "vzero_page v m1 = Some m2" "same_map m1 m2"
            "\<forall>w. user_addr w \<longrightarrow> vread8 w m2 = (if unat w div 4096 = unat v div 4096 then Some 0 else vread8 w m1)" by blast
          have wf2: "space_wf m2" and tr2: "translate m2 = translate m1" "cr3 m2 = cr3 m"
            using m2(2) m1(3) by (auto simp: same_map_def)
          have none: "translate m w = None" if "unat w div 4096 = unat v div 4096" for w
            using None translate_page [OF that] by simp
          have low: "unat w < 0xFFC00000" if "in_pages v limit w" for w using that less.prems(4) by (simp add: in_pages_def)
          have seg2: "map_segment v limit m = map_segment (v + PAGE_SIZE) limit m2"
            using seg False m1(1) True m2(1) by simp
          from IH [OF wf2] obtain ok' m3 where m3: "map_segment (v + PAGE_SIZE) limit m2 = Some (ok', m3)"
            "space_wf m3" "cr3 m3 = cr3 m2"
            "\<forall>w. unat w < 0xFFC00000 \<and> (\<not> in_pages (v + PAGE_SIZE) limit w \<or> translate m2 w \<noteq> None) \<longrightarrow> translate m3 w = translate m2 w"
            "ok' \<longrightarrow> pages_mapped (v + PAGE_SIZE) limit m2 m3" by blast
          have tr3: "translate m3 w = translate m w" if "unat w < 0xFFC00000" "\<not> in_pages v limit w \<or> translate m w \<noteq> None" for w
            using that m3(4) tr1 [of w] tr2 none [of w] st(3) [of w] by (metis option.distinct(1))
          have "pages_mapped v limit m m3" if ok'
          proof -
            note pm = m3(5) [rule_format, OF that, unfolded pages_mapped_def]
            have "translate m3 w \<noteq> None" if "in_pages v limit w" for w
              using that pm st(3) [of w] m3(4) tr1 [OF low [OF that]] tr2 st(4) [of w] low [OF that] by (metis option.distinct(1))
            moreover have "vread8 w m3 = (if in_pages v limit w \<and> translate m w = None then Some 0 else vread8 w m)" if "user_addr w" for w
              using that pm m2(3) r True tr1 [of w] tr2 none [of w] st(3,4) [of w] by auto
            ultimately show ?thesis unfolding pages_mapped_def using m3(2,3) tr2 tr3 by auto
          qed
          then show ?thesis using seg2 m3(1-3) tr2 tr3 by auto
        qed
      qed
    qed
  qed
qed

section \<open>Loading a segment\<close>

text \<open>Files of the RAM disk and of the disk are read without changing any state.\<close>

definition is_file :: "vref \<Rightarrow> vfs_state \<Rightarrow> bool" where
  "is_file node s \<longleftrightarrow> read_fn (vnodes s node) \<in> {Some Initrd_read, Some Pfs_vfs_read}"

definition file_bytes :: "vref \<Rightarrow> u32 \<Rightarrow> u32 \<Rightarrow> vfs_state \<Rightarrow> u8 list" where
  "file_bytes node off n s =
     (if read_fn (vnodes s node) = Some Initrd_read then initrd_read node off n s else pfs_vfs_read node off n s)"

lemma set_machine_simps [simp]:
  "machine_of (set_machine m s) = m" "vnodes (set_machine m s) = vnodes s" "set_machine m (set_machine m' s) = set_machine m s"
  "is_file node (set_machine m s) = is_file node s" "file_bytes node off n (set_machine m s) = file_bytes node off n s"
  by (simp_all add: set_machine_def is_file_def file_bytes_def initrd_read_def pfs_vfs_read_def Let_def)

lemma read_local_file: "is_file node s \<Longrightarrow> read_local node off n s = Some (file_bytes node off n s, s)"
  by (auto simp: is_file_def read_local_def vfs_read_def file_bytes_def)

lemma file_bytes_length: "length (file_bytes node off n s) \<le> unat n" if "unat off + unat n < 4294967296"
proof -
  have "length (initrd_read node off n s) \<le> unat n"
    using that unat_sub_u32 [of off "fsize (initrd_files s ! unat (ninode (vnodes s node)))"] unat_add_u32 [of off n]
    by (auto simp: initrd_read_def Let_def word_less_nat_alt word_le_nat_alt)
  moreover have "length (pfs_vfs_read node off n s) \<le> unat n"
    by (auto simp: pfs_vfs_read_def Let_def split: option.split)
  ultimately show ?thesis by (simp add: file_bytes_def)
qed

definition no_wrap :: "Elf32_Phdr \<Rightarrow> bool" where
  "no_wrap ph \<longleftrightarrow> unat (p_vaddr ph) + unat (p_memsz ph) < 4294967296 \<and>
     unat (p_offset ph) + unat (p_filesz ph) < 4294967296"

text \<open>The bytes of memory after a segment is loaded.\<close>

definition segment_image :: "Elf32_Phdr \<Rightarrow> u8 list \<Rightarrow> machine \<Rightarrow> u32 \<Rightarrow> u8 option" where
  "segment_image ph bs m w =
     (if unat (p_vaddr ph) \<le> unat w \<and> unat w < unat (p_vaddr ph) + length bs then Some (bs ! (unat w - unat (p_vaddr ph)))
      else if in_pages (PAGE_FLOOR (p_vaddr ph)) (PAGE_CEIL (p_vaddr ph + p_memsz ph)) w \<and> translate m w = None then Some 0
      else vread8 w m)"

lemma load_segment_spec:
  assumes "is_file node s" "space_wf (machine_of s)" "no_wrap ph"
  shows "\<exists>ok s'. load_segment node ph s = Some (ok, s') \<and> space_wf (machine_of s') \<and>
    s' = set_machine (machine_of s') s \<and> cr3 (machine_of s') = cr3 (machine_of s) \<and>
    (\<forall>w. 0xC0000000 \<le> unat w \<and> unat w < 0xFFC00000 \<longrightarrow> translate (machine_of s') w = translate (machine_of s) w) \<and>
    (ok \<and> p_type ph = PT_LOAD \<and> p_memsz ph \<noteq> 0 \<longrightarrow> segment_ok ph \<and>
       (\<forall>w. user_addr w \<longrightarrow> vread8 w (machine_of s') =
          segment_image ph (file_bytes node (p_offset ph) (p_filesz ph) s) (machine_of s) w) \<and>
       length (file_bytes node (p_offset ph) (p_filesz ph) s) = unat (p_filesz ph))"
proof (cases "p_type ph = PT_LOAD \<and> p_memsz ph \<noteq> 0 \<and> segment_ok ph \<and> \<not> p_offset ph + p_filesz ph > nlength (vnodes s node)")
  case False
  have "s = set_machine (machine_of s) s" by (simp add: set_machine_def)
  then show ?thesis using False assms(2) by (auto simp: load_segment_def)
next
  case True
  let ?v = "PAGE_FLOOR (p_vaddr ph)" and ?l = "PAGE_CEIL (p_vaddr ph + p_memsz ph)"
  let ?bs = "file_bytes node (p_offset ph) (p_filesz ph) s"
  have e: "unat (p_vaddr ph + p_memsz ph) = unat (p_vaddr ph) + unat (p_memsz ph)"
    using assms(3) by (intro unat_add_u32) (simp add: no_wrap_def)
  have ok: "unat (p_vaddr ph) + unat (p_memsz ph) \<le> 0xC0000000" "unat (p_filesz ph) \<le> unat (p_memsz ph)"
    using True by (auto simp: segment_ok_def word_less_nat_alt word_le_nat_alt e not_less)
  have fl: "unat ?v mod 4096 = 0" "unat ?v \<le> unat (p_vaddr ph)" by (simp_all add: floor_unat)
  have cl: "unat ?l = (unat (p_vaddr ph) + unat (p_memsz ph) + 4095) div 4096 * 4096"
    using ceil_unat [of "p_vaddr ph + p_memsz ph"] ok e by simp
  then have l: "unat ?l mod 4096 = 0" "unat ?l \<le> 0xC0000000" "unat (p_vaddr ph) + unat (p_memsz ph) \<le> unat ?l"
    using ok(1) by simp_all
  from map_segment_spec [OF assms(2) fl(1) l(1,2)] obtain r m1 where m1: "map_segment ?v ?l (machine_of s) = Some (r, m1)"
    "space_wf m1" "cr3 m1 = cr3 (machine_of s)"
    "\<forall>w. unat w < 0xFFC00000 \<and> (\<not> in_pages ?v ?l w \<or> translate (machine_of s) w \<noteq> None) \<longrightarrow> translate m1 w = translate (machine_of s) w"
    "r \<longrightarrow> pages_mapped ?v ?l (machine_of s) m1" by blast
  have kern: "translate m1 w = translate (machine_of s) w" if "0xC0000000 \<le> unat w \<and> unat w < 0xFFC00000" for w
    using that m1(4) l(2) by (simp add: in_pages_def)
  have ls: "load_segment node ph s =
      (if \<not> r then Some (False, set_machine m1 s)
       else if p_filesz ph > 0 then do {
         (n, s) \<leftarrow> read_into node (p_offset ph) (p_filesz ph) (p_vaddr ph) (set_machine m1 s);
         Some (n = p_filesz ph, s) }
       else Some (True, set_machine m1 s))"
    using True m1(1) by (simp add: load_segment_def)
  show ?thesis
  proof (cases r)
    case False
    then show ?thesis using ls m1(2,3) kern by auto
  next
    case r: True
    note pm = m1(5) [rule_format, OF r, unfolded pages_mapped_def]
    have lb: "length ?bs \<le> unat (p_filesz ph)"
      using file_bytes_length [of "p_offset ph" "p_filesz ph"] assms(3) by (simp add: no_wrap_def)
    have inp: "in_pages ?v ?l w" if "unat (p_vaddr ph) \<le> unat w" "unat w < unat (p_vaddr ph) + length ?bs" for w
      using that fl(2) l(3) ok(2) lb by (simp add: in_pages_def)
    have "unat (p_vaddr ph) + length ?bs \<le> 0xC0000000" using ok lb by simp
    moreover have "\<forall>w. unat (p_vaddr ph) \<le> unat w \<and> unat w < unat (p_vaddr ph) + length ?bs \<longrightarrow> translate m1 w \<noteq> None"
      using pm inp by blast
    ultimately obtain m2 where m2: "vwrite_bytes (p_vaddr ph) ?bs m1 = Some m2" "same_map m1 m2"
      "\<forall>w. user_addr w \<longrightarrow> vread8 w m2 = (if unat (p_vaddr ph) \<le> unat w \<and> unat w < unat (p_vaddr ph) + length ?bs
          then Some (?bs ! (unat w - unat (p_vaddr ph))) else vread8 w m1)"
      using bytes_write [OF m1(2)] by blast
    have img: "vread8 w m2 = segment_image ph ?bs (machine_of s) w" if "user_addr w" for w
      using that m2(3) pm by (simp add: segment_image_def)
    have ri: "read_into node (p_offset ph) (p_filesz ph) (p_vaddr ph) (set_machine m1 s) = Some (of_nat (length ?bs), set_machine m2 s)"
      using assms(1) m2(1) by (simp add: read_into_def read_local_file)
    show ?thesis
    proof (cases "p_filesz ph > 0")
      case False
      then have z: "p_filesz ph = 0" by (simp add: word_gt_0)
      then have "?bs = []" using lb by simp
      then have "m2 = m1" using m2(1) by simp
      then show ?thesis using ls r False m1(2,3) kern img True z \<open>?bs = []\<close> by auto
    next
      case False': True
      have "length ?bs < 4294967296" using lb unat_u32_bound [of "p_filesz ph"] by linarith
      then have n: "of_nat (length ?bs) = p_filesz ph \<longleftrightarrow> length ?bs = unat (p_filesz ph)"
        by (auto simp: word_eq_unat unat_of_nat_u32)
      have "load_segment node ph s = Some (length ?bs = unat (p_filesz ph), set_machine m2 s)"
        using ls r False' ri n by simp
      moreover have "space_wf m2" "cr3 m2 = cr3 (machine_of s)" "translate m2 = translate m1"
        using m2(2) m1(3) by (simp_all add: same_map_def)
      ultimately show ?thesis using kern img True by auto
    qed
  qed
qed

text \<open>
  Loading one program segment whose address range does not wrap around never faults. The
  address space stays well-formed and its kernel half is mapped as before. When a loadable
  segment is accepted, it lies below the kernel, exactly the file's bytes are at its address,
  the rest of every page that had to be mapped for it is zero, and all other user memory is unchanged.
\<close>

theorem elf_load_segment_correct:
  assumes "is_file node s" "space_wf (machine_of s)" "no_wrap ph"
  shows "\<exists>ok s'. load_segment node ph s = Some (ok, s') \<and> space_wf (machine_of s') \<and>
    s' = set_machine (machine_of s') s \<and> cr3 (machine_of s') = cr3 (machine_of s) \<and>
    (\<forall>w. 0xC0000000 \<le> unat w \<and> unat w < 0xFFC00000 \<longrightarrow> translate (machine_of s') w = translate (machine_of s) w) \<and>
    (ok \<and> p_type ph = PT_LOAD \<and> p_memsz ph \<noteq> 0 \<longrightarrow> segment_ok ph \<and>
       (\<forall>w. user_addr w \<longrightarrow> vread8 w (machine_of s') =
          segment_image ph (file_bytes node (p_offset ph) (p_filesz ph) s) (machine_of s) w) \<and>
       length (file_bytes node (p_offset ph) (p_filesz ph) s) = unat (p_filesz ph))"
  by (rule load_segment_spec [OF assms])

section \<open>Loading a program\<close>

definition file_ehdr :: "vref \<Rightarrow> vfs_state \<Rightarrow> Elf32_Ehdr" where
  "file_ehdr node s = ehdr_of (file_bytes node 0 EHDR_SIZE s)"

definition file_phdr :: "vref \<Rightarrow> vfs_state \<Rightarrow> nat \<Rightarrow> Elf32_Phdr" where
  "file_phdr node s i = phdr_of (file_bytes node (e_phoff (file_ehdr node s) + of_nat i * PHDR_SIZE) PHDR_SIZE s)"

lemma load_segments_spec:
  assumes "is_file node s" "space_wf (machine_of s)"
    and "\<forall>i \<in> set is. no_wrap (phdr_of (file_bytes node (phoff + of_nat i * PHDR_SIZE) PHDR_SIZE s))"
  shows "\<exists>ok s'. load_segments node phoff is s = Some (ok, s') \<and> space_wf (machine_of s') \<and>
    s' = set_machine (machine_of s') s \<and> cr3 (machine_of s') = cr3 (machine_of s) \<and>
    (\<forall>w. 0xC0000000 \<le> unat w \<and> unat w < 0xFFC00000 \<longrightarrow> translate (machine_of s') w = translate (machine_of s) w) \<and>
    (ok \<longrightarrow> (\<forall>i \<in> set is. let ph = phdr_of (file_bytes node (phoff + of_nat i * PHDR_SIZE) PHDR_SIZE s)
       in p_type ph = PT_LOAD \<and> p_memsz ph \<noteq> 0 \<longrightarrow> segment_ok ph))"
  using assms
proof (induction "is" arbitrary: s)
  case Nil
  have "s = set_machine (machine_of s) s" by (simp add: set_machine_def)
  with Nil show ?case by auto
next
  case (Cons i "is")
  let ?bs = "file_bytes node (phoff + of_nat i * PHDR_SIZE) PHDR_SIZE s"
  have s: "s = set_machine (machine_of s) s" by (simp add: set_machine_def)
  have rl: "load_segments node phoff (i # is) s =
      (if length ?bs \<noteq> 32 then Some (False, s)
       else do { (ok, s) \<leftarrow> load_segment node (phdr_of ?bs) s;
                 if ok then load_segments node phoff is s else Some (False, s) })"
    using read_local_file [OF Cons.prems(1)] by simp
  have nw: "no_wrap (phdr_of ?bs)" using Cons.prems(3) by simp
  from load_segment_spec [OF Cons.prems(1,2) nw] obtain ok s1 where s1: "load_segment node (phdr_of ?bs) s = Some (ok, s1)"
    "space_wf (machine_of s1)" "s1 = set_machine (machine_of s1) s" "cr3 (machine_of s1) = cr3 (machine_of s)"
    "\<forall>w. 0xC0000000 \<le> unat w \<and> unat w < 0xFFC00000 \<longrightarrow> translate (machine_of s1) w = translate (machine_of s) w"
    "ok \<and> p_type (phdr_of ?bs) = PT_LOAD \<and> p_memsz (phdr_of ?bs) \<noteq> 0 \<longrightarrow> segment_ok (phdr_of ?bs)" by blast
  have fb: "file_bytes node off n s1 = file_bytes node off n s" "is_file node s1 = is_file node s" for off n
    by (metis s1(3) set_machine_simps(5), metis s1(3) set_machine_simps(4))
  have IH: "\<exists>ok s'. load_segments node phoff is s1 = Some (ok, s') \<and> space_wf (machine_of s') \<and>
    s' = set_machine (machine_of s') s1 \<and> cr3 (machine_of s') = cr3 (machine_of s1) \<and>
    (\<forall>w. 0xC0000000 \<le> unat w \<and> unat w < 0xFFC00000 \<longrightarrow> translate (machine_of s') w = translate (machine_of s1) w) \<and>
    (ok \<longrightarrow> (\<forall>i \<in> set is. let ph = phdr_of (file_bytes node (phoff + of_nat i * PHDR_SIZE) PHDR_SIZE s)
       in p_type ph = PT_LOAD \<and> p_memsz ph \<noteq> 0 \<longrightarrow> segment_ok ph))"
    using Cons.IH [of s1] Cons.prems(1,3) s1(2) fb by simp
  have tr: "set_machine m s1 = set_machine m s" for m by (metis s1(3) set_machine_simps(3))
  show ?case
  proof (cases "length ?bs = 32 \<and> ok")
    case False
    then show ?thesis using rl s1(1-5) s Cons.prems(2) by (cases "length ?bs = 32") (auto simp: Let_def)
  next
    case True
    then have "load_segments node phoff (i # is) s = load_segments node phoff is s1" using rl s1(1) by simp
    then show ?thesis using IH True s1(4-6) tr unfolding Let_def by (elim exE conjE) auto
  qed
qed


text \<open>A program of one segment: one byte at \<open>0x400000\<close> and three zero bytes after it.\<close>

definition elf_image :: "u8 list" where
  "elf_image = [0x7F, 0x45, 0x4C, 0x46, 1, 1, 0, 0, 0, 0, 0, 0, 0, 0, 0, 0,
     2, 0, 3, 0, 1, 0, 0, 0, 0, 0, 0x40, 0, 52, 0, 0, 0, 0, 0, 0, 0, 0, 0, 0, 0,
     52, 0, 32, 0, 1, 0, 0, 0, 0, 0, 0, 0] @
     le32 1 @ le32 84 @ le32 0x400000 @ le32 0 @ le32 1 @ le32 4 @ le32 5 @ le32 4096 @ [0xF4]"

definition elf_example :: vfs_state where
  "elf_example = initrd_example\<lparr>
     memory := (\<lambda>a. if unat a < 85 then elf_image ! unat a else 0),
     initrd_files := [\<lparr>fname = [97], fdata = 0, fsize = 85\<rparr>], initrd_file_count := 1,
     vnodes := (\<lambda>_. zero_node\<lparr>read_fn := Some Initrd_read, nlength := 85\<rparr>)\<rparr>"

lemma elf_example_space: "space_wf (vmm_switch_address_space 0x1000 (machine_of elf_example))"
proof -
  have "vmm_switch_address_space 0x1000 (machine_of elf_example) = vm_example"
    by (simp add: elf_example_def initrd_example_def heap_example_def vmm_switch_address_space_def vm_example_def vmm_init_def)
  moreover have "translate vm_example v = None" if "user_addr v" for v
    using that by (intro vm_example_unmapped) (simp add: unat_pd_index)
  ultimately show ?thesis using vm_example_wf by (auto simp: space_wf_def data_ok_def)
qed

lemma elf_example_bytes:
  assumes "unat off + unat n < 4294967296"
  shows "file_bytes (Initrd_node 0) off n elf_example = slice (unat off) (unat n) elf_image"
proof -
  have len: "length elf_image = 85" by (simp add: elf_image_def)
  have "mem_bytes (\<lambda>a. if unat a < 85 then elf_image ! unat a else 0) 0 85 = elf_image"
    by (rule nth_equalityI) (simp_all add: len unat_of_nat_u32)
  then have "slice (unat off) (unat n) elf_image =
      slice (unat off) (unat n) (mem_bytes (memory elf_example) (fdata (initrd_files elf_example ! 0)) (unat (fsize (initrd_files elf_example ! 0))))"
    by (simp add: elf_example_def)
  also have "\<dots> = initrd_read (Initrd_node 0) off n elf_example"
    by (rule initrd_read_slice [symmetric, OF _ _ assms]) (simp_all add: elf_example_def zero_node_def)
  also have "\<dots> = file_bytes (Initrd_node 0) off n elf_example" by (simp add: file_bytes_def elf_example_def)
  finally show ?thesis by simp
qed

lemma elf_example_headers:
  "e_phnum (file_ehdr (Initrd_node 0) elf_example) = 1"
  "file_phdr (Initrd_node 0) elf_example 0 = \<lparr>p_type = 1, p_offset = 84, p_vaddr = 0x400000, p_paddr = 0,
     p_filesz = 1, p_memsz = 4, p_flags = 5, p_align = 4096\<rparr>"
proof -
  have h: "file_ehdr (Initrd_node 0) elf_example = ehdr_of (slice 0 52 elf_image)"
    by (simp add: file_ehdr_def elf_example_bytes)
  moreover have "e_phnum (ehdr_of (slice 0 52 elf_image)) = 1" "e_phoff (ehdr_of (slice 0 52 elf_image)) = 52" by code_simp+
  moreover have "phdr_of (slice 52 32 elf_image) = \<lparr>p_type = 1, p_offset = 84, p_vaddr = 0x400000, p_paddr = 0,
     p_filesz = 1, p_memsz = 4, p_flags = 5, p_align = 4096\<rparr>" by code_simp
  ultimately show "e_phnum (file_ehdr (Initrd_node 0) elf_example) = 1"
    "file_phdr (Initrd_node 0) elf_example 0 = \<lparr>p_type = 1, p_offset = 84, p_vaddr = 0x400000, p_paddr = 0,
     p_filesz = 1, p_memsz = 4, p_flags = 5, p_align = 4096\<rparr>"
    by (simp_all add: file_phdr_def elf_example_bytes)
qed


theorem elf_load_segment_correct_witness:
  "\<exists>ok s'. load_segment (Initrd_node 0) (file_phdr (Initrd_node 0) elf_example 0) elf_example = Some (ok, s') \<and>
     space_wf (machine_of s')"
proof -
  have "is_file (Initrd_node 0) elf_example" by (simp add: is_file_def elf_example_def)
  moreover have "machine_of elf_example = vmm_switch_address_space 0x1000 (machine_of elf_example)"
    by (simp add: elf_example_def initrd_example_def heap_example_def vmm_switch_address_space_def vm_example_def vmm_init_def)
  moreover have "no_wrap (file_phdr (Initrd_node 0) elf_example 0)" by (simp add: elf_example_headers no_wrap_def)
  ultimately show ?thesis
    using elf_load_segment_correct [of "Initrd_node 0" elf_example "file_phdr (Initrd_node 0) elf_example 0"] elf_example_space
    by metis
qed

section \<open>What the bounds checks miss\<close>

text \<open>
  The guard on a segment adds address and size in 32 bits. A size that wraps around passes it,
  no page is mapped, and the file's bytes are then copied across the start of the kernel.
\<close>

lemma segment_guard_wraps:
  assumes "p_vaddr ph = 0xBFFFF000" "p_memsz ph = 0xFFFFF000" "p_filesz ph = 0x2000"
  shows "segment_ok ph \<and> PAGE_CEIL (p_vaddr ph + p_memsz ph) < PAGE_FLOOR (p_vaddr ph) \<and>
    unat (p_vaddr ph) + unat (p_filesz ph) > 0xC0000000"
proof -
  have "(0xBFFFF000 :: u32) + 0xFFFFF000 = 0xBFFFE000" by code_simp
  moreover have "PAGE_CEIL 0xBFFFE000 < PAGE_FLOOR 0xBFFFF000" by code_simp
  ultimately show ?thesis unfolding segment_ok_def assms by (simp only:) simp
qed

end
