(* ===== verification/Task.thy ===== *)
theory Task
  imports Elf
begin

text \<open>
  Tasks and the scheduler (\<^verbatim>\<open>kernel/kernel/task.c\<close>, \<^verbatim>\<open>task.h\<close>). A \<^verbatim>\<open>task_t*\<close> is the address of
  its struct; the structs are a map from addresses, so that fields a function does not assign
  keep what the memory held. The words of the kernel stacks and the reference counts are maps
  from addresses too. A context switch is the change of \<^verbatim>\<open>current_task\<close>: \<open>sp\<close> is the stack pointer
  that \<^verbatim>\<open>task_switch\<close> saves for the task that is left. \<open>None\<close> is a fault or a loop that does not end.
\<close>

section \<open>Data\<close>

datatype task_state = TASK_RUNNING | TASK_READY | TASK_BLOCKED | TASK_SLEEPING | TASK_TERMINATED

record file_desc =
  fnode :: "vref option"
  offset :: u32
  used :: bool

record task =
  tid :: u32
  tname :: cstr
  state :: task_state
  priority :: u32
  esp :: u32
  stack_base :: u32
  stack_top :: u32
  is_user :: bool
  user_entry :: u32
  user_stack_top :: u32
  page_directory :: u32
  wake_tick :: u32
  tnext :: u32
  parent :: u32
  exit_code :: u32
  fd_table :: "file_desc list"
  is_thread :: bool
  thread_entry :: u32
  thread_arg :: u32
  as_refcount :: u32

record registers =
  r_ds :: u32
  r_edi :: u32
  r_esi :: u32
  r_ebp :: u32
  r_esp_dummy :: u32
  r_ebx :: u32
  r_edx :: u32
  r_ecx :: u32
  r_eax :: u32
  r_int_no :: u32
  r_err_code :: u32
  r_eip :: u32
  r_cs :: u32
  r_eflags :: u32
  r_useresp :: u32
  r_ss :: u32

record kernel =
  vfs :: vfs_state
  tasks :: "u32 \<Rightarrow> task"
  current_task :: u32
  task_list :: u32
  next_task_id :: u32
  preempt_counter :: u32
  next_thread_stack_top :: u32
  refcounts :: "u32 \<Rightarrow> int"
  kstack :: "u32 \<Rightarrow> u32"
  esp0 :: u32

abbreviation (input) MAX_FDS :: nat where "MAX_FDS \<equiv> 16"
abbreviation (input) PRIORITY_NORMAL :: u32 where "PRIORITY_NORMAL \<equiv> 5"
abbreviation (input) TASK_SIZE :: u32 where "TASK_SIZE \<equiv> 296"
abbreviation (input) TASK_STACK_SIZE :: u32 where "TASK_STACK_SIZE \<equiv> 4096"
abbreviation (input) PREEMPT_QUANTUM :: u32 where "PREEMPT_QUANTUM \<equiv> 10"
abbreviation (input) USER_CODE_BASE :: u32 where "USER_CODE_BASE \<equiv> 0x00400000"
abbreviation (input) USER_STACK_BASE :: u32 where "USER_STACK_BASE \<equiv> 0x00500000"
abbreviation (input) USER_STACK_TOP :: u32 where "USER_STACK_TOP \<equiv> 0x00501000"
abbreviation (input) PTE_USER_RW :: u32 where "PTE_USER_RW \<equiv> 7"

text \<open>The addresses the linker gives to the code that new tasks start in.\<close>

record symbols =
  sym_task_exit :: u32
  sym_user_mode_enter :: u32
  sym_isr_return :: u32
  sym_thread_trampoline :: u32

text \<open>Access to the parts of the state below the scheduler.\<close>

abbreviation kmach :: "kernel \<Rightarrow> machine" where
  "kmach k \<equiv> mach (kheap (vfs k))"

definition set_kheap :: "heap \<Rightarrow> kernel \<Rightarrow> kernel" where
  "set_kheap h k = k\<lparr>vfs := (vfs k)\<lparr>kheap := h\<rparr>\<rparr>"

definition set_kmach :: "machine \<Rightarrow> kernel \<Rightarrow> kernel" where
  "set_kmach m k = k\<lparr>vfs := set_machine m (vfs k)\<rparr>"

definition set_task :: "u32 \<Rightarrow> (task \<Rightarrow> task) \<Rightarrow> kernel \<Rightarrow> kernel" where
  "set_task a f k = k\<lparr>tasks := (tasks k)(a := f (tasks k a))\<rparr>"

definition preempt_on :: "kernel \<Rightarrow> kernel" where
  "preempt_on k = set_kmach (scheduler_enable_preemption (kmach k)) k"

definition preempt_off :: "kernel \<Rightarrow> kernel" where
  "preempt_off k = set_kmach (scheduler_disable_preemption (kmach k)) k"

definition k_malloc :: "u32 \<Rightarrow> kernel \<Rightarrow> (u32 \<times> kernel) option" where
  "k_malloc n k = map_option (\<lambda>(a, h). (a, set_kheap h k)) (kmalloc n (kheap (vfs k)))"

definition k_free :: "u32 \<Rightarrow> kernel \<Rightarrow> kernel" where
  "k_free a k = set_kheap (kfree a (kheap (vfs k))) k"

definition alloc_frame :: "kernel \<Rightarrow> u32 \<times> kernel" where
  "alloc_frame k =
     (case pmm_alloc_page (pmm_state (kmach k)) of (p, a) \<Rightarrow> (a, set_kmach ((kmach k)\<lparr>pmm_state := p\<rparr>) k))"

definition map_page :: "u32 \<Rightarrow> u32 \<Rightarrow> kernel \<Rightarrow> (bool \<times> kernel) option" where
  "map_page v phys k = map_option (\<lambda>(ok, m). (ok, set_kmach m k)) (vmm_map_page v phys PTE_USER_RW (kmach k))"

definition switch_space :: "u32 \<Rightarrow> kernel \<Rightarrow> kernel" where
  "switch_space pd k = set_kmach (vmm_switch_address_space pd (kmach k)) k"

definition destroy_space :: "u32 \<Rightarrow> kernel \<Rightarrow> kernel option" where
  "destroy_space pd k = map_option (\<lambda>m. set_kmach m k) (vmm_destroy_address_space pd (kmach k))"

definition create_space :: "kernel \<Rightarrow> (u32 \<times> kernel) option" where
  "create_space k = map_option (\<lambda>(pd, m). (pd, set_kmach m k)) (vmm_create_address_space (kmach k))"

text \<open>\<^verbatim>\<open>*(--sp) = x\<close> for each word, in order.\<close>

fun push_words :: "u32 list \<Rightarrow> u32 \<Rightarrow> kernel \<Rightarrow> u32 \<times> kernel" where
  "push_words [] sp k = (sp, k)"
| "push_words (x # xs) sp k = push_words xs (sp - 4) (k\<lparr>kstack := (kstack k)(sp - 4 := x)\<rparr>)"

section \<open>File descriptors\<close>

definition fd_table_init :: "u32 \<Rightarrow> kernel \<Rightarrow> kernel" where
  "fd_table_init a k =
     set_task a (\<lambda>t. t\<lparr>fd_table := (replicate MAX_FDS \<lparr>fnode = None, offset = 0, used = False\<rparr>)
       [0 := \<lparr>fnode = Some Keyboard_dev, offset = 0, used = True\<rparr>,
        1 := \<lparr>fnode = Some Console, offset = 0, used = True\<rparr>,
        2 := \<lparr>fnode = Some Console, offset = 0, used = True\<rparr>]\<rparr>) k"

definition fd_alloc :: "u32 \<Rightarrow> vref option \<Rightarrow> kernel \<Rightarrow> int \<times> kernel" where
  "fd_alloc a node k =
     (case find (\<lambda>i. \<not> used (fd_table (tasks k a) ! i)) [3..<MAX_FDS] of
        None \<Rightarrow> (-1, k)
      | Some i \<Rightarrow> (int i, set_task a (\<lambda>t. t\<lparr>fd_table := (fd_table t)[i := \<lparr>fnode = node, offset = 0, used = True\<rparr>]\<rparr>) k))"

section \<open>Scheduling\<close>

text \<open>
  The walk over the circular list. It stops at a null pointer with what it has found; on a list
  that does not lead back to its start it runs forever.
\<close>

partial_function (option) pick_loop :: "kernel \<Rightarrow> u32 \<Rightarrow> u32 \<Rightarrow> u32 \<Rightarrow> u32 \<Rightarrow> u32 option" where
  "pick_loop k start candidate best best_priority =
     (if candidate = 0 then Some best
      else let c = tasks k candidate;
               better = state c = TASK_READY \<and> (best = 0 \<or> priority c > best_priority);
               best' = (if better then candidate else best);
               prio' = (if better then priority c else best_priority)
           in if tnext c = start then Some best' else pick_loop k start (tnext c) best' prio')"

definition pick_next_task :: "kernel \<Rightarrow> u32 option" where
  "pick_next_task k =
     (if task_list k = 0 then Some 0
      else let start = (if current_task k \<noteq> 0 then tnext (tasks k (current_task k)) else task_list k)
           in pick_loop k start start 0 0)"

definition task_set_priority :: "u32 \<Rightarrow> u32 \<Rightarrow> kernel \<Rightarrow> kernel" where
  "task_set_priority a p k = (if a \<noteq> 0 then set_task a (\<lambda>t. t\<lparr>priority := p\<rparr>) k else k)"

text \<open>The part that \<^verbatim>\<open>scheduler_tick\<close> and \<^verbatim>\<open>task_yield\<close> share.\<close>

definition switch_to :: "u32 \<Rightarrow> u32 \<Rightarrow> kernel \<Rightarrow> kernel" where
  "switch_to sp nxt k =
     (let prev = current_task k;
          k = (if state (tasks k prev) = TASK_RUNNING then set_task prev (\<lambda>t. t\<lparr>state := TASK_READY\<rparr>) k else k);
          k = (set_task nxt (\<lambda>t. t\<lparr>state := TASK_RUNNING\<rparr>) k)\<lparr>current_task := nxt\<rparr>;
          k = (if page_directory (tasks k nxt) \<noteq> page_directory (tasks k prev)
               then switch_space (page_directory (tasks k nxt)) k else k);
          k = k\<lparr>esp0 := stack_top (tasks k nxt)\<rparr>
      in set_task prev (\<lambda>t. t\<lparr>esp := sp\<rparr>) k)"

definition task_yield :: "u32 \<Rightarrow> kernel \<Rightarrow> kernel option" where
  "task_yield sp k =
     (if current_task k = 0 then Some k
      else do {
        nxt \<leftarrow> pick_next_task k;
        Some (if nxt = 0 \<or> nxt = current_task k then k else switch_to sp nxt k) })"

definition scheduler_tick :: "u32 \<Rightarrow> kernel \<Rightarrow> kernel option" where
  "scheduler_tick sp k =
     (if \<not> preemption_enabled (kmach k) \<or> current_task k = 0 then Some k
      else let k = k\<lparr>preempt_counter := preempt_counter k + 1\<rparr> in
        if preempt_counter k < PREEMPT_QUANTUM then Some k
        else do {
          let k = k\<lparr>preempt_counter := 0\<rparr>;
          nxt \<leftarrow> pick_next_task k;
          Some (if nxt = 0 \<or> nxt = current_task k then k else switch_to sp nxt k) })"

definition scheduler_init :: "kernel \<Rightarrow> kernel option" where
  "scheduler_init k =
     do {
       (main, k) \<leftarrow> k_malloc TASK_SIZE k;
       if main = 0 then Some k
       else do {
         let k = set_task main (\<lambda>t. t\<lparr>tid := next_task_id k, tname := name_copy (cstr_lit ''kernel_main'') 31,
               state := TASK_RUNNING, priority := PRIORITY_NORMAL,
               page_directory := vmm_get_current_address_space (kmach k), esp := 0, stack_base := 0,
               wake_tick := 0, tnext := main\<rparr>) (k\<lparr>next_task_id := next_task_id k + 1\<rparr>);
         let k = fd_table_init main k;
         let k = k\<lparr>current_task := main, task_list := main\<rparr>;
         Some (set_task main (\<lambda>t. t\<lparr>as_refcount := 0\<rparr>) k) } }"

text \<open>Linking a new task in after the current one.\<close>

definition link_task :: "u32 \<Rightarrow> kernel \<Rightarrow> kernel" where
  "link_task a k =
     (let k = set_task a (\<lambda>t. t\<lparr>tnext := tnext (tasks k (current_task k))\<rparr>) k
      in set_task (current_task k) (\<lambda>t. t\<lparr>tnext := a\<rparr>) k)"

section \<open>Creating tasks\<close>

definition task_create :: "symbols \<Rightarrow> cstr \<Rightarrow> u32 \<Rightarrow> u32 \<Rightarrow> kernel \<Rightarrow> (u32 \<times> kernel) option" where
  "task_create sy name entry prio k =
     do {
       (task, k) \<leftarrow> k_malloc TASK_SIZE k;
       if task = 0 then Some (0, k)
       else do {
         (stack, k) \<leftarrow> k_malloc TASK_STACK_SIZE k;
         if stack = 0 then Some (0, k_free task k)
         else do {
           (pd, k) \<leftarrow> create_space k;
           if pd = 0 then Some (0, k_free task (k_free stack k))
           else do {
             let k = preempt_off k;
             let k = set_task task (\<lambda>t. t\<lparr>tid := next_task_id k, tname := name_copy name 31, state := TASK_READY,
                   priority := prio, stack_base := stack, stack_top := stack + TASK_STACK_SIZE, is_user := False,
                   page_directory := pd, wake_tick := 0, parent := 0, exit_code := 0, as_refcount := 0\<rparr>)
                 (k\<lparr>next_task_id := next_task_id k + 1\<rparr>);
             let (sp, k) = push_words [sym_task_exit sy, entry, 0, 0, 0, 0] (stack + TASK_STACK_SIZE) k;
             let k = set_task task (\<lambda>t. t\<lparr>esp := sp\<rparr>) k;
             let k = fd_table_init task (link_task task k);
             Some (task, preempt_on k) } } } }"

definition thread_create :: "symbols \<Rightarrow> cstr \<Rightarrow> u32 \<Rightarrow> u32 \<Rightarrow> u32 \<Rightarrow> kernel \<Rightarrow> (u32 \<times> kernel) option" where
  "thread_create sy name entry arg prio k =
     do {
       (task, k) \<leftarrow> k_malloc TASK_SIZE k;
       if task = 0 then Some (0, k)
       else do {
         (stack, k) \<leftarrow> k_malloc TASK_STACK_SIZE k;
         if stack = 0 then Some (0, k_free task k)
         else do {
           let k = preempt_off k;
           let k = set_task task (\<lambda>t. t\<lparr>tid := next_task_id k, tname := name_copy name 31, state := TASK_READY,
                 priority := prio, stack_base := stack, stack_top := stack + TASK_STACK_SIZE, is_user := False,
                 page_directory := page_directory (tasks k (current_task k)), wake_tick := 0, parent := 0,
                 exit_code := 0, thread_entry := entry, thread_arg := arg\<rparr>)
               (k\<lparr>next_task_id := next_task_id k + 1\<rparr>);
           let (sp, k) = push_words [sym_thread_trampoline sy, 0, 0, 0, 0] (stack + TASK_STACK_SIZE) k;
           let k = set_task task (\<lambda>t. t\<lparr>esp := sp\<rparr>) k;
           let k = fd_table_init task (link_task task k);
           Some (task, preempt_on k) } } }"

text \<open>User memory of the current address space; a word may have any alignment.\<close>

definition user_write :: "u32 \<Rightarrow> u8 list \<Rightarrow> kernel \<Rightarrow> kernel option" where
  "user_write v bs k = map_option (\<lambda>m. set_kmach m k) (vwrite_bytes v bs (kmach k))"

definition user_write32 :: "u32 \<Rightarrow> u32 \<Rightarrow> kernel \<Rightarrow> kernel option" where
  "user_write32 v x k = user_write v (le32 x) k"

definition user_read32 :: "u32 \<Rightarrow> machine \<Rightarrow> u32 option" where
  "user_read32 v m = map_option un_le32 (vread_bytes v 4 m)"

definition task_create_user_thread :: "symbols \<Rightarrow> u32 \<Rightarrow> u32 \<Rightarrow> kernel \<Rightarrow> (u32 \<times> kernel) option" where
  "task_create_user_thread sy entry arg k =
     do {
       let self = current_task k;
       (t, k) \<leftarrow> k_malloc TASK_SIZE k;
       if t = 0 then Some (0, k)
       else do {
         (ks, k) \<leftarrow> k_malloc TASK_STACK_SIZE k;
         if ks = 0 then Some (0, k_free t k)
         else do {
           let k = k\<lparr>next_thread_stack_top := next_thread_stack_top k - 0x10000\<rparr>;
           let tstack_top = next_thread_stack_top k;
           let tstack_base = tstack_top - PAGE_SIZE;
           let (stack_phys, k) = alloc_frame k;
           (ok, k) \<leftarrow> (if stack_phys = 0 then Some (False, k) else map_page tstack_base stack_phys k);
           if \<not> ok then
             Some (0, k_free t (k_free ks (if stack_phys \<noteq> 0 then set_kmach (free_frame stack_phys (kmach k)) k else k)))
           else do {
             k \<leftarrow> user_write32 (tstack_top - 4) arg k;
             k \<leftarrow> user_write32 (tstack_top - 8) 0 k;
             let user_esp = tstack_top - 8;
             let k = preempt_off k;
             let rc = as_refcount (tasks k self);
             let k = set_task t (\<lambda>x. x\<lparr>tid := next_task_id k, tname := name_copy (cstr_lit ''thread'') 31,
                   state := TASK_READY, priority := priority (tasks k self), stack_base := ks,
                   stack_top := ks + TASK_STACK_SIZE, is_user := True, is_thread := True, user_entry := entry,
                   user_stack_top := tstack_top, page_directory := page_directory (tasks k self),
                   as_refcount := rc, wake_tick := 0, parent := 0, exit_code := 0\<rparr>)
                 (k\<lparr>next_task_id := next_task_id k + 1,
                    refcounts := (if rc \<noteq> 0 then (refcounts k)(rc := refcounts k rc + 1) else refcounts k)\<rparr>);
             let k = fd_table_init t k;
             let (sp, k) = push_words [user_esp, entry, 0xDEADBEEF, sym_user_mode_enter sy, 0, 0, 0, 0]
                   (ks + TASK_STACK_SIZE) k;
             let k = set_task t (\<lambda>x. x\<lparr>esp := sp\<rparr>) k;
             Some (t, preempt_on (link_task t k)) } } } }"

text \<open>\<^verbatim>\<open>task_create_user\<close>: the label \<^verbatim>\<open>fail\<close> undoes the allocations.\<close>

definition create_user_fail :: "u32 \<Rightarrow> u32 \<Rightarrow> u32 \<Rightarrow> kernel \<Rightarrow> (u32 \<times> kernel) option" where
  "create_user_fail pd ks task k =
     do { k \<leftarrow> destroy_space pd k; Some (0, k_free task (k_free ks k)) }"

definition task_create_user :: "symbols \<Rightarrow> cstr \<Rightarrow> u8 list \<Rightarrow> u32 \<Rightarrow> u32 \<Rightarrow> kernel \<Rightarrow> (u32 \<times> kernel) option" where
  "task_create_user sy name payload payload_size prio k =
     (if payload_size > PAGE_SIZE then Some (0, k)
      else do {
        (task, k) \<leftarrow> k_malloc TASK_SIZE k;
        if task = 0 then Some (0, k)
        else do {
          (ks, k) \<leftarrow> k_malloc TASK_STACK_SIZE k;
          if ks = 0 then Some (0, k_free task k)
          else do {
            (pd, k) \<leftarrow> create_space k;
            if pd = 0 then Some (0, k_free task (k_free ks k))
            else do {
              let (code_phys, k) = alloc_frame k;
              if code_phys = 0 then create_user_fail pd ks task k
              else do {
                let saved_pd = vmm_get_current_address_space (kmach k);
                (ok, k) \<leftarrow> map_page USER_CODE_BASE code_phys (switch_space pd k);
                if \<not> ok then
                  create_user_fail pd ks task (let k = switch_space saved_pd k in set_kmach (free_frame code_phys (kmach k)) k)
                else do {
                  k \<leftarrow> user_write USER_CODE_BASE (take (unat payload_size) payload) k;
                  let (stack_phys, k) = alloc_frame k;
                  if stack_phys = 0 then create_user_fail pd ks task (switch_space saved_pd k)
                  else do {
                    (ok, k) \<leftarrow> map_page USER_STACK_BASE stack_phys k;
                    if \<not> ok then
                      create_user_fail pd ks task (let k = switch_space saved_pd k in set_kmach (free_frame stack_phys (kmach k)) k)
                    else do {
                      let k = preempt_off (switch_space saved_pd k);
                      let k = set_task task (\<lambda>t. t\<lparr>tid := next_task_id k, tname := name_copy name 31,
                            state := TASK_READY, priority := prio, stack_base := ks, stack_top := ks + TASK_STACK_SIZE,
                            is_user := True, user_entry := USER_CODE_BASE, user_stack_top := USER_STACK_TOP,
                            page_directory := pd, wake_tick := 0, parent := 0, exit_code := 0\<rparr>)
                          (k\<lparr>next_task_id := next_task_id k + 1\<rparr>);
                      let (sp, k) = push_words [USER_STACK_TOP, USER_CODE_BASE, 0xDEADBEEF, sym_user_mode_enter sy, 0, 0, 0, 0]
                            (ks + TASK_STACK_SIZE) k;
                      let k = set_task task (\<lambda>t. t\<lparr>esp := sp\<rparr>) k;
                      let k = fd_table_init task (link_task task k);
                      Some (task, preempt_on k) } } } } } } } })"

text \<open>
  The arguments on a new program's stack in \<^verbatim>\<open>task_create_user_elf\<close>: the name, the argument
  vector with its null pointer, and \<^verbatim>\<open>argv\<close> and \<^verbatim>\<open>argc\<close>.
\<close>

definition name_length :: "cstr \<Rightarrow> nat" where
  "name_length name = min 31 (strlen name) + 1"

definition elf_stack :: "cstr \<Rightarrow> kernel \<Rightarrow> (u32 \<times> kernel) option" where
  "elf_stack name k =
     do {
       let name_uaddr = USER_STACK_TOP - of_nat (name_length name);
       k \<leftarrow> user_write name_uaddr (take (name_length name) (name @ [0])) k;
       let argv_array = (name_uaddr AND NOT 3) - 8;
       k \<leftarrow> user_write32 argv_array name_uaddr k;
       k \<leftarrow> user_write32 (argv_array + 4) 0 k;
       k \<leftarrow> user_write32 (argv_array - 4) argv_array k;
       k \<leftarrow> user_write32 (argv_array - 8) 1 k;
       Some (argv_array - 8, k) }"

definition task_create_user_elf :: "symbols \<Rightarrow> cstr \<Rightarrow> cstr \<Rightarrow> u32 \<Rightarrow> kernel \<Rightarrow> (u32 \<times> kernel) option" where
  "task_create_user_elf sy name path prio k =
     (case vfs_lookup (Some path) (vfs k) of (found, v) \<Rightarrow>
      let k = k\<lparr>vfs := v\<rparr> in
      case found of
        None \<Rightarrow> Some (0, k)
      | Some node \<Rightarrow> do {
          (task, k) \<leftarrow> k_malloc TASK_SIZE k;
          if task = 0 then Some (0, k)
          else do {
            (ks, k) \<leftarrow> k_malloc TASK_STACK_SIZE k;
            if ks = 0 then Some (0, k_free task k)
            else do {
              (pd, k) \<leftarrow> create_space k;
              if pd = 0 then Some (0, k_free task (k_free ks k))
              else do {
                (entry, v) \<leftarrow> elf_load node pd (vfs k);
                let k = k\<lparr>vfs := v\<rparr>;
                if entry = 0 then create_user_fail pd ks task k
                else do {
                  let saved_pd = vmm_get_current_address_space (kmach k);
                  let (stack_phys, k) = alloc_frame (switch_space pd k);
                  (ok, k) \<leftarrow> (if stack_phys = 0 then Some (False, k) else map_page USER_STACK_BASE stack_phys k);
                  if \<not> ok then
                    create_user_fail pd ks task (switch_space saved_pd
                      (if stack_phys \<noteq> 0 then set_kmach (free_frame stack_phys (kmach k)) k else k))
                  else do {
                    (user_esp, k) \<leftarrow> elf_stack name k;
                    let k = preempt_off (switch_space saved_pd k);
                    let k = set_task task (\<lambda>t. t\<lparr>tid := next_task_id k, tname := name_copy name 31,
                          state := TASK_READY, priority := prio, stack_base := ks, stack_top := ks + TASK_STACK_SIZE,
                          is_user := True, user_entry := entry, user_stack_top := USER_STACK_TOP,
                          page_directory := pd\<rparr>) (k\<lparr>next_task_id := next_task_id k + 1\<rparr>);
                    (rc, k) \<leftarrow> k_malloc 4 k;
                    let k = set_task task (\<lambda>t. t\<lparr>as_refcount := rc, wake_tick := 0, parent := 0, exit_code := 0\<rparr>)
                        (k\<lparr>refcounts := (if rc \<noteq> 0 then (refcounts k)(rc := 1) else refcounts k)\<rparr>);
                    let k = fd_table_init task k;
                    let (sp, k) = push_words [user_esp, entry, 0xDEADBEEF, sym_user_mode_enter sy, 0, 0, 0, 0]
                          (ks + TASK_STACK_SIZE) k;
                    let k = link_task task (set_task task (\<lambda>t. t\<lparr>esp := sp\<rparr>) k);
                    Some (task, preempt_on k) } } } } } })"

section \<open>The life of a task\<close>

text \<open>Free a dead task that has left the list, and its address space with the last user of it.\<close>

definition bury :: "u32 \<Rightarrow> kernel \<Rightarrow> kernel option" where
  "bury dead k =
     do {
       let t = tasks k dead;
       let rc = as_refcount t;
       k \<leftarrow> (if rc \<noteq> 0 \<and> refcounts k rc = 0
            then do { k \<leftarrow> destroy_space (page_directory t) k; Some (k_free rc k) }
            else Some k);
       Some (k_free dead (k_free (stack_base t) k)) }"

text \<open>The loop of \<^verbatim>\<open>task_reap_terminated\<close>, with the rounds its guard leaves.\<close>

fun reap_loop :: "nat \<Rightarrow> u32 \<Rightarrow> u32 \<Rightarrow> kernel \<Rightarrow> kernel option" where
  "reap_loop 0 pv t k = Some k"
| "reap_loop (Suc n) pv t k =
     (if t = task_list k then Some k
      else if state (tasks k t) = TASK_TERMINATED \<and> parent (tasks k t) = 0 \<and> t \<noteq> current_task k
      then do {
        k \<leftarrow> bury t (set_task pv (\<lambda>x. x\<lparr>tnext := tnext (tasks k t)\<rparr>) k);
        reap_loop n pv (tnext (tasks k pv)) k }
      else reap_loop n t (tnext (tasks k t)) k)"

definition task_reap_terminated :: "kernel \<Rightarrow> kernel option" where
  "task_reap_terminated k =
     (let k = preempt_off k in
      if task_list k = 0 then Some (preempt_on k)
      else map_option preempt_on (reap_loop 1024 (task_list k) (tnext (tasks k (task_list k))) k))"

definition wake_if_blocked :: "u32 \<Rightarrow> kernel \<Rightarrow> kernel" where
  "wake_if_blocked a k =
     (if a \<noteq> 0 \<and> state (tasks k a) = TASK_BLOCKED then set_task a (\<lambda>t. t\<lparr>state := TASK_READY\<rparr>) k else k)"

text \<open>\<^verbatim>\<open>task_exit\<close> up to the switch away from the task, which never runs again.\<close>

definition task_exit :: "u32 \<Rightarrow> u32 \<Rightarrow> kernel \<Rightarrow> kernel option" where
  "task_exit code sp k =
     (let k = preempt_off k;
          cur = current_task k;
          k = set_task cur (\<lambda>t. t\<lparr>exit_code := code, state := TASK_TERMINATED\<rparr>) k;
          rc = as_refcount (tasks k cur);
          k = (if rc \<noteq> 0 then k\<lparr>refcounts := (refcounts k)(rc := refcounts k rc - 1)\<rparr> else k);
          k = wake_if_blocked (parent (tasks k cur)) k
      in task_yield sp (preempt_on k))"

definition task_fork :: "symbols \<Rightarrow> registers \<Rightarrow> kernel \<Rightarrow> (u32 \<times> kernel) option" where
  "task_fork sy regs k =
     do {
       let k = preempt_off k;
       let par = current_task k;
       if \<not> is_user (tasks k par) then Some (0, k)
       else do {
         (child, k) \<leftarrow> k_malloc TASK_SIZE k;
         if child = 0 then Some (0, preempt_on k)
         else do {
           (ks, k) \<leftarrow> k_malloc TASK_STACK_SIZE k;
           if ks = 0 then Some (0, k_free child k)
           else do {
             (pd, h) \<leftarrow> vmm_clone_address_space (page_directory (tasks k par)) (kheap (vfs k));
             let k = set_kheap h k;
             if pd = 0 then Some (0, preempt_on (k_free child (k_free ks k)))
             else do {
               let (sp, k) = push_words
                    [r_ss regs, r_useresp regs, r_eflags regs, r_cs regs, r_eip regs, r_err_code regs, r_int_no regs,
                     0, r_ecx regs, r_edx regs, r_ebx regs, 0, r_ebp regs, r_esi regs, r_edi regs, r_ds regs,
                     sym_isr_return sy, 0, 0, 0, 0] (ks + TASK_STACK_SIZE) k;
               let k = set_task child (\<lambda>t. t\<lparr>tid := next_task_id k, tname := name_copy (tname (tasks k par)) 31,
                     state := TASK_READY, priority := priority (tasks k par), stack_base := ks,
                     stack_top := ks + TASK_STACK_SIZE, is_user := True, user_entry := user_entry (tasks k par),
                     user_stack_top := user_stack_top (tasks k par), page_directory := pd\<rparr>)
                   (k\<lparr>next_task_id := next_task_id k + 1\<rparr>);
               (rc, k) \<leftarrow> k_malloc 4 k;
               let k = set_task child (\<lambda>t. t\<lparr>as_refcount := rc, wake_tick := 0, esp := sp, parent := par\<rparr>)
                   (k\<lparr>refcounts := (if rc \<noteq> 0 then (refcounts k)(rc := 1) else refcounts k)\<rparr>);
               let k = fd_table_init child (link_task child k);
               Some (child, preempt_on k) } } } } }"

text \<open>
  The scan of \<^verbatim>\<open>task_wait\<close> for children of \<open>self\<close>: whether there are any, and the first one that has
  terminated (or 0).
\<close>

partial_function (option) wait_scan :: "kernel \<Rightarrow> u32 \<Rightarrow> u32 \<Rightarrow> bool \<Rightarrow> (bool \<times> u32) option" where
  "wait_scan k self t have_children =
     (let child = parent (tasks k t) = self in
      if child \<and> state (tasks k t) = TASK_TERMINATED then Some (True, t)
      else if tnext (tasks k t) = task_list k then Some (have_children \<or> child, 0)
      else wait_scan k self (tnext (tasks k t)) (have_children \<or> child))"

partial_function (option) find_prev :: "kernel \<Rightarrow> u32 \<Rightarrow> u32 \<Rightarrow> u32 option" where
  "find_prev k child p = (if tnext (tasks k p) = child then Some p else find_prev k child (tnext (tasks k p)))"

definition unlink :: "u32 \<Rightarrow> kernel \<Rightarrow> kernel option" where
  "unlink a k =
     do {
       p \<leftarrow> find_prev k a a;
       let k = set_task p (\<lambda>t. t\<lparr>tnext := tnext (tasks k a)\<rparr>) k;
       Some (if task_list k = a then k\<lparr>task_list := tnext (tasks k a)\<rparr> else k) }"

text \<open>
  One round of the loop of \<^verbatim>\<open>task_wait\<close>: the result, or \<open>None\<close> where the task has blocked and
  switched away; when it runs again it starts over.
\<close>

definition task_wait :: "u32 \<Rightarrow> u32 \<Rightarrow> kernel \<Rightarrow> (u32 option \<times> kernel) option" where
  "task_wait status_user sp k =
     do {
       let self = current_task k;
       let k = preempt_off k;
       (have_children, child) \<leftarrow> wait_scan k self (task_list k) False;
       if \<not> have_children then Some (Some (-1), preempt_on k)
       else if child \<noteq> 0 then do {
         let pid = tid (tasks k child);
         let code = exit_code (tasks k child);
         k \<leftarrow> unlink child k;
         k \<leftarrow> bury child k;
         let k = preempt_on k;
         k \<leftarrow> (if status_user \<noteq> 0 \<and> status_user < KERNEL_BASE then user_write32 status_user code k else Some k);
         Some (Some pid, k) }
       else do {
         let k = preempt_on (set_task self (\<lambda>t. t\<lparr>state := TASK_BLOCKED\<rparr>) k);
         k \<leftarrow> task_yield sp k;
         Some (None, k) } }"

definition task_wake :: "u32 \<Rightarrow> kernel \<Rightarrow> kernel" where
  "task_wake a k = wake_if_blocked a k"

definition wake_sleeper :: "u64 \<Rightarrow> task \<Rightarrow> task" where
  "wake_sleeper now t =
     (if state t = TASK_BLOCKED \<and> wake_tick t \<noteq> 0 \<and> ucast (wake_tick t) \<le> now
      then t\<lparr>wake_tick := 0, state := TASK_READY\<rparr> else t)"

partial_function (option) wake_loop :: "u64 \<Rightarrow> u32 \<Rightarrow> kernel \<Rightarrow> kernel option" where
  "wake_loop now t k =
     (let k = set_task t (wake_sleeper now) k
      in if tnext (tasks k t) = task_list k then Some k else wake_loop now (tnext (tasks k t)) k)"

definition task_wake_sleepers :: "u64 \<Rightarrow> kernel \<Rightarrow> kernel option" where
  "task_wake_sleepers now k = (if task_list k = 0 then Some k else wake_loop now (task_list k) k)"

text \<open>\<^verbatim>\<open>scheduler_validate_list\<close>: the number of hops back to the start, or where it gives up.\<close>

fun validate_loop :: "nat \<Rightarrow> u32 \<Rightarrow> nat \<Rightarrow> kernel \<Rightarrow> bool" where
  "validate_loop 0 t count k = False"
| "validate_loop (Suc fuel) t count k =
     (if t = 0 then False
      else if count > 100 then False
      else if tnext (tasks k t) = task_list k then True
      else validate_loop fuel (tnext (tasks k t)) (count + 1) k)"

definition scheduler_validate_list :: "kernel \<Rightarrow> bool" where
  "scheduler_validate_list k = (if task_list k = 0 then True else validate_loop 102 (task_list k) 0 k)"

end
