(* ===== verification/Scheduler.thy ===== *)
theory Scheduler
  imports Task "HOL-Library.Multiset"
begin

text \<open>
  What the scheduler of \<^verbatim>\<open>task.c\<close> guarantees: the circular list of tasks stays a ring through
  every operation, only the current task is running, the task chosen next is a ready one
  of the highest priority, and tasks of equal priority take turns.
\<close>

section \<open>The ring of tasks\<close>

fun chain :: "(u32 \<Rightarrow> u32) \<Rightarrow> u32 list \<Rightarrow> u32 \<Rightarrow> bool" where
  "chain nx [] e \<longleftrightarrow> True"
| "chain nx [x] e \<longleftrightarrow> nx x = e"
| "chain nx (x # y # xs) e \<longleftrightarrow> nx x = y \<and> chain nx (y # xs) e"

lemma chain_append: "xs \<noteq> [] \<Longrightarrow> ys \<noteq> [] \<Longrightarrow> chain nx (xs @ ys) e \<longleftrightarrow> chain nx xs (hd ys) \<and> chain nx ys e"
proof (induction nx xs "hd ys" rule: chain.induct)
  case (2 nx x)
  then show ?case by (cases ys) auto
qed auto

lemma chain_Cons: "chain nx (x # xs) e \<longleftrightarrow> nx x = (if xs = [] then e else hd xs) \<and> chain nx xs e"
  by (cases xs) auto

lemma chain_cong: "\<forall>x \<in> set xs. nx' x = nx x \<Longrightarrow> chain nx' xs e = chain nx xs e"
  by (induction xs) (auto simp: chain_Cons)

lemma chain_rotate: "chain nx (xs @ ys) (hd (xs @ ys)) \<Longrightarrow> chain nx (ys @ xs) (hd (ys @ xs))"
  by (cases "xs = [] \<or> ys = []") (auto simp: chain_append)

abbreviation nexts :: "kernel \<Rightarrow> u32 \<Rightarrow> u32" where
  "nexts k a \<equiv> tnext (tasks k a)"

definition ring :: "kernel \<Rightarrow> u32 list \<Rightarrow> bool" where
  "ring k ts \<longleftrightarrow> ts \<noteq> [] \<and> distinct ts \<and> 0 \<notin> set ts \<and> hd ts = task_list k \<and> chain (nexts k) ts (task_list k)"

text \<open>The order in which the scheduler looks at the tasks: from the successor of the current one, which comes last.\<close>

definition after :: "u32 \<Rightarrow> u32 list \<Rightarrow> u32 list" where
  "after c ts = tl (dropWhile (\<lambda>t. t \<noteq> c) ts) @ takeWhile (\<lambda>t. t \<noteq> c) ts @ [c]"

lemma after_split: "c \<notin> set as \<Longrightarrow> after c (as @ c # bs) = bs @ as @ [c]"
  by (simp add: after_def dropWhile_append takeWhile_append)

lemma ring_split:
  assumes "ring k ts" "c \<in> set ts"
  obtains as bs where "ts = as @ c # bs" "c \<notin> set as" "after c ts = bs @ as @ [c]"
    "chain (nexts k) (bs @ as @ [c]) (hd (bs @ as @ [c]))" "nexts k c = hd (bs @ as @ [c])"
proof -
  obtain as bs where ts: "ts = as @ c # bs" "c \<notin> set as" using assms(2) by (metis split_list_first)
  have ch: "chain (nexts k) ((as @ [c]) @ bs) (hd ((as @ [c]) @ bs))" using assms(1) ts(1) by (simp add: ring_def)
  then have rot: "chain (nexts k) (bs @ as @ [c]) (hd (bs @ as @ [c]))" using chain_rotate [OF ch] by simp
  have "nexts k c = hd (bs @ as @ [c])"
    using rot chain_append [of "bs @ as" "[c]"] by (cases "bs @ as = []") auto
  then show ?thesis using that [OF ts] after_split [OF ts(2), of bs] ts(1) rot by simp
qed

lemma set_after: "ring k ts \<Longrightarrow> c \<in> set ts \<Longrightarrow> set (after c ts) = set ts \<and> distinct (after c ts) \<and> after c ts \<noteq> []"
proof -
  assume r: "ring k ts" and c: "c \<in> set ts"
  obtain as bs where "ts = as @ c # bs" "after c ts = bs @ as @ [c]" using ring_split [OF r c] by metis
  then show ?thesis using r by (auto simp: ring_def)
qed

section \<open>Choosing the next task\<close>

definition ready :: "kernel \<Rightarrow> u32 \<Rightarrow> bool" where
  "ready k t \<longleftrightarrow> state (tasks k t) = TASK_READY"

abbreviation prio :: "kernel \<Rightarrow> u32 \<Rightarrow> u32" where
  "prio k t \<equiv> priority (tasks k t)"

text \<open>The first ready task of highest priority in a list, or 0.\<close>

definition best_in :: "kernel \<Rightarrow> u32 list \<Rightarrow> u32 \<Rightarrow> bool" where
  "best_in k xs r \<longleftrightarrow>
     (if \<exists>t \<in> set xs. ready k t
      then \<exists>as bs. xs = as @ r # bs \<and> ready k r \<and> (\<forall>t \<in> set as. ready k t \<longrightarrow> prio k t < prio k r) \<and>
        (\<forall>t \<in> set bs. ready k t \<longrightarrow> prio k t \<le> prio k r)
      else r = 0)"

lemma best_inI:
  assumes "xs = as @ r # bs" "ready k r" "\<forall>t \<in> set as. ready k t \<longrightarrow> prio k t < prio k r"
    "\<forall>t \<in> set bs. ready k t \<longrightarrow> prio k t \<le> prio k r"
  shows "best_in k xs r"
proof -
  have "\<exists>t \<in> set xs. ready k t" using assms(1,2) by auto
  then show ?thesis unfolding best_in_def using assms by auto
qed

lemma best_in_snoc:
  assumes "best_in k xs b" "0 \<notin> set xs" "x \<noteq> 0"
  shows "best_in k (xs @ [x]) (if ready k x \<and> (b = 0 \<or> prio k b < prio k x) then x else b)"
proof (cases "\<exists>t \<in> set xs. ready k t")
  case False
  then have "b = 0" "\<forall>t \<in> set xs. \<not> ready k t" using assms(1) by (auto simp: best_in_def)
  then show ?thesis
    using best_inI [of "xs @ [x]" xs x "[]" k] by (cases "ready k x") (auto simp: best_in_def)
next
  case True
  then obtain as bs where x: "xs = as @ b # bs" "ready k b" "\<forall>t \<in> set as. ready k t \<longrightarrow> prio k t < prio k b"
    "\<forall>t \<in> set bs. ready k t \<longrightarrow> prio k t \<le> prio k b" using assms(1) by (auto simp: best_in_def)
  have "b \<noteq> 0" using x(1) assms(2) by auto
  show ?thesis
  proof (cases "ready k x \<and> prio k b < prio k x")
    case True
    then have "\<forall>t \<in> set xs. ready k t \<longrightarrow> prio k t < prio k x" using x by (auto intro: less_trans le_less_trans)
    then show ?thesis using True best_inI [of "xs @ [x]" xs x "[]" k] by simp
  next
    case False
    then have "\<forall>t \<in> set (bs @ [x]). ready k t \<longrightarrow> prio k t \<le> prio k b" using x(4) by auto
    then show ?thesis using False x \<open>b \<noteq> 0\<close> best_inI [of "xs @ [x]" as b "bs @ [x]" k] by auto
  qed
qed

lemma pick_loop_chain:
  assumes "chain (nexts k) xs start" "xs \<noteq> []" "0 \<notin> set xs" "start \<notin> set (tl xs)"
    and "best_in k ys b" "0 \<notin> set ys" "b \<noteq> 0 \<longrightarrow> p = prio k b"
  shows "\<exists>r. pick_loop k start (hd xs) b p = Some r \<and> best_in k (ys @ xs) r"
  using assms
proof (induction xs arbitrary: ys b p)
  case (Cons x xs)
  let ?b = "if ready k x \<and> (b = 0 \<or> prio k b < prio k x) then x else b"
  have x: "x \<noteq> 0" using Cons.prems(3) by auto
  have b: "best_in k (ys @ [x]) ?b" using best_in_snoc [OF Cons.prems(5,6) x] .
  have step: "pick_loop k start x b p =
      (if nexts k x = start then Some ?b else pick_loop k start (nexts k x) ?b (if ?b = x \<and> ready k x \<and> (b = 0 \<or> prio k b < prio k x) then prio k x else p))"
    using x Cons.prems(7) by (subst pick_loop.simps) (auto simp: Let_def ready_def)
  show ?case
  proof (cases "xs = []")
    case True
    then show ?thesis using step Cons.prems(1) b by auto
  next
    case False
    have nx: "nexts k x = hd xs" "chain (nexts k) xs start" using Cons.prems(1) False by (simp_all add: chain_Cons)
    have ne: "hd xs \<noteq> start" "start \<notin> set (tl xs)" using Cons.prems(4) False by (auto dest: list.set_sel)
    let ?p = "if ?b = x \<and> ready k x \<and> (b = 0 \<or> prio k b < prio k x) then prio k x else p"
    have "?b \<noteq> 0 \<longrightarrow> ?p = prio k ?b" using Cons.prems(7) by auto
    from Cons.IH [OF nx(2) False _ ne(2) b _ this] Cons.prems(3,6) x
    show ?thesis using step nx(1) ne(1) by auto
  qed
qed simp

lemma pick_next_spec:
  assumes "ring k ts" "current_task k \<in> set ts"
  shows "\<exists>r. pick_next_task k = Some r \<and> best_in k (after (current_task k) ts) r"
proof -
  let ?c = "current_task k"
  obtain as bs where s: "after ?c ts = bs @ as @ [?c]" "chain (nexts k) (bs @ as @ [?c]) (hd (bs @ as @ [?c]))"
    "nexts k ?c = hd (bs @ as @ [?c])" using ring_split [OF assms] by metis
  let ?xs = "after ?c ts"
  have x: "?xs \<noteq> []" "distinct ?xs" "0 \<notin> set ?xs" using set_after [OF assms] assms(1) by (auto simp: ring_def)
  then have "hd ?xs \<notin> set (tl ?xs)" by (cases ?xs) auto
  moreover have "best_in k [] 0" by (simp add: best_in_def)
  ultimately have "\<exists>r. pick_loop k (hd ?xs) (hd ?xs) 0 0 = Some r \<and> best_in k ([] @ ?xs) r"
    using s x by (intro pick_loop_chain) simp_all
  moreover have "task_list k \<noteq> 0" "?c \<noteq> 0" using assms by (auto simp: ring_def dest: hd_in_set)
  ultimately show ?thesis using s by (simp add: pick_next_task_def Let_def)
qed

text \<open>
  C10: on a well-formed ring the choice of the next task always ends. It finds a ready task
  exactly when there is one; no ready task has a higher priority, and among those of equal
  priority it is the first in the ring after the current task.
\<close>

theorem pick_next_task_correct:
  assumes "ring k ts" "current_task k \<in> set ts"
  shows "\<exists>r. pick_next_task k = Some r \<and>
    (r = 0 \<longleftrightarrow> (\<forall>t \<in> set ts. state (tasks k t) \<noteq> TASK_READY)) \<and>
    (r \<noteq> 0 \<longrightarrow> r \<in> set ts \<and> state (tasks k r) = TASK_READY \<and>
       (\<forall>t \<in> set ts. state (tasks k t) = TASK_READY \<longrightarrow> priority (tasks k t) \<le> priority (tasks k r)) \<and>
       (\<forall>t \<in> set (takeWhile (\<lambda>t. t \<noteq> r) (after (current_task k) ts)).
          state (tasks k t) = TASK_READY \<longrightarrow> priority (tasks k t) < priority (tasks k r)))"
proof -
  let ?xs = "after (current_task k) ts"
  obtain r where r: "pick_next_task k = Some r" "best_in k ?xs r" using pick_next_spec [OF assms] by blast
  have xs: "set ?xs = set ts" "0 \<notin> set ts" "distinct ?xs" using set_after [OF assms] assms(1) by (auto simp: ring_def)
  show ?thesis
  proof (cases "\<exists>t \<in> set ?xs. ready k t")
    case False
    then show ?thesis using r xs by (auto simp: best_in_def ready_def)
  next
    case True
    then obtain as bs where s: "?xs = as @ r # bs" "ready k r" "\<forall>t \<in> set as. ready k t \<longrightarrow> prio k t < prio k r"
      "\<forall>t \<in> set bs. ready k t \<longrightarrow> prio k t \<le> prio k r" using r(2) by (auto simp: best_in_def)
    have "r \<notin> set as" using xs(3) s(1) by auto
    then have tw: "takeWhile (\<lambda>t. t \<noteq> r) ?xs = as" using s(1) by (simp add: takeWhile_append)
    have "r \<in> set ts" "set ts = insert r (set as \<union> set bs)" using s(1) xs(1) by auto
    then have "\<forall>t \<in> set ts. ready k t \<longrightarrow> prio k t \<le> prio k r" using s(3,4) by (auto intro: less_imp_le)
    then show ?thesis
      using r(1) s(2,3) xs(2) \<open>r \<in> set ts\<close> tw by (intro exI [of _ r]) (auto simp: ready_def)
  qed
qed

section \<open>The invariant\<close>

text \<open>The tasks form a ring that holds the current task, and no other task is marked running.\<close>

definition sched_wf :: "kernel \<Rightarrow> u32 list \<Rightarrow> bool" where
  "sched_wf k ts \<longleftrightarrow> ring k ts \<and> current_task k \<in> set ts \<and>
     (\<forall>t \<in> set ts. state (tasks k t) = TASK_RUNNING \<longrightarrow> t = current_task k)"

lemma kernel_frame [simp]:
  "tasks (set_kheap h k) = tasks k" "current_task (set_kheap h k) = current_task k" "task_list (set_kheap h k) = task_list k"
  "tasks (set_kmach m k) = tasks k" "current_task (set_kmach m k) = current_task k" "task_list (set_kmach m k) = task_list k"
  "tasks (preempt_on k) = tasks k" "current_task (preempt_on k) = current_task k" "task_list (preempt_on k) = task_list k"
  "tasks (preempt_off k) = tasks k" "current_task (preempt_off k) = current_task k" "task_list (preempt_off k) = task_list k"
  "tasks (k_free a k) = tasks k" "current_task (k_free a k) = current_task k" "task_list (k_free a k) = task_list k"
  "tasks (switch_space pd k) = tasks k" "current_task (switch_space pd k) = current_task k" "task_list (switch_space pd k) = task_list k"
  by (simp_all add: set_kheap_def set_kmach_def preempt_on_def preempt_off_def k_free_def switch_space_def)

lemma set_task_simps [simp]:
  "tasks (set_task a f k) = (tasks k)(a := f (tasks k a))" "current_task (set_task a f k) = current_task k"
  "task_list (set_task a f k) = task_list k"
  by (simp_all add: set_task_def)

lemma sched_wf_cong:
  assumes "sched_wf k ts" "tasks k' = tasks k" "current_task k' = current_task k" "task_list k' = task_list k"
  shows "sched_wf k' ts"
  using assms by (simp add: sched_wf_def ring_def)

lemma sched_wf_fields [simp]:
  "sched_wf (k\<lparr>preempt_counter := x\<rparr>) ts = sched_wf k ts" "sched_wf (k\<lparr>refcounts := y\<rparr>) ts = sched_wf k ts"
  "sched_wf (k\<lparr>next_task_id := z\<rparr>) ts = sched_wf k ts" "sched_wf (k\<lparr>vfs := v\<rparr>) ts = sched_wf k ts"
  "sched_wf (k\<lparr>kstack := w\<rparr>) ts = sched_wf k ts" "sched_wf (k\<lparr>next_thread_stack_top := z\<rparr>) ts = sched_wf k ts"
  by (simp_all add: sched_wf_def ring_def)

lemma sched_wf_below [simp]:
  "sched_wf (set_kheap h k) ts = sched_wf k ts" "sched_wf (set_kmach m k) ts = sched_wf k ts"
  "sched_wf (preempt_on k) ts = sched_wf k ts" "sched_wf (preempt_off k) ts = sched_wf k ts"
  "sched_wf (k_free a k) ts = sched_wf k ts" "sched_wf (switch_space pd k) ts = sched_wf k ts"
  by (simp_all add: sched_wf_def ring_def)

text \<open>Operations that change neither links nor the set of tasks: what they must keep.\<close>

lemma sched_wf_relabel:
  assumes "sched_wf k ts" "task_list k' = task_list k" "current_task k' \<in> set ts"
    and "\<forall>t \<in> set ts. tnext (tasks k' t) = tnext (tasks k t)"
    and "\<forall>t \<in> set ts. state (tasks k' t) = TASK_RUNNING \<longrightarrow> t = current_task k'"
  shows "sched_wf k' ts"
  using assms chain_cong [of ts "nexts k'" "nexts k"] by (auto simp: sched_wf_def ring_def)

lemma switch_to_simps [simp]:
  "task_list (switch_to sp n k) = task_list k" "current_task (switch_to sp n k) = n"
  "tnext (tasks (switch_to sp n k) t) = tnext (tasks k t)"
  "n \<noteq> current_task k \<Longrightarrow> state (tasks (switch_to sp n k) t) =
     (if t = n then TASK_RUNNING else if t = current_task k \<and> state (tasks k t) = TASK_RUNNING then TASK_READY else state (tasks k t))"
  "priority (tasks (switch_to sp n k) t) = priority (tasks k t)"
  by (simp_all add: switch_to_def Let_def)

lemma best_in_mem: "best_in k xs r \<Longrightarrow> r \<noteq> 0 \<Longrightarrow> r \<in> set xs \<and> ready k r"
  by (auto simp: best_in_def split: if_splits)

lemma reschedule_wf:
  assumes "sched_wf k ts"
  shows "\<exists>r. pick_next_task k = Some r \<and> sched_wf (if r = 0 \<or> r = current_task k then k else switch_to sp r k) ts"
proof -
  obtain r where r: "pick_next_task k = Some r" "best_in k (after (current_task k) ts) r"
    using pick_next_spec assms unfolding sched_wf_def by blast
  have "r \<in> set ts" if "r \<noteq> 0"
    using best_in_mem [OF r(2) that] set_after [of k ts "current_task k"] assms by (simp add: sched_wf_def)
  then have "sched_wf (switch_to sp r k) ts" if "r \<noteq> 0" "r \<noteq> current_task k"
    by (intro sched_wf_relabel [OF assms]) (use assms that in \<open>auto simp: sched_wf_def\<close>)
  then show ?thesis using r(1) assms by auto
qed

lemma task_yield_wf: "sched_wf k ts \<Longrightarrow> \<exists>k'. task_yield sp k = Some k' \<and> sched_wf k' ts"
  using reschedule_wf [of k ts sp] by (auto simp: task_yield_def sched_wf_def)

lemma scheduler_tick_wf: "sched_wf k ts \<Longrightarrow> \<exists>k'. scheduler_tick sp k = Some k' \<and> sched_wf k' ts"
proof -
  assume wf: "sched_wf k ts"
  let ?k = "k\<lparr>preempt_counter := preempt_counter k + 1\<rparr>" and ?k0 = "k\<lparr>preempt_counter := 0\<rparr>"
  have wfs: "sched_wf ?k ts" "sched_wf ?k0 ts" by (auto intro: sched_wf_cong [OF wf])
  obtain r where "pick_next_task ?k0 = Some r" "sched_wf (if r = 0 \<or> r = current_task ?k0 then ?k0 else switch_to sp r ?k0) ts"
    using reschedule_wf [OF wfs(2)] by blast
  then show ?thesis using wf by (simp add: scheduler_tick_def Let_def)
qed

lemma wake_wf: "sched_wf k ts \<Longrightarrow> sched_wf (wake_if_blocked a k) ts"
proof -
  assume wf: "sched_wf k ts"
  then show ?thesis by (intro sched_wf_relabel [OF wf]) (auto simp: wake_if_blocked_def sched_wf_def)
qed

lemma task_exit_wf: "sched_wf k ts \<Longrightarrow> \<exists>k'. task_exit code sp k = Some k' \<and> sched_wf k' ts"
proof -
  assume wf: "sched_wf k ts"
  define k1 where "k1 = set_task (current_task k) (\<lambda>t. t\<lparr>exit_code := code, state := TASK_TERMINATED\<rparr>) (preempt_off k)"
  define rc where "rc = as_refcount (tasks k1 (current_task k))"
  define k2 where "k2 = (if rc \<noteq> 0 then k1\<lparr>refcounts := (refcounts k1)(rc := refcounts k1 rc - 1)\<rparr> else k1)"
  have "sched_wf k1 ts"
    unfolding k1_def by (intro sched_wf_relabel [OF wf]) (use wf in \<open>auto simp: sched_wf_def\<close>)
  then have "sched_wf k2 ts" by (simp add: k2_def)
  then have "sched_wf (preempt_on (wake_if_blocked (parent (tasks k2 (current_task k))) k2)) ts" by (simp add: wake_wf)
  moreover have "task_exit code sp k = task_yield sp (preempt_on (wake_if_blocked (parent (tasks k2 (current_task k))) k2))"
    by (simp add: task_exit_def Let_def k2_def rc_def k1_def)
  ultimately show ?thesis using task_yield_wf by metis
qed

text \<open>A new task at an address outside the ring, linked in after the current one.\<close>

lemma link_wf:
  assumes "sched_wf k ts" "a \<notin> set ts" "a \<noteq> 0" "state (tasks k a) \<noteq> TASK_RUNNING"
  shows "\<exists>ts'. sched_wf (link_task a k) ts' \<and> set ts' = insert a (set ts)"
proof -
  let ?c = "current_task k"
  have rg: "ring k ts" "?c \<in> set ts" using assms(1) by (simp_all add: sched_wf_def)
  obtain as bs where ts: "ts = as @ ?c # bs" "?c \<notin> set as" using rg(2) by (metis split_list_first)
  let ?k = "link_task a k" and ?ts = "as @ ?c # a # bs"
  have ca: "?c \<noteq> a" using assms(2) rg(2) by auto
  have nx: "nexts ?k x = (if x = ?c then a else if x = a then nexts k ?c else nexts k x)" for x
    using ca by (simp add: link_task_def Let_def)
  have ch: "chain (nexts k) (as @ ?c # bs) (hd ts)" using rg(1) by (simp add: ring_def flip: ts(1))
  have d: "distinct ts" using rg(1) by (simp add: ring_def)
  have same: "\<forall>x \<in> set as. nexts ?k x = nexts k x" "\<forall>x \<in> set bs. nexts ?k x = nexts k x"
    using d ts assms(2) by (auto simp only: nx) (auto)
  have "chain (nexts ?k) ?ts (hd ts)"
  proof (cases "as = []")
    case True
    then show ?thesis
      using ch ts chain_cong [OF same(2)] ca by (auto simp: chain_Cons nx)
  next
    case False
    then have "chain (nexts k) as ?c" "chain (nexts k) (?c # bs) (hd ts)" using ch chain_append [of as "?c # bs"] by auto
    then show ?thesis
      using False chain_append [of as "?c # a # bs"] chain_cong [OF same(1)] chain_cong [OF same(2)] ca
      by (auto simp: chain_Cons nx)
  qed
  moreover have "hd ?ts = hd ts" using ts by (cases as) auto
  ultimately have "ring ?k ?ts" using rg(1) ts assms(2,3) d by (auto simp: ring_def link_task_def Let_def)
  moreover have st: "state (tasks ?k t) = state (tasks k t)" "current_task ?k = ?c" for t
    by (auto simp: link_task_def Let_def)
  ultimately show ?thesis
    using assms(1,4) ts by (intro exI [of _ ?ts]) (auto simp: sched_wf_def)
qed

section \<open>Removing tasks\<close>

lemma find_prev_chain:
  "chain (nexts k) ys e \<Longrightarrow> ys \<noteq> [] \<Longrightarrow> e \<notin> set (tl ys) \<Longrightarrow> find_prev k e (hd ys) = Some (last ys)"
proof (induction ys)
  case (Cons y ys)
  then show ?case
    by (cases "ys = []"; subst find_prev.simps) (auto simp: chain_Cons dest: list.set_sel)
qed simp

lemma chain_drop:
  assumes "chain nx (xs @ p # a # ys) e" "distinct (xs @ p # a # ys)"
  shows "chain (nx(p := nx a)) (xs @ p # ys) e"
proof -
  have "chain nx (p # a # ys) e" "xs \<noteq> [] \<Longrightarrow> chain nx xs p"
    using assms(1) chain_append [of xs "p # a # ys"] by (cases "xs = []"; simp)+
  moreover have "chain (nx(p := nx a)) zs f = chain nx zs f" if "p \<notin> set zs" for zs f
    using that by (intro chain_cong) auto
  ultimately show ?thesis
    using assms(2) chain_append [of xs "p # ys"] by (cases "xs = []") (auto simp: chain_Cons)
qed

text \<open>Taking the successor \<open>a\<close> of \<open>p\<close> out of the ring, where \<open>a\<close> is neither first nor current.\<close>

lemma drop_wf:
  assumes "sched_wf k (xs @ p # a # ys)" "a \<noteq> current_task k"
  shows "sched_wf (set_task p (\<lambda>t. t\<lparr>tnext := nexts k a\<rparr>) k) (xs @ p # ys)"
proof -
  let ?k = "set_task p (\<lambda>t. t\<lparr>tnext := nexts k a\<rparr>) k"
  have "chain ((nexts k)(p := nexts k a)) (xs @ p # ys) (task_list k)"
    using assms(1) by (intro chain_drop) (auto simp: sched_wf_def ring_def)
  moreover have "nexts ?k = (nexts k)(p := nexts k a)" by (simp add: fun_eq_iff)
  ultimately have "chain (nexts ?k) (xs @ p # ys) (task_list ?k)" by simp
  moreover have "hd (xs @ p # ys) = hd (xs @ p # a # ys)" by (cases xs) auto
  ultimately show ?thesis using assms by (auto simp: sched_wf_def ring_def)
qed

text \<open>Taking the first task out: its predecessor is the last, and the list starts at its successor.\<close>

lemma drop_head_wf:
  assumes "sched_wf k (a # ys)" "a \<noteq> current_task k"
  shows "sched_wf ((set_task (last ys) (\<lambda>t. t\<lparr>tnext := nexts k a\<rparr>) k)\<lparr>task_list := nexts k a\<rparr>) ys"
proof -
  have ne: "ys \<noteq> []" using assms by (auto simp: sched_wf_def)
  then obtain zs p where ys: "ys = zs @ [p]" by (metis rev_exhaust)
  let ?k = "(set_task (last ys) (\<lambda>t. t\<lparr>tnext := nexts k a\<rparr>) k)\<lparr>task_list := nexts k a\<rparr>"
  have ch: "nexts k a = hd ys" "chain (nexts k) (zs @ [p]) a" "distinct (a # ys)"
    using assms(1) ne ys by (auto simp: sched_wf_def ring_def chain_Cons)
  have "chain (nexts k) zs p" if "zs \<noteq> []" using ch(2) that chain_append [of zs "[p]"] by simp
  moreover have "\<forall>x \<in> set zs. nexts ?k x = nexts k x" "nexts ?k p = nexts k a" using ch(3) ys by auto
  ultimately have "chain (nexts ?k) ys (nexts k a)"
    using ys chain_append [of zs "[p]" "nexts ?k"] chain_cong [of zs "nexts ?k" "nexts k"] by (cases "zs = []") auto
  then show ?thesis using assms ne ch(1) by (auto simp: sched_wf_def ring_def)
qed

lemma unlink_wf:
  assumes "sched_wf k ts" "a \<in> set ts" "a \<noteq> current_task k"
  shows "\<exists>k'. unlink a k = Some k' \<and> sched_wf k' (remove1 a ts)"
proof -
  obtain as bs where ts: "ts = as @ a # bs" "a \<notin> set as" using assms(2) by (metis split_list_first)
  have rg: "ring k ts" using assms(1) by (simp add: sched_wf_def)
  have rot: "chain (nexts k) (a # bs @ as) a" "nexts k a = (if bs = [] then task_list k else hd bs)"
  proof -
    have c: "chain (nexts k) (as @ a # bs) (hd (as @ a # bs))" "hd (as @ a # bs) = task_list k"
      using rg ts(1) by (auto simp: ring_def)
    from chain_rotate [OF c(1)] show "chain (nexts k) (a # bs @ as) a" by simp
    have "chain (nexts k) (a # bs) (task_list k)" using c chain_append [of as "a # bs"] by (cases "as = []") auto
    then show "nexts k a = (if bs = [] then task_list k else hd bs)" by (simp add: chain_Cons)
  qed
  moreover have "a \<notin> set (bs @ as)" using rg ts by (auto simp: ring_def)
  ultimately have fp: "find_prev k a a = Some (last (a # bs @ as))"
    using find_prev_chain [of k "a # bs @ as" a] by simp
  have r1: "remove1 a ts = as @ bs" using ts by (simp add: remove1_append)
  show ?thesis
  proof (cases "as = []")
    case True
    then have tl: "task_list k = a" "ts = a # bs" using rg ts by (auto simp: ring_def)
    have ne: "bs \<noteq> []" using assms tl by (auto simp: sched_wf_def)
    then have "last bs \<noteq> a" using rg tl by (auto simp: ring_def dest: last_in_set)
    then show ?thesis
      using fp r1 True ne tl drop_head_wf [of k a bs] assms by (simp add: unlink_def)
  next
    case False
    then obtain xs p where as: "as = xs @ [p]" by (metis rev_exhaust)
    have "task_list k \<noteq> a" using rg ts False by (cases as) (auto simp: ring_def)
    then show ?thesis
      using fp r1 as ts drop_wf [of k xs p a bs] assms by (simp add: unlink_def)
  qed
qed

lemma bury_frame:
  assumes "bury d k = Some k'"
  shows "tasks k' = tasks k" "current_task k' = current_task k" "task_list k' = task_list k"
  using assms by (auto simp: bury_def destroy_space_def Let_def Option.bind_eq_Some_conv split: if_splits)

lemma reap_loop_wf:
  assumes "sched_wf k (as @ pv # bs)" "t = (if bs = [] then task_list k else hd bs)" "reap_loop n pv t k = Some k'"
  shows "\<exists>ts'. sched_wf k' ts' \<and> set ts' \<subseteq> set (as @ pv # bs)"
  using assms
proof (induction n arbitrary: as pv bs t k)
  case (Suc n)
  show ?case
  proof (cases "t = task_list k")
    case True
    then show ?thesis using Suc.prems by auto
  next
    case False
    then obtain cs where bs: "bs = t # cs" using Suc.prems(2) by (cases bs) auto
    have nt: "nexts k t = (if cs = [] then task_list k else hd cs)" "nexts k pv = t"
    proof -
      have "chain (nexts k) (as @ pv # t # cs) (task_list k)" using Suc.prems(1) bs by (simp add: sched_wf_def ring_def)
      then have "chain (nexts k) (pv # t # cs) (task_list k)" using chain_append [of as "pv # t # cs"] by (cases "as = []") auto
      then show "nexts k t = (if cs = [] then task_list k else hd cs)" "nexts k pv = t" by (simp_all add: chain_Cons)
    qed
    show ?thesis
    proof (cases "state (tasks k t) = TASK_TERMINATED \<and> parent (tasks k t) = 0 \<and> t \<noteq> current_task k")
      case dead: True
      let ?k = "set_task pv (\<lambda>x. x\<lparr>tnext := nexts k t\<rparr>) k"
      obtain k1 where k1: "bury t ?k = Some k1" "reap_loop n pv (nexts k1 pv) k1 = Some k'"
        using Suc.prems(3) dead False by (auto simp: Option.bind_eq_Some_conv)
      have "sched_wf ?k (as @ pv # cs)" using drop_wf [of k as pv t cs] Suc.prems(1) dead bs by simp
      then have wf: "sched_wf k1 (as @ pv # cs)" using bury_frame [OF k1(1)] by (rule sched_wf_cong)
      have "nexts k1 pv = (if cs = [] then task_list k1 else hd cs)" using bury_frame [OF k1(1)] nt(1) by simp
      from Suc.IH [OF wf this k1(2)] show ?thesis using bs by auto
    next
      case alive: False
      have "reap_loop n t (nexts k t) k = Some k'" using Suc.prems(3) alive False by auto
      moreover have "sched_wf k ((as @ [pv]) @ t # cs)" using Suc.prems(1) bs by simp
      ultimately show ?thesis using Suc.IH [of k "as @ [pv]" t cs] nt(1) bs by simp
    qed
  qed
qed auto

lemma reap_wf:
  assumes "sched_wf k ts" "task_reap_terminated k = Some k'"
  shows "\<exists>ts'. sched_wf k' ts' \<and> set ts' \<subseteq> set ts"
proof -
  obtain bs where ts: "ts = task_list k # bs" "task_list k \<noteq> 0"
    using assms(1) by (cases ts) (auto simp: sched_wf_def ring_def)
  then obtain k1 where k1: "reap_loop 1024 (task_list k) (nexts k (task_list k)) (preempt_off k) = Some k1" "k' = preempt_on k1"
    using assms(2) by (auto simp: task_reap_terminated_def Let_def)
  have "nexts k (task_list k) = (if bs = [] then task_list k else hd bs)"
    using assms(1) ts by (auto simp: sched_wf_def ring_def chain_Cons split: if_splits)
  then show ?thesis
    using reap_loop_wf [of "preempt_off k" "[]" "task_list k" bs "nexts k (task_list k)" 1024 k1] assms(1) ts k1
    by (cases "bs = []") auto
qed

section \<open>Waiting for a child\<close>

lemma wait_scan_chain:
  assumes "chain (nexts k) xs (task_list k)" "xs \<noteq> []" "task_list k \<notin> set (tl xs)" "0 \<notin> set xs"
  shows "\<exists>b c. wait_scan k self (hd xs) h = Some (b, c) \<and>
    (b \<longleftrightarrow> h \<or> (\<exists>t \<in> set xs. parent (tasks k t) = self)) \<and>
    (if \<exists>t \<in> set xs. parent (tasks k t) = self \<and> state (tasks k t) = TASK_TERMINATED
     then c \<in> set xs \<and> parent (tasks k c) = self \<and> state (tasks k c) = TASK_TERMINATED else c = 0)"
  using assms
proof (induction xs arbitrary: h)
  case (Cons x xs)
  let ?p = "parent (tasks k x) = self"
  show ?case
  proof (cases "?p \<and> state (tasks k x) = TASK_TERMINATED")
    case True
    then show ?thesis by (subst wait_scan.simps) auto
  next
    case False
    show ?thesis
    proof (cases "xs = []")
      case True
      then show ?thesis using False Cons.prems by (subst wait_scan.simps) auto
    next
      case ne: False
      have nx: "nexts k x = hd xs" "chain (nexts k) xs (task_list k)" "hd xs \<noteq> task_list k" "task_list k \<notin> set (tl xs)"
        using Cons.prems(1,3) ne by (auto simp: chain_Cons dest: list.set_sel)
      have "wait_scan k self x h = wait_scan k self (hd xs) (h \<or> ?p)"
        using False nx by (subst wait_scan.simps) (auto simp: Let_def)
      moreover obtain b c where "wait_scan k self (hd xs) (h \<or> ?p) = Some (b, c)"
        "b \<longleftrightarrow> (h \<or> ?p) \<or> (\<exists>t \<in> set xs. parent (tasks k t) = self)"
        "if \<exists>t \<in> set xs. parent (tasks k t) = self \<and> state (tasks k t) = TASK_TERMINATED
         then c \<in> set xs \<and> parent (tasks k c) = self \<and> state (tasks k c) = TASK_TERMINATED else c = 0"
        using Cons.IH [OF nx(2) ne nx(4), of "h \<or> ?p"] Cons.prems(4) by auto
      ultimately show ?thesis using False
        by (intro exI [of _ b] exI [of _ c]) (auto split: if_splits)
    qed
  qed
qed simp

lemma wait_scan_ring:
  assumes "ring k ts"
  obtains b c where "wait_scan k self (task_list k) False = Some (b, c)"
    "b \<longleftrightarrow> (\<exists>t \<in> set ts. parent (tasks k t) = self)"
    "c \<noteq> 0 \<Longrightarrow> c \<in> set ts \<and> parent (tasks k c) = self \<and> state (tasks k c) = TASK_TERMINATED"
    "c = 0 \<Longrightarrow> \<forall>t \<in> set ts. parent (tasks k t) = self \<longrightarrow> state (tasks k t) \<noteq> TASK_TERMINATED"
proof -
  have r: "chain (nexts k) ts (task_list k)" "ts \<noteq> []" "0 \<notin> set ts" "hd ts = task_list k" "distinct ts"
    using assms by (auto simp: ring_def)
  then have "task_list k \<notin> set (tl ts)" by (cases ts) auto
  from wait_scan_chain [OF r(1,2) this r(3), of self False] obtain b c where bc:
    "wait_scan k self (task_list k) False = Some (b, c)" "b \<longleftrightarrow> (\<exists>t \<in> set ts. parent (tasks k t) = self)"
    "if \<exists>t \<in> set ts. parent (tasks k t) = self \<and> state (tasks k t) = TASK_TERMINATED
     then c \<in> set ts \<and> parent (tasks k c) = self \<and> state (tasks k c) = TASK_TERMINATED else c = 0"
    using r(4) by auto
  have "c \<noteq> 0 \<Longrightarrow> c \<in> set ts \<and> parent (tasks k c) = self \<and> state (tasks k c) = TASK_TERMINATED"
    using bc(3) by argo
  moreover have "c = 0 \<Longrightarrow> \<forall>t \<in> set ts. parent (tasks k t) = self \<longrightarrow> state (tasks k t) \<noteq> TASK_TERMINATED"
    using bc(3) r(3) by metis
  ultimately show ?thesis by (rule that [OF bc(1,2)])
qed

lemma ring_preempt_off [simp]: "ring (preempt_off k) ts = ring k ts"
  by (simp add: ring_def)

lemma user_write32_frame:
  "user_write32 v x k = Some k' \<Longrightarrow> tasks k' = tasks k \<and> current_task k' = current_task k \<and> task_list k' = task_list k"
  by (auto simp: user_write32_def user_write_def)

lemma opt_write32_frame:
  "(if b then user_write32 v x k else Some k) = Some k' \<Longrightarrow>
   tasks k' = tasks k \<and> current_task k' = current_task k \<and> task_list k' = task_list k"
  by (cases b) (auto dest: user_write32_frame)

lemma remove_terminated:
  assumes "sched_wf k ts" "state (tasks k (current_task k)) \<noteq> TASK_TERMINATED"
    "task_wait status sp k = Some (r, k')" "t \<in> set ts" "parent (tasks k t) = current_task k" "state (tasks k t) = TASK_TERMINATED"
  shows "\<exists>c. c \<in> set ts \<and> parent (tasks k c) = current_task k \<and> state (tasks k c) = TASK_TERMINATED \<and>
    r = Some (tid (tasks k c)) \<and> sched_wf k' (remove1 c ts)"
proof -
  let ?k = "preempt_off k"
  have rg: "ring ?k ts" using assms(1) by (simp add: sched_wf_def)
  obtain b c where bc: "wait_scan ?k (current_task k) (task_list ?k) False = Some (b, c)"
    "b \<longleftrightarrow> (\<exists>t \<in> set ts. parent (tasks ?k t) = current_task k)"
    "c \<noteq> 0 \<Longrightarrow> c \<in> set ts \<and> parent (tasks ?k c) = current_task k \<and> state (tasks ?k c) = TASK_TERMINATED"
    "c = 0 \<Longrightarrow> \<forall>t \<in> set ts. parent (tasks ?k t) = current_task k \<longrightarrow> state (tasks ?k t) \<noteq> TASK_TERMINATED"
    using wait_scan_ring [OF rg, of "current_task k"] by blast
  have b: b "c \<noteq> 0" using bc(2,4) assms(4-6) by auto
  then have c: "c \<in> set ts" "parent (tasks k c) = current_task k" "state (tasks k c) = TASK_TERMINATED"
    using bc(3) by simp_all
  then have "c \<noteq> current_task ?k" using assms(2) by auto
  then obtain k1 where k1: "unlink c ?k = Some k1" "sched_wf k1 (remove1 c ts)"
    using unlink_wf [of ?k ts c] assms(1) c by auto
  obtain k2 where k2: "bury c k1 = Some k2" "r = Some (tid (tasks k c))"
    "(if status \<noteq> 0 \<and> status < KERNEL_BASE then user_write32 status (exit_code (tasks k c)) (preempt_on k2)
      else Some (preempt_on k2)) = Some k'"
    using assms(3) bc(1) b k1(1) by (auto simp: task_wait_def Let_def Option.bind_eq_Some_conv)
  have "sched_wf (preempt_on k2) (remove1 c ts)" using sched_wf_cong [OF k1(2)] bury_frame [OF k2(1)] by simp
  moreover have "tasks k' = tasks (preempt_on k2)" "current_task k' = current_task (preempt_on k2)"
    "task_list k' = task_list (preempt_on k2)"
    using opt_write32_frame [OF k2(3)] by blast+
  ultimately have "sched_wf k' (remove1 c ts)" by (rule sched_wf_cong)
  then show ?thesis using c k2(2) by blast
qed

lemma task_wait_wf:
  assumes "sched_wf k ts" "state (tasks k (current_task k)) \<noteq> TASK_TERMINATED" "task_wait status sp k = Some (r, k')"
  shows "\<exists>ts'. sched_wf k' ts' \<and> set ts' \<subseteq> set ts"
proof (cases "\<exists>t \<in> set ts. parent (tasks k t) = current_task k \<and> state (tasks k t) = TASK_TERMINATED")
  case True
  then obtain c where "sched_wf k' (remove1 c ts)" using remove_terminated [OF assms] by blast
  then show ?thesis using set_remove1_subset [of c ts] by (intro exI [of _ "remove1 c ts"] conjI)
next
  case False
  let ?k = "preempt_off k" and ?b = "preempt_on (set_task (current_task k) (\<lambda>t. t\<lparr>state := TASK_BLOCKED\<rparr>) (preempt_off k))"
  have rg: "ring ?k ts" using assms(1) by (simp add: sched_wf_def)
  obtain b where b: "wait_scan ?k (current_task k) (task_list ?k) False = Some (b, 0)"
  proof -
    obtain b c where bc: "wait_scan ?k (current_task k) (task_list ?k) False = Some (b, c)"
      "c \<noteq> 0 \<Longrightarrow> c \<in> set ts \<and> parent (tasks ?k c) = current_task k \<and> state (tasks ?k c) = TASK_TERMINATED"
      using wait_scan_ring [OF rg, of "current_task k"] by blast
    then have "c = 0" using False by auto
    then show ?thesis using bc(1) that by blast
  qed
  have "sched_wf ?b ts" by (intro sched_wf_relabel [OF assms(1)]) (use assms(1) in \<open>auto simp: sched_wf_def\<close>)
  then show ?thesis
    using assms(1,3) b task_yield_wf [of ?b ts sp]
    by (auto simp: task_wait_def Let_def Option.bind_eq_Some_conv split: if_splits)
qed

section \<open>New tasks\<close>

text \<open>What holds of the result of an operation whenever it has one, with a rule for each step of the creating functions.\<close>

definition ens :: "('a \<Rightarrow> bool) \<Rightarrow> 'a option \<Rightarrow> bool" where
  "ens Q m \<longleftrightarrow> (\<forall>r. m = Some r \<longrightarrow> Q r)"

lemma ens_simps [simp]: "ens Q (Some r) = Q r" "ens Q None"
  by (simp_all add: ens_def)

lemma ens_bind: "ens (\<lambda>r. ens Q (f r)) m \<Longrightarrow> ens Q (Option.bind m f)"
  by (cases m) auto

lemma ens_if: "(b \<Longrightarrow> ens Q x) \<Longrightarrow> (\<not> b \<Longrightarrow> ens Q y) \<Longrightarrow> ens Q (if b then x else y)"
  by simp

definition same_tasks :: "kernel \<Rightarrow> kernel \<Rightarrow> bool" where
  "same_tasks k k' \<longleftrightarrow> tasks k' = tasks k \<and> current_task k' = current_task k \<and> task_list k' = task_list k \<and>
     next_task_id k' = next_task_id k"

lemma same_tasks_refl [simp]: "same_tasks k k"
  by (simp add: same_tasks_def)

lemma same_tasks_trans: "same_tasks k k' \<Longrightarrow> same_tasks k' k'' \<Longrightarrow> same_tasks k k''"
  by (simp add: same_tasks_def)

lemma same_tasks_simps [simp]:
  "same_tasks k (set_kheap h k') = same_tasks k k'" "same_tasks k (set_kmach m k') = same_tasks k k'"
  "same_tasks k (preempt_on k') = same_tasks k k'" "same_tasks k (preempt_off k') = same_tasks k k'"
  "same_tasks k (k_free a k') = same_tasks k k'" "same_tasks k (switch_space pd k') = same_tasks k k'"
  "same_tasks k (k'\<lparr>vfs := v\<rparr>) = same_tasks k k'"  "same_tasks k (k'\<lparr>refcounts := rf\<rparr>) = same_tasks k k'"
  "same_tasks k (k'\<lparr>next_thread_stack_top := z\<rparr>) = same_tasks k k'"
  by (simp_all add: same_tasks_def set_kheap_def set_kmach_def preempt_on_def preempt_off_def k_free_def switch_space_def)

lemma ens_below:
  "(\<And>a k1. same_tasks k k1 \<Longrightarrow> Q (a, k1)) \<Longrightarrow> ens Q (k_malloc n k)"
  "(\<And>pd k1. same_tasks k k1 \<Longrightarrow> Q (pd, k1)) \<Longrightarrow> ens Q (create_space k)"
  "(\<And>ok k1. same_tasks k k1 \<Longrightarrow> S (ok, k1)) \<Longrightarrow> ens S (map_page v phys k)"
  "(\<And>k1. same_tasks k k1 \<Longrightarrow> R k1) \<Longrightarrow> ens R (destroy_space pd k)"
  "(\<And>k1. same_tasks k k1 \<Longrightarrow> R k1) \<Longrightarrow> ens R (user_write32 w x k)"
  "(\<And>k1. same_tasks k k1 \<Longrightarrow> R k1) \<Longrightarrow> ens R (user_write w bs k)"
  by (auto simp: ens_def k_malloc_def create_space_def map_page_def destroy_space_def user_write32_def user_write_def)

lemma alloc_frame_same: "alloc_frame k = (a, k') \<Longrightarrow> same_tasks k k'"
  by (auto simp: alloc_frame_def split: prod.splits)

lemma push_words_frame:
  "push_words xs sp k = (sp', k') \<Longrightarrow> same_tasks k k'"
proof (induction xs arbitrary: sp k)
  case (Cons x xs)
  have "same_tasks (k\<lparr>kstack := (kstack k)(sp - 4 := x)\<rparr>) k'" using Cons.IH Cons.prems by simp
  then show ?case by (simp add: same_tasks_def)
qed simp

text \<open>
  The new task \<open>a\<close> is ready, has the next identifier, and stands after the current one in the
  list; the other tasks keep their states and links.
\<close>

definition entered :: "kernel \<Rightarrow> u32 \<Rightarrow> kernel \<Rightarrow> bool" where
  "entered k a k' \<longleftrightarrow> current_task k' = current_task k \<and> task_list k' = task_list k \<and>
     next_task_id k' = next_task_id k + 1 \<and> tid (tasks k' a) = next_task_id k \<and> state (tasks k' a) = TASK_READY \<and>
     (\<forall>t. nexts k' t = (if t = current_task k then a else if t = a then nexts k (current_task k) else nexts k t)) \<and>
     (\<forall>t. t \<noteq> a \<longrightarrow> state (tasks k' t) = state (tasks k t))"

definition created :: "kernel \<Rightarrow> u32 \<times> kernel \<Rightarrow> bool" where
  "created k r \<longleftrightarrow> (case r of (a, k') \<Rightarrow> if a = 0 then same_tasks k k' else a \<noteq> current_task k \<longrightarrow> entered k a k')"

lemma created_fail [simp]: "created k (0, k') = same_tasks k k'"
  by (simp add: created_def)

lemma created_fail_path: "same_tasks k k1 \<Longrightarrow> ens (created k) (create_user_fail pd ks task k1)"
  unfolding create_user_fail_def by (intro ens_bind ens_below) (auto intro: same_tasks_trans)

lemma ens_case:
  "(\<And>a b. p = (a, b) \<Longrightarrow> ens Q (f a b)) \<Longrightarrow> ens Q (case p of (a, b) \<Rightarrow> f a b)"
  by (cases p) simp

lemma ens_option:
  "(x = None \<Longrightarrow> ens Q a) \<Longrightarrow> (\<And>y. x = Some y \<Longrightarrow> ens Q (f y)) \<Longrightarrow> ens Q (case x of None \<Rightarrow> a | Some y \<Rightarrow> f y)"
  by (cases x) simp_all

lemmas same_tasks_rules = ens_bind ens_below ens_if ens_case ens_option

lemmas created_defs = created_def entered_def same_tasks_def link_task_def fd_table_init_def fun_eq_iff
  preempt_on_def preempt_off_def set_kmach_def set_task_def switch_space_def k_free_def set_kheap_def

lemma task_create_created: "ens (created k) (task_create sy name entry pr k)"
  unfolding task_create_def Let_def
  by (intro same_tasks_rules)
    (auto simp: created_defs simp del: push_words.simps dest!: push_words_frame)

lemma thread_create_created: "ens (created k) (thread_create sy name entry arg pr k)"
  unfolding thread_create_def Let_def
  by (intro same_tasks_rules)
    (auto simp: created_defs simp del: push_words.simps dest!: push_words_frame)

lemma task_create_user_thread_created: "ens (created k) (task_create_user_thread sy entry arg k)"
  unfolding task_create_user_thread_def Let_def
  by (intro same_tasks_rules)
    (auto simp: created_defs simp del: push_words.simps dest!: push_words_frame alloc_frame_same)

lemma ens_other:
  "(\<And>r. A r) \<Longrightarrow> ens A (elf_load node pd v)"
  "(\<And>r. B r) \<Longrightarrow> ens B (vmm_clone_address_space pd h)"
  by (simp_all add: ens_def)

lemma elf_stack_same: "(\<And>sp k1. same_tasks k k1 \<Longrightarrow> Q (sp, k1)) \<Longrightarrow> ens Q (elf_stack name k)"
proof -
  have "ens (\<lambda>r. same_tasks k (snd r)) (elf_stack name k)"
    unfolding elf_stack_def Let_def by (intro same_tasks_rules) (auto simp: same_tasks_def)
  then show "(\<And>sp k1. same_tasks k k1 \<Longrightarrow> Q (sp, k1)) \<Longrightarrow> ens Q (elf_stack name k)"
    by (auto simp: ens_def)
qed

lemma task_create_user_created: "ens (created k) (task_create_user sy name payload n pr k)"
  unfolding task_create_user_def Let_def
  by (intro same_tasks_rules created_fail_path)
    (auto simp: created_defs simp del: push_words.simps dest!: push_words_frame alloc_frame_same)

lemma task_create_user_elf_created: "ens (created k) (task_create_user_elf sy name path pr k)"
  unfolding task_create_user_elf_def Let_def
  by (intro same_tasks_rules created_fail_path ens_other elf_stack_same)
    (auto simp: created_defs simp del: push_words.simps dest!: push_words_frame alloc_frame_same intro!: created_fail_path)

lemma task_fork_created: "ens (created k) (task_fork sy regs k)"
  unfolding task_fork_def Let_def
  by (intro same_tasks_rules ens_other)
    (auto simp: created_defs simp del: push_words.simps dest!: push_words_frame)

lemma entered_wf:
  assumes "sched_wf k ts" "a \<notin> set ts" "a \<noteq> 0" "entered k a k'"
  shows "\<exists>ts'. sched_wf k' ts' \<and> set ts' = insert a (set ts)"
proof -
  let ?k = "set_task a (\<lambda>t. t\<lparr>state := TASK_READY\<rparr>) k"
  have c: "current_task k \<noteq> a" using assms(1,2) by (auto simp: sched_wf_def)
  have "sched_wf ?k ts" by (intro sched_wf_relabel [OF assms(1)]) (use assms(1) in \<open>auto simp: sched_wf_def\<close>)
  then obtain ts' where ts': "sched_wf (link_task a ?k) ts'" "set ts' = insert a (set ts)"
    using link_wf [of ?k ts a] assms(2,3) by auto
  have "sched_wf k' ts'"
  proof (rule sched_wf_relabel [OF ts'(1)])
    show "task_list k' = task_list (link_task a ?k)" using assms(4) by (simp add: entered_def link_task_def Let_def)
    show "current_task k' \<in> set ts'" using assms(1,4) ts'(2) by (simp add: entered_def sched_wf_def)
    have "nexts k' t = (if t = current_task k then a else if t = a then nexts k (current_task k) else nexts k t)" for t
      using assms(4) by (simp add: entered_def)
    then show "\<forall>t \<in> set ts'. nexts k' t = nexts (link_task a ?k) t" using c by (auto simp: link_task_def Let_def)
    show "\<forall>t \<in> set ts'. state (tasks k' t) = TASK_RUNNING \<longrightarrow> t = current_task k'"
      using assms(1,2,4) ts'(2) by (auto simp: entered_def sched_wf_def)
  qed
  then show ?thesis using ts'(2) by blast
qed

text \<open>No task in the list has the address \<open>a\<close>: what the allocator gives.\<close>

definition fresh :: "kernel \<Rightarrow> u32 \<Rightarrow> bool" where
  "fresh k a \<longleftrightarrow> (\<forall>ts. ring k ts \<longrightarrow> a \<notin> set ts)"

lemma created_wf:
  assumes "sched_wf k ts" "ens (created k) m" "m = Some (a, k')" "a = 0 \<or> fresh k a"
  shows "\<exists>ts'. sched_wf k' ts'"
proof (cases "a = 0")
  case True
  then have "same_tasks k k'" using assms(2,3) by simp
  then have "sched_wf k' ts" using sched_wf_cong [OF assms(1)] by (simp add: same_tasks_def)
  then show ?thesis by blast
next
  case False
  have a: "a \<notin> set ts" using False assms(1,4) by (simp add: fresh_def sched_wf_def)
  then have "a \<noteq> current_task k" using assms(1) by (auto simp: sched_wf_def)
  then have "entered k a k'" using assms(2,3) False by (simp add: created_def)
  then show ?thesis using entered_wf [OF assms(1) a False] by blast
qed

section \<open>Sleepers\<close>

lemma wake_sleeper_next [simp]: "tnext (wake_sleeper now t) = tnext t"
  by (simp add: wake_sleeper_def)

lemma wake_loop_chain:
  assumes "chain (nexts k) xs (task_list k)" "xs \<noteq> []" "task_list k \<notin> set (tl xs)" "distinct xs"
  shows "wake_loop now (hd xs) k =
    Some (k\<lparr>tasks := \<lambda>t. if t \<in> set xs then wake_sleeper now (tasks k t) else tasks k t\<rparr>)"
  using assms
proof (induction xs arbitrary: k)
  case (Cons x xs)
  let ?k = "set_task x (wake_sleeper now) k"
  have step: "wake_loop now x k = (if nexts k x = task_list k then Some ?k else wake_loop now (nexts k x) ?k)"
    by (subst wake_loop.simps) (simp add: Let_def)
  show ?case
  proof (cases "xs = []")
    case True
    then show ?thesis using step Cons.prems(1) by (simp add: set_task_def fun_upd_def cong: if_cong)
  next
    case False
    have nx: "nexts k x = hd xs" "chain (nexts ?k) xs (task_list ?k)" "hd xs \<noteq> task_list k" "task_list ?k \<notin> set (tl xs)"
      "distinct xs"
      using Cons.prems False chain_cong [of xs "nexts ?k" "nexts k"] by (auto simp: chain_Cons dest: list.set_sel)
    have "wake_loop now (hd xs) ?k = Some (?k\<lparr>tasks := \<lambda>t. if t \<in> set xs then wake_sleeper now (tasks ?k t) else tasks ?k t\<rparr>)"
      using Cons.IH [OF nx(2) False nx(4,5)] .
    also have "(\<lambda>t. if t \<in> set xs then wake_sleeper now (tasks ?k t) else tasks ?k t) =
      (\<lambda>t. if t \<in> set (x # xs) then wake_sleeper now (tasks k t) else tasks k t)"
      using Cons.prems(4) by (auto simp: fun_eq_iff)
    finally show ?thesis using step nx(1,3) by (simp add: set_task_def)
  qed
qed simp

lemma wake_sleepers_ring:
  assumes "ring k ts"
  shows "task_wake_sleepers now k =
    Some (k\<lparr>tasks := \<lambda>t. if t \<in> set ts then wake_sleeper now (tasks k t) else tasks k t\<rparr>)"
proof -
  have r: "chain (nexts k) ts (task_list k)" "ts \<noteq> []" "0 \<notin> set ts" "hd ts = task_list k" "distinct ts"
    using assms by (auto simp: ring_def)
  have "task_list k \<notin> set (tl ts)" "task_list k \<noteq> 0" using r by (cases ts; auto)+
  then show ?thesis using wake_loop_chain [OF r(1,2) _ r(5), of now] r(4) by (simp add: task_wake_sleepers_def)
qed

section \<open>Steps and reachable states\<close>

text \<open>
  What the kernel does with the tasks after \<^verbatim>\<open>scheduler_init\<close>. A task that has exited never runs its
  code again, so it neither waits nor exits; a task created anew has an address outside the list.
\<close>

inductive sched_step :: "kernel \<Rightarrow> kernel \<Rightarrow> bool" where
  step_yield: "task_yield sp k = Some k' \<Longrightarrow> sched_step k k'"
| step_tick: "scheduler_tick sp k = Some k' \<Longrightarrow> sched_step k k'"
| step_exit: "task_exit code sp k = Some k' \<Longrightarrow> sched_step k k'"
| step_wait: "state (tasks k (current_task k)) \<noteq> TASK_TERMINATED \<Longrightarrow> task_wait status sp k = Some (r, k') \<Longrightarrow> sched_step k k'"
| step_wake: "sched_step k (task_wake a k)"
| step_sleepers: "task_wake_sleepers now k = Some k' \<Longrightarrow> sched_step k k'"
| step_reap: "task_reap_terminated k = Some k' \<Longrightarrow> sched_step k k'"
| step_priority: "sched_step k (task_set_priority a p k)"
| step_create: "task_create sy name entry p k = Some (a, k') \<Longrightarrow> a = 0 \<or> fresh k a \<Longrightarrow> sched_step k k'"
| step_thread: "thread_create sy name entry arg p k = Some (a, k') \<Longrightarrow> a = 0 \<or> fresh k a \<Longrightarrow> sched_step k k'"
| step_user_thread: "task_create_user_thread sy entry arg k = Some (a, k') \<Longrightarrow> a = 0 \<or> fresh k a \<Longrightarrow> sched_step k k'"
| step_user: "task_create_user sy name payload n p k = Some (a, k') \<Longrightarrow> a = 0 \<or> fresh k a \<Longrightarrow> sched_step k k'"
| step_elf: "task_create_user_elf sy name path p k = Some (a, k') \<Longrightarrow> a = 0 \<or> fresh k a \<Longrightarrow> sched_step k k'"
| step_fork: "task_fork sy regs k = Some (a, k') \<Longrightarrow> a = 0 \<or> fresh k a \<Longrightarrow> sched_step k k'"

inductive sched_reach :: "kernel \<Rightarrow> bool" where
  reach_init: "scheduler_init k0 = Some k \<Longrightarrow> task_list k0 = 0 \<Longrightarrow> task_list k \<noteq> 0 \<Longrightarrow> sched_reach k"
| reach_step: "sched_reach k \<Longrightarrow> sched_step k k' \<Longrightarrow> sched_reach k'"

lemma scheduler_init_wf:
  assumes "scheduler_init k0 = Some k" "task_list k0 = 0" "task_list k \<noteq> 0"
  shows "sched_wf k [task_list k]"
proof -
  obtain a k1 where a: "k_malloc TASK_SIZE k0 = Some (a, k1)"
    using assms(1) by (cases "k_malloc TASK_SIZE k0") (auto simp: scheduler_init_def)
  have "ens (\<lambda>r. same_tasks k0 (snd r)) (k_malloc TASK_SIZE k0)" by (intro ens_below) simp
  then have "same_tasks k0 k1" using a by (simp add: ens_def)
  then show ?thesis
    using assms a
    by (auto simp: scheduler_init_def Let_def sched_wf_def ring_def fd_table_init_def same_tasks_def split: if_splits)
qed

lemma sched_step_wf:
  assumes "sched_step k k'" "sched_wf k ts"
  shows "\<exists>ts'. sched_wf k' ts'"
  using assms
proof (induction rule: sched_step.induct)
  case (step_yield sp k k')
  then show ?case using task_yield_wf by (metis option.inject)
next
  case (step_tick sp k k')
  then show ?case using scheduler_tick_wf by (metis option.inject)
next
  case (step_exit code sp k k')
  then show ?case using task_exit_wf by (metis option.inject)
next
  case (step_wait k status sp r k')
  then show ?case using task_wait_wf by blast
next
  case (step_wake k a)
  then show ?case using wake_wf by (auto simp: task_wake_def)
next
  case (step_sleepers now k k')
  then have k': "k' = k\<lparr>tasks := \<lambda>t. if t \<in> set ts then wake_sleeper now (tasks k t) else tasks k t\<rparr>"
    using wake_sleepers_ring [of k ts now] by (simp add: sched_wf_def)
  have "sched_wf k' ts"
    unfolding k' by (rule sched_wf_relabel [OF step_sleepers.prems])
      (use step_sleepers.prems in \<open>auto simp: sched_wf_def wake_sleeper_def split: if_splits\<close>)
  then show ?case by blast
next
  case (step_reap k k')
  then show ?case using reap_wf by blast
next
  case (step_priority k a p)
  have "sched_wf (task_set_priority a p k) ts"
    by (rule sched_wf_relabel [OF step_priority.prems])
      (use step_priority.prems in \<open>auto simp: sched_wf_def task_set_priority_def\<close>)
  then show ?case by blast
next
  case (step_create sy name entry p k a k')
  then show ?case by (intro created_wf [OF _ task_create_created])
next
  case (step_thread sy name entry arg p k a k')
  then show ?case by (intro created_wf [OF _ thread_create_created])
next
  case (step_user_thread sy entry arg k a k')
  then show ?case by (intro created_wf [OF _ task_create_user_thread_created])
next
  case (step_user sy name payload n p k a k')
  then show ?case by (intro created_wf [OF _ task_create_user_created])
next
  case (step_elf sy name path p k a k')
  then show ?case by (intro created_wf [OF _ task_create_user_elf_created])
next
  case (step_fork sy regs k a k')
  then show ?case by (intro created_wf [OF _ task_fork_created])
qed

lemma sched_reach_wf: "sched_reach k \<Longrightarrow> \<exists>ts. sched_wf k ts"
proof (induction rule: sched_reach.induct)
  case (reach_init k0 k)
  then show ?case using scheduler_init_wf by blast
next
  case (reach_step k k')
  then show ?case using sched_step_wf by blast
qed


section \<open>Turns\<close>

primrec yields :: "u32 \<Rightarrow> nat \<Rightarrow> kernel \<Rightarrow> kernel option" where
  "yields sp 0 k = Some k"
| "yields sp (Suc n) k = Option.bind (yields sp n k) (task_yield sp)"

text \<open>All tasks have one priority and want to run.\<close>

definition uniform :: "kernel \<Rightarrow> u32 list \<Rightarrow> u32 \<Rightarrow> bool" where
  "uniform k ts p \<longleftrightarrow> ring k ts \<and> current_task k \<in> set ts \<and>
     (\<forall>t \<in> set ts. priority (tasks k t) = p \<and> state (tasks k t) = (if t = current_task k then TASK_RUNNING else TASK_READY))"

lemma uniform_yield:
  assumes "uniform k ts p"
  shows "\<exists>k'. task_yield sp k = Some k' \<and> uniform k' ts p \<and> current_task k' = nexts k (current_task k) \<and> nexts k' = nexts k"
proof -
  let ?c = "current_task k"
  have u: "ring k ts" "?c \<in> set ts" using assms by (simp_all add: uniform_def)
  obtain as bs where s: "after ?c ts = bs @ as @ [?c]" "nexts k ?c = hd (bs @ as @ [?c])" using ring_split [OF u] by metis
  obtain r where r: "pick_next_task k = Some r" "best_in k (after ?c ts) r" using pick_next_spec [OF u] by blast
  have st: "set (after ?c ts) = set ts" "distinct (after ?c ts)" using set_after [OF u] by auto
  have c0: "?c \<noteq> 0" using u by (auto simp: ring_def)
  show ?thesis
  proof (cases "bs @ as")
    case Nil
    then have "\<not> ready k ?c" using assms by (auto simp: ready_def uniform_def)
    then have "r = 0" using r(2) s(1) Nil by (simp add: best_in_def)
    then show ?thesis using r(1) assms s(2) Nil c0 by (intro exI [of _ k]) (simp add: task_yield_def)
  next
    case (Cons x xs)
    then have ax: "after ?c ts = x # xs @ [?c]" "nexts k ?c = x" using s by (cases bs; auto)+
    then have x: "x \<in> set ts" "x \<noteq> ?c" using st by auto
    then have rx: "ready k x" using assms by (auto simp: ready_def uniform_def)
    then obtain ys zs where r': "x # xs @ [?c] = ys @ r # zs" "\<forall>t \<in> set ys. ready k t \<longrightarrow> prio k t < prio k r"
      using r(2) ax(1) by (auto simp: best_in_def)
    have rt: "r \<in> set ts" using r'(1) ax(1) st(1) by (metis in_set_conv_decomp)
    have "ys = []" using r' rx rt x(1) assms by (cases ys) (auto simp: uniform_def)
    then have "r = x" using r'(1) by simp
    let ?k = "switch_to sp x k"
    have "x \<noteq> 0" using x(1) u(1) by (auto simp: ring_def)
    then have "task_yield sp k = Some ?k" using r(1) \<open>r = x\<close> x(2) c0 by (simp add: task_yield_def)
    moreover have "nexts ?k = nexts k" by (simp add: fun_eq_iff)
    moreover have "uniform ?k ts p"
      using assms x chain_cong [of ts "nexts ?k" "nexts k"] by (auto simp: uniform_def ring_def)
    ultimately show ?thesis using ax(2) by auto
  qed
qed

lemma uniform_yields:
  assumes "uniform k ts p"
  shows "\<exists>k'. yields sp n k = Some k' \<and> uniform k' ts p \<and> current_task k' = (nexts k ^^ n) (current_task k) \<and> nexts k' = nexts k"
proof (induction n)
  case (Suc n)
  then obtain k1 where k1: "yields sp n k = Some k1" "uniform k1 ts p" "current_task k1 = (nexts k ^^ n) (current_task k)" "nexts k1 = nexts k"
    by blast
  have "nexts k1 x = nexts k x" for x by (rule fun_cong [OF k1(4)])
  then show ?case using uniform_yield [OF k1(2), of sp] k1 by auto
qed (use assms in simp)

lemma chain_funpow: "chain nx (x # xs) e \<Longrightarrow> i < length xs \<Longrightarrow> (nx ^^ Suc i) x = xs ! i"
proof (induction xs arbitrary: x i)
  case (Cons y ys)
  then show ?case
  proof (cases i)
    case (Suc j)
    then have "(nx ^^ Suc j) y = ys ! j" using Cons by (intro Cons.IH) (auto simp: chain_Cons)
    then show ?thesis using Suc Cons.prems(1) by (simp add: funpow_swap1)
  qed simp
qed simp

lemma after_funpow:
  assumes "ring k ts" "c \<in> set ts" "i < length ts"
  shows "(nexts k ^^ Suc i) c = after c ts ! i"
proof -
  obtain as bs where s: "ts = as @ c # bs" "after c ts = bs @ as @ [c]"
    "chain (nexts k) (bs @ as @ [c]) (hd (bs @ as @ [c]))" "nexts k c = hd (bs @ as @ [c])" using ring_split [OF assms(1,2)] by metis
  have "chain (nexts k) (c # bs @ as @ [c]) (hd (bs @ as @ [c]))" using s(3,4) by (simp add: chain_Cons)
  from chain_funpow [OF this, of i] show ?thesis using s(1,2) assms(3) by simp
qed

text \<open>
  C11: tasks of equal priority that all want to run take turns: after \<open>i + 1\<close> yields the task at
  position \<open>i\<close> of the ring after the current one runs, so that in one round every task has run once
  and the turn is back at the first.
\<close>

theorem yield_round_robin:
  assumes "ring k ts" "current_task k \<in> set ts" "i < length ts"
    and "\<forall>t \<in> set ts. priority (tasks k t) = p \<and>
      state (tasks k t) = (if t = current_task k then TASK_RUNNING else TASK_READY)"
  shows "\<exists>k'. yields sp (Suc i) k = Some k' \<and> current_task k' = after (current_task k) ts ! i \<and>
    state (tasks k' (after (current_task k) ts ! i)) = TASK_RUNNING \<and>
    mset (after (current_task k) ts) = mset ts \<and> last (after (current_task k) ts) = current_task k"
proof -
  have u: "uniform k ts p" using assms by (simp add: uniform_def)
  obtain k' where k': "yields sp (Suc i) k = Some k'" "uniform k' ts p" "current_task k' = (nexts k ^^ Suc i) (current_task k)"
    using uniform_yields [OF u] by blast
  have c: "current_task k' = after (current_task k) ts ! i" using k'(3) after_funpow [OF assms(1-3)] by simp
  moreover have "state (tasks k' (current_task k')) = TASK_RUNNING" using k'(2) by (simp add: uniform_def)
  moreover obtain as bs where "ts = as @ current_task k # bs" "after (current_task k) ts = bs @ as @ [current_task k]"
    using ring_split [OF assms(1,2)] by metis
  ultimately show ?thesis using k'(1) by simp
qed

section \<open>Sleeping and waiting\<close>

text \<open>
  A timer tick wakes exactly the blocked tasks whose wake-up time has come; their time is
  cleared, and everything else is left as it was. The walk over the ring always ends.
\<close>

theorem task_wake_sleepers_correct:
  assumes "ring k ts"
  shows "\<exists>k'. task_wake_sleepers now k = Some k' \<and> ring k' ts \<and> k'\<lparr>tasks := tasks k\<rparr> = k \<and>
    (\<forall>t. if t \<in> set ts \<and> state (tasks k t) = TASK_BLOCKED \<and> wake_tick (tasks k t) \<noteq> 0 \<and> ucast (wake_tick (tasks k t)) \<le> now
         then tasks k' t = (tasks k t)\<lparr>state := TASK_READY, wake_tick := 0\<rparr> else tasks k' t = tasks k t)"
proof -
  let ?k = "k\<lparr>tasks := \<lambda>t. if t \<in> set ts then wake_sleeper now (tasks k t) else tasks k t\<rparr>"
  have "ring ?k ts" using assms chain_cong [of ts "nexts ?k" "nexts k"] by (simp add: ring_def)
  then show ?thesis using wake_sleepers_ring [OF assms, of now] by (intro exI [of _ ?k]) (auto simp: wake_sleeper_def)
qed

text \<open>
  Waiting returns the identifier of a child that has terminated and takes that child out of
  the list, whenever there is one; it fails at once, changing no task, when there is no child at all.
\<close>

theorem task_wait_correct:
  assumes "sched_wf k ts" "state (tasks k (current_task k)) \<noteq> TASK_TERMINATED" "task_wait status sp k = Some (r, k')"
  shows "((\<exists>t \<in> set ts. parent (tasks k t) = current_task k \<and> state (tasks k t) = TASK_TERMINATED) \<longrightarrow>
      (\<exists>c \<in> set ts. parent (tasks k c) = current_task k \<and> state (tasks k c) = TASK_TERMINATED \<and>
         r = Some (tid (tasks k c)) \<and> sched_wf k' (remove1 c ts))) \<and>
    ((\<forall>t \<in> set ts. parent (tasks k t) \<noteq> current_task k) \<longrightarrow> r = Some (-1) \<and> tasks k' = tasks k \<and> sched_wf k' ts)"
proof (intro conjI impI)
  assume "\<exists>t \<in> set ts. parent (tasks k t) = current_task k \<and> state (tasks k t) = TASK_TERMINATED"
  then show "\<exists>c \<in> set ts. parent (tasks k c) = current_task k \<and> state (tasks k c) = TASK_TERMINATED \<and>
         r = Some (tid (tasks k c)) \<and> sched_wf k' (remove1 c ts)" using remove_terminated [OF assms] by blast
next
  assume none: "\<forall>t \<in> set ts. parent (tasks k t) \<noteq> current_task k"
  have rg: "ring (preempt_off k) ts" using assms(1) by (simp add: sched_wf_def)
  have "\<exists>c. wait_scan (preempt_off k) (current_task k) (task_list (preempt_off k)) False = Some (False, c)"
    using wait_scan_ring [OF rg, of "current_task k"] none by (metis kernel_frame(10))
  then have "r = Some (-1)" "k' = preempt_on (preempt_off k)" using assms(3) by (auto simp: task_wait_def Let_def)
  then show "r = Some (-1)" "tasks k' = tasks k" "sched_wf k' ts" using assms(1) by simp_all
qed

section \<open>A concrete kernel\<close>

definition task_example :: "u32 \<Rightarrow> task_state \<Rightarrow> u32 \<Rightarrow> u32 \<Rightarrow> task" where
  "task_example n st nx pa =
     \<lparr>tid = n, tname = [], state = st, priority = PRIORITY_NORMAL, esp = 0, stack_base = 0, stack_top = 0, is_user = False,
      user_entry = 0, user_stack_top = 0, page_directory = 0, wake_tick = 7, tnext = nx, parent = pa, exit_code = 0,
      fd_table = replicate MAX_FDS \<lparr>fnode = None, offset = 0, used = False\<rparr>, is_thread = False, thread_entry = 0,
      thread_arg = 0, as_refcount = 0\<rparr>"

definition kernel_boot :: kernel where
  "kernel_boot =
     \<lparr>vfs = initrd_example, tasks = (\<lambda>_. task_example 0 TASK_READY 0 0), current_task = 0, task_list = 0, next_task_id = 0,
      preempt_counter = 0, next_thread_stack_top = 0x00900000, refcounts = (\<lambda>_. 0), kstack = (\<lambda>_. 0), esp0 = 0\<rparr>"

text \<open>Three tasks: the first runs, and the others are in the states given.\<close>

definition kernel_example :: "task_state \<Rightarrow> task_state \<Rightarrow> kernel" where
  "kernel_example st2 st3 = kernel_boot\<lparr>current_task := 0x1000, task_list := 0x1000,
     tasks := (\<lambda>_. task_example 0 TASK_READY 0 0)(0x1000 := task_example 1 TASK_RUNNING 0x2000 0,
       0x2000 := task_example 2 st2 0x3000 0, 0x3000 := task_example 3 st3 0x1000 0x1000)\<rparr>"

lemma kernel_example_simps [simp]:
  "current_task (kernel_example st2 st3) = 0x1000" "task_list (kernel_example st2 st3) = 0x1000"
  "tasks (kernel_example st2 st3) 0x1000 = task_example 1 TASK_RUNNING 0x2000 0"
  "tasks (kernel_example st2 st3) 0x2000 = task_example 2 st2 0x3000 0"
  "tasks (kernel_example st2 st3) 0x3000 = task_example 3 st3 0x1000 0x1000"
  by (simp_all add: kernel_example_def)

lemma task_example_simps [simp]:
  "tnext (task_example n st nx pa) = nx" "state (task_example n st nx pa) = st" "parent (task_example n st nx pa) = pa"
  "priority (task_example n st nx pa) = 5" "tid (task_example n st nx pa) = n" "wake_tick (task_example n st nx pa) = 7"
  by (simp_all add: task_example_def)

lemma kernel_example_ring: "ring (kernel_example st2 st3) [0x1000, 0x2000, 0x3000]"
  by (simp add: ring_def)

theorem pick_next_task_correct_witness:
  "\<exists>r. pick_next_task (kernel_example TASK_BLOCKED TASK_READY) = Some r \<and> r \<noteq> 0"
  using pick_next_task_correct [OF kernel_example_ring [of TASK_BLOCKED TASK_READY]] by auto

theorem yield_round_robin_witness:
  "\<exists>k'. yields 0 (Suc 1) (kernel_example TASK_READY TASK_READY) = Some k' \<and> current_task k' = 0x3000"
proof -
  have "after 0x1000 [0x1000, 0x2000, 0x3000] = [0x2000, 0x3000, 0x1000::u32]" by (simp add: after_def)
  moreover have "\<forall>t \<in> set [0x1000, 0x2000, 0x3000]. priority (tasks (kernel_example TASK_READY TASK_READY) t) = 5 \<and>
      state (tasks (kernel_example TASK_READY TASK_READY) t) =
        (if t = current_task (kernel_example TASK_READY TASK_READY) then TASK_RUNNING else TASK_READY)"
    by simp
  ultimately show ?thesis
    using yield_round_robin [OF kernel_example_ring [of TASK_READY TASK_READY], of 1 5 0] by (simp del: yields.simps) blast
qed

theorem task_wake_sleepers_correct_witness:
  "\<exists>k'. task_wake_sleepers 9 (kernel_example TASK_BLOCKED TASK_READY) = Some k' \<and> state (tasks k' 0x2000) = TASK_READY"
proof -
  obtain k' where k': "task_wake_sleepers 9 (kernel_example TASK_BLOCKED TASK_READY) = Some k'"
    "\<forall>t. if t \<in> set [0x1000, 0x2000, 0x3000] \<and> state (tasks (kernel_example TASK_BLOCKED TASK_READY) t) = TASK_BLOCKED \<and>
        wake_tick (tasks (kernel_example TASK_BLOCKED TASK_READY) t) \<noteq> 0 \<and>
        ucast (wake_tick (tasks (kernel_example TASK_BLOCKED TASK_READY) t)) \<le> (9 :: u64)
      then tasks k' t = (tasks (kernel_example TASK_BLOCKED TASK_READY) t)\<lparr>state := TASK_READY, wake_tick := 0\<rparr>
      else tasks k' t = tasks (kernel_example TASK_BLOCKED TASK_READY) t"
    using task_wake_sleepers_correct [OF kernel_example_ring [of TASK_BLOCKED TASK_READY], of 9] by blast
  have "tasks k' 0x2000 = (task_example 2 TASK_BLOCKED 0x3000 0)\<lparr>state := TASK_READY, wake_tick := 0\<rparr>"
    using spec [OF k'(2), of "0x2000"] by simp
  then show ?thesis using k'(1) by simp
qed

lemma kernel_example_wf: "st2 \<noteq> TASK_RUNNING \<Longrightarrow> st3 \<noteq> TASK_RUNNING \<Longrightarrow> sched_wf (kernel_example st2 st3) [0x1000, 0x2000, 0x3000]"
  using kernel_example_ring [of st2 st3] by (simp add: sched_wf_def)

lemma kernel_example_wait: "\<exists>r k'. task_wait 0 0 (kernel_example TASK_BLOCKED TASK_TERMINATED) = Some (r, k')"
proof -
  let ?k = "kernel_example TASK_BLOCKED TASK_TERMINATED"
  have wf: "sched_wf (preempt_off ?k) [0x1000, 0x2000, 0x3000]" by (simp add: kernel_example_wf)
  have scan: "wait_scan (preempt_off ?k) 0x1000 0x1000 False = Some (True, 0x3000)"
    by (subst wait_scan.simps, simp, subst wait_scan.simps, simp, subst wait_scan.simps, simp)
  obtain k1 where k1: "unlink 0x3000 (preempt_off ?k) = Some k1" using unlink_wf [OF wf, of "0x3000"] by auto
  then have "tasks k1 0x3000 = tasks ?k 0x3000" 
    by (auto simp: unlink_def Let_def Option.bind_eq_Some_conv set_task_def split: if_splits)
  then have "as_refcount (tasks k1 0x3000) = 0" by (simp add: task_example_def)
  then show ?thesis using scan k1 by (simp add: task_wait_def Let_def bury_def)
qed

theorem task_wait_correct_witness:
  "\<exists>k'. task_wait 0 0 (kernel_example TASK_BLOCKED TASK_TERMINATED) = Some (Some 3, k') \<and> sched_wf k' [0x1000, 0x2000]"
proof -
  obtain r k' where w: "task_wait 0 0 (kernel_example TASK_BLOCKED TASK_TERMINATED) = Some (r, k')"
    using kernel_example_wait by blast
  have "\<exists>t \<in> set [0x1000, 0x2000, 0x3000]. parent (tasks (kernel_example TASK_BLOCKED TASK_TERMINATED) t) =
      current_task (kernel_example TASK_BLOCKED TASK_TERMINATED) \<and>
      state (tasks (kernel_example TASK_BLOCKED TASK_TERMINATED) t) = TASK_TERMINATED" by simp
  then have "r = Some 3 \<and> sched_wf k' [0x1000, 0x2000]"
    using task_wait_correct [OF kernel_example_wf _ w] by (simp only: kernel_example_simps task_example_simps) auto
  then show ?thesis using w by blast
qed

definition sched_example :: kernel where
  "sched_example = the (scheduler_init kernel_boot)"

lemma sched_example_reach: "sched_reach sched_example"
proof -
  have "map_option fst (kmalloc 296 heap_example) = Some 0xD0000014" by code_simp
  then obtain h where h: "kmalloc 296 heap_example = Some (0xD0000014, h)" by auto
  then have "k_malloc TASK_SIZE kernel_boot = Some (0xD0000014, set_kheap h kernel_boot)"
    by (simp add: k_malloc_def kernel_boot_def initrd_example_def)
  then have "scheduler_init kernel_boot = Some sched_example \<and> task_list sched_example \<noteq> 0"
    by (simp add: sched_example_def scheduler_init_def Let_def fd_table_init_def)
  then show ?thesis by (intro reach_init [of kernel_boot]) (simp_all add: kernel_boot_def)
qed


end
