(* ===== verification/Syscall.thy ===== *)
theory Syscall
  imports Scheduler
begin

text \<open>
  The system calls (\<^verbatim>\<open>kernel/kernel/syscall.c\<close>) and the timer that drives the scheduler
  (\<^verbatim>\<open>arch/i386/timer.c\<close>). A handler gives what the call does to the caller: it returns a value, it
  blocks (the call starts over when the task is woken), or the task has ended. \<open>None\<close> is a page fault
  in the kernel or an access outside a buffer. Messages to the log are left out.
\<close>

section \<open>The timer\<close>

record timer =
  ticks :: u64
  timer_freq :: u32

abbreviation (input) PIT_FREQUENCY :: u32 where "PIT_FREQUENCY \<equiv> 1193182"

definition timer_handler :: "u32 \<Rightarrow> timer \<Rightarrow> kernel \<Rightarrow> (timer \<times> kernel) option" where
  "timer_handler sp tm k =
     do {
       let tm = tm\<lparr>ticks := ticks tm + 1\<rparr>;
       k \<leftarrow> task_wake_sleepers (ticks tm) k;
       k \<leftarrow> scheduler_tick sp k;
       Some (tm, k) }"

text \<open>The divisor for the timer chip, and the bytes sent to its ports; a frequency of zero faults.\<close>

definition timer_init :: "u32 \<Rightarrow> timer \<Rightarrow> (timer \<times> (u16 \<times> u8) list) option" where
  "timer_init frequency tm =
     (if frequency = 0 then None
      else let divisor = PIT_FREQUENCY div frequency;
               divisor = (if divisor > 65535 then 65535 else divisor);
               divisor = (if divisor < 1 then 1 else divisor)
           in Some (tm\<lparr>timer_freq := PIT_FREQUENCY div divisor\<rparr>,
                [(0x43, 0x36), (0x40, ucast (divisor AND 0xFF)), (0x40, ucast (drop_bit 8 divisor AND 0xFF))]))"

definition timer_uptime_ms :: "timer \<Rightarrow> u64 option" where
  "timer_uptime_ms tm = (if timer_freq tm = 0 then None else Some (ticks tm * 1000 div ucast (timer_freq tm)))"

text \<open>\<^verbatim>\<open>timer_sleep\<close> halts until this tick.\<close>

definition timer_sleep_target :: "u32 \<Rightarrow> timer \<Rightarrow> u64" where
  "timer_sleep_target ms tm = ticks tm + ucast ((ms * timer_freq tm) div 1000)"

section \<open>Outcomes and parameters\<close>

datatype sysret = Returned u32 | Blocked | Exited

text \<open>
  What a call depends on besides the state: the addresses of the start-up code, the stack pointer
  that a context switch saves, the time, and what the uninitialised \<^verbatim>\<open>argbuf\<close> of \<^verbatim>\<open>sys_execve\<close> holds.
\<close>

record sys_env =
  env_sym :: symbols
  env_sp :: u32
  env_now :: u64
  env_argbuf :: "u8 list"

abbreviation (input) MAX_ARGS :: nat where "MAX_ARGS \<equiv> 16"
abbreviation (input) ARG_BUF_SIZE :: nat where "ARG_BUF_SIZE \<equiv> 1024"
abbreviation (input) O_CREAT :: u32 where "O_CREAT \<equiv> 0x0100"
abbreviation (input) O_TRUNC :: u32 where "O_TRUNC \<equiv> 0x0200"
abbreviation (input) SYSCALL_MAX :: u32 where "SYSCALL_MAX \<equiv> 13"

abbreviation self :: "kernel \<Rightarrow> task" where
  "self k \<equiv> tasks k (current_task k)"

definition set_fd :: "nat \<Rightarrow> file_desc \<Rightarrow> kernel \<Rightarrow> kernel" where
  "set_fd fd d k = set_task (current_task k) (\<lambda>t. t\<lparr>fd_table := (fd_table t)[fd := d]\<rparr>) k"

text \<open>A string copied from user memory: up to its end or the room in the buffer.\<close>

fun copy_in :: "nat \<Rightarrow> u32 \<Rightarrow> machine \<Rightarrow> cstr option" where
  "copy_in 0 v m = Some []"
| "copy_in (Suc n) v m =
     do { c \<leftarrow> vread8 v m; if c = 0 then Some [] else do { cs \<leftarrow> copy_in n (v + 1) m; Some (c # cs) } }"

section \<open>Processes\<close>

definition sys_thread_exit :: "sys_env \<Rightarrow> kernel \<Rightarrow> (sysret \<times> kernel) option" where
  "sys_thread_exit env k = map_option (\<lambda>k. (Exited, k)) (task_exit 0 (env_sp env) k)"

definition sleep_ticks :: "u32 \<Rightarrow> u32" where
  "sleep_ticks ms = (let delay = (ms * 100) div 1000 in if delay = 0 \<and> ms > 0 then 1 else delay)"

definition sys_sleep :: "sys_env \<Rightarrow> registers \<Rightarrow> kernel \<Rightarrow> (sysret \<times> kernel) option" where
  "sys_sleep env regs k =
     (let k = set_task (current_task k) (\<lambda>t. t\<lparr>wake_tick := ucast (env_now env + ucast (sleep_ticks (r_ebx regs))),
             state := TASK_BLOCKED\<rparr>) k
      in map_option (\<lambda>k. (Returned 0, k)) (task_yield (env_sp env) k))"

definition sys_exit :: "sys_env \<Rightarrow> registers \<Rightarrow> kernel \<Rightarrow> (sysret \<times> kernel) option" where
  "sys_exit env regs k = map_option (\<lambda>k. (Exited, k)) (task_exit (r_ebx regs) (env_sp env) k)"

definition sys_wait :: "sys_env \<Rightarrow> registers \<Rightarrow> kernel \<Rightarrow> (sysret \<times> kernel) option" where
  "sys_wait env regs k =
     map_option (\<lambda>(r, k). (case r of None \<Rightarrow> Blocked | Some pid \<Rightarrow> Returned pid, k)) (task_wait (r_ebx regs) (env_sp env) k)"

definition sys_fork :: "sys_env \<Rightarrow> registers \<Rightarrow> kernel \<Rightarrow> (sysret \<times> kernel) option" where
  "sys_fork env regs k =
     map_option (\<lambda>(child, k). (Returned (if child \<noteq> 0 then tid (tasks k child) else -1), k)) (task_fork (env_sym env) regs k)"

definition sys_thread_create :: "sys_env \<Rightarrow> registers \<Rightarrow> kernel \<Rightarrow> (sysret \<times> kernel) option" where
  "sys_thread_create env regs k =
     map_option (\<lambda>(t, k). (Returned (if t \<noteq> 0 then tid (tasks k t) else -1), k))
       (task_create_user_thread (env_sym env) (r_ebx regs) (r_ecx regs) k)"

section \<open>Files\<close>

text \<open>Whether the back end of a node reads the buffer of a write.\<close>

definition takes_data :: "vref \<Rightarrow> vfs_state \<Rightarrow> bool" where
  "takes_data n s = (case write_fn (vnodes s n) of
     Some Pfs_vfs_write \<Rightarrow> True | Some Console_write \<Rightarrow> True | _ \<Rightarrow> False)"

definition sys_write :: "registers \<Rightarrow> kernel \<Rightarrow> (sysret \<times> kernel) option" where
  "sys_write regs k =
     (let fd = r_ebx regs; buf = r_ecx regs; len = r_edx regs in
      if fd \<ge> 16 then Some (Returned (-1), k)
      else if buf \<ge> KERNEL_BASE \<or> len > KERNEL_BASE - buf then Some (Returned (-1), k)
      else let f = fd_table (self k) ! unat fd in
        case fnode f of
          None \<Rightarrow> Some (Returned (-1), k)
        | Some n \<Rightarrow>
            if \<not> used f then Some (Returned (-1), k)
            else do {
              bs \<leftarrow> (if takes_data n (vfs k) then vread_bytes buf (unat len) (kmach k) else Some []);
              (r, v) \<leftarrow> vfs_write (Some n) (offset f) len bs (vfs k);
              Some (Returned r, set_fd (unat fd) (f\<lparr>offset := offset f + r\<rparr>) (k\<lparr>vfs := v\<rparr>)) })"

text \<open>Without a character a read of the keyboard blocks the caller.\<close>

definition sys_read :: "sys_env \<Rightarrow> registers \<Rightarrow> kernel \<Rightarrow> (sysret \<times> kernel) option" where
  "sys_read env regs k =
     (let fd = r_ebx regs; buf = r_ecx regs; len = r_edx regs in
      if fd \<ge> 16 then Some (Returned (-1), k)
      else if buf \<ge> KERNEL_BASE \<or> len > KERNEL_BASE - buf then Some (Returned (-1), k)
      else let f = fd_table (self k) ! unat fd in
        case fnode f of
          None \<Rightarrow> Some (Returned (-1), k)
        | Some n \<Rightarrow>
            if \<not> used f then Some (Returned (-1), k)
            else (case vfs_read (current_task k) (Some n) (offset f) len (vfs k) of
                (None, v) \<Rightarrow>
                  map_option (\<lambda>k. (Blocked, k))
                    (task_yield (env_sp env) (set_task (current_task k) (\<lambda>t. t\<lparr>state := TASK_BLOCKED\<rparr>) (k\<lparr>vfs := v\<rparr>)))
              | (Some bs, v) \<Rightarrow> do {
                  k \<leftarrow> user_write buf bs (k\<lparr>vfs := v\<rparr>);
                  let r = of_nat (length bs);
                  Some (Returned r, set_fd (unat fd) (f\<lparr>offset := offset f + r\<rparr>) k) }))"

text \<open>With \<^verbatim>\<open>O_TRUNC\<close> the call \<^verbatim>\<open>node->write(node, 0, 0, NULL)\<close> writes no byte.\<close>

definition sys_open :: "registers \<Rightarrow> kernel \<Rightarrow> (sysret \<times> kernel) option" where
  "sys_open regs k =
     (let path_user = r_ebx regs; flgs = r_ecx regs in
      if path_user \<ge> KERNEL_BASE then Some (Returned (-1), k)
      else do {
        path \<leftarrow> copy_in 127 path_user (kmach k);
        let (node, v) = vfs_lookup (Some path) (vfs k);
        let (node, v) = (if node = None \<and> flgs AND O_CREAT \<noteq> 0 then vfs_create path v else (node, v));
        case node of
          None \<Rightarrow> Some (Returned (-1), k\<lparr>vfs := v\<rparr>)
        | Some n \<Rightarrow> do {
            v \<leftarrow> (if flgs AND O_TRUNC \<noteq> 0 \<and> write_fn (vnodes v n) \<noteq> None
                 then map_option snd (vfs_write (Some n) 0 0 [] v) else Some v);
            let (fd, k) = fd_alloc (current_task k) (Some n) (k\<lparr>vfs := v\<rparr>);
            Some (Returned (of_int fd), k) } })"

definition sys_close :: "registers \<Rightarrow> kernel \<Rightarrow> (sysret \<times> kernel) option" where
  "sys_close regs k =
     (let fd = r_ebx regs in
      if fd \<ge> 16 then Some (Returned (-1), k)
      else if \<not> used (fd_table (self k) ! unat fd) then Some (Returned (-1), k)
      else Some (Returned 0, set_fd (unat fd) \<lparr>fnode = None, offset = 0, used = False\<rparr> k))"

text \<open>The name of a directory entry, copied with its terminator.\<close>

definition sys_readdir :: "registers \<Rightarrow> kernel \<Rightarrow> (sysret \<times> kernel) option" where
  "sys_readdir regs k =
     (let path_user = r_ebx regs; index = r_ecx regs; name_user = r_edx regs in
      if path_user \<ge> KERNEL_BASE \<or> name_user \<ge> KERNEL_BASE then Some (Returned (-1), k)
      else do {
        path \<leftarrow> copy_in 127 path_user (kmach k);
        let (dir, v) = vfs_lookup (Some path) (vfs k);
        let k = k\<lparr>vfs := v\<rparr>;
        case dir of
          None \<Rightarrow> Some (Returned (-1), k)
        | Some d \<Rightarrow>
            (case vfs_readdir (Some d) index v of
               None \<Rightarrow> Some (Returned (-1), k)
             | Some de \<Rightarrow> do {
                 k \<leftarrow> user_write name_user (take 63 (cstr_of (dname de)) @ [0]) k;
                 Some (Returned 0, k) }) })"

definition sys_dup2 :: "registers \<Rightarrow> kernel \<Rightarrow> (sysret \<times> kernel) option" where
  "sys_dup2 regs k =
     (let source = r_ebx regs; target = r_ecx regs in
      if source \<ge> 16 \<or> target \<ge> 16 then Some (Returned (-1), k)
      else let f = fd_table (self k) ! unat source in
        if \<not> used f then Some (Returned (-1), k)
        else Some (Returned target, set_fd (unat target) \<lparr>fnode = fnode f, offset = offset f, used = True\<rparr> k))"

section \<open>Running a program\<close>

text \<open>
  \<^verbatim>\<open>sys_execve\<close> first copies the arguments: \<open>used\<close> bytes of the buffer are taken. The first function copies
  one string; the room it has is what \<^verbatim>\<open>argbuf_used < ARG_BUF_SIZE - 1\<close> leaves.
\<close>

fun copy_arg :: "nat \<Rightarrow> u32 \<Rightarrow> nat \<Rightarrow> u8 list \<Rightarrow> machine \<Rightarrow> (nat \<times> u8 list) option" where
  "copy_arg 0 ustr n argbuf m = Some (n, argbuf)"
| "copy_arg (Suc room) ustr n argbuf m =
     do {
       c \<leftarrow> vread8 ustr m;
       if c = 0 then Some (n + 1, argbuf[n := c])
       else copy_arg room (ustr + 1) (n + 1) (argbuf[n := c]) m }"

text \<open>The loop over the argument vector: \<open>Inl\<close> is the rejection of a pointer into the kernel.\<close>

fun copy_args :: "nat \<Rightarrow> u32 \<Rightarrow> nat list \<Rightarrow> nat \<Rightarrow> u8 list \<Rightarrow> machine \<Rightarrow> (unit + nat list \<times> u8 list) option" where
  "copy_args 0 uargv offs n argbuf m = Some (Inr (offs, argbuf))"
| "copy_args (Suc room) uargv offs n argbuf m =
     do {
       ustr \<leftarrow> user_read32 uargv m;
       if ustr = 0 then Some (Inr (offs, argbuf))
       else if ustr \<ge> KERNEL_BASE then Some (Inl ())
       else do {
         (n', argbuf) \<leftarrow> copy_arg (ARG_BUF_SIZE - 1 - n) ustr n argbuf m;
         copy_args room (uargv + 4) (offs @ [n]) n' argbuf m } }"

text \<open>Free the pages and page tables of the user half of the current space.\<close>

definition teardown_table :: "nat \<Rightarrow> machine \<Rightarrow> machine option" where
  "teardown_table pdi m =
     do {
       pde \<leftarrow> vread32 (vmm_get_page_directory + 4 * of_nat pdi) m;
       if pde AND PTE_PRESENT = 0 then Some m
       else do {
         m \<leftarrow> for_each (\<lambda>pti m. do {
             let slot = vmm_get_page_table (of_nat pdi) + 4 * of_nat pti;
             pte \<leftarrow> vread32 slot m;
             if pte AND PTE_PRESENT \<noteq> 0 then vwrite32 slot 0 (free_frame (pte AND 0xFFFFF000) m) else Some m })
           [0..<1024] m;
         vwrite32 (vmm_get_page_directory + 4 * of_nat pdi) 0 (free_frame (pde AND 0xFFFFF000) m) } }"

definition user_teardown :: "machine \<Rightarrow> machine option" where
  "user_teardown m = for_each teardown_table [0..<768] m"

text \<open>
  The strings of the arguments on the new stack, the last one first, and the addresses they have.
  The end of a string is searched for in the buffer; a search that leaves the buffer is \<open>None\<close>.
\<close>

definition arg_string :: "u8 list \<Rightarrow> nat \<Rightarrow> u8 list option" where
  "arg_string argbuf off =
     (let s = drop off argbuf in if 0 \<in> set s then Some (cstr_of s @ [0]) else None)"

fun push_args :: "nat list \<Rightarrow> u8 list \<Rightarrow> u32 \<Rightarrow> u32 list \<Rightarrow> kernel \<Rightarrow> (u32 \<times> u32 list \<times> kernel) option" where
  "push_args [] argbuf sp addrs k = Some (sp, addrs, k)"
| "push_args (off # offs) argbuf sp addrs k =
     do {
       s \<leftarrow> arg_string argbuf off;
       let sp = sp - of_nat (length s);
       k \<leftarrow> user_write sp s k;
       push_args offs argbuf sp (sp # addrs) k }"

fun write_words :: "u32 \<Rightarrow> u32 list \<Rightarrow> kernel \<Rightarrow> kernel option" where
  "write_words v [] k = Some k"
| "write_words v (x # xs) k = do { k \<leftarrow> user_write32 v x k; write_words (v + 4) xs k }"

definition exec_stack :: "nat list \<Rightarrow> u8 list \<Rightarrow> kernel \<Rightarrow> (u32 \<times> kernel) option" where
  "exec_stack offs argbuf k =
     do {
       (sp, addrs, k) \<leftarrow> push_args (rev offs) argbuf USER_STACK_TOP [] k;
       let argv_array = (sp AND NOT 3) - of_nat (length offs + 1) * 4;
       k \<leftarrow> write_words argv_array (addrs @ [0]) k;
       k \<leftarrow> user_write32 (argv_array - 4) argv_array k;
       k \<leftarrow> user_write32 (argv_array - 8) (of_nat (length offs)) k;
       Some (argv_array - 8, k) }"

text \<open>The state of a caller that is killed because the program cannot be loaded.\<close>

definition exec_kill :: "sys_env \<Rightarrow> registers \<Rightarrow> kernel \<Rightarrow> (sysret \<times> registers \<times> kernel) option" where
  "exec_kill env regs k = map_option (\<lambda>k. (Exited, regs, k)) (task_exit (-1) (env_sp env) k)"

definition sys_execve :: "sys_env \<Rightarrow> registers \<Rightarrow> kernel \<Rightarrow> (sysret \<times> registers \<times> kernel) option" where
  "sys_execve env regs k =
     (let path_user = r_ebx regs; argv_user = r_ecx regs in
      if path_user \<ge> KERNEL_BASE then Some (Returned (-1), regs, k)
      else do {
        path \<leftarrow> copy_in 127 path_user (kmach k);
        args \<leftarrow> (if argv_user = 0 then Some (Inr ([], env_argbuf env))
                else if argv_user \<ge> KERNEL_BASE then Some (Inl ())
                else copy_args MAX_ARGS argv_user [] 0 (env_argbuf env) (kmach k));
        case args of
          Inl _ \<Rightarrow> Some (Returned (-1), regs, k)
        | Inr (offs, argbuf) \<Rightarrow>
            (case vfs_lookup (Some path) (vfs k) of
               (None, v) \<Rightarrow> Some (Returned (-1), regs, k\<lparr>vfs := v\<rparr>)
             | (Some node, v) \<Rightarrow> do {
                 let k = k\<lparr>vfs := v\<rparr>;
                 let pd = page_directory (self k);
                 m \<leftarrow> user_teardown (kmach k);
                 let k = switch_space pd (set_kmach m k);
                 (entry, v) \<leftarrow> elf_load node pd (vfs k);
                 let k = k\<lparr>vfs := v\<rparr>;
                 if entry = 0 then exec_kill env regs k
                 else do {
                   let (stack_phys, k) = alloc_frame k;
                   (ok, k) \<leftarrow> (if stack_phys = 0 then Some (False, k) else map_page USER_STACK_BASE stack_phys k);
                   if \<not> ok then exec_kill env regs k
                   else do {
                     (sp, k) \<leftarrow> exec_stack offs argbuf k;
                     let k = set_task (current_task k) (\<lambda>t. t\<lparr>user_entry := entry, user_stack_top := USER_STACK_TOP\<rparr>) k;
                     Some (Returned 0,
                       regs\<lparr>r_eip := entry, r_useresp := sp, r_eflags := 0x202, r_cs := 0x1B, r_ss := 0x23, r_ds := 0x23,
                         r_eax := 0, r_ebx := 0, r_ecx := 0, r_edx := 0, r_esi := 0, r_edi := 0, r_ebp := 0\<rparr>,
                       k) } } }) })"

section \<open>Dispatch\<close>

text \<open>A call other than \<^verbatim>\<open>sys_execve\<close> leaves the registers of its caller alone.\<close>

definition keep_regs :: "registers \<Rightarrow> (sysret \<times> kernel) option \<Rightarrow> (sysret \<times> registers \<times> kernel) option" where
  "keep_regs regs r = map_option (\<lambda>(out, k). (out, regs, k)) r"

definition syscall_table :: "sys_env \<Rightarrow> registers \<Rightarrow> kernel \<Rightarrow> (sysret \<times> registers \<times> kernel) option" where
  "syscall_table env regs k =
     (let num = r_eax regs in
      if num = 0 then keep_regs regs (sys_exit env regs k)
      else if num = 1 then keep_regs regs (sys_write regs k)
      else if num = 2 then keep_regs regs (sys_fork env regs k)
      else if num = 3 then sys_execve env regs k
      else if num = 4 then keep_regs regs (sys_wait env regs k)
      else if num = 5 then keep_regs regs (sys_read env regs k)
      else if num = 6 then keep_regs regs (sys_open regs k)
      else if num = 7 then keep_regs regs (sys_close regs k)
      else if num = 8 then keep_regs regs (sys_sleep env regs k)
      else if num = 9 then keep_regs regs (sys_thread_create env regs k)
      else if num = 10 then keep_regs regs (sys_thread_exit env k)
      else if num = 11 then keep_regs regs (sys_readdir regs k)
      else keep_regs regs (sys_dup2 regs k))"

definition syscall_dispatch :: "sys_env \<Rightarrow> registers \<Rightarrow> kernel \<Rightarrow> (registers \<times> kernel) option" where
  "syscall_dispatch env regs k =
     (if r_eax regs \<ge> SYSCALL_MAX then Some (regs\<lparr>r_eax := -1\<rparr>, k)
      else map_option (\<lambda>(out, regs, k). (case out of Returned r \<Rightarrow> regs\<lparr>r_eax := r\<rparr> | _ \<Rightarrow> regs, k))
        (syscall_table env regs k))"

section \<open>Rejected calls\<close>

text \<open>
  Calls whose arguments are out of range: an unknown number, a descriptor beyond the table, a buffer
  that reaches into the kernel (as numbers, without wrap-around), or a pointer into the kernel.
\<close>

definition bad_range :: "u32 \<Rightarrow> u32 \<Rightarrow> bool" where
  "bad_range buf len \<longleftrightarrow> unat buf \<ge> 0xC0000000 \<or> unat buf + unat len > 0xC0000000"

definition bad_call :: "registers \<Rightarrow> kernel \<Rightarrow> bool" where
  "bad_call regs k \<longleftrightarrow>
     r_eax regs \<ge> 13 \<or>
     r_eax regs \<in> {1, 5} \<and> (r_ebx regs \<ge> 16 \<or> bad_range (r_ecx regs) (r_edx regs) \<or>
        fnode (fd_table (self k) ! unat (r_ebx regs)) = None \<or> \<not> used (fd_table (self k) ! unat (r_ebx regs))) \<or>
     r_eax regs \<in> {3, 6} \<and> r_ebx regs \<ge> KERNEL_BASE \<or>
     r_eax regs = 7 \<and> (r_ebx regs \<ge> 16 \<or> \<not> used (fd_table (self k) ! unat (r_ebx regs))) \<or>
     r_eax regs = 11 \<and> (r_ebx regs \<ge> KERNEL_BASE \<or> r_edx regs \<ge> KERNEL_BASE) \<or>
     r_eax regs = 12 \<and> (r_ebx regs \<ge> 16 \<or> r_ecx regs \<ge> 16 \<or> \<not> used (fd_table (self k) ! unat (r_ebx regs)))"

lemma range_guard: "(buf \<ge> KERNEL_BASE \<or> len > KERNEL_BASE - buf) = bad_range buf len" for buf len :: u32
proof (cases "buf \<ge> KERNEL_BASE")
  case False
  then have "unat (KERNEL_BASE - buf) = 0xC0000000 - unat buf" by (simp add: unat_sub word_le_nat_alt)
  then show ?thesis using False by (auto simp: bad_range_def word_le_nat_alt word_less_nat_alt)
qed (simp add: bad_range_def word_le_nat_alt)

lemmas syscall_defs = syscall_dispatch_def syscall_table_def keep_regs_def Let_def

lemma sys_write_bad:
  "r_ebx regs \<ge> 16 \<or> bad_range (r_ecx regs) (r_edx regs) \<or> fnode (fd_table (self k) ! unat (r_ebx regs)) = None \<or>
    \<not> used (fd_table (self k) ! unat (r_ebx regs)) \<Longrightarrow> sys_write regs k = Some (Returned (-1), k)"
  unfolding sys_write_def Let_def range_guard by (auto split: option.split)

lemma sys_read_bad:
  "r_ebx regs \<ge> 16 \<or> bad_range (r_ecx regs) (r_edx regs) \<or> fnode (fd_table (self k) ! unat (r_ebx regs)) = None \<or>
    \<not> used (fd_table (self k) ! unat (r_ebx regs)) \<Longrightarrow> sys_read env regs k = Some (Returned (-1), k)"
  unfolding sys_read_def Let_def range_guard by (auto split: option.split)


section \<open>Descriptors\<close>

definition fds :: "kernel \<Rightarrow> file_desc list" where
  "fds k = fd_table (self k)"

lemma fds_set_fd [simp]: "fds (set_fd i d k) = (fds k)[i := d]"
  by (simp add: fds_def set_fd_def)

lemma find_least:
  "find P [a..<b] = Some i \<longleftrightarrow> a \<le> i \<and> i < b \<and> P i \<and> (\<forall>j. a \<le> j \<and> j < i \<longrightarrow> \<not> P j)"
proof -
  have "find P [a..<b] = Some i \<longleftrightarrow> (\<exists>n < b - a. P (a + n) \<and> i = a + n \<and> (\<forall>j < n. \<not> P (a + j)))"
    by (auto simp: find_Some_iff)
  also have "\<dots> \<longleftrightarrow> a \<le> i \<and> i < b \<and> P i \<and> (\<forall>j. a \<le> j \<and> j < i \<longrightarrow> \<not> P j)"
  proof safe
    fix j n
    assume "\<forall>j < n. \<not> P (a + j)" "a \<le> j" "j < a + n" "P j"
    then show False by (metis le_add_diff_inverse nat_add_left_cancel_less)
  next
    assume "a \<le> i" "i < b" "P i" "\<forall>j. a \<le> j \<and> j < i \<longrightarrow> \<not> P j"
    then show "\<exists>n < b - a. P (a + n) \<and> i = a + n \<and> (\<forall>j < n. \<not> P (a + j))"
      by (intro exI [of _ "i - a"]) auto
  qed auto
  finally show ?thesis .
qed

lemma fd_alloc_spec:
  assumes "fd_alloc (current_task k) node k = (fd, k')"
  shows "(fd = -1 \<and> k' = k \<and> (\<forall>i. 3 \<le> i \<and> i < 16 \<longrightarrow> used (fds k ! i))) \<or>
    (\<exists>i. fd = int i \<and> 3 \<le> i \<and> i < 16 \<and> \<not> used (fds k ! i) \<and> (\<forall>j. 3 \<le> j \<and> j < i \<longrightarrow> used (fds k ! j)) \<and>
       k' = set_fd i \<lparr>fnode = node, offset = 0, used = True\<rparr> k)"
proof (cases "find (\<lambda>i. \<not> used (fds k ! i)) [3..<16]")
  case None
  then have "\<forall>i. 3 \<le> i \<and> i < 16 \<longrightarrow> used (fds k ! i)" by (auto simp: find_None_iff simp del: upt_rec_numeral)
  then show ?thesis using assms None by (simp add: fd_alloc_def fds_def del: upt_rec_numeral)
next
  case (Some i)
  then have i: "3 \<le> i" "i < 16" "\<not> used (fds k ! i)" "\<forall>j. 3 \<le> j \<and> j < i \<longrightarrow> used (fds k ! j)"
    unfolding find_least by auto
  moreover have "fd = int i" "k' = set_fd i \<lparr>fnode = node, offset = 0, used = True\<rparr> k"
    using assms Some by (simp_all add: fd_alloc_def fds_def set_fd_def del: upt_rec_numeral)
  ultimately show ?thesis by blast
qed

text \<open>The table as a process sees it: for each open descriptor its node and position.\<close>

definition fd_map :: "kernel \<Rightarrow> nat \<Rightarrow> (vref option \<times> u32) option" where
  "fd_map k i = (if i < 16 \<and> used (fds k ! i) then Some (fnode (fds k ! i), offset (fds k ! i)) else None)"

lemma fd_map_set_fd:
  assumes "length (fds k) = 16" "i < 16"
  shows "fd_map (set_fd i d k) = (fd_map k)(i := if used d then Some (fnode d, offset d) else None)"
  using assms by (auto simp: fd_map_def fun_eq_iff nth_list_update)

lemma fd_bound: "r < 16 \<longleftrightarrow> \<not> 16 \<le> r" "\<not> 16 \<le> r \<Longrightarrow> unat r < 16" for r :: u32
  by (auto simp: word_less_nat_alt word_le_nat_alt)

text \<open>
  \<^verbatim>\<open>close\<close> and \<^verbatim>\<open>dup2\<close> on the descriptor table refine the update of a map: closing an open
  descriptor removes its entry, and duplicating one gives the target the entry of the source
  (whatever it had before); the call returns 0 and the target, and no other part of the kernel changes.
\<close>

theorem descriptor_calls_refine_map:
  assumes "length (fds k) = 16" "fd_map k (unat (r_ebx regs)) \<noteq> None" "r_ecx regs < 16"
  shows "(\<exists>k'. syscall_dispatch env (regs\<lparr>r_eax := 7\<rparr>) k = Some (regs\<lparr>r_eax := 0\<rparr>, k') \<and>
      fd_map k' = (fd_map k)(unat (r_ebx regs) := None) \<and> vfs k' = vfs k \<and> length (fds k') = 16) \<and>
    (\<exists>k'. syscall_dispatch env (regs\<lparr>r_eax := 12\<rparr>) k = Some (regs\<lparr>r_eax := r_ecx regs\<rparr>, k') \<and>
      fd_map k' = (fd_map k)(unat (r_ecx regs) := fd_map k (unat (r_ebx regs))) \<and> vfs k' = vfs k \<and> length (fds k') = 16)"
proof -
  have b: "unat (r_ebx regs) < 16" "used (fds k ! unat (r_ebx regs))" using assms(2) by (auto simp: fd_map_def split: if_splits)
  have g: "\<not> 16 \<le> r_ebx regs" "\<not> 16 \<le> r_ecx regs" "unat (r_ecx regs) < 16"
    using b(1) assms(3) by (auto simp: word_less_nat_alt word_le_nat_alt)
  have "vfs (set_fd i d k) = vfs k" for i d by (simp add: set_fd_def set_task_def)
  then show ?thesis
    using b g assms(1) by (simp add: syscall_defs sys_close_def sys_dup2_def fd_map_set_fd) (simp add: fd_map_def fds_def)
qed

text \<open>
  Opening a path that the lookup finds gives the lowest free descriptor from 3 on, at the start of
  the node, and leaves the others as they are; with no descriptor free the call returns -1.
\<close>

theorem sys_open_lowest_descriptor:
  assumes "r_eax regs = 6" "r_ebx regs < KERNEL_BASE" "r_ecx regs AND O_TRUNC = 0" "length (fds k) = 16"
    and "copy_in 127 (r_ebx regs) (kmach k) = Some path" "vfs_lookup (Some path) (vfs k) = (Some n, v)"
  shows "\<exists>k'. vfs k' = v \<and> length (fds k') = 16 \<and>
    (if \<forall>i. 3 \<le> i \<and> i < 16 \<longrightarrow> fd_map k i \<noteq> None
     then syscall_dispatch env regs k = Some (regs\<lparr>r_eax := -1\<rparr>, k') \<and> fd_map k' = fd_map k
     else \<exists>fd. syscall_dispatch env regs k = Some (regs\<lparr>r_eax := of_nat fd\<rparr>, k') \<and> 3 \<le> fd \<and> fd < 16 \<and>
       fd_map k fd = None \<and> (\<forall>i. 3 \<le> i \<and> i < fd \<longrightarrow> fd_map k i \<noteq> None) \<and>
       fd_map k' = (fd_map k)(fd := Some (Some n, 0)))"
proof -
  let ?k = "k\<lparr>vfs := v\<rparr>"
  obtain fd k' where a: "fd_alloc (current_task ?k) (Some n) ?k = (fd, k')" by fastforce
  have eq: "fds ?k = fds k" "fd_map ?k = fd_map k" by (simp_all add: fds_def fd_map_def fun_eq_iff)
  have r: "syscall_dispatch env regs k = Some (regs\<lparr>r_eax := of_int fd\<rparr>, k')"
    using assms a by (simp add: syscall_defs sys_open_def)
  from fd_alloc_spec [OF a] show ?thesis
  proof
    assume "fd = -1 \<and> k' = ?k \<and> (\<forall>i. 3 \<le> i \<and> i < 16 \<longrightarrow> used (fds ?k ! i))"
    then show ?thesis using r eq assms(4) by (intro exI [of _ ?k]) (auto simp: fd_map_def)
  next
    assume "\<exists>i. fd = int i \<and> 3 \<le> i \<and> i < 16 \<and> \<not> used (fds ?k ! i) \<and> (\<forall>j. 3 \<le> j \<and> j < i \<longrightarrow> used (fds ?k ! j)) \<and>
       k' = set_fd i \<lparr>fnode = Some n, offset = 0, used = True\<rparr> ?k"
    then obtain i where i: "fd = int i" "3 \<le> i" "i < 16" "\<not> used (fds k ! i)" "\<forall>j. 3 \<le> j \<and> j < i \<longrightarrow> used (fds k ! j)"
      "k' = set_fd i \<lparr>fnode = Some n, offset = 0, used = True\<rparr> ?k" using eq(1) by auto
    then have m: "fd_map k i = None" "\<forall>j. 3 \<le> j \<and> j < i \<longrightarrow> fd_map k j \<noteq> None" by (auto simp: fd_map_def)
    moreover have "fd_map k' = (fd_map k)(i := Some (Some n, 0))"
      using fd_map_set_fd [of ?k i] i(3,6) eq assms(4) by simp
    moreover have "vfs k' = v" using i(6) by (simp add: set_fd_def set_task_def)
    moreover have "length (fds k') = 16" using i(6) eq assms(4) by simp
    moreover have "\<not> (\<forall>i. 3 \<le> i \<and> i < 16 \<longrightarrow> fd_map k i \<noteq> None)" using m(1) i(2,3) by blast
    ultimately show ?thesis using r i(1-3) by (intro exI [of _ k']) auto
  qed
qed

section \<open>Reading a file\<close>

lemma sys_read_spec:
  assumes "space_wf (kmach k)" "length (fds k) = 16" "fd_map k (unat (r_ebx regs)) = Some (Some n, off)"
    and "is_file n (vfs k)" "unat off + unat (r_edx regs) < 2 ^ 32" "\<not> bad_range (r_ecx regs) (r_edx regs)"
    and "\<forall>w. unat (r_ecx regs) \<le> unat w \<and> unat w < unat (r_ecx regs) + unat (r_edx regs) \<longrightarrow> translate (kmach k) w \<noteq> None"
    and "bs = file_bytes n off (r_edx regs) (vfs k)"
  shows "\<exists>k'. sys_read env regs k = Some (Returned (of_nat (length bs)), k') \<and> length (fds k') = 16 \<and>
    fd_map k' = (fd_map k)(unat (r_ebx regs) := Some (Some n, off + of_nat (length bs))) \<and>
    vfs k' = set_machine (kmach k') (vfs k) \<and> same_map (kmach k) (kmach k') \<and>
    (\<forall>w. user_addr w \<longrightarrow> vread8 w (kmach k') =
       (if unat (r_ecx regs) \<le> unat w \<and> unat w < unat (r_ecx regs) + length bs
        then Some (bs ! (unat w - unat (r_ecx regs))) else vread8 w (kmach k)))"
proof -
  let ?fd = "r_ebx regs" and ?buf = "r_ecx regs" and ?len = "r_edx regs"
  have f: "unat ?fd < 16" "used (fds k ! unat ?fd)" "fnode (fds k ! unat ?fd) = Some n" "offset (fds k ! unat ?fd) = off"
    using assms(3) by (auto simp: fd_map_def split: if_splits)
  have g: "\<not> 16 \<le> ?fd" using f(1) by (simp add: word_le_nat_alt)
  have len: "length bs \<le> unat ?len" using file_bytes_length assms(5,8) by simp
  have "unat ?buf + length bs \<le> 0xC0000000" using assms(6) len by (auto simp: bad_range_def)
  moreover have "\<forall>w. unat ?buf \<le> unat w \<and> unat w < unat ?buf + length bs \<longrightarrow> translate (kmach k) w \<noteq> None"
    using assms(7) len by auto
  ultimately obtain m' where m': "vwrite_bytes ?buf bs (kmach k) = Some m'" "same_map (kmach k) m'"
    "\<forall>w. user_addr w \<longrightarrow> vread8 w m' = (if unat ?buf \<le> unat w \<and> unat w < unat ?buf + length bs
       then Some (bs ! (unat w - unat ?buf)) else vread8 w (kmach k))"
    using bytes_write [OF assms(1), of ?buf bs] by blast
  let ?k = "set_kmach m' k"
  let ?k' = "set_fd (unat ?fd) ((fds k ! unat ?fd)\<lparr>offset := off + of_nat (length bs)\<rparr>) ?k"
  have vr: "vfs_read (current_task k) (Some n) off ?len (vfs k) = (Some bs, vfs k)"
    using assms(4,8) by (auto simp: vfs_read_def is_file_def file_bytes_def)
  have "user_write ?buf bs k = Some ?k" using m'(1) by (simp add: user_write_def)
  then have r: "sys_read env regs k = Some (Returned (of_nat (length bs)), ?k')"
    unfolding sys_read_def Let_def range_guard using g f assms(6) vr by (simp add: fds_def)
  have k: "fds ?k = fds k" "kmach ?k' = m'" "vfs ?k' = set_machine m' (vfs k)" "fd_map ?k = fd_map k"
    by (simp_all add: fds_def set_kmach_def set_fd_def set_task_def fd_map_def fun_eq_iff)
  have "fd_map ?k' = (fd_map k)(unat ?fd := Some (Some n, off + of_nat (length bs)))"
    using fd_map_set_fd [of ?k "unat ?fd"] f k(1,4) assms(2) by simp
  then show ?thesis using r m'(2,3) k assms(2) by (intro exI [of _ ?k']) simp
qed

text \<open>
  C12: reading an open file gives the caller's buffer the bytes of the file at the descriptor's
  position and touches no other byte of user memory; the position advances by the number of
  bytes read, which is the result. Other descriptors, the page tables and the files keep their state.
\<close>

theorem sys_read_correct:
  assumes "space_wf (kmach k)" "length (fds k) = 16" "fd_map k (unat (r_ebx regs)) = Some (Some n, off)"
    and "is_file n (vfs k)" "unat off + unat (r_edx regs) < 2 ^ 32" "\<not> bad_range (r_ecx regs) (r_edx regs)"
    and "\<forall>w. unat (r_ecx regs) \<le> unat w \<and> unat w < unat (r_ecx regs) + unat (r_edx regs) \<longrightarrow> translate (kmach k) w \<noteq> None"
    and "bs = file_bytes n off (r_edx regs) (vfs k)" "r_eax regs = 5"
  shows "\<exists>k'. syscall_dispatch env regs k = Some (regs\<lparr>r_eax := of_nat (length bs)\<rparr>, k') \<and>
    fd_map k' = (fd_map k)(unat (r_ebx regs) := Some (Some n, off + of_nat (length bs))) \<and>
    vfs k' = set_machine (kmach k') (vfs k) \<and> same_map (kmach k) (kmach k') \<and>
    (\<forall>w. user_addr w \<longrightarrow> vread8 w (kmach k') =
       (if unat (r_ecx regs) \<le> unat w \<and> unat w < unat (r_ecx regs) + length bs
        then Some (bs ! (unat w - unat (r_ecx regs))) else vread8 w (kmach k)))"
proof -
  obtain k' where k': "sys_read env regs k = Some (Returned (of_nat (length bs)), k')"
    "fd_map k' = (fd_map k)(unat (r_ebx regs) := Some (Some n, off + of_nat (length bs)))"
    "vfs k' = set_machine (kmach k') (vfs k)" "same_map (kmach k) (kmach k')"
    "\<forall>w. user_addr w \<longrightarrow> vread8 w (kmach k') =
       (if unat (r_ecx regs) \<le> unat w \<and> unat w < unat (r_ecx regs) + length bs
        then Some (bs ! (unat w - unat (r_ecx regs))) else vread8 w (kmach k))"
    using sys_read_spec [OF assms(1-8), of env] by blast
  then show ?thesis using assms(9) by (intro exI [of _ k']) (simp add: syscall_defs)
qed

section \<open>Sleeping\<close>

lemma sleep_ticks_spec: "unat ms < 42949673 \<Longrightarrow> unat (sleep_ticks ms) = (if ms = 0 then 0 else max 1 (unat ms div 10))"
proof -
  assume "unat ms < 42949673"
  then have m: "unat (ms * 100) = unat ms * 100" by (simp add: unat_mult_lem [THEN iffD1])
  have d: "unat ((ms * 100) div 1000) = unat ms div 10" by (simp add: unat_div m)
  then have "(ms * 100) div 1000 = 0 \<longleftrightarrow> unat ms div 10 = 0" by (metis unat_eq_0)
  then show ?thesis using d by (auto simp: sleep_ticks_def Let_def word_gt_0 max_def)
qed

lemma unat_ucast_64: "unat (ucast x :: u64) = unat x" for x :: u32
  using unat_u32_bound [of x] by (simp add: unat_ucast_mod)

lemma yield_blocked:
  assumes "sched_wf k ts" "state (tasks k (current_task k)) = TASK_BLOCKED" "task_yield sp k = Some k'"
  shows "sched_wf k' ts" "state (tasks k' (current_task k)) = TASK_BLOCKED"
    "wake_tick (tasks k' (current_task k)) = wake_tick (tasks k (current_task k))"
proof -
  show "sched_wf k' ts" using task_yield_wf [OF assms(1), of sp] assms(3) by simp
  obtain r where r: "pick_next_task k = Some r" "best_in k (after (current_task k) ts) r"
    using pick_next_spec assms(1) unfolding sched_wf_def by blast
  have c: "current_task k \<noteq> 0" using assms(1) by (auto simp: sched_wf_def ring_def)
  have "r \<noteq> 0 \<Longrightarrow> r \<noteq> current_task k" using best_in_mem [OF r(2)] assms(2) by (auto simp: ready_def)
  then show "state (tasks k' (current_task k)) = TASK_BLOCKED"
    "wake_tick (tasks k' (current_task k)) = wake_tick (tasks k (current_task k))"
    using assms(2,3) r(1) c by (auto simp: task_yield_def switch_to_def Let_def)
qed

text \<open>
  C28: a task that sleeps for \<open>ms\<close> milliseconds (at 100 ticks a second, at least one tick if \<open>ms > 0\<close>) is
  blocked, and the timer makes it ready exactly from the tick on at which that time has passed, as
  long as neither the multiplication nor the 32-bit wake-up time overflows.
\<close>

theorem sys_sleep_wakes:
  assumes "sched_wf k ts" "unat (r_ebx regs) < 42949673" "r_ebx regs \<noteq> 0"
    "wake = unat (env_now env) + max 1 (unat (r_ebx regs) div 10)" "wake < 2 ^ 32"
  shows "\<exists>k'. sys_sleep env regs k = Some (Returned 0, k') \<and> sched_wf k' ts \<and>
    state (tasks k' (current_task k)) = TASK_BLOCKED \<and>
    (\<forall>now. \<exists>k''. task_wake_sleepers now k' = Some k'' \<and>
       state (tasks k'' (current_task k)) = (if wake \<le> unat now then TASK_READY else TASK_BLOCKED))"
proof -
  let ?c = "current_task k" and ?w = "ucast (env_now env + ucast (sleep_ticks (r_ebx regs))) :: u32"
  let ?k = "set_task ?c (\<lambda>t. t\<lparr>wake_tick := ?w, state := TASK_BLOCKED\<rparr>) k"
  have "unat (env_now env + ucast (sleep_ticks (r_ebx regs))) = wake"
    using assms(2-5) sleep_ticks_spec [OF assms(2)] by (subst unat_add_lem [THEN iffD1]) (simp_all add: unat_ucast_64)
  then have w: "unat ?w = wake" using assms(5) by (simp add: unat_ucast_mod)
  have wf: "sched_wf ?k ts" by (intro sched_wf_relabel [OF assms(1)]) (use assms(1) in \<open>auto simp: sched_wf_def\<close>)
  obtain k' where k': "task_yield (env_sp env) ?k = Some k'" using task_yield_wf [OF wf] by blast
  note y = yield_blocked [OF wf _ k', simplified]
  have c: "?c \<in> set ts" using assms(1) by (simp add: sched_wf_def)
  have "unat (ucast ?w :: u64) = wake" using w by (simp add: unat_ucast_64)
  then have le: "ucast ?w \<le> now \<longleftrightarrow> wake \<le> unat now" for now :: u64 by (simp add: word_le_nat_alt)
  have "?w \<noteq> 0" using w assms(4) by (metis max.cobounded1 not_one_le_zero trans_le_add2 unat_0)
  then have "wake_sleeper now (tasks k' ?c) = (if wake \<le> unat now then (tasks k' ?c)\<lparr>wake_tick := 0, state := TASK_READY\<rparr> else tasks k' ?c)" for now
    using y le by (simp add: wake_sleeper_def)
  then show ?thesis
    using k' y c wake_sleepers_ring [of k' ts] by (intro exI [of _ k']) (simp add: sys_sleep_def sched_wf_def)
qed

section \<open>A concrete caller\<close>

text \<open>A page of zeros at the user stack's address, in the machine of \<^const>\<open>vm_example\<close>.\<close>

definition user_machine :: machine where
  "user_machine =
     (case vmm_map_page USER_STACK_BASE 0x3000 7 (vm_example\<lparr>pmm_state := fst (pmm_alloc_page pmm_example)\<rparr>) of
        Some (_, m) \<Rightarrow> the (vzero_page USER_STACK_BASE m) | None \<Rightarrow> vm_example)"

lemma user_machine_ok:
  "space_wf user_machine" "unat w div 4096 = 1280 \<Longrightarrow> translate user_machine w \<noteq> None \<and> vread8 w user_machine = Some 0"
proof -
  have un: "translate vm_example v = None" if "user_addr v" for v
    using that by (intro vm_example_unmapped) (simp add: unat_pd_index)
  then have wf: "space_wf vm_example" using vm_example_wf by (auto simp: space_wf_def data_ok_def)
  obtain p where p: "pmm_alloc_page (pmm_state vm_example) = (p, 0x3000)"
    using pmm_example_alloc by (metis prod.collapse vm_example_pmm)
  let ?m = "vm_example\<lparr>pmm_state := p\<rparr>"
  have u: "user_addr (USER_STACK_BASE)" by simp
  obtain ok m where m: "vmm_map_page USER_STACK_BASE 0x3000 7 ?m = Some (ok, m)" "space_wf m"
    "ok \<Longrightarrow> \<forall>w. unat w < 0xFFC00000 \<longrightarrow> translate m w =
       (if unat w div 4096 = unat (USER_STACK_BASE) div 4096 then Some (unat (0x3000 :: u32) div 4096, unat w mod 4096) else translate vm_example w)"
    using map_fresh_page [OF wf u un [OF u] p, of 7] by force
  have vw: "vm_wf ?m" using fresh_frame [OF vm_example_wf p] by (intro space_wf_vm space_wf_pmm_mono [OF wf]) auto
  have p': "p = fst (pmm_alloc_page pmm_example)" using p by (simp add: vm_example_pmm)
  then have "snd (pmm_alloc_page (pmm_state ?m)) \<noteq> 0" using pmm_example_alloc_twice by simp
  then have ok: ok using map_page_spec [OF vw, of "USER_STACK_BASE" "0x3000" 7] m(1) by auto
  have t: "translate m (USER_STACK_BASE) \<noteq> None" using m(3) [OF ok] by simp
  from zero_page [OF m(2) u t] obtain m' where m': "vzero_page USER_STACK_BASE m = Some m'" "same_map m m'"
    "\<forall>w. user_addr w \<longrightarrow> vread8 w m' = (if unat w div 4096 = unat (USER_STACK_BASE) div 4096 then Some 0 else vread8 w m)"
    by blast
  have e: "user_machine = m'" using m(1) m'(1) p' by (simp add: user_machine_def)
  show "space_wf user_machine" using e m'(2) by (simp add: same_map_def)
  assume w: "unat w div 4096 = 1280"
  then have "unat w < 0xC0000000" by linarith
  then show "translate user_machine w \<noteq> None \<and> vread8 w user_machine = Some 0"
    using w e m'(2,3) m(3) [OF ok] by (simp add: same_map_def)
qed

definition user_kernel :: kernel where
  "user_kernel = snd (fd_alloc 0x1000 (Some (Initrd_node 0)) (fd_table_init 0x1000
     ((kernel_example TASK_READY TASK_READY)\<lparr>vfs := set_machine user_machine (elf_example\<lparr>vfs_root := Some Initrd_root\<rparr>)\<rparr>)))"

definition regs_example :: "u32 \<Rightarrow> u32 \<Rightarrow> u32 \<Rightarrow> u32 \<Rightarrow> registers" where
  "regs_example a b c d = \<lparr>r_ds = 0, r_edi = 0, r_esi = 0, r_ebp = 0, r_esp_dummy = 0, r_ebx = b, r_edx = d, r_ecx = c,
     r_eax = a, r_int_no = 128, r_err_code = 0, r_eip = 0, r_cs = 0, r_eflags = 0, r_useresp = 0, r_ss = 0\<rparr>"

definition env_example :: sys_env where
  "env_example = \<lparr>env_sym = \<lparr>sym_task_exit = 1, sym_user_mode_enter = 2, sym_isr_return = 3, sym_thread_trampoline = 4\<rparr>,
     env_sp = 0, env_now = 50, env_argbuf = replicate ARG_BUF_SIZE 0xFF\<rparr>"

lemma regs_example_simps [simp]:
  "r_eax (regs_example a b c d) = a" "r_ebx (regs_example a b c d) = b" "r_ecx (regs_example a b c d) = c"
  "r_edx (regs_example a b c d) = d" "(regs_example a b c d)\<lparr>r_eax := e\<rparr> = regs_example e b c d"
  by (simp_all add: regs_example_def)

lemma user_kernel_fds:
  "fds user_kernel = (replicate 16 \<lparr>fnode = None, offset = 0, used = False\<rparr>)
     [0 := \<lparr>fnode = Some Keyboard_dev, offset = 0, used = True\<rparr>, 1 := \<lparr>fnode = Some Console, offset = 0, used = True\<rparr>,
      2 := \<lparr>fnode = Some Console, offset = 0, used = True\<rparr>, 3 := \<lparr>fnode = Some (Initrd_node 0), offset = 0, used = True\<rparr>]"
proof -
  let ?k = "fd_table_init 0x1000
     ((kernel_example TASK_READY TASK_READY)\<lparr>vfs := set_machine user_machine (elf_example\<lparr>vfs_root := Some Initrd_root\<rparr>)\<rparr>)"
  have f: "fd_table (tasks ?k 0x1000) = (replicate 16 \<lparr>fnode = None, offset = 0, used = False\<rparr>)
     [0 := \<lparr>fnode = Some Keyboard_dev, offset = 0, used = True\<rparr>, 1 := \<lparr>fnode = Some Console, offset = 0, used = True\<rparr>,
      2 := \<lparr>fnode = Some Console, offset = 0, used = True\<rparr>]" by (simp add: fd_table_init_def)
  then have "find (\<lambda>i. \<not> used (fd_table (tasks ?k 0x1000) ! i)) [3..<16] = Some 3"
    unfolding find_least by (simp add: numeral_eq_Suc)
  then show ?thesis using f by (simp add: user_kernel_def fd_alloc_def fds_def fd_table_init_def)
qed

lemma user_kernel_vfs: "vfs user_kernel = set_machine user_machine (elf_example\<lparr>vfs_root := Some Initrd_root\<rparr>)"
  by (simp add: user_kernel_def fd_alloc_def fd_table_init_def set_task_def split: option.split)

lemma user_kernel_map:
  "length (fds user_kernel) = 16" "fd_map user_kernel 3 = Some (Some (Initrd_node 0), 0)" "fd_map user_kernel 1 = Some (Some Console, 0)"
  "fd_map user_kernel 4 = None"
  by (simp_all add: fd_map_def user_kernel_fds numeral_eq_Suc)


theorem descriptor_calls_refine_map_witness:
  "\<exists>k'. syscall_dispatch env_example (regs_example 12 3 1 0) user_kernel = Some (regs_example 1 3 1 0, k') \<and>
     fd_map k' 1 = Some (Some (Initrd_node 0), 0)"
proof -
  have "fd_map user_kernel (unat (r_ebx (regs_example 0 3 1 0))) \<noteq> None" using user_kernel_map(2) by simp
  moreover have "r_ecx (regs_example 0 3 1 0) < 16" by simp
  ultimately show ?thesis
    using descriptor_calls_refine_map [OF user_kernel_map(1), of "regs_example 0 3 1 0" env_example] user_kernel_map(2) by auto
qed

theorem sys_open_lowest_descriptor_witness:
  "\<exists>k'. syscall_dispatch env_example (regs_example 6 0x500000 0 0) user_kernel = Some (regs_example 4 0x500000 0 0, k') \<and>
     fd_map k' 4 = Some (Some Initrd_root, 0)"
proof -
  have "vread8 0x500000 user_machine = Some 0" using user_machine_ok(2) [of "0x500000"] by simp
  then have c: "copy_in 127 0x500000 (kmach user_kernel) = Some []" by (simp add: user_kernel_vfs numeral_eq_Suc)
  have l: "vfs_lookup (Some []) (vfs user_kernel) = (Some Initrd_root, vfs user_kernel)"
    by (simp add: vfs_lookup_def skip_slash_def user_kernel_vfs set_machine_def)
  have n: "\<not> (\<forall>i. 3 \<le> i \<and> i < 16 \<longrightarrow> fd_map user_kernel i \<noteq> None)" using user_kernel_map(4) by (intro notI) (drule spec [of _ 4], simp)
  obtain k' fd where k': "syscall_dispatch env_example (regs_example 6 0x500000 0 0) user_kernel =
      Some (regs_example (of_nat fd) 0x500000 0 0, k')" "3 \<le> fd" "fd_map user_kernel fd = None"
      "\<forall>i. 3 \<le> i \<and> i < fd \<longrightarrow> fd_map user_kernel i \<noteq> None" "fd_map k' = (fd_map user_kernel)(fd := Some (Some Initrd_root, 0))"
    using sys_open_lowest_descriptor [of "regs_example 6 0x500000 0 0" user_kernel "[]" Initrd_root "vfs user_kernel" env_example]
      user_kernel_map(1) c l n by (simp only: regs_example_simps) auto
  have "fd = 4"
  proof (rule antisym)
    show "fd \<le> 4" using spec [OF k'(4), of 4] user_kernel_map(4) by simp
    show "4 \<le> fd" using k'(2,3) user_kernel_map(2) by (cases "fd = 3") auto
  qed
  then show ?thesis using k'(1,5) by simp
qed

theorem sys_read_correct_witness:
  "\<exists>k'. syscall_dispatch env_example (regs_example 5 3 0x500010 4) user_kernel = Some (regs_example 4 3 0x500010 4, k') \<and>
     vread8 0x500011 (kmach k') = Some 0x45"
proof -
  have fb: "file_bytes (Initrd_node 0) 0 4 (vfs user_kernel) = [0x7F, 0x45, 0x4C, 0x46]"
  proof -
    have "file_bytes n off l (s\<lparr>vfs_root := r\<rparr>) = file_bytes n off l s" for n off l s r
      by (simp add: file_bytes_def initrd_read_def pfs_vfs_read_def Let_def)
    then have "file_bytes (Initrd_node 0) 0 4 (vfs user_kernel) = file_bytes (Initrd_node 0) 0 4 elf_example"
      by (simp add: user_kernel_vfs)
    then show ?thesis by (simp add: elf_example_bytes slice_def elf_image_def)
  qed
  have km: "kmach user_kernel = user_machine" by (simp add: user_kernel_vfs)
  have "translate (kmach user_kernel) w \<noteq> None" if "0x500010 \<le> unat w \<and> unat w < 0x500014" for w
  proof -
    have "unat w div 4096 = 1280" using that by linarith
    then show ?thesis using user_machine_ok(2) [of w] km by simp
  qed
  then have tr: "\<forall>w. 0x500010 \<le> unat w \<and> unat w < 0x500014 \<longrightarrow> translate (kmach user_kernel) w \<noteq> None" by blast
  have f: "is_file (Initrd_node 0) (vfs user_kernel)" by (simp add: user_kernel_vfs) (simp add: is_file_def elf_example_def)
  have wf: "space_wf (kmach user_kernel)" using user_machine_ok(1) km by simp
  have b: "\<not> bad_range 0x500010 4" by (simp add: bad_range_def)
  let ?r = "regs_example 5 3 0x500010 4" and ?bs = "[0x7F, 0x45, 0x4C, 0x46 :: u8]"
  have "\<exists>k'. syscall_dispatch env_example ?r user_kernel = Some (?r\<lparr>r_eax := of_nat (length ?bs)\<rparr>, k') \<and>
    fd_map k' = (fd_map user_kernel)(unat (r_ebx ?r) := Some (Some (Initrd_node 0), 0 + of_nat (length ?bs))) \<and>
    vfs k' = set_machine (kmach k') (vfs user_kernel) \<and> same_map (kmach user_kernel) (kmach k') \<and>
    (\<forall>w. user_addr w \<longrightarrow> vread8 w (kmach k') =
       (if unat (r_ecx ?r) \<le> unat w \<and> unat w < unat (r_ecx ?r) + length ?bs
        then Some (?bs ! (unat w - unat (r_ecx ?r))) else vread8 w (kmach user_kernel)))"
    by (rule sys_read_correct [OF wf user_kernel_map(1)]) (use f b tr fb user_kernel_map(2) in \<open>simp_all\<close>)
  then show ?thesis by force
qed

theorem sys_sleep_wakes_witness:
  "\<exists>k'. sys_sleep env_example (regs_example 8 100 0 0) (kernel_example TASK_READY TASK_READY) = Some (Returned 0, k') \<and>
     state (tasks k' 0x1000) = TASK_BLOCKED"
  using sys_sleep_wakes [OF kernel_example_wf [of TASK_READY TASK_READY], of "regs_example 8 100 0 0" 60 env_example]
  by (auto simp: env_example_def)

end
