(* ===== verification/Execve.thy ===== *)
theory Execve
  imports Syscall
begin

text \<open>
  The arguments of a program: what \<^verbatim>\<open>sys_execve\<close> copies out of the old address space is what the new
  program finds on its stack.
\<close>

section \<open>Strings and argument vectors in user memory\<close>

fun str_at :: "machine \<Rightarrow> u32 \<Rightarrow> cstr \<Rightarrow> bool" where
  "str_at m p [] \<longleftrightarrow> vread8 p m = Some 0"
| "str_at m p (c # s) \<longleftrightarrow> c \<noteq> 0 \<and> vread8 p m = Some c \<and> str_at m (p + 1) s"

fun args_at :: "machine \<Rightarrow> u32 \<Rightarrow> cstr list \<Rightarrow> bool" where
  "args_at m v [] \<longleftrightarrow> user_read32 v m = Some 0"
| "args_at m v (s # ss) \<longleftrightarrow> (\<exists>p. user_read32 v m = Some p \<and> p \<noteq> 0 \<and> p < KERNEL_BASE \<and> str_at m p s) \<and> args_at m (v + 4) ss"

section \<open>Copying the arguments out\<close>

lemma copy_arg_spec:
  assumes "str_at m p s" "length s < room" "n + length s < length buf"
  shows "copy_arg room p n buf m = Some (n + length s + 1, take n buf @ s @ [0] @ drop (n + length s + 1) buf)"
  using assms
proof (induction s arbitrary: p n buf room)
  case Nil
  then show ?case by (cases room) (auto simp: upd_conv_take_nth_drop)
next
  case (Cons c s)
  then obtain r where r: "room = Suc r" by (cases room) auto
  have "copy_arg r (p + 1) (n + 1) (buf[n := c]) m =
    Some (n + 1 + length s + 1, take (n + 1) (buf[n := c]) @ s @ [0] @ drop (n + 1 + length s + 1) (buf[n := c]))"
    using Cons.prems r by (intro Cons.IH) auto
  moreover have "take (n + 1) (buf[n := c]) = take n buf @ [c]"
    using Cons.prems(3) by (simp add: take_Suc_conv_app_nth)
  ultimately show ?case using Cons.prems r by simp
qed

text \<open>The buffer holds the strings, each with its terminator, from position \<open>n\<close> on at the given offsets.\<close>

fun packed :: "nat \<Rightarrow> cstr list \<Rightarrow> nat list \<Rightarrow> u8 list \<Rightarrow> bool" where
  "packed n [] offs buf \<longleftrightarrow> offs = []"
| "packed n (s # ss) offs buf \<longleftrightarrow> (\<exists>offs'. offs = n # offs' \<and> (\<exists>rest. drop n buf = s @ [0] @ rest) \<and> packed (n + length s + 1) ss offs' buf)"

definition total :: "cstr list \<Rightarrow> nat" where
  "total ss = (\<Sum>s \<leftarrow> ss. length s + 1)"

lemma total_simps [simp]: "total [] = 0" "total (s # ss) = length s + 1 + total ss" "total (xs @ ys) = total xs + total ys"
  by (simp_all add: total_def)

lemma copy_args_spec:
  assumes "args_at m v ss" "length ss \<le> room" "n + total ss \<le> 1023" "length buf = 1024"
  shows "\<exists>offs' buf'. copy_args room v offs n buf m = Some (Inr (offs @ offs', buf')) \<and> take n buf' = take n buf \<and>
    length buf' = 1024 \<and> packed n ss offs' buf'"
  using assms
proof (induction ss arbitrary: v room n offs buf)
  case Nil
  then show ?case by (cases room) auto
next
  case (Cons s ss)
  then obtain r where r: "room = Suc r" by (cases room) auto
  obtain p where p: "user_read32 v m = Some p" "p \<noteq> 0" "p < KERNEL_BASE" "str_at m p s" using Cons.prems(1) by auto
  let ?buf = "take n buf @ s @ [0] @ drop (n + length s + 1) buf" and ?n = "n + length s + 1"
  have ca: "copy_arg (1023 - n) p n buf m = Some (?n, ?buf)" using Cons.prems p(4) by (intro copy_arg_spec) auto
  have len: "length ?buf = 1024" using Cons.prems(3,4) by auto
  obtain offs' buf' where b: "copy_args r (v + 4) (offs @ [n]) ?n ?buf m = Some (Inr ((offs @ [n]) @ offs', buf'))"
    "take ?n buf' = take ?n ?buf" "length buf' = 1024" "packed ?n ss offs' buf'"
    using Cons.IH [of "v + 4" r ?n ?buf "offs @ [n]"] Cons.prems r len by auto
  have tk: "take ?n ?buf = take n buf @ s @ [0]" using Cons.prems(3,4) by simp
  have "drop n (take ?n buf') = s @ [0]" using b(2) tk Cons.prems(3,4) by simp
  moreover have "drop n (take ?n buf' @ drop ?n buf') = drop n (take ?n buf') @ drop ?n buf'"
    using b(3) Cons.prems(3) by (simp only: drop_append) simp
  ultimately have "drop n buf' = s @ [0] @ drop ?n buf'" by simp
  moreover have "take n buf' = take n buf"
  proof -
    have "take n (take ?n buf') = take n buf" using b(2) tk Cons.prems(3,4) by simp
    then show ?thesis by simp
  qed
  ultimately show ?case using b p r ca by auto
qed

lemma str_at_nonzero: "str_at m p s \<Longrightarrow> 0 \<notin> set s"
  by (induction m p s rule: str_at.induct) auto

lemma arg_string_packed: "drop n buf = s @ [0] @ rest \<Longrightarrow> 0 \<notin> set s \<Longrightarrow> arg_string buf n = Some (s @ [0])"
  by (simp add: arg_string_def cstr_of_def takeWhile_append)

lemma packed_strings:
  "packed n ss offs buf \<Longrightarrow> \<forall>s \<in> set ss. 0 \<notin> set s \<Longrightarrow> map (arg_string buf) offs = map (\<lambda>s. Some (s @ [0])) ss"
proof (induction ss arbitrary: n offs)
  case (Cons s ss)
  then show ?case using arg_string_packed by fastforce
qed simp

lemma args_at_nonzero: "args_at m v ss \<Longrightarrow> \<forall>s \<in> set ss. 0 \<notin> set s"
  by (induction m v ss rule: args_at.induct) (auto dest: str_at_nonzero)

section \<open>Building the stack\<close>

text \<open>The bytes at an address, and memory in which the stack page of the program is mapped.\<close>

definition holds :: "machine \<Rightarrow> nat \<Rightarrow> u8 list \<Rightarrow> bool" where
  "holds m a bs \<longleftrightarrow> (\<forall>i < length bs. vread8 (of_nat (a + i)) m = Some (bs ! i))"

definition stack_ok :: "machine \<Rightarrow> bool" where
  "stack_ok m \<longleftrightarrow> space_wf m \<and> (\<forall>w. 0x500000 \<le> unat w \<and> unat w < 0x501000 \<longrightarrow> translate m w \<noteq> None)"

lemma holds_append [simp]: "holds m a (xs @ ys) \<longleftrightarrow> holds m a xs \<and> holds m (a + length xs) ys"
proof safe
  assume h: "holds m a (xs @ ys)"
  show "holds m a xs" using h by (auto simp: holds_def nth_append dest: spec)
  show "holds m (a + length xs) ys"
    unfolding holds_def
  proof (intro allI impI)
    fix i
    assume "i < length ys"
    then show "vread8 (of_nat (a + length xs + i)) m = Some (ys ! i)"
      using h [unfolded holds_def, rule_format, of "length xs + i"] by (simp add: add.assoc nth_append)
  qed
next
  assume h: "holds m a xs" "holds m (a + length xs) ys"
  show "holds m a (xs @ ys)"
    unfolding holds_def
  proof (intro allI impI)
    fix i
    assume i: "i < length (xs @ ys)"
    show "vread8 (of_nat (a + i)) m = Some ((xs @ ys) ! i)"
    proof (cases "i < length xs")
      case True
      then show ?thesis using h(1) by (simp add: holds_def nth_append)
    next
      case False
      then have "vread8 (of_nat (a + length xs + (i - length xs))) m = Some (ys ! (i - length xs))"
        using h(2) i unfolding holds_def by (metis add_diff_inverse_nat length_append nat_add_left_cancel_less)
      then show ?thesis using False by (simp add: nth_append)
    qed
  qed
qed

lemma user_write_spec:
  assumes "stack_ok (kmach k)" "0x500000 \<le> a" "a + length bs \<le> 0x501000"
  shows "\<exists>k'. user_write (of_nat a) bs k = Some k' \<and> stack_ok (kmach k') \<and> holds (kmach k') a bs \<and>
    (\<forall>b xs. (b + length xs \<le> a \<or> a + length bs \<le> b \<and> b + length xs \<le> 0x501000) \<longrightarrow> holds (kmach k) b xs \<longrightarrow> holds (kmach k') b xs)"
proof -
  have u: "unat (of_nat a :: u32) = a" using assms by (intro unat_of_nat_u32) simp
  obtain m' where m': "vwrite_bytes (of_nat a) bs (kmach k) = Some m'" "same_map (kmach k) m'"
    "\<forall>w. user_addr w \<longrightarrow> vread8 w m' = (if a \<le> unat w \<and> unat w < a + length bs then Some (bs ! (unat w - a)) else vread8 w (kmach k))"
    using bytes_write [of "kmach k" "of_nat a" bs] assms u by (auto simp: stack_ok_def)
  have rd: "vread8 (of_nat b) m' = (if a \<le> b \<and> b < a + length bs then Some (bs ! (b - a)) else vread8 (of_nat b) (kmach k))"
    if "b < 0x501000" for b
  proof -
    have "unat (of_nat b :: u32) = b" using that by (intro unat_of_nat_u32) simp
    then show ?thesis using m'(3) that by simp
  qed
  have km: "kmach (set_kmach m' k) = m'" by (simp add: set_kmach_def)
  have "stack_ok m'" using assms(1) m'(2) by (auto simp: stack_ok_def same_map_def)
  moreover have "holds m' a bs"
    unfolding holds_def
  proof (intro allI impI)
    fix i
    assume "i < length bs"
    then show "vread8 (of_nat (a + i)) m' = Some (bs ! i)" using rd [of "a + i"] assms(3) by simp
  qed
  moreover have "holds m' b xs" if "b + length xs \<le> a \<or> a + length bs \<le> b \<and> b + length xs \<le> 0x501000" "holds (kmach k) b xs" for b xs
    unfolding holds_def
  proof (intro allI impI)
    fix i
    assume i: "i < length xs"
    then have "b + i < 0x501000" "\<not> (a \<le> b + i \<and> b + i < a + length bs)" using that(1) assms(3) by auto
    then show "vread8 (of_nat (b + i)) m' = Some (xs ! i)" using rd [of "b + i"] that(2) i by (auto simp: holds_def)
  qed
  ultimately show ?thesis using m'(1) km by (intro exI [of _ "set_kmach m' k"]) (auto simp: user_write_def)
qed

lemma vwrite_bytes_append:
  "vwrite_bytes v (xs @ ys) m = Option.bind (vwrite_bytes v xs m) (vwrite_bytes (v + of_nat (length xs)) ys)"
proof (induction xs arbitrary: v m)
  case (Cons x xs)
  have "v + 1 + of_nat (length xs) = v + of_nat (length (x # xs))" by simp
  then show ?case using Cons by (cases "vwrite8 v x m") (simp_all add: add.assoc)
qed simp

lemma user_write_append:
  "user_write v (xs @ ys) k = Option.bind (user_write v xs k) (user_write (v + of_nat (length xs)) ys)"
  by (cases "vwrite_bytes v xs (kmach k)")
    (auto simp: user_write_def vwrite_bytes_append set_kmach_def set_machine_def intro!: map_option_cong)

lemma write_words_bytes: "write_words v xs k = user_write v (concat (map le32 xs)) k"
proof (induction xs arbitrary: v k)
  case Nil
  have "set_kmach (kmach k) k = k" by (simp add: set_kmach_def set_machine_def)
  then show ?case by (simp add: user_write_def)
next
  case (Cons x xs)
  then show ?case by (simp add: user_write_append user_write32_def) (cases "user_write v (le32 x) k"; simp)
qed

text \<open>The strings above the new stack pointer, their addresses and what was above them before.\<close>

lemma push_args_spec:
  assumes "map (arg_string buf) offs = map (\<lambda>s. Some (s @ [0])) ss" "stack_ok (kmach k)" "sp \<le> 0x501000" "0x500000 + total ss \<le> sp"
  shows "\<exists>k' news. push_args offs buf (of_nat sp) addrs k = Some (of_nat (sp - total ss), news @ addrs, k') \<and> stack_ok (kmach k') \<and>
    list_all2 (\<lambda>a s. sp - total ss \<le> unat a \<and> unat a + length s + 1 \<le> sp \<and> holds (kmach k') (unat a) (s @ [0])) news (rev ss) \<and>
    (\<forall>b xs. sp \<le> b \<and> b + length xs \<le> 0x501000 \<longrightarrow> holds (kmach k) b xs \<longrightarrow> holds (kmach k') b xs)"
  using assms
proof (induction ss arbitrary: offs sp addrs k)
  case Nil
  then show ?case by auto
next
  case (Cons s ss)
  then obtain off offs' where offs: "offs = off # offs'" "arg_string buf off = Some (s @ [0])"
    "map (arg_string buf) offs' = map (\<lambda>s. Some (s @ [0])) ss" by (cases offs) auto
  obtain q where q: "sp = q + (length s + 1)" "0x500000 + total ss \<le> q"
    using Cons.prems(4) that [of "sp - (length s + 1)"] by simp
  have q': "0x500000 \<le> q" "q + length (s @ [0]) \<le> 0x501000" "q \<le> 0x501000" using q Cons.prems(3) by simp_all
  have sub: "of_nat sp - of_nat (length (s @ [0])) = (of_nat q :: u32)" using q(1) by simp
  obtain k1 where k1: "user_write (of_nat q) (s @ [0]) k = Some k1" "stack_ok (kmach k1)" "holds (kmach k1) q (s @ [0])"
    "\<forall>b xs. b + length xs \<le> q \<or> q + length (s @ [0]) \<le> b \<and> b + length xs \<le> 0x501000 \<longrightarrow> holds (kmach k) b xs \<longrightarrow> holds (kmach k1) b xs"
    using user_write_spec [OF Cons.prems(2) q'(1,2)] by blast
  obtain k' news where k': "push_args offs' buf (of_nat q) (of_nat q # addrs) k1 = Some (of_nat (q - total ss), news @ of_nat q # addrs, k')"
    "stack_ok (kmach k')"
    "list_all2 (\<lambda>a s. q - total ss \<le> unat a \<and> unat a + length s + 1 \<le> q \<and> holds (kmach k') (unat a) (s @ [0])) news (rev ss)"
    "\<forall>b xs. q \<le> b \<and> b + length xs \<le> 0x501000 \<longrightarrow> holds (kmach k1) b xs \<longrightarrow> holds (kmach k') b xs"
    using Cons.IH [OF offs(3) k1(2) q'(3) q(2), of "of_nat q # addrs"] by blast
  have u: "unat (of_nat q :: u32) = q" using q'(3) by (intro unat_of_nat_u32) simp
  have h: "holds (kmach k') q (s @ [0])" using k'(4) k1(3) q'(2) by blast
  have up: "holds (kmach k') b xs" if "sp \<le> b" "b + length xs \<le> 0x501000" "holds (kmach k) b xs" for b xs
    using that k1(4) k'(4) q(1) by simp
  have t: "sp - total (s # ss) = q - total ss" using q(1) by simp
  have "list_all2 (\<lambda>a s. q - total ss \<le> unat a \<and> unat a + length s + 1 \<le> sp \<and> holds (kmach k') (unat a) (s @ [0])) news (rev ss)"
    by (rule list_all2_mono [OF k'(3)]) (use q(1) in simp)
  moreover have "q - total ss \<le> unat (of_nat q :: u32) \<and> unat (of_nat q :: u32) + length s + 1 \<le> sp \<and> holds (kmach k') (unat (of_nat q :: u32)) (s @ [0])"
    using u q h by simp
  ultimately have "list_all2 (\<lambda>a s. q - total ss \<le> unat a \<and> unat a + length s + 1 \<le> sp \<and> holds (kmach k') (unat a) (s @ [0]))
      (news @ [of_nat q]) (rev (s # ss))"
    using list_all2_appendI [of _ news "rev ss" "[of_nat q]" "[s]"] by simp
  moreover have "push_args offs buf (of_nat sp) addrs k = Some (of_nat (q - total ss), (news @ [of_nat q]) @ addrs, k')"
    using offs(1,2) sub k1(1) k'(1) by simp
  ultimately show ?case unfolding t using k'(2) up by blast
qed

lemma holds_vread: "holds m a bs \<Longrightarrow> vread_bytes (of_nat a) (length bs) m = Some bs"
proof (induction bs arbitrary: a)
  case (Cons b bs)
  have "holds m a ([b] @ bs)" using Cons.prems by simp
  then have "holds m a [b]" "holds m (Suc a) bs" unfolding holds_append by simp_all
  then show ?case using Cons.IH [of "Suc a"] by (simp add: holds_def add.commute)
qed simp

lemma holds_word: "holds m a (le32 x) \<Longrightarrow> user_read32 (of_nat a) m = Some x"
  using holds_vread [of m a "le32 x"] by (simp add: user_read32_def)

lemma holds_str: "holds m a (s @ [0]) \<Longrightarrow> 0 \<notin> set s \<Longrightarrow> str_at m (of_nat a) s"
proof (induction s arbitrary: a)
  case (Cons c s)
  have "holds m a ([c] @ s @ [0])" using Cons.prems by simp
  then have "holds m a [c]" "holds m (Suc a) (s @ [0])" unfolding holds_append by simp_all
  then show ?case using Cons.IH [of "Suc a"] Cons.prems(2) by (simp add: holds_def add.commute)
qed (simp add: holds_def)

lemma holds_args:
  assumes "holds m v (concat (map le32 (addrs @ [0])))" "\<forall>s \<in> set ss. 0 \<notin> set s"
    "list_all2 (\<lambda>a s. 0x500000 \<le> unat a \<and> unat a + length s + 1 \<le> 0x501000 \<and> holds m (unat a) (s @ [0])) addrs ss"
  shows "args_at m (of_nat v) ss"
  using assms(3,1,2)
proof (induction addrs ss arbitrary: v rule: list_all2_induct)
  case Nil
  then show ?case using holds_word [of m v 0] by simp
next
  case (Cons a addrs s ss)
  have h: "holds m v (le32 a)" "holds m (v + 4) (concat (map le32 (addrs @ [0])))" using Cons.prems(1) by simp_all
  have "str_at m (of_nat (unat a)) s" using Cons.hyps(1) Cons.prems(2) by (intro holds_str) auto
  then have "a \<noteq> 0" "a < KERNEL_BASE" "str_at m a s" using Cons.hyps(1) by (auto simp: word_less_nat_alt)
  then show ?case using holds_word [OF h(1)] Cons.IH [OF h(2)] Cons.prems(2) by (simp add: add.commute)
qed

lemma exec_stack_spec:
  assumes "map (arg_string buf) offs = map (\<lambda>s. Some (s @ [0])) ss" "\<forall>s \<in> set ss. 0 \<notin> set s" "stack_ok (kmach k)"
    and "length ss \<le> 16" "total ss \<le> 1024"
  shows "\<exists>sp k'. exec_stack offs buf k = Some (sp, k') \<and> stack_ok (kmach k') \<and> 0x500000 \<le> unat sp \<and> unat sp mod 4 = 0 \<and>
    user_read32 sp (kmach k') = Some (of_nat (length ss)) \<and> user_read32 (sp + 4) (kmach k') = Some (sp + 8) \<and>
    args_at (kmach k') (sp + 8) ss"
proof -
  have len: "length offs = length ss" using assms(1) by (metis length_map)
  have rv: "map (arg_string buf) (rev offs) = map (\<lambda>s. Some (s @ [0])) (rev ss)" using assms(1) by (simp flip: rev_map)
  have tr: "total (rev xs) = total xs" for xs by (induction xs) simp_all
  let ?top = "0x501000 - total ss"
  obtain k1 addrs where k1: "push_args (rev offs) buf 0x501000 [] k = Some (of_nat ?top, addrs, k1)" "stack_ok (kmach k1)"
    "list_all2 (\<lambda>a s. ?top \<le> unat a \<and> unat a + length s + 1 \<le> 0x501000 \<and> holds (kmach k1) (unat a) (s @ [0])) addrs ss"
    using push_args_spec [OF rv assms(3), of "0x501000" "[]"] assms(5) tr by auto
  define v where "v = ?top div 4 * 4 - 4 * (length ss + 1)"
  have vb: "0x500000 + 8 \<le> v" "v + 4 * (length ss + 1) = ?top div 4 * 4" "v mod 4 = 0"
    using assms(4,5) by (simp_all add: v_def mod_0_imp_dvd)
  let ?ws = "concat (map le32 (addrs @ [0]))"
  have wl: "length ?ws = 4 * (length ss + 1)"
  proof -
    have "length (concat (map le32 xs)) = 4 * length xs" for xs by (induction xs) simp_all
    then show ?thesis using k1(3) by (simp add: list_all2_lengthD)
  qed
  have bd: "0x500000 \<le> v" "v + length ?ws \<le> 0x501000" "0x500000 \<le> v - 4" "v - 4 + 4 \<le> 0x501000" "0x500000 \<le> v - 8" "v - 8 + 4 \<le> 0x501000"
    using vb(1,2) wl by linarith+
  obtain k2 where k2: "user_write (of_nat v) ?ws k1 = Some k2" "stack_ok (kmach k2)" "holds (kmach k2) v ?ws"
    "\<forall>b xs. b + length xs \<le> v \<or> v + length ?ws \<le> b \<and> b + length xs \<le> 0x501000 \<longrightarrow> holds (kmach k1) b xs \<longrightarrow> holds (kmach k2) b xs"
    using user_write_spec [OF k1(2) bd(1,2)] by blast
  obtain k3 where k3: "user_write (of_nat (v - 4)) (le32 (of_nat v)) k2 = Some k3" "stack_ok (kmach k3)" "holds (kmach k3) (v - 4) (le32 (of_nat v))"
    "\<forall>b xs. b + length xs \<le> v - 4 \<or> v - 4 + length (le32 (of_nat v)) \<le> b \<and> b + length xs \<le> 0x501000 \<longrightarrow> holds (kmach k2) b xs \<longrightarrow> holds (kmach k3) b xs"
    using user_write_spec [OF k2(2) bd(3), of "le32 (of_nat v)"] bd(4) by (simp only: length_le32) blast
  obtain k4 where k4: "user_write (of_nat (v - 8)) (le32 (of_nat (length ss))) k3 = Some k4" "stack_ok (kmach k4)"
    "holds (kmach k4) (v - 8) (le32 (of_nat (length ss)))"
    "\<forall>b xs. b + length xs \<le> v - 8 \<or> v - 8 + length (le32 (of_nat (length ss))) \<le> b \<and> b + length xs \<le> 0x501000 \<longrightarrow> holds (kmach k3) b xs \<longrightarrow> holds (kmach k4) b xs"
    using user_write_spec [OF k3(2) bd(5), of "le32 (of_nat (length ss))"] bd(6) by (simp only: length_le32) blast
  have keep: "holds (kmach k4) b xs" if "v \<le> b" "b + length xs \<le> 0x501000" "holds (kmach k2) b xs" for b xs
    using that k3(4) k4(4) vb(1) by simp
  have keep1: "holds (kmach k4) b xs" if "?top \<le> b" "b + length xs \<le> 0x501000" "holds (kmach k1) b xs" for b xs
  proof -
    have "v + length ?ws \<le> b" "v \<le> b" using that(1) vb(2) wl by linarith+
    then show ?thesis using that k2(4) keep by blast
  qed
  have top0: "0x500000 \<le> ?top" using assms(5) by simp
  have strs: "list_all2 (\<lambda>a s. 0x500000 \<le> unat a \<and> unat a + length s + 1 \<le> 0x501000 \<and> holds (kmach k4) (unat a) (s @ [0])) addrs ss"
    by (rule list_all2_mono [OF k1(3)]) (use keep1 top0 in \<open>auto simp del: holds_append\<close>)
  have hv: "holds (kmach k4) v ?ws" using keep [OF _ bd(2) k2(3)] by simp
  have h4: "holds (kmach k4) (v - 4) (le32 (of_nat v))" using k4(4) k3(3) bd vb(1) by simp
  have eqs: "of_nat (v - 8) + 4 = (of_nat (v - 4) :: u32)" "of_nat (v - 8) + 8 = (of_nat v :: u32)"
    using vb(1) by (simp_all add: of_nat_diff)
  have arr: "(of_nat ?top AND NOT 3) - of_nat (length offs + 1) * 4 = (of_nat v :: u32)"
  proof -
    have "unat (of_nat ?top :: u32) = ?top" by (rule unat_of_nat_u32) simp
    then have "of_nat (unat (of_nat ?top AND NOT 3 :: u32)) = (of_nat (?top div 4 * 4) :: u32)" by (simp only: align4)
    moreover have "of_nat (unat y) = y" for y :: u32 by simp
    ultimately have "(of_nat ?top AND NOT 3 :: u32) = of_nat (?top div 4 * 4)" by metis
    also have "\<dots> = of_nat v + of_nat (length offs + 1) * 4" unfolding vb(2) [symmetric] len by simp
    finally show ?thesis by (simp only: add_diff_cancel_right')
  qed
  have s4: "of_nat v - 4 = (of_nat (v - 4) :: u32)" "of_nat v - 8 = (of_nat (v - 8) :: u32)" using vb(1) by (simp_all add: of_nat_diff)
  have "exec_stack offs buf k = Some (of_nat (v - 8), k4)"
    by (simp only: exec_stack_def write_words_bytes user_write32_def Let_def k1(1) Option.bind.simps prod.case len arr [unfolded len] k2(1) s4 k3(1) k4(1))
  moreover have "unat (of_nat (v - 8) :: u32) = v - 8" using bd(2) by (intro unat_of_nat_u32) linarith
  moreover have "(v - 8) mod 4 = 0" using vb(1,3) by presburger
  ultimately show ?thesis
    using k4(2) holds_word [OF k4(3)] holds_word [OF h4] holds_args [OF hv assms(2) strs] eqs bd(5)
    by (intro exI [of _ "of_nat (v - 8)"] exI [of _ k4]) simp
qed

section \<open>Execve\<close>

text \<open>
  C6: the arguments of \<^verbatim>\<open>execve\<close> survive the change of address space. If the caller's vector holds at
  most 16 strings of at most 1023 bytes in all, terminators included, they are copied out whatever
  the buffer held before, and the stack that is built from the copy in the new space, at an aligned
  address inside the stack page, holds their number, the address of a vector, and in that vector
  the same strings again.
\<close>

theorem execve_arguments:
  assumes "args_at m v ss" "length ss \<le> 16" "total ss \<le> 1023" "length buf = 1024" "stack_ok (kmach k)"
  shows "\<exists>offs buf' sp k'. copy_args 16 v [] 0 buf m = Some (Inr (offs, buf')) \<and> exec_stack offs buf' k = Some (sp, k') \<and>
    0x500000 \<le> unat sp \<and> unat sp mod 4 = 0 \<and> user_read32 sp (kmach k') = Some (of_nat (length ss)) \<and>
    user_read32 (sp + 4) (kmach k') = Some (sp + 8) \<and> args_at (kmach k') (sp + 8) ss"
proof -
  obtain offs buf' where c: "copy_args 16 v [] 0 buf m = Some (Inr (offs, buf'))" "packed 0 ss offs buf'"
    using copy_args_spec [OF assms(1,2) _ assms(4), of 0 "[]"] assms(3) by auto
  have z: "\<forall>s \<in> set ss. 0 \<notin> set s" by (rule args_at_nonzero [OF assms(1)])
  show ?thesis
    using c(1) exec_stack_spec [OF packed_strings [OF c(2) z] z assms(5,2)] assms(3) by fastforce
qed

theorem execve_arguments_witness:
  "\<exists>offs buf' sp k'. copy_args 16 0x500000 [] 0 (replicate 1024 0xFF) (kmach user_kernel) = Some (Inr (offs, buf')) \<and>
     exec_stack offs buf' user_kernel = Some (sp, k') \<and> user_read32 sp (kmach k') = Some 0"
proof -
  have km: "kmach user_kernel = user_machine" by (simp add: user_kernel_vfs)
  have "vread8 w user_machine = Some 0 \<and> translate user_machine w \<noteq> None" if "0x500000 \<le> unat w \<and> unat w < 0x501000" for w
  proof -
    have "unat w div 4096 = 1280" using that by linarith
    then show ?thesis using user_machine_ok(2) [of w] by simp
  qed
  then have ok: "stack_ok (kmach user_kernel)"
    and "vread8 0x500000 user_machine = Some 0" "vread8 0x500001 user_machine = Some 0"
      "vread8 0x500002 user_machine = Some 0" "vread8 0x500003 user_machine = Some 0"
    using user_machine_ok(1) km by (simp_all add: stack_ok_def)
  then have "vread_bytes 0x500000 (Suc (Suc (Suc (Suc 0)))) (kmach user_kernel) = Some [0, 0, 0, 0]" by (simp add: km)
  moreover have "Suc (Suc (Suc (Suc 0))) = 4" by simp
  ultimately have "vread_bytes 0x500000 4 (kmach user_kernel) = Some [0, 0, 0, 0]" by (simp only:)
  then have "args_at (kmach user_kernel) 0x500000 []" by (simp add: user_read32_def un_le32_def)
  from execve_arguments [OF this _ _ _ ok, of "replicate 1024 0xFF"] show ?thesis by auto
qed

section \<open>A full buffer\<close>

text \<open>
  When the strings fill the buffer, the last one has no terminator in it: its copy stops short,
  and the search for its end runs into whatever the buffer held, or past it.
\<close>

lemma copy_arg_fills:
  assumes "\<forall>i < room. vread8 (p + of_nat i) m \<noteq> None \<and> vread8 (p + of_nat i) m \<noteq> Some 0" "n + room < length buf"
  shows "\<exists>cs. copy_arg room p n buf m = Some (n + room, take n buf @ cs @ drop (n + room) buf) \<and> length cs = room \<and> 0 \<notin> set cs"
  using assms
proof (induction room arbitrary: p n buf)
  case (Suc room)
  obtain c where c: "vread8 p m = Some c" "c \<noteq> 0"
    using Suc.prems(1) [rule_format, of 0] by (cases "vread8 p m") auto
  have "\<forall>i < room. vread8 (p + 1 + of_nat i) m \<noteq> None \<and> vread8 (p + 1 + of_nat i) m \<noteq> Some 0"
  proof (intro allI impI)
    fix i
    assume "i < room"
    then show "vread8 (p + 1 + of_nat i) m \<noteq> None \<and> vread8 (p + 1 + of_nat i) m \<noteq> Some 0"
      using Suc.prems(1) [rule_format, of "Suc i"] by (simp add: add.assoc)
  qed
  then obtain cs where cs: "copy_arg room (p + 1) (n + 1) (buf[n := c]) m =
      Some (n + 1 + room, take (n + 1) (buf[n := c]) @ cs @ drop (n + 1 + room) (buf[n := c]))" "length cs = room" "0 \<notin> set cs"
    using Suc.IH [of "p + 1" "n + 1" "buf[n := c]"] Suc.prems(2) by auto
  have "take (n + 1) (buf[n := c]) = take n buf @ [c]" using Suc.prems(2) by (simp add: take_Suc_conv_app_nth)
  then show ?case using c cs by (intro exI [of _ "c # cs"]) simp
qed simp

lemma exec_argument_unterminated:
  assumes "\<forall>i < 1023. vread8 (p + of_nat i) m \<noteq> None \<and> vread8 (p + of_nat i) m \<noteq> Some 0" "length buf = 1024" "buf ! 1023 \<noteq> 0"
  shows "\<exists>n buf'. copy_arg 1023 p 0 buf m = Some (n, buf') \<and> arg_string buf' 0 = None"
proof -
  obtain cs where cs: "copy_arg 1023 p 0 buf m = Some (1023, cs @ drop 1023 buf)" "length cs = 1023" "0 \<notin> set cs"
    using copy_arg_fills [OF assms(1), of 0 buf] assms(2) by auto
  have "drop 1023 buf = [buf ! 1023]" using assms(2) by (simp add: Cons_nth_drop_Suc [symmetric])
  then show ?thesis using cs assms(3) by (auto simp: arg_string_def)
qed

end
