(* ===== verification/Checksum.thy ===== *)
theory Checksum
  imports Pumps_Prelude
begin

text \<open>
  Byte order and the Internet checksum (\<^verbatim>\<open>kernel/kernel/net.c\<close>). The reference for the checksum is
  the sum of the big-endian 16-bit words as a natural number, modulo 65535.
\<close>

section \<open>Byte order\<close>

definition htons :: "u16 \<Rightarrow> u16" where
  "htons v = push_bit 8 v OR drop_bit 8 v"

definition htonl :: "u32 \<Rightarrow> u32" where
  "htonl v = push_bit 24 (v AND 0x000000FF) OR push_bit 8 (v AND 0x0000FF00) OR
     drop_bit 8 (v AND 0x00FF0000) OR drop_bit 24 (v AND 0xFF000000)"

text \<open>Fields of packed structures in memory.\<close>

definition get16n :: "u8 list \<Rightarrow> nat \<Rightarrow> u16" where
  "get16n bs i = htons (un_le16 (slice i 2 bs))"

definition get32n :: "u8 list \<Rightarrow> nat \<Rightarrow> u32" where
  "get32n bs i = htonl (un_le32 (slice i 4 bs))"

definition put16n :: "u16 \<Rightarrow> u8 list" where
  "put16n v = le16 (htons v)"

definition put32n :: "u32 \<Rightarrow> u8 list" where
  "put32n v = le32 (htonl v)"

section \<open>Checksum\<close>

fun sum_words :: "u8 list \<Rightarrow> u32 \<Rightarrow> u32" where
  "sum_words [] acc = acc"
| "sum_words [a] acc = acc + push_bit 8 (ucast a)"
| "sum_words (a # b # bs) acc = sum_words bs (acc + (push_bit 8 (ucast a) OR ucast b))"

lemma unat_fold_step:
  fixes s :: u32
  shows "unat ((s AND 0xFFFF) + drop_bit 16 s) = unat s mod 65536 + unat s div 65536"
proof -
  have m: "s AND 0xFFFF = take_bit 16 s" by (simp add: take_bit_eq_mask mask_eq_exp_minus_1)
  have "unat (take_bit 16 s) = unat s mod 65536" "unat (drop_bit 16 s) = unat s div 65536"
    by (simp_all add: unsigned_take_bit_eq unsigned_drop_bit_eq take_bit_eq_mod drop_bit_eq_div)
  moreover have "unat s mod 65536 < 65536" "unat s div 65536 < 65536" using unat_u32_bound [of s] by simp_all
  ultimately show ?thesis unfolding m by (subst unat_add_u32) auto
qed

lemma drop_bit_16_zero_iff: "drop_bit 16 (s :: u32) = 0 \<longleftrightarrow> unat s < 65536"
proof -
  have "drop_bit 16 s = 0 \<longleftrightarrow> unat (drop_bit 16 s) = 0" by (simp only: unat_eq_zero)
  also have "unat (drop_bit 16 s) = unat s div 65536" by (simp add: unsigned_drop_bit_eq drop_bit_eq_div)
  finally show ?thesis by (simp add: div_eq_0_iff)
qed

lemma fold_less: "drop_bit 16 (s :: u32) \<noteq> 0 \<Longrightarrow> unat ((s AND 0xFFFF) + drop_bit 16 s) < unat s"
proof -
  assume "drop_bit 16 s \<noteq> 0"
  then have "0 < unat s div 65536" unfolding drop_bit_16_zero_iff by (simp add: div_greater_zero_iff)
  then show ?thesis using div_mult_mod_eq [of "unat s" 65536] unfolding unat_fold_step by linarith
qed

function fold_carry :: "u32 \<Rightarrow> u32" where
  "fold_carry s = (if drop_bit 16 s \<noteq> 0 then fold_carry ((s AND 0xFFFF) + drop_bit 16 s) else s)"
  by pat_completeness auto

termination
  by (relation "measure unat") (simp_all add: fold_less)

declare fold_carry.simps [simp del]

definition net_checksum :: "u8 list \<Rightarrow> u16" where
  "net_checksum data = htons (ucast (NOT (fold_carry (sum_words data 0))))"

section \<open>The checksum is the ones' complement of the ones' complement sum\<close>

fun word_sum :: "u8 list \<Rightarrow> nat" where
  "word_sum [] = 0"
| "word_sum [a] = 256 * unat a"
| "word_sum (a # b # bs) = 256 * unat a + unat b + word_sum bs"

lemma word_sum_bound: "word_sum bs \<le> 65535 * ((length bs + 1) div 2)"
proof (induction bs rule: word_sum.induct)
  case (2 a) show ?case using unat_u8_bound [of a] by simp
next
  case (3 a b bs) then show ?case using unat_u8_bound [of a] unat_u8_bound [of b] by simp
qed simp

lemma unat_be_pair: "unat (push_bit 8 (ucast (a :: u8)) OR ucast (b :: u8) :: u32) = 256 * unat a + unat b"
proof -
  have "(push_bit 8 (ucast a) OR ucast b :: u32) = push_bit 8 (ucast a) + ucast b"
    by (rule disjunctive_add [symmetric]) (auto simp: bit_simps dest: bit_imp_le_length)
  moreover have "unat (ucast b :: u32) = unat b" using unat_u8_bound [of b] by (simp add: unat_ucast_mod)
  moreover have "unat (push_bit 8 (ucast a) :: u32) = 256 * unat a"
    using unat_u8_bound [of a] by (simp add: push_bit_eq_mult unat_word_ariths unat_ucast_mod)
  ultimately show ?thesis using unat_u8_bound [of a] unat_u8_bound [of b] by (simp add: unat_add_u32)
qed

lemma unat_be_high: "unat (push_bit 8 (ucast (a :: u8)) :: u32) = 256 * unat a"
  using unat_be_pair [of a 0] by simp

lemma unat_sum_words:
  "unat acc + word_sum bs < 4294967296 \<Longrightarrow> unat (sum_words bs acc) = unat acc + word_sum bs"
  by (induction bs acc rule: sum_words.induct) (simp_all add: unat_add_u32 unat_be_pair unat_be_high)

lemma fold_mod: "(x mod 65536 + x div 65536) mod 65535 = x mod 65535" for x :: nat
proof -
  have "x = (x mod 65536 + x div 65536) + 65535 * (x div 65536)" using div_mult_mod_eq [of x 65536] by linarith
  then show ?thesis by (metis mod_mult_self2)
qed

lemma fold_carry_spec:
  "unat (fold_carry s) < 65536 \<and> unat (fold_carry s) mod 65535 = unat s mod 65535 \<and> (fold_carry s = 0 \<longleftrightarrow> s = 0)"
proof (induction s rule: fold_carry.induct)
  case (1 s)
  let ?t = "(s AND 0xFFFF) + drop_bit 16 s"
  show ?case
  proof (cases "drop_bit 16 s = 0")
    case True
    then have "fold_carry s = s" by (subst fold_carry.simps) simp
    then show ?thesis using True drop_bit_16_zero_iff by simp
  next
    case False
    then have "fold_carry s = fold_carry ?t" by (subst fold_carry.simps) simp
    moreover have "unat ?t mod 65535 = unat s mod 65535" unfolding unat_fold_step by (rule fold_mod)
    moreover have "s \<noteq> 0" "?t \<noteq> 0"
      using False unat_fold_step [of s] unfolding drop_bit_16_zero_iff by (auto simp flip: unat_eq_zero)
    ultimately show ?thesis using 1 [OF False] by simp
  qed
qed

lemma put16n_bytes: "put16n v = [ucast (drop_bit 8 v), ucast v]"
  unfolding put16n_def le16_def htons_def
  by (auto intro!: bit_word_eqI simp: bit_simps dest: bit_imp_le_length)

lemma get16n_put16n [simp]: "un_le16 (put16n v) = htons v"
  by (simp add: put16n_def)

lemma htons_htons [simp]: "htons (htons v) = v"
  unfolding htons_def by (rule bit_word_eqI) (auto simp: bit_simps dest: bit_imp_le_length)

lemma htonl_masks:
  "htonl v = push_bit 24 (v AND mask 8) OR push_bit 8 (v AND push_bit 8 (mask 8)) OR
     drop_bit 8 (v AND push_bit 16 (mask 8)) OR drop_bit 24 (v AND push_bit 24 (mask 8))"
  by (simp add: htonl_def mask_eq_exp_minus_1 push_bit_eq_mult)

lemma htonl_htonl [simp]: "htonl (htonl v) = v"
proof (rule bit_word_eqI)
  fix i assume "i < LENGTH(32)"
  then consider "i < 8" | "8 \<le> i" "i < 16" | "16 \<le> i" "i < 24" | "24 \<le> i" "i < 32" by fastforce
  then show "bit (htonl (htonl v)) i = bit v i"
    by cases (auto simp: htonl_masks bit_simps)
qed

lemma length_put16n [simp]: "length (put16n v) = 2" and length_put32n [simp]: "length (put32n w) = 4"
  by (simp_all add: put16n_def put32n_def)

lemma word_sum_append: "even (length xs) \<Longrightarrow> word_sum (xs @ ys) = word_sum xs + word_sum ys"
  by (induction xs rule: word_sum.induct) auto

lemma word_sum_put16n: "word_sum (put16n v) = unat v"
proof -
  have "unat (ucast (drop_bit 8 v) :: u8) = unat v div 256" "unat (ucast v :: u8) = unat v mod 256"
    using unat_u16_bound [of v]
    by (simp_all add: unat_ucast_mod unsigned_drop_bit_eq drop_bit_eq_div)
  then show ?thesis using div_mult_mod_eq [of "unat v" 256] by (simp add: put16n_bytes)
qed

definition checksum_value :: "u8 list \<Rightarrow> u16" where
  "checksum_value bs = ucast (NOT (fold_carry (sum_words bs 0)))"

lemma net_checksum_bytes: "le16 (net_checksum bs) = put16n (checksum_value bs)"
  by (simp add: net_checksum_def checksum_value_def put16n_def)

lemma unat_not_low: "unat f < 65536 \<Longrightarrow> unat (ucast (NOT (f :: u32)) :: u16) = 65535 - unat f"
proof -
  assume f: "unat f < 65536"
  have "unat (NOT f) = 4294967295 - unat f"
  proof -
    have "NOT f = - 1 - f" unfolding not_eq_complement by (rule minus_diff_commute)
    moreover have "unat (- 1 :: u32) = 4294967295" by (simp add: unsigned_minus_1_eq_mask mask_eq_exp_minus_1)
    ultimately show ?thesis using unat_sub_u32 [of f "- 1"] unat_u32_bound [of f] by simp
  qed
  then have "unat (ucast (NOT f) :: u16) = (4294967295 - unat f) mod 65536" by (simp add: unat_ucast_mod)
  also have "4294967295 - unat f = (65535 - unat f) + 65535 * 65536" using f by simp
  also have "\<dots> mod 65536 = 65535 - unat f" by (rule add_mult_mod) simp
  finally show ?thesis .
qed

lemma unat_checksum_value:
  assumes "length bs \<le> 65535"
  shows "unat (checksum_value bs) \<le> 65535" "(unat (checksum_value bs) + word_sum bs) mod 65535 = 0"
    "unat (checksum_value bs) + word_sum bs > 0"
proof -
  let ?f = "fold_carry (sum_words bs 0)"
  have w: "word_sum bs < 4294967296" using word_sum_bound [of bs] assms by linarith
  then have s: "unat (sum_words bs 0) = word_sum bs" using unat_sum_words [of 0 bs] by simp
  have f: "unat ?f < 65536" "unat ?f mod 65535 = word_sum bs mod 65535" "?f = 0 \<longleftrightarrow> sum_words bs 0 = 0"
    using fold_carry_spec [of "sum_words bs 0"] s by simp_all
  have v: "unat (checksum_value bs) = 65535 - unat ?f" unfolding checksum_value_def by (rule unat_not_low [OF f(1)])
  then show "unat (checksum_value bs) \<le> 65535" by simp
  have "(unat (checksum_value bs) + word_sum bs) mod 65535 = (unat (checksum_value bs) + unat ?f) mod 65535"
    using f(2) by (metis mod_add_right_eq)
  then show "(unat (checksum_value bs) + word_sum bs) mod 65535 = 0" using v f(1) by simp
  show "unat (checksum_value bs) + word_sum bs > 0"
  proof (cases "word_sum bs = 0")
    case True
    then have "?f = 0" using f(3) s by (simp add: unat_eq_zero)
    then show ?thesis using v by simp
  qed simp
qed

lemma checksum_value_zero:
  assumes "length bs \<le> 65535" "word_sum bs mod 65535 = 0" "0 < word_sum bs"
  shows "checksum_value bs = 0"
proof -
  have "unat (checksum_value bs) mod 65535 = 0"
    using unat_checksum_value(2) [OF assms(1)] assms(2) by (metis add.right_neutral mod_add_right_eq)
  moreover have "unat (checksum_value bs) < 65535"
  proof -
    let ?f = "fold_carry (sum_words bs 0)"
    have "word_sum bs < 4294967296" using word_sum_bound [of bs] assms(1) by linarith
    then have "sum_words bs 0 \<noteq> 0" using unat_sum_words [of 0 bs] assms(3) by (auto simp flip: unat_eq_zero)
    then have "?f \<noteq> 0" "unat ?f < 65536" using fold_carry_spec by blast+
    then show ?thesis unfolding checksum_value_def by (subst unat_not_low) (simp_all add: unat_gt_0)
  qed
  ultimately show ?thesis by (simp add: unat_eq_zero)
qed

lemma word_sum_splice:
  assumes "even k" "k + 2 \<le> length bs" "slice k 2 bs = [0, 0]"
  shows "word_sum (splice bs k (put16n v)) = word_sum bs + unat v"
proof -
  have "bs = take k bs @ slice k 2 bs @ drop (k + 2) bs"
    by (metis append_take_drop_id drop_drop slice_def add.commute)
  then have "word_sum bs = word_sum (take k bs @ [0, 0] @ drop (k + 2) bs)" using assms(3) by simp
  also have "\<dots> = word_sum (take k bs) + word_sum (drop (k + 2) bs)"
    using assms(1,2) by (subst word_sum_append) simp_all
  finally have "word_sum bs = word_sum (take k bs) + word_sum (drop (k + 2) bs)" .
  moreover have "word_sum (splice bs k (put16n v)) = word_sum (take k bs) + (unat v + word_sum (drop (k + 2) bs))"
    unfolding splice_def using assms(1,2) by (simp add: word_sum_append word_sum_put16n)
  ultimately show ?thesis by simp
qed

lemma net_checksum_stored:
  assumes "even k" "k + 2 \<le> length bs" "slice k 2 bs = [0, 0]" "length bs \<le> 65535"
  shows "net_checksum (splice bs k (le16 (net_checksum bs))) = 0"
proof -
  let ?p = "splice bs k (put16n (checksum_value bs))"
  have len: "length ?p \<le> 65535" using assms(2,4) by simp
  have "word_sum ?p = unat (checksum_value bs) + word_sum bs"
    using word_sum_splice [OF assms(1-3)] by simp
  then have "checksum_value ?p = 0"
    using unat_checksum_value(2,3) [OF assms(4)] checksum_value_zero [OF len] by simp
  then show ?thesis by (simp add: net_checksum_bytes) (simp add: net_checksum_def checksum_value_def htons_def)
qed

lemma get32n_drop: "get32n (drop k xs) i = get32n xs (k + i)" and get16n_drop: "get16n (drop k xs) i = get16n xs (k + i)"
  by (simp_all add: get32n_def get16n_def slice_def add.commute)

lemma get32n_append: "i + 4 \<le> length xs \<Longrightarrow> get32n (xs @ ys) i = get32n xs i"
  and get16n_append: "i + 2 \<le> length xs \<Longrightarrow> get16n (xs @ ys) i = get16n xs i"
  by (simp_all add: get32n_def get16n_def slice_def)

text \<open>
  Storing the checksum of a packet in its zeroed checksum field, at an even offset, makes the
  packet sum up: the checksum of the finished packet is 0, which is what a receiver verifies.
\<close>

theorem net_checksum_verifies:
  assumes "even k" "k + 2 \<le> length bs" "slice k 2 bs = [0, 0]" "length bs \<le> 65535"
  shows "net_checksum (splice bs k (le16 (net_checksum bs))) = 0"
  using assms by (rule net_checksum_stored)

theorem net_checksum_verifies_witness:
  "net_checksum (splice [8, 0, 0, 0, 0x12, 0x34, 0] 2 (le16 (net_checksum [8, 0, 0, 0, 0x12, 0x34, 0]))) = 0"
  by (rule net_checksum_verifies) (simp_all add: slice_def)

end
