(* ===== verification/E1000.thy ===== *)
theory E1000
  imports Fifo Vmm_Space
begin

text \<open>
  The driver of the Intel network card (\<^verbatim>\<open>arch/i386/e1000.c\<close>): the queue of received frames that
  the interrupt handler fills and \<^verbatim>\<open>net_poll\<close> drains, transmission, and the set-up of the
  descriptor rings. What the card does is part of the state: the status bytes and lengths of
  the receive descriptors and the contents of their buffers, the frames handed to it
  (\<open>wire\<close>), and whether it reports a transmission as done (\<open>tx_alive\<close>).
\<close>

section \<open>State\<close>

record rx_desc =
  rx_length :: u16
  rx_status :: u8
  rx_bytes :: "u8 list"

record e1000 =
  mac :: "u8 list"
  tx_ready :: bool
  tx_alive :: bool
  tdt :: nat
  wire :: "u8 list list"
  rx_ring :: "rx_desc list"
  rx_cur :: nat
  rdt :: nat
  netq :: "nat \<Rightarrow> u8 list"
  netq_head :: nat
  netq_tail :: nat
  netq_dropped :: u32
  rx_irq_count :: u32
  rx_frame_count :: u32

abbreviation (input) E1000_FRAME_MAX :: nat where "E1000_FRAME_MAX \<equiv> 1518"
abbreviation (input) NETQ_SIZE :: nat where "NETQ_SIZE \<equiv> 8"
abbreviation (input) TX_DESC_COUNT :: nat where "TX_DESC_COUNT \<equiv> 8"
abbreviation (input) RX_DESC_COUNT :: nat where "RX_DESC_COUNT \<equiv> 16"
abbreviation (input) TX_BUF_SIZE :: nat where "TX_BUF_SIZE \<equiv> 2048"

section \<open>The frame queue\<close>

text \<open>An entry of \<^verbatim>\<open>netq\<close> is its first \<^verbatim>\<open>netq_len\<close> bytes: \<^verbatim>\<open>e1000_poll_frame\<close> copies no others.\<close>

definition netq_push :: "u8 list \<Rightarrow> nat \<Rightarrow> e1000 \<Rightarrow> e1000" where
  "netq_push data len e =
     (let nxt = (netq_tail e + 1) mod NETQ_SIZE in
      if nxt = netq_head e then e\<lparr>netq_dropped := netq_dropped e + 1\<rparr>
      else let len = (if len > E1000_FRAME_MAX then E1000_FRAME_MAX else len)
           in e\<lparr>netq := (netq e)(netq_tail e := take len data), netq_tail := nxt\<rparr>)"

definition e1000_poll_frame :: "e1000 \<Rightarrow> u8 list option \<times> e1000" where
  "e1000_poll_frame e =
     (if netq_head e = netq_tail e then (None, e)
      else (Some (netq e (netq_head e)), e\<lparr>netq_head := (netq_head e + 1) mod NETQ_SIZE\<rparr>))"

section \<open>Receiving\<close>

text \<open>
  The loop drains descriptors while their status is not zero (the source has \<^verbatim>\<open>&&\<close> where the
  mask \<^verbatim>\<open>RXD_STAT_DD\<close> was meant).
\<close>

definition receive_one :: "e1000 \<Rightarrow> e1000" where
  "receive_one e =
     (let d = rx_ring e ! rx_cur e;
          e = netq_push (rx_bytes d) (unat (rx_length d)) e
      in e\<lparr>rx_ring := (rx_ring e)[rx_cur e := d\<lparr>rx_status := 0\<rparr>], rdt := rx_cur e,
           rx_cur := (rx_cur e + 1) mod RX_DESC_COUNT, rx_frame_count := rx_frame_count e + 1\<rparr>)"

definition pending :: "e1000 \<Rightarrow> nat" where
  "pending e = length (filter (\<lambda>d. rx_status d \<noteq> 0) (rx_ring e))"

lemma filter_update_less:
  "i < length xs \<Longrightarrow> P (xs ! i) \<Longrightarrow> \<not> P y \<Longrightarrow> length (filter P (xs[i := y])) < length (filter P xs)"
proof (induction xs arbitrary: i)
  case (Cons x xs)
  then show ?case by (cases i) auto
qed simp

lemma netq_push_frame [simp]:
  "rx_ring (netq_push d n e) = rx_ring e" "rx_cur (netq_push d n e) = rx_cur e" "netq_head (netq_push d n e) = netq_head e"
  "rx_frame_count (netq_push d n e) = rx_frame_count e" "wire (netq_push d n e) = wire e"
  by (simp_all add: netq_push_def Let_def)

lemma receive_one_pending:
  "rx_cur e < length (rx_ring e) \<Longrightarrow> rx_status (rx_ring e ! rx_cur e) \<noteq> 0 \<Longrightarrow> pending (receive_one e) < pending e"
  by (simp add: pending_def receive_one_def Let_def filter_update_less)

function e1000_receive :: "e1000 \<Rightarrow> e1000" where
  "e1000_receive e =
     (if rx_cur e < length (rx_ring e) \<and> rx_status (rx_ring e ! rx_cur e) \<noteq> 0
      then e1000_receive (receive_one e) else e)"
  by pat_completeness auto

termination
  by (relation "measure pending") (simp_all add: receive_one_pending)

declare e1000_receive.simps [simp del]

abbreviation (input) ICR_RX :: u32 where "ICR_RX \<equiv> 0xD0"

definition e1000_irq_handler :: "u32 \<Rightarrow> e1000 \<Rightarrow> e1000" where
  "e1000_irq_handler icr e =
     (if icr AND ICR_RX \<noteq> 0 then e1000_receive (e\<lparr>rx_irq_count := rx_irq_count e + 1\<rparr>) else e)"

section \<open>Sending\<close>

definition e1000_send :: "u8 list \<Rightarrow> nat \<Rightarrow> e1000 \<Rightarrow> bool \<times> e1000" where
  "e1000_send data len e =
     (if \<not> tx_ready e \<or> len > TX_BUF_SIZE then (False, e)
      else (tx_alive e, e\<lparr>wire := wire e @ [take len data], tdt := (tdt e + 1) mod TX_DESC_COUNT\<rparr>))"

section \<open>Setting up\<close>

text \<open>The successive values that the driver reads from the register \<^verbatim>\<open>EERD\<close> are \<open>reads 0\<close>, \<open>reads 1\<close>, and so on.\<close>

definition e1000_detect_eeprom :: "(nat \<Rightarrow> u32) \<Rightarrow> bool" where
  "e1000_detect_eeprom reads = (\<exists>i \<in> {..<1000}. reads i AND 0x10 \<noteq> 0)"

fun eeprom_wait :: "nat \<Rightarrow> (nat \<Rightarrow> u32) \<Rightarrow> nat \<Rightarrow> u32" where
  "eeprom_wait 0 reads i = reads i"
| "eeprom_wait (Suc timeout) reads i =
     (if reads i AND 0x10 = 0 \<and> timeout \<noteq> 0 then eeprom_wait timeout reads (i + 1) else reads i)"

definition eeprom_read :: "(nat \<Rightarrow> u32) \<Rightarrow> u16" where
  "eeprom_read reads = ucast (drop_bit 16 (eeprom_wait 100000 reads 0))"

definition e1000_read_mac :: "u16 list option \<Rightarrow> u32 \<Rightarrow> u32 \<Rightarrow> u8 list" where
  "e1000_read_mac eeprom ral rah =
     (case eeprom of
        Some ws \<Rightarrow> concat (map (\<lambda>w. [ucast (w AND 0xFF), ucast (drop_bit 8 w)]) (take 3 ws))
      | None \<Rightarrow> [ucast (ral AND 0xFF), ucast (drop_bit 8 ral AND 0xFF), ucast (drop_bit 16 ral AND 0xFF),
          ucast (drop_bit 24 ral AND 0xFF), ucast (rah AND 0xFF), ucast (drop_bit 8 rah AND 0xFF)])"

text \<open>One zeroed page for the card and the driver: the virtual address and the physical one (0 on failure).\<close>

definition alloc_dma_page :: "u32 \<Rightarrow> machine \<Rightarrow> (u32 \<times> u32 \<times> machine) option" where
  "alloc_dma_page virt m =
     (case pmm_alloc_page (pmm_state m) of (p, phys) \<Rightarrow>
        let m = m\<lparr>pmm_state := p\<rparr> in
        if phys = 0 then Some (0, virt, m)
        else do {
          (ok, m) \<leftarrow> vmm_map_page virt phys (PTE_PRESENT OR PTE_WRITABLE) m;
          if \<not> ok then Some (0, virt, free_frame phys m)
          else do { m \<leftarrow> vzero_page virt m; Some (phys, virt + PAGE_SIZE, m) } })"

text \<open>The buffers of a ring, two to a page: for each the address the driver uses and the one the card gets.\<close>

fun dma_buffers :: "nat \<Rightarrow> u32 \<Rightarrow> machine \<Rightarrow> ((u32 \<times> u32) list option \<times> u32 \<times> machine) option" where
  "dma_buffers 0 virt m = Some (Some [], virt, m)"
| "dma_buffers (Suc n) virt m =
     do {
       (phys, virt', m) \<leftarrow> alloc_dma_page virt m;
       if phys = 0 then Some (None, virt', m)
       else do {
         (bufs, virt'', m) \<leftarrow> dma_buffers n virt' m;
         Some (map_option (\<lambda>bs. (virt, phys) # (virt + 2048, phys + 2048) # bs) bufs, virt'', m) } }"

definition e1000_setup_tx :: "u32 \<Rightarrow> machine \<Rightarrow> ((u32 \<times> (u32 \<times> u32) list) option \<times> u32 \<times> machine) option" where
  "e1000_setup_tx virt m =
     do {
       (ring_phys, virt, m) \<leftarrow> alloc_dma_page virt m;
       if ring_phys = 0 then Some (None, virt, m)
       else do {
         (bufs, virt, m) \<leftarrow> dma_buffers (TX_DESC_COUNT div 2) virt m;
         Some (map_option (Pair ring_phys) bufs, virt, m) } }"

definition e1000_setup_rx :: "u32 \<Rightarrow> machine \<Rightarrow> ((u32 \<times> (u32 \<times> u32) list) option \<times> u32 \<times> machine) option" where
  "e1000_setup_rx virt m =
     do {
       (ring_phys, virt, m) \<leftarrow> alloc_dma_page virt m;
       if ring_phys = 0 then Some (None, virt, m)
       else do {
         (bufs, virt, m) \<leftarrow> dma_buffers (RX_DESC_COUNT div 2) virt m;
         Some (map_option (Pair ring_phys) bufs, virt, m) } }"

section \<open>The queue is a bounded FIFO\<close>

definition netq_inv :: "e1000 \<Rightarrow> bool" where
  "netq_inv e \<longleftrightarrow> netq_head e < 8 \<and> netq_tail e < 8"

definition netq_frames :: "e1000 \<Rightarrow> u8 list list" where
  "netq_frames e = ring_list 8 (netq e) (netq_head e) (netq_tail e)"

definition push_frame :: "u8 list \<Rightarrow> e1000 \<Rightarrow> e1000" where
  "push_frame f e = netq_push f (length f) e"

definition pop_frame :: "e1000 \<Rightarrow> u8 list \<times> e1000" where
  "pop_frame e = (case e1000_poll_frame e of (r, e) \<Rightarrow> (the r, e))"

interpretation netq: bounded_fifo push_frame pop_frame netq_frames netq_inv "\<lambda>f. length f \<le> 1518" 7
proof unfold_locales
  fix e and f :: "u8 list"
  assume inv: "netq_inv e"
  then have b: "netq_head e < 8" "netq_tail e < 8" by (simp_all add: netq_inv_def)
  show "length (netq_frames e) \<le> 7" using ring_count_lt [OF b] by (simp add: netq_frames_def)
  show "netq_inv (push_frame f e)" if "length f \<le> 1518" using inv by (simp add: netq_inv_def push_frame_def netq_push_def Let_def)
  show "netq_frames (push_frame f e) = (if length (netq_frames e) < 7 then netq_frames e @ [f] else netq_frames e)"
    if "length f \<le> 1518"
    using that ring_push [OF b, of "netq e" f] ring_full_iff [OF b] ring_count_lt [OF b]
    by (auto simp: push_frame_def netq_push_def netq_frames_def Let_def)
  assume ne: "netq_frames e \<noteq> []"
  then have d: "netq_head e \<noteq> netq_tail e" using ring_empty_iff [OF b, of "netq e"] by (simp add: netq_frames_def)
  then show "netq_inv (snd (pop_frame e))" using inv by (auto simp: netq_inv_def pop_frame_def e1000_poll_frame_def)
  show "netq_frames e = fst (pop_frame e) # netq_frames (snd (pop_frame e))"
    using d ring_pop [OF b d] by (simp add: pop_frame_def e1000_poll_frame_def netq_frames_def)
qed

section \<open>Receiving keeps the order\<close>

definition rx_frame :: "rx_desc \<Rightarrow> u8 list" where
  "rx_frame d = take (min 1518 (unat (rx_length d))) (rx_bytes d)"

lemma receive_one_frames:
  assumes "netq_inv e"
  shows "netq_inv (receive_one e)"
    "netq_frames (receive_one e) = netq_frames e @ take (7 - length (netq_frames e)) [rx_frame (rx_ring e ! rx_cur e)]"
proof -
  let ?d = "rx_ring e ! rx_cur e"
  have b: "netq_head e < 8" "netq_tail e < 8" using assms by (simp_all add: netq_inv_def)
  have f: "netq_push (rx_bytes ?d) (unat (rx_length ?d)) e =
      (if (netq_tail e + 1) mod 8 = netq_head e then e\<lparr>netq_dropped := netq_dropped e + 1\<rparr>
       else e\<lparr>netq := (netq e)(netq_tail e := rx_frame ?d), netq_tail := (netq_tail e + 1) mod 8\<rparr>)"
    by (simp add: netq_push_def Let_def rx_frame_def min_def)
  show "netq_inv (receive_one e)" using assms by (simp add: receive_one_def Let_def f netq_inv_def)
  have fc: "(netq_tail e + 1) mod 8 = netq_head e \<longleftrightarrow> length (netq_frames e) = 7"
    using ring_full_iff [OF b] by (simp add: netq_frames_def)
  have "length (netq_frames e) \<le> 7" using ring_count_lt [OF b] by (simp add: netq_frames_def)
  then show "netq_frames (receive_one e) = netq_frames e @ take (7 - length (netq_frames e)) [rx_frame ?d]"
    using fc ring_push [OF b, of "netq e" "rx_frame ?d"]
    by (cases "(netq_tail e + 1) mod 8 = netq_head e") (simp_all add: receive_one_def Let_def f netq_frames_def take_Cons')
qed

lemma take_step:
  assumes "length q \<le> n" "q1 = q @ take (n - length q) [x]" "qs = q1 @ take (n - length q1) xs"
  shows "qs = q @ take (n - length q) (x # xs)"
  using assms by (cases "length q = n") (auto simp: take_Cons')

lemma e1000_receive_spec:
  assumes "netq_inv e" "length (rx_ring e) = 16" "rx_cur e < 16"
  shows "\<exists>n. n \<le> 16 \<and> (\<forall>j < n. rx_status (rx_ring e ! ((rx_cur e + j) mod 16)) \<noteq> 0) \<and>
    netq_inv (e1000_receive e) \<and> rx_cur (e1000_receive e) = (rx_cur e + n) mod 16 \<and>
    rx_status (rx_ring (e1000_receive e) ! rx_cur (e1000_receive e)) = 0 \<and>
    netq_frames (e1000_receive e) = netq_frames e @ take (7 - length (netq_frames e))
      (map (\<lambda>j. rx_frame (rx_ring e ! ((rx_cur e + j) mod 16))) [0..<n])"
  using assms
proof (induction e rule: e1000_receive.induct)
  case (1 e)
  show ?case
  proof (cases "rx_status (rx_ring e ! rx_cur e) = 0")
    case True
    then have "e1000_receive e = e" by (subst e1000_receive.simps) simp
    then show ?thesis using True 1(2,4) by (intro exI [of _ 0]) simp
  next
    case False
    let ?c = "rx_cur e" and ?e = "receive_one e"
    have rec: "e1000_receive e = e1000_receive ?e" using False 1(3,4) by (subst e1000_receive.simps) simp
    have r: "rx_cur ?e = (?c + 1) mod 16" "length (rx_ring ?e) = 16"
      "rx_ring ?e = (rx_ring e)[?c := (rx_ring e ! ?c)\<lparr>rx_status := 0\<rparr>]"
      using 1(3) by (simp_all add: receive_one_def Let_def)
    obtain n where n: "n \<le> 16" "\<forall>j < n. rx_status (rx_ring ?e ! ((rx_cur ?e + j) mod 16)) \<noteq> 0" "netq_inv (e1000_receive ?e)"
      "rx_cur (e1000_receive ?e) = (rx_cur ?e + n) mod 16" "rx_status (rx_ring (e1000_receive ?e) ! rx_cur (e1000_receive ?e)) = 0"
      "netq_frames (e1000_receive ?e) = netq_frames ?e @ take (7 - length (netq_frames ?e))
        (map (\<lambda>j. rx_frame (rx_ring ?e ! ((rx_cur ?e + j) mod 16))) [0..<n])"
      using 1(1) receive_one_frames(1) [OF 1(2)] False 1(3,4) r(1,2) by auto
    have idx: "(rx_cur ?e + j) mod 16 = (?c + Suc j) mod 16" for j using r(1) by (simp add: mod_simps)
    have other: "rx_ring ?e ! ((?c + Suc j) mod 16) = rx_ring e ! ((?c + Suc j) mod 16)" "(?c + Suc j) mod 16 \<noteq> ?c" if "j < n" for j
    proof -
      have "rx_status (rx_ring ?e ! ((?c + Suc j) mod 16)) \<noteq> 0" using n(2) that idx by simp
      moreover have "rx_status (rx_ring ?e ! ?c) = 0" using r(3) 1(3,4) by simp
      ultimately show "(?c + Suc j) mod 16 \<noteq> ?c" by metis
      then show "rx_ring ?e ! ((?c + Suc j) mod 16) = rx_ring e ! ((?c + Suc j) mod 16)" using r(3) by simp
    qed
    have "n \<le> 15"
    proof (rule ccontr)
      assume "\<not> n \<le> 15"
      then have "(?c + Suc 15) mod 16 \<noteq> ?c" using other(2) [of 15] by simp
      then show False using 1(4) by simp
    qed
    have st: "\<forall>j < Suc n. rx_status (rx_ring e ! ((?c + j) mod 16)) \<noteq> 0"
    proof (intro allI impI)
      fix j
      assume "j < Suc n"
      then show "rx_status (rx_ring e ! ((?c + j) mod 16)) \<noteq> 0"
        using n(2) other idx False 1(4) by (cases j) auto
    qed
    have m1: "map (\<lambda>j. rx_frame (rx_ring ?e ! ((rx_cur ?e + j) mod 16))) [0..<n] =
        map (\<lambda>j. rx_frame (rx_ring e ! ((?c + Suc j) mod 16))) [0..<n]"
      using other idx by simp
    have m2: "map (\<lambda>j. rx_frame (rx_ring e ! ((?c + j) mod 16))) [0..<Suc n] =
        rx_frame (rx_ring e ! ?c) # map (\<lambda>j. rx_frame (rx_ring e ! ((?c + Suc j) mod 16))) [0..<n]"
      using 1(4) by (simp add: map_upt_Suc del: upt_Suc)
    have "netq_frames (e1000_receive e) = netq_frames e @ take (7 - length (netq_frames e))
        (map (\<lambda>j. rx_frame (rx_ring e ! ((?c + j) mod 16))) [0..<Suc n])"
      unfolding rec m2 by (rule take_step [OF netq.bounded [OF 1(2)] receive_one_frames(2) [OF 1(2)] n(6) [unfolded m1]])
    then show ?thesis
      using st n(3-5) rec r(1) \<open>n \<le> 15\<close> by (intro exI [of _ "Suc n"]) (simp add: mod_simps)
  qed
qed

text \<open>
  The receive interrupt drains the descriptors that the card has filled, in ring order and at
  most once each, up to the first empty one. The frames, cut to 1518 bytes, follow what is queued,
  in the order in which they arrived, as far as the seven slots of the queue reach.
\<close>

theorem e1000_receive_correct:
  assumes "netq_inv e" "length (rx_ring e) = 16" "rx_cur e < 16"
  shows "\<exists>n \<le> 16. (\<forall>j < n. rx_status (rx_ring e ! ((rx_cur e + j) mod 16)) \<noteq> 0) \<and>
    netq_inv (e1000_receive e) \<and> rx_cur (e1000_receive e) = (rx_cur e + n) mod 16 \<and>
    rx_status (rx_ring (e1000_receive e) ! rx_cur (e1000_receive e)) = 0 \<and>
    netq_frames (e1000_receive e) = netq_frames e @ take (7 - length (netq_frames e))
      (map (\<lambda>j. rx_frame (rx_ring e ! ((rx_cur e + j) mod 16))) [0..<n])"
  using e1000_receive_spec [OF assms] by blast

definition e1000_example :: e1000 where
  "e1000_example = \<lparr>mac = [2, 0, 0, 0, 0, 1], tx_ready = True, tx_alive = True, tdt = 0, wire = [],
     rx_ring = (replicate 16 \<lparr>rx_length = 0, rx_status = 0, rx_bytes = []\<rparr>)[15 := \<lparr>rx_length = 2, rx_status = 1, rx_bytes = [5, 6, 7]\<rparr>],
     rx_cur = 15, rdt = 14, netq = (\<lambda>_. []), netq_head = 0, netq_tail = 0, netq_dropped = 0, rx_irq_count = 0, rx_frame_count = 0\<rparr>"

theorem e1000_receive_correct_witness:
  "netq_inv (e1000_receive e1000_example) \<and> netq_frames (e1000_receive e1000_example) = [[5, 6]]"
proof -
  have "e1000_receive e1000_example = receive_one e1000_example"
    by (subst e1000_receive.simps, subst e1000_receive.simps)
      (simp add: e1000_example_def receive_one_def netq_push_def Let_def)
  moreover have "netq_frames (receive_one e1000_example) = [[5, 6]]"
    by (simp add: e1000_example_def receive_one_def netq_push_def Let_def netq_frames_def ring_list_def ring_count_def)
  moreover have "netq_inv (e1000_receive e1000_example)"
    using e1000_receive_correct [of e1000_example] by (auto simp: e1000_example_def netq_inv_def)
  ultimately show ?thesis by simp
qed

end
