(* ===== verification/Net_Ip.thy ===== *)
theory Net_Ip
  imports Checksum E1000
begin

text \<open>
  The lower half of the network stack (\<^verbatim>\<open>kernel/kernel/net.c\<close>): its state, ARP, and sending of IP,
  ICMP and UDP packets. Packets are byte lists. A packet that was received is the driver's buffer
  from the header on, and an access behind the end of the buffer is \<open>None\<close>. The handlers that are
  registered with the stack are those of \<^verbatim>\<open>kernel/kernel/kernel.c\<close> and the resolver's own; function
  pointers are values of the datatypes below.
\<close>

section \<open>State\<close>

record arp_entry =
  aip :: u32
  amac :: "u8 list"
  avalid :: bool

datatype udp_handler = Dns_on_response | Udp_echo

datatype dns_handler = On_resolved

datatype tcp_recv_handler = Http_on_data

record udp_binding =
  bport :: u16
  bhandler :: udp_handler
  bused :: bool

record dns_query =
  dpending :: bool
  did :: u16
  dqname :: cstr
  dhandler :: "dns_handler option"

datatype tcp_state = TCP_CLOSED | TCP_SYN_SENT | TCP_ESTABLISHED | TCP_FIN_WAIT_1 | TCP_FIN_WAIT_2
  | TCP_TIME_WAIT | TCP_CLOSE_WAIT | TCP_LAST_ACK

record tcb =
  tstate :: tcp_state
  remote_ip :: u32
  remote_port :: u32
  local_port :: u16
  snd_nxt :: u32
  snd_una :: u32
  rcv_nxt :: u32
  on_data :: "tcp_recv_handler option"

text \<open>\<open>shown\<close> is what \<^verbatim>\<open>http_on_data\<close> has printed, \<open>frame_buf\<close> the static buffer of \<^verbatim>\<open>net_poll\<close>.\<close>

record net =
  arp_cache :: "arp_entry list"
  ip_id_counter :: u16
  icmp_sequence :: u16
  udp_bindings :: "udp_binding list"
  query :: dns_query
  dns_next_id :: u16
  conn :: tcb
  nic :: e1000
  frame_buf :: "u8 list"
  shown :: "u8 list"

abbreviation (input) NET_OUR_IP :: u32 where "NET_OUR_IP \<equiv> 0x0A00020F"
abbreviation (input) NET_GATEWAY_IP :: u32 where "NET_GATEWAY_IP \<equiv> 0x0A000202"
abbreviation (input) ETHERTYPE_ARP :: u16 where "ETHERTYPE_ARP \<equiv> 0x0806"
abbreviation (input) ETHERTYPE_IP :: u16 where "ETHERTYPE_IP \<equiv> 0x0800"
abbreviation (input) IP_PROTO_ICMP :: u8 where "IP_PROTO_ICMP \<equiv> 1"
abbreviation (input) IP_PROTO_TCP :: u8 where "IP_PROTO_TCP \<equiv> 6"
abbreviation (input) IP_PROTO_UDP :: u8 where "IP_PROTO_UDP \<equiv> 17"
abbreviation (input) ETH_SIZE :: nat where "ETH_SIZE \<equiv> 14"
abbreviation (input) ARP_SIZE :: nat where "ARP_SIZE \<equiv> 28"
abbreviation (input) IP_SIZE :: nat where "IP_SIZE \<equiv> 20"
abbreviation (input) ICMP_SIZE :: nat where "ICMP_SIZE \<equiv> 8"
abbreviation (input) UDP_SIZE :: nat where "UDP_SIZE \<equiv> 8"
abbreviation (input) ICMP_PAYLOAD_LEN :: nat where "ICMP_PAYLOAD_LEN \<equiv> 32"
abbreviation (input) UDP_MAX_PAYLOAD :: u16 where "UDP_MAX_PAYLOAD \<equiv> 1024"

section \<open>ARP\<close>

definition arp_cache_put :: "u32 \<Rightarrow> u8 list \<Rightarrow> net \<Rightarrow> net" where
  "arp_cache_put ip hw n =
     (case find (\<lambda>i. avalid (arp_cache n ! i) \<and> aip (arp_cache n ! i) = ip) [0..<8] of
        Some i \<Rightarrow> n\<lparr>arp_cache := (arp_cache n)[i := (arp_cache n ! i)\<lparr>amac := hw\<rparr>]\<rparr>
      | None \<Rightarrow>
          (case find (\<lambda>i. \<not> avalid (arp_cache n ! i)) [0..<8] of
             Some i \<Rightarrow> n\<lparr>arp_cache := (arp_cache n)[i := \<lparr>aip = ip, amac = hw, avalid = True\<rparr>]\<rparr>
           | None \<Rightarrow> n))"

definition arp_lookup :: "u32 \<Rightarrow> net \<Rightarrow> u8 list option" where
  "arp_lookup ip n = map_option amac (find (\<lambda>e. avalid e \<and> aip e = ip) (arp_cache n))"

definition send_frame :: "u8 list \<Rightarrow> net \<Rightarrow> bool \<times> net" where
  "send_frame frame n = (case e1000_send frame (length frame) (nic n) of (ok, e) \<Rightarrow> (ok, n\<lparr>nic := e\<rparr>))"

definition eth_build :: "u8 list \<Rightarrow> u16 \<Rightarrow> net \<Rightarrow> u8 list" where
  "eth_build dst ty n = dst @ mac (nic n) @ put16n ty"

definition arp_packet :: "u16 \<Rightarrow> u8 list \<Rightarrow> u32 \<Rightarrow> u8 list \<Rightarrow> u8 list \<Rightarrow> u8 list" where
  "arp_packet oper sha spa tha tpa = put16n 1 @ put16n ETHERTYPE_IP @ [6, 4] @ put16n oper @ sha @ put32n spa @ tha @ tpa"

definition arp_send_request :: "u32 \<Rightarrow> net \<Rightarrow> net" where
  "arp_send_request target_ip n =
     snd (send_frame (eth_build (replicate 6 0xFF) ETHERTYPE_ARP n @
       arp_packet 1 (mac (nic n)) NET_OUR_IP (replicate 6 0) (put32n target_ip)) n)"

text \<open>\<open>arp\<close> is the packet behind the Ethernet header: \<^verbatim>\<open>oper\<close> is at 6, \<^verbatim>\<open>sha\<close> at 8, \<^verbatim>\<open>spa\<close> at 14, \<^verbatim>\<open>tpa\<close> at 24.\<close>

definition arp_send_reply :: "u8 list \<Rightarrow> net \<Rightarrow> net" where
  "arp_send_reply arp n =
     snd (send_frame (eth_build (slice 8 6 arp) ETHERTYPE_ARP n @
       arp_packet 2 (mac (nic n)) NET_OUR_IP (slice 8 6 arp) (slice 14 4 arp)) n)"

definition arp_handle :: "u8 list \<Rightarrow> nat \<Rightarrow> net \<Rightarrow> net" where
  "arp_handle frame len n =
     (if len < ETH_SIZE + ARP_SIZE then n
      else let arp = drop ETH_SIZE frame;
               spa = get32n arp 14;
               tpa = get32n arp 24;
               oper = get16n arp 6;
               n = arp_cache_put spa (slice 8 6 arp) n
           in if oper = 1 \<and> tpa = NET_OUR_IP then arp_send_reply arp n else n)"

section \<open>IP\<close>

definition ip_header :: "u32 \<Rightarrow> u8 \<Rightarrow> u16 \<Rightarrow> u16 \<Rightarrow> u8 list" where
  "ip_header dst_ip protocol payload_len ident =
     (let hdr = [0x45, 0] @ put16n (of_nat IP_SIZE + payload_len) @ put16n ident @ [0, 0] @ [64, protocol] @ [0, 0] @
            put32n NET_OUR_IP @ put32n dst_ip
      in splice hdr 10 (le16 (net_checksum hdr)))"

definition ip_send :: "u32 \<Rightarrow> u8 \<Rightarrow> u8 list \<Rightarrow> net \<Rightarrow> bool \<times> net" where
  "ip_send dst_ip protocol payload n =
     (let next_hop = (if dst_ip AND 0xFFFFFF00 = NET_OUR_IP AND 0xFFFFFF00 then dst_ip else NET_GATEWAY_IP) in
      case arp_lookup next_hop n of
        None \<Rightarrow> (False, n)
      | Some dst_mac \<Rightarrow>
          send_frame (eth_build dst_mac ETHERTYPE_IP n @
              ip_header dst_ip protocol (of_nat (length payload)) (ip_id_counter n) @ payload)
            (n\<lparr>ip_id_counter := ip_id_counter n + 1\<rparr>))"

section \<open>ICMP\<close>

definition icmp_checked :: "u8 list \<Rightarrow> u8 list" where
  "icmp_checked icmp = (let z = splice icmp 2 [0, 0] in splice z 2 (le16 (net_checksum z)))"

definition icmp_send_echo :: "u32 \<Rightarrow> net \<Rightarrow> bool \<times> net" where
  "icmp_send_echo dst_ip n =
     (let icmp = [8, 0, 0, 0] @ put16n 0x1234 @ put16n (icmp_sequence n) @
            map (\<lambda>i. of_nat (97 + i mod 26)) [0..<ICMP_PAYLOAD_LEN]
      in ip_send dst_ip IP_PROTO_ICMP (icmp_checked icmp) (n\<lparr>icmp_sequence := icmp_sequence n + 1\<rparr>))"

definition icmp_send_reply :: "u32 \<Rightarrow> u8 list \<Rightarrow> nat \<Rightarrow> net \<Rightarrow> net option" where
  "icmp_send_reply dst_ip req icmp_len n =
     (if icmp_len > 1500 then Some n
      else if icmp_len > length req then None
      else Some (snd (ip_send dst_ip IP_PROTO_ICMP (icmp_checked ((take icmp_len req)[0 := 0])) n)))"

definition icmp_handle :: "u32 \<Rightarrow> u8 list \<Rightarrow> nat \<Rightarrow> net \<Rightarrow> net option" where
  "icmp_handle src_ip icmp icmp_len n =
     (if icmp ! 0 = 8 then icmp_send_reply src_ip icmp icmp_len n else Some n)"

section \<open>UDP\<close>

definition udp_bind :: "u16 \<Rightarrow> udp_handler \<Rightarrow> net \<Rightarrow> bool \<times> net" where
  "udp_bind port handler n =
     (if \<exists>b \<in> set (udp_bindings n). bused b \<and> bport b = port then (False, n)
      else case find (\<lambda>i. \<not> bused (udp_bindings n ! i)) [0..<8] of
        Some i \<Rightarrow> (True, n\<lparr>udp_bindings := (udp_bindings n)[i := \<lparr>bport = port, bhandler = handler, bused = True\<rparr>]\<rparr>)
      | None \<Rightarrow> (False, n))"

text \<open>\<open>data\<close> is the memory behind the caller's pointer.\<close>

definition udp_send :: "u32 \<Rightarrow> u16 \<Rightarrow> u16 \<Rightarrow> u8 list \<Rightarrow> u16 \<Rightarrow> net \<Rightarrow> (bool \<times> net) option" where
  "udp_send dst_ip src_port dst_port data len n =
     (if len > UDP_MAX_PAYLOAD then Some (False, n)
      else if unat len > length data then None
      else Some (ip_send dst_ip IP_PROTO_UDP
        (put16n src_port @ put16n dst_port @ put16n (of_nat UDP_SIZE + len) @ [0, 0] @ take (unat len) data) n))"

definition net_ping :: "u32 \<Rightarrow> net \<Rightarrow> net" where
  "net_ping dst_ip n = (if arp_lookup dst_ip n = None then arp_send_request dst_ip n else snd (icmp_send_echo dst_ip n))"

section \<open>Sending leaves the receive queue alone\<close>

text \<open>
  No operation of the stack looks at the card's queue or changes it, apart from \<^verbatim>\<open>net_poll\<close>: the
  operations commute with the replacement of the queue.
\<close>

definition rx_queue :: "net \<Rightarrow> (nat \<Rightarrow> u8 list) \<times> nat \<times> nat" where
  "rx_queue n = (netq (nic n), netq_head (nic n), netq_tail (nic n))"

definition with_rx :: "(nat \<Rightarrow> u8 list) \<times> nat \<times> nat \<Rightarrow> net \<Rightarrow> net" where
  "with_rx r n = n\<lparr>nic := (nic n)\<lparr>netq := fst r, netq_head := fst (snd r), netq_tail := snd (snd r)\<rparr>\<rparr>"

lemma with_rx_fields [simp]:
  "arp_cache (with_rx r n) = arp_cache n" "ip_id_counter (with_rx r n) = ip_id_counter n"
  "icmp_sequence (with_rx r n) = icmp_sequence n" "udp_bindings (with_rx r n) = udp_bindings n"
  "query (with_rx r n) = query n" "dns_next_id (with_rx r n) = dns_next_id n" "conn (with_rx r n) = conn n"
  "frame_buf (with_rx r n) = frame_buf n" "shown (with_rx r n) = shown n" "mac (nic (with_rx r n)) = mac (nic n)"
  "rx_queue (with_rx r n) = r" "with_rx (rx_queue n) n = n"
  by (simp_all add: with_rx_def rx_queue_def)

lemma with_rx_updates [simp]:
  "(with_rx r n)\<lparr>arp_cache := a\<rparr> = with_rx r (n\<lparr>arp_cache := a\<rparr>)"
  "(with_rx r n)\<lparr>ip_id_counter := i\<rparr> = with_rx r (n\<lparr>ip_id_counter := i\<rparr>)"
  "(with_rx r n)\<lparr>query := q\<rparr> = with_rx r (n\<lparr>query := q\<rparr>)"
  "(with_rx r n)\<lparr>conn := c\<rparr> = with_rx r (n\<lparr>conn := c\<rparr>)"
  "(with_rx r n)\<lparr>frame_buf := f\<rparr> = with_rx r (n\<lparr>frame_buf := f\<rparr>)"
  "(with_rx r n)\<lparr>shown := w\<rparr> = with_rx r (n\<lparr>shown := w\<rparr>)"
  by (simp_all add: with_rx_def)

lemma with_rx_with_rx [simp]: "with_rx r (with_rx r' n) = with_rx r n"
  by (simp add: with_rx_def)

lemma if_distrib_rx: "(if b then with_rx r x else with_rx r y) = with_rx r (if b then x else y)"
  by simp

lemma send_frame_rx [simp]: "send_frame f (with_rx r n) = map_prod id (with_rx r) (send_frame f n)"
  by (simp add: send_frame_def with_rx_def e1000_send_def)

lemma eth_build_rx [simp]: "eth_build d t (with_rx r n) = eth_build d t n"
  by (simp add: eth_build_def)

lemma arp_lookup_rx [simp]: "arp_lookup ip (with_rx r n) = arp_lookup ip n"
  by (simp add: arp_lookup_def)

lemma arp_cache_put_rx [simp]: "arp_cache_put ip hw (with_rx r n) = with_rx r (arp_cache_put ip hw n)"
  by (simp add: arp_cache_put_def split: option.split)

lemma arp_handle_rx [simp]: "arp_handle f len (with_rx r n) = with_rx r (arp_handle f len n)"
  by (simp add: arp_handle_def arp_send_reply_def Let_def)

lemma ip_send_rx [simp]: "ip_send d p xs (with_rx r n) = map_prod id (with_rx r) (ip_send d p xs n)"
  by (simp add: ip_send_def Let_def split: option.split)

lemma icmp_handle_rx [simp]: "icmp_handle s xs len (with_rx r n) = map_option (with_rx r) (icmp_handle s xs len n)"
  by (simp add: icmp_handle_def icmp_send_reply_def)

lemma udp_send_rx [simp]:
  "udp_send d sp dp xs len (with_rx r n) = map_option (map_prod id (with_rx r)) (udp_send d sp dp xs len n)"
  by (simp add: udp_send_def)

section \<open>What sending leaves unchanged\<close>

lemma send_frame_fields [simp]:
  "conn (snd (send_frame f n)) = conn n" "shown (snd (send_frame f n)) = shown n" "frame_buf (snd (send_frame f n)) = frame_buf n"
  "arp_cache (snd (send_frame f n)) = arp_cache n" "udp_bindings (snd (send_frame f n)) = udp_bindings n"
  by (simp_all add: send_frame_def split: prod.split)

lemma ip_send_fields [simp]:
  "conn (snd (ip_send d p xs n)) = conn n" "shown (snd (ip_send d p xs n)) = shown n"
  "frame_buf (snd (ip_send d p xs n)) = frame_buf n" "arp_cache (snd (ip_send d p xs n)) = arp_cache n"
  by (simp_all add: ip_send_def Let_def split: option.split)

lemma arp_fields [simp]:
  "frame_buf (arp_cache_put ip hw n) = frame_buf n" "nic (arp_cache_put ip hw n) = nic n" "frame_buf (arp_handle xs len n) = frame_buf n"
  by (simp_all add: arp_cache_put_def arp_handle_def arp_send_reply_def Let_def split: option.split)

lemma icmp_handle_buf: "icmp_handle s xs len n = Some n' \<Longrightarrow> frame_buf n' = frame_buf n"
  by (auto simp: icmp_handle_def icmp_send_reply_def split: if_splits)

lemma udp_send_buf: "udp_send d sp dp xs len n = Some (ok, n') \<Longrightarrow> frame_buf n' = frame_buf n"
  using ip_send_fields(3) by (fastforce simp: udp_send_def split: if_splits dest: arg_cong [where f = snd])

section \<open>Packets carry valid checksums\<close>

lemma length_ip_header [simp]: "length (ip_header d p l i) = 20"
  by (simp add: ip_header_def Let_def)

lemma ip_header_spec:
  "net_checksum (ip_header d p l i) = 0" "get32n (ip_header d p l i) 12 = NET_OUR_IP" "get32n (ip_header d p l i) 16 = d"
  "get16n (ip_header d p l i) 2 = 20 + l" "ip_header d p l i ! 9 = p"
proof -
  let ?h = "[0x45, 0] @ put16n (of_nat IP_SIZE + l) @ put16n i @ [0, 0] @ [64, p] @ [0, 0] @ put32n NET_OUR_IP @ put32n d"
  let ?c = "le16 (net_checksum ?h)"
  have h: "ip_header d p l i = splice ?h 10 ?c" by (simp add: ip_header_def Let_def)
  have len: "length ?h = 20" by simp
  show "net_checksum (ip_header d p l i) = 0"
    unfolding h by (rule net_checksum_stored) (simp_all add: slice_def)
  have s: "slice 12 4 (splice ?h 10 ?c) = slice 12 4 ?h" "slice 16 4 (splice ?h 10 ?c) = slice 16 4 ?h"
    "slice 2 2 (splice ?h 10 ?c) = slice 2 2 ?h"
    by (rule slice_splice_disjoint; simp)+
  show "get32n (ip_header d p l i) 12 = NET_OUR_IP" "get32n (ip_header d p l i) 16 = d" "get16n (ip_header d p l i) 2 = 20 + l"
    unfolding h get32n_def get16n_def s by (simp_all add: slice_def put32n_def put16n_def)
  have "splice ?h 10 ?c ! 9 = ?h ! 9" by (subst nth_splice) simp_all
  then show "ip_header d p l i ! 9 = p" unfolding h by (simp add: nth_append)
qed

lemma icmp_checked_spec:
  assumes "8 \<le> length icmp" "length icmp \<le> 65535"
  shows "length (icmp_checked icmp) = length icmp" "net_checksum (icmp_checked icmp) = 0"
    "icmp_checked icmp ! 0 = icmp ! 0" "icmp_checked icmp ! 1 = icmp ! 1" "drop 4 (icmp_checked icmp) = drop 4 icmp"
proof -
  let ?z = "splice icmp 2 [0, 0]"
  have z: "length ?z = length icmp" "slice 2 2 ?z = [0, 0]" using assms(1) by (simp_all add: slice_splice_same)
  show "length (icmp_checked icmp) = length icmp" using assms(1) z(1) by (simp add: icmp_checked_def Let_def)
  show "net_checksum (icmp_checked icmp) = 0"
    unfolding icmp_checked_def Let_def by (rule net_checksum_stored) (use assms z in simp_all)
  have "icmp \<noteq> []" "?z \<noteq> []" using assms(1) by (auto simp: splice_def)
  then show "icmp_checked icmp ! 0 = icmp ! 0" "icmp_checked icmp ! 1 = icmp ! 1"
    using assms(1) z(1) by (simp_all add: icmp_checked_def Let_def nth_splice)
  show "drop 4 (icmp_checked icmp) = drop 4 icmp"
    using assms(1) by (simp add: icmp_checked_def Let_def splice_def)
qed

section \<open>An example state\<close>

definition net_example :: net where
  "net_example =
     \<lparr>arp_cache = \<lparr>aip = 0x0A000202, amac = [2, 0, 0, 0, 0, 9], avalid = True\<rparr> # replicate 7 \<lparr>aip = 0, amac = replicate 6 0, avalid = False\<rparr>,
      ip_id_counter = 0, icmp_sequence = 0, udp_bindings = replicate 8 \<lparr>bport = 0, bhandler = Udp_echo, bused = False\<rparr>,
      query = \<lparr>dpending = False, did = 0, dqname = [], dhandler = None\<rparr>, dns_next_id = 0x1000,
      conn = \<lparr>tstate = TCP_CLOSED, remote_ip = 0, remote_port = 0, local_port = 0, snd_nxt = 0, snd_una = 0, rcv_nxt = 0, on_data = None\<rparr>,
      nic = e1000_example, frame_buf = replicate 1518 0, shown = []\<rparr>"

end
