(* ===== verification/Tcp.thy ===== *)
theory Tcp
  imports Net_Ip
begin

text \<open>
  The single TCP connection of the stack (\<^verbatim>\<open>kernel/kernel/net.c\<close>) and \<^verbatim>\<open>http_on_data\<close> of
  \<^verbatim>\<open>kernel/kernel/kernel.c\<close>, the handler that receives its data.
\<close>

abbreviation (input) TCP_FIN :: u8 where "TCP_FIN \<equiv> 0x01"
abbreviation (input) TCP_SYN :: u8 where "TCP_SYN \<equiv> 0x02"
abbreviation (input) TCP_RST :: u8 where "TCP_RST \<equiv> 0x04"
abbreviation (input) TCP_PSH :: u8 where "TCP_PSH \<equiv> 0x08"
abbreviation (input) TCP_ACK :: u8 where "TCP_ACK \<equiv> 0x10"
abbreviation (input) TCP_SIZE :: nat where "TCP_SIZE \<equiv> 20"
abbreviation (input) TCP_WINDOW :: u16 where "TCP_WINDOW \<equiv> 4096"

definition tcp_get_state :: "net \<Rightarrow> tcp_state" where
  "tcp_get_state n = tstate (conn n)"

section \<open>Sending\<close>

definition tcp_checksum :: "u32 \<Rightarrow> u32 \<Rightarrow> u8 list \<Rightarrow> u16 \<Rightarrow> u16" where
  "tcp_checksum src_ip dst_ip tcp_seg tcp_len =
     (let acc = (drop_bit 16 src_ip AND 0xFFFF) + (src_ip AND 0xFFFF) + (drop_bit 16 dst_ip AND 0xFFFF) +
            (dst_ip AND 0xFFFF) + ucast IP_PROTO_TCP + ucast tcp_len
      in htons (ucast (NOT (fold_carry (sum_words (take (unat tcp_len) tcp_seg) acc)))))"

definition tcp_segment :: "u8 \<Rightarrow> u8 list \<Rightarrow> net \<Rightarrow> u8 list" where
  "tcp_segment flags payload n =
     (let t = conn n in
      put16n (local_port t) @ put16n (ucast (remote_port t)) @ put32n (snd_nxt t) @ put32n (rcv_nxt t) @
      [0x50, flags] @ put16n TCP_WINDOW @ [0, 0] @ [0, 0] @ payload)"

text \<open>\<open>payload\<close> is the bytes to send; the callers that send none pass a null pointer and 0.\<close>

definition tcp_transmit :: "u8 \<Rightarrow> u8 list \<Rightarrow> net \<Rightarrow> bool \<times> net" where
  "tcp_transmit flags payload n =
     (if length payload > 1024 then (False, n)
      else let tcp_seg = tcp_segment flags payload n;
               c = tcp_checksum NET_OUR_IP (remote_ip (conn n)) tcp_seg (of_nat (TCP_SIZE + length payload))
           in ip_send (remote_ip (conn n)) IP_PROTO_TCP (splice tcp_seg 16 (le16 c)) n)"

definition tcp_connect :: "u32 \<Rightarrow> u16 \<Rightarrow> tcp_recv_handler option \<Rightarrow> net \<Rightarrow> bool \<times> net" where
  "tcp_connect dst_ip dst_port h n =
     (if tstate (conn n) \<noteq> TCP_CLOSED then (False, n)
      else tcp_transmit TCP_SYN []
        (n\<lparr>conn := \<lparr>tstate = TCP_SYN_SENT, remote_ip = dst_ip, remote_port = ucast dst_port,
             local_port = 49152 + (ip_id_counter n AND 0x3FF), snd_nxt = 12345, snd_una = 12345, rcv_nxt = 0, on_data = h\<rparr>\<rparr>))"

definition tcp_send :: "u8 list \<Rightarrow> net \<Rightarrow> bool \<times> net" where
  "tcp_send data n =
     (if tstate (conn n) \<noteq> TCP_ESTABLISHED then (False, n) else tcp_transmit (TCP_ACK OR TCP_PSH) data n)"

definition set_state :: "tcp_state \<Rightarrow> net \<Rightarrow> net" where
  "set_state s n = n\<lparr>conn := (conn n)\<lparr>tstate := s\<rparr>\<rparr>"

definition tcp_close :: "net \<Rightarrow> net" where
  "tcp_close n =
     (if tstate (conn n) = TCP_ESTABLISHED then set_state TCP_FIN_WAIT_1 (snd (tcp_transmit (TCP_ACK OR TCP_FIN) [] n))
      else if tstate (conn n) = TCP_CLOSE_WAIT then set_state TCP_LAST_ACK (snd (tcp_transmit (TCP_ACK OR TCP_FIN) [] n))
      else n)"

section \<open>Receiving\<close>

definition http_char :: "u8 \<Rightarrow> u8" where
  "http_char c = (if c = 10 \<or> (c \<ge> 32 \<and> c < 127) then c else 46)"

definition http_on_data :: "u8 list \<Rightarrow> nat \<Rightarrow> net \<Rightarrow> net option" where
  "http_on_data data len n =
     (if len > length data then None else Some (n\<lparr>shown := shown n @ map http_char (take len data)\<rparr>))"

definition call_on_data :: "tcp_recv_handler option \<Rightarrow> u8 list \<Rightarrow> nat \<Rightarrow> net \<Rightarrow> net option" where
  "call_on_data h data len n =
     (case h of None \<Rightarrow> Some n | Some Http_on_data \<Rightarrow> http_on_data data len n)"

definition send_ack :: "net \<Rightarrow> net" where
  "send_ack n = snd (tcp_transmit TCP_ACK [] n)"

definition bump_rcv :: "u32 \<Rightarrow> net \<Rightarrow> net" where
  "bump_rcv d n = n\<lparr>conn := (conn n)\<lparr>rcv_nxt := rcv_nxt (conn n) + d\<rparr>\<rparr>"

text \<open>What the states that accept data or the peer's FIN do with it.\<close>

definition take_data :: "u32 \<Rightarrow> u8 list \<Rightarrow> nat \<Rightarrow> net \<Rightarrow> net option" where
  "take_data seq data len n =
     (if len \<noteq> 0 \<and> seq = rcv_nxt (conn n)
      then map_option send_ack (call_on_data (on_data (conn n)) data len (bump_rcv (of_nat len) n))
      else Some n)"

definition take_fin :: "u8 \<Rightarrow> tcp_state \<Rightarrow> net \<Rightarrow> net" where
  "take_fin flags st n = (if flags AND TCP_FIN \<noteq> 0 then set_state st (send_ack (bump_rcv 1 n)) else n)"

text \<open>The segment is \<open>tcp\<close>: sequence number at 4, acknowledgement at 8, data offset at 12, flags at 13.\<close>

definition tcp_dispatch :: "u8 \<Rightarrow> u32 \<Rightarrow> u32 \<Rightarrow> u8 list \<Rightarrow> nat \<Rightarrow> net \<Rightarrow> net option" where
  "tcp_dispatch flags seq ack data len n =
     (case tstate (conn n) of
        TCP_SYN_SENT \<Rightarrow>
          Some (if flags AND TCP_SYN \<noteq> 0 \<and> flags AND TCP_ACK \<noteq> 0
                then send_ack (n\<lparr>conn := (conn n)\<lparr>rcv_nxt := seq + 1, snd_una := ack, tstate := TCP_ESTABLISHED\<rparr>\<rparr>)
                else n)
      | TCP_ESTABLISHED \<Rightarrow>
          (let n = (if flags AND TCP_ACK \<noteq> 0 then n\<lparr>conn := (conn n)\<lparr>snd_una := ack\<rparr>\<rparr> else n)
           in map_option (take_fin flags TCP_CLOSE_WAIT) (take_data seq data len n))
      | TCP_FIN_WAIT_1 \<Rightarrow>
          (let n = (if flags AND TCP_ACK \<noteq> 0 then set_state TCP_FIN_WAIT_2 n else n)
           in Some (take_fin flags TCP_TIME_WAIT n))
      | TCP_FIN_WAIT_2 \<Rightarrow> Some (take_fin flags TCP_TIME_WAIT n)
      | TCP_LAST_ACK \<Rightarrow> Some (if flags AND TCP_ACK \<noteq> 0 then set_state TCP_CLOSED n else n)
      | _ \<Rightarrow> Some n)"

definition tcp_handle :: "u32 \<Rightarrow> u8 list \<Rightarrow> u16 \<Rightarrow> net \<Rightarrow> net option" where
  "tcp_handle src_ip tcp seg_len n =
     (if unat seg_len < TCP_SIZE then Some n
      else if src_ip \<noteq> remote_ip (conn n) then Some n
      else if length tcp < TCP_SIZE then None
      else if get16n tcp 2 \<noteq> local_port (conn n) then Some n
      else let flags = tcp ! 13; hdr_len = unat (drop_bit 4 (tcp ! 12)) * 4 in
        if hdr_len > unat seg_len then Some n
        else if flags AND TCP_RST \<noteq> 0 then Some (set_state TCP_CLOSED n)
        else tcp_dispatch flags (get32n tcp 4) (get32n tcp 8) (drop hdr_len tcp) (unat seg_len - hdr_len) n)"

section \<open>The receive queue\<close>

lemma tcp_transmit_rx [simp]: "tcp_transmit f xs (with_rx r n) = map_prod id (with_rx r) (tcp_transmit f xs n)"
  by (simp add: tcp_transmit_def tcp_segment_def Let_def)

lemma tcp_connect_rx [simp]: "tcp_connect d p c (with_rx r n) = map_prod id (with_rx r) (tcp_connect d p c n)"
  by (simp add: tcp_connect_def)

lemma tcp_parts_rx [simp]:
  "set_state s (with_rx r n) = with_rx r (set_state s n)" "bump_rcv d (with_rx r n) = with_rx r (bump_rcv d n)"
  "send_ack (with_rx r n) = with_rx r (send_ack n)"
  "call_on_data c xs len (with_rx r n) = map_option (with_rx r) (call_on_data c xs len n)"
  by (simp_all add: set_state_def bump_rcv_def send_ack_def call_on_data_def http_on_data_def
      split: option.split tcp_recv_handler.split)

lemma take_fin_rx [simp]: "take_fin f s (with_rx r n) = with_rx r (take_fin f s n)"
  by (simp add: take_fin_def)

lemma take_data_rx [simp]: "take_data s xs len (with_rx r n) = map_option (with_rx r) (take_data s xs len n)"
  by (simp add: take_data_def option.map_comp comp_def)

lemma tcp_handle_rx [simp]: "tcp_handle s xs len (with_rx r n) = map_option (with_rx r) (tcp_handle s xs len n)"
  by (simp add: tcp_handle_def tcp_dispatch_def Let_def option.map_comp comp_def if_distrib_rx split: tcp_state.split)

section \<open>The stream\<close>

lemma tcp_transmit_fields [simp]:
  "conn (snd (tcp_transmit f xs n)) = conn n" "shown (snd (tcp_transmit f xs n)) = shown n" "frame_buf (snd (tcp_transmit f xs n)) = frame_buf n"
  by (simp_all add: tcp_transmit_def Let_def)

lemma send_ack_fields [simp]: "conn (send_ack n) = conn n" "shown (send_ack n) = shown n" "frame_buf (send_ack n) = frame_buf n"
  by (simp_all add: send_ack_def)

lemma tcp_part_fields [simp]:
  "conn (bump_rcv d n) = (conn n)\<lparr>rcv_nxt := rcv_nxt (conn n) + d\<rparr>" "shown (bump_rcv d n) = shown n" "frame_buf (bump_rcv d n) = frame_buf n"
  "conn (set_state s n) = (conn n)\<lparr>tstate := s\<rparr>" "shown (set_state s n) = shown n" "frame_buf (set_state s n) = frame_buf n"
  by (simp_all add: bump_rcv_def set_state_def)

text \<open>Offset and length of the data of a segment in the stream that starts behind sequence number \<open>isn\<close>.\<close>

definition seg_header :: "u8 list \<Rightarrow> nat" where
  "seg_header tcp = unat (drop_bit 4 (tcp ! 12)) * 4"

definition seg_offset :: "u32 \<Rightarrow> u8 list \<Rightarrow> nat" where
  "seg_offset isn tcp = unat (get32n tcp 4 - isn)"

text \<open>A segment of the connection with neither FIN nor RST that carries a piece of the stream \<open>str\<close>.\<close>

definition stream_segment :: "u8 list \<Rightarrow> u32 \<Rightarrow> u16 \<Rightarrow> u8 list \<Rightarrow> bool" where
  "stream_segment str isn port tcp \<longleftrightarrow>
     TCP_SIZE \<le> length tcp \<and> length tcp \<le> 65535 \<and> get16n tcp 2 = port \<and> tcp ! 13 AND TCP_FIN = 0 \<and> tcp ! 13 AND TCP_RST = 0 \<and>
     seg_header tcp \<le> length tcp \<and> seg_offset isn tcp \<le> length str \<and>
     drop (seg_header tcp) tcp = take (length tcp - seg_header tcp) (drop (seg_offset isn tcp) str)"

text \<open>The receiver that takes exactly the next piece of the stream: how many bytes it has.\<close>

definition advance :: "u32 \<Rightarrow> nat \<Rightarrow> u8 list \<Rightarrow> nat" where
  "advance isn k tcp = (if seg_offset isn tcp = k then k + (length tcp - seg_header tcp) else k)"

fun tcp_segments :: "u32 \<Rightarrow> u8 list list \<Rightarrow> net \<Rightarrow> net option" where
  "tcp_segments src [] n = Some n"
| "tcp_segments src (tcp # segs) n = Option.bind (tcp_handle src tcp (of_nat (length tcp)) n) (tcp_segments src segs)"

definition receiving :: "u32 \<Rightarrow> u16 \<Rightarrow> u32 \<Rightarrow> nat \<Rightarrow> net \<Rightarrow> bool" where
  "receiving src port isn k n \<longleftrightarrow> tstate (conn n) = TCP_ESTABLISHED \<and> remote_ip (conn n) = src \<and> local_port (conn n) = port \<and>
     on_data (conn n) = Some Http_on_data \<and> rcv_nxt (conn n) = isn + of_nat k"

lemma stream_segment_fits:
  "stream_segment str isn port tcp \<Longrightarrow> seg_offset isn tcp + (length tcp - seg_header tcp) \<le> length str"
proof -
  assume "stream_segment str isn port tcp"
  then have "length tcp - seg_header tcp = min (length tcp - seg_header tcp) (length str - seg_offset isn tcp)"
    "seg_offset isn tcp \<le> length str"
    by (auto simp: stream_segment_def dest: arg_cong [where f = length])
  then show ?thesis by linarith
qed

lemma seq_eq_iff: "k < 4294967296 \<Longrightarrow> get32n tcp 4 = isn + of_nat k \<longleftrightarrow> seg_offset isn tcp = k"
proof -
  assume k: "k < 4294967296"
  have "get32n tcp 4 = isn + of_nat k \<longleftrightarrow> get32n tcp 4 - isn = of_nat k" by (auto simp: algebra_simps)
  also have "\<dots> \<longleftrightarrow> seg_offset isn tcp = k"
    using unat_of_nat_u32 [OF k] by (auto simp: seg_offset_def)
  finally show ?thesis .
qed

lemma tcp_handle_stream:
  assumes "receiving src port isn k n" "stream_segment str isn port tcp" "length str < 4294967296" "k \<le> length str"
  shows "\<exists>n'. tcp_handle src tcp (of_nat (length tcp)) n = Some n' \<and> receiving src port isn (advance isn k tcp) n' \<and>
    shown n' = shown n @ map http_char (slice k (advance isn k tcp - k) str)"
proof -
  let ?hl = "seg_header tcp" and ?d = "drop (seg_header tcp) tcp"
  define m where "m = (if tcp ! 13 AND TCP_ACK \<noteq> 0 then n\<lparr>conn := (conn n)\<lparr>snd_una := get32n tcp 8\<rparr>\<rparr> else n)"
  have m: "receiving src port isn k m" "shown m = shown n" using assms(1) by (simp_all add: m_def receiving_def)
  have u: "unat (of_nat (length tcp) :: u16) = length tcp" and fin: "tcp ! 13 AND TCP_FIN = 0"
    and d: "?d = take (length tcp - ?hl) (drop (seg_offset isn tcp) str)"
    using assms(2) by (simp_all add: stream_segment_def unat_of_nat)
  have fin: "take_fin (tcp ! 13) st = (\<lambda>x. x)" for st using fin by (simp add: take_fin_def fun_eq_iff)
  have p: "20 \<le> length tcp" "get16n tcp 2 = port" "tcp ! 13 AND TCP_RST = 0" "?hl \<le> length tcp"
    using assms(2) by (simp_all add: stream_segment_def)
  have h: "tcp_handle src tcp (of_nat (length tcp)) n = take_data (get32n tcp 4) ?d (length ?d) m"
    using assms(1) p u by (simp add: tcp_handle_def tcp_dispatch_def receiving_def seg_header_def m_def Let_def fin option.map_ident)
  have seq: "get32n tcp 4 = rcv_nxt (conn m) \<longleftrightarrow> seg_offset isn tcp = k"
    using seq_eq_iff [of k tcp isn] m(1) assms(3,4) by (simp add: receiving_def)
  show ?thesis
  proof (cases "length ?d \<noteq> 0 \<and> seg_offset isn tcp = k")
    case True
    then have "tcp_handle src tcp (of_nat (length tcp)) n =
        Some (send_ack ((bump_rcv (of_nat (length ?d)) m)\<lparr>shown := shown n @ map http_char ?d\<rparr>))"
      using h seq m by (simp add: take_data_def call_on_data_def http_on_data_def receiving_def del: length_drop)
    moreover have "advance isn k tcp = k + length ?d" using True by (simp add: advance_def)
    moreover have "slice k (length ?d) str = ?d" unfolding slice_def length_drop using True d by metis
    ultimately show ?thesis using m(1) by (simp add: receiving_def algebra_simps del: length_drop)
  next
    case False
    then have "advance isn k tcp = k" by (auto simp: advance_def)
    moreover have "tcp_handle src tcp (of_nat (length tcp)) n = Some m" using False h seq by (auto simp: take_data_def)
    ultimately show ?thesis using m by (simp add: slice_def)
  qed
qed

lemma advance_le: "stream_segment str isn port tcp \<Longrightarrow> k \<le> length str \<Longrightarrow> advance isn k tcp \<le> length str \<and> k \<le> advance isn k tcp"
  using stream_segment_fits [of str isn port tcp] by (simp add: advance_def)

lemma slice_slice: "k \<le> a \<Longrightarrow> a \<le> b \<Longrightarrow> slice k (a - k) xs @ slice a (b - a) xs = slice k (b - k) xs"
proof -
  assume "k \<le> a" "a \<le> b"
  then obtain i j where "a = k + i" "b = k + i + j" by (metis le_Suc_ex)
  then show ?thesis by (simp add: slice_def take_add add.commute)
qed

text \<open>
  C23: on an established connection the handler sees the peer's stream. Whatever segments of the
  stream arrive, in any order, repeated or with gaps, no call faults, the bytes shown are the
  consecutive bytes of the stream that the reference receiver accepts, and the next sequence
  number expected is behind them.
\<close>

theorem tcp_delivers_stream:
  assumes "receiving src port isn k n" "\<forall>tcp \<in> set segs. stream_segment str isn port tcp"
    "length str < 4294967296" "k \<le> length str"
  shows "\<exists>n'. tcp_segments src segs n = Some n' \<and> receiving src port isn (foldl (advance isn) k segs) n' \<and>
    k \<le> foldl (advance isn) k segs \<and> foldl (advance isn) k segs \<le> length str \<and>
    shown n' = shown n @ map http_char (slice k (foldl (advance isn) k segs - k) str)"
  using assms
proof (induction segs arbitrary: n k)
  case Nil
  then show ?case by (simp add: slice_def)
next
  case (Cons tcp segs)
  let ?k = "advance isn k tcp" and ?e = "foldl (advance isn) (advance isn k tcp) segs"
  have seg: "stream_segment str isn port tcp" using Cons(3) by simp
  obtain m where m: "tcp_handle src tcp (of_nat (length tcp)) n = Some m" "receiving src port isn ?k m"
    "shown m = shown n @ map http_char (slice k (?k - k) str)"
    using tcp_handle_stream [OF Cons(2) seg Cons(4,5)] by blast
  have k: "k \<le> ?k" "?k \<le> length str" using advance_le [OF seg Cons(5)] by simp_all
  obtain n' where n': "tcp_segments src segs m = Some n'" "receiving src port isn ?e n'" "?k \<le> ?e" "?e \<le> length str"
    "shown n' = shown m @ map http_char (slice ?k (?e - ?k) str)"
    using Cons(1) [OF m(2) _ Cons(4) k(2)] Cons(3) by auto
  have "slice k (?k - k) str @ slice ?k (?e - ?k) str = slice k (?e - k) str" by (rule slice_slice [OF k(1) n'(3)])
  then have "shown n' = shown n @ map http_char (slice k (?e - k) str)" using n'(5) m(3) by (simp flip: map_append)
  then show ?case using m(1) n'(1-4) k(1) by simp
qed

definition tcp_example :: net where
  "tcp_example = net_example\<lparr>conn := \<lparr>tstate = TCP_ESTABLISHED, remote_ip = 0x5DB8D822, remote_port = 80, local_port = 49152,
     snd_nxt = 12345, snd_una = 12346, rcv_nxt = 1000, on_data = Some Http_on_data\<rparr>\<rparr>"

definition segment_example :: "u32 \<Rightarrow> u8 list \<Rightarrow> u8 list" where
  "segment_example seq data = put16n 80 @ put16n 49152 @ put32n seq @ put32n 12346 @ [0x50, 0x10, 0x10, 0, 0, 0, 0, 0] @ data"

lemma segment_example_fields:
  "get16n (segment_example s d) 2 = 49152" "get32n (segment_example s d) 4 = s" "segment_example s d ! 13 = 0x10"
  "seg_header (segment_example s d) = 20" "length (segment_example s d) = 20 + length d" "drop 20 (segment_example s d) = d"
  by (simp_all add: segment_example_def get16n_def get32n_def put32n_def seg_header_def slice_def nth_append)

lemma segment_example_stream:
  "length d < 60000 \<Longrightarrow> drop (unat (s - isn)) str = d @ rest \<Longrightarrow> unat (s - isn) \<le> length str \<Longrightarrow>
    stream_segment str isn 49152 (segment_example s d)"
  by (simp add: stream_segment_def segment_example_fields seg_offset_def)

theorem tcp_delivers_stream_witness:
  "map_option shown (tcp_segments 0x5DB8D822
      [segment_example 1002 [67], segment_example 1000 [65, 66], segment_example 1000 [65, 66], segment_example 1002 [67]] tcp_example) =
    Some [65, 66, 67]"
proof -
  let ?segs = "[segment_example 1002 [67], segment_example 1000 [65, 66], segment_example 1000 [65, 66], segment_example 1002 [67]]"
  have s: "\<forall>tcp \<in> set ?segs. stream_segment [65, 66, 67] 1000 49152 tcp" by (simp add: segment_example_stream)
  have e: "foldl (advance 1000) 0 ?segs = 3" by (simp add: advance_def segment_example_fields seg_offset_def)
  have "receiving 0x5DB8D822 49152 1000 0 tcp_example" by (simp add: receiving_def tcp_example_def)
  then obtain n' where "tcp_segments 0x5DB8D822 ?segs tcp_example = Some n'"
    "shown n' = shown tcp_example @ map http_char (slice 0 3 [65, 66, 67])"
    using tcp_delivers_stream [OF _ s, of _ 0 tcp_example] e by auto
  then show ?thesis by (simp add: tcp_example_def net_example_def slice_def http_char_def)
qed

section \<open>What the state machine lacks\<close>

text \<open>The sequence number does not advance with the data sent: the next segment reuses it.\<close>

lemma tcp_send_reuses_sequence: "conn (snd (tcp_send d n)) = conn n"
  by (simp add: tcp_send_def)

text \<open>Without a reset by the peer the connection never leaves \<^verbatim>\<open>TCP_TIME_WAIT\<close>, and no other can be opened.\<close>

lemma tcp_time_wait_stuck:
  assumes "tstate (conn n) = TCP_TIME_WAIT"
  shows "tcp_connect d p h n = (False, n)" "tcp ! 13 AND TCP_RST = 0 \<Longrightarrow> tcp_handle src tcp len n = Some n' \<Longrightarrow> n' = n"
    "tcp_close n = n"
  using assms by (auto simp: tcp_connect_def tcp_close_def tcp_handle_def tcp_dispatch_def Let_def split: if_splits)

section \<open>Segments inside the buffer\<close>

lemma take_data_safe: "len \<le> length d \<Longrightarrow> \<exists>n'. take_data s d len n = Some n' \<and> frame_buf n' = frame_buf n"
  by (auto simp: take_data_def call_on_data_def http_on_data_def split: option.split tcp_recv_handler.split)

lemma tcp_handle_safe:
  assumes "unat len \<le> length tcp"
  shows "\<exists>n'. tcp_handle src tcp len n = Some n' \<and> frame_buf n' = frame_buf n"
proof -
  let ?hl = "unat (drop_bit 4 (tcp ! 12)) * 4"
  have "unat len - ?hl \<le> length (drop ?hl tcp)" using assms by simp
  note d = take_data_safe [OF this]
  have f: "\<exists>n'. tcp_dispatch f s a (drop ?hl tcp) (unat len - ?hl) n = Some n' \<and> frame_buf n' = frame_buf n" for f s a
    using d [of s n] d [of s "n\<lparr>conn := (conn n)\<lparr>snd_una := a\<rparr>\<rparr>"]
    by (auto simp: tcp_dispatch_def take_fin_def Let_def split: tcp_state.split)
  show ?thesis using assms f by (auto simp: tcp_handle_def Let_def)
qed

end
