(* ===== verification/Dns.thy ===== *)
theory Dns
  imports Tcp
begin

text \<open>
  The DNS resolver (\<^verbatim>\<open>kernel/kernel/net.c\<close>): names in wire format, queries and responses, and the
  handler \<^verbatim>\<open>on_resolved\<close> of \<^verbatim>\<open>kernel/kernel/kernel.c\<close> that opens a connection to the address found.
  \<open>None\<close> stands for an access outside a buffer and for a loop that does not end.
\<close>

abbreviation (input) DNS_SERVER_IP :: u32 where "DNS_SERVER_IP \<equiv> 0x0A000203"
abbreviation (input) DNS_PORT :: u16 where "DNS_PORT \<equiv> 53"
abbreviation (input) DNS_LOCAL_PORT :: u16 where "DNS_LOCAL_PORT \<equiv> 49500"
abbreviation (input) DNS_MAX_NAME :: nat where "DNS_MAX_NAME \<equiv> 255"
abbreviation (input) DNS_MAX_JUMPS :: nat where "DNS_MAX_JUMPS \<equiv> 16"
abbreviation (input) DNS_HEADER :: nat where "DNS_HEADER \<equiv> 12"
abbreviation (input) dot :: u8 where "dot \<equiv> 46"

section \<open>Writing a name\<close>

text \<open>The length of the first label. The counter has 8 bits, so a label of 256 characters or more is counted for ever.\<close>

partial_function (option) label_len :: "cstr \<Rightarrow> u8 \<Rightarrow> u8 option" where
  "label_len label len =
     (let c = deref (drop (unat len) label)
      in if c \<noteq> 0 \<and> c \<noteq> dot then label_len label (len + 1) else Some len)"

text \<open>Appending to a buffer that has room for \<open>cap\<close> bytes.\<close>

definition emit :: "nat \<Rightarrow> u8 list \<Rightarrow> u8 list \<Rightarrow> u8 list option" where
  "emit cap out bs = (if length out + length bs \<le> cap then Some (out @ bs) else None)"

text \<open>The pointer behind a label of length \<open>len\<close> and the dot that may follow it.\<close>

definition next_label :: "u8 \<Rightarrow> cstr \<Rightarrow> cstr" where
  "next_label len label = (let rest = drop (unat len) label in if deref rest = dot then tl rest else rest)"

lemma next_label_less: "deref label \<noteq> 0 \<Longrightarrow> len \<noteq> 0 \<Longrightarrow> length (next_label len label) < length label"
  by (cases label) (auto simp: next_label_def Let_def unat_eq_zero unat_gt_0)

function write_labels :: "nat \<Rightarrow> u8 list \<Rightarrow> cstr \<Rightarrow> u8 list option" where
  "write_labels cap out label =
     (if deref label = 0 then emit cap out [0]
      else case label_len label 0 of
        None \<Rightarrow> None
      | Some len \<Rightarrow>
          if len = 0 \<or> len > 63 then Some []
          else case emit cap out (len # take (unat len) label) of
            None \<Rightarrow> None
          | Some out \<Rightarrow> write_labels cap out (next_label len label))"
  by pat_completeness auto

termination
  by (relation "measure (\<lambda>(_, _, label). length label)") (auto simp: next_label_less)

declare write_labels.simps [simp del]

text \<open>The bytes written; no bytes where the function returns 0.\<close>

definition dns_write_name :: "nat \<Rightarrow> cstr \<Rightarrow> u8 list option" where
  "dns_write_name cap name = write_labels cap [] name"

section \<open>Reading a name\<close>

text \<open>
  \<open>msg\<close> is the memory from the message on, \<open>mlen\<close> the length of the message, \<open>osz\<close> the size of the
  buffer for the name. Results are the number of bytes consumed at the offset, and the name.
\<close>

definition add_label :: "nat \<Rightarrow> u8 list \<Rightarrow> nat \<Rightarrow> nat \<Rightarrow> cstr \<Rightarrow> cstr option" where
  "add_label osz msg from len out =
     (let out = (if out \<noteq> [] \<and> length out + 1 < osz then out @ [dot] else out);
          k = min len (osz - 1 - length out)
      in if from + k > length msg then None else Some (out @ slice from k msg))"

function read_name :: "u8 list \<Rightarrow> nat \<Rightarrow> nat \<Rightarrow> nat \<Rightarrow> nat \<Rightarrow> bool \<Rightarrow> nat \<Rightarrow> cstr \<Rightarrow> (nat \<times> cstr) option" where
  "read_name msg mlen osz pos consumed jumped jumps out =
     (if pos \<ge> mlen then Some (consumed, out)
      else if pos \<ge> length msg then None
      else let len = msg ! pos in
        if len = 0 then Some (if jumped then consumed else consumed + 1, out)
        else if len AND 0xC0 = 0xC0 then
          (if pos + 1 \<ge> mlen then Some (consumed, out)
           else if pos + 1 \<ge> length msg then None
           else let ptr = unat (len AND 0x3F) * 256 + unat (msg ! (pos + 1));
                    consumed = (if jumped then consumed else consumed + 2)
                in if jumps + 1 > DNS_MAX_JUMPS then Some (consumed, out)
                   else read_name msg mlen osz ptr consumed True (jumps + 1) out)
        else if pos + 1 + unat len > mlen then Some (consumed, out)
        else case add_label osz msg (pos + 1) (unat len) out of
          None \<Rightarrow> None
        | Some out \<Rightarrow>
            read_name msg mlen osz (pos + 1 + unat len)
              (if jumped then consumed else consumed + 1 + unat len) jumped jumps out)"
  by pat_completeness auto

termination
  by (relation "measures [\<lambda>(_, _, _, _, _, _, jumps, _). 17 - jumps, \<lambda>(_, mlen, _, pos, _). mlen - pos]") auto

declare read_name.simps [simp del]

definition dns_read_name :: "u8 list \<Rightarrow> u16 \<Rightarrow> u16 \<Rightarrow> nat \<Rightarrow> (u16 \<times> cstr) option" where
  "dns_read_name msg msg_len off out_size =
     map_option (\<lambda>(c, out). (of_nat c, out)) (read_name msg (unat msg_len) out_size (unat off) 0 False 0 [])"

definition dns_skip_name :: "u8 list \<Rightarrow> u16 \<Rightarrow> u16 \<Rightarrow> u16 option" where
  "dns_skip_name msg msg_len off = map_option fst (dns_read_name msg msg_len off DNS_MAX_NAME)"

section \<open>Responses\<close>

definition on_resolved :: "u32 \<Rightarrow> net \<Rightarrow> net" where
  "on_resolved ip n = (if ip = 0 then n else snd (tcp_connect ip 80 (Some Http_on_data) n))"

text \<open>The end of a query: it is no longer pending and its handler gets the address, 0 on failure.\<close>

definition dns_finish :: "u32 \<Rightarrow> net \<Rightarrow> net" where
  "dns_finish ip n =
     (let n = n\<lparr>query := (query n)\<lparr>dpending := False\<rparr>\<rparr>
      in case dhandler (query n) of None \<Rightarrow> n | Some On_resolved \<Rightarrow> on_resolved ip n)"

fun skip_questions :: "nat \<Rightarrow> u8 list \<Rightarrow> u16 \<Rightarrow> u16 \<Rightarrow> u16 option" where
  "skip_questions 0 data len pos = Some pos"
| "skip_questions (Suc k) data len pos =
     (if pos < len
      then case dns_skip_name data len pos of
        None \<Rightarrow> None
      | Some c \<Rightarrow> skip_questions k data len (pos + c + 4)
      else Some pos)"

definition be16_at :: "u8 list \<Rightarrow> nat \<Rightarrow> u16" where
  "be16_at bs i = push_bit 8 (ucast (bs ! i)) OR ucast (bs ! (i + 1))"

definition be32_at :: "u8 list \<Rightarrow> nat \<Rightarrow> u32" where
  "be32_at bs i = push_bit 24 (ucast (bs ! i)) OR push_bit 16 (ucast (bs ! (i + 1))) OR
     push_bit 8 (ucast (bs ! (i + 2))) OR ucast (bs ! (i + 3))"

text \<open>The loop over the answers. Its bound is \<^verbatim>\<open>qdcount\<close>, the number of questions.\<close>

fun scan_answers :: "nat \<Rightarrow> u8 list \<Rightarrow> u16 \<Rightarrow> u16 \<Rightarrow> u32 option option" where
  "scan_answers 0 data len pos = Some None"
| "scan_answers (Suc k) data len pos =
     (if \<not> pos < len then Some None
      else case dns_read_name data len pos DNS_MAX_NAME of
        None \<Rightarrow> None
      | Some (c, rec_name) \<Rightarrow>
          let p = unat (pos + c) in
          if p + 10 > unat len then Some None
          else if p + 10 > length data then None
          else let rtype = be16_at data p; rdlength = be16_at data (p + 8); p = p + 10 in
            if rtype = 1 \<and> rdlength = 4 \<and> p + 4 \<le> unat len
            then if p + 4 > length data then None else Some (Some (be32_at data p))
            else scan_answers k data len (of_nat p + rdlength))"

definition dns_on_response :: "u8 list \<Rightarrow> u16 \<Rightarrow> net \<Rightarrow> net option" where
  "dns_on_response data len n =
     (if \<not> dpending (query n) \<or> unat len < DNS_HEADER then Some n
      else if length data < DNS_HEADER then None
      else if get16n data 0 \<noteq> did (query n) then Some n
      else let flags = get16n data 2 in
        if flags AND 0x8000 = 0 then Some n
        else if flags AND 0x000F \<noteq> 0 then Some (dns_finish 0 n)
        else let qdcount = unat (get16n data 4) in
          case skip_questions qdcount data len (of_nat DNS_HEADER) of
            None \<Rightarrow> None
          | Some pos \<Rightarrow>
              (case scan_answers qdcount data len pos of
                 None \<Rightarrow> None
               | Some (Some ip) \<Rightarrow> Some (dns_finish ip n)
               | Some None \<Rightarrow> Some (dns_finish 0 n)))"

section \<open>Queries\<close>

definition dns_init :: "net \<Rightarrow> net" where
  "dns_init n = snd (udp_bind DNS_LOCAL_PORT Dns_on_response (n\<lparr>query := (query n)\<lparr>dpending := False\<rparr>\<rparr>))"

definition dns_message :: "u16 \<Rightarrow> u8 list \<Rightarrow> u8 list" where
  "dns_message ident qname =
     put16n ident @ put16n 0x0100 @ put16n 1 @ [0, 0, 0, 0, 0, 0] @ qname @ [0, 1, 0, 1]"

definition dns_resolve :: "cstr \<Rightarrow> dns_handler option \<Rightarrow> net \<Rightarrow> (bool \<times> net) option" where
  "dns_resolve name h n =
     (if dpending (query n) then Some (False, n)
      else let ident = dns_next_id n;
               n = n\<lparr>dns_next_id := ident + 1, query := (query n)\<lparr>did := ident\<rparr>\<rparr>
           in case dns_write_name (DNS_MAX_NAME + 4) name of
                None \<Rightarrow> None
              | Some qname \<Rightarrow>
                  if qname = [] then Some (False, n)
                  else if length qname + 4 > DNS_MAX_NAME + 4 then None
                  else let msg = dns_message ident qname in
                    udp_send DNS_SERVER_IP DNS_LOCAL_PORT DNS_PORT msg (of_nat (length msg))
                      (n\<lparr>query := \<lparr>dpending = True, did = ident, dqname = take (DNS_MAX_NAME - 1) name, dhandler = h\<rparr>\<rparr>))"

section \<open>The receive queue\<close>

lemma dns_finish_rx [simp]: "dns_finish ip (with_rx r n) = with_rx r (dns_finish ip n)"
  by (simp add: dns_finish_def on_resolved_def Let_def split: option.split dns_handler.split)

lemma dns_on_response_rx [simp]:
  "dns_on_response xs len (with_rx r n) = map_option (with_rx r) (dns_on_response xs len n)"
  by (simp add: dns_on_response_def Let_def split: option.split)

section \<open>Reading is bounded\<close>

lemma add_label_safe:
  assumes "from + len \<le> length msg" "length out < osz"
  shows "\<exists>out'. add_label osz msg from len out = Some out' \<and> length out' < osz"
  using assms by (auto simp: add_label_def Let_def slice_def)

lemma read_name_safe:
  assumes "mlen \<le> length msg" "length out < osz"
  shows "\<exists>c out'. read_name msg mlen osz pos consumed jumped jumps out = Some (c, out') \<and> length out' < osz \<and>
    (if jumped then c = consumed else pos \<le> mlen \<longrightarrow> c \<le> consumed + (mlen - pos))"
  using assms
proof (induction msg mlen osz pos consumed jumped jumps out rule: read_name.induct)
  case (1 msg mlen osz pos consumed jumped jumps out)
  let ?len = "msg ! pos"
  show ?case
  proof (cases "pos \<ge> mlen \<or> ?len = 0")
    case True
    then show ?thesis using 1(3,4) by (subst read_name.simps) (auto simp: Let_def)
  next
    case False
    show ?thesis
    proof (cases "?len AND 0xC0 = 0xC0")
      case True
      let ?ptr = "unat (?len AND 0x3F) * 256 + unat (msg ! (pos + 1))" and ?c = "if jumped then consumed else consumed + 2"
      have step: "read_name msg mlen osz pos consumed jumped jumps out =
          (if pos + 1 \<ge> mlen then Some (consumed, out) else if jumps + 1 > 16 then Some (?c, out)
           else read_name msg mlen osz ?ptr ?c True (jumps + 1) out)"
        using True False 1(3) by (subst read_name.simps) (simp add: Let_def)
      show ?thesis
      proof (cases "pos + 1 \<ge> mlen \<or> jumps + 1 > 16")
        case True
        then show ?thesis using step 1(4) by auto
      next
        case more: False
        then obtain c out' where "read_name msg mlen osz ?ptr ?c True (jumps + 1) out = Some (c, out')" "length out' < osz" "c = ?c"
          using 1(1) [OF _ _ refl _ _ _ _ refl refl] True False 1(3,4) by auto
        then show ?thesis using step more by auto
      qed
    next
      case label: False
      show ?thesis
      proof (cases "pos + 1 + unat ?len > mlen")
        case True
        then show ?thesis using label False 1(3,4) by (subst read_name.simps) (auto simp: Let_def)
      next
        case fits: False
        let ?pos = "pos + 1 + unat ?len" and ?c = "if jumped then consumed else consumed + 1 + unat ?len"
        obtain out1 where out1: "add_label osz msg (pos + 1) (unat ?len) out = Some out1" "length out1 < osz"
          using add_label_safe [of "pos + 1" "unat ?len" msg out osz] fits 1(3,4) by auto
        then have step: "read_name msg mlen osz pos consumed jumped jumps out = read_name msg mlen osz ?pos ?c jumped jumps out1"
          using label False fits 1(3) by (subst read_name.simps) (simp add: Let_def)
        obtain c out' where "read_name msg mlen osz ?pos ?c jumped jumps out1 = Some (c, out')" "length out' < osz"
          "if jumped then c = ?c else ?pos \<le> mlen \<longrightarrow> c \<le> ?c + (mlen - ?pos)"
          using 1(2) [OF _ _ refl] label False fits out1 1(3) by auto
        then show ?thesis using step fits by auto
      qed
    qed
  qed
qed

lemma dns_read_name_total:
  assumes "unat len \<le> length msg" "0 < osz"
  obtains c out where "dns_read_name msg len pos osz = Some (c, out)" "length out < osz"
    "pos \<le> len \<Longrightarrow> unat c \<le> unat len - unat pos"
proof -
  obtain c out where r: "read_name msg (unat len) osz (unat pos) 0 False 0 [] = Some (c, out)" "length out < osz"
    "unat pos \<le> unat len \<longrightarrow> c \<le> unat len - unat pos"
    using read_name_safe [OF assms(1), of "[]" osz "unat pos" 0 False 0] assms(2) by auto
  have "unat (of_nat c :: u16) \<le> c" by (simp add: unat_of_nat)
  then have "pos \<le> len \<Longrightarrow> unat (of_nat c :: u16) \<le> unat len - unat pos" using r(3) by (simp add: word_le_nat_alt)
  then show ?thesis using that [of "of_nat c" out] r by (simp add: dns_read_name_def)
qed

text \<open>
  C25: decoding a name stays inside a message that is in memory, whatever its bytes are: it ends,
  also on cyclic compression pointers, the name fits into the buffer with its terminator, and the
  caller is told to skip no more than what is left of the message.
\<close>

theorem dns_read_name_bounds:
  assumes "unat len \<le> length msg" "pos \<le> len" "0 < osz"
  shows "\<exists>c out. dns_read_name msg len pos osz = Some (c, out) \<and> length out < osz \<and> unat pos + unat c \<le> unat len"
proof -
  obtain c out where "dns_read_name msg len pos osz = Some (c, out)" "length out < osz" "unat c \<le> unat len - unat pos"
    using dns_read_name_total [OF assms(1,3)] assms(2) by metis
  then show ?thesis using assms(2) by (simp add: word_le_nat_alt)
qed

theorem dns_read_name_bounds_witness:
  "\<exists>c out. dns_read_name [0xC0, 0] 2 0 255 = Some (c, out) \<and> length out < 255 \<and> unat (0 :: u16) + unat c \<le> unat (2 :: u16)"
  by (rule dns_read_name_bounds) simp_all

lemma skip_questions_safe: "unat len \<le> length data \<Longrightarrow> \<exists>p. skip_questions k data len pos = Some p"
proof (induction k arbitrary: pos)
  case (Suc k)
  obtain c out where "dns_read_name data len pos 255 = Some (c, out)"
    by (rule dns_read_name_total [OF Suc(2), where osz = 255 and pos = pos]) simp_all
  then show ?case using Suc by (simp add: dns_skip_name_def)
qed simp

lemma scan_answers_safe: "unat len \<le> length data \<Longrightarrow> \<exists>r. scan_answers k data len pos = Some r"
proof (induction k arbitrary: pos)
  case (Suc k)
  obtain c out where "dns_read_name data len pos 255 = Some (c, out)"
    by (rule dns_read_name_total [OF Suc(2), where osz = 255 and pos = pos]) simp_all
  then show ?case using Suc by (simp add: Let_def)
qed simp

lemma dns_finish_buf [simp]: "frame_buf (dns_finish ip n) = frame_buf n"
  by (simp add: dns_finish_def on_resolved_def tcp_connect_def Let_def split: option.split dns_handler.split)

lemma dns_on_response_safe:
  assumes "unat len \<le> length data"
  shows "\<exists>n'. dns_on_response data len n = Some n' \<and> frame_buf n' = frame_buf n"
proof -
  let ?k = "unat (get16n data 4)"
  obtain p r where "skip_questions ?k data len 12 = Some p" "scan_answers ?k data len p = Some r"
    using skip_questions_safe [OF assms] scan_answers_safe [OF assms] by metis
  then show ?thesis using assms by (cases r) (simp_all add: dns_on_response_def Let_def)
qed

section \<open>Names survive the wire\<close>

fun join_labels :: "cstr list \<Rightarrow> cstr" where
  "join_labels [] = []"
| "join_labels [l] = l"
| "join_labels (l # ls) = l @ dot # join_labels ls"

definition valid_label :: "cstr \<Rightarrow> bool" where
  "valid_label l \<longleftrightarrow> l \<noteq> [] \<and> length l \<le> 63 \<and> dot \<notin> set l \<and> 0 \<notin> set l"

definition wire_name :: "cstr list \<Rightarrow> u8 list" where
  "wire_name ls = concat (map (\<lambda>l. of_nat (length l) # l) ls) @ [0]"

lemma wire_name_simps [simp]: "wire_name [] = [0]" "wire_name (l # ls) = of_nat (length l) # l @ wire_name ls"
  by (simp_all add: wire_name_def)

lemma join_labels_Cons: "join_labels (l # ls) = l @ (if ls = [] then [] else dot # join_labels ls)"
  by (cases ls) simp_all

lemma length_wire_name: "ls \<noteq> [] \<Longrightarrow> length (wire_name ls) = length (join_labels ls) + 2"
  by (induction ls rule: join_labels.induct) simp_all

lemma unat_label_length: "valid_label l \<Longrightarrow> unat (of_nat (length l) :: u8) = length l"
  by (simp add: valid_label_def unat_of_nat)

lemma label_len_append:
  assumes "valid_label l" "rest = [] \<or> deref rest = dot" "k \<le> length l"
  shows "label_len (l @ rest) (of_nat k) = Some (of_nat (length l))"
  using assms(3)
proof (induction "length l - k" arbitrary: k)
  case 0
  then have "k = length l" by simp
  then show ?case using assms(2) unat_label_length [OF assms(1)] by (subst label_len.simps) (auto simp: Let_def)
next
  case (Suc d)
  then have k: "k < length l" by simp
  have u: "unat (of_nat k :: u8) = k" using k assms(1) by (simp add: valid_label_def unat_of_nat)
  have "drop k l = l ! k # drop (Suc k) l" using k by (simp add: Cons_nth_drop_Suc)
  moreover have "l ! k \<noteq> 0" "l ! k \<noteq> dot" using assms(1) nth_mem [OF k] by (metis valid_label_def)+
  ultimately have "label_len (l @ rest) (of_nat k) = label_len (l @ rest) (of_nat (Suc k))"
    using k u by (subst label_len.simps) (simp add: Let_def add.commute)
  then show ?case using Suc k by (metis Suc_leI diff_Suc_1' Suc_diff_Suc)
qed

lemma write_labels_join:
  assumes "\<forall>l \<in> set ls. valid_label l" "length out + length (wire_name ls) \<le> cap"
  shows "write_labels cap out (join_labels ls) = Some (out @ wire_name ls)"
  using assms
proof (induction ls arbitrary: out)
  case Nil
  then show ?case by (subst write_labels.simps) (simp add: emit_def)
next
  case (Cons l ls)
  let ?rest = "if ls = [] then [] else dot # join_labels ls" and ?len = "of_nat (length l) :: u8"
  have l: "valid_label l" using Cons(2) by simp
  then have len: "unat ?len = length l" "?len \<noteq> 0" "\<not> ?len > 63"
    using unat_label_length [OF l] by (auto simp: valid_label_def word_less_nat_alt simp flip: unat_eq_zero)
  have "deref (l @ ?rest) \<noteq> 0" using l by (cases l) (auto simp: valid_label_def)
  moreover have "label_len (l @ ?rest) 0 = Some ?len" using label_len_append [OF l, of ?rest 0] by simp
  moreover have "next_label ?len (l @ ?rest) = join_labels ls" using len(1) by (simp add: next_label_def)
  moreover have "emit cap out (?len # l) = Some (out @ ?len # l)" using Cons(3) by (simp add: emit_def)
  ultimately have "write_labels cap out (l @ ?rest) = write_labels cap (out @ ?len # l) (join_labels ls)"
    using len by (subst write_labels.simps) simp
  then show ?case using Cons by (simp add: join_labels_Cons)
qed

lemma label_not_pointer: "valid_label l \<Longrightarrow> (of_nat (length l) :: u8) AND 0xC0 \<noteq> 0xC0"
proof -
  assume "valid_label l"
  moreover have "\<forall>k \<in> set [0..<64]. (of_nat k :: u8) AND 0xC0 \<noteq> 0xC0" by code_simp
  ultimately show ?thesis by (simp add: valid_label_def del: upt_rec_numeral)
qed

lemma drop_eq_ConsD: "drop i xs = y # ys \<Longrightarrow> i < length xs \<and> xs ! i = y \<and> drop (i + 1) xs = ys"
  by (cases "i < length xs") (auto simp: Cons_nth_drop_Suc [symmetric])

lemma read_name_wire:
  assumes "\<forall>l \<in> set ls. valid_label l" "drop pos msg = wire_name ls @ post" "pos + length (wire_name ls) \<le> mlen"
    "length out + length (wire_name ls) \<le> (if out = [] then osz + 1 else osz)"
  shows "read_name msg mlen osz pos c False j out =
    Some (c + length (wire_name ls), out @ (if out = [] \<or> ls = [] then join_labels ls else dot # join_labels ls))"
  using assms
proof (induction ls arbitrary: pos c out)
  case Nil
  then have "pos < length msg" "msg ! pos = 0" "pos < mlen" using drop_eq_ConsD [of pos msg 0 post] by simp_all
  then show ?case by (subst read_name.simps) simp
next
  case (Cons l ls)
  let ?len = "of_nat (length l) :: u8"
  have l: "valid_label l" and u: "unat ?len = length l" using Cons(2) unat_label_length by auto
  have p: "pos < length msg" "msg ! pos = ?len" "drop (pos + 1) msg = l @ wire_name ls @ post"
    using drop_eq_ConsD [of pos msg ?len "l @ wire_name ls @ post"] Cons(3) by simp_all
  have len: "?len \<noteq> 0" using l u by (auto simp: valid_label_def simp flip: unat_eq_zero)
  let ?out = "(if out = [] then l else out @ dot # l)"
  have sl: "slice (pos + 1) (length l) msg = l" using p(3) by (simp add: slice_def)
  have "length msg - (pos + 1) = length l + length (wire_name ls @ post)"
    using arg_cong [OF p(3), of length] by (simp only: length_drop length_append)
  then have fit: "pos + 1 + length l \<le> length msg" using p(1) by linarith
  have wl: "1 \<le> length (wire_name ls)" by (simp add: wire_name_def)
  have "add_label osz msg (pos + 1) (length l) out = Some ?out"
    using Cons(5) sl fit wl by (cases "out = []") (auto simp: add_label_def Let_def min_absorb1)
  then have "read_name msg mlen osz pos c False j out = read_name msg mlen osz (pos + 1 + length l) (c + 1 + length l) False j ?out"
    using p u len label_not_pointer [OF l] Cons(4) by (subst read_name.simps) (simp add: Let_def)
  also have "\<dots> = Some (c + 1 + length l + length (wire_name ls), ?out @ (if ?out = [] \<or> ls = [] then join_labels ls else dot # join_labels ls))"
  proof (rule Cons(1))
    have "drop (pos + 1 + length l) msg = drop (length l) (drop (pos + 1) msg)" by (simp add: add.commute)
    then show "drop (pos + 1 + length l) msg = wire_name ls @ post" unfolding p(3) by simp
    show "length ?out + length (wire_name ls) \<le> (if ?out = [] then osz + 1 else osz)" using Cons(5) l by (auto simp: valid_label_def)
  qed (use Cons(2,4) in auto)
  finally show ?case using l by (auto simp: join_labels_Cons valid_label_def)
qed

text \<open>
  A name of valid labels (1 to 63 characters each, 255 bytes in wire format) is encoded without
  overflowing the query buffer, and decoding it where it stands in a message gives the name back
  and the number of bytes of its encoding.
\<close>

theorem dns_name_roundtrip:
  assumes "ls \<noteq> []" "\<forall>l \<in> set ls. valid_label l" "length (wire_name ls) \<le> 255"
    "unat pos = length pre" "length pre + length (wire_name ls) \<le> unat len"
  shows "\<exists>q. dns_write_name 259 (join_labels ls) = Some q \<and> length q = length (join_labels ls) + 2 \<and>
    dns_read_name (pre @ q @ post) len pos 255 = Some (of_nat (length q), join_labels ls)"
proof (intro exI conjI)
  show "dns_write_name 259 (join_labels ls) = Some (wire_name ls)"
    using write_labels_join [OF assms(2), of "[]" 259] assms(3) by (simp add: dns_write_name_def)
  show "length (wire_name ls) = length (join_labels ls) + 2" by (rule length_wire_name [OF assms(1)])
  have "read_name (pre @ wire_name ls @ post) (unat len) 255 (unat pos) 0 False 0 [] = Some (0 + length (wire_name ls), [] @ join_labels ls)"
    using read_name_wire [OF assms(2), of "length pre" "pre @ wire_name ls @ post" post "unat len" "[]" 255 0 0] assms(3-5) by simp
  then show "dns_read_name (pre @ wire_name ls @ post) len pos 255 = Some (of_nat (length (wire_name ls)), join_labels ls)"
    by (simp add: dns_read_name_def)
qed

theorem dns_name_roundtrip_witness:
  "\<exists>q. dns_write_name 259 (cstr_lit ''ab.c'') = Some q \<and> length q = length (cstr_lit ''ab.c'') + 2 \<and>
    dns_read_name (replicate 12 0 @ q @ [0, 1]) 20 12 255 = Some (of_nat (length q), cstr_lit ''ab.c'')"
  using dns_name_roundtrip [of "[cstr_lit ''ab'', cstr_lit ''c'']" 12 "replicate 12 0" 20 "[0, 1]"]
  by (simp add: cstr_lit_def valid_label_def)

section \<open>Long labels\<close>

lemma label_len_stops: "label_len l k = Some r \<Longrightarrow> deref (drop (unat r) l) = 0 \<or> deref (drop (unat r) l) = dot"
  by (induction rule: label_len.raw_induct [rotated 1, consumes 1]) (auto simp: Let_def split: if_splits)

text \<open>The 8-bit counter never reaches the end of a label of 256 characters: encoding such a name does not return.\<close>

lemma dns_write_name_diverges:
  assumes "length l = 256" "\<forall>c \<in> set l. c \<noteq> 0 \<and> c \<noteq> dot"
  shows "dns_write_name cap l = None"
proof -
  have at: "deref (drop (unat r) l) \<in> set l" for r :: u8
    using unat_u8_bound [of r] assms(1) by (simp add: Cons_nth_drop_Suc [symmetric])
  have "label_len l 0 = None" using label_len_stops [of l 0] at assms(2) by (cases "label_len l 0") blast+
  moreover have "deref l \<noteq> 0" using at [of 0] assms(2) by auto
  ultimately show ?thesis unfolding dns_write_name_def by (subst write_labels.simps) simp
qed

end
