(* ===== verification/Net.thy ===== *)
theory Net
  imports Dns
begin

text \<open>
  The receiving side of the network stack (\<^verbatim>\<open>kernel/kernel/net.c\<close>): demultiplexing of UDP and IP, and
  \<^verbatim>\<open>net_poll\<close>, which drains the queue of the card; and \<^verbatim>\<open>udp_echo\<close> of \<^verbatim>\<open>kernel/kernel/kernel.c\<close>.
\<close>

section \<open>Operations\<close>

text \<open>Printing reads the first 40 bytes of the datagram; the echo copies all of it.\<close>

definition udp_echo :: "u32 \<Rightarrow> u16 \<Rightarrow> u8 list \<Rightarrow> u16 \<Rightarrow> net \<Rightarrow> net option" where
  "udp_echo src_ip src_port data len n =
     (if min 40 (unat len) > length data then None
      else map_option snd (udp_send src_ip 7777 src_port data len n))"

definition udp_call :: "udp_handler \<Rightarrow> u32 \<Rightarrow> u16 \<Rightarrow> u8 list \<Rightarrow> u16 \<Rightarrow> net \<Rightarrow> net option" where
  "udp_call h src_ip src_port data len n =
     (case h of Dns_on_response \<Rightarrow> dns_on_response data len n | Udp_echo \<Rightarrow> udp_echo src_ip src_port data len n)"

definition udp_handle :: "u32 \<Rightarrow> u8 list \<Rightarrow> u16 \<Rightarrow> net \<Rightarrow> net option" where
  "udp_handle src_ip udp udp_len n =
     (if unat udp_len < UDP_SIZE then Some n
      else if length udp < UDP_SIZE then None
      else let dst_port = get16n udp 2;
               src_port = get16n udp 0;
               stated = get16n udp 4;
               stated = (if stated > udp_len then udp_len else stated);
               payload_len = stated - of_nat UDP_SIZE
           in case find (\<lambda>b. bused b \<and> bport b = dst_port) (udp_bindings n) of
                Some b \<Rightarrow> udp_call (bhandler b) src_ip src_port (drop UDP_SIZE udp) payload_len n
              | None \<Rightarrow> Some n)"

definition ip_handle :: "u8 list \<Rightarrow> nat \<Rightarrow> net \<Rightarrow> net option" where
  "ip_handle frame len n =
     (if len < ETH_SIZE + IP_SIZE then Some n
      else let ip = drop ETH_SIZE frame in
        if drop_bit 4 (ip ! 0) \<noteq> 4 then Some n
        else let header_len = unat (ip ! 0 AND 0x0F) * 4;
                 dst = get32n ip 16;
                 src = get32n ip 12;
                 len_field = unat (get16n ip 2)
             in if dst \<noteq> NET_OUR_IP then Some n
                else if len_field < header_len then Some n
                else let payload_len = len_field - header_len;
                         payload = drop header_len ip
                     in if ip ! 9 = IP_PROTO_ICMP then
                          (if payload_len < ICMP_SIZE then Some n else icmp_handle src payload payload_len n)
                        else if ip ! 9 = IP_PROTO_UDP then udp_handle src payload (of_nat payload_len) n
                        else if ip ! 9 = IP_PROTO_TCP then tcp_handle src payload (of_nat payload_len) n
                        else Some n)"

text \<open>One round of the loop of \<^verbatim>\<open>net_poll\<close>: the frame is copied over the start of the buffer.\<close>

definition handle_frame :: "u8 list \<Rightarrow> net \<Rightarrow> net option" where
  "handle_frame f n =
     (let n = n\<lparr>frame_buf := splice (frame_buf n) 0 f\<rparr>; len = length f in
      if len < ETH_SIZE then Some n
      else let ty = get16n (frame_buf n) 12 in
        if ty = ETHERTYPE_ARP then Some (arp_handle (frame_buf n) len n)
        else if ty = ETHERTYPE_IP then ip_handle (frame_buf n) len n
        else Some n)"

partial_function (option) net_poll :: "net \<Rightarrow> net option" where
  "net_poll n =
     (case e1000_poll_frame (nic n) of
        (None, e) \<Rightarrow> Some (n\<lparr>nic := e\<rparr>)
      | (Some f, e) \<Rightarrow> Option.bind (handle_frame f (n\<lparr>nic := e\<rparr>)) net_poll)"

section \<open>Polling drains the queue\<close>

lemma udp_handle_rx [simp]: "udp_handle src xs len (with_rx r n) = map_option (with_rx r) (udp_handle src xs len n)"
  by (simp add: udp_handle_def udp_call_def udp_echo_def Let_def option.map_comp comp_def
      split: option.split udp_handler.split)

lemma ip_handle_rx [simp]: "ip_handle xs len (with_rx r n) = map_option (with_rx r) (ip_handle xs len n)"
  by (simp add: ip_handle_def Let_def)

lemma handle_frame_rx [simp]: "handle_frame f (with_rx r n) = map_option (with_rx r) (handle_frame f n)"
  by (simp add: handle_frame_def Let_def)

lemma handle_frame_queue: "handle_frame f n = Some n' \<Longrightarrow> rx_queue n' = rx_queue n"
  using handle_frame_rx [of f "rx_queue n" n] by (auto dest: arg_cong [where f = rx_queue])

text \<open>The queued frames, one after the other.\<close>

fun handle_frames :: "u8 list list \<Rightarrow> net \<Rightarrow> net option" where
  "handle_frames [] n = Some n"
| "handle_frames (f # fs) n = Option.bind (handle_frame f n) (handle_frames fs)"

definition drained :: "net \<Rightarrow> net" where
  "drained n = with_rx (netq (nic n), netq_tail (nic n), netq_tail (nic n)) n"

lemma handle_frames_rx [simp]: "handle_frames fs (with_rx r n) = map_option (with_rx r) (handle_frames fs n)"
  by (induction fs arbitrary: n) (simp_all add: map_option_bind bind_map_option comp_def)

lemma handle_frames_queue: "handle_frames fs n = Some n' \<Longrightarrow> rx_queue n' = rx_queue n"
  using handle_frames_rx [of fs "rx_queue n" n] by (auto dest: arg_cong [where f = rx_queue])

lemma drained_alt: "drained n = (case rx_queue n of (q, h, t) \<Rightarrow> with_rx (q, t, t) n)"
  by (simp add: drained_def rx_queue_def)

lemma netq_frames_alt: "netq_frames (nic n) = (case rx_queue n of (q, h, t) \<Rightarrow> ring_list 8 q h t)"
  and netq_inv_alt: "netq_inv (nic n) = (case rx_queue n of (q, h, t) \<Rightarrow> h < 8 \<and> t < 8)"
  by (simp_all add: netq_frames_def netq_inv_def rx_queue_def)

lemma net_poll_spec:
  assumes "netq_inv (nic n)"
  shows "net_poll n = map_option drained (handle_frames (netq_frames (nic n)) n)"
  using assms
proof (induction "length (netq_frames (nic n))" arbitrary: n)
  case 0
  then have "netq_head (nic n) = netq_tail (nic n)"
    by (auto simp: netq_frames_def netq_inv_def ring_count_cases split: if_splits)
  moreover from this have "drained n = n"
    using with_rx_fields(12) [of n] by (simp add: drained_alt rx_queue_def)
  ultimately show ?case using 0(1) by (subst net_poll.simps) (simp add: e1000_poll_frame_def)
next
  case (Suc k)
  obtain q h t where r: "rx_queue n = (q, h, t)" by (cases "rx_queue n")
  then have b: "h < 8" "t < 8" and fr: "netq_frames (nic n) = ring_list 8 q h t"
    using Suc(3) by (simp_all add: netq_inv_alt netq_frames_alt)
  have nic: "netq (nic n) = q" "netq_head (nic n) = h" "netq_tail (nic n) = t" using r by (simp_all add: rx_queue_def)
  have ne: "h \<noteq> t" using Suc(2) fr b by (auto simp: ring_count_cases)
  let ?r = "(q, (h + 1) mod 8, t)" and ?fs = "ring_list 8 q ((h + 1) mod 8) t"
  have fs: "netq_frames (nic n) = q h # ?fs" using ring_pop [OF b ne] fr by simp
  have "n\<lparr>nic := (nic n)\<lparr>netq_head := (h + 1) mod 8\<rparr>\<rparr> = with_rx ?r n"
    unfolding with_rx_def fst_conv snd_conv nic(1,3) [symmetric] by simp
  then have step: "net_poll n = Option.bind (handle_frame (q h) (with_rx ?r n)) net_poll"
    using ne nic by (subst net_poll.simps) (simp add: e1000_poll_frame_def)
  show ?case
  proof (cases "handle_frame (q h) n")
    case None
    then show ?thesis using step fs by simp
  next
    case (Some m)
    have rm: "rx_queue m = (q, h, t)" using handle_frame_queue [OF Some] r by simp
    have "netq_inv (nic (with_rx ?r m))" "netq_frames (nic (with_rx ?r m)) = ?fs"
      using b by (simp_all add: netq_inv_alt netq_frames_alt)
    moreover from this(2) have "k = length (netq_frames (nic (with_rx ?r m)))" using Suc(2) fs by simp
    ultimately have "net_poll (with_rx ?r m) = map_option drained (handle_frames ?fs (with_rx ?r m))"
      using Suc(1) by metis
    also have "\<dots> = map_option drained (handle_frames ?fs m)"
      using handle_frames_queue [of ?fs m] rm by (cases "handle_frames ?fs m") (simp_all add: drained_alt)
    finally show ?thesis using step fs Some by simp
  qed
qed

section \<open>Honest frames are handled without faults\<close>

text \<open>
  The stack trusts two fields of a packet: the total length of the IP header, which decides how
  far the payload reaches, and the length in the UDP header, from which 8 is subtracted. A frame
  is honest when these agree with its real length.
\<close>

definition honest_frame :: "u8 list \<Rightarrow> bool" where
  "honest_frame f \<longleftrightarrow> length f \<le> E1000_FRAME_MAX \<and>
     (let hl = unat (f ! 14 AND 0x0F) * 4; ip_len = unat (get16n f 16) in
      ETH_SIZE + IP_SIZE \<le> length f \<longrightarrow>
        ETH_SIZE + ip_len \<le> length f \<and> (f ! 23 = IP_PROTO_UDP \<and> hl + UDP_SIZE \<le> ip_len \<longrightarrow> unat (get16n f (ETH_SIZE + hl + 4)) \<ge> UDP_SIZE))"

lemma udp_call_safe: "unat len \<le> length d \<Longrightarrow> \<exists>n'. udp_call h src port d len n = Some n' \<and> frame_buf n' = frame_buf n"
proof (cases h)
  case Udp_echo
  moreover assume "unat len \<le> length d"
  ultimately have "udp_call h src port d len n = Some (if len > 1024 then n else snd (ip_send src 17
      (put16n 7777 @ put16n port @ put16n (8 + len) @ [0, 0] @ take (unat len) d) n))"
    by (simp add: udp_call_def udp_echo_def udp_send_def del: map_option_eq_Some)
  then show ?thesis by simp
qed (simp add: udp_call_def dns_on_response_safe)

lemma udp_handle_safe:
  assumes "unat len \<le> length udp" "UDP_SIZE \<le> unat len \<longrightarrow> UDP_SIZE \<le> unat (get16n udp 4)"
  shows "\<exists>n'. udp_handle src udp len n = Some n' \<and> frame_buf n' = frame_buf n"
proof (cases "unat len < 8")
  case False
  let ?stated = "if get16n udp 4 > len then len else get16n udp 4"
  have "8 \<le> unat ?stated" "unat ?stated \<le> unat len" using False assms(2) by (auto simp: word_less_nat_alt)
  then have "unat (?stated - 8) \<le> length (drop 8 udp)" using assms(1) by (subst unat_sub) (auto simp: word_le_nat_alt)
  note u = udp_call_safe [OF this]
  show ?thesis using False assms(1) u by (auto simp: udp_handle_def Let_def split: option.split)
qed (simp add: udp_handle_def)

lemma ip_handle_safe:
  assumes "honest_frame f" "length g = 1518 - length f"
  shows "\<exists>n'. ip_handle (f @ g) (length f) n = Some n' \<and> frame_buf n' = frame_buf n"
proof (cases "length f < 34")
  case False
  let ?ip = "drop 14 (f @ g)"
  let ?hl = "unat (f ! 14 AND 0x0F) * 4" and ?tl = "unat (get16n f 16)"
  have hon: "length f \<le> 1518" "14 + ?tl \<le> length f"
    "f ! 23 = 17 \<and> ?hl + 8 \<le> ?tl \<longrightarrow> 8 \<le> unat (get16n f (14 + ?hl + 4))"
    using assms(1) False by (simp_all add: honest_frame_def Let_def)
  have f: "?ip ! 0 = f ! 14" "?ip ! 9 = f ! 23" "get16n ?ip 2 = get16n f 16"
    using False by (simp_all add: nth_append get16n_drop get16n_append del: drop_append)
  have len: "?tl - ?hl \<le> length (drop ?hl ?ip)" using hon(1,2) assms(2) by simp
  have u: "unat (of_nat (?tl - ?hl) :: u16) = ?tl - ?hl" using unat_u16_bound [of "get16n f 16"] by (simp add: unat_of_nat)
  have icmp: "\<exists>n'. icmp_handle s (drop ?hl ?ip) (?tl - ?hl) n = Some n' \<and> frame_buf n' = frame_buf n" for s
    using len by (auto simp: icmp_handle_def icmp_send_reply_def)
  have tcp: "\<exists>n'. tcp_handle s (drop ?hl ?ip) (of_nat (?tl - ?hl)) n = Some n' \<and> frame_buf n' = frame_buf n" for s
    using len u tcp_handle_safe [of "of_nat (?tl - ?hl)" "drop ?hl ?ip"] by simp
  have udp: "\<exists>n'. udp_handle s (drop ?hl ?ip) (of_nat (?tl - ?hl)) n = Some n' \<and> frame_buf n' = frame_buf n" if "f ! 23 = 17" for s
  proof (rule udp_handle_safe)
    show "8 \<le> unat (of_nat (?tl - ?hl) :: u16) \<longrightarrow> 8 \<le> unat (get16n (drop ?hl ?ip) 4)"
      using hon that u by (auto simp: get16n_drop get16n_append ac_simps simp del: drop_append)
  qed (use len u in simp)
  show ?thesis
    using False icmp tcp udp by (auto simp: ip_handle_def f Let_def simp del: drop_append of_nat_diff)
qed (simp add: ip_handle_def)

lemma handle_frame_safe:
  assumes "honest_frame f" "length (frame_buf n) = 1518"
  shows "\<exists>n'. handle_frame f n = Some n' \<and> length (frame_buf n') = 1518"
proof -
  let ?n = "n\<lparr>frame_buf := splice (frame_buf n) 0 f\<rparr>"
  have "length f \<le> 1518" using assms(1) by (simp add: honest_frame_def)
  then have s: "length (splice (frame_buf n) 0 f) = 1518" using assms(2) by simp
  have "splice (frame_buf n) 0 f = f @ drop (length f) (frame_buf n)" by (simp add: splice_def)
  then obtain n' where "ip_handle (splice (frame_buf n) 0 f) (length f) ?n = Some n'" "frame_buf n' = splice (frame_buf n) 0 f"
    using ip_handle_safe [OF assms(1), of "drop (length f) (frame_buf n)" ?n] assms(2) by auto
  then show ?thesis using s by (simp add: handle_frame_def Let_def)
qed

lemma handle_frames_safe:
  "\<forall>f \<in> set fs. honest_frame f \<Longrightarrow> length (frame_buf n) = 1518 \<Longrightarrow> \<exists>n'. handle_frames fs n = Some n'"
proof (induction fs arbitrary: n)
  case (Cons f fs)
  then show ?case using handle_frame_safe [of f n] by auto
qed simp

lemma drained_empty: "netq_inv (nic n) \<Longrightarrow> netq_frames (nic (drained n)) = []"
  by (cases "rx_queue n") (simp add: netq_frames_alt netq_inv_alt drained_alt ring_empty_iff)


section \<open>Pings are answered\<close>

definition next_hop :: "u32 \<Rightarrow> u32" where
  "next_hop ip = (if ip AND 0xFFFFFF00 = NET_OUR_IP AND 0xFFFFFF00 then ip else NET_GATEWAY_IP)"

text \<open>An echo request for this host: an Ethernet frame with an IP header of 20 bytes and an ICMP message.\<close>

definition echo_request :: "u8 list \<Rightarrow> bool" where
  "echo_request f \<longleftrightarrow> 42 \<le> length f \<and> length f \<le> 1518 \<and> get16n f 12 = ETHERTYPE_IP \<and> f ! 14 = 0x45 \<and>
     get16n f 16 = of_nat (length f - 14) \<and> f ! 23 = IP_PROTO_ICMP \<and> get32n f 30 = NET_OUR_IP \<and> f ! 34 = 8"

lemma ip_send_wire:
  assumes "arp_lookup (next_hop d) n = Some hw" "tx_ready (nic n)" "length hw = 6" "length (mac (nic n)) = 6" "length xs \<le> 1500"
  shows "wire (nic (snd (ip_send d p xs n))) = wire (nic n) @
    [eth_build hw ETHERTYPE_IP n @ ip_header d p (of_nat (length xs)) (ip_id_counter n) @ xs]"
  using assms by (simp add: ip_send_def next_hop_def send_frame_def e1000_send_def eth_build_def Let_def)

lemma echo_request_handled:
  assumes "echo_request f" "length (frame_buf n) = 1518"
  shows "handle_frame f n = Some (snd (ip_send (get32n f 26) IP_PROTO_ICMP (icmp_checked ((drop 34 f)[0 := 0]))
    (n\<lparr>frame_buf := splice (frame_buf n) 0 f\<rparr>)))"
proof -
  let ?b = "splice (frame_buf n) 0 f" and ?n = "n\<lparr>frame_buf := splice (frame_buf n) 0 f\<rparr>"
  have b: "?b = f @ drop (length f) (frame_buf n)" by (simp add: splice_def)
  have f: "42 \<le> length f" "length f \<le> 1518" "f ! 14 = 0x45" "f ! 23 = 1" "f ! 34 = 8" using assms(1) by (simp_all add: echo_request_def)
  have len: "unat (of_nat (length f - 14) :: u16) = length f - 14" using f by (simp add: unat_of_nat del: of_nat_diff)
  have g: "get16n ?b 12 = 0x0800" "get16n (drop 14 ?b) 2 = of_nat (length f - 14)" "get32n (drop 14 ?b) 16 = NET_OUR_IP"
    "get32n (drop 14 ?b) 12 = get32n f 26" "drop 14 ?b ! 0 = 0x45" "drop 14 ?b ! 9 = 1"
    using assms(1) f unfolding b by (simp_all add: echo_request_def get16n_drop get32n_drop get16n_append get32n_append nth_append del: drop_append)
  have d: "drop 20 (drop 14 ?b) = drop 34 ?b" "drop 34 ?b ! 0 = 8" "take (length f - 34) (drop 34 ?b) = drop 34 f"
    using f unfolding b by (simp_all add: nth_append)
  have a: "\<not> length f - 34 < 8" "\<not> length f - 14 < 20" "length f - 14 - 20 = length f - 34" using f by linarith+
  have "ip_handle ?b (length f) ?n = icmp_handle (get32n f 26) (drop 34 ?b) (length f - 34) ?n"
    using f len g d(1) a by (simp add: ip_handle_def Let_def del: drop_drop of_nat_diff)
  also have "\<dots> = Some (snd (ip_send (get32n f 26) IP_PROTO_ICMP (icmp_checked ((drop 34 f)[0 := 0])) ?n))"
    using f assms(2) d(2,3) by (simp add: icmp_handle_def icmp_send_reply_def)
  finally show ?thesis using f(1) g(1) by (simp add: handle_frame_def Let_def)
qed


section \<open>Examples\<close>

definition ping_example :: "u8 list" where
  "ping_example = [2, 0, 0, 0, 0, 1, 2, 0, 0, 0, 0, 9, 8, 0,
     0x45, 0, 0, 28, 0, 1, 0, 0, 64, 1, 0, 0, 10, 0, 2, 2, 10, 0, 2, 15,
     8, 0, 0, 0, 0x12, 0x34, 0, 1]"

lemmas packet_fields = get16n_def get32n_def slice_def un_le16_def un_le32_def htons_def htonl_def

lemma ping_example_fields:
  "echo_request ping_example" "get32n ping_example 26 = 0x0A000202" "honest_frame ping_example"
  by (simp_all add: ping_example_def echo_request_def honest_frame_def packet_fields)


definition poll_example :: net where
  "poll_example = net_example\<lparr>nic := e1000_example\<lparr>netq := (\<lambda>_. ping_example), netq_tail := 2\<rparr>\<rparr>"


section \<open>A frame that lies about its length\<close>

text \<open>
  An echo request whose IP header claims more than the buffer holds makes the reply read past the
  end of the buffer.
\<close>

lemma lying_frame_faults:
  "handle_frame (ping_example[16 := 5, 17 := 0xF0]) net_example = None"
proof -
  let ?f = "ping_example[16 := 5, 17 := 0xF0]" and ?b = "splice (frame_buf net_example) 0 (ping_example[16 := 5, 17 := 0xF0])"
  have b: "?b = ?f @ replicate 1476 0" by (simp add: splice_def net_example_def ping_example_def)
  show ?thesis
    unfolding handle_frame_def Let_def ip_handle_def icmp_handle_def icmp_send_reply_def
    by (simp add: b) (simp add: ping_example_def packet_fields)
qed

end
