(* ===== verification/Audio.thy ===== *)
theory Audio
  imports Fifo Libc Vfs
begin

text \<open>
  Playback of WAV files (\<^verbatim>\<open>kernel/kernel/wav.c\<close>) through the AC97 driver (\<^verbatim>\<open>arch/i386/ac97.c\<close>). The reader
  thread fills a ring of samples from the file, and the driver's poll empties it into the buffers
  of the card. The bus master registers of the card are part of the state or arguments.
\<close>

section \<open>State\<close>

type_synonym sample = u16

datatype wav_source = Src_none | Src_mem "u8 list" | Src_node vref

record audio =
  wring :: "nat \<Rightarrow> sample"
  ring_head :: nat
  ring_tail :: nat
  wsource :: wav_source
  wav_data_offset :: u32
  wav_data_size :: u32
  wav_read_pos :: u32
  wav_channels :: u16
  wav_playing :: bool
  wav_file_done :: bool
  wfs :: vfs_state
  bdl_ready :: bool
  fill_set :: bool
  playing :: bool
  lvi :: nat
  card_bufs :: "nat \<Rightarrow> sample list"
  submitted :: "sample list list"

text \<open>\<open>submitted\<close> records the buffers in the order in which the driver hands them to the card.\<close>

abbreviation (input) RING_SAMPLES :: nat where "RING_SAMPLES \<equiv> 96000"
abbreviation (input) AC97_CHANNELS :: nat where "AC97_CHANNELS \<equiv> 2"
abbreviation (input) AC97_SAMPLE_RATE :: u32 where "AC97_SAMPLE_RATE \<equiv> 48000"
abbreviation (input) BUF_FRAMES :: nat where "BUF_FRAMES \<equiv> 1024"
abbreviation (input) NUM_BUFFERS :: nat where "NUM_BUFFERS \<equiv> 32"

section \<open>The sample ring\<close>

text \<open>
  Reading the source. A memory source is the array (shorter than 4 GB); a node is a file, so the
  read neither blocks nor changes the file system.
\<close>

definition src_read :: "wav_source \<Rightarrow> vfs_state \<Rightarrow> u32 \<Rightarrow> u32 \<Rightarrow> u8 list" where
  "src_read src s off len =
     (case src of
        Src_mem data \<Rightarrow>
          if unat off \<ge> length data then []
          else let avail = length data - unat off
               in slice (unat off) (if unat len > avail then avail else unat len) data
      | Src_node v \<Rightarrow> (case fst (vfs_read 0 (Some v) off len s) of Some bs \<Rightarrow> bs | None \<Rightarrow> [])
      | Src_none \<Rightarrow> [])"

definition ring_available :: "audio \<Rightarrow> nat" where
  "ring_available a = (ring_tail a + RING_SAMPLES - ring_head a) mod RING_SAMPLES"

definition ring_space :: "audio \<Rightarrow> nat" where
  "ring_space a = RING_SAMPLES - ring_available a - 1"

fun pop_samples :: "nat \<Rightarrow> audio \<Rightarrow> sample list \<times> audio" where
  "pop_samples 0 a = ([], a)"
| "pop_samples (Suc n) a =
     (case pop_samples n (a\<lparr>ring_head := (ring_head a + 1) mod RING_SAMPLES\<rparr>) of
        (xs, b) \<Rightarrow> (wring a (ring_head a) # xs, b))"

definition wav_fill :: "nat \<Rightarrow> audio \<Rightarrow> (sample list \<times> nat) \<times> audio" where
  "wav_fill frames a =
     (let want = frames * AC97_CHANNELS; avail = ring_available a in
      if avail < want \<and> \<not> wav_file_done a then (([], 0), a)
      else if avail = 0 then (([], 0), a)
      else let n = (if avail < want then avail else want)
           in case pop_samples n a of (buf, b) \<Rightarrow> ((buf, n div AC97_CHANNELS), b))"

definition push_sample :: "sample \<Rightarrow> audio \<Rightarrow> audio" where
  "push_sample x a = a\<lparr>wring := (wring a)(ring_tail a := x), ring_tail := (ring_tail a + 1) mod RING_SAMPLES\<rparr>"

fun push_samples :: "u8 list \<Rightarrow> audio \<Rightarrow> audio" where
  "push_samples (lo # hi # bs) a =
     (let x = un_le16 [lo, hi];
          a = push_sample x a
      in push_samples bs (if wav_channels a = 1 then push_sample x a else a))"
| "push_samples _ a = a"

text \<open>How many bytes the next read asks for: at most a buffer, what is left of the data, and what the ring has room for.\<close>

definition to_read :: "audio \<Rightarrow> nat" where
  "to_read a =
     (let space = ring_space a;
          remaining = unat (wav_data_size a - wav_read_pos a);
          n = (if 4096 > remaining then remaining else 4096);
          max_bytes = (if wav_channels a = 1 then (space div 2) * 2 else space * 2)
      in if n > max_bytes then max_bytes else n)"

definition wav_read_chunk :: "(u32 \<Rightarrow> u32 \<Rightarrow> u8 list) \<Rightarrow> audio \<Rightarrow> audio" where
  "wav_read_chunk rd a =
     (if ring_space a < 1024 then a
      else if wav_data_size a - wav_read_pos a = 0 then a\<lparr>wav_file_done := True\<rparr>
      else if to_read a = 0 then a
      else let got = rd (wav_data_offset a + wav_read_pos a) (of_nat (to_read a))
           in if got = [] then a\<lparr>wav_file_done := True\<rparr>
              else push_samples got (a\<lparr>wav_read_pos := wav_read_pos a + of_nat (length got)\<rparr>))"

section \<open>Parsing\<close>

text \<open>
  The walk over the chunks of a RIFF file: the bytes of the format chunk, and offset and size of
  the data chunk. The padding byte behind a chunk of odd size is meant to be skipped, but the
  source adds \<^verbatim>\<open>size % 1\<close>, which is 0.
\<close>

fun parse_chunks :: "nat \<Rightarrow> (u32 \<Rightarrow> u32 \<Rightarrow> u8 list) \<Rightarrow> u32 \<Rightarrow> u8 list option \<Rightarrow> (u32 \<times> u32) option \<Rightarrow>
    u8 list option \<times> (u32 \<times> u32) option" where
  "parse_chunks 0 rd pos fmt dat = (fmt, dat)"
| "parse_chunks (Suc k) rd pos fmt dat =
     (if fmt \<noteq> None \<and> dat \<noteq> None then (fmt, dat)
      else let ch = rd pos 8 in
        if length ch \<noteq> 8 then (fmt, dat)
        else let sz = un_le32 (drop 4 ch); nxt = pos + 8 + sz in
          if memcmp ch (cstr_lit ''fmt '') 4 = 0 then
            (let f = rd (pos + 8) 16
             in if length f \<noteq> 16 then (fmt, dat) else parse_chunks k rd nxt (Some f) dat)
          else if memcmp ch (cstr_lit ''data'') 4 = 0 then parse_chunks k rd nxt fmt (Some (pos + 8, sz))
          else parse_chunks k rd nxt fmt dat)"

definition wav_parse :: "(u32 \<Rightarrow> u32 \<Rightarrow> u8 list) \<Rightarrow> audio \<Rightarrow> bool \<times> audio" where
  "wav_parse rd a =
     (let header = rd 0 12 in
      if length header \<noteq> 12 then (False, a)
      else if memcmp header (cstr_lit ''RIFF'') 4 \<noteq> 0 \<or> memcmp (drop 8 header) (cstr_lit ''WAVE'') 4 \<noteq> 0 then (False, a)
      else case parse_chunks 32 rd 12 None None of (fmt, dat) \<Rightarrow>
        let a = (case dat of Some (p, s) \<Rightarrow> a\<lparr>wav_data_offset := p, wav_data_size := s\<rparr> | None \<Rightarrow> a) in
        (case fmt of
           None \<Rightarrow> (False, a)
         | Some f \<Rightarrow>
             if dat = None \<or> un_le16 f \<noteq> 1 \<or> un_le16 (drop 14 f) \<noteq> 16 \<or> un_le32 (drop 4 f) \<noteq> AC97_SAMPLE_RATE \<or>
                (un_le16 (drop 2 f) \<noteq> 1 \<and> un_le16 (drop 2 f) \<noteq> 2)
             then (False, a)
             else (True, a\<lparr>wav_channels := un_le16 (drop 2 f)\<rparr>)))"

section \<open>The driver\<close>

definition refill :: "nat \<Rightarrow> audio \<Rightarrow> bool \<times> audio" where
  "refill i a =
     (case (if fill_set a then wav_fill BUF_FRAMES a else (([], 0), a)) of
        ((buf, got), a) \<Rightarrow>
          if got = 0 then (False, a)
          else let b = (if got < BUF_FRAMES then take (got * AC97_CHANNELS) buf @ replicate ((BUF_FRAMES - got) * AC97_CHANNELS) 0 else buf)
               in (True, a\<lparr>card_bufs := (card_bufs a)(i := b), submitted := submitted a @ [b]\<rparr>))"

text \<open>The loop over the buffers at the start: how many were filled.\<close>

fun fill_all :: "nat \<Rightarrow> nat \<Rightarrow> audio \<Rightarrow> nat \<times> audio" where
  "fill_all 0 i a = (0, a)"
| "fill_all (Suc n) i a =
     (case refill i a of
        (False, a) \<Rightarrow> (0, a)
      | (True, a) \<Rightarrow> (case fill_all n (i + 1) a of (c, a) \<Rightarrow> (c + 1, a)))"

definition ac97_play :: "audio \<Rightarrow> bool \<times> audio" where
  "ac97_play a =
     (if \<not> bdl_ready a then (False, a)
      else case fill_all NUM_BUFFERS 0 (a\<lparr>fill_set := True\<rparr>) of
        (filled, a) \<Rightarrow> if filled = 0 then (False, a) else (True, a\<lparr>playing := True, lvi := filled - 1\<rparr>))"

definition ac97_stop :: "audio \<Rightarrow> audio" where
  "ac97_stop a = a\<lparr>playing := False, fill_set := False\<rparr>"

text \<open>
  The loop of \<^verbatim>\<open>ac97_poll\<close>. The card reports the buffer it plays (\<open>civ\<close>) and whether it has halted
  (\<open>halted\<close>).
\<close>

function poll_loop :: "nat \<Rightarrow> bool \<Rightarrow> audio \<Rightarrow> audio" where
  "poll_loop civ halted a =
     (if lvi a \<noteq> (civ + NUM_BUFFERS - 1) mod NUM_BUFFERS then
        (let slot = (lvi a + 1) mod NUM_BUFFERS in
         case refill slot a of
           (False, b) \<Rightarrow> if halted then ac97_stop b else b
         | (True, b) \<Rightarrow> poll_loop civ halted (b\<lparr>lvi := slot\<rparr>))
      else if halted then ac97_stop a else a)"
  by pat_completeness auto

termination
proof (relation "measure (\<lambda>(civ, _, a). if lvi a < 32 then ring_count 32 (lvi a) ((civ + 31) mod 32) else 33)")
  fix civ halted a slot r b
  assume a: "lvi a \<noteq> (civ + NUM_BUFFERS - 1) mod NUM_BUFFERS" "slot = (lvi a + 1) mod NUM_BUFFERS"
  let ?w = "(civ + 31) mod 32"
  have s: "slot < 32" "?w < 32" "?w \<noteq> lvi a" using a by (simp_all add: add.commute)
  have "ring_count 32 slot ?w < (if lvi a < 32 then ring_count 32 (lvi a) ?w else 33)"
    using ring_count_pop [of "lvi a" 32 ?w] ring_count_lt [OF s(1,2)] s(3) a(2) by auto
  then show "((civ, halted, b\<lparr>lvi := slot\<rparr>), civ, halted, a) \<in>
      measure (\<lambda>(civ, _, a). if lvi a < 32 then ring_count 32 (lvi a) ((civ + 31) mod 32) else 33)"
    using s(1) by simp
qed simp

declare poll_loop.simps [simp del]

definition ac97_poll :: "nat \<Rightarrow> bool \<Rightarrow> audio \<Rightarrow> audio" where
  "ac97_poll civ halted a = (if playing a then poll_loop civ halted a else a)"

section \<open>Playing\<close>

partial_function (option) wav_prefill :: "(u32 \<Rightarrow> u32 \<Rightarrow> u8 list) \<Rightarrow> audio \<Rightarrow> audio option" where
  "wav_prefill rd a =
     (if \<not> wav_file_done a \<and> ring_space a > 1024 then wav_prefill rd (wav_read_chunk rd a) else Some a)"

text \<open>\<open>None\<close> would be the prefill loop not ending. The reader thread is created by \<^verbatim>\<open>thread_create\<close>; its rounds are steps below.\<close>

definition wav_start :: "audio \<Rightarrow> (bool \<times> audio) option" where
  "wav_start a =
     (let rd = src_read (wsource a) (wfs a);
          a = a\<lparr>wav_read_pos := 0, ring_head := 0, ring_tail := 0, wav_file_done := False\<rparr>
      in case wav_parse rd a of
           (False, a) \<Rightarrow> Some (False, a)
         | (True, a) \<Rightarrow>
             (case wav_prefill rd (a\<lparr>wav_playing := True\<rparr>) of
                None \<Rightarrow> None
              | Some a \<Rightarrow>
                  (case ac97_play a of
                     (True, a) \<Rightarrow> Some (True, a)
                   | (False, a) \<Rightarrow> Some (False, a\<lparr>wav_playing := False\<rparr>))))"

definition wav_play :: "cstr \<Rightarrow> audio \<Rightarrow> (bool \<times> audio) option" where
  "wav_play path a =
     (if wav_playing a then Some (False, a)
      else case vfs_lookup (Some path) (wfs a) of
        (None, s) \<Rightarrow> Some (False, a\<lparr>wfs := s\<rparr>)
      | (Some v, s) \<Rightarrow> wav_start (a\<lparr>wfs := s, wsource := Src_node v\<rparr>))"

definition wav_play_memory :: "u8 list \<Rightarrow> audio \<Rightarrow> (bool \<times> audio) option" where
  "wav_play_memory data a =
     (if wav_playing a then Some (False, a) else wav_start (a\<lparr>wsource := Src_mem data\<rparr>))"

definition wav_stop :: "audio \<Rightarrow> audio" where
  "wav_stop a = (ac97_stop a)\<lparr>wav_playing := False, wsource := Src_none\<rparr>"

section \<open>The ring as a queue of samples\<close>

definition ring_samples :: "audio \<Rightarrow> sample list" where
  "ring_samples a = ring_list RING_SAMPLES (wring a) (ring_head a) (ring_tail a)"

definition ring_ok :: "audio \<Rightarrow> bool" where
  "ring_ok a \<longleftrightarrow> ring_head a < RING_SAMPLES \<and> ring_tail a < RING_SAMPLES"

text \<open>The samples of the data of a file: one for each 16-bit word, twice for a mono file.\<close>

fun file_samples :: "u16 \<Rightarrow> u8 list \<Rightarrow> sample list" where
  "file_samples ch (lo # hi # bs) = (let x = un_le16 [lo, hi] in (if ch = 1 then [x, x] else [x]) @ file_samples ch bs)"
| "file_samples ch _ = []"

lemma length_file_samples: "length (file_samples ch bs) = (if ch = 1 then 2 else 1) * (length bs div 2)"
  by (induction ch bs rule: file_samples.induct) (simp_all add: Let_def)

lemma file_samples_append: "even (length xs) \<Longrightarrow> file_samples ch (xs @ ys) = file_samples ch xs @ file_samples ch ys"
  by (induction ch xs rule: file_samples.induct) (simp_all add: Let_def)

lemma available_length: "ring_available a = length (ring_samples a)"
  by (simp add: ring_available_def ring_samples_def ring_count_def)

lemma ring_samples_bound: "ring_ok a \<Longrightarrow> length (ring_samples a) < RING_SAMPLES"
  by (simp add: ring_samples_def ring_ok_def ring_count_lt)

lemma push_sample_spec:
  assumes "ring_ok a" "length (ring_samples a) + 1 < RING_SAMPLES"
  shows "ring_ok (push_sample x a)" "ring_samples (push_sample x a) = ring_samples a @ [x]"
proof -
  have b: "ring_head a < 96000" "ring_tail a < 96000" using assms(1) by (simp_all add: ring_ok_def)
  have "(ring_tail a + 1) mod 96000 \<noteq> ring_head a" using ring_full_iff [OF b] assms(2) by (simp add: ring_samples_def)
  from ring_push [OF b this, of "wring a" x]
  show "ring_samples (push_sample x a) = ring_samples a @ [x]" by (simp add: ring_samples_def push_sample_def)
  show "ring_ok (push_sample x a)" using b by (simp add: ring_ok_def push_sample_def)
qed

text \<open>What the operations on the ring leave alone.\<close>

definition same_file :: "audio \<Rightarrow> audio \<Rightarrow> bool" where
  "same_file a b \<longleftrightarrow> wav_data_offset b = wav_data_offset a \<and> wav_data_size b = wav_data_size a \<and> wav_channels b = wav_channels a \<and>
     wsource b = wsource a \<and> wfs b = wfs a"

lemma same_file_refl [simp]: "same_file a a"
  by (simp add: same_file_def)

lemma same_file_trans: "same_file a b \<Longrightarrow> same_file b c \<Longrightarrow> same_file a c"
  by (simp add: same_file_def)

lemma push_samples_spec:
  assumes "ring_ok a" "length (ring_samples a) + length (file_samples (wav_channels a) bs) < RING_SAMPLES"
  shows "ring_ok (push_samples bs a) \<and> ring_samples (push_samples bs a) = ring_samples a @ file_samples (wav_channels a) bs"
  using assms
proof (induction bs a rule: push_samples.induct)
  case (1 lo hi bs a)
  let ?x = "un_le16 [lo, hi]"
  let ?a = "push_sample ?x a"
  have a: "ring_ok ?a" "ring_samples ?a = ring_samples a @ [?x]" "wav_channels ?a = wav_channels a"
    using push_sample_spec [OF 1(2)] 1(3) by (simp_all add: Let_def push_sample_def split: if_splits)
  show ?case
  proof (cases "wav_channels a = 1")
    case True
    have "ring_ok (push_sample ?x ?a)" "ring_samples (push_sample ?x ?a) = ring_samples a @ [?x, ?x]"
      using push_sample_spec [OF a(1)] a(2) 1(3) True by (simp_all add: Let_def)
    then show ?thesis using 1 True a(3) by (simp add: Let_def push_sample_def)
  next
    case False
    then show ?thesis using 1 a by (simp add: Let_def)
  qed
qed simp_all

lemma push_samples_frame [simp]:
  "wav_data_offset (push_samples bs a) = wav_data_offset a" "wav_data_size (push_samples bs a) = wav_data_size a"
  "wav_channels (push_samples bs a) = wav_channels a" "wav_read_pos (push_samples bs a) = wav_read_pos a"
  "wav_file_done (push_samples bs a) = wav_file_done a" "submitted (push_samples bs a) = submitted a"
  "wsource (push_samples bs a) = wsource a" "wfs (push_samples bs a) = wfs a" "wav_playing (push_samples bs a) = wav_playing a"
  by (induction bs a rule: push_samples.induct) (simp_all add: Let_def push_sample_def)

lemma pop_samples_spec:
  assumes "ring_ok a" "n \<le> length (ring_samples a)" "pop_samples n a = (xs, b)"
  shows "xs = take n (ring_samples a) \<and> ring_samples b = drop n (ring_samples a) \<and> ring_ok b \<and> (\<exists>h. b = a\<lparr>ring_head := h\<rparr>)"
  using assms
proof (induction n arbitrary: a xs b)
  case (Suc n)
  let ?a = "a\<lparr>ring_head := (ring_head a + 1) mod RING_SAMPLES\<rparr>"
  have b: "ring_head a < 96000" "ring_tail a < 96000" using Suc(2) by (simp_all add: ring_ok_def)
  have "ring_head a \<noteq> ring_tail a" using Suc(3) b by (auto simp: ring_samples_def ring_count_cases)
  from ring_pop [OF b this, of "wring a"]
  have r: "ring_samples a = wring a (ring_head a) # ring_samples ?a" by (simp add: ring_samples_def)
  obtain ys c where p: "pop_samples n ?a = (ys, c)" by fastforce
  have "ring_ok ?a" using b by (simp add: ring_ok_def)
  from Suc(1) [OF this _ p] Suc(3,4) r p show ?case by auto
next
  case 0
  then show ?case by (auto intro: exI [of _ "ring_head a"])
qed

section \<open>The file that is played\<close>

text \<open>The data chunk lies inside the file and consists of whole frames.\<close>

definition wav_file_ok :: "u8 list \<Rightarrow> audio \<Rightarrow> bool" where
  "wav_file_ok bytes a \<longleftrightarrow> length bytes < 4294967296 \<and> unat (wav_data_offset a) + unat (wav_data_size a) \<le> length bytes \<and>
     unat (wav_data_size a) mod (if wav_channels a = 1 then 2 else 4) = 0"

definition data_upto :: "u8 list \<Rightarrow> nat \<Rightarrow> audio \<Rightarrow> sample list" where
  "data_upto bytes n a = file_samples (wav_channels a) (slice (unat (wav_data_offset a)) n bytes)"

definition all_samples :: "u8 list \<Rightarrow> audio \<Rightarrow> sample list" where
  "all_samples bytes a = data_upto bytes (unat (wav_data_size a)) a"

text \<open>
  Either every buffer handed to the card is full, and the buffers followed by the ring are the
  samples read so far, or the end has been reached and the last buffer was filled up with zeros.
\<close>

definition audio_inv :: "u8 list \<Rightarrow> audio \<Rightarrow> bool" where
  "audio_inv bytes a \<longleftrightarrow> ring_ok a \<and> wav_file_ok bytes a \<and> even (unat (wav_read_pos a)) \<and>
     unat (wav_read_pos a) \<le> unat (wav_data_size a) \<and> (wav_file_done a \<longrightarrow> wav_read_pos a = wav_data_size a) \<and>
     ((concat (submitted a) @ ring_samples a = data_upto bytes (unat (wav_read_pos a)) a \<and> even (length (concat (submitted a)))) \<or>
      (wav_file_done a \<and> ring_samples a = [] \<and> (\<exists>z. concat (submitted a) = all_samples bytes a @ replicate z 0)))"

lemma to_read_spec:
  assumes "1024 \<le> ring_space a" "wav_read_pos a \<noteq> wav_data_size a"
  shows "0 < to_read a" "to_read a \<le> unat (wav_data_size a - wav_read_pos a)" "to_read a \<le> 4096"
    "to_read a = unat (wav_data_size a - wav_read_pos a) \<or> even (to_read a)"
    "(if wav_channels a = 1 then 2 else 1) * (to_read a div 2) \<le> ring_space a"
proof -
  have "0 < unat (wav_data_size a - wav_read_pos a)" using assms(2) by (simp add: unat_gt_0)
  then show "0 < to_read a" "to_read a \<le> unat (wav_data_size a - wav_read_pos a)" "to_read a \<le> 4096"
    "to_read a = unat (wav_data_size a - wav_read_pos a) \<or> even (to_read a)"
    "(if wav_channels a = 1 then 2 else 1) * (to_read a div 2) \<le> ring_space a"
    using assms(1) by (auto simp: to_read_def Let_def)
qed

lemma ring_space_bound: "ring_ok a \<Longrightarrow> n \<le> ring_space a \<Longrightarrow> length (ring_samples a) + n < RING_SAMPLES"
  using ring_samples_bound [of a] by (simp add: ring_space_def available_length)

lemma slice_more: "slice k (m + n) xs = slice k m xs @ slice (k + m) n xs"
  by (simp add: slice_def take_add add.commute)

locale byte_source =
  fixes rd :: "u32 \<Rightarrow> u32 \<Rightarrow> u8 list" and bytes :: "u8 list"
  assumes rd_slice: "unat off + unat len < 4294967296 \<Longrightarrow> rd off len = slice (unat off) (unat len) bytes"
    and rd_bound: "length (rd off len) \<le> unat len"
begin

text \<open>Reading inside the data chunk gives the next bytes of the file.\<close>

lemma chunk_data:
  assumes "wav_file_ok bytes a" "unat (wav_read_pos a) + k \<le> unat (wav_data_size a)"
  shows "rd (wav_data_offset a + wav_read_pos a) (of_nat k) = slice (unat (wav_data_offset a) + unat (wav_read_pos a)) k bytes"
    "length (slice (unat (wav_data_offset a) + unat (wav_read_pos a)) k bytes) = k"
proof -
  have f: "length bytes < 4294967296" "unat (wav_data_offset a) + unat (wav_data_size a) \<le> length bytes"
    using assms(1) by (simp_all add: wav_file_ok_def)
  then have u: "unat (wav_data_offset a + wav_read_pos a) = unat (wav_data_offset a) + unat (wav_read_pos a)"
    "unat (of_nat k :: u32) = k"
    using assms(2) by (simp_all add: unat_add_u32 unat_of_nat_u32)
  show "rd (wav_data_offset a + wav_read_pos a) (of_nat k) = slice (unat (wav_data_offset a) + unat (wav_read_pos a)) k bytes"
    using rd_slice [of "wav_data_offset a + wav_read_pos a" "of_nat k"] u f assms(2) by simp
  show "length (slice (unat (wav_data_offset a) + unat (wav_read_pos a)) k bytes) = k" using f assms(2) by simp
qed

lemma read_chunk_inv:
  assumes "audio_inv bytes a" "\<not> wav_file_done a"
  shows "audio_inv bytes (wav_read_chunk rd a)"
proof -
  let ?pos = "unat (wav_read_pos a)" and ?size = "unat (wav_data_size a)" and ?off = "unat (wav_data_offset a)"
  have ok: "ring_ok a" "wav_file_ok bytes a" "even ?pos" "?pos \<le> ?size"
    "concat (submitted a) @ ring_samples a = data_upto bytes ?pos a" "even (length (concat (submitted a)))"
    using assms by (auto simp: audio_inv_def)
  consider "ring_space a < 1024" | "1024 \<le> ring_space a" "wav_read_pos a = wav_data_size a"
    | "1024 \<le> ring_space a" "wav_read_pos a \<noteq> wav_data_size a" by linarith
  then show ?thesis
  proof cases
    case 1
    then show ?thesis using assms(1) by (simp add: wav_read_chunk_def)
  next
    case 2
    then show ?thesis using ok by (simp add: wav_read_chunk_def audio_inv_def ring_ok_def wav_file_ok_def data_upto_def ring_samples_def)
  next
    case 3
    let ?k = "to_read a"
    note k = to_read_spec [OF 3]
    have diff: "unat (wav_data_size a - wav_read_pos a) = ?size - ?pos" using ok(4) by (rule unat_sub_u32)
    let ?got = "slice (?off + ?pos) ?k bytes" and ?a = "a\<lparr>wav_read_pos := wav_read_pos a + of_nat ?k\<rparr>"
    have fits: "?pos + ?k \<le> ?size" using k(2) diff ok(4) by linarith
    note got = chunk_data [OF ok(2) fits]
    have pos: "unat (wav_read_pos ?a) = ?pos + ?k"
      using fits unat_u32_bound [of "wav_data_size a"] by (simp add: unat_add_u32 unat_of_nat_u32)
    have step: "wav_read_chunk rd a = push_samples ?got ?a"
      using 3 k(1) got by (auto simp: wav_read_chunk_def Let_def)
    have r: "ring_ok ?a" "ring_samples ?a = ring_samples a" using ok(1) by (simp_all add: ring_ok_def ring_samples_def)
    have "length (file_samples (wav_channels a) ?got) \<le> ring_space a" using k(5) got(2) by (simp add: length_file_samples)
    then have push: "ring_ok (push_samples ?got ?a)" "ring_samples (push_samples ?got ?a) = ring_samples a @ file_samples (wav_channels a) ?got"
      using push_samples_spec [OF r(1), of ?got] ring_space_bound [OF ok(1)] r(2) by simp_all
    have "data_upto bytes (?pos + ?k) a = data_upto bytes ?pos a @ file_samples (wav_channels a) ?got"
      unfolding data_upto_def slice_more
      by (rule file_samples_append) (use ok(2-4) in \<open>simp add: wav_file_ok_def\<close>)
    then have "concat (submitted a) @ ring_samples (push_samples ?got ?a) = data_upto bytes (?pos + ?k) a"
      using push(2) ok(5) by simp
    moreover have "even (?pos + ?k)"
    proof -
      have "even ?size" using ok(2) by (auto simp: wav_file_ok_def mod_eq_0_iff_dvd split: if_splits intro: dvd_trans [of 2 4])
      then show ?thesis using k(4) diff ok(3,4) by auto
    qed
    ultimately show ?thesis
      using push(1) fits pos ok(2,6) assms(2) unfolding step
      by (simp add: audio_inv_def wav_file_ok_def data_upto_def)
  qed
qed

lemma read_chunk_remaining:
  assumes "\<not> wav_file_done a" "1024 \<le> ring_space a" "\<not> wav_file_done (wav_read_chunk rd a)"
  shows "unat (wav_data_size (wav_read_chunk rd a) - wav_read_pos (wav_read_chunk rd a)) < unat (wav_data_size a - wav_read_pos a)"
proof -
  have ne: "wav_read_pos a \<noteq> wav_data_size a" using assms by (auto simp: wav_read_chunk_def)
  note k = to_read_spec [OF assms(2) ne]
  let ?got = "rd (wav_data_offset a + wav_read_pos a) (of_nat (to_read a))" and ?r = "wav_data_size a - wav_read_pos a"
  have g: "?got \<noteq> []" using assms ne k(1) by (auto simp: wav_read_chunk_def Let_def)
  have "length ?got \<le> to_read a"
    using rd_bound [of "wav_data_offset a + wav_read_pos a" "of_nat (to_read a)"] k(3) by (simp add: unat_of_nat_u32)
  then have l: "length ?got \<le> unat ?r" "unat (of_nat (length ?got) :: u32) = length ?got"
    using k(2,3) by (simp_all add: unat_of_nat_u32)
  have "wav_read_chunk rd a = push_samples ?got (a\<lparr>wav_read_pos := wav_read_pos a + of_nat (length ?got)\<rparr>)"
    using assms(2) ne k(1) g by (simp add: wav_read_chunk_def Let_def)
  then have "wav_data_size (wav_read_chunk rd a) - wav_read_pos (wav_read_chunk rd a) = ?r - of_nat (length ?got)"
    by (simp add: algebra_simps)
  then have "unat (wav_data_size (wav_read_chunk rd a) - wav_read_pos (wav_read_chunk rd a)) = unat ?r - length ?got"
    using l by (simp add: unat_sub_u32)
  moreover have "0 < length ?got" using g by simp
  ultimately show ?thesis using l(1) by linarith
qed

lemma read_chunk_file: "same_file a (wav_read_chunk rd a)" "submitted (wav_read_chunk rd a) = submitted a"
  by (simp_all add: wav_read_chunk_def same_file_def Let_def)

text \<open>The loop that fills the ring before playback ends, whatever the file contains.\<close>

lemma prefill_spec:
  "\<exists>b. wav_prefill rd a = Some b \<and> (audio_inv bytes a \<longrightarrow> audio_inv bytes b) \<and> same_file a b \<and> submitted b = submitted a"
proof (induction "unat (wav_data_size a - wav_read_pos a)" arbitrary: a rule: less_induct)
  case less
  let ?b = "wav_read_chunk rd a"
  show ?case
  proof (cases "\<not> wav_file_done a \<and> ring_space a > 1024")
    case go: True
    then have s: "wav_prefill rd a = wav_prefill rd ?b" by (subst wav_prefill.simps) simp
    have "\<exists>c. wav_prefill rd ?b = Some c \<and> (audio_inv bytes ?b \<longrightarrow> audio_inv bytes c) \<and> same_file ?b c \<and> submitted c = submitted ?b"
    proof (cases "wav_file_done ?b")
      case True
      then have "wav_prefill rd ?b = Some ?b" by (subst wav_prefill.simps) simp
      then show ?thesis by simp
    next
      case False
      then show ?thesis using less [OF read_chunk_remaining] go by simp
    qed
    then show ?thesis using s go read_chunk_inv [of a] read_chunk_file [of a] same_file_trans by metis
  qed (subst wav_prefill.simps, auto)
qed

end

interpretation mem_source: byte_source "src_read (Src_mem data) s" data for data s
  by unfold_locales (auto simp: src_read_def slice_def Let_def)

section \<open>The driver takes the samples in order\<close>

lemma even_all: "wav_file_ok bytes a \<Longrightarrow> even (length (all_samples bytes a))"
proof -
  assume ok: "wav_file_ok bytes a"
  let ?s = "unat (wav_data_size a)"
  have "length (slice (unat (wav_data_offset a)) ?s bytes) = ?s" using ok by (simp add: wav_file_ok_def)
  moreover have "wav_channels a \<noteq> 1 \<Longrightarrow> even (?s div 2)" using ok by (auto simp: wav_file_ok_def mod_eq_0_iff_dvd elim!: dvdE)
  ultimately show ?thesis by (simp add: all_samples_def data_upto_def length_file_samples)
qed

lemma wav_fill_spec:
  assumes "ring_ok a" "wav_fill 1024 a = ((buf, got), b)"
  shows "(got = 0 \<and> b = a \<and> buf = []) \<or>
    (length (ring_samples a) \<ge> 2048 \<and> got = 1024 \<and> buf = take 2048 (ring_samples a) \<and> ring_samples b = drop 2048 (ring_samples a) \<and>
      ring_ok b \<and> (\<exists>h. b = a\<lparr>ring_head := h\<rparr>)) \<or>
    (wav_file_done a \<and> 0 < length (ring_samples a) \<and> length (ring_samples a) < 2048 \<and> got = length (ring_samples a) div 2 \<and>
      buf = ring_samples a \<and> ring_samples b = [] \<and> ring_ok b \<and> (\<exists>h. b = a\<lparr>ring_head := h\<rparr>))"
proof -
  let ?n = "length (ring_samples a)"
  consider "?n < 2048 \<and> \<not> wav_file_done a \<or> ?n = 0" | "2048 \<le> ?n" | "?n < 2048" "wav_file_done a" "0 < ?n" by linarith
  then show ?thesis
  proof cases
    case 1
    then have "wav_fill 1024 a = (([], 0), a)" by (auto simp: wav_fill_def available_length Let_def)
    then show ?thesis using assms(2) by simp
  next
    case 2
    obtain xs c where p: "pop_samples 2048 a = (xs, c)" by fastforce
    then have "wav_fill 1024 a = ((xs, 1024), c)" using 2 by (auto simp: wav_fill_def available_length Let_def)
    then have "buf = xs" "got = 1024" "b = c" using assms(2) by simp_all
    then show ?thesis using pop_samples_spec [OF assms(1) 2 p] 2 by simp
  next
    case 3
    obtain xs c where p: "pop_samples ?n a = (xs, c)" by fastforce
    then have "wav_fill 1024 a = ((xs, ?n div 2), c)" using 3 by (simp add: wav_fill_def available_length Let_def)
    then have "buf = xs" "got = ?n div 2" "b = c" using assms(2) by simp_all
    then show ?thesis using pop_samples_spec [OF assms(1) order_refl p] 3 by simp
  qed
qed

lemma audio_inv_head:
  "audio_inv bytes a \<Longrightarrow> wav_file_done a \<Longrightarrow> even (length (ring_samples a))"
proof -
  assume a: "audio_inv bytes a" "wav_file_done a"
  then have ok: "wav_file_ok bytes a" "wav_read_pos a = wav_data_size a" by (auto simp: audio_inv_def)
  then have "even (length (data_upto bytes (unat (wav_read_pos a)) a))" using even_all by (simp add: all_samples_def)
  moreover have "ring_samples a = [] \<or> even (length (concat (submitted a))) \<and> concat (submitted a) @ ring_samples a = data_upto bytes (unat (wav_read_pos a)) a"
    using a by (auto simp: audio_inv_def)
  ultimately show ?thesis by (metis even_add length_append list.size(3) even_zero)
qed

definition hand_over :: "nat \<Rightarrow> sample list \<Rightarrow> audio \<Rightarrow> audio" where
  "hand_over i b a = a\<lparr>card_bufs := (card_bufs a)(i := b), submitted := submitted a @ [b]\<rparr>"

lemma hand_over_frame [simp]:
  "ring_samples (hand_over i b a) = ring_samples a" "ring_ok (hand_over i b a) = ring_ok a"
  "wav_file_ok bytes (hand_over i b a) = wav_file_ok bytes a" "data_upto bytes n (hand_over i b a) = data_upto bytes n a"
  "all_samples bytes (hand_over i b a) = all_samples bytes a" "submitted (hand_over i b a) = submitted a @ [b]"
  "wav_read_pos (hand_over i b a) = wav_read_pos a" "wav_data_size (hand_over i b a) = wav_data_size a"
  "wav_file_done (hand_over i b a) = wav_file_done a" "same_file c (hand_over i b a) = same_file c a"
  by (simp_all add: hand_over_def ring_samples_def ring_ok_def wav_file_ok_def data_upto_def all_samples_def same_file_def)

lemma head_frame [simp]:
  "wav_file_ok bytes (a\<lparr>ring_head := h\<rparr>) = wav_file_ok bytes a" "data_upto bytes n (a\<lparr>ring_head := h\<rparr>) = data_upto bytes n a"
  "all_samples bytes (a\<lparr>ring_head := h\<rparr>) = all_samples bytes a" "same_file a (a\<lparr>ring_head := h\<rparr>)"
  by (simp_all add: wav_file_ok_def data_upto_def all_samples_def same_file_def)

lemma refill_cases:
  assumes "audio_inv bytes a"
  obtains "refill i a = (False, a)"
  | h where "refill i a = (True, hand_over i (take 2048 (ring_samples a)) (a\<lparr>ring_head := h\<rparr>))" "2048 \<le> length (ring_samples a)"
      "ring_samples (a\<lparr>ring_head := h\<rparr>) = drop 2048 (ring_samples a)" "ring_ok (a\<lparr>ring_head := h\<rparr>)"
  | h z where "refill i a = (True, hand_over i (ring_samples a @ replicate z 0) (a\<lparr>ring_head := h\<rparr>))" "wav_file_done a" "ring_samples a \<noteq> []"
      "ring_samples (a\<lparr>ring_head := h\<rparr>) = []" "ring_ok (a\<lparr>ring_head := h\<rparr>)"
proof (cases "fill_set a")
  case True
  have ok: "ring_ok a" using assms by (simp add: audio_inv_def)
  obtain buf got b where f: "wav_fill 1024 a = ((buf, got), b)" by (metis prod.exhaust)
  from wav_fill_spec [OF ok f] show ?thesis
  proof (elim disjE conjE exE)
    assume "got = 0" "b = a"
    then show ?thesis using that(1) True f by (simp add: refill_def)
  next
    fix h
    assume "2048 \<le> length (ring_samples a)" "got = 1024" "buf = take 2048 (ring_samples a)" "ring_samples b = drop 2048 (ring_samples a)"
      "ring_ok b" "b = a\<lparr>ring_head := h\<rparr>"
    then show ?thesis using that(2) [of h] True f by (simp add: refill_def hand_over_def Let_def)
  next
    fix h
    assume e: "wav_file_done a" "0 < length (ring_samples a)" "length (ring_samples a) < 2048" "got = length (ring_samples a) div 2"
      "buf = ring_samples a" "ring_samples b = []" "ring_ok b" "b = a\<lparr>ring_head := h\<rparr>"
    then have ev: "2 * got = length (ring_samples a)" using audio_inv_head [OF assms] by simp
    then have g: "got \<noteq> 0" "got < 1024" using e(2,3) by linarith+
    have "take (got * 2) buf = ring_samples a" using ev e(5) by (simp add: mult.commute)
    note g = g this
    then show ?thesis using that(3) [of "(1024 - got) * 2" h] True f e by (simp add: refill_def hand_over_def Let_def)
  qed
qed (use that(1) in \<open>simp add: refill_def\<close>)

lemma refill_inv:
  assumes "audio_inv bytes a"
  shows "audio_inv bytes (snd (refill i a)) \<and> same_file a (snd (refill i a))"
  using assms
proof (cases rule: refill_cases [where i = i])
  case (2 h)
  then have "concat (submitted a) @ ring_samples a = data_upto bytes (unat (wav_read_pos a)) a" "even (length (concat (submitted a)))"
    using assms by (auto simp: audio_inv_def)
  moreover from this(1) have "concat (submitted a) @ take 2048 (ring_samples a) @ drop 2048 (ring_samples a) = data_upto bytes (unat (wav_read_pos a)) a"
    by simp
  ultimately show ?thesis using 2 assms by (simp add: audio_inv_def)
next
  case (3 h z)
  then have "concat (submitted a) @ ring_samples a = all_samples bytes a" using assms by (auto simp: audio_inv_def all_samples_def)
  then have "concat (submitted a @ [ring_samples a @ replicate z 0]) = all_samples bytes a @ replicate z 0" by simp
  then show ?thesis using 3 assms unfolding audio_inv_def by (auto simp del: concat_append)
qed (use assms in simp)

lemma lvi_frame [simp]:
  "wav_file_ok bytes (a\<lparr>lvi := l\<rparr>) = wav_file_ok bytes a" "wav_file_ok bytes (a\<lparr>playing := p\<rparr>) = wav_file_ok bytes a"
  "audio_inv bytes (a\<lparr>lvi := l\<rparr>) = audio_inv bytes a" "same_file b (a\<lparr>lvi := l\<rparr>) = same_file b a"
  "audio_inv bytes (a\<lparr>playing := p\<rparr>) = audio_inv bytes a" "same_file b (a\<lparr>playing := p\<rparr>) = same_file b a"
  "audio_inv bytes (a\<lparr>fill_set := p\<rparr>) = audio_inv bytes a" "same_file b (a\<lparr>fill_set := p\<rparr>) = same_file b a"
  "audio_inv bytes (a\<lparr>wav_playing := p\<rparr>) = audio_inv bytes a" "same_file b (a\<lparr>wav_playing := p\<rparr>) = same_file b a"
  by (simp_all add: audio_inv_def same_file_def ring_ok_def ring_samples_def wav_file_ok_def data_upto_def all_samples_def)

lemma poll_inv: "audio_inv bytes a \<Longrightarrow> audio_inv bytes (ac97_poll civ halted a) \<and> same_file a (ac97_poll civ halted a)"
proof -
  have "audio_inv bytes a \<Longrightarrow> audio_inv bytes (poll_loop civ halted a) \<and> same_file a (poll_loop civ halted a)"
  proof (induction civ halted a rule: poll_loop.induct)
    case (1 civ halted a)
    let ?slot = "(lvi a + 1) mod 32"
    obtain ok b where r: "refill ?slot a = (ok, b)" by fastforce
    then have b: "audio_inv bytes b" "same_file a b" using refill_inv [OF 1(2), of ?slot] by simp_all
    show ?case
    proof (cases "lvi a \<noteq> (civ + 32 - 1) mod 32 \<and> ok")
      case True
      then have "poll_loop civ halted a = poll_loop civ halted (b\<lparr>lvi := ?slot\<rparr>)"
        using r by (subst poll_loop.simps) (simp add: Let_def)
      moreover have "audio_inv bytes (poll_loop civ halted (b\<lparr>lvi := ?slot\<rparr>)) \<and> same_file (b\<lparr>lvi := ?slot\<rparr>) (poll_loop civ halted (b\<lparr>lvi := ?slot\<rparr>))"
        using 1(1) [OF _ refl r [symmetric]] True b(1) by simp
      ultimately show ?thesis using b(2) by (auto simp: same_file_def)
    next
      case False
      then show ?thesis using r b 1(2) by (subst (1 2) poll_loop.simps) (auto simp: Let_def ac97_stop_def)
    qed
  qed
  then show "audio_inv bytes a \<Longrightarrow> ?thesis" by (simp add: ac97_poll_def)
qed

lemma fill_all_inv:
  "audio_inv bytes a \<Longrightarrow> fill_all n i a = (c, b) \<Longrightarrow> audio_inv bytes b \<and> same_file a b"
proof (induction n arbitrary: i a c b)
  case (Suc n)
  obtain ok d where r: "refill i a = (ok, d)" by fastforce
  then have d: "audio_inv bytes d" "same_file a d" using refill_inv [OF Suc(2), of i] by simp_all
  show ?case using Suc(1) [OF d(1)] Suc(3) r d same_file_trans by (auto split: bool.splits prod.splits)
qed simp

section \<open>The card plays the file\<close>

text \<open>
  While a file plays, the reader thread and the poll of the driver take turns, in any order; the
  card may report any position. Preemption inside a round of either is not modelled.
\<close>

inductive wav_run :: "audio \<Rightarrow> audio \<Rightarrow> bool" for a where
  start: "wav_run a a"
| reader: "wav_run a b \<Longrightarrow> wav_playing b \<Longrightarrow> \<not> wav_file_done b \<Longrightarrow> wav_run a (wav_read_chunk (src_read (wsource b) (wfs b)) b)"
| poll: "wav_run a b \<Longrightarrow> wav_run a (ac97_poll civ halted b)"

lemma data_upto_prefix:
  assumes "wav_file_ok bytes a" "even k" "k \<le> unat (wav_data_size a)"
  shows "\<exists>rest. all_samples bytes a = data_upto bytes k a @ rest"
proof -
  obtain m where m: "unat (wav_data_size a) = k + m" using assms(3) by (metis le_Suc_ex)
  have "length (slice (unat (wav_data_offset a)) k bytes) = k" using assms(1,3) by (simp add: wav_file_ok_def)
  then show ?thesis using assms(2) by (simp add: all_samples_def data_upto_def m slice_more file_samples_append)
qed

lemma audio_inv_played:
  assumes "audio_inv bytes a"
  shows "\<exists>k z. concat (submitted a) = take k (all_samples bytes a) @ replicate z 0 \<and> (0 < z \<longrightarrow> length (all_samples bytes a) \<le> k) \<and>
    (wav_file_done a \<and> ring_available a = 0 \<longrightarrow> length (all_samples bytes a) \<le> k)"
proof -
  let ?all = "all_samples bytes a"
  from assms consider "concat (submitted a) @ ring_samples a = data_upto bytes (unat (wav_read_pos a)) a"
    | z where "concat (submitted a) = ?all @ replicate z 0" by (auto simp: audio_inv_def)
  then show ?thesis
  proof cases
    case 1
    obtain rest where r: "?all = data_upto bytes (unat (wav_read_pos a)) a @ rest"
      using assms data_upto_prefix [of bytes a] by (metis audio_inv_def)
    let ?k = "length (concat (submitted a))"
    have "concat (submitted a) = take ?k ?all" using r by (simp flip: 1)
    moreover have "length ?all \<le> ?k" if "wav_file_done a" "ring_available a = 0"
      using that 1 assms by (auto simp: audio_inv_def available_length all_samples_def dest: arg_cong [where f = length])
    ultimately show ?thesis by (intro exI [of _ ?k] exI [of _ 0]) auto
  next
    case (2 z)
    then show ?thesis by (intro exI [of _ "length ?all"] exI [of _ z]) simp
  qed
qed

lemma wav_run_inv:
  assumes "wav_run b c" "audio_inv bytes b" "wsource b = Src_mem bytes"
  shows "audio_inv bytes c \<and> same_file b c"
  using assms(1)
proof (induction rule: wav_run.induct)
  case (reader d)
  then have "wsource d = Src_mem bytes" using assms(3) by (simp add: same_file_def)
  then show ?case
    using reader mem_source.read_chunk_inv [of bytes d "wfs d"] mem_source.read_chunk_file(1) [of d bytes "wfs d"]
    by (auto intro: same_file_trans)
next
  case (poll d civ halted)
  then show ?case using poll_inv same_file_trans by blast
qed (use assms(2) in simp)

lemma wav_parse_frame [simp]:
  "ring_head (snd (wav_parse rd a)) = ring_head a" "ring_tail (snd (wav_parse rd a)) = ring_tail a"
  "wav_read_pos (snd (wav_parse rd a)) = wav_read_pos a" "wav_file_done (snd (wav_parse rd a)) = wav_file_done a"
  "submitted (snd (wav_parse rd a)) = submitted a" "wsource (snd (wav_parse rd a)) = wsource a"
  by (simp_all add: wav_parse_def Let_def split: option.split prod.split)

lemma audio_inv_start:
  "wav_file_ok bytes a \<Longrightarrow> ring_head a = 0 \<Longrightarrow> ring_tail a = 0 \<Longrightarrow> wav_read_pos a = 0 \<Longrightarrow> \<not> wav_file_done a \<Longrightarrow> submitted a = [] \<Longrightarrow>
    audio_inv bytes a"
  by (simp add: audio_inv_def ring_ok_def ring_samples_def ring_list_def ring_count_def data_upto_def slice_def)

lemma wav_file_ok_same: "same_file a b \<Longrightarrow> wav_file_ok bytes b = wav_file_ok bytes a"
  and all_samples_same: "same_file a b \<Longrightarrow> all_samples bytes b = all_samples bytes a"
  by (simp_all add: same_file_def wav_file_ok_def all_samples_def data_upto_def)

lemma pop_samples_file: "same_file a (snd (pop_samples n a))"
proof (induction n arbitrary: a)
  case (Suc n)
  have "same_file a (a\<lparr>ring_head := (ring_head a + 1) mod RING_SAMPLES\<rparr>)" by (rule head_frame)
  from same_file_trans [OF this Suc] show ?case by (simp add: case_prod_unfold)
qed simp

lemma refill_file: "same_file a (snd (refill i a))"
proof -
  have "same_file a (snd (wav_fill 1024 a))"
    using pop_samples_file [of a] by (simp add: wav_fill_def Let_def case_prod_unfold)
  then show ?thesis by (auto simp: refill_def Let_def same_file_def split: prod.split)
qed

lemma fill_all_file: "same_file a (snd (fill_all n i a))"
proof (induction n arbitrary: i a)
  case (Suc n)
  obtain ok b where r: "refill i a = (ok, b)" by fastforce
  then have "same_file a b" using refill_file [of a i] by simp
  from same_file_trans [OF this Suc [of b "i + 1"]] this r show ?case by (cases ok) (simp_all add: case_prod_unfold)
qed simp

lemma wav_start_spec:
  assumes "wsource a = Src_mem data"
  shows "\<exists>ok b. wav_start a = Some (ok, b) \<and>
    (ok \<and> wav_file_ok data b \<and> submitted a = [] \<longrightarrow> audio_inv data b \<and> wsource b = Src_mem data)"
proof -
  let ?rd = "src_read (Src_mem data) (wfs a)"
  let ?a = "a\<lparr>wav_read_pos := 0, ring_head := 0, ring_tail := 0, wav_file_done := False\<rparr>"
  obtain ok1 p where p: "wav_parse ?rd ?a = (ok1, p)" by fastforce
  show ?thesis
  proof (cases ok1)
    case True
    let ?p = "p\<lparr>wav_playing := True\<rparr>"
    obtain q where q: "wav_prefill ?rd ?p = Some q" "audio_inv data ?p \<longrightarrow> audio_inv data q" "same_file ?p q"
      using mem_source.prefill_spec by blast
    let ?q = "q\<lparr>fill_set := True\<rparr>"
    obtain filled r where r: "fill_all 32 0 ?q = (filled, r)" by fastforce
    have start: "wav_start a = (if \<not> bdl_ready q then Some (False, q\<lparr>wav_playing := False\<rparr>)
        else if filled = 0 then Some (False, r\<lparr>wav_playing := False\<rparr>) else Some (True, r\<lparr>playing := True, lvi := filled - 1\<rparr>))"
      using p True q(1) r assms by (simp add: wav_start_def ac97_play_def Let_def)
    have f: "ring_head p = 0" "ring_tail p = 0" "wav_read_pos p = 0" "\<not> wav_file_done p" "submitted p = submitted a" "wsource p = Src_mem data"
      using wav_parse_frame [of ?rd ?a] p assms by simp_all
    have same: "same_file p r" using q(3) fill_all_file [of ?q 32 0] r by (simp add: same_file_def)
    have inv: "audio_inv data r \<and> wsource r = Src_mem data" if "wav_file_ok data r" "submitted a = []"
    proof -
      have "wav_file_ok data p" using that(1) same wav_file_ok_same by blast
      then have "audio_inv data p" using audio_inv_start [of data p] f that(2) by simp
      then have "audio_inv data ?q" using q(2) by simp
      then show ?thesis using fill_all_inv [OF _ r] same f(6) by (simp add: same_file_def)
    qed
    then show ?thesis using start by (cases "bdl_ready q"; cases "filled = 0") auto
  next
    case False
    then show ?thesis using p assms by (auto simp: wav_start_def Let_def)
  qed
qed


definition wav_example :: "u8 list" where
  "wav_example = cstr_lit ''RIFF'' @ [40, 0, 0, 0] @ cstr_lit ''WAVE'' @ cstr_lit ''fmt '' @ le32 16 @
     le16 1 @ le16 2 @ le32 48000 @ le32 192000 @ le16 4 @ le16 16 @ cstr_lit ''data'' @ le32 4 @ [1, 2, 3, 4]"

definition audio_example :: audio where
  "audio_example = \<lparr>wring = (\<lambda>_. 0), ring_head = 0, ring_tail = 0, wsource = Src_none, wav_data_offset = 0, wav_data_size = 0,
     wav_read_pos = 0, wav_channels = 2, wav_playing = False, wav_file_done = False, wfs = mounted_example, bdl_ready = True,
     fill_set = False, playing = False, lvi = 0, card_bufs = (\<lambda>_. []), submitted = []\<rparr>"

lemma wav_example_bytes:
  "wav_example = [82, 73, 70, 70, 40, 0, 0, 0, 87, 65, 86, 69, 102, 109, 116, 32, 16, 0, 0, 0, 1, 0, 2, 0,
     0x80, 0xBB, 0, 0, 0, 0xEE, 2, 0, 4, 0, 16, 0, 100, 97, 116, 97, 4, 0, 0, 0, 1, 2, 3, 4]"
  by (simp add: wav_example_def cstr_lit_def le16_def le32_def)

lemma wav_example_parse:
  "wav_parse (src_read (Src_mem wav_example) s) a = (True, a\<lparr>wav_data_offset := 44, wav_data_size := 4, wav_channels := 2\<rparr>)"
proof -
  let ?rd = "src_read (Src_mem wav_example) s"
  have r: "?rd 0 12 = [82, 73, 70, 70, 40, 0, 0, 0, 87, 65, 86, 69]" "?rd 12 8 = [102, 109, 116, 32, 16, 0, 0, 0]"
    "?rd 20 16 = [1, 0, 2, 0, 0x80, 0xBB, 0, 0, 0, 0xEE, 2, 0, 4, 0, 16, 0]" "?rd 36 8 = [100, 97, 116, 97, 4, 0, 0, 0]"
    by (simp_all add: src_read_def wav_example_bytes slice_def)
  have both: "parse_chunks k rd pos (Some f) (Some d) = (Some f, Some d)" for k rd pos f d by (cases k) simp_all
  have "parse_chunks (Suc (Suc k)) ?rd 12 None None = (Some [1, 0, 2, 0, 0x80, 0xBB, 0, 0, 0, 0xEE, 2, 0, 4, 0, 16, 0], Some (44, 4))" for k
    by (simp add: r both memcmp_0_iff cstr_lit_def un_le32_def)
  from this [of 30] have p: "parse_chunks 32 ?rd 12 None None = (Some [1, 0, 2, 0, 0x80, 0xBB, 0, 0, 0, 0xEE, 2, 0, 4, 0, 16, 0], Some (44, 4))"
    by simp
  show ?thesis by (simp add: wav_parse_def r p memcmp_0_iff un_le16_def un_le32_def cstr_lit_def)
qed

lemma wav_example_plays:
  "\<exists>b. wav_play_memory wav_example audio_example = Some (True, b) \<and> wav_file_ok wav_example b \<and> all_samples wav_example b = [0x201, 0x403] \<and>
    wav_file_done b \<and> ring_available b = 0"
proof -
  let ?rd = "src_read (Src_mem wav_example) mounted_example"
  let ?a = "audio_example\<lparr>wsource := Src_mem wav_example, wav_data_offset := 44, wav_data_size := 4, wav_channels := 2, wav_playing := True\<rparr>"
  let ?b = "?a\<lparr>wav_read_pos := 4, wring := (wring ?a)(0 := 0x201, 1 := 0x403), ring_tail := 2\<rparr>"
  let ?c = "?b\<lparr>wav_file_done := True\<rparr>"
  let ?d = "hand_over 0 ([0x201, 0x403] @ replicate 2046 0) (?c\<lparr>fill_set := True, ring_head := 2\<rparr>)"
  have rd: "?rd 44 4 = [1, 2, 3, 4]" by (simp add: src_read_def wav_example_bytes slice_def)
  have c1: "wav_read_chunk ?rd ?a = ?b"
    by (simp add: wav_read_chunk_def to_read_def ring_space_def ring_available_def audio_example_def rd push_sample_def un_le16_def Let_def)
  have c2: "wav_read_chunk ?rd ?b = ?c"
    by (simp add: wav_read_chunk_def ring_space_def ring_available_def audio_example_def)
  have sp: "ring_space ?a > 1024" "ring_space ?b > 1024" "\<not> wav_file_done ?a" "\<not> wav_file_done ?b" "wav_file_done ?c"
    by (simp_all add: ring_space_def ring_available_def audio_example_def)
  have "wav_prefill ?rd ?a = Some ?c"
    using c1 c2 sp by (subst wav_prefill.simps, subst wav_prefill.simps, subst wav_prefill.simps) simp
  moreover have "refill 0 (?c\<lparr>fill_set := True\<rparr>) = (True, ?d)" "refill 1 ?d = (False, ?d)"
    by (simp_all add: refill_def wav_fill_def ring_available_def audio_example_def hand_over_def numeral_2_eq_2 Let_def)
  then have "fill_all (Suc (Suc k)) 0 (?c\<lparr>fill_set := True\<rparr>) = (1, ?d)" for k by simp
  from this [of 30] have "fill_all 32 0 (?c\<lparr>fill_set := True\<rparr>) = (1, ?d)" by simp
  moreover have "bdl_ready ?c" "\<not> wav_playing audio_example" "wfs audio_example = mounted_example"
    "audio_example\<lparr>wsource := Src_mem wav_example, wav_read_pos := 0, ring_head := 0, ring_tail := 0, wav_file_done := False,
       wav_data_offset := 44, wav_data_size := 4, wav_channels := 2, wav_playing := True\<rparr> = ?a"
    by (simp_all add: audio_example_def)
  ultimately have "wav_play_memory wav_example audio_example = Some (True, ?d\<lparr>playing := True, lvi := 0\<rparr>)"
    by (simp add: wav_play_memory_def wav_start_def wav_example_parse ac97_play_def Let_def)
  moreover have "wav_file_ok wav_example (?d\<lparr>playing := True, lvi := 0\<rparr>)"
    "all_samples wav_example (?d\<lparr>playing := True, lvi := 0\<rparr>) = [0x201, 0x403]"
    "wav_file_done (?d\<lparr>playing := True, lvi := 0\<rparr>)" "ring_available (?d\<lparr>playing := True, lvi := 0\<rparr>) = 0"
    by (simp_all add: wav_file_ok_def all_samples_def data_upto_def hand_over_def wav_example_bytes slice_def un_le16_def ring_available_def)
  ultimately show ?thesis by blast
qed


end
