(* ===== verification/Framebuffer.thy ===== *)
theory Framebuffer
  imports Memory_Map Vmm
begin

text \<open>
  The linear frame buffer (\<^verbatim>\<open>arch/i386/framebuffer.c\<close>), the mouse (\<^verbatim>\<open>mouse.c\<close>) and the mouse cursor that is
  painted over the screen (\<^verbatim>\<open>cursor.c\<close>). Video memory is a map from the addresses of pixels to colours.
\<close>

section \<open>State\<close>

record screen =
  fb_virt :: u32
  fb_width :: u32
  fb_height :: u32
  fb_pitch :: u32
  fb_bpp :: u8
  vram :: "u32 \<Rightarrow> u32"
  mouse_x :: u32
  mouse_y :: u32
  mouse_buttons :: u8
  packet :: "u8 list"
  packet_index :: nat
  backing :: "nat \<Rightarrow> nat \<Rightarrow> u32"
  last_x :: u32
  last_y :: u32
  drawn :: bool

text \<open>The coordinates \<open>mouse_x\<close> and \<open>mouse_y\<close> are signed in the source; \<^const>\<open>sint\<close> reads them.\<close>

abbreviation (input) FB_VIRT_BASE :: u32 where "FB_VIRT_BASE \<equiv> 0xF0000000"
abbreviation (input) CURSOR_W :: nat where "CURSOR_W \<equiv> 12"
abbreviation (input) CURSOR_H :: nat where "CURSOR_H \<equiv> 19"

section \<open>Frame buffer\<close>

fun fb_map_pages :: "nat \<Rightarrow> u32 \<Rightarrow> u32 \<Rightarrow> machine \<Rightarrow> (bool \<times> machine) option" where
  "fb_map_pages 0 virt phys m = Some (True, m)"
| "fb_map_pages (Suc n) virt phys m =
     (case vmm_map_page virt phys (PTE_PRESENT OR PTE_WRITABLE) m of
        None \<Rightarrow> None
      | Some (False, m) \<Rightarrow> Some (False, m)
      | Some (True, m) \<Rightarrow> fb_map_pages n (virt + 0x1000) (phys + 0x1000) m)"

definition framebuffer_init :: "multiboot_info \<Rightarrow> machine \<Rightarrow> screen \<Rightarrow> (bool \<times> machine \<times> screen) option" where
  "framebuffer_init mb m s =
     (if mb_flags mb AND push_bit 12 1 = 0 then Some (False, m, s)
      else let s = s\<lparr>fb_width := framebuffer_width mb, fb_height := framebuffer_height mb, fb_pitch := framebuffer_pitch mb,
                     fb_bpp := framebuffer_bpp mb\<rparr> in
        if fb_bpp s \<noteq> 32 then Some (False, m, s)
        else let fb_size = fb_pitch s * fb_height s;
                 pages = (fb_size + 0xFFF) div 0x1000
             in case fb_map_pages (unat pages) FB_VIRT_BASE (ucast (framebuffer_addr mb)) m of
                  None \<Rightarrow> None
                | Some (False, m) \<Rightarrow> Some (False, m, s)
                | Some (True, m) \<Rightarrow> Some (True, m, s\<lparr>fb_virt := FB_VIRT_BASE\<rparr>))"

definition visible :: "screen \<Rightarrow> u32 \<Rightarrow> u32 \<Rightarrow> bool" where
  "visible s x y \<longleftrightarrow> fb_virt s \<noteq> 0 \<and> x < fb_width s \<and> y < fb_height s"

definition pixel_addr :: "screen \<Rightarrow> u32 \<Rightarrow> u32 \<Rightarrow> u32" where
  "pixel_addr s x y = fb_virt s + y * fb_pitch s + x * 4"

definition draw_pixel :: "u32 \<Rightarrow> u32 \<Rightarrow> u32 \<Rightarrow> screen \<Rightarrow> screen" where
  "draw_pixel x y colour s = (if visible s x y then s\<lparr>vram := (vram s)(pixel_addr s x y := colour)\<rparr> else s)"

definition read_pixel :: "u32 \<Rightarrow> u32 \<Rightarrow> screen \<Rightarrow> u32" where
  "read_pixel x y s = (if visible s x y then vram s (pixel_addr s x y) else 0)"

text \<open>A double loop over rows and columns, from the top left.\<close>

definition cells :: "nat \<Rightarrow> nat \<Rightarrow> (nat \<times> nat) list" where
  "cells h w = concat (map (\<lambda>dy. map (\<lambda>dx. (dy, dx)) [0..<w]) [0..<h])"

definition fill_screen :: "u32 \<Rightarrow> screen \<Rightarrow> screen" where
  "fill_screen colour s =
     (if fb_virt s = 0 then s
      else fold (\<lambda>(y, x) s. s\<lparr>vram := (vram s)(pixel_addr s (of_nat x) (of_nat y) := colour)\<rparr>)
        (cells (unat (fb_height s)) (unat (fb_width s))) s)"

definition draw_rect :: "u32 \<Rightarrow> u32 \<Rightarrow> u32 \<Rightarrow> u32 \<Rightarrow> u32 \<Rightarrow> screen \<Rightarrow> screen" where
  "draw_rect x y w h colour s =
     fold (\<lambda>(dy, dx). draw_pixel (x + of_nat dx) (y + of_nat dy) colour) (cells (unat h) (unat w)) s"

section \<open>Cursor\<close>

definition cursor_bitmap :: "u8 list list" where
  "cursor_bitmap =
    [[1, 0, 0, 0, 0, 0, 0, 0, 0, 0, 0, 0],
     [1, 1, 0, 0, 0, 0, 0, 0, 0, 0, 0, 0],
     [1, 2, 1, 0, 0, 0, 0, 0, 0, 0, 0, 0],
     [1, 2, 2, 1, 0, 0, 0, 0, 0, 0, 0, 0],
     [1, 2, 2, 2, 1, 0, 0, 0, 0, 0, 0, 0],
     [1, 2, 2, 2, 2, 1, 0, 0, 0, 0, 0, 0],
     [1, 2, 2, 2, 2, 2, 1, 0, 0, 0, 0, 0],
     [1, 2, 2, 2, 2, 2, 2, 1, 0, 0, 0, 0],
     [1, 2, 2, 2, 2, 2, 2, 2, 1, 0, 0, 0],
     [1, 2, 2, 2, 2, 2, 2, 2, 2, 1, 0, 0],
     [1, 2, 2, 2, 2, 2, 2, 2, 2, 2, 1, 0],
     [1, 2, 2, 2, 2, 2, 1, 1, 1, 1, 1, 1],
     [1, 2, 2, 2, 1, 2, 2, 1, 0, 0, 0, 0],
     [1, 2, 2, 1, 0, 1, 2, 2, 1, 0, 0, 0],
     [1, 2, 1, 0, 0, 1, 2, 2, 1, 0, 0, 0],
     [1, 1, 0, 0, 0, 0, 1, 2, 2, 1, 0, 0],
     [1, 0, 0, 0, 0, 0, 1, 2, 2, 1, 0, 0],
     [0, 0, 0, 0, 0, 0, 0, 1, 2, 1, 0, 0],
     [0, 0, 0, 0, 0, 0, 0, 1, 1, 0, 0, 0]]"

definition save_backing :: "u32 \<Rightarrow> u32 \<Rightarrow> screen \<Rightarrow> screen" where
  "save_backing x y s = s\<lparr>backing := (\<lambda>dy dx. read_pixel (x + of_nat dx) (y + of_nat dy) s)\<rparr>"

definition restore_backing :: "screen \<Rightarrow> screen" where
  "restore_backing s =
     fold (\<lambda>(dy, dx) s. draw_pixel (last_x s + of_nat dx) (last_y s + of_nat dy) (backing s dy dx) s) (cells CURSOR_H CURSOR_W) s"

definition paint_cursor :: "u32 \<Rightarrow> u32 \<Rightarrow> screen \<Rightarrow> screen" where
  "paint_cursor x y s =
     fold (\<lambda>(dy, dx) s.
         let v = cursor_bitmap ! dy ! dx
         in if v = 0 then s else draw_pixel (x + of_nat dx) (y + of_nat dy) (if v = 1 then 0x000000 else 0xFFFFFF) s)
       (cells CURSOR_H CURSOR_W) s"

definition cursor_hide :: "screen \<Rightarrow> screen" where
  "cursor_hide s = (if \<not> drawn s then s else (restore_backing s)\<lparr>drawn := False\<rparr>)"

definition cursor_show :: "screen \<Rightarrow> screen" where
  "cursor_show s =
     (if drawn s then s
      else let s = s\<lparr>last_x := mouse_x s, last_y := mouse_y s\<rparr>;
               s = save_backing (last_x s) (last_y s) s
           in (paint_cursor (last_x s) (last_y s) s)\<lparr>drawn := True\<rparr>)"

definition cursor_update :: "screen \<Rightarrow> screen" where
  "cursor_update s = (if drawn s \<and> mouse_x s = last_x s \<and> mouse_y s = last_y s then s else cursor_show (cursor_hide s))"

section \<open>Mouse\<close>

definition clamp_mouse :: "screen \<Rightarrow> screen" where
  "clamp_mouse s =
     (let s = (if mouse_x s <s 0 then s\<lparr>mouse_x := 0\<rparr> else s);
          s = (if mouse_y s <s 0 then s\<lparr>mouse_y := 0\<rparr> else s);
          s = (if fb_width s \<le>s mouse_x s then s\<lparr>mouse_x := fb_width s - 1\<rparr> else s)
      in if fb_height s \<le>s mouse_y s then s\<lparr>mouse_y := fb_height s - 1\<rparr> else s)"

definition mouse_process_packet :: "screen \<Rightarrow> screen" where
  "mouse_process_packet s =
     (let flags = packet s ! 0 in
      if flags AND 0xC0 \<noteq> 0 then s
      else let dx = ucast (packet s ! 1) OR (if flags AND 0x10 \<noteq> 0 then 0xFFFFFF00 else 0);
               dy = ucast (packet s ! 2) OR (if flags AND 0x20 \<noteq> 0 then 0xFFFFFF00 else 0)
           in clamp_mouse (s\<lparr>mouse_buttons := flags AND 0x07, mouse_x := mouse_x s + dx, mouse_y := mouse_y s - dy\<rparr>))"

definition mouse_irq_handler :: "u8 \<Rightarrow> screen \<Rightarrow> screen" where
  "mouse_irq_handler data s =
     (if packet_index s = 0 then
        (if data AND 0x08 = 0 then s else s\<lparr>packet := (packet s)[0 := data], packet_index := 1\<rparr>)
      else if packet_index s = 1 then s\<lparr>packet := (packet s)[1 := data], packet_index := 2\<rparr>
      else if packet_index s = 2 then mouse_process_packet (s\<lparr>packet := (packet s)[2 := data], packet_index := 0\<rparr>)
      else s)"

section \<open>The cursor leaves the picture alone\<close>

text \<open>Drawing changes nothing but video memory; a sequence of writes is a fold over it.\<close>

lemma fold_write_other:
  "\<forall>p \<in> set ps. vis p \<longrightarrow> addr p \<noteq> q \<Longrightarrow> fold (\<lambda>p v. if vis p then v(addr p := c p) else v) ps v q = v q"
  by (induction ps arbitrary: v) auto

lemma fold_write_back:
  "\<forall>p \<in> set ps. vis p \<longrightarrow> c p = orig (addr p) \<Longrightarrow>
    fold (\<lambda>p v. if vis p then v(addr p := c p) else v) ps v q = (if \<exists>p \<in> set ps. vis p \<and> addr p = q then orig q else v q)"
  by (induction ps arbitrary: v) auto

definition cell_visible :: "screen \<Rightarrow> u32 \<Rightarrow> u32 \<Rightarrow> nat \<times> nat \<Rightarrow> bool" where
  "cell_visible s x y = (\<lambda>(dy, dx). visible s (x + of_nat dx) (y + of_nat dy))"

definition cell_addr :: "screen \<Rightarrow> u32 \<Rightarrow> u32 \<Rightarrow> nat \<times> nat \<Rightarrow> u32" where
  "cell_addr s x y = (\<lambda>(dy, dx). pixel_addr s (x + of_nat dx) (y + of_nat dy))"

lemma restore_fold:
  "fold (\<lambda>(dy, dx) s. draw_pixel (last_x s + of_nat dx) (last_y s + of_nat dy) (backing s dy dx) s) ps (s\<lparr>vram := v\<rparr>) =
    s\<lparr>vram := fold (\<lambda>p v. if cell_visible s (last_x s) (last_y s) p then v(cell_addr s (last_x s) (last_y s) p := backing s (fst p) (snd p)) else v) ps v\<rparr>"
  by (induction ps arbitrary: v)
    (auto simp: draw_pixel_def cell_visible_def cell_addr_def visible_def pixel_addr_def split: prod.splits)

lemma paint_fold:
  "fold (\<lambda>(dy, dx) s. let v = cursor_bitmap ! dy ! dx in if v = 0 then s else
        draw_pixel (x + of_nat dx) (y + of_nat dy) (if v = 1 then 0x000000 else 0xFFFFFF) s) ps (s\<lparr>vram := v\<rparr>) =
    s\<lparr>vram := fold (\<lambda>p v. if cell_visible s x y p \<and> cursor_bitmap ! fst p ! snd p \<noteq> 0
      then v(cell_addr s x y p := if cursor_bitmap ! fst p ! snd p = 1 then 0x000000 else 0xFFFFFF) else v) ps v\<rparr>"
  by (induction ps arbitrary: v)
    (auto simp: draw_pixel_def cell_visible_def cell_addr_def visible_def pixel_addr_def Let_def split: prod.splits)

lemma hide_show: "\<not> drawn s \<Longrightarrow> vram (cursor_hide (cursor_show s)) = vram s"
proof -
  assume d: "\<not> drawn s"
  let ?x = "mouse_x s" and ?y = "mouse_y s" and ?ps = "cells CURSOR_H CURSOR_W"
  define t where "t = s\<lparr>last_x := ?x, last_y := ?y, backing := (\<lambda>dy dx. read_pixel (?x + of_nat dx) (?y + of_nat dy) s)\<rparr>"
  have t: "last_x t = ?x" "last_y t = ?y" "vram t = vram s" "backing t dy dx = read_pixel (?x + of_nat dx) (?y + of_nat dy) s" for dy dx
    by (simp_all add: t_def)
  have m: "cell_visible t = cell_visible s" "cell_addr t = cell_addr s"
    "cell_visible (t\<lparr>drawn := True\<rparr>) = cell_visible s" "cell_addr (t\<lparr>drawn := True\<rparr>) = cell_addr s"
    by (simp_all add: t_def fun_eq_iff cell_visible_def cell_addr_def visible_def pixel_addr_def)
  define v where "v = fold (\<lambda>p v. if cell_visible s ?x ?y p \<and> cursor_bitmap ! fst p ! snd p \<noteq> 0
      then v(cell_addr s ?x ?y p := if cursor_bitmap ! fst p ! snd p = 1 then 0x000000 else 0xFFFFFF) else v) ?ps (vram s)"
  have "save_backing ?x ?y (s\<lparr>last_x := ?x, last_y := ?y\<rparr>) = t"
    by (simp add: save_backing_def t_def read_pixel_def visible_def pixel_addr_def cong: if_cong)
  moreover have self: "t\<lparr>vram := vram t\<rparr> = t" by simp
  have "paint_cursor ?x ?y t = t\<lparr>vram := v\<rparr>"
    unfolding paint_cursor_def v_def t(3) [symmetric]
    by (rule paint_fold [where x = ?x and y = ?y and ps = ?ps and s = t and v = "vram t", unfolded self m(1,2)])
  moreover note this
  ultimately have show_eq: "cursor_show s = t\<lparr>drawn := True, vram := v\<rparr>" using d t by (simp add: cursor_show_def Let_def)
  have sel: "last_x (t\<lparr>drawn := True\<rparr>) = ?x" "last_y (t\<lparr>drawn := True\<rparr>) = ?y" "backing (t\<lparr>drawn := True\<rparr>) = backing t"
    using t(1,2) by simp_all
  have "vram (cursor_hide (cursor_show s)) =
      fold (\<lambda>p v. if cell_visible s ?x ?y p then v(cell_addr s ?x ?y p := backing t (fst p) (snd p)) else v) ?ps v"
    unfolding show_eq using restore_fold [where ps = ?ps and s = "t\<lparr>drawn := True\<rparr>" and v = v, unfolded m(3,4) sel]
    by (simp add: cursor_hide_def restore_backing_def)
  also have "\<dots> = vram s"
  proof
    fix q
    have "\<forall>p \<in> set ?ps. cell_visible s ?x ?y p \<longrightarrow> backing t (fst p) (snd p) = vram s (cell_addr s ?x ?y p)"
      by (auto simp: t cell_visible_def cell_addr_def read_pixel_def)
    note wb = fold_write_back [where ps = ?ps and vis = "cell_visible s ?x ?y" and addr = "cell_addr s ?x ?y" and
        c = "\<lambda>p. backing t (fst p) (snd p)" and orig = "vram s", OF this, of v q]
    have other: "v q = vram s q" if "\<not> (\<exists>p \<in> set ?ps. cell_visible s ?x ?y p \<and> cell_addr s ?x ?y p = q)"
      unfolding v_def by (rule fold_write_other) (use that in blast)
    show "fold (\<lambda>p v. if cell_visible s ?x ?y p then v(cell_addr s ?x ?y p := backing t (fst p) (snd p)) else v) ?ps v q = vram s q"
      unfolding wb using other by auto
  qed
  finally show ?thesis .
qed

text \<open>
  The cursor never damages the picture. Whatever the position of the mouse, showing, hiding or
  moving the cursor leaves the picture underneath as it is: taking the cursor away afterwards gives
  the same video memory as taking it away before.
\<close>

theorem cursor_preserves_picture:
  "vram (cursor_hide (cursor_show s)) = vram (cursor_hide s) \<and>
   vram (cursor_hide (cursor_hide s)) = vram (cursor_hide s) \<and>
   vram (cursor_hide (cursor_update s)) = vram (cursor_hide s)"
proof (intro conjI)
  have h: "\<not> drawn (cursor_hide s)" by (simp add: cursor_hide_def)
  show "vram (cursor_hide (cursor_hide s)) = vram (cursor_hide s)" using h by (subst cursor_hide_def) simp
  show "vram (cursor_hide (cursor_show s)) = vram (cursor_hide s)"
    using hide_show [of s] by (cases "drawn s") (simp_all add: cursor_show_def [of s] cursor_hide_def [of s])
  show "vram (cursor_hide (cursor_update s)) = vram (cursor_hide s)" using hide_show [OF h] by (simp add: cursor_update_def)
qed

section \<open>The mouse stays on the screen\<close>

definition on_screen :: "screen \<Rightarrow> bool" where
  "on_screen s \<longleftrightarrow> 0 \<le> sint (mouse_x s) \<and> sint (mouse_x s) < sint (fb_width s) \<and> 0 \<le> sint (mouse_y s) \<and> sint (mouse_y s) < sint (fb_height s)"

lemma sint_pred: "0 < sint (w :: u32) \<Longrightarrow> sint (w - 1) = sint w - 1"
proof -
  assume "0 < sint w"
  then have "signed_take_bit 31 (sint w - 1) = sint w - 1"
    using sint_lt [of w] by (intro signed_take_bit_int_eq_self) simp_all
  then show ?thesis by (simp add: sint_word_diff)
qed

lemma clamp_mouse_on_screen: "0 < sint (fb_width s) \<Longrightarrow> 0 < sint (fb_height s) \<Longrightarrow> on_screen (clamp_mouse s)"
  by (auto simp: clamp_mouse_def on_screen_def word_sless_alt word_sle_eq sint_pred Let_def)

section \<open>Pictures\<close>

text \<open>
  What a client of the frame buffer relies on: a picture of which each visible pixel can be set
  without touching another one.
\<close>

locale canvas =
  fixes pic :: "'s \<Rightarrow> u32 \<Rightarrow> u32 \<Rightarrow> u32"
    and put :: "u32 \<Rightarrow> u32 \<Rightarrow> u32 \<Rightarrow> 's \<Rightarrow> 's"
    and vis :: "'s \<Rightarrow> u32 \<Rightarrow> u32 \<Rightarrow> bool"
    and ok :: "'s \<Rightarrow> bool"
  assumes put_pic: "ok s \<Longrightarrow> pic (put x y c s) u v = (if vis s u v \<and> u = x \<and> v = y then c else pic s u v)"
    and put_vis: "vis (put x y c s) = vis s"
    and put_ok: "ok s \<Longrightarrow> ok (put x y c s)"
begin

lemma fold_put_frame:
  "vis (fold (\<lambda>p. put (fst (pos p)) (snd (pos p)) (col p)) ps s) = vis s"
  "ok s \<Longrightarrow> ok (fold (\<lambda>p. put (fst (pos p)) (snd (pos p)) (col p)) ps s)"
  by (induction ps arbitrary: s) (simp_all add: put_vis put_ok)

text \<open>A sequence of writes that agree on the colour of a pixel.\<close>

lemma fold_put_pic:
  assumes "ok s" "\<And>p. p \<in> set ps \<Longrightarrow> pos p = (u, v) \<Longrightarrow> col p = g"
  shows "pic (fold (\<lambda>p. put (fst (pos p)) (snd (pos p)) (col p)) ps s) u v =
    (if vis s u v \<and> (u, v) \<in> pos ` set ps then g else pic s u v)"
  using assms
proof (induction ps arbitrary: s)
  case (Cons p ps)
  have "pic (fold (\<lambda>p. put (fst (pos p)) (snd (pos p)) (col p)) ps (put (fst (pos p)) (snd (pos p)) (col p) s)) u v =
      (if vis s u v \<and> (u, v) \<in> pos ` set ps then g else pic (put (fst (pos p)) (snd (pos p)) (col p) s) u v)"
    using Cons.IH [OF put_ok [OF Cons.prems(1)]] Cons.prems(2) by (simp add: put_vis)
  moreover have "(u = fst (pos p) \<and> v = snd (pos p)) = (pos p = (u, v))" by auto
  ultimately show ?case using Cons.prems by (auto simp: put_pic)
qed simp

end

text \<open>The rows of the screen do not overlap and fit into the address space.\<close>

definition fb_ok :: "screen \<Rightarrow> bool" where
  "fb_ok s \<longleftrightarrow> 4 * unat (fb_width s) \<le> unat (fb_pitch s) \<and> unat (fb_pitch s) * unat (fb_height s) \<le> 2 ^ 32"

lemma pixel_addr_eq:
  assumes "fb_ok s" "visible s x y" "visible s u v"
  shows "pixel_addr s x y = pixel_addr s u v \<longleftrightarrow> x = u \<and> y = v"
proof -
  let ?p = "unat (fb_pitch s)"
  have lin: "unat (b * fb_pitch s + a * 4) = unat b * ?p + 4 * unat a \<and> 4 * unat a < ?p" if "visible s a b" for a b
  proof -
    have a: "unat a < unat (fb_width s)" and b: "Suc (unat b) \<le> unat (fb_height s)"
      using that by (simp_all add: visible_def word_less_nat_alt)
    have x: "4 * unat a < ?p" using a assms(1) by (simp add: fb_ok_def)
    have "Suc (unat b) * ?p \<le> unat (fb_height s) * ?p" using b by (rule mult_le_mono1)
    then have lt: "unat b * ?p + 4 * unat a < 2 ^ 32" using x assms(1) by (simp add: fb_ok_def mult.commute)
    have "unat (a * 4) = 4 * unat a" using lt by (simp add: unat_word_ariths)
    moreover have "unat (b * fb_pitch s) = unat b * ?p" using lt by (simp add: unat_word_ariths)
    ultimately show ?thesis using lt x by (simp add: unat_word_ariths)
  qed
  have "unat y * ?p + 4 * unat x = unat v * ?p + 4 * unat u \<Longrightarrow> unat y = unat v \<and> unat x = unat u"
  proof -
    assume e: "unat y * ?p + 4 * unat x = unat v * ?p + 4 * unat u"
    have "unat y = (unat y * ?p + 4 * unat x) div ?p" using lin [OF assms(2)] by simp
    also have "\<dots> = unat v" using e lin [OF assms(3)] by simp
    finally show ?thesis using e by simp
  qed
  then have "y * fb_pitch s + x * 4 = v * fb_pitch s + u * 4 \<Longrightarrow> x = u \<and> y = v"
    using lin [OF assms(2)] lin [OF assms(3)] by (metis unsigned_word_eqI)
  then show ?thesis by (auto simp: pixel_addr_def add.assoc)
qed

text \<open>The frame buffer promises exactly that.\<close>

interpretation fb: canvas "\<lambda>s x y. read_pixel x y s" draw_pixel visible fb_ok
proof
  show "visible (draw_pixel x y c s) = visible s" for x y c s
    by (simp add: draw_pixel_def visible_def fun_eq_iff)
  show "fb_ok (draw_pixel x y c s)" if "fb_ok s" for x y c s
    using that by (simp add: draw_pixel_def fb_ok_def)
  show "read_pixel u v (draw_pixel x y c s) = (if visible s u v \<and> u = x \<and> v = y then c else read_pixel u v s)" if "fb_ok s" for s x y c u v
  proof -
    have "visible s x y \<Longrightarrow> visible s u v \<Longrightarrow> pixel_addr s u v = pixel_addr s x y \<longleftrightarrow> u = x \<and> v = y"
      using pixel_addr_eq [OF that, of u v x y] by simp
    moreover have "visible (s\<lparr>vram := m\<rparr>) = visible s" "pixel_addr (s\<lparr>vram := m\<rparr>) = pixel_addr s" for m
      by (simp_all add: fun_eq_iff visible_def pixel_addr_def)
    ultimately show ?thesis by (auto simp: draw_pixel_def read_pixel_def)
  qed
qed

text \<open>A rectangle that may start left of or above the screen: coordinates wrap around.\<close>

lemma set_cells: "(dy, dx) \<in> set (cells h w) \<longleftrightarrow> dy < h \<and> dx < w"
  by (auto simp: cells_def intro!: bexI [of _ dy])

lemma rect_image:
  "(u, v) \<in> (\<lambda>(dy, dx). (x + of_nat dx, y + of_nat dy)) ` set (cells h w) \<longleftrightarrow> unat (u - x) < w \<and> unat (v - y) < h"
  if "h < 2 ^ 32" "w < 2 ^ 32" for u v x y :: u32
proof
  assume "(u, v) \<in> (\<lambda>(dy, dx). (x + of_nat dx, y + of_nat dy)) ` set (cells h w)"
  then show "unat (u - x) < w \<and> unat (v - y) < h" using that by (auto simp: set_cells unat_of_nat)
next
  assume "unat (u - x) < w \<and> unat (v - y) < h"
  then have "(unat (v - y), unat (u - x)) \<in> set (cells h w)" by (simp add: set_cells)
  moreover have "(u, v) = (\<lambda>(dy, dx). (x + of_nat dx, y + of_nat dy)) (unat (v - y), unat (u - x))" by simp
  ultimately show "(u, v) \<in> (\<lambda>(dy, dx). (x + of_nat dx, y + of_nat dy)) ` set (cells h w)" by (rule rev_image_eqI)
qed

abbreviation (input) at_cell :: "u32 \<Rightarrow> u32 \<Rightarrow> nat \<times> nat \<Rightarrow> u32 \<times> u32" where
  "at_cell x y \<equiv> \<lambda>(dy, dx). (x + of_nat dx, y + of_nat dy)"

text \<open>Painting changes nothing but the colours of pixels.\<close>

definition keeps_screen :: "(screen \<Rightarrow> screen) \<Rightarrow> bool" where
  "keeps_screen f \<longleftrightarrow> (\<forall>s. \<exists>v. f s = s\<lparr>vram := v\<rparr>)"

lemma same_vram: "\<exists>v. s = s\<lparr>vram := v\<rparr>" for s :: screen
  by (rule exI [where x = "vram s"]) simp

lemma keeps_screen_id: "keeps_screen (\<lambda>s. s)"
  by (simp add: keeps_screen_def same_vram)

lemma keeps_screen_comp: "keeps_screen f \<Longrightarrow> keeps_screen g \<Longrightarrow> keeps_screen (\<lambda>s. g (f s))"
  unfolding keeps_screen_def
proof
  fix s
  assume a: "\<forall>s. \<exists>v. f s = s\<lparr>vram := v\<rparr>" "\<forall>s. \<exists>v. g s = s\<lparr>vram := v\<rparr>"
  obtain v w where "f s = s\<lparr>vram := v\<rparr>" "g (f s) = (f s)\<lparr>vram := w\<rparr>" using a by meson
  then show "\<exists>v. g (f s) = s\<lparr>vram := v\<rparr>" by auto
qed

lemma keeps_screen_fold: "(\<And>p. keeps_screen (f p)) \<Longrightarrow> keeps_screen (fold f ps)"
  by (induction ps) (simp_all add: keeps_screen_id keeps_screen_comp comp_def id_def)

lemma keeps_screen_pixel: "keeps_screen (draw_pixel x y c)"
  unfolding keeps_screen_def draw_pixel_def using same_vram by auto

lemma keeps_screenD:
  assumes "keeps_screen f"
  shows "visible (f s) = visible s" "fb_ok (f s) = fb_ok s" "fb_width (f s) = fb_width s" "fb_height (f s) = fb_height s"
    "drawn (f s) = drawn s"
proof -
  obtain v where v: "f s = s\<lparr>vram := v\<rparr>" using assms by (auto simp: keeps_screen_def)
  show "visible (f s) = visible s" "fb_ok (f s) = fb_ok s" "fb_width (f s) = fb_width s" "fb_height (f s) = fb_height s"
    "drawn (f s) = drawn s"
    by (simp_all add: v visible_def fb_ok_def fun_eq_iff)
qed

text \<open>The picture after painting every cell of a rectangle in the colour that a function gives.\<close>

lemma paint_cells:
  fixes f :: "nat \<Rightarrow> nat \<Rightarrow> u32" and x y :: u32 and h w :: nat
  defines "paint \<equiv> fold (\<lambda>(dy, dx). draw_pixel (x + of_nat dx) (y + of_nat dy) (f dy dx)) (cells h w)"
  assumes "h < 2 ^ 32" "w < 2 ^ 32"
  shows "keeps_screen paint"
    "fb_ok s \<Longrightarrow> read_pixel u v (paint s) =
      (if visible s u v \<and> unat (u - x) < w \<and> unat (v - y) < h then f (unat (v - y)) (unat (u - x)) else read_pixel u v s)"
proof -
  have p: "paint s = fold (\<lambda>p. draw_pixel (fst (at_cell x y p)) (snd (at_cell x y p)) ((\<lambda>(dy, dx). f dy dx) p)) (cells h w) s"
    unfolding paint_def by (rule fold_cong) (auto split: prod.splits)
  show "keeps_screen paint" unfolding paint_def by (rule keeps_screen_fold) (auto simp: keeps_screen_pixel split: prod.splits)
  assume ok: "fb_ok s"
  have col: "(\<lambda>(dy, dx). f dy dx) p = f (unat (v - y)) (unat (u - x))" if "p \<in> set (cells h w)" "at_cell x y p = (u, v)" for p
    using that assms(2,3) by (auto simp: set_cells unat_of_nat split: prod.splits)
  show "read_pixel u v (paint s) =
      (if visible s u v \<and> unat (u - x) < w \<and> unat (v - y) < h then f (unat (v - y)) (unat (u - x)) else read_pixel u v s)"
    unfolding p using fb.fold_put_pic [where ps = "cells h w" and pos = "at_cell x y" and col = "\<lambda>(dy, dx). f dy dx" and
        u = u and v = v and g = "f (unat (v - y)) (unat (u - x))", OF ok col]
    unfolding rect_image [OF assms(2,3)] by simp
qed

lemma unat_lt32: "unat (w :: u32) < 2 ^ 32"
  using unsigned_less [of w] by simp

lemma draw_rect_picture:
  "keeps_screen (draw_rect x y w h c)"
  "fb_ok s \<Longrightarrow> read_pixel u v (draw_rect x y w h c s) = (if visible s u v \<and> u - x < w \<and> v - y < h then c else read_pixel u v s)"
  using paint_cells [where f = "\<lambda>_ _. c" and h = "unat h" and w = "unat w" and x = x and y = y, OF unat_lt32 unat_lt32]
  by (simp_all add: draw_rect_def [abs_def] word_less_nat_alt)

lemma fill_as_pixels:
  assumes "fb_virt s \<noteq> 0" "\<forall>(y, x) \<in> set ps. y < unat (fb_height s) \<and> x < unat (fb_width s)"
  shows "fold (\<lambda>(y, x) s. s\<lparr>vram := (vram s)(pixel_addr s (of_nat x) (of_nat y) := c)\<rparr>) ps s =
    fold (\<lambda>(dy, dx). draw_pixel (0 + of_nat dx) (0 + of_nat dy) c) ps s"
  using assms
proof (induction ps arbitrary: s)
  case (Cons p ps)
  obtain y x where p: "p = (y, x)" by (cases p)
  have "visible s (of_nat x) (of_nat y)"
    using Cons.prems unat_lt32 [of "fb_height s"] unat_lt32 [of "fb_width s"] by (simp add: p visible_def word_less_nat_alt unat_of_nat)
  then have d: "draw_pixel (of_nat x) (of_nat y) c s = s\<lparr>vram := (vram s)(pixel_addr s (of_nat x) (of_nat y) := c)\<rparr>"
    by (simp add: draw_pixel_def)
  show ?case using Cons.IH [of "draw_pixel (of_nat x) (of_nat y) c s"] Cons.prems by (simp add: p d fun_upd_def)
qed simp

lemma fill_screen_picture:
  "keeps_screen (fill_screen c)"
  "fb_ok s \<Longrightarrow> read_pixel u v (fill_screen c s) = (if visible s u v then c else 0)"
proof -
  have f: "fill_screen c s = (if fb_virt s = 0 then s
      else fold (\<lambda>(dy, dx). draw_pixel (0 + of_nat dx) (0 + of_nat dy) c) (cells (unat (fb_height s)) (unat (fb_width s))) s)" for s
    unfolding fill_screen_def using fill_as_pixels [of s "cells (unat (fb_height s)) (unat (fb_width s))" c]
    by (force simp: set_cells)
  note p = paint_cells [where f = "\<lambda>_ _. c" and x = 0 and y = 0, OF unat_lt32 unat_lt32]
  have "\<exists>v. fill_screen c s = s\<lparr>vram := v\<rparr>" for s
    unfolding f using p(1) [unfolded keeps_screen_def] keeps_screen_id [unfolded keeps_screen_def] by auto
  then show "keeps_screen (fill_screen c)" by (simp add: keeps_screen_def)
  assume ok: "fb_ok s"
  show "read_pixel u v (fill_screen c s) = (if visible s u v then c else 0)"
    unfolding f using p(2) [OF ok, of u v "fb_height s" "fb_width s"] by (auto simp: visible_def read_pixel_def word_less_nat_alt)
qed

text \<open>The cursor changes the picture only while it is drawn.\<close>

lemma keeps_screen_cursor: "keeps_screen restore_backing" "keeps_screen (paint_cursor x y)"
proof -
  have self: "s\<lparr>vram := vram s\<rparr> = s" for s :: screen by simp
  show "keeps_screen restore_backing" unfolding keeps_screen_def
    using restore_fold [where ps = "cells CURSOR_H CURSOR_W" and v = "vram s" and s = s for s] unfolding restore_backing_def self by blast
  show "keeps_screen (paint_cursor x y)" unfolding keeps_screen_def
    using paint_fold [where x = x and y = y and ps = "cells CURSOR_H CURSOR_W" and v = "vram s" and s = s for s]
    unfolding paint_cursor_def self by blast
qed

lemma cursor_geometry:
  "visible (cursor_hide s) = visible s" "pixel_addr (cursor_hide s) = pixel_addr s" "fb_ok (cursor_hide s) = fb_ok s"
  "visible (cursor_show s) = visible s" "pixel_addr (cursor_show s) = pixel_addr s" "fb_ok (cursor_show s) = fb_ok s"
proof -
  obtain v where v: "restore_backing s = s\<lparr>vram := v\<rparr>" using keeps_screen_cursor(1) unfolding keeps_screen_def by blast
  show "visible (cursor_hide s) = visible s" "pixel_addr (cursor_hide s) = pixel_addr s" "fb_ok (cursor_hide s) = fb_ok s"
    by (simp_all add: cursor_hide_def v visible_def pixel_addr_def fb_ok_def fun_eq_iff)
  define t where "t = save_backing (mouse_x s) (mouse_y s) (s\<lparr>last_x := mouse_x s, last_y := mouse_y s\<rparr>)"
  obtain w where "paint_cursor (mouse_x s) (mouse_y s) t = t\<lparr>vram := w\<rparr>" using keeps_screen_cursor(2) unfolding keeps_screen_def by blast
  then have "cursor_show s = (if drawn s then s else t\<lparr>vram := w, drawn := True\<rparr>)"
    by (simp add: cursor_show_def Let_def t_def save_backing_def)
  then show "visible (cursor_show s) = visible s" "pixel_addr (cursor_show s) = pixel_addr s" "fb_ok (cursor_show s) = fb_ok s"
    by (simp_all add: t_def save_backing_def visible_def pixel_addr_def fb_ok_def fun_eq_iff)
qed

lemma read_hide_show: "\<not> drawn s \<Longrightarrow> read_pixel u v (cursor_hide (cursor_show s)) = read_pixel u v s"
  using hide_show [of s] by (simp add: read_pixel_def cursor_geometry)

end
