(* ===== verification/Fbcon.thy ===== *)
theory Fbcon
  imports Framebuffer Libc
begin

text \<open>
  The font (\<^verbatim>\<open>arch/i386/font8x16.h\<close>) and the text console on the frame buffer (\<^verbatim>\<open>arch/i386/fbcon.c\<close>).
\<close>

section \<open>Font\<close>

abbreviation (input) FONT_WIDTH :: u32 where "FONT_WIDTH \<equiv> 8"
abbreviation (input) FONT_HEIGHT :: u32 where "FONT_HEIGHT \<equiv> 16"

definition font8x16 :: "u8 list list" where
  "font8x16 =
    [[0x00, 0x00, 0x00, 0x00, 0x00, 0x00, 0x00, 0x00, 0x00, 0x00, 0x00, 0x00, 0x00, 0x00, 0x00, 0x00],
     [0x00, 0x00, 0x00, 0x00, 0x00, 0x00, 0x00, 0x00, 0x00, 0x00, 0x00, 0x00, 0x00, 0x00, 0x00, 0x00],
     [0x00, 0x00, 0x00, 0x00, 0x00, 0x00, 0x00, 0x00, 0x00, 0x00, 0x00, 0x00, 0x00, 0x00, 0x00, 0x00],
     [0x00, 0x00, 0x00, 0x00, 0x00, 0x00, 0x00, 0x00, 0x00, 0x00, 0x00, 0x00, 0x00, 0x00, 0x00, 0x00],
     [0x00, 0x00, 0x00, 0x00, 0x00, 0x00, 0x00, 0x00, 0x00, 0x00, 0x00, 0x00, 0x00, 0x00, 0x00, 0x00],
     [0x00, 0x00, 0x00, 0x00, 0x00, 0x00, 0x00, 0x00, 0x00, 0x00, 0x00, 0x00, 0x00, 0x00, 0x00, 0x00],
     [0x00, 0x00, 0x00, 0x00, 0x00, 0x00, 0x00, 0x00, 0x00, 0x00, 0x00, 0x00, 0x00, 0x00, 0x00, 0x00],
     [0x00, 0x00, 0x00, 0x00, 0x00, 0x00, 0x00, 0x00, 0x00, 0x00, 0x00, 0x00, 0x00, 0x00, 0x00, 0x00],
     [0x00, 0x00, 0x00, 0x00, 0x00, 0x00, 0x00, 0x00, 0x00, 0x00, 0x00, 0x00, 0x00, 0x00, 0x00, 0x00],
     [0x00, 0x00, 0x00, 0x00, 0x00, 0x00, 0x00, 0x00, 0x00, 0x00, 0x00, 0x00, 0x00, 0x00, 0x00, 0x00],
     [0x00, 0x00, 0x00, 0x00, 0x00, 0x00, 0x00, 0x00, 0x00, 0x00, 0x00, 0x00, 0x00, 0x00, 0x00, 0x00],
     [0x00, 0x00, 0x00, 0x00, 0x00, 0x00, 0x00, 0x00, 0x00, 0x00, 0x00, 0x00, 0x00, 0x00, 0x00, 0x00],
     [0x00, 0x00, 0x00, 0x00, 0x00, 0x00, 0x00, 0x00, 0x00, 0x00, 0x00, 0x00, 0x00, 0x00, 0x00, 0x00],
     [0x00, 0x00, 0x00, 0x00, 0x00, 0x00, 0x00, 0x00, 0x00, 0x00, 0x00, 0x00, 0x00, 0x00, 0x00, 0x00],
     [0x00, 0x00, 0x00, 0x00, 0x00, 0x00, 0x00, 0x00, 0x00, 0x00, 0x00, 0x00, 0x00, 0x00, 0x00, 0x00],
     [0x00, 0x00, 0x00, 0x00, 0x00, 0x00, 0x00, 0x00, 0x00, 0x00, 0x00, 0x00, 0x00, 0x00, 0x00, 0x00],
     [0x00, 0x00, 0x00, 0x00, 0x00, 0x00, 0x00, 0x00, 0x00, 0x00, 0x00, 0x00, 0x00, 0x00, 0x00, 0x00],
     [0x00, 0x00, 0x00, 0x00, 0x00, 0x00, 0x00, 0x00, 0x00, 0x00, 0x00, 0x00, 0x00, 0x00, 0x00, 0x00],
     [0x00, 0x00, 0x00, 0x00, 0x00, 0x00, 0x00, 0x00, 0x00, 0x00, 0x00, 0x00, 0x00, 0x00, 0x00, 0x00],
     [0x00, 0x00, 0x00, 0x00, 0x00, 0x00, 0x00, 0x00, 0x00, 0x00, 0x00, 0x00, 0x00, 0x00, 0x00, 0x00],
     [0x00, 0x00, 0x00, 0x00, 0x00, 0x00, 0x00, 0x00, 0x00, 0x00, 0x00, 0x00, 0x00, 0x00, 0x00, 0x00],
     [0x00, 0x00, 0x00, 0x00, 0x00, 0x00, 0x00, 0x00, 0x00, 0x00, 0x00, 0x00, 0x00, 0x00, 0x00, 0x00],
     [0x00, 0x00, 0x00, 0x00, 0x00, 0x00, 0x00, 0x00, 0x00, 0x00, 0x00, 0x00, 0x00, 0x00, 0x00, 0x00],
     [0x00, 0x00, 0x00, 0x00, 0x00, 0x00, 0x00, 0x00, 0x00, 0x00, 0x00, 0x00, 0x00, 0x00, 0x00, 0x00],
     [0x00, 0x00, 0x00, 0x00, 0x00, 0x00, 0x00, 0x00, 0x00, 0x00, 0x00, 0x00, 0x00, 0x00, 0x00, 0x00],
     [0x00, 0x00, 0x00, 0x00, 0x00, 0x00, 0x00, 0x00, 0x00, 0x00, 0x00, 0x00, 0x00, 0x00, 0x00, 0x00],
     [0x00, 0x00, 0x00, 0x00, 0x00, 0x00, 0x00, 0x00, 0x00, 0x00, 0x00, 0x00, 0x00, 0x00, 0x00, 0x00],
     [0x00, 0x00, 0x00, 0x00, 0x00, 0x00, 0x00, 0x00, 0x00, 0x00, 0x00, 0x00, 0x00, 0x00, 0x00, 0x00],
     [0x00, 0x00, 0x00, 0x00, 0x00, 0x00, 0x00, 0x00, 0x00, 0x00, 0x00, 0x00, 0x00, 0x00, 0x00, 0x00],
     [0x00, 0x00, 0x00, 0x00, 0x00, 0x00, 0x00, 0x00, 0x00, 0x00, 0x00, 0x00, 0x00, 0x00, 0x00, 0x00],
     [0x00, 0x00, 0x00, 0x00, 0x00, 0x00, 0x00, 0x00, 0x00, 0x00, 0x00, 0x00, 0x00, 0x00, 0x00, 0x00],
     [0x00, 0x00, 0x00, 0x00, 0x00, 0x00, 0x00, 0x00, 0x00, 0x00, 0x00, 0x00, 0x00, 0x00, 0x00, 0x00],
     [0x00, 0x00, 0x00, 0x00, 0x00, 0x00, 0x00, 0x00, 0x00, 0x00, 0x00, 0x00, 0x00, 0x00, 0x00, 0x00],
     [0x00, 0x00, 0x00, 0x08, 0x08, 0x08, 0x08, 0x08, 0x08, 0x00, 0x00, 0x08, 0x08, 0x00, 0x00, 0x00],
     [0x00, 0x00, 0x00, 0x14, 0x14, 0x14, 0x14, 0x00, 0x00, 0x00, 0x00, 0x00, 0x00, 0x00, 0x00, 0x00],
     [0x00, 0x00, 0x00, 0x12, 0x12, 0x16, 0x7F, 0x24, 0x24, 0xFE, 0x28, 0x48, 0x48, 0x00, 0x00, 0x00],
     [0x00, 0x00, 0x08, 0x08, 0x3E, 0x49, 0x48, 0x68, 0x3E, 0x0B, 0x09, 0x49, 0x3E, 0x08, 0x08, 0x00],
     [0x00, 0x00, 0x00, 0x60, 0x90, 0x90, 0x62, 0x0C, 0x30, 0x46, 0x09, 0x09, 0x06, 0x00, 0x00, 0x00],
     [0x00, 0x00, 0x00, 0x1C, 0x20, 0x20, 0x30, 0x30, 0x49, 0x45, 0x45, 0x62, 0x3D, 0x00, 0x00, 0x00],
     [0x00, 0x00, 0x00, 0x08, 0x08, 0x08, 0x08, 0x00, 0x00, 0x00, 0x00, 0x00, 0x00, 0x00, 0x00, 0x00],
     [0x00, 0x00, 0x0C, 0x08, 0x08, 0x10, 0x10, 0x10, 0x10, 0x10, 0x10, 0x08, 0x08, 0x04, 0x00, 0x00],
     [0x00, 0x00, 0x30, 0x10, 0x10, 0x08, 0x08, 0x08, 0x08, 0x08, 0x08, 0x10, 0x10, 0x20, 0x00, 0x00],
     [0x00, 0x00, 0x00, 0x08, 0x49, 0x3E, 0x1C, 0x6B, 0x08, 0x00, 0x00, 0x00, 0x00, 0x00, 0x00, 0x00],
     [0x00, 0x00, 0x00, 0x00, 0x00, 0x08, 0x08, 0x08, 0x7F, 0x08, 0x08, 0x08, 0x00, 0x00, 0x00, 0x00],
     [0x00, 0x00, 0x00, 0x00, 0x00, 0x00, 0x00, 0x00, 0x00, 0x00, 0x00, 0x18, 0x18, 0x10, 0x20, 0x00],
     [0x00, 0x00, 0x00, 0x00, 0x00, 0x00, 0x00, 0x00, 0x00, 0x3C, 0x00, 0x00, 0x00, 0x00, 0x00, 0x00],
     [0x00, 0x00, 0x00, 0x00, 0x00, 0x00, 0x00, 0x00, 0x00, 0x00, 0x00, 0x18, 0x18, 0x00, 0x00, 0x00],
     [0x00, 0x00, 0x00, 0x02, 0x04, 0x04, 0x04, 0x08, 0x08, 0x10, 0x10, 0x20, 0x20, 0x20, 0x40, 0x00],
     [0x00, 0x00, 0x00, 0x1C, 0x22, 0x41, 0x41, 0x49, 0x41, 0x41, 0x41, 0x22, 0x1C, 0x00, 0x00, 0x00],
     [0x00, 0x00, 0x00, 0x18, 0x28, 0x08, 0x08, 0x08, 0x08, 0x08, 0x08, 0x08, 0x3E, 0x00, 0x00, 0x00],
     [0x00, 0x00, 0x00, 0x3E, 0x43, 0x01, 0x01, 0x02, 0x06, 0x0C, 0x10, 0x20, 0x7F, 0x00, 0x00, 0x00],
     [0x00, 0x00, 0x00, 0x3E, 0x41, 0x01, 0x03, 0x1C, 0x03, 0x01, 0x01, 0x43, 0x3E, 0x00, 0x00, 0x00],
     [0x00, 0x00, 0x00, 0x06, 0x0A, 0x1A, 0x12, 0x22, 0x42, 0x7F, 0x02, 0x02, 0x02, 0x00, 0x00, 0x00],
     [0x00, 0x00, 0x00, 0x7E, 0x40, 0x40, 0x7C, 0x42, 0x01, 0x01, 0x01, 0x42, 0x3C, 0x00, 0x00, 0x00],
     [0x00, 0x00, 0x00, 0x1E, 0x31, 0x60, 0x40, 0x5E, 0x63, 0x41, 0x41, 0x23, 0x1E, 0x00, 0x00, 0x00],
     [0x00, 0x00, 0x00, 0x7F, 0x03, 0x02, 0x04, 0x04, 0x08, 0x08, 0x10, 0x10, 0x20, 0x00, 0x00, 0x00],
     [0x00, 0x00, 0x00, 0x3E, 0x41, 0x41, 0x41, 0x3E, 0x63, 0x41, 0x41, 0x63, 0x3E, 0x00, 0x00, 0x00],
     [0x00, 0x00, 0x00, 0x3C, 0x62, 0x41, 0x41, 0x63, 0x3D, 0x01, 0x03, 0x46, 0x3C, 0x00, 0x00, 0x00],
     [0x00, 0x00, 0x00, 0x00, 0x00, 0x00, 0x18, 0x18, 0x00, 0x00, 0x00, 0x18, 0x18, 0x00, 0x00, 0x00],
     [0x00, 0x00, 0x00, 0x00, 0x00, 0x00, 0x18, 0x18, 0x00, 0x00, 0x00, 0x18, 0x18, 0x10, 0x20, 0x00],
     [0x00, 0x00, 0x00, 0x00, 0x00, 0x01, 0x0E, 0x38, 0x40, 0x38, 0x0E, 0x01, 0x00, 0x00, 0x00, 0x00],
     [0x00, 0x00, 0x00, 0x00, 0x00, 0x00, 0x7F, 0x00, 0x00, 0x7F, 0x00, 0x00, 0x00, 0x00, 0x00, 0x00],
     [0x00, 0x00, 0x00, 0x00, 0x00, 0x40, 0x38, 0x0E, 0x01, 0x0E, 0x38, 0x40, 0x00, 0x00, 0x00, 0x00],
     [0x00, 0x00, 0x00, 0x38, 0x44, 0x04, 0x0C, 0x18, 0x10, 0x10, 0x00, 0x10, 0x10, 0x00, 0x00, 0x00],
     [0x00, 0x00, 0x00, 0x1E, 0x33, 0x21, 0x47, 0x49, 0x49, 0x49, 0x49, 0x47, 0x20, 0x30, 0x0E, 0x00],
     [0x00, 0x00, 0x00, 0x08, 0x14, 0x14, 0x14, 0x14, 0x22, 0x3E, 0x22, 0x41, 0x41, 0x00, 0x00, 0x00],
     [0x00, 0x00, 0x00, 0x7E, 0x41, 0x41, 0x41, 0x7E, 0x43, 0x41, 0x41, 0x43, 0x7E, 0x00, 0x00, 0x00],
     [0x00, 0x00, 0x00, 0x1E, 0x21, 0x40, 0x40, 0x40, 0x40, 0x40, 0x40, 0x21, 0x1E, 0x00, 0x00, 0x00],
     [0x00, 0x00, 0x00, 0x7C, 0x42, 0x41, 0x41, 0x41, 0x41, 0x41, 0x41, 0x42, 0x7C, 0x00, 0x00, 0x00],
     [0x00, 0x00, 0x00, 0x7F, 0x40, 0x40, 0x40, 0x7F, 0x40, 0x40, 0x40, 0x40, 0x7F, 0x00, 0x00, 0x00],
     [0x00, 0x00, 0x00, 0x7F, 0x40, 0x40, 0x40, 0x7F, 0x40, 0x40, 0x40, 0x40, 0x40, 0x00, 0x00, 0x00],
     [0x00, 0x00, 0x00, 0x1E, 0x21, 0x40, 0x40, 0x40, 0x43, 0x41, 0x41, 0x21, 0x1E, 0x00, 0x00, 0x00],
     [0x00, 0x00, 0x00, 0x41, 0x41, 0x41, 0x41, 0x7F, 0x41, 0x41, 0x41, 0x41, 0x41, 0x00, 0x00, 0x00],
     [0x00, 0x00, 0x00, 0x3E, 0x08, 0x08, 0x08, 0x08, 0x08, 0x08, 0x08, 0x08, 0x3E, 0x00, 0x00, 0x00],
     [0x00, 0x00, 0x00, 0x1E, 0x02, 0x02, 0x02, 0x02, 0x02, 0x02, 0x02, 0x46, 0x3C, 0x00, 0x00, 0x00],
     [0x00, 0x00, 0x00, 0x42, 0x44, 0x48, 0x50, 0x70, 0x48, 0x4C, 0x44, 0x42, 0x41, 0x00, 0x00, 0x00],
     [0x00, 0x00, 0x00, 0x40, 0x40, 0x40, 0x40, 0x40, 0x40, 0x40, 0x40, 0x40, 0x7F, 0x00, 0x00, 0x00],
     [0x00, 0x00, 0x00, 0x63, 0x63, 0x55, 0x55, 0x55, 0x49, 0x41, 0x41, 0x41, 0x41, 0x00, 0x00, 0x00],
     [0x00, 0x00, 0x00, 0x61, 0x61, 0x51, 0x51, 0x49, 0x49, 0x45, 0x45, 0x43, 0x43, 0x00, 0x00, 0x00],
     [0x00, 0x00, 0x00, 0x1C, 0x22, 0x41, 0x41, 0x41, 0x41, 0x41, 0x41, 0x22, 0x1C, 0x00, 0x00, 0x00],
     [0x00, 0x00, 0x00, 0x7E, 0x43, 0x41, 0x41, 0x43, 0x7E, 0x40, 0x40, 0x40, 0x40, 0x00, 0x00, 0x00],
     [0x00, 0x00, 0x00, 0x1C, 0x22, 0x41, 0x41, 0x41, 0x41, 0x41, 0x41, 0x22, 0x1E, 0x06, 0x02, 0x00],
     [0x00, 0x00, 0x00, 0x7E, 0x43, 0x41, 0x41, 0x43, 0x7C, 0x42, 0x41, 0x41, 0x40, 0x00, 0x00, 0x00],
     [0x00, 0x00, 0x00, 0x1E, 0x61, 0x40, 0x40, 0x30, 0x0E, 0x01, 0x01, 0x43, 0x3E, 0x00, 0x00, 0x00],
     [0x00, 0x00, 0x00, 0x7F, 0x08, 0x08, 0x08, 0x08, 0x08, 0x08, 0x08, 0x08, 0x08, 0x00, 0x00, 0x00],
     [0x00, 0x00, 0x00, 0x41, 0x41, 0x41, 0x41, 0x41, 0x41, 0x41, 0x41, 0x63, 0x3E, 0x00, 0x00, 0x00],
     [0x00, 0x00, 0x00, 0x41, 0x41, 0x22, 0x22, 0x22, 0x14, 0x14, 0x14, 0x14, 0x08, 0x00, 0x00, 0x00],
     [0x00, 0x00, 0x00, 0x81, 0x81, 0x81, 0x99, 0x5A, 0x5A, 0x5A, 0x24, 0x24, 0x24, 0x00, 0x00, 0x00],
     [0x00, 0x00, 0x00, 0x41, 0x22, 0x14, 0x14, 0x08, 0x14, 0x14, 0x22, 0x22, 0x41, 0x00, 0x00, 0x00],
     [0x00, 0x00, 0x00, 0x41, 0x22, 0x22, 0x14, 0x1C, 0x08, 0x08, 0x08, 0x08, 0x08, 0x00, 0x00, 0x00],
     [0x00, 0x00, 0x00, 0x7F, 0x03, 0x02, 0x04, 0x08, 0x08, 0x10, 0x20, 0x60, 0x7F, 0x00, 0x00, 0x00],
     [0x00, 0x00, 0x1C, 0x10, 0x10, 0x10, 0x10, 0x10, 0x10, 0x10, 0x10, 0x10, 0x10, 0x1C, 0x00, 0x00],
     [0x00, 0x00, 0x00, 0x40, 0x20, 0x20, 0x20, 0x10, 0x10, 0x08, 0x08, 0x04, 0x04, 0x04, 0x02, 0x00],
     [0x00, 0x00, 0x38, 0x08, 0x08, 0x08, 0x08, 0x08, 0x08, 0x08, 0x08, 0x08, 0x08, 0x38, 0x00, 0x00],
     [0x00, 0x00, 0x00, 0x08, 0x14, 0x22, 0x63, 0x00, 0x00, 0x00, 0x00, 0x00, 0x00, 0x00, 0x00, 0x00],
     [0x00, 0x00, 0x00, 0x00, 0x00, 0x00, 0x00, 0x00, 0x00, 0x00, 0x00, 0x00, 0x00, 0x00, 0x00, 0xFF],
     [0x00, 0x30, 0x10, 0x08, 0x00, 0x00, 0x00, 0x00, 0x00, 0x00, 0x00, 0x00, 0x00, 0x00, 0x00, 0x00],
     [0x00, 0x00, 0x00, 0x00, 0x00, 0x1C, 0x22, 0x02, 0x3E, 0x42, 0x42, 0x46, 0x3A, 0x00, 0x00, 0x00],
     [0x00, 0x00, 0x40, 0x40, 0x40, 0x7C, 0x64, 0x42, 0x42, 0x42, 0x42, 0x64, 0x5C, 0x00, 0x00, 0x00],
     [0x00, 0x00, 0x00, 0x00, 0x00, 0x1C, 0x22, 0x40, 0x40, 0x40, 0x40, 0x22, 0x1C, 0x00, 0x00, 0x00],
     [0x00, 0x00, 0x02, 0x02, 0x02, 0x3E, 0x26, 0x42, 0x42, 0x42, 0x42, 0x26, 0x3A, 0x00, 0x00, 0x00],
     [0x00, 0x00, 0x00, 0x00, 0x00, 0x3C, 0x26, 0x42, 0x7E, 0x40, 0x40, 0x22, 0x1C, 0x00, 0x00, 0x00],
     [0x00, 0x00, 0x0E, 0x10, 0x10, 0x7E, 0x10, 0x10, 0x10, 0x10, 0x10, 0x10, 0x10, 0x00, 0x00, 0x00],
     [0x00, 0x00, 0x00, 0x00, 0x00, 0x3A, 0x26, 0x42, 0x42, 0x42, 0x42, 0x26, 0x3A, 0x02, 0x22, 0x1C],
     [0x00, 0x00, 0x40, 0x40, 0x40, 0x5C, 0x62, 0x42, 0x42, 0x42, 0x42, 0x42, 0x42, 0x00, 0x00, 0x00],
     [0x00, 0x00, 0x08, 0x08, 0x00, 0x38, 0x08, 0x08, 0x08, 0x08, 0x08, 0x08, 0x7F, 0x00, 0x00, 0x00],
     [0x00, 0x00, 0x08, 0x08, 0x00, 0x38, 0x08, 0x08, 0x08, 0x08, 0x08, 0x08, 0x08, 0x08, 0x08, 0x70],
     [0x00, 0x00, 0x40, 0x40, 0x40, 0x44, 0x48, 0x50, 0x70, 0x48, 0x48, 0x44, 0x42, 0x00, 0x00, 0x00],
     [0x00, 0x00, 0xF0, 0x10, 0x10, 0x10, 0x10, 0x10, 0x10, 0x10, 0x10, 0x10, 0x0E, 0x00, 0x00, 0x00],
     [0x00, 0x00, 0x00, 0x00, 0x00, 0x7E, 0x49, 0x49, 0x49, 0x49, 0x49, 0x49, 0x49, 0x00, 0x00, 0x00],
     [0x00, 0x00, 0x00, 0x00, 0x00, 0x5C, 0x62, 0x42, 0x42, 0x42, 0x42, 0x42, 0x42, 0x00, 0x00, 0x00],
     [0x00, 0x00, 0x00, 0x00, 0x00, 0x3C, 0x66, 0x42, 0x42, 0x42, 0x42, 0x66, 0x3C, 0x00, 0x00, 0x00],
     [0x00, 0x00, 0x00, 0x00, 0x00, 0x5C, 0x64, 0x42, 0x42, 0x42, 0x42, 0x64, 0x7C, 0x40, 0x40, 0x40],
     [0x00, 0x00, 0x00, 0x00, 0x00, 0x3A, 0x26, 0x42, 0x42, 0x42, 0x42, 0x26, 0x3A, 0x02, 0x02, 0x02],
     [0x00, 0x00, 0x00, 0x00, 0x00, 0x3C, 0x32, 0x20, 0x20, 0x20, 0x20, 0x20, 0x20, 0x00, 0x00, 0x00],
     [0x00, 0x00, 0x00, 0x00, 0x00, 0x3C, 0x42, 0x40, 0x70, 0x0E, 0x02, 0x42, 0x3C, 0x00, 0x00, 0x00],
     [0x00, 0x00, 0x00, 0x10, 0x10, 0x7E, 0x10, 0x10, 0x10, 0x10, 0x10, 0x10, 0x0E, 0x00, 0x00, 0x00],
     [0x00, 0x00, 0x00, 0x00, 0x00, 0x42, 0x42, 0x42, 0x42, 0x42, 0x42, 0x46, 0x3A, 0x00, 0x00, 0x00],
     [0x00, 0x00, 0x00, 0x00, 0x00, 0x42, 0x42, 0x24, 0x24, 0x24, 0x18, 0x18, 0x18, 0x00, 0x00, 0x00],
     [0x00, 0x00, 0x00, 0x00, 0x00, 0x81, 0x81, 0x5A, 0x5A, 0x5A, 0x5A, 0x24, 0x24, 0x00, 0x00, 0x00],
     [0x00, 0x00, 0x00, 0x00, 0x00, 0x42, 0x24, 0x18, 0x18, 0x18, 0x24, 0x24, 0x42, 0x00, 0x00, 0x00],
     [0x00, 0x00, 0x00, 0x00, 0x00, 0x42, 0x22, 0x24, 0x24, 0x14, 0x18, 0x08, 0x08, 0x08, 0x10, 0x30],
     [0x00, 0x00, 0x00, 0x00, 0x00, 0x7E, 0x02, 0x04, 0x08, 0x10, 0x20, 0x40, 0x7E, 0x00, 0x00, 0x00],
     [0x00, 0x00, 0x06, 0x08, 0x08, 0x08, 0x08, 0x08, 0x30, 0x08, 0x08, 0x08, 0x08, 0x08, 0x06, 0x00],
     [0x00, 0x00, 0x08, 0x08, 0x08, 0x08, 0x08, 0x08, 0x08, 0x08, 0x08, 0x08, 0x08, 0x08, 0x08, 0x08],
     [0x00, 0x00, 0x30, 0x08, 0x08, 0x08, 0x08, 0x08, 0x06, 0x08, 0x08, 0x08, 0x08, 0x08, 0x30, 0x00],
     [0x00, 0x00, 0x00, 0x00, 0x00, 0x00, 0x00, 0x00, 0x39, 0x46, 0x00, 0x00, 0x00, 0x00, 0x00, 0x00],
     [0x00, 0x00, 0x00, 0x00, 0x00, 0x00, 0x00, 0x00, 0x00, 0x00, 0x00, 0x00, 0x00, 0x00, 0x00, 0x00]]"

section \<open>Console\<close>

record fbcon =
  con_screen :: screen
  con_x :: u32
  con_y :: u16
  con_cols :: u32
  con_rows :: u32
  fg_colour :: u32
  bg_colour :: u32

definition draw_glyph :: "u32 \<Rightarrow> u32 \<Rightarrow> u8 \<Rightarrow> u32 \<Rightarrow> u32 \<Rightarrow> screen \<Rightarrow> screen" where
  "draw_glyph px py c fg bg s =
     (let uc = (if c \<ge> 128 then 63 else c);
          glyph = font8x16 ! unat uc
      in fold (\<lambda>(row, col). draw_pixel (px + of_nat col) (py + of_nat row)
             (if glyph ! row AND drop_bit col 0x80 \<noteq> 0 then fg else bg))
           (cells (unat FONT_HEIGHT) (unat FONT_WIDTH)) s)"

definition fbcon_clear :: "fbcon \<Rightarrow> fbcon" where
  "fbcon_clear f = f\<lparr>con_screen := fill_screen (bg_colour f) (con_screen f), con_x := 0, con_y := 0\<rparr>"

definition fbcon_init :: "fbcon \<Rightarrow> fbcon" where
  "fbcon_init f =
     fbcon_clear (f\<lparr>con_cols := fb_width (con_screen f) div FONT_WIDTH, con_rows := fb_height (con_screen f) div FONT_HEIGHT, con_x := 0, con_y := 0\<rparr>)"

definition fbcon_set_colour :: "u32 \<Rightarrow> u32 \<Rightarrow> fbcon \<Rightarrow> fbcon" where
  "fbcon_set_colour fg bg f = f\<lparr>fg_colour := fg, bg_colour := bg\<rparr>"

definition scroll_if_needed :: "fbcon \<Rightarrow> fbcon" where
  "scroll_if_needed f = (if ucast (con_y f) \<ge> con_rows f then fbcon_clear f else f)"

definition glyph_at_cursor :: "u8 \<Rightarrow> fbcon \<Rightarrow> fbcon" where
  "glyph_at_cursor c f =
     f\<lparr>con_screen := draw_glyph (con_x f * FONT_WIDTH) (ucast (con_y f) * FONT_HEIGHT) c (fg_colour f) (bg_colour f) (con_screen f)\<rparr>"

definition wrap_if_needed :: "fbcon \<Rightarrow> fbcon" where
  "wrap_if_needed f = (if con_x f \<ge> con_cols f then scroll_if_needed (f\<lparr>con_x := 0, con_y := con_y f + 1\<rparr>) else f)"

definition fbcon_putchar :: "u8 \<Rightarrow> fbcon \<Rightarrow> fbcon" where
  "fbcon_putchar c f =
     (if c = 10 then scroll_if_needed (f\<lparr>con_x := 0, con_y := con_y f + 1\<rparr>)
      else if c = 13 then f\<lparr>con_x := 0\<rparr>
      else if c = 8 then (if con_x f > 0 then glyph_at_cursor 32 (f\<lparr>con_x := con_x f - 1\<rparr>) else f)
      else if c = 9 then wrap_if_needed (f\<lparr>con_x := (con_x f + 4) AND NOT 3\<rparr>)
      else let f = glyph_at_cursor c f in wrap_if_needed (f\<lparr>con_x := con_x f + 1\<rparr>))"

definition fbcon_write :: "u8 list \<Rightarrow> fbcon \<Rightarrow> fbcon" where
  "fbcon_write data f =
     (let f = fold fbcon_putchar data (f\<lparr>con_screen := cursor_hide (con_screen f)\<rparr>)
      in f\<lparr>con_screen := cursor_show (con_screen f)\<rparr>)"

fun fbcon_draw_string_at :: "u32 \<Rightarrow> u32 \<Rightarrow> cstr \<Rightarrow> u32 \<Rightarrow> u32 \<Rightarrow> screen \<Rightarrow> screen" where
  "fbcon_draw_string_at px py [] fg bg s = s"
| "fbcon_draw_string_at px py (c # cs) fg bg s =
     fbcon_draw_string_at (px + FONT_WIDTH) py cs fg bg (draw_glyph px py c fg bg s)"

definition fbcon_draw_char_at :: "u32 \<Rightarrow> u32 \<Rightarrow> u8 \<Rightarrow> u32 \<Rightarrow> u32 \<Rightarrow> screen \<Rightarrow> screen" where
  "fbcon_draw_char_at px py c fg bg = draw_glyph px py c fg bg"

section \<open>Glyphs on the screen\<close>

definition glyph_pixel :: "u8 \<Rightarrow> nat \<Rightarrow> nat \<Rightarrow> u32 \<Rightarrow> u32 \<Rightarrow> u32" where
  "glyph_pixel c row col fg bg = (if font8x16 ! unat (if c \<ge> 128 then 63 else c) ! row AND drop_bit col 0x80 \<noteq> 0 then fg else bg)"

lemma draw_glyph_picture:
  "keeps_screen (draw_glyph px py c fg bg)"
  "fb_ok s \<Longrightarrow> read_pixel u v (draw_glyph px py c fg bg s) =
    (if visible s u v \<and> u - px < 8 \<and> v - py < 16 then glyph_pixel c (unat (v - py)) (unat (u - px)) fg bg else read_pixel u v s)"
  using paint_cells [where f = "\<lambda>row col. glyph_pixel c row col fg bg" and h = 16 and w = 8 and x = px and y = py]
  by (simp_all add: draw_glyph_def [abs_def] word_less_nat_alt glyph_pixel_def Let_def del: drop_bit_numeral_bit1)

lemma blank_glyph: "row < 16 \<Longrightarrow> glyph_pixel 32 row col fg bg = bg"
proof -
  assume r: "row < 16"
  have "font8x16 ! 32 = replicate 16 0" by (simp add: font8x16_def numeral_eq_Suc)
  then show ?thesis using r by (simp add: glyph_pixel_def)
qed

text \<open>A cell of the text grid and the pixels in it.\<close>

lemma in_cell:
  fixes k u x :: u32
  assumes "0 < k" "unat x * unat k + unat k \<le> 2 ^ 32"
  shows "u - x * k < k \<longleftrightarrow> unat u div unat k = unat x" "unat u div unat k = unat x \<Longrightarrow> unat (u - x * k) = unat u mod unat k"
proof -
  have k: "0 < unat k" using assms(1) by (simp add: word_less_nat_alt)
  then have xk: "unat (x * k) = unat x * unat k" using assms(2) by (simp add: unat_word_ariths)
  have le: "unat u div unat k = unat x \<Longrightarrow> x * k \<le> u" 
    using div_times_less_eq_dividend [of "unat u" "unat k"] by (simp add: word_le_nat_alt xk)
  show sub: "unat (u - x * k) = unat u mod unat k" if "unat u div unat k = unat x"
    using unat_sub [OF le [OF that]] that by (simp add: xk minus_div_mult_eq_mod [symmetric])
  show "u - x * k < k \<longleftrightarrow> unat u div unat k = unat x"
  proof
    assume "unat u div unat k = unat x"
    then show "u - x * k < k" using sub k by (simp add: word_less_nat_alt)
  next
    assume lt: "u - x * k < k"
    have "unat u = (unat x * unat k + unat (u - x * k)) mod 2 ^ 32"
      using unat_word_ariths(1) [of "x * k" "u - x * k"] by (simp add: xk)
    also have "\<dots> = unat x * unat k + unat (u - x * k)" using lt assms(2) by (simp add: word_less_nat_alt)
    finally show "unat u div unat k = unat x" using lt by (simp add: word_less_nat_alt)
  qed
qed

section \<open>The console shows the text\<close>

text \<open>
  The specification: a grid of characters with a cursor. A line feed or a full line goes to the
  next line, and past the last line the grid starts again empty.
\<close>

record page =
  ink :: "nat \<Rightarrow> nat \<Rightarrow> u8"
  page_x :: nat
  page_y :: nat

definition empty_page :: page where
  "empty_page = \<lparr>ink = (\<lambda>_ _. 32), page_x = 0, page_y = 0\<rparr>"

definition next_line :: "nat \<Rightarrow> page \<Rightarrow> page" where
  "next_line r g = (if page_y g + 1 \<ge> r then empty_page else g\<lparr>page_x := 0, page_y := page_y g + 1\<rparr>)"

definition print_char :: "u8 \<Rightarrow> page \<Rightarrow> page" where
  "print_char c g = g\<lparr>ink := (ink g)(page_y g := (ink g (page_y g))(page_x g := c))\<rparr>"

text \<open>Typing a character on a page of \<open>n\<close> columns, where \<open>nl\<close> goes to the next line.\<close>

definition type_char :: "nat \<Rightarrow> (page \<Rightarrow> page) \<Rightarrow> u8 \<Rightarrow> page \<Rightarrow> page" where
  "type_char n nl c g =
     (if c = 10 then nl g
      else if c = 13 then g\<lparr>page_x := 0\<rparr>
      else if c = 8 then (if page_x g > 0 then print_char 32 (g\<lparr>page_x := page_x g - 1\<rparr>) else g)
      else let x = (if c = 9 then (page_x g div 4 + 1) * 4 else page_x g + 1);
               g = (if c = 9 then g else print_char c g)
           in if x \<ge> n then nl g else g\<lparr>page_x := x\<rparr>)"

definition text_pixel :: "page \<Rightarrow> u32 \<Rightarrow> u32 \<Rightarrow> u32 \<Rightarrow> u32 \<Rightarrow> u32" where
  "text_pixel g fg bg u v = glyph_pixel (ink g (unat v div 16) (unat u div 8)) (unat v mod 16) (unat u mod 8) fg bg"

text \<open>The console shows a page: the cursor is the same and every visible pixel is that of the text.\<close>

definition shows_page :: "fbcon \<Rightarrow> page \<Rightarrow> bool" where
  "shows_page f g \<longleftrightarrow>
     fb_ok (con_screen f) \<and> fb_width (con_screen f) div 8 = con_cols f \<and> fb_height (con_screen f) div 16 = con_rows f \<and>
     0 < con_cols f \<and> 0 < con_rows f \<and> con_rows f \<le> 0xFFFF \<and>
     unat (con_x f) = page_x g \<and> unat (con_y f) = page_y g \<and> con_x f < con_cols f \<and> ucast (con_y f) < con_rows f \<and>
     (\<forall>u v. visible (con_screen f) u v \<longrightarrow> read_pixel u v (con_screen f) = text_pixel g (fg_colour f) (bg_colour f) u v)"

lemma unat_up16 [simp]: "unat (ucast (y :: u16) :: u32) = unat y"
proof -
  have "unat y < 65536" using unsigned_less [of y, where 'a = nat] by simp
  then show ?thesis by (simp add: unsigned_ucast_eq take_bit_nat_eq_self)
qed

lemma shows_page_cursor:
  "shows_page f g \<Longrightarrow> x < con_cols f \<Longrightarrow> shows_page (f\<lparr>con_x := x\<rparr>) (g\<lparr>page_x := unat x\<rparr>)"
  by (simp add: shows_page_def text_pixel_def)

lemma cell_fits:
  fixes w x k :: u32
  assumes "x < w div k" "0 < k"
  shows "unat x * unat k + unat k \<le> 2 ^ 32"
proof -
  have "Suc (unat x) \<le> unat w div unat k" using assms(1) by (simp add: word_less_nat_alt unat_div)
  then have "Suc (unat x) * unat k \<le> unat w div unat k * unat k" by (rule mult_le_mono1)
  also have "\<dots> \<le> unat w" by simp
  finally show ?thesis using unat_lt32 [of w] by simp
qed

lemma glyph_at_cursor_shows: "shows_page f g \<Longrightarrow> shows_page (glyph_at_cursor c f) (print_char c g)"
proof -
  assume s: "shows_page f g"
  let ?s = "con_screen f" and ?x = "con_x f" and ?y = "ucast (con_y f) :: u32"
  let ?d = "draw_glyph (?x * 8) (?y * 16) c (fg_colour f) (bg_colour f)"
  have x: "unat ?x = page_x g" "unat ?y = page_y g" using s by (simp_all add: shows_page_def)
  have "?x < fb_width ?s div 8" "?y < fb_height ?s div 16" using s by (simp_all add: shows_page_def)
  note cx = in_cell [OF _ cell_fits [OF this(1)], simplified] and cy = in_cell [OF _ cell_fits [OF this(2)], simplified]
  have "read_pixel u v (?d ?s) = text_pixel (print_char c g) (fg_colour f) (bg_colour f) u v" if "visible ?s u v" for u v
    using that s draw_glyph_picture(2) [of ?s u v "?x * 8" "?y * 16" c "fg_colour f" "bg_colour f"]
    by (auto simp: cx cy x shows_page_def text_pixel_def print_char_def)
  then show ?thesis using s keeps_screenD [OF draw_glyph_picture(1), of "?x * 8" "?y * 16" c "fg_colour f" "bg_colour f" ?s]
    by (simp add: shows_page_def glyph_at_cursor_def print_char_def)
qed

lemma fbcon_clear_shows:
  assumes "fb_ok (con_screen f)" "fb_width (con_screen f) div 8 = con_cols f" "fb_height (con_screen f) div 16 = con_rows f"
    "0 < con_cols f" "0 < con_rows f" "con_rows f \<le> 0xFFFF"
  shows "shows_page (fbcon_clear f) empty_page"
  using assms keeps_screenD [OF fill_screen_picture(1), of "bg_colour f" "con_screen f"]
  by (simp add: shows_page_def fbcon_clear_def empty_page_def fill_screen_picture(2) text_pixel_def blank_glyph)

lemma next_line_shows:
  assumes "shows_page f g"
  shows "shows_page (scroll_if_needed (f\<lparr>con_x := 0, con_y := con_y f + 1\<rparr>)) (next_line (unat (con_rows f)) g)"
proof -
  have b: "unat (con_y f) < unat (con_rows f)" "unat (con_rows f) \<le> 65535"
    using assms by (simp_all add: shows_page_def word_less_nat_alt word_le_nat_alt)
  then have y: "unat (con_y f + 1) = unat (con_y f) + 1" by (simp add: unat_word_ariths)
  have "con_rows f \<le> ucast (con_y f + 1) \<longleftrightarrow> unat (con_rows f) \<le> page_y g + 1"
    using assms y by (simp add: shows_page_def word_le_nat_alt)
  then show ?thesis using assms y fbcon_clear_shows [of "f\<lparr>con_x := 0, con_y := con_y f + 1\<rparr>"]
    by (auto simp: scroll_if_needed_def next_line_def shows_page_def text_pixel_def not_le)
qed

lemma wrap_shows:
  assumes "shows_page f g"
  shows "shows_page (wrap_if_needed (f\<lparr>con_x := x\<rparr>))
    (if unat x \<ge> unat (con_cols f) then next_line (unat (con_rows f)) g else g\<lparr>page_x := unat x\<rparr>)"
  using next_line_shows [OF assms] shows_page_cursor [OF assms, of x]
  by (auto simp: wrap_if_needed_def word_le_nat_alt not_le word_less_nat_alt)

lemma tab_stop: "unat (x :: u32) < 2 ^ 29 \<Longrightarrow> unat ((x + 4) AND NOT 3) = (unat x div 4 + 1) * 4"
  using align4 [of "x + 4"] by (simp add: unat_word_ariths div_add_self2)

lemma fbcon_putchar_frame:
  "con_cols (fbcon_putchar c f) = con_cols f" "con_rows (fbcon_putchar c f) = con_rows f"
  "fg_colour (fbcon_putchar c f) = fg_colour f" "bg_colour (fbcon_putchar c f) = bg_colour f"
  by (simp_all add: fbcon_putchar_def scroll_if_needed_def wrap_if_needed_def glyph_at_cursor_def fbcon_clear_def Let_def)

lemma fbcon_putchar_shows:
  assumes "shows_page f g"
  shows "shows_page (fbcon_putchar c f) (type_char (unat (con_cols f)) (next_line (unat (con_rows f))) c g)"
proof -
  have x: "unat (con_x f) = page_x g" "con_x f < con_cols f" using assms by (simp_all add: shows_page_def)
  have "con_cols f = fb_width (con_screen f) div 8" using assms by (simp add: shows_page_def)
  then have "unat (con_cols f) \<le> unat (fb_width (con_screen f)) div 8" by (simp add: unat_div)
  then have lt: "unat (con_x f) < 2 ^ 29" using x(2) unat_u32_bound [of "fb_width (con_screen f)"] by (simp add: word_less_nat_alt)
  then have inc: "unat (con_x f + 1) = page_x g + 1" using x(1) by (simp add: unat_word_ariths)
  note frame = glyph_at_cursor_def print_char_def
  consider "c = 10" | "c = 13" | "c = 8" | "c = 9" | "c \<noteq> 10" "c \<noteq> 13" "c \<noteq> 8" "c \<noteq> 9" by blast
  then show ?thesis
  proof cases
    case 1
    then show ?thesis using next_line_shows [OF assms] by (simp add: fbcon_putchar_def type_char_def)
  next
    case 2
    then show ?thesis using shows_page_cursor [OF assms, of 0] x by (simp add: fbcon_putchar_def type_char_def word_less_nat_alt)
  next
    case 3
    have "0 < con_x f \<longleftrightarrow> 0 < page_x g" using x(1) by (simp add: word_less_nat_alt)
    moreover have "unat (con_x f - 1) = page_x g - 1 \<and> con_x f - 1 < con_cols f" if "0 < page_x g"
      using that x unat_sub [of 1 "con_x f"] by (simp add: word_le_nat_alt word_less_nat_alt)
    ultimately show ?thesis using 3 assms glyph_at_cursor_shows [OF shows_page_cursor [OF assms, of "con_x f - 1"], of 32]
      by (auto simp: fbcon_putchar_def type_char_def)
  next
    case 4
    then show ?thesis using wrap_shows [OF assms, of "(con_x f + 4) AND NOT 3", unfolded tab_stop [OF lt] x(1)]
      by (simp add: fbcon_putchar_def type_char_def Let_def cong: if_cong)
  next
    case 5
    then show ?thesis using wrap_shows [OF glyph_at_cursor_shows [OF assms, of c], of "con_x f + 1"] inc
      by (simp add: fbcon_putchar_def type_char_def Let_def frame cong: if_cong)
  qed
qed

lemma fbcon_putchars_show:
  "shows_page f g \<Longrightarrow> shows_page (fold fbcon_putchar bs f) (fold (type_char (unat (con_cols f)) (next_line (unat (con_rows f)))) bs g) \<and>
    fg_colour (fold fbcon_putchar bs f) = fg_colour f \<and> bg_colour (fold fbcon_putchar bs f) = bg_colour f"
proof (induction bs arbitrary: f g)
  case (Cons c bs)
  from Cons.IH [OF fbcon_putchar_shows [OF Cons.prems, of c]] show ?case by (simp add: fbcon_putchar_frame)
qed simp

lemma fbcon_putchar_keeps:
  "drawn (con_screen (fbcon_putchar c f)) = drawn (con_screen f)" "visible (con_screen (fbcon_putchar c f)) = visible (con_screen f)"
  by (simp_all add: fbcon_putchar_def scroll_if_needed_def wrap_if_needed_def glyph_at_cursor_def fbcon_clear_def Let_def
    keeps_screenD [OF draw_glyph_picture(1)] keeps_screenD [OF fill_screen_picture(1)])

lemma fbcon_putchars_keep:
  "drawn (con_screen (fold fbcon_putchar bs f)) = drawn (con_screen f)" "visible (con_screen (fold fbcon_putchar bs f)) = visible (con_screen f)"
  by (induction bs arbitrary: f) (simp_all add: fbcon_putchar_keeps)


definition tiny_console :: fbcon where
  "tiny_console =
     \<lparr>con_screen = \<lparr>fb_virt = FB_VIRT_BASE, fb_width = 16, fb_height = 16, fb_pitch = 64, fb_bpp = 32, vram = (\<lambda>_. 7), mouse_x = 0, mouse_y = 0,
        mouse_buttons = 0, packet = [0, 0, 0], packet_index = 0, backing = (\<lambda>_ _. 0), last_x = 0, last_y = 0, drawn = False\<rparr>,
      con_x = 0, con_y = 0, con_cols = 0, con_rows = 0, fg_colour = 0xFFFFFF, bg_colour = 0\<rparr>"


end
