(* ===== verification/Desktop.thy ===== *)
theory Desktop
  imports Fbcon "HOL-Library.Signed_Division"
begin

text \<open>
  Windows (\<^verbatim>\<open>arch/i386/window.c\<close>) and the terminal in a window (\<^verbatim>\<open>arch/i386/terminal.c\<close>): the stacking order
  and dragging of windows, the grid of characters with its cursor, and what both paint. Signed
  coordinates are 32-bit words that \<^const>\<open>sint\<close> reads.
\<close>

section \<open>State\<close>

record window =
  wx :: u32
  wy :: u32
  ww :: u32
  wh :: u32
  wtitle :: cstr
  wbg :: u32
  wused :: bool
  has_content :: bool

text \<open>
  The only content a window ever gets is the terminal: \<open>has_content\<close> says that the pointers
  \<^verbatim>\<open>content\<close> and \<^verbatim>\<open>draw_content\<close> are set. A window is named by its slot in \<open>windows\<close>.
\<close>

record terminal =
  twin :: nat
  tcols :: int
  trows :: int
  tcells :: "int \<Rightarrow> int \<Rightarrow> u8"
  cur_x :: int
  cur_y :: int

record desktop =
  dscreen :: screen
  windows :: "window list"
  z_order :: "nat list"
  window_count :: nat
  dragging :: "nat option"
  drag_off_x :: u32
  drag_off_y :: u32
  was_pressed :: bool
  dterm :: terminal
  have_term :: bool

text \<open>\<open>windows\<close> and \<open>z_order\<close> are arrays of \<^verbatim>\<open>MAX_WINDOWS\<close> entries.\<close>

abbreviation (input) MAX_WINDOWS :: nat where "MAX_WINDOWS \<equiv> 8"
abbreviation (input) WIN_BORDER :: u32 where "WIN_BORDER \<equiv> 2"
abbreviation (input) WIN_TITLEBAR :: u32 where "WIN_TITLEBAR \<equiv> 20"
abbreviation (input) COL_DESKTOP :: u32 where "COL_DESKTOP \<equiv> 0x184878"
abbreviation (input) COL_BORDER :: u32 where "COL_BORDER \<equiv> 0x202020"
abbreviation (input) COL_TITLEBAR :: u32 where "COL_TITLEBAR \<equiv> 0x3060A0"
abbreviation (input) COL_TITLEBAR_TOP :: u32 where "COL_TITLEBAR_TOP \<equiv> 0x5090D0"
abbreviation (input) COL_TITLETEXT :: u32 where "COL_TITLETEXT \<equiv> 0xFFFFFF"
abbreviation (input) TERM_FG :: u32 where "TERM_FG \<equiv> 0xD0D0D0"
abbreviation (input) TERM_BG :: u32 where "TERM_BG \<equiv> 0x101010"
abbreviation (input) TERM_CUR :: u32 where "TERM_CUR \<equiv> 0x30C030"
abbreviation (input) TERM_MAX_COLS :: int where "TERM_MAX_COLS \<equiv> 128"
abbreviation (input) TERM_MAX_ROWS :: int where "TERM_MAX_ROWS \<equiv> 48"
abbreviation (input) blank :: u8 where "blank \<equiv> 32"

section \<open>Windows\<close>

text \<open>
  The header declares the parameters as width, height; the definition has height, width. The
  callers' third argument is \<open>h\<close> here.
\<close>

definition window_create :: "u32 \<Rightarrow> u32 \<Rightarrow> u32 \<Rightarrow> u32 \<Rightarrow> cstr \<Rightarrow> u32 \<Rightarrow> desktop \<Rightarrow> nat option \<times> desktop" where
  "window_create x y h w title bg d =
     (if window_count d \<ge> MAX_WINDOWS then (None, d)
      else let slot = window_count d;
               win = \<lparr>wx = x, wy = y, ww = w, wh = h, wtitle = take 31 title, wbg = bg, wused = True, has_content = False\<rparr>
           in (Some slot, d\<lparr>windows := (windows d)[slot := win], z_order := (z_order d)[window_count d := slot],
                window_count := window_count d + 1\<rparr>))"

definition window_client_x :: "window \<Rightarrow> u32" where "window_client_x win = wx win + WIN_BORDER"
definition window_client_y :: "window \<Rightarrow> u32" where "window_client_y win = wy win + WIN_BORDER + WIN_TITLEBAR"
definition window_client_w :: "window \<Rightarrow> u32" where "window_client_w win = ww win - 2 * WIN_BORDER"
definition window_client_h :: "window \<Rightarrow> u32" where "window_client_h win = wh win - 2 * WIN_BORDER - WIN_TITLEBAR"

text \<open>Position of a cell of the terminal.\<close>

definition cell_px :: "desktop \<Rightarrow> int \<Rightarrow> u32" where
  "cell_px d col = window_client_x (windows d ! twin (dterm d)) + of_int col * FONT_WIDTH"

definition cell_py :: "desktop \<Rightarrow> int \<Rightarrow> u32" where
  "cell_py d row = window_client_y (windows d ! twin (dterm d)) + of_int row * FONT_HEIGHT"

definition draw_underline :: "u32 \<Rightarrow> desktop \<Rightarrow> screen \<Rightarrow> screen" where
  "draw_underline colour d =
     draw_rect (cell_px d (cur_x (dterm d))) (cell_py d (cur_y (dterm d)) + FONT_HEIGHT - 2) FONT_WIDTH 2 colour"

definition draw_cell :: "desktop \<Rightarrow> int \<Rightarrow> int \<Rightarrow> screen \<Rightarrow> screen" where
  "draw_cell d row col =
     (let c = tcells (dterm d) row col
      in fbcon_draw_char_at (cell_px d col) (cell_py d row) (if c = 0 then blank else c) TERM_FG TERM_BG)"

definition term_draw_content :: "desktop \<Rightarrow> screen \<Rightarrow> screen" where
  "term_draw_content d s =
     draw_underline TERM_CUR d
       (fold (\<lambda>(row, col). draw_cell d (int row) (int col)) (cells (nat (trows (dterm d))) (nat (tcols (dterm d)))) s)"

definition window_draw :: "desktop \<Rightarrow> window \<Rightarrow> bool \<Rightarrow> screen \<Rightarrow> screen" where
  "window_draw d win focused s =
     (if \<not> wused win then s
      else let bar = (if focused then COL_TITLEBAR_TOP else COL_TITLEBAR);
               s = draw_rect (wx win) (wy win) (ww win) (wh win) COL_BORDER s;
               s = draw_rect (wx win + WIN_BORDER) (wy win + WIN_BORDER) (ww win - 2 * WIN_BORDER) WIN_TITLEBAR bar s;
               s = fbcon_draw_string_at (wx win + WIN_BORDER + 4) (wy win + WIN_BORDER + 2) (wtitle win) COL_TITLETEXT bar s;
               s = draw_rect (window_client_x win) (window_client_y win) (window_client_w win) (window_client_h win) (wbg win) s
           in if has_content win then term_draw_content d s else s)"

definition draw_windows :: "desktop \<Rightarrow> screen \<Rightarrow> screen" where
  "draw_windows d =
     fold (\<lambda>i. window_draw d (windows d ! (z_order d ! i)) (i = window_count d - 1)) [0..<window_count d]"

definition wm_redraw :: "desktop \<Rightarrow> desktop" where
  "wm_redraw d = d\<lparr>dscreen := cursor_show (draw_windows d (fill_screen COL_DESKTOP (cursor_hide (dscreen d))))\<rparr>"

definition point_in_window :: "window \<Rightarrow> u32 \<Rightarrow> u32 \<Rightarrow> bool" where
  "point_in_window win px py \<longleftrightarrow> wx win \<le>s px \<and> px <s wx win + ww win \<and> wy win \<le>s py \<and> py <s wy win + wh win"

definition point_in_titlebar :: "window \<Rightarrow> u32 \<Rightarrow> u32 \<Rightarrow> bool" where
  "point_in_titlebar win px py \<longleftrightarrow>
     wx win \<le>s px \<and> px <s wx win + ww win \<and> wy win + WIN_BORDER \<le>s py \<and> py <s wy win + WIN_BORDER + WIN_TITLEBAR"

definition window_index_at :: "u32 \<Rightarrow> u32 \<Rightarrow> desktop \<Rightarrow> nat option" where
  "window_index_at px py d = find (\<lambda>i. point_in_window (windows d ! (z_order d ! i)) px py) (rev [0..<window_count d])"

definition window_raise :: "nat \<Rightarrow> desktop \<Rightarrow> desktop" where
  "window_raise zi d =
     (if zi = window_count d - 1 then d
      else let slot = z_order d ! zi;
               z = fold (\<lambda>i z. z[i := z ! (i + 1)]) [zi..<window_count d - 1] (z_order d)
           in d\<lparr>z_order := z[window_count d - 1 := slot]\<rparr>)"

definition wm_press :: "desktop \<Rightarrow> desktop" where
  "wm_press d =
     (let mx = mouse_x (dscreen d); my = mouse_y (dscreen d) in
      case window_index_at mx my d of
        None \<Rightarrow> d
      | Some zi \<Rightarrow>
          let slot = z_order d ! zi;
              win = windows d ! slot;
              d = window_raise zi d
          in wm_redraw (if point_in_titlebar win mx my
               then d\<lparr>dragging := Some slot, drag_off_x := mx - wx win, drag_off_y := my - wy win\<rparr> else d))"

definition wm_drag :: "nat \<Rightarrow> desktop \<Rightarrow> desktop" where
  "wm_drag slot d =
     (let nx = mouse_x (dscreen d) - drag_off_x d;
          ny = mouse_y (dscreen d) - drag_off_y d;
          win = windows d ! slot
      in if nx \<noteq> wx win \<or> ny \<noteq> wy win
         then wm_redraw (d\<lparr>windows := (windows d)[slot := win\<lparr>wx := nx, wy := ny\<rparr>]\<rparr>)
         else d)"

definition wm_handle_mouse :: "desktop \<Rightarrow> desktop" where
  "wm_handle_mouse d =
     (let pressed = (mouse_buttons (dscreen d) AND 1 \<noteq> 0);
          d' = (if pressed \<and> \<not> was_pressed d then wm_press d
                else if \<not> pressed \<and> was_pressed d then d\<lparr>dragging := None\<rparr>
                else case dragging d of
                  Some slot \<Rightarrow> if pressed then wm_drag slot d else d
                | None \<Rightarrow> d)
      in d'\<lparr>was_pressed := pressed\<rparr>)"

section \<open>Terminal\<close>

definition in_grid :: "int \<Rightarrow> int \<Rightarrow> bool" where
  "in_grid r c \<longleftrightarrow> 0 \<le> r \<and> r < TERM_MAX_ROWS \<and> 0 \<le> c \<and> c < TERM_MAX_COLS"

text \<open>Writing a cell; outside the array it is \<open>None\<close>.\<close>

definition put_cell :: "int \<Rightarrow> int \<Rightarrow> u8 \<Rightarrow> terminal \<Rightarrow> terminal option" where
  "put_cell r c v t = (if in_grid r c then Some (t\<lparr>tcells := (tcells t)(r := (tcells t r)(c := v))\<rparr>) else None)"

definition term_clear :: "terminal \<Rightarrow> terminal" where
  "term_clear t = t\<lparr>tcells := (\<lambda>r c. if in_grid r c then blank else tcells t r c), cur_x := 0, cur_y := 0\<rparr>"

text \<open>
  The rows move up by one inside the visible part and the last one is cleared. With a last cell
  outside the array the loops leave it.
\<close>

definition term_scroll :: "terminal \<Rightarrow> terminal option" where
  "term_scroll t =
     (if 0 < tcols t \<and> \<not> in_grid (trows t - 1) (tcols t - 1) then None
      else Some (t\<lparr>tcells := (\<lambda>r c. if 0 \<le> c \<and> c < tcols t \<and> 0 \<le> r \<and> r < trows t - 1 then tcells t (r + 1) c
                  else if 0 \<le> c \<and> c < tcols t \<and> r = trows t - 1 then blank else tcells t r c),
                cur_y := trows t - 1\<rparr>))"

definition terminal_create :: "u32 \<Rightarrow> u32 \<Rightarrow> u32 \<Rightarrow> u32 \<Rightarrow> cstr \<Rightarrow> desktop \<Rightarrow> bool \<times> desktop" where
  "terminal_create x y w h title d =
     (case window_create x y w h title TERM_BG d of
        (None, d) \<Rightarrow> (False, d)
      | (Some slot, d) \<Rightarrow>
          let win = windows d ! slot;
              c = sint (window_client_w win) sdiv 8;
              r = sint (window_client_h win) sdiv 16;
              t = (dterm d)\<lparr>twin := slot, tcols := (if c > TERM_MAX_COLS then TERM_MAX_COLS else c),
                    trows := (if r > TERM_MAX_ROWS then TERM_MAX_ROWS else r)\<rparr>
          in (True, d\<lparr>dterm := term_clear t, windows := (windows d)[slot := win\<lparr>has_content := True\<rparr>], have_term := True\<rparr>))"

definition wrap_line :: "terminal \<Rightarrow> terminal" where
  "wrap_line t = (if cur_x t \<ge> tcols t then t\<lparr>cur_x := 0, cur_y := cur_y t + 1\<rparr> else t)"

text \<open>The part of \<^verbatim>\<open>term_putchar_buffered\<close> that handles the character, before the grid scrolls.\<close>

definition term_place :: "u8 \<Rightarrow> terminal \<Rightarrow> terminal option" where
  "term_place c t =
     (if c = 10 then Some (t\<lparr>cur_x := 0, cur_y := cur_y t + 1\<rparr>)
      else if c = 13 then Some (t\<lparr>cur_x := 0\<rparr>)
      else if c = 8 then
        (if cur_x t > 0 then put_cell (cur_y t) (cur_x t - 1) blank (t\<lparr>cur_x := cur_x t - 1\<rparr>) else Some t)
      else if c = 9 then Some (wrap_line (t\<lparr>cur_x := (cur_x t + 4) AND NOT 3\<rparr>))
      else map_option (\<lambda>t. wrap_line (t\<lparr>cur_x := cur_x t + 1\<rparr>)) (put_cell (cur_y t) (cur_x t) c t))"

definition term_putchar_buffered :: "u8 \<Rightarrow> terminal \<Rightarrow> (bool \<times> terminal) option" where
  "term_putchar_buffered c t =
     (case term_place c t of
        None \<Rightarrow> None
      | Some t \<Rightarrow> if cur_y t \<ge> trows t then map_option (Pair True) (term_scroll t) else Some (False, t))"

fun term_loop :: "u8 list \<Rightarrow> bool \<Rightarrow> desktop \<Rightarrow> (bool \<times> desktop) option" where
  "term_loop [] full d = Some (full, d)"
| "term_loop (c # cs) full d =
     (let d = d\<lparr>dscreen := draw_underline TERM_BG d (dscreen d)\<rparr>;
          prev_x = cur_x (dterm d); prev_y = cur_y (dterm d)
      in case term_putchar_buffered c (dterm d) of
           None \<Rightarrow> None
         | Some (True, t) \<Rightarrow> term_loop cs True (d\<lparr>dterm := t\<rparr>)
         | Some (False, t) \<Rightarrow>
             let d = d\<lparr>dterm := t\<rparr> in
             if full then term_loop cs full d
             else if in_grid prev_y prev_x then term_loop cs full (d\<lparr>dscreen := draw_cell d prev_y prev_x (dscreen d)\<rparr>)
             else None)"

definition term_write :: "u8 list \<Rightarrow> desktop \<Rightarrow> desktop option" where
  "term_write data d =
     (if \<not> have_term d then Some d
      else case term_loop data False (d\<lparr>dscreen := cursor_hide (dscreen d)\<rparr>) of
        None \<Rightarrow> None
      | Some (full, d) \<Rightarrow>
          let s = (if full then term_draw_content d (dscreen d) else draw_underline TERM_CUR d (dscreen d))
          in Some (d\<lparr>dscreen := cursor_show s\<rparr>))"

definition term_putchar :: "u8 \<Rightarrow> desktop \<Rightarrow> desktop option" where
  "term_putchar c d = term_write [c] d"

section \<open>The terminal shows the end of the text\<close>

text \<open>
  The specification is a page without end, of which the terminal shows the last rows. Lines below
  the cursor are blank.
\<close>

definition new_line :: "page \<Rightarrow> page" where
  "new_line p = p\<lparr>page_x := 0, page_y := page_y p + 1\<rparr>"

definition term_ok :: "terminal \<Rightarrow> bool" where
  "term_ok t \<longleftrightarrow> 0 < tcols t \<and> tcols t \<le> TERM_MAX_COLS \<and> 0 < trows t \<and> trows t \<le> TERM_MAX_ROWS \<and>
     0 \<le> cur_x t \<and> cur_x t < tcols t \<and> 0 \<le> cur_y t \<and> cur_y t < trows t"

definition shows_end :: "terminal \<Rightarrow> page \<Rightarrow> bool" where
  "shows_end t p \<longleftrightarrow> term_ok t \<and> cur_x t = int (page_x p) \<and> cur_y t = min (int (page_y p)) (trows t - 1) \<and>
     (\<forall>r c. 0 \<le> r \<and> r < trows t \<and> 0 \<le> c \<and> c < tcols t \<longrightarrow> tcells t r c = ink p (nat (int (page_y p) - cur_y t + r)) (nat c)) \<and>
     (\<forall>y x. y > page_y p \<longrightarrow> ink p y x = blank)"

text \<open>The end of \<^const>\<open>term_putchar_buffered\<close>: the grid scrolls when the cursor has left it.\<close>

definition scroll_below :: "terminal \<Rightarrow> (bool \<times> terminal) option" where
  "scroll_below t = (if cur_y t \<ge> trows t then map_option (Pair True) (term_scroll t) else Some (False, t))"

lemma scroll_inside: "shows_end t p \<Longrightarrow> scroll_below t = Some (False, t)"
  by (simp add: scroll_below_def shows_end_def term_ok_def)

lemma next_row_shows:
  assumes "shows_end t p" "cur_y t < trows t - 1"
  shows "shows_end (t\<lparr>cur_x := 0, cur_y := cur_y t + 1\<rparr>) (new_line p)"
  using assms by (auto simp: shows_end_def term_ok_def new_line_def)

lemma scroll_shows:
  assumes "shows_end t p" "cur_y t = trows t - 1"
  shows "\<exists>t'. term_scroll (t\<lparr>cur_x := 0, cur_y := cur_y t + 1\<rparr>) = Some t' \<and> shows_end t' (new_line p) \<and> tcols t' = tcols t \<and> trows t' = trows t \<and> twin t' = twin t"
proof -
  have t: "in_grid (trows t - 1) (tcols t - 1)" using assms(1) by (auto simp: shows_end_def term_ok_def in_grid_def)
  have "trows t - 1 = min (int (page_y p)) (trows t - 1)" using assms by (simp add: shows_end_def)
  then have y: "trows t \<le> int (page_y p) + 1" by linarith
  have c: "tcells t (r + 1) c = ink p (nat (1 + int (page_y p) - (trows t - 1) + r)) (nat c)"
    if "0 \<le> r" "r < trows t - 1" "0 \<le> c" "c < tcols t" for r c
    using assms that by (simp add: shows_end_def algebra_simps)
  show ?thesis
    using assms t y c by (auto simp: term_scroll_def shows_end_def term_ok_def new_line_def algebra_simps)
qed

lemma newline_step:
  assumes "shows_end t p"
  shows "\<exists>b t'. scroll_below (t\<lparr>cur_x := 0, cur_y := cur_y t + 1\<rparr>) = Some (b, t') \<and> shows_end t' (new_line p) \<and> tcols t' = tcols t \<and> trows t' = trows t \<and> twin t' = twin t"
proof (cases "cur_y t < trows t - 1")
  case True
  then have "scroll_below (t\<lparr>cur_x := 0, cur_y := cur_y t + 1\<rparr>) = Some (False, t\<lparr>cur_x := 0, cur_y := cur_y t + 1\<rparr>)"
    by (simp add: scroll_below_def)
  then show ?thesis using next_row_shows [OF assms True] by auto
next
  case False
  then have "cur_y t = trows t - 1" using assms by (simp add: shows_end_def term_ok_def)
  from scroll_shows [OF assms this] this show ?thesis by (auto simp: scroll_below_def)
qed

lemma cursor_step: "shows_end t p \<Longrightarrow> 0 \<le> x \<Longrightarrow> x < tcols t \<Longrightarrow> shows_end (t\<lparr>cur_x := x\<rparr>) (p\<lparr>page_x := nat x\<rparr>)"
  by (simp add: shows_end_def term_ok_def)

lemma wrap_step:
  assumes "shows_end t p" "0 \<le> x"
  shows "\<exists>b t'. scroll_below (wrap_line (t\<lparr>cur_x := x\<rparr>)) = Some (b, t') \<and>
    shows_end t' (if nat x \<ge> nat (tcols t) then new_line p else p\<lparr>page_x := nat x\<rparr>) \<and> tcols t' = tcols t \<and> trows t' = trows t \<and> twin t' = twin t"
proof (cases "x \<ge> tcols t")
  case True
  then have "wrap_line (t\<lparr>cur_x := x\<rparr>) = t\<lparr>cur_x := 0, cur_y := cur_y t + 1\<rparr>" by (simp add: wrap_line_def)
  then show ?thesis using newline_step [OF assms(1)] nat_mono [OF True] by simp
next
  case False
  then have s: "shows_end (t\<lparr>cur_x := x\<rparr>) (p\<lparr>page_x := nat x\<rparr>)" using cursor_step assms by simp
  have "wrap_line (t\<lparr>cur_x := x\<rparr>) = t\<lparr>cur_x := x\<rparr>" using False by (simp add: wrap_line_def)
  then show ?thesis using False assms(2) s scroll_inside [OF s] by (auto simp: nat_le_iff)
qed

lemma put_step:
  assumes "shows_end t p"
  shows "\<exists>t'. put_cell (cur_y t) (cur_x t) c t = Some t' \<and> shows_end t' (print_char c p) \<and> tcols t' = tcols t \<and> trows t' = trows t \<and> cur_x t' = cur_x t \<and> twin t' = twin t"
proof -
  have g: "in_grid (cur_y t) (cur_x t)" using assms by (auto simp: shows_end_def term_ok_def in_grid_def)
  have i: "nat (int (page_y p) - cur_y t + r) = page_y p \<longleftrightarrow> r = cur_y t" if "0 \<le> r" for r
    using assms that by (auto simp: shows_end_def)
  have "nat c' = page_x p \<longleftrightarrow> c' = cur_x t" if "0 \<le> c'" for c' using assms that by (auto simp: shows_end_def)
  with g i show ?thesis using assms by (auto simp: put_cell_def shows_end_def term_ok_def print_char_def)
qed

lemma int_tab: "0 \<le> x \<Longrightarrow> (x + 4) AND NOT 3 = (x div 4 + 1) * 4" for x :: int
proof -
  have "y AND NOT 3 = push_bit 2 (drop_bit 2 y)" for y :: int
  proof -
    have e: "2 \<le> i \<Longrightarrow> Suc (Suc (i - 2)) = i" for i :: nat by arith
    have "y AND NOT 3 = y AND NOT (mask 2)" by (simp add: mask_eq_exp_minus_1)
    also have "\<dots> = push_bit 2 (drop_bit 2 y)" by (simp add: bit_eq_iff bit_simps) (auto simp: not_less e)
    finally show ?thesis .
  qed
  then show ?thesis by (simp add: push_bit_eq_mult drop_bit_eq_div div_add_self2)
qed

lemma term_putchar_step:
  assumes "shows_end t p"
  shows "\<exists>b t'. term_putchar_buffered c t = Some (b, t') \<and> shows_end t' (type_char (nat (tcols t)) new_line c p) \<and> tcols t' = tcols t \<and> trows t' = trows t \<and> twin t' = twin t"
proof -
  have x: "cur_x t = int (page_x p)" "0 \<le> cur_x t" "cur_x t < tcols t" using assms by (simp_all add: shows_end_def term_ok_def)
  have buf: "term_putchar_buffered c t = (case term_place c t of None \<Rightarrow> None | Some t \<Rightarrow> scroll_below t)" for c
    by (simp add: term_putchar_buffered_def scroll_below_def split: option.split)
  consider "c = 10" | "c = 13" | "c = 8" | "c = 9" | "c \<noteq> 10" "c \<noteq> 13" "c \<noteq> 8" "c \<noteq> 9" by blast
  then show ?thesis
  proof cases
    case 1
    then show ?thesis using newline_step [OF assms] by (simp add: buf term_place_def type_char_def)
  next
    case 2
    have "shows_end (t\<lparr>cur_x := 0\<rparr>) (p\<lparr>page_x := 0\<rparr>)" using cursor_step [OF assms, of 0] x by simp
    with scroll_inside [OF this] 2 show ?thesis by (auto simp: buf term_place_def type_char_def)
  next
    case 3
    show ?thesis
    proof (cases "0 < cur_x t")
      case True
      have s: "shows_end (t\<lparr>cur_x := cur_x t - 1\<rparr>) (p\<lparr>page_x := page_x p - 1\<rparr>)"
        using cursor_step [OF assms, of "cur_x t - 1"] x True by (simp add: nat_diff_distrib)
      obtain t' where t': "put_cell (cur_y t) (cur_x t - 1) blank (t\<lparr>cur_x := cur_x t - 1\<rparr>) = Some t'"
          "shows_end t' (print_char blank (p\<lparr>page_x := page_x p - 1\<rparr>))" "tcols t' = tcols t" "trows t' = trows t" "twin t' = twin t"
        using put_step [OF s, of blank] by auto
      show ?thesis using 3 True t' x(1) scroll_inside [OF t'(2)] by (auto simp: buf term_place_def type_char_def)
    next
      case False
      then show ?thesis using 3 x assms scroll_inside [OF assms] by (auto simp: buf term_place_def type_char_def)
    qed
  next
    case 4
    have "nat ((cur_x t div 4 + 1) * 4) = (page_x p div 4 + 1) * 4" using x(1) by (simp add: nat_mult_distrib nat_add_distrib nat_div_distrib)
    moreover have "term_place c t = Some (wrap_line (t\<lparr>cur_x := (cur_x t div 4 + 1) * 4\<rparr>))"
      using 4 int_tab [OF x(2)] by (simp add: term_place_def)
    ultimately show ?thesis using 4 wrap_step [OF assms, of "(cur_x t div 4 + 1) * 4"] x(2)
      by (simp add: buf type_char_def Let_def cong: if_cong)
  next
    case 5
    obtain t' where t': "put_cell (cur_y t) (cur_x t) c t = Some t'" "shows_end t' (print_char c p)" "tcols t' = tcols t" "cur_x t' = cur_x t" "twin t' = twin t" "trows t' = trows t"
      using put_step [OF assms, of c] by auto
    have "nat (cur_x t' + 1) = page_x p + 1" using t'(4) x(1) by (simp add: nat_add_distrib)
    then show ?thesis using 5 t' wrap_step [OF t'(2), of "cur_x t' + 1"] x
      by (simp add: buf term_place_def type_char_def Let_def cong: if_cong)
  qed
qed

text \<open>Painting and the windows do not change the grid.\<close>

lemma term_loop_shows:
  assumes "shows_end (dterm d) p"
  shows "\<exists>full' d'. term_loop bs full d = Some (full', d') \<and> shows_end (dterm d') (fold (type_char (nat (tcols (dterm d))) new_line) bs p) \<and>
    tcols (dterm d') = tcols (dterm d) \<and> trows (dterm d') = trows (dterm d) \<and> have_term d' = have_term d"
  using assms
proof (induction bs arbitrary: full d p)
  case (Cons c bs)
  let ?d = "d\<lparr>dscreen := draw_underline TERM_BG d (dscreen d)\<rparr>"
  have g: "in_grid (cur_y (dterm d)) (cur_x (dterm d))" using Cons.prems by (auto simp: shows_end_def term_ok_def in_grid_def)
  obtain b t where t: "term_putchar_buffered c (dterm d) = Some (b, t)" "shows_end t (type_char (nat (tcols (dterm d))) new_line c p)"
      "tcols t = tcols (dterm d)" "trows t = trows (dterm d)"
    using term_putchar_step [OF Cons.prems, of c] by blast
  have swap: "e\<lparr>dterm := t, dscreen := s\<rparr> = e\<lparr>dscreen := s, dterm := t\<rparr>" for e :: desktop and s by simp
  obtain full' s where "term_loop (c # bs) full d = term_loop bs full' (d\<lparr>dscreen := s, dterm := t\<rparr>)"
  proof -
    have "\<exists>full' s. term_loop (c # bs) full d = term_loop bs full' (d\<lparr>dscreen := s, dterm := t\<rparr>)"
      using t(1) g by (cases b; cases full) (auto simp: Let_def swap)
    then show thesis using that by blast
  qed
  then show ?case using Cons.IH [of "d\<lparr>dscreen := s, dterm := t\<rparr>" _ full'] t(2-4) by simp
qed auto

text \<open>
  C37: the terminal refines a page without end. A new terminal that holds at least one cell shows
  the empty page. Writing any bytes to a terminal that shows the end of a page never leaves the
  arrays, and the terminal then shows the end of the page with the bytes typed on it: its cursor
  stands where typing ends, and its cells are the last rows of the page.
\<close>

theorem terminal_refines_page:
  "(terminal_create x y w h title d = (True, d') \<and> 1 \<le> tcols (dterm d') \<and> 1 \<le> trows (dterm d') \<longrightarrow>
     shows_end (dterm d') empty_page \<and> have_term d') \<and>
   (shows_end (dterm e) p \<and> have_term e \<longrightarrow>
     (\<exists>e'. term_write bs e = Some e' \<and> shows_end (dterm e') (fold (type_char (nat (tcols (dterm e))) new_line) bs p) \<and>
       tcols (dterm e') = tcols (dterm e) \<and> trows (dterm e') = trows (dterm e) \<and> have_term e'))"
proof (intro conjI impI, goal_cases)
  case 1
  then show ?case
    by (auto simp: terminal_create_def Let_def term_clear_def shows_end_def term_ok_def empty_page_def in_grid_def
        split: option.splits prod.splits if_splits)
next
  case 2
  then show ?case
    by (auto simp: terminal_create_def Let_def split: option.splits prod.splits if_splits)
next
  case 3
  then show ?case
    using term_loop_shows [of "e\<lparr>dscreen := cursor_hide (dscreen e)\<rparr>" p bs False] by (auto simp: term_write_def Let_def)
qed

definition boot_desktop :: "screen \<Rightarrow> desktop" where
  "boot_desktop s =
     \<lparr>dscreen = s, windows = replicate 8 \<lparr>wx = 0, wy = 0, ww = 0, wh = 0, wtitle = [], wbg = 0, wused = False, has_content = False\<rparr>,
      z_order = replicate 8 0, window_count = 0, dragging = None, drag_off_x = 0, drag_off_y = 0, was_pressed = False,
      dterm = \<lparr>twin = 0, tcols = 0, trows = 0, tcells = (\<lambda>_ _. 0), cur_x = 0, cur_y = 0\<rparr>, have_term = False\<rparr>"

theorem terminal_refines_page_witness:
  "\<exists>d e. terminal_create 80 80 700 450 [] (boot_desktop (con_screen tiny_console)) = (True, d) \<and>
     term_write [65, 10] d = Some e \<and> tcells (dterm e) 0 0 = 65 \<and> cur_x (dterm e) = 0 \<and> cur_y (dterm e) = 1"
proof -
  let ?b = "boot_desktop (con_screen tiny_console)"
  define d where "d = snd (terminal_create 80 80 700 450 [] ?b)"
  have c: "terminal_create 80 80 700 450 [] ?b = (True, d)" "tcols (dterm d) = 55" "trows (dterm d) = 42"
    by (simp_all add: d_def terminal_create_def window_create_def boot_desktop_def Let_def term_clear_def window_client_w_def window_client_h_def
        numeral_eq_Suc)
  note r = terminal_refines_page [of 80 80 700 450 "[]" ?b d d empty_page "[65, 10]"]
  obtain e where e: "term_write [65, 10] d = Some e" "shows_end (dterm e) (fold (type_char 55 new_line) [65, 10] empty_page)" "trows (dterm e) = 42"
    using r c by auto
  from e(2,3) have "tcells (dterm e) 0 0 = 65 \<and> cur_x (dterm e) = 0 \<and> cur_y (dterm e) = 1"
    by (auto simp: shows_end_def term_ok_def type_char_def print_char_def new_line_def empty_page_def Let_def)
  with c(1) e(1) show ?thesis by blast
qed

end
