(* ===== verification/Window_Manager.thy ===== *)
theory Window_Manager
  imports Desktop "HOL-Library.Multiset"
begin

text \<open>
  What the window manager promises: every pixel of the redrawn screen belongs to the topmost
  window at its place, a click raises a window, and dragging moves it.
\<close>

section \<open>What a window looks like\<close>

text \<open>The colour of a pixel at \<open>(dx, dy)\<close> of the text area of the terminal.\<close>

definition term_pixel :: "terminal \<Rightarrow> u32 \<Rightarrow> u32 \<Rightarrow> u32" where
  "term_pixel t dx dy =
     (let row = unat dy div 16; col = unat dx div 8; c = tcells t (int row) (int col)
      in if int row = cur_y t \<and> int col = cur_x t \<and> unat dy mod 16 \<ge> 14 then TERM_CUR
         else glyph_pixel (if c = 0 then blank else c) (unat dy mod 16) (unat dx mod 8) TERM_FG TERM_BG)"

definition string_pixel :: "cstr \<Rightarrow> u32 \<Rightarrow> u32 \<Rightarrow> u32 \<Rightarrow> u32 \<Rightarrow> u32" where
  "string_pixel str fg bg dx dy =
     (if unat dx div 8 < length str \<and> dy < 16 then glyph_pixel (str ! (unat dx div 8)) (unat dy) (unat dx mod 8) fg bg else bg)"

definition window_pixel :: "desktop \<Rightarrow> window \<Rightarrow> bool \<Rightarrow> u32 \<Rightarrow> u32 \<Rightarrow> u32" where
  "window_pixel d win focused u v =
     (let dx = u - (wx win + 2); dy = v - (wy win + 2); t = dterm d;
          bar = (if focused then COL_TITLEBAR_TOP else COL_TITLEBAR)
      in if dx \<ge> ww win - 4 \<or> dy \<ge> wh win - 4 then COL_BORDER
         else if dy < 20 then string_pixel (wtitle win) COL_TITLETEXT bar (dx - 4) (dy - 2)
         else if has_content win \<and> unat dx < 8 * nat (tcols t) \<and> unat (dy - 20) < 16 * nat (trows t) then term_pixel t dx (dy - 20)
         else wbg win)"

lemma keeps_screen_string: "keeps_screen (fbcon_draw_string_at px py str fg bg)"
proof (induction str arbitrary: px)
  case (Cons c str)
  then show ?case using keeps_screen_comp [OF draw_glyph_picture(1) Cons] by simp
qed (simp add: keeps_screen_id fun_eq_iff [of "fbcon_draw_string_at _ _ [] _ _" "\<lambda>s. s", THEN iffD2])

lemma string_picture:
  assumes "fb_ok s" "8 * length str < 2 ^ 32"
  shows "read_pixel u v (fbcon_draw_string_at px py str fg bg s) =
    (if visible s u v \<and> unat (u - px) < 8 * length str \<and> v - py < 16 then string_pixel str fg bg (u - px) (v - py) else read_pixel u v s)"
  using assms
proof (induction str arbitrary: px s)
  case (Cons c str)
  let ?s = "draw_glyph px py c fg bg s"
  have k: "visible ?s = visible s" "fb_ok ?s" using keeps_screenD [OF draw_glyph_picture(1)] Cons.prems(1) by auto
  note IH = Cons.IH [OF k(2), of "px + 8"]
  have sh: "u - (px + 8) = (u - px) - 8" by (rule diff_diff_add [symmetric])
  have sub: "unat (u - (px + 8)) = unat (u - px) - 8" if "8 \<le> unat (u - px)"
    unfolding sh using that unat_sub [of 8 "u - px"] by (simp add: word_le_nat_alt)
  have far: "\<not> unat (u - (px + 8)) < 8 * length str" if "unat (u - px) < 8"
  proof -
    have "unat (u - (px + 8)) = 2 ^ 32 - 8 + unat (u - px)"
      unfolding sh using that by (simp add: unat_sub_if')
    then show ?thesis using that Cons.prems(2) by simp
  qed
  show ?case
  proof (cases "unat (u - px) < 8")
    case True
    then show ?thesis using far [OF True] IH Cons.prems draw_glyph_picture(2) [OF Cons.prems(1), of u v px py c fg bg] k
      by (simp add: string_pixel_def word_less_nat_alt)
  next
    case False
    then have d: "unat (u - px) div 8 = Suc (unat (u - (px + 8)) div 8)" "unat (u - px) mod 8 = unat (u - (px + 8)) mod 8"
      using sub by (auto simp: le_div_geq le_mod_geq)
    show ?thesis using False sub IH Cons.prems draw_glyph_picture(2) [OF Cons.prems(1), of u v px py c fg bg] k d
      by (auto simp: string_pixel_def word_less_nat_alt)
  qed
qed simp

text \<open>The text area of the terminal.\<close>

abbreviation (input) tdx :: "desktop \<Rightarrow> u32 \<Rightarrow> u32" where
  "tdx d u \<equiv> u - window_client_x (windows d ! twin (dterm d))"

abbreviation (input) tdy :: "desktop \<Rightarrow> u32 \<Rightarrow> u32" where
  "tdy d v \<equiv> v - window_client_y (windows d ! twin (dterm d))"

definition cell_pixel :: "terminal \<Rightarrow> u32 \<Rightarrow> u32 \<Rightarrow> u32" where
  "cell_pixel t dx dy =
     (let c = tcells t (int (unat dy div 16)) (int (unat dx div 8))
      in glyph_pixel (if c = 0 then blank else c) (unat dy mod 16) (unat dx mod 8) TERM_FG TERM_BG)"

lemma small_cell: "n < 2 ^ 16 \<Longrightarrow> unat (of_nat n :: u32) = n"
  by (simp add: unat_of_nat)

lemma cell_hit:
  assumes "n < 2 ^ 16"
  shows "u - (b + of_nat n * 8) < (8 :: u32) \<longleftrightarrow> unat (u - b) div 8 = n" "u - (b + of_nat n * 16) < (16 :: u32) \<longleftrightarrow> unat (u - b) div 16 = n"
    "unat (u - b) div 8 = n \<Longrightarrow> unat (u - (b + of_nat n * 8)) = unat (u - b) mod 8"
    "unat (u - b) div 16 = n \<Longrightarrow> unat (u - (b + of_nat n * 16)) = unat (u - b) mod 16"
proof -
  have sh: "u - (b + of_nat n * k) = (u - b) - of_nat n * k" for k by (rule diff_diff_add [symmetric])
  note c = in_cell [of 8 "of_nat n" "u - b"] in_cell [of 16 "of_nat n" "u - b"]
  show "u - (b + of_nat n * 8) < (8 :: u32) \<longleftrightarrow> unat (u - b) div 8 = n" "u - (b + of_nat n * 16) < (16 :: u32) \<longleftrightarrow> unat (u - b) div 16 = n"
    "unat (u - b) div 8 = n \<Longrightarrow> unat (u - (b + of_nat n * 8)) = unat (u - b) mod 8"
    "unat (u - b) div 16 = n \<Longrightarrow> unat (u - (b + of_nat n * 16)) = unat (u - b) mod 16"
    unfolding sh using assms c by (simp_all add: small_cell)
qed

lemma keeps_screen_cell: "keeps_screen (draw_cell d row col)"
  unfolding draw_cell_def fbcon_draw_char_at_def Let_def by (rule draw_glyph_picture(1))

lemma draw_cell_picture:
  assumes "fb_ok s" "row < 2 ^ 16" "col < 2 ^ 16"
  shows "read_pixel u v (draw_cell d (int row) (int col) s) =
    (if visible s u v \<and> unat (tdx d u) div 8 = col \<and> unat (tdy d v) div 16 = row then cell_pixel (dterm d) (tdx d u) (tdy d v) else read_pixel u v s)"
  unfolding draw_cell_def fbcon_draw_char_at_def Let_def draw_glyph_picture(2) [OF assms(1)] cell_px_def cell_py_def
  using cell_hit [OF assms(3), of u "window_client_x (windows d ! twin (dterm d))"] cell_hit [OF assms(2), of v "window_client_y (windows d ! twin (dterm d))"]
  by (auto simp: cell_pixel_def)

lemma draw_cells_picture:
  assumes "fb_ok s" "\<forall>(row, col) \<in> set ps. row < 2 ^ 16 \<and> col < 2 ^ 16"
  shows "read_pixel u v (fold (\<lambda>(row, col). draw_cell d (int row) (int col)) ps s) =
    (if visible s u v \<and> (unat (tdy d v) div 16, unat (tdx d u) div 8) \<in> set ps then cell_pixel (dterm d) (tdx d u) (tdy d v) else read_pixel u v s)"
  using assms
proof (induction ps arbitrary: s)
  case (Cons p ps)
  obtain row col where p: "p = (row, col)" by (cases p)
  note k = keeps_screenD [OF keeps_screen_cell, of d "int row" "int col" s]
  show ?case using Cons.IH [of "draw_cell d (int row) (int col) s"] Cons.prems k draw_cell_picture [OF Cons.prems(1), of row col u v d]
    by (auto simp: p)
qed simp

lemma keeps_screen_content: "keeps_screen (term_draw_content d)"
  unfolding term_draw_content_def [abs_def] draw_underline_def
  by (intro keeps_screen_comp [OF _ draw_rect_picture(1)] keeps_screen_fold) (auto simp: keeps_screen_cell split: prod.splits)

lemma content_picture:
  assumes "fb_ok s" "term_ok (dterm d)"
  shows "read_pixel u v (term_draw_content d s) =
    (if visible s u v \<and> unat (tdx d u) < 8 * nat (tcols (dterm d)) \<and> unat (tdy d v) < 16 * nat (trows (dterm d))
     then term_pixel (dterm d) (tdx d u) (tdy d v) else read_pixel u v s)"
proof -
  let ?t = "dterm d" and ?dx = "tdx d u" and ?dy = "tdy d v"
  let ?f = "fold (\<lambda>(row, col). draw_cell d (int row) (int col)) (cells (nat (trows ?t)) (nat (tcols ?t))) s"
  obtain cx cy where cur: "cur_x ?t = int cx" "cur_y ?t = int cy" "cx < nat (tcols ?t)" "cy < nat (trows ?t)" "cx < 128" "cy < 48"
  proof (rule that)
    show "cur_x ?t = int (nat (cur_x ?t))" "cur_y ?t = int (nat (cur_y ?t))" using assms(2) by (simp_all add: term_ok_def)
  qed (use assms(2) in \<open>auto simp: term_ok_def nat_less_iff\<close>)
  have k: "visible ?f = visible s" "fb_ok ?f"
    using keeps_screenD [OF keeps_screen_fold [of "\<lambda>(row, col). draw_cell d (int row) (int col)"]] keeps_screen_cell assms(1) by (auto split: prod.splits)
  have f: "read_pixel u v ?f = (if visible s u v \<and> unat ?dx div 8 < nat (tcols ?t) \<and> unat ?dy div 16 < nat (trows ?t)
      then cell_pixel ?t ?dx ?dy else read_pixel u v s)"
  proof -
    have "\<forall>(row, col) \<in> set (cells (nat (trows ?t)) (nat (tcols ?t))). row < 2 ^ 16 \<and> col < 2 ^ 16"
      using assms(2) by (auto simp: set_cells term_ok_def)
    from draw_cells_picture [OF assms(1) this, of u v d] show ?thesis by (auto simp: set_cells)
  qed
  have ul: "v - (cell_py d (int cy) + 16 - 2) < 2 \<longleftrightarrow> unat ?dy div 16 = cy \<and> unat ?dy mod 16 \<ge> 14"
  proof -
    have "v - (cell_py d (int cy) + 16 - 2) = (v - cell_py d (int cy)) - 14" by simp
    moreover have "w - 14 < 2 \<longleftrightarrow> unat w < 16 \<and> unat w \<ge> 14" for w :: u32
      using unat_u32_bound [of w] by (auto simp: word_less_nat_alt unat_sub_if')
    moreover have "unat (v - cell_py d (int cy)) < 16 \<longleftrightarrow> unat ?dy div 16 = cy"
      "unat ?dy div 16 = cy \<Longrightarrow> unat (v - cell_py d (int cy)) = unat ?dy mod 16"
      using cell_hit(2,4) [of cy v "window_client_y (windows d ! twin ?t)"] cur(6) unfolding cell_py_def word_less_nat_alt by simp_all
    ultimately show ?thesis by metis
  qed
  have "u - cell_px d (int cx) < 8 \<longleftrightarrow> unat ?dx div 8 = cx"
    using cell_hit(1) [of cx u "window_client_x (windows d ! twin ?t)"] cur(5) by (simp add: cell_px_def)
  with ul show ?thesis
    unfolding term_draw_content_def draw_underline_def draw_rect_picture(2) [OF k(2)] k(1) f
    using cur by (auto simp: term_pixel_def cell_pixel_def Let_def div_less_iff_less_mult mult.commute)
qed

text \<open>
  A window that fits: it is at least as large as its frame, its right and bottom edges have
  coordinates, its title fits the bar, and a terminal in it fits the client area.
\<close>

definition window_ok :: "desktop \<Rightarrow> window \<Rightarrow> bool" where
  "window_ok d win \<longleftrightarrow> wused win \<and> 4 \<le> sint (ww win) \<and> 24 \<le> sint (wh win) \<and>
     sint (wx win) + sint (ww win) < 2 ^ 31 \<and> sint (wy win) + sint (wh win) < 2 ^ 31 \<and>
     8 + 8 * int (length (wtitle win)) \<le> sint (ww win) \<and>
     (has_content win \<longrightarrow> windows d ! twin (dterm d) = win \<and> term_ok (dterm d) \<and>
        8 * tcols (dterm d) + 4 \<le> sint (ww win) \<and> 16 * trows (dterm d) + 24 \<le> sint (wh win))"

lemma uint_of_sint: "uint (w :: u32) = sint w mod 2 ^ 32"
  by (simp add: uint_sint take_bit_eq_mod)

lemma sint_range: "- (2 ^ 31) \<le> sint (w :: u32)" "sint (w :: u32) < 2 ^ 31"
  using sint_ge [of w] sint_lt [of w] by simp_all

lemma sint_pos: "0 \<le> sint (w :: u32) \<Longrightarrow> sint w = int (unat w)"
  using uint_of_sint [of w] sint_range [of w] by simp

lemma hit_1d:
  fixes p x w :: u32
  assumes "0 \<le> sint w" "sint x + sint w < 2 ^ 31"
  shows "x \<le>s p \<and> p <s x + w \<longleftrightarrow> p - x < w"
proof -
  note r = sint_range [of p] sint_range [of x] sint_range [of w]
  have "sint (x + w) = sint x + sint w"
    using assms r by (simp add: sint_word_ariths signed_take_bit_int_eq_self)
  moreover have "uint (p - x) = (sint p - sint x) mod 2 ^ 32"
    using uint_word_ariths(2) [of p x] uint_of_sint [of p] uint_of_sint [of x] by (simp add: mod_diff_eq)
  moreover have "uint w = sint w" using uint_of_sint [of w] assms(1) r by simp
  moreover have "(sint p - sint x) mod 2 ^ 32 = (if sint x \<le> sint p then sint p - sint x else sint p - sint x + 2 ^ 32)"
  proof (cases "sint x \<le> sint p")
    case False
    have "(sint p - sint x) mod 2 ^ 32 = (sint p - sint x + 2 ^ 32) mod 2 ^ 32" by simp
    also have "\<dots> = sint p - sint x + 2 ^ 32" using False r by (intro mod_pos_pos_trivial) simp_all
    finally show ?thesis using False by simp
  qed (use r in simp)
  ultimately show ?thesis using assms r by (auto simp: word_sle_eq word_sless_alt word_less_def)
qed

lemma point_in_window_iff: "window_ok d win \<Longrightarrow> point_in_window win u v \<longleftrightarrow> u - wx win < ww win \<and> v - wy win < wh win"
  using hit_1d [of "ww win" "wx win" u] hit_1d [of "wh win" "wy win" v] by (auto simp: window_ok_def point_in_window_def)

lemma keeps_screen_window: "keeps_screen (window_draw d win focused)"
proof -
  have "keeps_screen (\<lambda>s. if has_content win then term_draw_content d s else s)"
    using keeps_screen_content keeps_screen_id by (cases "has_content win") simp_all
  note k = keeps_screen_comp [OF keeps_screen_comp [OF keeps_screen_comp [OF keeps_screen_comp [OF draw_rect_picture(1)
    draw_rect_picture(1)] keeps_screen_string] draw_rect_picture(1)] this]
  show ?thesis using k keeps_screen_id by (cases "wused win") (simp_all add: window_draw_def [abs_def] Let_def)
qed

lemma shifted: "unat k + n \<le> 2 ^ 32 \<Longrightarrow> unat (a - k) < n \<longleftrightarrow> unat k \<le> unat a \<and> unat a < unat k + n" for a k :: u32
  using unat_u32_bound [of a] by (auto simp: unat_sub_if')

lemma window_picture:
  assumes "fb_ok s" "window_ok d win"
  shows "read_pixel u v (window_draw d win focused s) =
    (if visible s u v \<and> point_in_window win u v then window_pixel d win focused u v else read_pixel u v s)"
proof -
  define a b W H n where "a = u - wx win" and "b = v - wy win" and "W = unat (ww win)" and "H = unat (wh win)" and "n = length (wtitle win)"
  have pos: "sint (ww win) = int W" "sint (wh win) = int H" using assms(2) sint_pos by (auto simp: window_ok_def W_def H_def)
  have WH: "4 \<le> W" "24 \<le> H" "8 + 8 * n \<le> W" "W < 2 ^ 31" "H < 2 ^ 31"
    using assms(2) sint_range [of "ww win"] sint_range [of "wh win"] by (auto simp: window_ok_def pos n_def)
  have sub: "unat (ww win - 4) = W - 4" "unat (wh win - 4) = H - 4" "unat (wh win - 4 - 20) = H - 24"
    using WH by (simp_all add: W_def H_def unat_sub_if')
  have diff: "u - (wx win + k) = a - k" "v - (wy win + k) = b - k" for k by (simp_all add: a_def b_def)
  have c: "a - 2 < ww win - 4 \<longleftrightarrow> 2 \<le> unat a \<and> unat a < W - 2" "b - 2 < wh win - 4 \<longleftrightarrow> 2 \<le> unat b \<and> unat b < H - 2"
    "b - 2 < 20 \<longleftrightarrow> 2 \<le> unat b \<and> unat b < 22" "b - 22 < wh win - 4 - 20 \<longleftrightarrow> 22 \<le> unat b \<and> unat b < H - 2"
    "b - 4 < 16 \<longleftrightarrow> 4 \<le> unat b \<and> unat b < 20" "a < ww win \<longleftrightarrow> unat a < W" "b < wh win \<longleftrightarrow> unat b < H"
    "unat (a - 6) < 8 * n \<longleftrightarrow> 6 \<le> unat a \<and> unat a < 6 + 8 * n"
    unfolding word_less_nat_alt sub using WH shifted [of 2 "W - 4" a] shifted [of 2 "H - 4" b] shifted [of 2 20 b] shifted [of 22 "H - 24" b]
      shifted [of 4 16 b] shifted [of 6 "8 * n" a] by (simp_all add: W_def H_def, auto)
  define bar where "bar = (if focused then COL_TITLEBAR_TOP else COL_TITLEBAR)"
  define s1 where "s1 = draw_rect (wx win) (wy win) (ww win) (wh win) COL_BORDER s"
  define s2 where "s2 = draw_rect (wx win + 2) (wy win + 2) (ww win - 4) 20 bar s1"
  define s3 where "s3 = fbcon_draw_string_at (wx win + 6) (wy win + 4) (wtitle win) COL_TITLETEXT bar s2"
  define s4 where "s4 = draw_rect (wx win + 2) (wy win + 22) (ww win - 4) (wh win - 4 - 20) (wbg win) s3"
  have k: "visible s1 = visible s" "fb_ok s1" "visible s2 = visible s" "fb_ok s2" "visible s3 = visible s" "fb_ok s3" "visible s4 = visible s" "fb_ok s4"
    unfolding s4_def s3_def s2_def s1_def using assms(1) by (simp_all add: keeps_screenD [OF draw_rect_picture(1)] keeps_screenD [OF keeps_screen_string])
  have draw: "window_draw d win focused s = (if has_content win then term_draw_content d s4 else s4)"
    using assms(2) by (simp add: window_ok_def window_draw_def Let_def s1_def s2_def s3_def s4_def bar_def window_client_x_def window_client_y_def
        window_client_w_def window_client_h_def add.assoc)
  have r1: "read_pixel u v s1 = (if visible s u v \<and> unat a < W \<and> unat b < H then COL_BORDER else read_pixel u v s)"
    unfolding s1_def draw_rect_picture(2) [OF assms(1)] by (simp add: c(6,7) flip: a_def b_def)
  have r2: "read_pixel u v s2 = (if visible s u v \<and> 2 \<le> unat a \<and> unat a < W - 2 \<and> 2 \<le> unat b \<and> unat b < 22 then bar else read_pixel u v s1)"
    unfolding s2_def draw_rect_picture(2) [OF k(2)] diff k(1) c by simp
  have r3: "read_pixel u v s3 = (if visible s u v \<and> 6 \<le> unat a \<and> unat a < 6 + 8 * n \<and> 4 \<le> unat b \<and> unat b < 20
      then string_pixel (wtitle win) COL_TITLETEXT bar (a - 6) (b - 4) else read_pixel u v s2)"
    unfolding s3_def using string_picture [OF k(4), of "wtitle win" u v "wx win + 6" "wy win + 4" COL_TITLETEXT bar] WH
    unfolding diff k(3) c n_def [symmetric] by simp
  have r4: "read_pixel u v s4 = (if visible s u v \<and> 2 \<le> unat a \<and> unat a < W - 2 \<and> 22 \<le> unat b \<and> unat b < H - 2 then wbg win else read_pixel u v s3)"
    unfolding s4_def draw_rect_picture(2) [OF k(6)] diff k(5) c by simp
  define A B where "A \<longleftrightarrow> unat (a - 2) < 8 * nat (tcols (dterm d))" and "B \<longleftrightarrow> unat (b - 22) < 16 * nat (trows (dterm d))"
  have r5: "read_pixel u v (term_draw_content d s4) = (if visible s u v \<and> A \<and> B then term_pixel (dterm d) (a - 2) (b - 22) else read_pixel u v s4)"
    and AB: "A \<Longrightarrow> 2 \<le> unat a \<and> unat a < W - 2" "B \<Longrightarrow> 22 \<le> unat b \<and> unat b < H - 2" if "has_content win"
  proof -
    have t: "windows d ! twin (dterm d) = win" "term_ok (dterm d)" "8 * nat (tcols (dterm d)) + 4 \<le> W" "16 * nat (trows (dterm d)) + 24 \<le> H"
      using assms(2) that by (auto simp: window_ok_def pos)
    show "read_pixel u v (term_draw_content d s4) = (if visible s u v \<and> A \<and> B then term_pixel (dterm d) (a - 2) (b - 22) else read_pixel u v s4)"
      unfolding content_picture [OF k(8) t(2)] t(1) k(7) window_client_x_def window_client_y_def A_def B_def by (simp add: diff add.assoc)
    show "A \<Longrightarrow> 2 \<le> unat a \<and> unat a < W - 2" "B \<Longrightarrow> 22 \<le> unat b \<and> unat b < H - 2"
      using t(3,4) WH shifted [of 2 "8 * nat (tcols (dterm d))" a] shifted [of 22 "16 * nat (trows (dterm d))" b] by (auto simp: A_def B_def)
  qed
  have title: "string_pixel (wtitle win) COL_TITLETEXT bar (a - 6) (b - 4) = bar"
    if "\<not> (6 \<le> unat a \<and> unat a < 6 + 8 * n \<and> 4 \<le> unat b \<and> unat b < 20)"
    using that c(5,8) by (auto simp: string_pixel_def n_def div_less_iff_less_mult mult.commute)
  have pix: "window_pixel d win focused u v =
      (if \<not> (2 \<le> unat a \<and> unat a < W - 2) \<or> \<not> (2 \<le> unat b \<and> unat b < H - 2) then COL_BORDER
       else if unat b < 22 then string_pixel (wtitle win) COL_TITLETEXT bar (a - 6) (b - 4)
       else if has_content win \<and> A \<and> B then term_pixel (dterm d) (a - 2) (b - 22) else wbg win)"
  proof -
    have e: "a - 2 - 4 = a - 6" "b - 2 - 2 = b - 4" "b - 2 - 20 = b - 22" by simp_all
    show ?thesis unfolding window_pixel_def Let_def diff e linorder_not_less [symmetric] A_def B_def c bar_def by simp
  qed
  define I X T C S where "I \<longleftrightarrow> unat a < W \<and> unat b < H" and "X \<longleftrightarrow> 2 \<le> unat a \<and> unat a < W - 2" and "T \<longleftrightarrow> 2 \<le> unat b \<and> unat b < 22"
    and "C \<longleftrightarrow> 22 \<le> unat b \<and> unat b < H - 2" and "S \<longleftrightarrow> 6 \<le> unat a \<and> unat a < 6 + 8 * n \<and> 4 \<le> unat b \<and> unat b < 20"
  have p: "X \<Longrightarrow> T \<Longrightarrow> I" "X \<Longrightarrow> C \<Longrightarrow> I" "S \<Longrightarrow> X \<and> T" "T \<Longrightarrow> \<not> C" "2 \<le> unat b \<and> unat b < H - 2 \<longleftrightarrow> T \<or> C"
    "C \<Longrightarrow> \<not> unat b < 22" "T \<Longrightarrow> unat b < 22"
    using WH by (auto simp: I_def X_def T_def C_def S_def)
  have q: "read_pixel u v s1 = (if visible s u v \<and> I then COL_BORDER else read_pixel u v s)"
    "read_pixel u v s2 = (if visible s u v \<and> X \<and> T then bar else read_pixel u v s1)"
    "read_pixel u v s3 = (if visible s u v \<and> S then string_pixel (wtitle win) COL_TITLETEXT bar (a - 6) (b - 4) else read_pixel u v s2)"
    "read_pixel u v s4 = (if visible s u v \<and> X \<and> C then wbg win else read_pixel u v s3)"
    "\<not> S \<Longrightarrow> string_pixel (wtitle win) COL_TITLETEXT bar (a - 6) (b - 4) = bar"
    using r1 r2 r3 r4 title by (simp_all add: I_def X_def T_def C_def S_def)
  have "point_in_window win u v \<longleftrightarrow> I"
    using point_in_window_iff [OF assms(2), of u v] c(6,7) by (simp add: a_def b_def I_def)
  then show ?thesis
    unfolding draw pix p(5) X_def [symmetric] using q p r5 AB [folded X_def C_def] by (cases "has_content win"; cases X; cases T; cases C; auto)
qed

section \<open>The screen shows the windows\<close>

lemma draw_windows_picture:
  assumes "fb_ok s" "\<forall>i < n. window_ok d (win i)"
  shows "visible (fold (\<lambda>i. window_draw d (win i) (foc i)) [0..<n] s) = visible s \<and>
    fb_ok (fold (\<lambda>i. window_draw d (win i) (foc i)) [0..<n] s) \<and>
    read_pixel u v (fold (\<lambda>i. window_draw d (win i) (foc i)) [0..<n] s) =
    (case find (\<lambda>i. point_in_window (win i) u v) (rev [0..<n]) of
       Some i \<Rightarrow> if visible s u v then window_pixel d (win i) (foc i) u v else read_pixel u v s
     | None \<Rightarrow> read_pixel u v s)"
  using assms
proof (induction n)
  case (Suc n)
  let ?s = "fold (\<lambda>i. window_draw d (win i) (foc i)) [0..<n] s"
  have IH: "visible ?s = visible s" "fb_ok ?s" using Suc by auto
  show ?case using Suc IH window_picture [OF IH(2), of d "win n" u v "foc n"] keeps_screenD [OF keeps_screen_window]
    by (auto split: option.splits)
qed simp

definition desktop_ok :: "desktop \<Rightarrow> bool" where
  "desktop_ok d \<longleftrightarrow> fb_ok (dscreen d) \<and> (\<forall>i < window_count d. window_ok d (windows d ! (z_order d ! i)))"

text \<open>
  C31: the screen shows what a click hits. After redrawing, the mouse cursor taken away, each pixel
  shows the topmost window that the search for the window under the pointer finds there: its
  border, its title, its background or the character cell of the terminal; where no window is, it
  shows the desktop.
\<close>

theorem wm_redraw_shows_windows:
  assumes "desktop_ok d" "visible (dscreen d) u v"
  shows "read_pixel u v (cursor_hide (dscreen (wm_redraw d))) =
    (case window_index_at u v d of
       None \<Rightarrow> COL_DESKTOP
     | Some i \<Rightarrow> window_pixel d (windows d ! (z_order d ! i)) (i = window_count d - 1) u v)"
proof -
  let ?f = "fill_screen COL_DESKTOP (cursor_hide (dscreen d))"
  have "\<not> drawn (cursor_hide (dscreen d))" by (simp add: cursor_hide_def)
  then have f: "visible ?f = visible (dscreen d)" "fb_ok ?f" "\<not> drawn ?f"
    using assms(1) by (simp_all add: keeps_screenD [OF fill_screen_picture(1)] cursor_geometry desktop_ok_def)
  have r: "read_pixel u v ?f = COL_DESKTOP"
    using assms by (simp add: fill_screen_picture(2) cursor_geometry desktop_ok_def)
  have "keeps_screen (draw_windows d)" unfolding draw_windows_def by (rule keeps_screen_fold) (rule keeps_screen_window)
  then have "\<not> drawn (draw_windows d ?f)" using f(3) keeps_screenD by simp
  then have "read_pixel u v (cursor_hide (dscreen (wm_redraw d))) = read_pixel u v (draw_windows d ?f)"
    by (simp add: wm_redraw_def read_hide_show)
  also have "\<dots> = (case window_index_at u v d of
       None \<Rightarrow> COL_DESKTOP
     | Some i \<Rightarrow> window_pixel d (windows d ! (z_order d ! i)) (i = window_count d - 1) u v)"
    using draw_windows_picture [OF f(2), of "window_count d" d "\<lambda>i. windows d ! (z_order d ! i)" "\<lambda>i. i = window_count d - 1" u v] assms f(1) r
    by (auto simp: draw_windows_def window_index_at_def desktop_ok_def split: option.splits)
  finally show ?thesis .
qed

theorem wm_redraw_shows_windows_witness:
  "read_pixel 3 3 (cursor_hide (dscreen (wm_redraw (snd (window_create 2 2 30 12 [] 0xFF (boot_desktop (con_screen tiny_console))))))) = COL_BORDER"
proof -
  let ?d = "snd (window_create 2 2 30 12 [] 0xFF (boot_desktop (con_screen tiny_console)))"
  have "desktop_ok ?d" "visible (dscreen ?d) 3 3" "window_index_at 3 3 ?d = Some 0"
    "window_pixel ?d (windows ?d ! (z_order ?d ! 0)) (0 = window_count ?d - 1) 3 3 = COL_BORDER"
    by (simp_all add: desktop_ok_def window_ok_def window_index_at_def window_create_def boot_desktop_def tiny_console_def fb_ok_def visible_def
        point_in_window_def window_pixel_def Let_def)
  then show ?thesis using wm_redraw_shows_windows [of ?d 3 3] by simp
qed

section \<open>Raising and dragging windows\<close>

text \<open>The windows from bottom to top.\<close>

definition stack :: "desktop \<Rightarrow> nat list" where
  "stack d = take (window_count d) (z_order d)"

definition desktop_inv :: "desktop \<Rightarrow> bool" where
  "desktop_inv d \<longleftrightarrow> length (windows d) = MAX_WINDOWS \<and> length (z_order d) = MAX_WINDOWS \<and> window_count d \<le> MAX_WINDOWS \<and>
     mset (stack d) = mset [0..<window_count d] \<and> (\<forall>slot. dragging d = Some slot \<longrightarrow> slot < window_count d) \<and>
     (was_pressed d \<or> dragging d = None)"

lemma drop_head_update: "n < length z \<Longrightarrow> (drop n z)[0 := x] = x # drop (Suc n) z"
  by (simp flip: Cons_nth_drop_Suc)

lemma shift_down:
  "k + j < length z \<Longrightarrow> fold (\<lambda>i z. z[i := z ! (i + 1)]) [k..<k + j] z = take k z @ take j (drop (k + 1) z) @ drop (k + j) z"
proof (induction j)
  case (Suc j)
  let ?p = "take k z @ take j (drop (k + 1) z)"
  have l: "length ?p = k + j" using Suc.prems by simp
  have "fold (\<lambda>i z. z[i := z ! (i + 1)]) [k..<k + Suc j] z = (?p @ drop (k + j) z)[k + j := (?p @ drop (k + j) z) ! (k + j + 1)]"
    using Suc by simp
  also have "\<dots> = ?p @ z ! (k + j + 1) # drop (k + j + 1) z"
    using l Suc.prems by (simp add: list_update_append nth_append drop_head_update)
  also have "\<dots> = take k z @ take (Suc j) (drop (k + 1) z) @ drop (k + Suc j) z"
    using Suc.prems by (simp add: take_Suc_conv_app_nth)
  finally show ?case .
qed simp

lemma window_raise_stack:
  assumes "zi < window_count d" "window_count d \<le> length (z_order d)"
  shows "stack (window_raise zi d) = take zi (stack d) @ drop (Suc zi) (stack d) @ [stack d ! zi]"
proof -
  let ?z = "z_order d"
  obtain j where j: "window_count d = Suc (zi + j)" using less_imp_Suc_add [OF assms(1)] by blast
  have f: "fold (\<lambda>i z. z[i := z ! (i + 1)]) [zi..<zi + j] ?z = take zi ?z @ take j (drop (zi + 1) ?z) @ drop (zi + j) ?z"
    using shift_down [of zi j ?z] assms(2) j by simp
  have u: "(take zi ?z @ take j (drop (zi + 1) ?z) @ drop (zi + j) ?z)[zi + j := x] = take zi ?z @ take j (drop (zi + 1) ?z) @ x # drop (Suc (zi + j)) ?z" for x
    using assms(2) j by (simp add: list_update_append drop_head_update)
  show ?thesis
  proof (cases "j = 0")
    case True
    then show ?thesis using j assms(2) by (simp add: window_raise_def stack_def take_Suc_conv_app_nth nth_append)
  next
    case False
    have "z_order (window_raise zi d) = take zi ?z @ take j (drop (zi + 1) ?z) @ ?z ! zi # drop (Suc (zi + j)) ?z"
      using j False f u by (simp add: window_raise_def Let_def)
    moreover have "window_count (window_raise zi d) = window_count d" by (simp add: window_raise_def Let_def)
    ultimately show ?thesis using j assms(2) by (simp add: stack_def drop_take)
  qed
qed

lemma window_raise_frame [simp]:
  "windows (window_raise zi d) = windows d" "window_count (window_raise zi d) = window_count d" "dragging (window_raise zi d) = dragging d"
  "was_pressed (window_raise zi d) = was_pressed d" "dscreen (window_raise zi d) = dscreen d" "drag_off_x (window_raise zi d) = drag_off_x d"
  "drag_off_y (window_raise zi d) = drag_off_y d"
  by (simp_all add: window_raise_def Let_def)

lemma length_shift: "length (fold (\<lambda>i z. z[i := z ! (i + 1)]) ns z) = length z"
  by (induction ns arbitrary: z) simp_all

lemma length_raise [simp]: "length (z_order (window_raise zi d)) = length (z_order d)"
  using length_shift [of "[zi..<window_count d - 1]" "z_order d"] by (simp add: window_raise_def Let_def)

lemma window_raise_inv:
  assumes "desktop_inv d" "zi < window_count d"
  shows "desktop_inv (window_raise zi d)" "stack (window_raise zi d) = remove1 (stack d ! zi) (stack d) @ [stack d ! zi]"
proof -
  have len: "window_count d \<le> length (z_order d)" "zi < length (stack d)" using assms by (simp_all add: desktop_inv_def stack_def)
  have dist: "distinct (stack d)" using assms(1) by (metis desktop_inv_def distinct_upt mset_eq_imp_distinct_iff)
  have split: "stack d = take zi (stack d) @ stack d ! zi # drop (Suc zi) (stack d)" using len(2) by (rule id_take_nth_drop)
  have "stack d ! zi \<notin> set (take zi (stack d))" using dist split by (metis distinct_append disjoint_iff list.set_intros(1))
  then have "remove1 (stack d ! zi) (stack d) = take zi (stack d) @ drop (Suc zi) (stack d)"
    by (subst (2) split) (simp add: remove1_append)
  then show st: "stack (window_raise zi d) = remove1 (stack d ! zi) (stack d) @ [stack d ! zi]"
    using window_raise_stack [OF assms(2) len(1)] by simp
  have "mset (stack (window_raise zi d)) = mset (stack d)" using st len(2) by simp
  then show "desktop_inv (window_raise zi d)" using assms(1) by (simp add: desktop_inv_def)
qed

lemma wm_redraw_frame [simp]:
  "windows (wm_redraw d) = windows d" "z_order (wm_redraw d) = z_order d" "window_count (wm_redraw d) = window_count d" "dragging (wm_redraw d) = dragging d" "stack (wm_redraw d) = stack d"
  "was_pressed (wm_redraw d) = was_pressed d" "drag_off_x (wm_redraw d) = drag_off_x d" "drag_off_y (wm_redraw d) = drag_off_y d"
  "desktop_inv (wm_redraw d) = desktop_inv d"
  by (simp_all add: wm_redraw_def stack_def desktop_inv_def)

lemma wm_drag_spec:
  "slot < length (windows d) \<Longrightarrow> windows (wm_drag slot d) =
    (windows d)[slot := (windows d ! slot)\<lparr>wx := mouse_x (dscreen d) - drag_off_x d, wy := mouse_y (dscreen d) - drag_off_y d\<rparr>]"
  "stack (wm_drag slot d) = stack d" "desktop_inv d \<Longrightarrow> desktop_inv (wm_drag slot d)" "was_pressed (wm_drag slot d) = was_pressed d"
  by (auto simp: wm_drag_def Let_def stack_def desktop_inv_def)

definition pressed :: "screen \<Rightarrow> bool" where
  "pressed s \<longleftrightarrow> mouse_buttons s AND 1 \<noteq> 0"

text \<open>
  C39: clicking and dragging. When the button goes down over a window, that window comes to the top
  and the others keep their order. If the mouse then moves with the button down, the window moves
  by the distance of the mouse when it was grabbed at its title bar, and stays otherwise; no other
  window moves. The arrays of the window manager stay consistent.
\<close>

theorem wm_click_and_drag:
  assumes "desktop_inv d" "\<not> was_pressed d" "pressed (dscreen d)" "pressed s"
    and "window_index_at (mouse_x (dscreen d)) (mouse_y (dscreen d)) d = Some zi"
  shows "let slot = stack d ! zi; win = windows d ! slot; d' = wm_handle_mouse ((wm_handle_mouse d)\<lparr>dscreen := s\<rparr>) in
    desktop_inv d' \<and> stack d' = remove1 slot (stack d) @ [slot] \<and>
    windows d' = (if point_in_titlebar win (mouse_x (dscreen d)) (mouse_y (dscreen d))
      then (windows d)[slot := win\<lparr>wx := wx win + (mouse_x s - mouse_x (dscreen d)), wy := wy win + (mouse_y s - mouse_y (dscreen d))\<rparr>]
      else windows d)"
proof -
  define slot where "slot = stack d ! zi"
  define win where "win = windows d ! slot"
  let ?mx = "mouse_x (dscreen d)" and ?my = "mouse_y (dscreen d)"
  have zi: "zi < window_count d" using assms(5) by (auto simp: window_index_at_def find_Some_iff rev_nth)
  have slot: "z_order d ! zi = slot" using zi by (simp add: slot_def stack_def)
  have "stack d ! zi \<in> set (stack d)" using zi assms(1) by (intro nth_mem) (simp add: stack_def desktop_inv_def)
  then have lt: "slot < window_count d" using assms(1) mset_eq_setD [of "stack d" "[0..<window_count d]"] by (simp add: slot_def desktop_inv_def)
  have len: "slot < length (windows d)" using lt assms(1) by (simp add: desktop_inv_def)
  note r = window_raise_inv [OF assms(1) zi, folded slot_def]
  define t where "t \<longleftrightarrow> point_in_titlebar win ?mx ?my"
  define e where "e = (wm_handle_mouse d)\<lparr>dscreen := s\<rparr>"
  have e: "windows e = windows d" "stack e = remove1 slot (stack d) @ [slot]" "dragging e = (if t then Some slot else None)" "was_pressed e"
    "t \<Longrightarrow> drag_off_x e = ?mx - wx win \<and> drag_off_y e = ?my - wy win" "dscreen e = s" "desktop_inv e"
    using assms r lt by (simp_all add: e_def wm_handle_mouse_def wm_press_def Let_def pressed_def slot t_def win_def desktop_inv_def stack_def)
  have move: "x - (y - z) = z + (x - y)" for x y z :: u32 by simp
  have upd: "stack (f\<lparr>was_pressed := True\<rparr>) = stack f" "was_pressed f \<Longrightarrow> desktop_inv (f\<lparr>was_pressed := True\<rparr>) = desktop_inv f" for f
    by (simp_all add: stack_def desktop_inv_def)
  have eq: "wm_handle_mouse e = (case dragging e of Some slot \<Rightarrow> wm_drag slot e | None \<Rightarrow> e)\<lparr>was_pressed := True\<rparr>"
    using e assms(4) by (simp add: wm_handle_mouse_def pressed_def Let_def split: option.splits)
  show ?thesis unfolding Let_def slot_def [symmetric] win_def [symmetric] e_def [symmetric] t_def [symmetric] eq
    using e len wm_drag_spec [where slot = slot and d = e] by (cases t) (simp_all only: option.case if_True if_False desktop.simps win_def upd move, simp_all)
qed

lemma window_create_inv:
  assumes "desktop_inv d"
  shows "desktop_inv (snd (window_create x y h w title bg d))"
    "window_count d < MAX_WINDOWS \<Longrightarrow> stack (snd (window_create x y h w title bg d)) = stack d @ [window_count d]"
proof -
  show st: "stack (snd (window_create x y h w title bg d)) = stack d @ [window_count d]" if "window_count d < MAX_WINDOWS"
    using assms that by (simp add: window_create_def Let_def stack_def desktop_inv_def take_Suc_conv_app_nth)
  show "desktop_inv (snd (window_create x y h w title bg d))"
    using assms st by (cases "window_count d < MAX_WINDOWS") (auto simp: window_create_def Let_def desktop_inv_def)
qed

definition two_windows :: "screen \<Rightarrow> desktop" where
  "two_windows s = snd (window_create 0 0 60 60 [] 2 (snd (window_create 0 0 60 60 [] 1 (boot_desktop s))))"

theorem wm_click_and_drag_witness:
  "let s = \<lparr>fb_virt = 0xF0000000, fb_width = 64, fb_height = 64, fb_pitch = 256, fb_bpp = 32, vram = (\<lambda>_. 0), mouse_x = 5, mouse_y = 5,
        mouse_buttons = 1, packet = [0, 0, 0], packet_index = 0, backing = (\<lambda>_ _. 0), last_x = 0, last_y = 0, drawn = False\<rparr>;
       d = wm_handle_mouse ((wm_handle_mouse (two_windows s))\<lparr>dscreen := s\<lparr>mouse_x := 9\<rparr>\<rparr>)
   in wx (windows d ! 1) = 4 \<and> wx (windows d ! 0) = 0 \<and> stack d = [0, 1]"
proof -
  define s where "s = \<lparr>fb_virt = 0xF0000000, fb_width = 64, fb_height = 64, fb_pitch = 256, fb_bpp = 32, vram = (\<lambda>_. 0), mouse_x = 5, mouse_y = 5,
        mouse_buttons = 1, packet = [0, 0, 0], packet_index = 0, backing = (\<lambda>_ _. 0), last_x = 0, last_y = 0, drawn = False\<rparr>"
  have "desktop_inv (boot_desktop s)" by (simp add: desktop_inv_def boot_desktop_def stack_def)
  then have i: "desktop_inv (two_windows s)" by (simp add: two_windows_def window_create_inv)
  have d: "\<not> was_pressed (two_windows s)" "pressed s" "dscreen (two_windows s) = s" "pressed (s\<lparr>mouse_x := 9\<rparr>)"
    "window_index_at 5 5 (two_windows s) = Some 1" "stack (two_windows s) = [0, 1]" "length (windows (two_windows s)) = 8"
    "point_in_titlebar (windows (two_windows s) ! 1) 5 5" "wx (windows (two_windows s) ! 1) = 0" "wx (windows (two_windows s) ! 0) = 0"
    by (simp_all add: two_windows_def window_create_def boot_desktop_def Let_def pressed_def s_def window_index_at_def point_in_window_def
        point_in_titlebar_def stack_def word_sle_eq numeral_eq_Suc)
  show ?thesis using wm_click_and_drag [of "two_windows s" "s\<lparr>mouse_x := 9\<rparr>" 1] i d unfolding s_def [symmetric] Let_def by (simp add: s_def)
qed

end
