(* ===== verification/Printf.thy ===== *)
theory Printf
  imports Libc
begin

text \<open>
  Formatted output: \<^verbatim>\<open>libc/stdio/printf.c\<close> and the hexadecimal output of the terminal
  (\<^verbatim>\<open>arch/i386/tty.c\<close>). The result is the returned value with the bytes put out; \<^verbatim>\<open>putchar\<close> returns the
  byte it was given and so never fails. \<open>None\<close> is undefined behaviour: a missing argument, an
  argument of the wrong kind, or a write past the digit buffer. The counters of \<^verbatim>\<open>printf\<close> are
  unbounded integers: no output comes near \<^verbatim>\<open>INT_MAX\<close> bytes.
\<close>

section \<open>Arguments and conversions\<close>

datatype varg = Num u32 | Str cstr

abbreviation (input) INT_MAX :: int where "INT_MAX \<equiv> 2147483647"
abbreviation (input) percent :: u8 where "percent \<equiv> 37"

fun parse_flags :: "bool \<Rightarrow> cstr \<Rightarrow> bool \<times> cstr" where
  "parse_flags zero_pad (c # f) =
     (if c = 48 then parse_flags True f else if c = 45 then parse_flags zero_pad f else (zero_pad, c # f))"
| "parse_flags zero_pad [] = (zero_pad, [])"

fun parse_width :: "int \<Rightarrow> cstr \<Rightarrow> int \<times> cstr" where
  "parse_width width (c # f) =
     (if 48 \<le> c \<and> c \<le> 57 then parse_width (width * 10 + (uint c - 48)) f else (width, c # f))"
| "parse_width width [] = (width, [])"

text \<open>The digits of a number, the lowest first, as the loops store them.\<close>

function dec_digits :: "int \<Rightarrow> u8 list" where
  "dec_digits num = (if num > 0 then (48 + of_int (num mod 10)) # dec_digits (num div 10) else [])"
  by pat_completeness auto

termination
  by (relation "measure nat") auto

definition hex_digit :: "nat \<Rightarrow> u8" where
  "hex_digit digit = (if digit < 10 then 48 + of_nat digit else 65 + of_nat digit - 10)"

fun hex_digits :: "nat \<Rightarrow> u8 list" where
  "hex_digits num = (if num > 0 then hex_digit (num mod 16) # hex_digits (num div 16) else [])"

declare dec_digits.simps [simp del] hex_digits.simps [simp del]

text \<open>Negation wraps around, so the smallest number stays negative.\<close>

definition print_d :: "bool \<Rightarrow> int \<Rightarrow> u32 \<Rightarrow> u8 list option" where
  "print_d zero_pad width n =
     (let neg = sint n < 0;
          num = (if neg then sint (- n) else sint n);
          buf = (if num = 0 then [48] else dec_digits num);
          digits = int (length buf) + (if neg then 1 else 0)
      in if length buf > 12 then None
         else Some ((if neg then [45] else []) @ replicate (nat (width - digits)) (if zero_pad then 48 else 32) @ rev buf))"

definition print_x :: "u32 \<Rightarrow> u8 list option" where
  "print_x n =
     (let buf = (if n = 0 then [48] else hex_digits (unat n))
      in if length buf > 9 then None else Some (rev buf))"

text \<open>
  One conversion: the format behind the flags and the width, the arguments, and the room left. The
  result is the bytes put out with the rest of the format and of the arguments, or \<open>Inl ()\<close> for
  the return of -1.
\<close>

definition convert :: "cstr \<Rightarrow> bool \<Rightarrow> int \<Rightarrow> cstr \<Rightarrow> varg list \<Rightarrow> int \<Rightarrow> (unit + u8 list \<times> cstr \<times> varg list) option" where
  "convert begun zero_pad width f args maxrem =
     (let bad = Some (if maxrem < int (length begun) then Inl () else Inr (begun, [], args)) in
      case f of
        [] \<Rightarrow> bad
      | c # rest \<Rightarrow>
          if c = 99 then
            (case args of
               Num n # as \<Rightarrow> Some (if maxrem = 0 then Inl () else Inr ([ucast n], rest, as))
             | _ \<Rightarrow> None)
          else if c = 115 then
            (case args of
               Str s # as \<Rightarrow> Some (if maxrem < int (length s) then Inl () else Inr (s, rest, as))
             | _ \<Rightarrow> None)
          else if c = 100 then
            (case args of
               Num n # as \<Rightarrow> map_option (\<lambda>bs. Inr (bs, rest, as)) (print_d zero_pad width n)
             | _ \<Rightarrow> None)
          else if c = 120 then
            (case args of
               Num n # as \<Rightarrow> map_option (\<lambda>bs. Inr (bs, rest, as)) (print_x n)
             | _ \<Rightarrow> None)
          else bad)"

definition conversion :: "cstr \<Rightarrow> varg list \<Rightarrow> int \<Rightarrow> (unit + u8 list \<times> cstr \<times> varg list) option" where
  "conversion f args maxrem =
     (case parse_flags False f of
        (zero_pad, f1) \<Rightarrow> (case parse_width 0 f1 of (width, f2) \<Rightarrow> convert (percent # f) zero_pad width f2 args maxrem))"

text \<open>A stretch of ordinary characters; a doubled percent sign stands for one.\<close>

definition amount :: "cstr \<Rightarrow> nat" where
  "amount f = 1 + length (takeWhile (\<lambda>c. c \<noteq> percent) (tl f))"

lemma length_parse_flags: "length (snd (parse_flags z f)) \<le> length f"
  by (induction z f rule: parse_flags.induct) auto

lemma length_parse_width: "length (snd (parse_width w f)) \<le> length f"
  by (induction w f rule: parse_width.induct) auto

lemma convert_shorter: "convert b z w f args m = Some (Inr (bs, rest, as)) \<Longrightarrow> length rest \<le> length f"
  by (auto simp: convert_def Let_def split: list.splits varg.splits if_splits option.splits)

lemma conversion_shorter: "conversion f args m = Some (Inr (bs, rest, as)) \<Longrightarrow> length rest \<le> length f"
  using length_parse_flags [of False f] length_parse_width [of 0 "snd (parse_flags False f)"]
  by (fastforce simp: conversion_def split: prod.splits dest: convert_shorter)

function printf_loop :: "cstr \<Rightarrow> varg list \<Rightarrow> int \<Rightarrow> u8 list \<Rightarrow> (int \<times> u8 list) option" where
  "printf_loop [] args written out = Some (written, out)"
| "printf_loop (c # f) args written out =
     (if c \<noteq> percent \<or> (f \<noteq> [] \<and> hd f = percent) then
        (let g = (if c = percent then f else c # f) in
         if INT_MAX - written < int (amount g) then Some (-1, out)
         else printf_loop (drop (amount g) g) args (written + int (amount g)) (out @ take (amount g) g))
      else
        (case conversion f args (INT_MAX - written) of
           None \<Rightarrow> None
         | Some (Inl _) \<Rightarrow> Some (-1, out)
         | Some (Inr (bs, rest, as)) \<Rightarrow> printf_loop rest as (written + int (length bs)) (out @ bs)))"
  by pat_completeness auto

termination
  by (relation "measure (\<lambda>(f, _). length f)") (auto simp: amount_def dest: conversion_shorter)

definition printf :: "cstr \<Rightarrow> varg list \<Rightarrow> (int \<times> u8 list) option" where
  "printf format args = printf_loop format args 0 []"

definition puts :: "cstr \<Rightarrow> (int \<times> u8 list) option" where
  "puts str = printf (cstr_lit ''%s'' @ [10]) [Str str]"

section \<open>Hexadecimal output of the terminal\<close>

fun put_hex :: "nat \<Rightarrow> u32 \<Rightarrow> u8 list \<Rightarrow> u8 list" where
  "put_hex 0 v buffer = buffer"
| "put_hex (Suc n) v buffer = put_hex n (drop_bit 4 v) (buffer[n + 2 := hex_digit (unat (v AND 0xF))])"

definition terminal_print_hex :: "u32 \<Rightarrow> u8 list" where
  "terminal_print_hex v = put_hex 8 v (cstr_lit ''0x00000000'')"

section \<open>Well-typed calls\<close>

datatype vtype = TNum | TStr

fun type_of_arg :: "varg \<Rightarrow> vtype" where
  "type_of_arg (Num n) = TNum"
| "type_of_arg (Str s) = TStr"

text \<open>The types of the arguments that a format asks for. After an unknown conversion nothing is read any more.\<close>

definition conversion_type :: "cstr \<Rightarrow> (vtype \<times> cstr) option" where
  "conversion_type f =
     (case snd (parse_width 0 (snd (parse_flags False f))) of
        [] \<Rightarrow> None
      | c # rest \<Rightarrow> if c \<in> {99, 100, 120} then Some (TNum, rest) else if c = 115 then Some (TStr, rest) else None)"

lemma conversion_type_shorter: "conversion_type f = Some (t, rest) \<Longrightarrow> length rest < length f"
  using length_parse_flags [of False f] length_parse_width [of 0 "snd (parse_flags False f)"]
  by (auto simp: conversion_type_def split: list.splits if_splits)

function format_types :: "cstr \<Rightarrow> vtype list" where
  "format_types [] = []"
| "format_types (c # f) =
     (if c \<noteq> percent \<or> (f \<noteq> [] \<and> hd f = percent)
      then (let g = (if c = percent then f else c # f) in format_types (drop (amount g) g))
      else (case conversion_type f of None \<Rightarrow> [] | Some (t, rest) \<Rightarrow> t # format_types rest))"
  by pat_completeness auto

termination
  by (relation "measure length") (auto simp: amount_def dest: conversion_type_shorter)

lemma length_dec_digits: "n < 10 ^ k \<Longrightarrow> length (dec_digits n) \<le> k"
proof (induction k arbitrary: n)
  case 0
  then show ?case by (simp add: dec_digits.simps)
next
  case (Suc k)
  have "n div 10 < 10 ^ k" if "0 < n" using Suc.prems by (simp add: div_less_iff_less_mult)
  then show ?case using Suc.IH [of "n div 10"] by (simp add: dec_digits.simps [of n])
qed

lemma length_hex_digits: "n < 16 ^ k \<Longrightarrow> length (hex_digits n) \<le> k"
proof (induction k arbitrary: n)
  case 0
  then show ?case by (simp add: hex_digits.simps)
next
  case (Suc k)
  have "n div 16 < 16 ^ k" using Suc.prems by (simp add: div_less_iff_less_mult mult.commute)
  then show ?case using Suc.IH [of "n div 16"] by (simp add: hex_digits.simps [of n])
qed

text \<open>The digit buffers are large enough.\<close>

lemma print_d_defined: "\<exists>bs. print_d z w n = Some bs"
proof -
  have "length (dec_digits (sint m)) \<le> 10" for m :: u32
    using sint_lt [of m] by (intro length_dec_digits) simp
  from this [of n] this [of "- n"] show ?thesis by (auto simp: print_d_def Let_def)
qed

lemma print_x_defined: "\<exists>bs. print_x n = Some bs"
proof -
  have "length (hex_digits (unat n)) \<le> 8" using unat_u32_bound [of n] by (intro length_hex_digits) simp
  then show ?thesis by (auto simp: print_x_def Let_def)
qed

lemma conversion_typed:
  "conversion_type f = Some (t, rest) \<Longrightarrow> type_of_arg a = t \<Longrightarrow>
    conversion f (a # as) m = Some (Inl ()) \<or> (\<exists>bs. conversion f (a # as) m = Some (Inr (bs, rest, as)))"
  using print_d_defined print_x_defined
  by (cases a) (fastforce simp: conversion_type_def conversion_def convert_def Let_def split: prod.splits list.splits if_splits)+

lemma conversion_unknown:
  "conversion_type f = None \<Longrightarrow> conversion f as m = Some (Inl ()) \<or> conversion f as m = Some (Inr (percent # f, [], as))"
  by (fastforce simp: conversion_type_def conversion_def convert_def Let_def split: prod.splits list.splits if_splits)

lemma take_amount: "f \<noteq> [] \<Longrightarrow> length (take (amount f) f) = amount f"
  by (cases f) (simp_all add: amount_def length_takeWhile_le)

lemma printf_loop_typed:
  "map type_of_arg args = format_types f @ extra \<Longrightarrow> w = int (length out) \<Longrightarrow>
    \<exists>n out'. printf_loop f args w out = Some (n, out') \<and> (n = -1 \<or> n = int (length out'))"
proof (induction f args w out rule: printf_loop.induct)
  case (2 c f args w out)
  let ?m = "INT_MAX - w"
  show ?case
  proof (cases "c \<noteq> percent \<or> (f \<noteq> [] \<and> hd f = percent)")
    case True
    define g where "g = (if c = percent then f else c # f)"
    have "g \<noteq> []" using True by (auto simp: g_def)
    then show ?thesis using 2(1) [OF True g_def] 2(3,4) True take_amount [of g] by (auto simp: Let_def simp flip: g_def)
  next
    case False
    show ?thesis
    proof (cases "conversion_type f")
      case None
      then show ?thesis using conversion_unknown [OF None, of args ?m] False 2(4) by auto
    next
      case (Some p)
      obtain t rest where p: "p = (t, rest)" by (cases p)
      obtain a as where a: "args = a # as" "type_of_arg a = t" "map type_of_arg as = format_types rest @ extra"
        using 2(3) False Some p by (cases args) auto
      from conversion_typed [OF Some [unfolded p] a(2), of as ?m] show ?thesis
        using 2(2) [OF False] 2(4) False a by auto
    qed
  qed
qed simp



section \<open>Reading decimal numbers back\<close>

definition dec_value :: "u8 list \<Rightarrow> int" where
  "dec_value bs = foldl (\<lambda>v b. v * 10 + (uint b - 48)) 0 bs"

definition read_dec :: "u8 list \<Rightarrow> int" where
  "read_dec bs = (if bs \<noteq> [] \<and> hd bs = 45 then - dec_value (tl bs) else dec_value bs)"

lemma dec_digit: "0 \<le> d \<Longrightarrow> d < 10 \<Longrightarrow> uint (48 + of_int d :: u8) = 48 + d"
  by (simp add: uint_word_ariths word_of_int_inverse unsigned_of_int take_bit_int_eq_self)

lemma dec_digits_value: "0 \<le> n \<Longrightarrow> dec_value (rev (dec_digits n)) = n"
proof (induction n rule: dec_digits.induct)
  case (1 n)
  show ?case
  proof (cases "0 < n")
    case True
    then have "dec_value (rev (dec_digits (n div 10))) = n div 10" using 1 by (simp add: pos_imp_zdiv_nonneg_iff)
    then show ?thesis using True dec_digit [of "n mod 10"] by (simp add: dec_digits.simps [of n] dec_value_def)
  qed (use 1 in \<open>simp add: dec_digits.simps dec_value_def\<close>)
qed

lemma dec_digits_no_sign: "b \<in> set (dec_digits n) \<Longrightarrow> b \<noteq> 45"
proof (induction n rule: dec_digits.induct)
  case (1 n)
  have num_uint: "uint (45 :: u8) = 45" by simp
  have "uint (48 + of_int (n mod 10) :: u8) = 48 + n mod 10" by (rule dec_digit) simp_all
  then have "uint (48 + of_int (n mod 10) :: u8) \<noteq> 45" by (simp add: add_nonneg_eq_0_iff)
  then have "48 + of_int (n mod 10) \<noteq> (45 :: u8)" by (rule contrapos_nn) (simp only: num_uint)
  then show ?case using 1 by (auto simp: dec_digits.simps [of n] split: if_splits)
qed

lemma dec_value_zeros: "dec_value (replicate k 48 @ bs) = dec_value bs"
  by (induction k) (simp_all add: dec_value_def)

lemma sint_neg: "v \<noteq> 0x80000000 \<Longrightarrow> sint (- v) = - sint (v :: u32)"
proof -
  assume v: "v \<noteq> 0x80000000"
  have "sint v \<noteq> - 2147483648"
  proof
    assume "sint v = - 2147483648"
    then have "sint v = sint (0x80000000 :: u32)" by simp
    then show False using v signed_word_eqI by blast
  qed
  then show ?thesis using sint_lt [of v] sint_ge [of v] by (simp add: sint_word_ariths signed_take_bit_int_eq_self)
qed

lemma print_d_value:
  assumes "v \<noteq> 0x80000000" "zero_pad \<or> width = 0" "print_d zero_pad width v = Some out"
  shows "read_dec out = sint v"
proof -
  define num where "num = (if sint v < 0 then sint (- v) else sint v)"
  define buf where "buf = (if num = 0 then [48] else dec_digits num)"
  have num: "0 \<le> num" "sint v = (if sint v < 0 then - num else num)" using sint_neg [OF assms(1)] by (auto simp: num_def)
  have val: "dec_value (rev buf) = num" using dec_digits_value [OF num(1)] by (auto simp: buf_def dec_value_def)
  have "b \<noteq> 45" if "b \<in> set (rev buf)" for b using that dec_digits_no_sign [of b num] by (auto simp: buf_def split: if_splits)
  then have hd: "replicate k 48 @ rev buf \<noteq> [] \<Longrightarrow> hd (replicate k 48 @ rev buf) \<noteq> 45" for k
    using hd_in_set [of "rev buf"] by (cases k) (auto simp: hd_append)
  define pad where "pad = nat (width - (int (length buf) + (if sint v < 0 then 1 else 0)))"
  have "out = (if sint v < 0 then [45] else []) @ replicate pad (if zero_pad then 48 else 32) @ rev buf"
    using assms(3) unfolding print_d_def Let_def num_def [symmetric] buf_def [symmetric] pad_def by (simp split: if_splits)
  moreover have "pad = 0" if "\<not> zero_pad" using that assms(2) by (simp add: pad_def)
  ultimately obtain k where "out = (if sint v < 0 then [45] else []) @ replicate k 48 @ rev buf" by (cases zero_pad) auto
  then show ?thesis using num(2) val hd [of k] dec_value_zeros [of k "rev buf"] by (auto simp: read_dec_def)
qed

lemma printf_d: "printf (cstr_lit ''%d'') [Num v] = map_option (\<lambda>bs. (int (length bs), bs)) (print_d False 0 v)"
  by (simp add: printf_def cstr_lit_def conversion_def convert_def option.map_comp comp_def split: option.split)

text \<open>
  C36: printing a number and reading it gives the number back. \<^verbatim>\<open>%d\<close> prints every 32-bit number except
  the smallest so that its sign and digits denote it, and padding with zeros to any width does
  not change that; the smallest number is printed as a lone minus sign.
\<close>

theorem printf_decimal_roundtrip:
  "(\<exists>n out. printf (cstr_lit ''%d'') [Num v] = Some (n, out) \<and> n = int (length out) \<and>
     (if v = 0x80000000 then out = [45] else read_dec out = sint v)) \<and>
   (v \<noteq> 0x80000000 \<longrightarrow> (\<exists>out. print_d True width v = Some out \<and> read_dec out = sint v))"
proof (intro conjI impI)
  obtain out where out: "print_d False 0 v = Some out" using print_d_defined by blast
  have "out = [45]" if "v = 0x80000000" using out that by (simp add: print_d_def Let_def dec_digits.simps)
  then show "\<exists>n out. printf (cstr_lit ''%d'') [Num v] = Some (n, out) \<and> n = int (length out) \<and>
     (if v = 0x80000000 then out = [45] else read_dec out = sint v)"
    using out print_d_value [of v False 0 out] by (simp add: printf_d)
  assume "v \<noteq> 0x80000000"
  then show "\<exists>out. print_d True width v = Some out \<and> read_dec out = sint v"
    using print_d_defined [of True width v] print_d_value [of v True width] by blast
qed

theorem printf_decimal_roundtrip_witness:
  "(- 42 :: u32) \<noteq> 0x80000000 \<and> (\<exists>out. print_d True 5 (- 42) = Some out \<and> read_dec out = - 42)"
  using printf_decimal_roundtrip [of "- 42" 5] by simp

section \<open>Sequences of calls\<close>

text \<open>A function that only prints is the list of its calls in order, and \<open>emit\<close> runs them.\<close>

type_synonym calls = "(cstr \<times> varg list) list"

definition line :: "string \<Rightarrow> varg list \<Rightarrow> cstr \<times> varg list" where
  "line s args = (cstr_lit s @ [10], args)"

definition part :: "string \<Rightarrow> varg list \<Rightarrow> cstr \<times> varg list" where
  "part s args = (cstr_lit s, args)"

fun emit :: "calls \<Rightarrow> u8 list option" where
  "emit [] = Some []"
| "emit ((f, args) # cs) =
     (case (printf f args, emit cs) of (Some (n, out), Some rest) \<Rightarrow> Some (out @ rest) | _ \<Rightarrow> None)"

text \<open>A call whose arguments begin with what the format asks for.\<close>

definition call_ok :: "cstr \<times> varg list \<Rightarrow> bool" where
  "call_ok c \<longleftrightarrow> take (length (format_types (fst c))) (map type_of_arg (snd c)) = format_types (fst c)"

lemma emit_defined: "list_all call_ok cs \<Longrightarrow> \<exists>out. emit cs = Some out"
proof (induction cs rule: emit.induct)
  case (2 f args cs)
  then have "map type_of_arg args = format_types f @ drop (length (format_types f)) (map type_of_arg args)"
    using append_take_drop_id [of "length (format_types f)" "map type_of_arg args"] by (simp add: call_ok_def)
  from printf_loop_typed [OF this, of 0 "[]"] 2 show ?case by (auto simp: printf_def)
qed simp

lemma format_types_skip: "c \<noteq> percent \<Longrightarrow> format_types (c # f) = format_types f"
  by (cases f) (auto simp: amount_def Let_def)

declare format_types.simps(2) [simp del]

lemma format_types_percent:
  "format_types (percent # 120 # f) = TNum # format_types f" "format_types (percent # 100 # f) = TNum # format_types f"
  "format_types (percent # 115 # f) = TStr # format_types f"
  by (simp_all add: format_types.simps(2) conversion_type_def)

lemmas calls_simps = call_ok_def line_def part_def cstr_lit_def format_types_skip format_types_percent

end
