(* ===== verification/Panic.thy ===== *)
theory Panic
  imports Printf Task
begin

text \<open>
  The report of a kernel panic (\<^verbatim>\<open>kernel/panic.c\<close>). A function that prints is the list of its calls of
  \<^verbatim>\<open>printf\<close> in order, which \<open>emit\<close> runs. Memory is a function from addresses to bytes; the two
  control registers \<^verbatim>\<open>CR2\<close> and \<^verbatim>\<open>CR3\<close> are arguments. The colour set for the heading, which only the unused text mode
  has, and halting the processor at the end are left out.
\<close>

section \<open>Registers\<close>

definition exception_names :: "cstr list" where
  "exception_names = map cstr_lit
     ([''Division By Zero'', ''Debug'', ''Non Maskable Interrupt'', ''Breakpoint'', ''Overflow'', ''Bound Range Exceeded'',
       ''Invalid Opcode'', ''Device Not Available'', ''Double Fault'', ''Coprocessor Segment Overrun'', ''Invalid TSS'',
       ''Segment Not Present'', ''Stack-Segment Fault'', ''General Protection Fault'', ''Page Fault'', ''Reserved'',
       ''x87 Floating-Point Exception'', ''Alignment Check'', ''Machine Check'', ''SIMD Floating-Point Exception'',
       ''Virtualization Exception'', ''Control Protection Exception''] @ replicate 10 ''Reserved'')"

definition panic_dump_registers :: "u32 \<Rightarrow> u32 \<Rightarrow> registers \<Rightarrow> calls" where
  "panic_dump_registers fault_addr page_dir regs =
     [line ''\<newline>--- CPU Registers ---'' [],
      line ''  EAX=0x%x  EBX=0x%x  ECX=0x%x  EDX=0x%x'' [Num (r_eax regs), Num (r_ebx regs), Num (r_ecx regs), Num (r_edx regs)],
      line ''  ESI=0x%x  EDI=0x%x  EBP=0x%x  ESP=0x%x'' [Num (r_esi regs), Num (r_edi regs), Num (r_ebp regs), Num (r_esp_dummy regs)],
      line ''  EIP=0x%x  CS=0x%x   DS=0x%x   SS=0x%x'' [Num (r_eip regs), Num (r_cs regs), Num (r_ds regs), Num (r_ss regs)],
      line ''  EFLAGS=0x%x'' [Num (r_eflags regs)],
      line ''  CR2=0x%x (page fault addr)'' [Num fault_addr],
      line ''  CR3=0x%x (page directory)'' [Num page_dir]]"

section \<open>Stack trace\<close>

definition peek32 :: "(u32 \<Rightarrow> u8) \<Rightarrow> u32 \<Rightarrow> u32" where
  "peek32 mem a = un_le32 [mem a, mem (a + 1), mem (a + 2), mem (a + 3)]"

text \<open>The walk along the saved frame pointers; \<open>n\<close> frames are left of the sixteen.\<close>

fun trace_loop :: "(u32 \<Rightarrow> u8) \<Rightarrow> nat \<Rightarrow> u32 \<Rightarrow> u32 \<Rightarrow> calls" where
  "trace_loop mem 0 frame ebp = [line ''    ... (truncated at %d frames)'' [Num 16]]"
| "trace_loop mem (Suc n) frame ebp =
     (if ebp = 0 then []
      else if ebp < 0xC0000000 \<or> ebp \<ge> 0xFFC00000 then [line ''    #%d <invalid frame at 0x%x>'' [Num frame, Num ebp]]
      else let return_addr = peek32 mem (ebp + 4); prev_ebp = peek32 mem ebp
           in line ''    #%d 0x%x'' [Num frame, Num return_addr] #
              (if prev_ebp = 0 then [] else trace_loop mem n (frame + 1) prev_ebp))"

text \<open>\<open>own\<close> is the frame pointer of the running function, which the walk starts from without saved registers.\<close>

definition panic_stack_trace :: "(u32 \<Rightarrow> u8) \<Rightarrow> u32 \<Rightarrow> registers option \<Rightarrow> calls" where
  "panic_stack_trace mem own regs =
     [line ''\<newline>--- Stack trace ---'' []] @
     trace_loop mem 16 0 (case regs of Some r \<Rightarrow> r_ebp r | None \<Rightarrow> own)"

section \<open>Panic\<close>

definition decode_page_fault :: "u32 \<Rightarrow> calls" where
  "decode_page_fault err_code =
     [part ''    Cause:  '' [],
      part ''%s, '' [Str (if bit err_code 0 then cstr_lit ''protection violation'' else cstr_lit ''page not present'')],
      part ''%s, '' [Str (if bit err_code 1 then cstr_lit ''write'' else cstr_lit ''read'')],
      part ''%s'' [Str (if bit err_code 2 then cstr_lit ''user mode'' else cstr_lit ''kernel mode'')]] @
     (if bit err_code 3 then [part '', reserved bit set'' []] else []) @
     (if bit err_code 4 then [part '', instruction fetch'' []] else []) @
     [line '''' []]"

definition panic_heading :: calls where
  "panic_heading =
     [line '''' [],
      line ''========================================='' [],
      line ''            KERNEL PANIC                 '' [],
      line ''========================================='' []]"

definition panic_from_exception :: "(u32 \<Rightarrow> u8) \<Rightarrow> u32 \<Rightarrow> u32 \<Rightarrow> u32 \<Rightarrow> registers \<Rightarrow> calls" where
  "panic_from_exception mem fault_addr page_dir own regs =
     panic_heading @
     [if r_int_no regs < 32
      then line ''Exception: %s (int %d)'' [Str (exception_names ! unat (r_int_no regs)), Num (r_int_no regs)]
      else line ''Exception: Unknown (int %d)'' [Num (r_int_no regs)],
      line ''Error code: 0x%x'' [Num (r_err_code regs)]] @
     (if r_int_no regs = 14 then decode_page_fault (r_err_code regs) else []) @
     panic_dump_registers fault_addr page_dir regs @ panic_stack_trace mem own (Some regs) @
     [line ''\<newline>System halted.'' []]"

text \<open>What \<^verbatim>\<open>panic\<close> prints before it enters the debugger.\<close>

definition panic :: "(u32 \<Rightarrow> u8) \<Rightarrow> u32 \<Rightarrow> cstr \<Rightarrow> cstr \<Rightarrow> u32 \<Rightarrow> calls" where
  "panic mem own msg file line_no =
     panic_heading @
     [line ''Message:  %s'' [Str msg], line ''Location: %s:%d'' [Str file, Num line_no]] @
     panic_stack_trace mem own None"

section \<open>The report is always printed\<close>

lemma trace_loop_ok: "list_all call_ok (trace_loop mem n frame ebp)"
  by (induction n arbitrary: frame ebp) (simp_all add: Let_def calls_simps)

lemma panic_stack_trace_ok: "list_all call_ok (panic_stack_trace mem own regs)"
  using trace_loop_ok by (simp add: panic_stack_trace_def calls_simps)

lemma panic_dump_registers_ok: "list_all call_ok (panic_dump_registers fault_addr page_dir regs)"
  by (simp add: panic_dump_registers_def calls_simps)

lemma panic_from_exception_ok: "list_all call_ok (panic_from_exception mem fault_addr page_dir own regs)"
  using panic_stack_trace_ok panic_dump_registers_ok
  by (simp add: panic_from_exception_def panic_heading_def decode_page_fault_def calls_simps)

lemma panic_ok: "list_all call_ok (panic mem own msg file line_no)"
  using panic_stack_trace_ok by (simp add: panic_def panic_heading_def calls_simps)

lemma trace_loop_kernel_only:
  "\<forall>a. 0xC0000000 \<le> a \<and> a < 0xFFC00007 \<longrightarrow> mem' a = mem a \<Longrightarrow> trace_loop mem' n frame ebp = trace_loop mem n frame ebp"
proof (induction n arbitrary: frame ebp)
  case (Suc n)
  have "mem' (ebp + of_nat i) = mem (ebp + of_nat i)" if "0xC0000000 \<le> ebp" "ebp < 0xFFC00000" "i < 8" for i
  proof -
    have "unat (of_nat i :: u32) = i" using that by (simp add: unsigned_of_nat take_bit_nat_eq_self)
    then have "unat (ebp + of_nat i) = unat ebp + i" using that by (subst unat_add_lem [THEN iffD1]) (simp_all add: word_less_nat_alt)
    then show ?thesis using Suc.prems that by (simp add: word_less_nat_alt word_le_nat_alt)
  qed
  note b = this
  have same: "peek32 mem' ebp = peek32 mem ebp \<and> peek32 mem' (ebp + 4) = peek32 mem (ebp + 4)"
    if "0xC0000000 \<le> ebp" "ebp < 0xFFC00000"
    using b [OF that, of 0] b [OF that, of 1] b [OF that, of 2] b [OF that, of 3] b [OF that, of 4] b [OF that, of 5]
      b [OF that, of 6] b [OF that, of 7]
    by (simp add: peek32_def add.assoc)
  show ?case
  proof (cases "ebp < 0xC0000000 \<or> ebp \<ge> 0xFFC00000")
    case False
    then have "peek32 mem' ebp = peek32 mem ebp" "peek32 mem' (ebp + 4) = peek32 mem (ebp + 4)" using same by (simp_all add: not_le not_less)
    then show ?thesis using Suc by (simp add: Let_def)
  qed simp
qed simp

lemma length_trace_loop: "length (trace_loop mem n frame ebp) \<le> Suc n"
  by (induction n arbitrary: frame ebp) (auto simp: Let_def)



end
