(* ===== verification/Debugger.thy ===== *)
theory Debugger
  imports Panic Scheduler
begin

text \<open>
  The kernel debugger (\<^verbatim>\<open>kernel/debugger.c\<close>) with the tables it prints (\<^verbatim>\<open>scheduler_print_tasks\<close>,
  \<^verbatim>\<open>heap_print_stats\<close>). As in \<open>Panic\<close>, output is the list of the calls of \<^verbatim>\<open>printf\<close>; the lines
  that \<^verbatim>\<open>keyboard_readline\<close> reads are a list. \<open>None\<close> is a walk along the tasks or the blocks of the heap
  that does not end.
\<close>

section \<open>Parsing\<close>

definition hex_value :: "u8 \<Rightarrow> u32 option" where
  "hex_value c =
     (if 48 \<le> c \<and> c \<le> 57 then Some (ucast c - 48)
      else if 97 \<le> c \<and> c \<le> 102 then Some (ucast c - 97 + 10)
      else if 65 \<le> c \<and> c \<le> 70 then Some (ucast c - 65 + 10)
      else None)"

fun parse_hex_loop :: "u32 \<Rightarrow> cstr \<Rightarrow> u32" where
  "parse_hex_loop result [] = result"
| "parse_hex_loop result (c # s) =
     (case hex_value c of None \<Rightarrow> result | Some digit \<Rightarrow> parse_hex_loop (push_bit 4 result OR digit) s)"

definition parse_hex :: "cstr \<Rightarrow> u32" where
  "parse_hex s =
     parse_hex_loop 0 (if length s \<ge> 2 \<and> s ! 0 = 48 \<and> (s ! 1 = 120 \<or> s ! 1 = 88) then drop 2 s else s)"

definition skip_word :: "cstr \<Rightarrow> cstr" where
  "skip_word s = dropWhile (\<lambda>c. c = 32 \<or> c = 9) (dropWhile (\<lambda>c. c \<noteq> 32 \<and> c \<noteq> 9) s)"

fun cmd_matches :: "cstr \<Rightarrow> cstr \<Rightarrow> bool" where
  "cmd_matches cmd [] = (cmd = [] \<or> hd cmd = 32 \<or> hd cmd = 9)"
| "cmd_matches [] (p # ps) = False"
| "cmd_matches (c # cs) (p # ps) = (c = p \<and> cmd_matches cs ps)"

section \<open>Commands\<close>

definition cmd_help :: calls where
  "cmd_help =
     [line ''Commands:'' [],
      line ''  help              - show this message'' [],
      line ''  regs              - dump CPU registers (if available)'' [],
      line ''  trace             - print stack trace'' [],
      line ''  tasks             - list all tasks'' [],
      line ''  mem               - show memory stats (heap, PMM)'' [],
      line ''  peek <addr>       - read 4 bytes at address (hex)'' [],
      line ''  dump <addr> <n>   - dump n bytes starting at address'' [],
      line ''  cont              - exit debugger and continue'' [],
      line ''  halt              - halt the system'' []]"

text \<open>The value is passed to \<^verbatim>\<open>printf\<close>, but the format has room only for the address.\<close>

definition cmd_peek :: "(u32 \<Rightarrow> u8) \<Rightarrow> cstr \<Rightarrow> calls" where
  "cmd_peek mem args =
     (let addr = parse_hex args in
      if addr = 0 then [line ''Usage: peek <hex_address>'' []]
      else let addr = addr AND NOT 3; v = peek32 mem addr in [line ''0x%x'' [Num addr, Num v]])"

text \<open>One line for each sixteen bytes.\<close>

function dump_lines :: "(u32 \<Rightarrow> u8) \<Rightarrow> u32 \<Rightarrow> nat \<Rightarrow> nat \<Rightarrow> calls" where
  "dump_lines mem ptr off cnt =
     (if off < cnt then
        [part ''0x%x: '' [Num (ptr + of_nat off)]] @
        map (\<lambda>i. part ''%x '' [Num (ucast (mem (ptr + of_nat (off + i))))]) [0..<min 16 (cnt - off)] @
        [line '''' []] @ dump_lines mem ptr (off + 16) cnt
      else [])"
  by pat_completeness auto

termination
  by (relation "measure (\<lambda>(_, _, off, cnt). cnt - off)") auto

declare dump_lines.simps [simp del]

definition cmd_dump :: "(u32 \<Rightarrow> u8) \<Rightarrow> cstr \<Rightarrow> calls" where
  "cmd_dump mem args =
     (let addr = parse_hex args;
          cnt = parse_hex (skip_word args)
      in if addr = 0 \<or> cnt = 0 then [line ''Usage: dump <hex_address> <hex_count>'' []]
         else let cnt = (if cnt > 256 then 256 else cnt)
              in dump_lines mem (addr AND NOT 0xF) 0 (unat cnt))"

definition heap_report :: "heap \<Rightarrow> heap_stats \<Rightarrow> calls" where
  "heap_report h s =
     [line ''\<newline>=== Kernel Heap ==='' [],
      line ''  Range: 0x%x - 0x%x (%d KB mapped)'' [Num (heap_start h), Num (heap_end h), Num ((heap_end h - heap_start h) div 1024)],
      line ''  Blocks: %d total, %d used, %d free'' [Num (total_blocks s), Num (used_blocks s), Num (free_blocks s)],
      line ''  Used:  %d bytes'' [Num (used_bytes s)],
      line ''  Free:  %d bytes'' [Num (free_bytes s)],
      line ''  Overhead: %d bytes (%d headers)'' [Num (total_blocks s * HEADER_SIZE), Num (total_blocks s)],
      line ''  Allocs: %d, Frees: %d'' [Num (total_allocs h), Num (total_frees h)],
      line '''' []]"

definition cmd_mem :: "kernel \<Rightarrow> calls option" where
  "cmd_mem k =
     (let h = kheap (vfs k); p = pmm_state (mach h) in
      map_option (\<lambda>s. heap_report h s @
        [line ''PMM: %d / %d pages free'' [Num (pmm_get_free_page_count p), Num (pmm_get_total_page_count p)]])
        (heap_print_stats h))"

fun state_str :: "task_state \<Rightarrow> cstr" where
  "state_str TASK_RUNNING = cstr_lit ''RUNNING''"
| "state_str TASK_READY = cstr_lit ''READY''"
| "state_str TASK_BLOCKED = cstr_lit ''BLOCKED''"
| "state_str TASK_SLEEPING = cstr_lit ''SLEEPING''"
| "state_str TASK_TERMINATED = cstr_lit ''TERMINATED''"

definition task_line :: "task \<Rightarrow> cstr \<times> varg list" where
  "task_line t = line ''    [%d] %s - %s (priority=%d, esp=0x%x, pd=0x%x)''
     [Num (tid t), Str (tname t), Str (state_str (state t)), Num (priority t), Num (esp t), Num (page_directory t)]"

partial_function (option) print_tasks_loop :: "kernel \<Rightarrow> u32 \<Rightarrow> calls option" where
  "print_tasks_loop k t =
     (if tnext (tasks k t) = task_list k then Some [task_line (tasks k t)]
      else Option.bind (print_tasks_loop k (tnext (tasks k t))) (\<lambda>cs. Some (task_line (tasks k t) # cs)))"

declare print_tasks_loop.simps [code]

definition scheduler_print_tasks :: "kernel \<Rightarrow> calls option" where
  "scheduler_print_tasks k =
     (if task_list k = 0 then Some [line ''\<newline> === TASKS ==='' [], line ''    (none)'' []]
      else map_option (\<lambda>cs. [line ''\<newline> === TASKS ==='' []] @ cs @ [line '''' []]) (print_tasks_loop k (task_list k)))"

section \<open>The command loop\<close>

text \<open>The processor state the debugger looks at: memory, \<^verbatim>\<open>CR2\<close>, \<^verbatim>\<open>CR3\<close> and the own frame pointer.\<close>

record cpu_view =
  v_mem :: "u32 \<Rightarrow> u8"
  v_cr2 :: u32
  v_cr3 :: u32
  v_ebp :: u32

datatype debug_next = Go_on | Leave | Halt

definition debugger_command :: "cpu_view \<Rightarrow> kernel \<Rightarrow> registers option \<Rightarrow> cstr \<Rightarrow> (calls \<times> debug_next) option" where
  "debugger_command v k regs buf =
     (let go = map_option (\<lambda>cs. (cs, Go_on)) in
      if buf = [] then Some ([], Go_on)
      else if cmd_matches buf (cstr_lit ''help'') then go (Some cmd_help)
      else if cmd_matches buf (cstr_lit ''regs'') then
        go (Some (case regs of
                    Some r \<Rightarrow> panic_dump_registers (v_cr2 v) (v_cr3 v) r
                  | None \<Rightarrow> [line ''(no saved register state available)'' []]))
      else if cmd_matches buf (cstr_lit ''trace'') then go (Some (panic_stack_trace (v_mem v) (v_ebp v) regs))
      else if cmd_matches buf (cstr_lit ''tasks'') then go (scheduler_print_tasks k)
      else if cmd_matches buf (cstr_lit ''mem'') then go (cmd_mem k)
      else if cmd_matches buf (cstr_lit ''peek'') then go (Some (cmd_peek (v_mem v) (skip_word buf)))
      else if cmd_matches buf (cstr_lit ''dump'') then go (Some (cmd_dump (v_mem v) (skip_word buf)))
      else if cmd_matches buf (cstr_lit ''cont'') then Some ([line ''Continuing.'' []], Leave)
      else if cmd_matches buf (cstr_lit ''halt'') then Some ([line ''Halting.'' []], Halt)
      else go (Some [line (''Unknown command. Type '' @ [CHR 0x27] @ ''help'' @ [CHR 0x27] @ ''.'') []]))"

text \<open>\<open>Go_on\<close> at the end of the lines is waiting for the next one.\<close>

fun debugger_loop :: "cpu_view \<Rightarrow> kernel \<Rightarrow> registers option \<Rightarrow> cstr list \<Rightarrow> (calls \<times> debug_next) option" where
  "debugger_loop v k regs [] = Some ([part ''(db )'' []], Go_on)"
| "debugger_loop v k regs (buf # bufs) =
     (case debugger_command v k regs buf of
        None \<Rightarrow> None
      | Some (cs, e) \<Rightarrow>
          if e = Go_on then map_option (\<lambda>(ds, e). (part ''(db )'' [] # cs @ ds, e)) (debugger_loop v k regs bufs)
          else Some (part ''(db )'' [] # cs, e))"

definition debugger_enter :: "cpu_view \<Rightarrow> kernel \<Rightarrow> registers option \<Rightarrow> cstr list \<Rightarrow> (calls \<times> debug_next) option" where
  "debugger_enter v k regs bufs =
     map_option (\<lambda>(cs, e).
       ([line ''\<newline>--- Kernel debugger ---'' [], line (''Type '' @ [CHR 0x27] @ ''help'' @ [CHR 0x27] @ '' for commands'') []] @ cs, e))
       (debugger_loop v k regs bufs)"

definition breakpoint_handler :: "cpu_view \<Rightarrow> kernel \<Rightarrow> registers \<Rightarrow> cstr list \<Rightarrow> (calls \<times> debug_next) option" where
  "breakpoint_handler v k regs bufs =
     map_option (\<lambda>(cs, e). ([line ''\<newline>--- Breakpoint ---'' [], line ''Hit at EIP0x%x'' [Num (r_eip regs)]] @ cs, e))
       (debugger_enter v k (Some regs) bufs)"

section \<open>The debugger survives what is typed\<close>

lemma heap_stats_loop_ends:
  "seg (blk h) e p bs 0 \<Longrightarrow> \<exists>s'. heap_stats_loop h (hd (bs @ [0])) s = Some s'"
proof (induction bs arbitrary: p s)
  case Nil
  then show ?case by (simp add: heap_stats_loop.simps)
next
  case (Cons b bs)
  then show ?case by (subst heap_stats_loop.simps) (auto simp: Let_def)
qed

lemma print_tasks_chain:
  "chain (nexts k) ts (task_list k) \<Longrightarrow> ts \<noteq> [] \<Longrightarrow> task_list k \<notin> set (tl ts) \<Longrightarrow>
    print_tasks_loop k (hd ts) = Some (map (task_line \<circ> tasks k) ts)"
proof (induction ts rule: induct_list012)
  case (3 x y zs)
  then show ?case by (subst print_tasks_loop.simps) auto
qed (simp_all add: print_tasks_loop.simps)

lemma messages_ok:
  "call_ok (part ''%x '' [Num a])" "call_ok (part ''0x%x: '' [Num a])" "call_ok (line [] [])" "call_ok (part ''(db )'' [])"
  "call_ok (line ''\<newline> === TASKS ==='' [])" "call_ok (line ''    (none)'' [])" "call_ok (line ''(no saved register state available)'' [])"
  "call_ok (line ''Continuing.'' [])" "call_ok (line ''Halting.'' [])"
  "call_ok (line (''Unknown command. Type '' @ [CHR 0x27] @ ''help'' @ [CHR 0x27] @ ''.'') [])"
  "call_ok (line ''PMM: %d / %d pages free'' [Num a, Num b])"
  by (simp_all add: calls_simps)

lemma dump_lines_ok: "list_all call_ok (dump_lines mem ptr off cnt)"
proof (induction mem ptr off cnt rule: dump_lines.induct)
  case (1 mem ptr off cnt)
  then show ?case by (subst dump_lines.simps) (simp add: messages_ok list.pred_map comp_def list.pred_True)
qed

lemma commands_ok:
  "list_all call_ok cmd_help" "list_all call_ok (cmd_peek mem args)" "list_all call_ok (cmd_dump mem args)"
  "list_all call_ok (heap_report h s)" "call_ok (task_line t)"
  using dump_lines_ok
  by (simp_all add: cmd_help_def cmd_peek_def cmd_dump_def heap_report_def task_line_def Let_def calls_simps)

definition lists_end :: "kernel \<Rightarrow> bool" where
  "lists_end k \<longleftrightarrow> (\<exists>cs. scheduler_print_tasks k = Some cs \<and> list_all call_ok cs) \<and> (\<exists>cs. cmd_mem k = Some cs \<and> list_all call_ok cs)"

lemma lists_end:
  assumes "ring k ts" "seg (blk (kheap (vfs k))) e 0 bs 0" "first_block (kheap (vfs k)) = hd (bs @ [0])"
  shows "lists_end k"
proof -
  obtain s where "heap_print_stats (kheap (vfs k)) = Some s"
    using heap_stats_loop_ends [OF assms(2)] assms(3) by (auto simp: heap_print_stats_def)
  then have mem: "\<exists>cs. cmd_mem k = Some cs \<and> list_all call_ok cs" using commands_ok by (simp add: cmd_mem_def Let_def messages_ok)
  have "task_list k \<notin> set (tl ts)" using assms(1) by (cases ts) (auto simp: ring_def)
  then have "print_tasks_loop k (task_list k) = Some (map (task_line \<circ> tasks k) ts)"
    using assms(1) print_tasks_chain [of k ts] by (auto simp: ring_def)
  then have "\<exists>cs. scheduler_print_tasks k = Some cs \<and> list_all call_ok cs"
    using commands_ok(5) by (simp add: scheduler_print_tasks_def messages_ok list_all_iff)
  then show ?thesis using mem by (simp add: lists_end_def)
qed

lemma debugger_command_ok:
  "lists_end k \<Longrightarrow> \<exists>cs e. debugger_command v k regs buf = Some (cs, e) \<and> list_all call_ok cs"
  using commands_ok panic_dump_registers_ok panic_stack_trace_ok messages_ok(10) [simplified]
  by (auto simp: debugger_command_def lists_end_def Let_def messages_ok split: option.split simp del: cmd_matches.simps)

lemma debugger_loop_ok:
  "lists_end k \<Longrightarrow> \<exists>cs e. debugger_loop v k regs bufs = Some (cs, e) \<and> list_all call_ok cs"
proof (induction bufs)
  case Nil
  then show ?case by (simp add: messages_ok)
next
  case (Cons buf bufs)
  obtain cs e where "debugger_command v k regs buf = Some (cs, e)" "list_all call_ok cs" using debugger_command_ok [OF Cons.prems] by blast
  moreover obtain ds e' where "debugger_loop v k regs bufs = Some (ds, e')" "list_all call_ok ds" using Cons by blast
  ultimately show ?case by (simp add: messages_ok)
qed



section \<open>Reading hexadecimal numbers back\<close>

lemma hex_value_digit: "d < 16 \<Longrightarrow> hex_value (hex_digit d) = Some (of_nat d)"
proof -
  have "list_all (\<lambda>d. hex_value (hex_digit d) = Some (of_nat d)) [0..<16]" by code_simp
  then show "d < 16 \<Longrightarrow> hex_value (hex_digit d) = Some (of_nat d)" by (simp add: list_all_iff)
qed

lemma append_digit: "d < 16 \<Longrightarrow> push_bit 4 a OR of_nat d = 16 * a + (of_nat d :: u32)"
proof -
  assume d: "d < 16"
  have "bit (of_nat d :: u32) n \<Longrightarrow> n < 4" for n
  proof -
    assume "bit (of_nat d :: u32) n"
    then have "bit d n" by (simp add: bit_simps)
    moreover have "take_bit 4 d = d" using d by (simp add: take_bit_nat_eq_self)
    ultimately show "n < 4" by (metis bit_take_bit_iff)
  qed
  then have "push_bit 4 a AND of_nat d = 0" by (intro bit_eqI) (metis bit_0_eq bit_and_iff bit_push_bit_iff bot_apply not_le bot_bool_def)
  then show ?thesis by (simp add: disjunctive_add_eq_or [symmetric] push_bit_eq_mult)
qed

lemma parse_append:
  "(\<forall>c \<in> set xs. hex_value c \<noteq> None) \<Longrightarrow> parse_hex_loop a (xs @ ys) = parse_hex_loop (parse_hex_loop a xs) ys"
  by (induction xs arbitrary: a) auto

lemma hex_digits_are_digits: "c \<in> set (hex_digits n) \<Longrightarrow> hex_value c \<noteq> None"
proof (induction n rule: hex_digits.induct)
  case (1 n)
  then show ?case by (auto simp: hex_digits.simps [of n] hex_value_digit split: if_splits)
qed

lemma parse_hex_digits: "parse_hex_loop 0 (rev (hex_digits n)) = of_nat n"
proof (induction n rule: hex_digits.induct)
  case (1 n)
  show ?case
  proof (cases "0 < n")
    case True
    have "parse_hex_loop 0 (rev (hex_digits n)) = 16 * of_nat (n div 16) + of_nat (n mod 16)"
      using 1 True hex_digits_are_digits by (simp add: hex_digits.simps [of n] parse_append hex_value_digit append_digit)
    also have "\<dots> = of_nat (16 * (n div 16) + n mod 16)" by (simp only: of_nat_add of_nat_mult of_nat_numeral)
    finally show ?thesis by simp
  qed (simp add: hex_digits.simps)
qed

lemma parse_hex_plain: "(\<forall>c \<in> set s. hex_value c \<noteq> None) \<Longrightarrow> parse_hex s = parse_hex_loop 0 s"
proof -
  assume a: "\<forall>c \<in> set s. hex_value c \<noteq> None"
  have "hex_value 120 = None" "hex_value 88 = None" by code_simp+
  then have "\<not> (length s \<ge> 2 \<and> (s ! 1 = 120 \<or> s ! 1 = 88))" using a nth_mem [of 1 s] by fastforce
  then show ?thesis by (auto simp: parse_hex_def)
qed

lemma parse_hex_prefix: "parse_hex (48 # 120 # s) = parse_hex_loop 0 s"
  by (simp add: parse_hex_def)

lemma print_x_digits:
  assumes "print_x v = Some out"
  shows "\<forall>c \<in> set out. hex_value c \<noteq> None" "parse_hex_loop 0 out = v"
proof -
  have "hex_value 48 = Some 0" by code_simp
  then show "\<forall>c \<in> set out. hex_value c \<noteq> None" "parse_hex_loop 0 out = v"
    using assms hex_digits_are_digits parse_hex_digits [of "unat v"] by (auto simp: print_x_def Let_def split: if_splits)
qed

text \<open>The eight digits of the terminal.\<close>

fun fixed_digits :: "nat \<Rightarrow> u32 \<Rightarrow> u8 list" where
  "fixed_digits 0 v = []"
| "fixed_digits (Suc n) v = fixed_digits n (drop_bit 4 v) @ [hex_digit (unat (v AND 0xF))]"

lemma put_hex_digits: "n + 2 \<le> length b \<Longrightarrow> put_hex n v b = take 2 b @ fixed_digits n v @ drop (n + 2) b"
proof (induction n arbitrary: v b)
  case (Suc n)
  have "drop (n + 2) (b[n + 2 := d]) = d # drop (Suc n + 2) b" for d
    using Suc.prems by (simp add: drop_update_swap flip: Cons_nth_drop_Suc)
  then show ?case using Suc by simp
qed (simp add: numeral_2_eq_2)

lemma low_digit: "unat (v AND 0xF :: u32) < 16"
proof -
  have "v AND 0xF = take_bit 4 v" by (simp add: take_bit_eq_mask mask_eq_exp_minus_1)
  then show ?thesis by (simp add: unsigned_take_bit_eq take_bit_eq_mod)
qed

lemma parse_fixed_digits:
  "(\<forall>c \<in> set (fixed_digits n v). hex_value c \<noteq> None) \<and> parse_hex_loop 0 (fixed_digits n v) = take_bit (4 * n) v"
proof (induction n arbitrary: v)
  case (Suc n)
  have m: "v AND 0xF = take_bit 4 v" by (simp add: take_bit_eq_mask mask_eq_exp_minus_1)
  have "push_bit 4 (take_bit (4 * n) (drop_bit 4 v)) OR take_bit 4 v = take_bit (4 * Suc n) v"
    by (intro bit_eqI) (auto simp: bit_simps)
  then show ?case using Suc [of "drop_bit 4 v"] low_digit [of v] by (simp add: parse_append hex_value_digit m)
qed simp

text \<open>
  Hexadecimal numbers survive printing and parsing. The debugger reads what \<^verbatim>\<open>printf\<close> prints
  for \<^verbatim>\<open>%x\<close>, with or without the prefix \<^verbatim>\<open>0x\<close>, and what the terminal prints with its eight digits,
  as the number that was printed.
\<close>

theorem hex_roundtrip:
  "(\<exists>out. printf (cstr_lit ''%x'') [Num v] = Some (int (length out), out) \<and> parse_hex out = v \<and> parse_hex (cstr_lit ''0x'' @ out) = v) \<and>
   parse_hex (terminal_print_hex v) = v"
proof (intro conjI)
  obtain out where out: "print_x v = Some out" using print_x_defined by blast
  have "printf (cstr_lit ''%x'') [Num v] = Some (int (length out), out)"
    by (simp add: printf_def cstr_lit_def conversion_def convert_def out)
  then show "\<exists>out. printf (cstr_lit ''%x'') [Num v] = Some (int (length out), out) \<and> parse_hex out = v \<and> parse_hex (cstr_lit ''0x'' @ out) = v"
    using print_x_digits [OF out] by (intro exI [where x = out]) (simp add: parse_hex_plain parse_hex_prefix cstr_lit_def)
  have "terminal_print_hex v = 48 # 120 # fixed_digits 8 v"
    unfolding terminal_print_hex_def by (subst put_hex_digits) (simp_all add: cstr_lit_def)
  then show "parse_hex (terminal_print_hex v) = v"
    using parse_fixed_digits [of 8 v] take_bit_length_eq [of v] by (simp add: parse_hex_prefix)
qed

end
