(* ===== verification/Pci.thy ===== *)
theory Pci
  imports Printf
begin

text \<open>
  The PCI bus (\<^verbatim>\<open>arch/i386/pci.c\<close>). The state is the address register behind port 0xCF8 and the
  configuration space it selects words of; a register holds what is written to it.
\<close>

section \<open>State\<close>

record pci_bus =
  config_address :: u32
  config_space :: "u32 \<Rightarrow> u32"

record pci_device =
  pci_where :: "u8 \<times> u8 \<times> u8"
  vendor_id :: u16
  device_id :: u16
  class_code :: u8
  sub_class :: u8
  prog_if :: u8
  bar :: "u32 list"
  pci_irq_line :: u8

abbreviation (input) PCI_VENDOR_ID :: u8 where "PCI_VENDOR_ID \<equiv> 0x00"
abbreviation (input) PCI_DEVICE_ID :: u8 where "PCI_DEVICE_ID \<equiv> 0x02"
abbreviation (input) PCI_COMMAND :: u8 where "PCI_COMMAND \<equiv> 0x04"
abbreviation (input) PCI_PROG_IF :: u8 where "PCI_PROG_IF \<equiv> 0x09"
abbreviation (input) PCI_SUBCLASS :: u8 where "PCI_SUBCLASS \<equiv> 0x0A"
abbreviation (input) PCI_CLASS :: u8 where "PCI_CLASS \<equiv> 0x0B"
abbreviation (input) PCI_HEADER_TYPE :: u8 where "PCI_HEADER_TYPE \<equiv> 0x0E"
abbreviation (input) PCI_BAR0 :: u8 where "PCI_BAR0 \<equiv> 0x10"
abbreviation (input) PCI_INTERRUPT_LINE :: u8 where "PCI_INTERRUPT_LINE \<equiv> 0x3C"

section \<open>Access to configuration space\<close>

definition pci_address :: "u8 \<Rightarrow> u8 \<Rightarrow> u8 \<Rightarrow> u8 \<Rightarrow> u32" where
  "pci_address bus dev func off =
     push_bit 31 1 OR push_bit 16 (ucast bus) OR push_bit 11 (ucast dev) OR push_bit 8 (ucast func) OR ucast (off AND 0xFC)"

definition pci_read32 :: "u8 \<Rightarrow> u8 \<Rightarrow> u8 \<Rightarrow> u8 \<Rightarrow> pci_bus \<Rightarrow> u32 \<times> pci_bus" where
  "pci_read32 bus dev func off p =
     (let p = p\<lparr>config_address := pci_address bus dev func off\<rparr> in (config_space p (config_address p), p))"

definition pci_read16 :: "u8 \<Rightarrow> u8 \<Rightarrow> u8 \<Rightarrow> u8 \<Rightarrow> pci_bus \<Rightarrow> u16 \<times> pci_bus" where
  "pci_read16 bus dev func off p =
     (case pci_read32 bus dev func off p of (v, p) \<Rightarrow> (ucast (drop_bit (unat (off AND 2) * 8) v AND 0xFFFF), p))"

definition pci_read8 :: "u8 \<Rightarrow> u8 \<Rightarrow> u8 \<Rightarrow> u8 \<Rightarrow> pci_bus \<Rightarrow> u8 \<times> pci_bus" where
  "pci_read8 bus dev func off p =
     (case pci_read32 bus dev func off p of (v, p) \<Rightarrow> (ucast (drop_bit (unat (off AND 3) * 8) v AND 0xFF), p))"

definition pci_write32 :: "u8 \<Rightarrow> u8 \<Rightarrow> u8 \<Rightarrow> u8 \<Rightarrow> u32 \<Rightarrow> pci_bus \<Rightarrow> pci_bus" where
  "pci_write32 bus dev func off val p =
     (let p = p\<lparr>config_address := pci_address bus dev func off\<rparr> in p\<lparr>config_space := (config_space p)(config_address p := val)\<rparr>)"

definition pci_write16 :: "u8 \<Rightarrow> u8 \<Rightarrow> u8 \<Rightarrow> u8 \<Rightarrow> u16 \<Rightarrow> pci_bus \<Rightarrow> pci_bus" where
  "pci_write16 bus dev func off val p =
     (case pci_read32 bus dev func off p of (old, p) \<Rightarrow>
        let shift = unat (off AND 2) * 8;
            msk = push_bit shift 0xFFFF;
            nv = (old AND NOT msk) OR push_bit shift (ucast val)
        in pci_write32 bus dev func off nv p)"

fun read_bars :: "nat \<Rightarrow> u8 \<Rightarrow> u8 \<Rightarrow> u8 \<Rightarrow> pci_bus \<Rightarrow> u32 list \<times> pci_bus" where
  "read_bars 0 bus dev func p = ([], p)"
| "read_bars (Suc n) bus dev func p =
     (case read_bars n bus dev func p of (bs, p) \<Rightarrow>
      case pci_read32 bus dev func (PCI_BAR0 + of_nat n * 4) p of (b, p) \<Rightarrow> (bs @ [b], p))"

definition pci_probe :: "u8 \<Rightarrow> u8 \<Rightarrow> u8 \<Rightarrow> pci_bus \<Rightarrow> pci_device option \<times> pci_bus" where
  "pci_probe bus dev func p =
     (case pci_read16 bus dev func PCI_VENDOR_ID p of (vendor, p) \<Rightarrow>
      if vendor = 0xFFFF then (None, p)
      else case pci_read16 bus dev func PCI_DEVICE_ID p of (device, p) \<Rightarrow>
           case pci_read8 bus dev func PCI_CLASS p of (cl, p) \<Rightarrow>
           case pci_read8 bus dev func PCI_SUBCLASS p of (sub, p) \<Rightarrow>
           case pci_read8 bus dev func PCI_PROG_IF p of (pif, p) \<Rightarrow>
           case pci_read8 bus dev func PCI_INTERRUPT_LINE p of (irq, p) \<Rightarrow>
           case read_bars 6 bus dev func p of (bars, p) \<Rightarrow>
             (Some \<lparr>pci_where = (bus, dev, func), vendor_id = vendor, device_id = device, class_code = cl, sub_class = sub,
                prog_if = pif, bar = bars, pci_irq_line = irq\<rparr>, p))"

section \<open>Searching\<close>

text \<open>
  The loops over the functions of a device, over the devices of a bus and over the buses. A device
  whose function 0 says that it has only one function is left after it.
\<close>

fun find_func :: "(pci_device \<Rightarrow> bool) \<Rightarrow> u8 \<Rightarrow> u8 \<Rightarrow> nat list \<Rightarrow> pci_bus \<Rightarrow> pci_device option \<times> pci_bus" where
  "find_func match bus dev [] p = (None, p)"
| "find_func match bus dev (f # fs) p =
     (case pci_probe bus dev (of_nat f) p of
        (None, p) \<Rightarrow> find_func match bus dev fs p
      | (Some d, p) \<Rightarrow>
          if match d then (Some d, p)
          else if f = 0 then
            (case pci_read8 bus dev 0 PCI_HEADER_TYPE p of (h, p) \<Rightarrow>
               if h AND 0x80 = 0 then (None, p) else find_func match bus dev fs p)
          else find_func match bus dev fs p)"

fun find_dev :: "(pci_device \<Rightarrow> bool) \<Rightarrow> u8 \<Rightarrow> nat list \<Rightarrow> pci_bus \<Rightarrow> pci_device option \<times> pci_bus" where
  "find_dev match bus [] p = (None, p)"
| "find_dev match bus (d # ds) p =
     (case find_func match bus (of_nat d) [0..<8] p of
        (Some x, p) \<Rightarrow> (Some x, p)
      | (None, p) \<Rightarrow> find_dev match bus ds p)"

fun find_bus :: "(pci_device \<Rightarrow> bool) \<Rightarrow> nat list \<Rightarrow> pci_bus \<Rightarrow> pci_device option \<times> pci_bus" where
  "find_bus match [] p = (None, p)"
| "find_bus match (b # bs) p =
     (case find_dev match (of_nat b) [0..<32] p of
        (Some x, p) \<Rightarrow> (Some x, p)
      | (None, p) \<Rightarrow> find_bus match bs p)"

definition pci_find_by_class :: "u8 \<Rightarrow> u8 \<Rightarrow> pci_bus \<Rightarrow> pci_device option \<times> pci_bus" where
  "pci_find_by_class cl sub p = find_bus (\<lambda>d. class_code d = cl \<and> sub_class d = sub) [0..<256] p"

definition pci_find_by_id :: "u16 \<Rightarrow> u16 \<Rightarrow> pci_bus \<Rightarrow> pci_device option \<times> pci_bus" where
  "pci_find_by_id vendor device p = find_bus (\<lambda>d. vendor_id d = vendor \<and> device_id d = device) [0..<256] p"

definition pci_enable_device :: "pci_device \<Rightarrow> pci_bus \<Rightarrow> pci_bus" where
  "pci_enable_device d p =
     (case pci_where d of (bus, dev, func) \<Rightarrow>
      case pci_read16 bus dev func PCI_COMMAND p of (cmd, p) \<Rightarrow>
        pci_write16 bus dev func PCI_COMMAND (cmd OR 0x1 OR 0x2 OR 0x4) p)"

section \<open>Listing\<close>

definition class_name :: "u8 \<Rightarrow> cstr" where
  "class_name c =
     (if c = 0x01 then cstr_lit ''Mass Storage''
      else if c = 0x02 then cstr_lit ''Network''
      else if c = 0x03 then cstr_lit ''Display''
      else if c = 0x04 then cstr_lit ''Multimedia''
      else if c = 0x06 then cstr_lit ''Bridge''
      else if c = 0x0C then cstr_lit ''Serial Bus''
      else cstr_lit ''Other'')"

definition device_args :: "pci_device \<Rightarrow> varg list" where
  "device_args d = [Num (ucast (vendor_id d)), Num (ucast (device_id d)), Str (class_name (class_code d)),
     Num (ucast (class_code d)), Num (ucast (sub_class d)), Num (ucast (pci_irq_line d))]"

definition scan_line :: "nat \<Rightarrow> nat \<Rightarrow> nat \<Rightarrow> pci_device \<Rightarrow> cstr \<times> varg list" where
  "scan_line bus dev func d =
     (if func = 0 then line ''%d:%d.0 %x:%x %s (class %x.%x) irq=%d'' ([Num (of_nat bus), Num (of_nat dev)] @ device_args d)
      else line '' %d:%d.%d %x:%x %s (class %x.%x) irq=%d'' ([Num (of_nat bus), Num (of_nat dev), Num (of_nat func)] @ device_args d))"

fun scan_funcs :: "nat \<Rightarrow> nat \<Rightarrow> nat list \<Rightarrow> pci_bus \<Rightarrow> calls \<times> pci_bus" where
  "scan_funcs bus dev [] p = ([], p)"
| "scan_funcs bus dev (f # fs) p =
     (case pci_probe (of_nat bus) (of_nat dev) (of_nat f) p of (r, p) \<Rightarrow>
      case scan_funcs bus dev fs p of (cs, p) \<Rightarrow>
        ((case r of None \<Rightarrow> [] | Some d \<Rightarrow> [scan_line bus dev f d]) @ cs, p))"

definition scan_dev :: "nat \<Rightarrow> nat \<Rightarrow> pci_bus \<Rightarrow> calls \<times> pci_bus" where
  "scan_dev bus dev p =
     (case pci_probe (of_nat bus) (of_nat dev) 0 p of
        (None, p) \<Rightarrow> ([], p)
      | (Some d, p) \<Rightarrow>
          (case pci_read8 (of_nat bus) (of_nat dev) 0 PCI_HEADER_TYPE p of (header, p) \<Rightarrow>
             if header AND 0x80 \<noteq> 0
             then (case scan_funcs bus dev [1..<8] p of (cs, p) \<Rightarrow> (scan_line bus dev 0 d # cs, p))
             else ([scan_line bus dev 0 d], p)))"

fun scan_devs :: "(nat \<times> nat) list \<Rightarrow> pci_bus \<Rightarrow> calls \<times> pci_bus" where
  "scan_devs [] p = ([], p)"
| "scan_devs ((bus, dev) # ds) p =
     (case scan_dev bus dev p of (cs, p) \<Rightarrow> case scan_devs ds p of (cs', p) \<Rightarrow> (cs @ cs', p))"

definition pci_scan :: "pci_bus \<Rightarrow> calls \<times> pci_bus" where
  "pci_scan p =
     (case scan_devs (concat (map (\<lambda>bus. map (\<lambda>dev. (bus, dev)) [0..<32]) [0..<256])) p of
        (cs, p) \<Rightarrow> ([line ''Scanning PCI Bus...'' []] @ cs @ [line ''PCI Scan Complete'' []], p))"

section \<open>Reading leaves the devices alone\<close>

text \<open>What a function of the bus looks like, as a function of configuration space only.\<close>

definition cfg8 :: "(u32 \<Rightarrow> u32) \<Rightarrow> u8 \<Rightarrow> u8 \<Rightarrow> u8 \<Rightarrow> u8 \<Rightarrow> u8" where
  "cfg8 sp bus dev func off = ucast (drop_bit (unat (off AND 3) * 8) (sp (pci_address bus dev func off)) AND 0xFF)"

definition cfg16 :: "(u32 \<Rightarrow> u32) \<Rightarrow> u8 \<Rightarrow> u8 \<Rightarrow> u8 \<Rightarrow> u8 \<Rightarrow> u16" where
  "cfg16 sp bus dev func off = ucast (drop_bit (unat (off AND 2) * 8) (sp (pci_address bus dev func off)) AND 0xFFFF)"

definition function_at :: "(u32 \<Rightarrow> u32) \<Rightarrow> u8 \<times> u8 \<times> u8 \<Rightarrow> pci_device option" where
  "function_at sp = (\<lambda>(bus, dev, func).
     if cfg16 sp bus dev func PCI_VENDOR_ID = 0xFFFF then None
     else Some \<lparr>pci_where = (bus, dev, func), vendor_id = cfg16 sp bus dev func PCI_VENDOR_ID, device_id = cfg16 sp bus dev func PCI_DEVICE_ID,
       class_code = cfg8 sp bus dev func PCI_CLASS, sub_class = cfg8 sp bus dev func PCI_SUBCLASS, prog_if = cfg8 sp bus dev func PCI_PROG_IF,
       bar = map (\<lambda>i. sp (pci_address bus dev func (PCI_BAR0 + of_nat i * 4))) [0..<6], pci_irq_line = cfg8 sp bus dev func PCI_INTERRUPT_LINE\<rparr>)"

definition single_function :: "(u32 \<Rightarrow> u32) \<Rightarrow> u8 \<Rightarrow> u8 \<Rightarrow> bool" where
  "single_function sp bus dev \<longleftrightarrow> function_at sp (bus, dev, 0) \<noteq> None \<and> cfg8 sp bus dev 0 PCI_HEADER_TYPE AND 0x80 = 0"

text \<open>The functions of the machine in the order of the buses, devices and functions.\<close>

definition functions_of :: "(u32 \<Rightarrow> u32) \<Rightarrow> u8 \<Rightarrow> u8 \<Rightarrow> pci_device list" where
  "functions_of sp bus dev =
     List.map_filter (\<lambda>f. function_at sp (bus, dev, of_nat f)) (if single_function sp bus dev then [0] else [0..<8])"

definition all_functions :: "(u32 \<Rightarrow> u32) \<Rightarrow> pci_device list" where
  "all_functions sp = concat (map (\<lambda>b. concat (map (\<lambda>d. functions_of sp (of_nat b) (of_nat d)) [0..<32])) [0..<256])"

lemma read_eqs:
  "pci_read32 b d f k p = (config_space p (pci_address b d f k), p\<lparr>config_address := pci_address b d f k\<rparr>)"
  "pci_read16 b d f k p = (cfg16 (config_space p) b d f k, p\<lparr>config_address := pci_address b d f k\<rparr>)"
  "pci_read8 b d f k p = (cfg8 (config_space p) b d f k, p\<lparr>config_address := pci_address b d f k\<rparr>)"
  by (simp_all add: pci_read32_def pci_read16_def pci_read8_def cfg16_def cfg8_def Let_def)

lemma read_bars_spec:
  "fst (read_bars n b d f p) = map (\<lambda>i. config_space p (pci_address b d f (PCI_BAR0 + of_nat i * 4))) [0..<n]"
  "config_space (snd (read_bars n b d f p)) = config_space p"
  by (induction n) (auto simp: read_eqs split: prod.splits)

lemma pci_probe_spec:
  "fst (pci_probe b d f p) = function_at (config_space p) (b, d, f)" "config_space (snd (pci_probe b d f p)) = config_space p"
  using read_bars_spec [of 6 b d f "p\<lparr>config_address := pci_address b d f PCI_INTERRUPT_LINE\<rparr>"] by (auto simp: pci_probe_def read_eqs function_at_def split: prod.splits)

lemma pci_probe_cases:
  obtains q where "pci_probe b d f p = (function_at (config_space p) (b, d, f), q)" "config_space q = config_space p"
  using pci_probe_spec [of b d f p] by (metis prod.collapse)

text \<open>The search over one device finds the first matching function of the device.\<close>

lemma find_rest_spec:
  "0 \<notin> set fs \<Longrightarrow> fst (find_func mt b d fs p) = find mt (List.map_filter (\<lambda>f. function_at (config_space p) (b, d, of_nat f)) fs) \<and>
    config_space (snd (find_func mt b d fs p)) = config_space p"
proof (induction fs arbitrary: p)
  case (Cons f fs)
  obtain q where "pci_probe b d (of_nat f) p = (function_at (config_space p) (b, d, of_nat f), q)" "config_space q = config_space p"
    by (rule pci_probe_cases)
  then show ?case using Cons.IH [of q] Cons.prems by (auto simp: map_filter_simps split: option.splits)
qed (simp add: map_filter_simps)

lemma find_func_spec:
  "fst (find_func mt b d [0..<8] p) = find mt (functions_of (config_space p) b d) \<and>
    config_space (snd (find_func mt b d [0..<8] p)) = config_space p"
proof -
  have l: "[0..<8] = (0 :: nat) # [1..<8]" by (simp add: upt_rec)
  obtain q where q: "pci_probe b d 0 p = (function_at (config_space p) (b, d, 0), q)" "config_space q = config_space p"
    by (rule pci_probe_cases)
  note r = find_rest_spec [of "[1..<8]" mt b d]
  show ?thesis
    using q r [of q] r [of "q\<lparr>config_address := pci_address b d 0 PCI_HEADER_TYPE\<rparr>"]
    by (auto simp: functions_of_def single_function_def l read_eqs map_filter_simps split: option.splits)
qed

lemma find_append: "find P (xs @ ys) = (case find P xs of None \<Rightarrow> find P ys | Some x \<Rightarrow> Some x)"
  by (induction xs) simp_all

lemma find_dev_spec:
  "fst (find_dev mt b ds p) = find mt (concat (map (\<lambda>d. functions_of (config_space p) b (of_nat d)) ds)) \<and>
    config_space (snd (find_dev mt b ds p)) = config_space p"
proof (induction ds arbitrary: p)
  case (Cons d ds)
  from find_func_spec [of mt b "of_nat d" p] Cons show ?case by (auto simp: find_append split: prod.splits option.splits)
qed simp

lemma find_bus_spec:
  "fst (find_bus mt bs p) = find mt (concat (map (\<lambda>b. concat (map (\<lambda>d. functions_of (config_space p) (of_nat b) (of_nat d)) [0..<32])) bs)) \<and>
    config_space (snd (find_bus mt bs p)) = config_space p"
proof (induction bs arbitrary: p)
  case (Cons b bs)
  from find_dev_spec [of mt "of_nat b" "[0..<32]" p] Cons show ?case by (auto simp: find_append split: prod.splits option.splits)
qed simp

text \<open>
  The listing leaves the devices alone and prints no undefined argument; a device is listed exactly
  when its function 0 is there, while the search also finds other functions of such a device.
\<close>

lemma scan_line_ok: "call_ok (scan_line bus dev func d)"
  by (simp add: scan_line_def device_args_def calls_simps)

lemma scan_funcs_spec: "list_all call_ok (fst (scan_funcs bus dev fs p)) \<and> config_space (snd (scan_funcs bus dev fs p)) = config_space p"
proof (induction fs arbitrary: p)
  case (Cons f fs)
  obtain q where "pci_probe (of_nat bus) (of_nat dev) (of_nat f) p = (function_at (config_space p) (of_nat bus, of_nat dev, of_nat f), q)"
    "config_space q = config_space p" by (rule pci_probe_cases)
  then show ?case using Cons.IH [of q] by (auto simp: scan_line_ok split: prod.splits option.splits)
qed simp

lemma scan_dev_spec:
  "list_all call_ok (fst (scan_dev bus dev p)) \<and> config_space (snd (scan_dev bus dev p)) = config_space p \<and>
    (fst (scan_dev bus dev p) = [] \<longleftrightarrow> function_at (config_space p) (of_nat bus, of_nat dev, 0) = None)"
proof -
  obtain q where "pci_probe (of_nat bus) (of_nat dev) 0 p = (function_at (config_space p) (of_nat bus, of_nat dev, 0), q)"
    "config_space q = config_space p" by (rule pci_probe_cases)
  then show ?thesis
    using scan_funcs_spec [of bus dev "[1..<8]" "q\<lparr>config_address := pci_address (of_nat bus) (of_nat dev) 0 PCI_HEADER_TYPE\<rparr>"]
    by (auto simp: scan_dev_def read_eqs scan_line_ok split: prod.splits option.splits)
qed

lemma scan_devs_spec: "list_all call_ok (fst (scan_devs ds p)) \<and> config_space (snd (scan_devs ds p)) = config_space p"
proof (induction ds arbitrary: p)
  case (Cons d ds)
  show ?case using scan_dev_spec [of "fst d" "snd d" p] Cons.IH [of "snd (scan_dev (fst d) (snd d) p)"] by (cases d) (auto split: prod.splits)
qed simp

lemma pci_scan_ok: "\<exists>out. emit (fst (pci_scan p)) = Some out" "config_space (snd (pci_scan p)) = config_space p"
proof -
  note s = scan_devs_spec [of "concat (map (\<lambda>bus. map (\<lambda>dev. (bus, dev)) [0..<32]) [0..<256])" p]
  then have "list_all call_ok (fst (pci_scan p))" by (auto simp: pci_scan_def calls_simps split: prod.split)
  then show "\<exists>out. emit (fst (pci_scan p)) = Some out" by (rule emit_defined)
  show "config_space (snd (pci_scan p)) = config_space p" using s by (auto simp: pci_scan_def split: prod.split)
qed

lemma enable_word: "(old AND NOT 0xFFFF) OR ucast (ucast (old AND 0xFFFF :: u32) OR 7 :: u16) = (old OR 7 :: u32)"
proof -
  have m: "old AND 0xFFFF = take_bit 16 old" by (simp add: take_bit_eq_mask mask_eq_exp_minus_1)
  have "ucast (ucast (take_bit 16 old) :: u16) = take_bit 16 old" by (rule bit_word_eqI) (auto simp: bit_simps)
  then have "ucast (ucast (old AND 0xFFFF :: u32) OR 7 :: u16) = (old AND 0xFFFF) OR (7 :: u32)" by (simp add: m unsigned_or_eq)
  moreover have "(a AND NOT k) OR ((a AND k) OR c) = a OR c" for a k c :: u32 by (rule bit_word_eqI) (auto simp: bit_simps)
  ultimately show ?thesis by (simp only:)
qed

lemma pci_enable_spec:
  "config_space (pci_enable_device x p) =
     (let a = (case pci_where x of (b, dv, f) \<Rightarrow> pci_address b dv f PCI_COMMAND)
      in (config_space p)(a := config_space p a OR 7))"
  using enable_word by (simp add: pci_enable_device_def read_eqs pci_write16_def pci_write32_def cfg16_def Let_def split: prod.splits)

text \<open>
  C35: the search for a device looks at the functions of all devices of all buses in order, and
  returns the first that matches, with what configuration space says about it, or reports that
  there is none; it changes no register of any device. Enabling the device found sets its bits for
  I/O, memory and bus master and leaves every other register alone.
\<close>

theorem pci_find_first:
  "fst (pci_find_by_id v d p) = find (\<lambda>x. vendor_id x = v \<and> device_id x = d) (all_functions (config_space p)) \<and>
   fst (pci_find_by_class c s p) = find (\<lambda>x. class_code x = c \<and> sub_class x = s) (all_functions (config_space p)) \<and>
   config_space (snd (pci_find_by_id v d p)) = config_space p \<and> config_space (snd (pci_find_by_class c s p)) = config_space p \<and>
   config_space (pci_enable_device x p) =
     (let a = (case pci_where x of (b, dv, f) \<Rightarrow> pci_address b dv f PCI_COMMAND)
      in (config_space p)(a := config_space p a OR 7))"
  using find_bus_spec [of _ "[0..<256]" p] pci_enable_spec
  by (simp add: pci_find_by_id_def pci_find_by_class_def all_functions_def)

end
