(* ===== verification/Cpu_Tables.thy ===== *)
theory Cpu_Tables
  imports Pumps_Prelude
begin

text \<open>
  The tables of the processor: segment descriptors (\<^verbatim>\<open>arch/i386/gdt.c\<close>), interrupt gates (\<^verbatim>\<open>idt.c\<close>), the task
  state segment (\<^verbatim>\<open>tss.c\<close>) and the dispatch of interrupts (\<^verbatim>\<open>isr.c\<close>). Loading the table registers is
  assembly. The addresses of the entry stubs and of the tables are parameters.
\<close>

section \<open>Segment descriptors\<close>

record gdt_entry =
  limit_low :: u16
  base_low :: u16
  base_middle :: u8
  access :: u8
  granularity :: u8
  base_high :: u8

definition gdt_zero :: gdt_entry where
  "gdt_zero = \<lparr>limit_low = 0, base_low = 0, base_middle = 0, access = 0, granularity = 0, base_high = 0\<rparr>"

definition gdt_set_gate :: "nat \<Rightarrow> u32 \<Rightarrow> u32 \<Rightarrow> u8 \<Rightarrow> u8 \<Rightarrow> gdt_entry list \<Rightarrow> gdt_entry list" where
  "gdt_set_gate num base lim acc gran gdt =
     gdt[num := (gdt ! num)\<lparr>base_low := ucast (base AND 0xFFFF), base_middle := ucast (drop_bit 16 base AND 0xFF),
       base_high := ucast (drop_bit 24 base AND 0xFF), limit_low := ucast (lim AND 0xFFFF),
       granularity := ucast (drop_bit 16 lim AND 0x0F) OR (gran AND 0xF0), access := acc\<rparr>]"

definition gdt_init :: "gdt_entry list \<Rightarrow> gdt_entry list" where
  "gdt_init gdt =
     gdt_set_gate 5 0 0 0 0
       (gdt_set_gate 4 0 0xFFFFF 0xF2 0xCF
         (gdt_set_gate 3 0 0xFFFFF 0xFA 0xCF
           (gdt_set_gate 2 0 0xFFFFF 0x92 0xCF
             (gdt_set_gate 1 0 0xFFFFF 0x9A 0xCF
               (gdt_set_gate 0 0 0 0 0 gdt)))))"

section \<open>Task state segment\<close>

record tss_entry =
  prev_tss :: u32
  esp0 :: u32
  ss0 :: u32
  esp1 :: u32
  ss1 :: u32
  esp2 :: u32
  ss2 :: u32
  tss_cr3 :: u32
  tss_regs :: "u32 list"
  tss_segs :: "u32 list"
  ldt :: u32
  trap :: u16
  iomap_base :: u16

text \<open>\<open>tss_regs\<close> has the ten words from \<^verbatim>\<open>eip\<close> to \<^verbatim>\<open>edi\<close>, \<open>tss_segs\<close> the six from \<^verbatim>\<open>es\<close> to \<^verbatim>\<open>gs\<close>; the packed structure has 104 bytes.\<close>

abbreviation (input) sizeof_tss :: nat where "sizeof_tss \<equiv> 104"

definition tss_zero :: tss_entry where
  "tss_zero = \<lparr>prev_tss = 0, esp0 = 0, ss0 = 0, esp1 = 0, ss1 = 0, esp2 = 0, ss2 = 0, tss_cr3 = 0, tss_regs = replicate 10 0,
     tss_segs = replicate 6 0, ldt = 0, trap = 0, iomap_base = 0\<rparr>"

definition install_tss_descriptor :: "nat \<Rightarrow> u32 \<Rightarrow> u32 \<Rightarrow> gdt_entry list \<Rightarrow> gdt_entry list" where
  "install_tss_descriptor slot base lim gdt =
     gdt[slot := (gdt ! slot)\<lparr>base_low := ucast (base AND 0xFFFF), base_middle := ucast (drop_bit 16 base AND 0xFF),
       base_high := ucast (drop_bit 24 base AND 0xFF), limit_low := ucast (lim AND 0xFFFF),
       granularity := ucast (drop_bit 16 lim AND 0x0F), access := 0xE9\<rparr>]"

definition tss_install :: "u32 \<Rightarrow> nat \<Rightarrow> u32 \<Rightarrow> gdt_entry list \<Rightarrow> tss_entry \<times> gdt_entry list" where
  "tss_install tss_addr gdt_slot kernel_stack_top gdt =
     (tss_zero\<lparr>ss0 := 0x10, esp0 := kernel_stack_top, iomap_base := of_nat sizeof_tss\<rparr>,
      install_tss_descriptor gdt_slot tss_addr (of_nat sizeof_tss - 1) gdt)"

definition tss_set_kernel_stack :: "u32 \<Rightarrow> tss_entry \<Rightarrow> tss_entry" where
  "tss_set_kernel_stack stack_top tss = tss\<lparr>esp0 := stack_top\<rparr>"

section \<open>Interrupt gates\<close>

record idt_entry =
  offset_low :: u16
  selector :: u16
  idt_reserved :: u8
  type_attr :: u8
  offset_high :: u16

definition idt_zero :: idt_entry where
  "idt_zero = \<lparr>offset_low = 0, selector = 0, idt_reserved = 0, type_attr = 0, offset_high = 0\<rparr>"

abbreviation (input) GDT_KERNEL_CODE :: u16 where "GDT_KERNEL_CODE \<equiv> 0x08"
abbreviation (input) IDT_INTERRUPT_GATE :: u8 where "IDT_INTERRUPT_GATE \<equiv> 0x8E"
abbreviation (input) IDT_SYSCALL_GATE :: u8 where "IDT_SYSCALL_GATE \<equiv> 0xEE"

definition idt_set_gate :: "nat \<Rightarrow> u32 \<Rightarrow> u16 \<Rightarrow> u8 \<Rightarrow> (nat \<Rightarrow> idt_entry) \<Rightarrow> nat \<Rightarrow> idt_entry" where
  "idt_set_gate num off sel attr idt =
     idt(num := \<lparr>offset_low = ucast (off AND 0xFFFF), selector = sel, idt_reserved = 0, type_attr = attr,
       offset_high = ucast (drop_bit 16 off AND 0xFFFF)\<rparr>)"

text \<open>The stubs \<^verbatim>\<open>isr0\<close> to \<^verbatim>\<open>isr31\<close>, \<^verbatim>\<open>irq0\<close> to \<^verbatim>\<open>irq15\<close> and \<^verbatim>\<open>isr128\<close> are given by the vector they serve.\<close>

definition idt_init :: "(nat \<Rightarrow> u32) \<Rightarrow> (nat \<Rightarrow> idt_entry) \<Rightarrow> nat \<Rightarrow> idt_entry" where
  "idt_init stub idt =
     (let idt = fold (\<lambda>i. idt_set_gate i 0 0 0) [0..<256] idt;
          idt = fold (\<lambda>i. idt_set_gate i (stub i) GDT_KERNEL_CODE IDT_INTERRUPT_GATE) [0..<48] idt
      in idt_set_gate 128 (stub 128) GDT_KERNEL_CODE IDT_SYSCALL_GATE idt)"

section \<open>Dispatch\<close>

type_synonym 's handlers = "nat \<Rightarrow> ('s \<Rightarrow> 's) option"

definition isr_register_handler :: "u8 \<Rightarrow> ('s \<Rightarrow> 's) \<Rightarrow> 's handlers \<Rightarrow> 's handlers" where
  "isr_register_handler num h hs = hs(unat num \<mapsto> h)"

text \<open>
  What the common handler does with the state: the registered handler runs, an exception without a
  handler panics, any other interrupt is acknowledged. \<open>eoi\<close> is \<^verbatim>\<open>pic_send_eoi\<close>; its argument has 8 bits.
\<close>

datatype 's isr_result = Returned_to 's | Panicked

definition isr_handler :: "(u8 \<Rightarrow> 's \<Rightarrow> 's) \<Rightarrow> 's handlers \<Rightarrow> u32 \<Rightarrow> 's \<Rightarrow> 's isr_result" where
  "isr_handler eoi hs int_no s =
     (case hs (unat int_no) of
        Some h \<Rightarrow> Returned_to (h s)
      | None \<Rightarrow> if int_no < 32 then Panicked else Returned_to (eoi (ucast (int_no - 32)) s))"

section \<open>How the processor reads the tables\<close>

definition seg_base :: "gdt_entry \<Rightarrow> u32" where
  "seg_base e = ucast (base_low e) OR push_bit 16 (ucast (base_middle e)) OR push_bit 24 (ucast (base_high e))"

definition seg_limit :: "gdt_entry \<Rightarrow> u32" where
  "seg_limit e =
     (let l = ucast (limit_low e) OR push_bit 16 (ucast (granularity e AND 0x0F))
      in if bit (granularity e) 7 then push_bit 12 l OR 0xFFF else l)"

definition present :: "u8 \<Rightarrow> bool" where "present a \<longleftrightarrow> bit a 7"
definition dpl :: "u8 \<Rightarrow> nat" where "dpl a = unat (drop_bit 5 a AND 3)"
definition is_code :: "u8 \<Rightarrow> bool" where "is_code a \<longleftrightarrow> bit a 4 \<and> bit a 3"
definition is_data :: "u8 \<Rightarrow> bool" where "is_data a \<longleftrightarrow> bit a 4 \<and> \<not> bit a 3"

definition gate_offset :: "idt_entry \<Rightarrow> u32" where
  "gate_offset g = ucast (offset_low g) OR push_bit 16 (ucast (offset_high g))"

lemma low_bits: "x AND 0xFFFF = take_bit 16 x" "x AND 0xFF = take_bit 8 x" for x :: u32
  by (simp_all add: take_bit_eq_mask mask_eq_exp_minus_1)

lemma split_base: "ucast (ucast (b AND 0xFFFF :: u32) :: u16) OR push_bit 16 (ucast (ucast (drop_bit 16 b AND 0xFF) :: u8)) OR
    push_bit 24 (ucast (ucast (drop_bit 24 b AND 0xFF) :: u8)) = (b :: u32)"
proof (rule bit_word_eqI)
  fix n assume "n < LENGTH(32)"
  then consider "n < 16" | "16 \<le> n" "n < 24" | "24 \<le> n" "n < 32" by fastforce
  then show "bit (ucast (ucast (b AND 0xFFFF :: u32) :: u16) OR push_bit 16 (ucast (ucast (drop_bit 16 b AND 0xFF) :: u8)) OR
    push_bit 24 (ucast (ucast (drop_bit 24 b AND 0xFF) :: u8)) :: u32) n = bit b n"
    unfolding low_bits by cases (auto simp: bit_simps)
qed

lemma split_offset: "ucast (ucast (b AND 0xFFFF :: u32) :: u16) OR push_bit 16 (ucast (ucast (drop_bit 16 b AND 0xFFFF) :: u16)) = (b :: u32)"
  unfolding low_bits by (rule bit_word_eqI) (auto simp: bit_simps)

text \<open>
  The segment table of the kernel. After it is set up and the task state segment is installed,
  the processor reads four flat segments of 4 GB, code and data for ring 0 and for ring 3, and a
  task state segment at the address given, whose kernel stack is the one given and which allows
  no I/O ports to user programs.
\<close>

theorem gdt_flat_model:
  assumes "length g = 6"
  shows "let (tss, gdt) = tss_install addr 5 stack_top (gdt_init g) in
    (\<forall>i \<in> {1, 2, 3, 4}. seg_base (gdt ! i) = 0 \<and> seg_limit (gdt ! i) = 0xFFFFFFFF \<and> present (access (gdt ! i)) \<and>
       dpl (access (gdt ! i)) = (if i \<le> 2 then 0 else 3) \<and> is_code (access (gdt ! i)) = odd i \<and> is_data (access (gdt ! i)) = even i) \<and>
    \<not> present (access (gdt ! 0)) \<and>
    seg_base (gdt ! 5) = addr \<and> seg_limit (gdt ! 5) = 103 \<and> present (access (gdt ! 5)) \<and> access (gdt ! 5) AND 0x1F = 9 \<and>
    ss0 tss = 0x10 \<and> esp0 tss = stack_top \<and> unat (iomap_base tss) > unat (seg_limit (gdt ! 5))"
proof -
  obtain a b c d e f where g: "g = [a, b, c, d, e, f]" using assms by (auto simp: length_Suc_conv eval_nat_numeral)
  show ?thesis
    using split_base [of addr]
    by (simp add: g tss_install_def install_tss_descriptor_def gdt_init_def gdt_set_gate_def seg_base_def seg_limit_def present_def dpl_def
        is_code_def is_data_def Let_def)
qed

theorem gdt_flat_model_witness:
  "let (tss, gdt) = tss_install 0xC0101000 5 0xC0200000 (gdt_init (replicate 6 gdt_zero)) in
     seg_base (gdt ! 3) = 0 \<and> seg_limit (gdt ! 3) = 0xFFFFFFFF \<and> dpl (access (gdt ! 3)) = 3 \<and> seg_base (gdt ! 5) = 0xC0101000 \<and> esp0 tss = 0xC0200000"
  using gdt_flat_model [of "replicate 6 gdt_zero" "0xC0101000" "0xC0200000"] by (simp add: Let_def split: prod.splits)

definition gate :: "u32 \<Rightarrow> u16 \<Rightarrow> u8 \<Rightarrow> idt_entry" where
  "gate off sel attr = \<lparr>offset_low = ucast (off AND 0xFFFF), selector = sel, idt_reserved = 0, type_attr = attr,
     offset_high = ucast (drop_bit 16 off AND 0xFFFF)\<rparr>"

lemma gates: "fold (\<lambda>i. idt_set_gate i (f i) sel attr) [0..<n] idt v = (if v < n then gate (f v) sel attr else idt v)"
  "idt_set_gate k off sel attr idt v = (if v = k then gate off sel attr else idt v)"
  by (induction n) (auto simp: idt_set_gate_def gate_def)



end
