(* ===== verification/Pic_Rtc.thy ===== *)
theory Pic_Rtc
  imports Pumps_Prelude
begin

text \<open>
  The interrupt controllers (\<^verbatim>\<open>arch/i386/pic.c\<close>) and the real-time clock (\<^verbatim>\<open>arch/i386/rtc.c\<close>), against models of the
  two 8259 chips and of the CMOS clock. The short delays of \<^verbatim>\<open>io_wait\<close> have no effect on either.
\<close>

section \<open>The 8259\<close>

text \<open>
  A chip has its mask, the interrupts in service and the vector of its first line. The
  initialisation takes one command word and three data words; \<open>icw\<close> is the data word that is
  expected next, 0 when the chip is ready and the data port is the mask.
\<close>

record i8259 =
  imr :: u8
  in_service :: u8
  vec_base :: u8
  wiring :: u8
  pic_mode :: u8
  icw :: nat

record pics =
  pic1 :: i8259
  pic2 :: i8259

definition lowest_bit :: "u8 \<Rightarrow> nat option" where
  "lowest_bit b = find (bit b) [0..<8]"

definition chip_command :: "u8 \<Rightarrow> i8259 \<Rightarrow> i8259" where
  "chip_command v c =
     (if bit v 4 then c\<lparr>icw := 1, imr := 0, in_service := 0\<rparr>
      else if v = 0x20 then (case lowest_bit (in_service c) of None \<Rightarrow> c | Some n \<Rightarrow> c\<lparr>in_service := unset_bit n (in_service c)\<rparr>)
      else c)"

definition chip_data :: "u8 \<Rightarrow> i8259 \<Rightarrow> i8259" where
  "chip_data v c =
     (if icw c = 1 then c\<lparr>vec_base := v AND 0xF8, icw := 2\<rparr>
      else if icw c = 2 then c\<lparr>wiring := v, icw := 3\<rparr>
      else if icw c = 3 then c\<lparr>pic_mode := v, icw := 0\<rparr>
      else c\<lparr>imr := v\<rparr>)"

abbreviation (input) PIC1_OFFSET :: u8 where "PIC1_OFFSET \<equiv> 32"
abbreviation (input) PIC2_OFFSET :: u8 where "PIC2_OFFSET \<equiv> 40"
abbreviation (input) PIC_EOI :: u8 where "PIC_EOI \<equiv> 0x20"

section \<open>The driver\<close>

definition cmd1 :: "u8 \<Rightarrow> pics \<Rightarrow> pics" where "cmd1 v p = p\<lparr>pic1 := chip_command v (pic1 p)\<rparr>"
definition cmd2 :: "u8 \<Rightarrow> pics \<Rightarrow> pics" where "cmd2 v p = p\<lparr>pic2 := chip_command v (pic2 p)\<rparr>"
definition data1 :: "u8 \<Rightarrow> pics \<Rightarrow> pics" where "data1 v p = p\<lparr>pic1 := chip_data v (pic1 p)\<rparr>"
definition data2 :: "u8 \<Rightarrow> pics \<Rightarrow> pics" where "data2 v p = p\<lparr>pic2 := chip_data v (pic2 p)\<rparr>"

definition pic_init :: "pics \<Rightarrow> pics" where
  "pic_init p =
     (let mask1 = imr (pic1 p); mask2 = imr (pic2 p);
          p = cmd1 0x11 p;
          p = cmd2 0x11 p;
          p = data1 PIC1_OFFSET p;
          p = data2 PIC2_OFFSET p;
          p = data1 0x04 p;
          p = data2 0x02 p;
          p = data1 0x01 p;
          p = data2 0x01 p;
          p = data1 mask1 p
      in data2 mask2 p)"

definition pic_send_eoi :: "u8 \<Rightarrow> pics \<Rightarrow> pics" where
  "pic_send_eoi irq p = cmd1 PIC_EOI (if irq \<ge> 8 then cmd2 PIC_EOI p else p)"

definition pic_set_mask :: "u8 \<Rightarrow> pics \<Rightarrow> pics" where
  "pic_set_mask irq p =
     (if irq < 8 then data1 (imr (pic1 p) OR push_bit (unat irq) 1) p
      else data2 (imr (pic2 p) OR push_bit (unat (irq - 8)) 1) p)"

definition pic_clear_mask :: "u8 \<Rightarrow> pics \<Rightarrow> pics" where
  "pic_clear_mask irq p =
     (if irq < 8 then data1 (imr (pic1 p) AND NOT (push_bit (unat irq) 1)) p
      else data2 (imr (pic2 p) AND NOT (push_bit (unat (irq - 8)) 1)) p)"

section \<open>The clock\<close>

text \<open>
  The clock is a function of time: \<open>cmos t r\<close> is what register \<open>r\<close> reads at the \<open>t\<close>-th access.
\<close>

type_synonym cmos = "nat \<Rightarrow> u8 \<Rightarrow> u8"

record rtc_time =
  second :: u8
  minute :: u8
  hour :: u8
  day :: u8
  month :: u8
  year :: u32

partial_function (option) rtc_wait :: "cmos \<Rightarrow> nat \<Rightarrow> nat option" where
  "rtc_wait cm t = (if cm t 0x0A AND 0x80 \<noteq> 0 then rtc_wait cm (t + 1) else Some (t + 1))"

definition rtc_read_raw :: "cmos \<Rightarrow> nat \<Rightarrow> (rtc_time \<times> nat) option" where
  "rtc_read_raw cm t =
     (case rtc_wait cm t of
        None \<Rightarrow> None
      | Some t \<Rightarrow> Some (\<lparr>second = cm t 0x00, minute = cm (t + 1) 0x02, hour = cm (t + 2) 0x04, day = cm (t + 3) 0x07,
                       month = cm (t + 4) 0x08, year = ucast (cm (t + 5) 0x09)\<rparr>, t + 6))"

partial_function (option) rtc_settle :: "cmos \<Rightarrow> rtc_time \<Rightarrow> nat \<Rightarrow> (rtc_time \<times> nat) option" where
  "rtc_settle cm b t =
     (case rtc_read_raw cm t of
        None \<Rightarrow> None
      | Some (a, t) \<Rightarrow> if a \<noteq> b then rtc_settle cm a t else Some (a, t))"

definition bcd2bin :: "u8 \<Rightarrow> u8" where
  "bcd2bin v = (v AND 0x0F) + drop_bit 4 v * 10"

definition rtc_decode :: "u8 \<Rightarrow> rtc_time \<Rightarrow> rtc_time" where
  "rtc_decode regB a =
     (let a = (if regB AND 0x04 = 0
               then a\<lparr>second := bcd2bin (second a), minute := bcd2bin (minute a),
                      hour := bcd2bin (hour a AND 0x7F) OR (hour a AND 0x80), day := bcd2bin (day a),
                      month := bcd2bin (month a), year := (year a AND 0x0F) + drop_bit 4 (year a) * 10\<rparr>
               else a);
          a = (if regB AND 0x02 = 0 \<and> hour a AND 0x80 \<noteq> 0
               then a\<lparr>hour := ((hour a AND 0x7F) + 12) mod 24\<rparr> else a)
      in a\<lparr>year := year a + 2000\<rparr>)"

definition rtc_read :: "cmos \<Rightarrow> nat \<Rightarrow> rtc_time option" where
  "rtc_read cm t =
     (case rtc_read_raw cm t of
        None \<Rightarrow> None
      | Some (a, t) \<Rightarrow>
          (case rtc_settle cm a t of
             None \<Rightarrow> None
           | Some (a, t) \<Rightarrow> Some (rtc_decode (cm t 0x0B) a)))"

section \<open>Interrupts are remapped and masked one by one\<close>

definition irq_masked :: "nat \<Rightarrow> pics \<Rightarrow> bool" where
  "irq_masked i p = (if i < 8 then bit (imr (pic1 p)) i else bit (imr (pic2 p)) (i - 8))"

definition irq_vector :: "nat \<Rightarrow> pics \<Rightarrow> nat" where
  "irq_vector i p = (if i < 8 then unat (vec_base (pic1 p)) + i else unat (vec_base (pic2 p)) + (i - 8))"

definition pics_ready :: "pics \<Rightarrow> bool" where
  "pics_ready p \<longleftrightarrow> icw (pic1 p) = 0 \<and> icw (pic2 p) = 0"

lemma of_nat_irq: "i < 16 \<Longrightarrow> unat (of_nat i :: u8) = i" "i < 16 \<Longrightarrow> (of_nat i :: u8) < 8 \<longleftrightarrow> i < 8"
  "8 \<le> i \<Longrightarrow> i < 16 \<Longrightarrow> unat (of_nat i - 8 :: u8) = i - 8"
proof -
  show u: "i < 16 \<Longrightarrow> unat (of_nat i :: u8) = i" for i by (simp add: unat_of_nat)
  then show "i < 16 \<Longrightarrow> (of_nat i :: u8) < 8 \<longleftrightarrow> i < 8" by (simp add: word_less_nat_alt)
  assume i: "8 \<le> i" "i < 16"
  have "(of_nat i - 8 :: u8) = of_nat (i - 8)" using i by simp
  then show "unat (of_nat i - 8 :: u8) = i - 8" using i u [of "i - 8"] by simp
qed

lemma mask_bit: "i < 8 \<Longrightarrow> j < 8 \<Longrightarrow> bit (m OR 2 ^ i :: u8) j = (bit m j \<or> j = i)"
  "i < 8 \<Longrightarrow> j < 8 \<Longrightarrow> bit (m AND NOT (2 ^ i) :: u8) j = (bit m j \<and> j \<noteq> i)"
  by (auto simp: bit_simps)

lemma chip_init:
  "chip_data k (chip_data 0x01 (chip_data w (chip_data b (chip_command 0x11 c)))) =
    c\<lparr>icw := 0, imr := k, in_service := 0, vec_base := b AND 0xF8, wiring := w, pic_mode := 1\<rparr>"
  by (simp add: chip_command_def chip_data_def)

lemma port_effects:
  "pic1 (cmd1 v p) = chip_command v (pic1 p)" "pic2 (cmd1 v p) = pic2 p" "pic1 (cmd2 v p) = pic1 p" "pic2 (cmd2 v p) = chip_command v (pic2 p)"
  "pic1 (data1 v p) = chip_data v (pic1 p)" "pic2 (data1 v p) = pic2 p" "pic1 (data2 v p) = pic1 p" "pic2 (data2 v p) = chip_data v (pic2 p)"
  by (simp_all add: cmd1_def cmd2_def data1_def data2_def)

lemma pic_init_chips:
  "pic1 (pic_init p) = (pic1 p)\<lparr>icw := 0, in_service := 0, vec_base := 32, wiring := 4, pic_mode := 1\<rparr>"
  "pic2 (pic_init p) = (pic2 p)\<lparr>icw := 0, in_service := 0, vec_base := 40, wiring := 2, pic_mode := 1\<rparr>"
  by (simp_all only: pic_init_def Let_def port_effects chip_init) simp_all

lemma set_masked:
  assumes "pics_ready p" "i < 16" "j < 16"
  shows "irq_masked j (pic_set_mask (of_nat i) p) = (j = i \<or> irq_masked j p)"
    "irq_masked j (pic_clear_mask (of_nat i) p) = (j \<noteq> i \<and> irq_masked j p)"
  using assms by (auto simp: irq_masked_def pic_set_mask_def pic_clear_mask_def of_nat_irq pics_ready_def data1_def data2_def chip_data_def mask_bit)

text \<open>
  The interrupt controllers. Initialisation maps the sixteen lines to the vectors 32 to 47, which
  the interrupt table provides for them, and keeps the masks; masking or unmasking a line changes
  the mask of that line only. The end of an interrupt of the second chip is signalled to both.
\<close>

theorem pic_lines:
  assumes "pics_ready p" "i < 16" "j < 16"
  shows "pics_ready (pic_init p) \<and> irq_vector i (pic_init p) = 32 + i \<and> irq_masked i (pic_init p) = irq_masked i p \<and>
    irq_masked j (pic_set_mask (of_nat i) p) = (j = i \<or> irq_masked j p) \<and>
    irq_masked j (pic_clear_mask (of_nat i) p) = (j \<noteq> i \<and> irq_masked j p) \<and>
    pics_ready (pic_set_mask (of_nat i) p) \<and> pics_ready (pic_clear_mask (of_nat i) p) \<and>
    pic_send_eoi (of_nat i) p = (if i < 8 then p else p\<lparr>pic2 := chip_command PIC_EOI (pic2 p)\<rparr>)\<lparr>pic1 := chip_command PIC_EOI (pic1 p)\<rparr>"
proof (intro conjI)
  show "pics_ready (pic_init p)" "irq_vector i (pic_init p) = 32 + i" "irq_masked i (pic_init p) = irq_masked i p"
    using assms(2) by (simp_all add: pic_init_chips pics_ready_def irq_vector_def irq_masked_def)
  show "irq_masked j (pic_set_mask (of_nat i) p) = (j = i \<or> irq_masked j p)" "irq_masked j (pic_clear_mask (of_nat i) p) = (j \<noteq> i \<and> irq_masked j p)"
    using set_masked [OF assms] by simp_all
  show "pics_ready (pic_set_mask (of_nat i) p)" "pics_ready (pic_clear_mask (of_nat i) p)"
    using assms(1) by (simp_all add: pic_set_mask_def pic_clear_mask_def data1_def data2_def chip_data_def pics_ready_def)
  show "pic_send_eoi (of_nat i) p = (if i < 8 then p else p\<lparr>pic2 := chip_command PIC_EOI (pic2 p)\<rparr>)\<lparr>pic1 := chip_command PIC_EOI (pic1 p)\<rparr>"
    using of_nat_irq(2) [OF assms(2)] by (simp add: pic_send_eoi_def cmd1_def cmd2_def not_less [symmetric])
qed

definition reset_pics :: pics where
  "reset_pics = (let c = \<lparr>imr = 0xFB, in_service = 0, vec_base = 8, wiring = 0, pic_mode = 0, icw = 0\<rparr> in \<lparr>pic1 = c, pic2 = c\<rparr>)"

theorem pic_lines_witness:
  "irq_vector 12 (pic_init reset_pics) = 44 \<and> \<not> irq_masked 12 (pic_clear_mask 12 reset_pics) \<and> irq_masked 3 (pic_clear_mask 12 reset_pics)"
proof -
  have "pics_ready reset_pics" "irq_masked 3 reset_pics" by (simp_all add: pics_ready_def reset_pics_def Let_def irq_masked_def)
  then show ?thesis using pic_lines [of reset_pics 12 12] pic_lines [of reset_pics 12 3] by simp
qed

section \<open>The clock is read right\<close>

text \<open>A clock that does not tick while it is read.\<close>

definition steady :: "cmos \<Rightarrow> nat \<Rightarrow> (u8 \<Rightarrow> u8) \<Rightarrow> bool" where
  "steady cm t0 c \<longleftrightarrow> (\<forall>t \<ge> t0. cm t = c) \<and> c 0x0A AND 0x80 = 0"

definition to_bcd :: "nat \<Rightarrow> u8" where
  "to_bcd n = of_nat (n div 10 * 16 + n mod 10)"

definition encode :: "u8 \<Rightarrow> nat \<Rightarrow> u8" where
  "encode regB n = (if regB AND 0x04 = 0 then to_bcd n else of_nat n)"

lemma bcd_roundtrip: "n < 100 \<Longrightarrow> unat (bcd2bin (to_bcd n)) = n" "n < 24 \<Longrightarrow> to_bcd n AND 0x80 = 0 \<and> to_bcd n AND 0x7F = to_bcd n"
  "n < 100 \<Longrightarrow> unat ((ucast (to_bcd n) AND 0x0F :: u32) + drop_bit 4 (ucast (to_bcd n)) * 10) = n"
proof -
  have "list_all (\<lambda>n. unat (bcd2bin (to_bcd n)) = n \<and> unat ((ucast (to_bcd n) AND 0x0F :: u32) + drop_bit 4 (ucast (to_bcd n)) * 10) = n) [0..<100]"
    "list_all (\<lambda>n. to_bcd n AND 0x80 = 0 \<and> to_bcd n AND 0x7F = to_bcd n) [0..<24]" by code_simp+
  then show "n < 100 \<Longrightarrow> unat (bcd2bin (to_bcd n)) = n" "n < 24 \<Longrightarrow> to_bcd n AND 0x80 = 0 \<and> to_bcd n AND 0x7F = to_bcd n"
    "n < 100 \<Longrightarrow> unat ((ucast (to_bcd n) AND 0x0F :: u32) + drop_bit 4 (ucast (to_bcd n)) * 10) = n"
    by (simp_all add: list_all_iff)
qed

definition raw_time :: "(u8 \<Rightarrow> u8) \<Rightarrow> rtc_time" where
  "raw_time c = \<lparr>second = c 0x00, minute = c 0x02, hour = c 0x04, day = c 0x07, month = c 0x08, year = ucast (c 0x09)\<rparr>"

lemma rtc_read_steady: "steady cm t c \<Longrightarrow> rtc_read cm t = Some (rtc_decode (c 0x0B) (raw_time c))"
proof -
  assume s: "steady cm t c"
  have w: "rtc_wait cm k = Some (k + 1)" if "t \<le> k" for k using s that by (subst rtc_wait.simps) (simp add: steady_def)
  have r: "rtc_read_raw cm k = Some (raw_time c, k + 7)" if "t \<le> k" for k
    using s w [OF that] that by (simp add: rtc_read_raw_def steady_def raw_time_def)
  have "rtc_settle cm (raw_time c) (t + 7) = Some (raw_time c, t + 14)"
    using r [of "t + 7"] by (subst rtc_settle.simps) simp
  then show ?thesis using r [of t] s by (simp add: rtc_read_def steady_def)
qed

text \<open>
  Reading the clock. In 24-hour mode, binary or BCD, a clock that shows a date and time of this
  century and does not tick meanwhile is read as that date and time, and reading it ends.
\<close>

theorem rtc_read_correct:
  assumes "steady cm t c" "c 0x0B AND 0x02 \<noteq> 0" "y < 100" "mo < 13" "d < 32" "h < 24" "mi < 60" "s < 60"
    and "c 0x00 = encode (c 0x0B) s" "c 0x02 = encode (c 0x0B) mi" "c 0x04 = encode (c 0x0B) h" "c 0x07 = encode (c 0x0B) d"
      "c 0x08 = encode (c 0x0B) mo" "c 0x09 = encode (c 0x0B) y"
  shows "\<exists>r. rtc_read cm t = Some r \<and> unat (second r) = s \<and> unat (minute r) = mi \<and> unat (hour r) = h \<and> unat (day r) = d \<and>
    unat (month r) = mo \<and> unat (year r) = 2000 + y"
proof -
  let ?r = "rtc_decode (c 0x0B) (raw_time c)"
  have small: "unat (of_nat n :: u8) = n" "unat (ucast (of_nat n :: u8) :: u32) = n" if "n < 100" for n
    using that by (simp_all add: unat_of_nat unsigned_ucast_eq take_bit_nat_eq_self)
  have h: "hour (raw_time c) AND 0x80 = 0 \<or> c 0x0B AND 0x04 \<noteq> 0" using bcd_roundtrip(2) assms(6,11) by (auto simp: encode_def raw_time_def)
  have y: "unat (w + 2000) = 2000 + y" if "unat w = y" for w :: u32 using that assms(3) by (simp add: unat_word_ariths)
  have "unat (second ?r) = s \<and> unat (minute ?r) = mi \<and> unat (hour ?r) = h \<and> unat (day ?r) = d \<and> unat (month ?r) = mo \<and> unat (year ?r) = 2000 + y"
  proof (cases "c 0x0B AND 0x04 = 0")
    case True
    then show ?thesis using assms bcd_roundtrip(1) bcd_roundtrip(2) [of h] bcd_roundtrip(3) [of y]
      by (simp add: rtc_decode_def raw_time_def encode_def Let_def y)
  next
    case False
    then show ?thesis using assms small by (simp add: rtc_decode_def raw_time_def encode_def Let_def y)
  qed
  then show ?thesis using rtc_read_steady [OF assms(1)] by blast
qed

definition new_year :: "u8 \<Rightarrow> u8" where
  "new_year r = (if r = 0x0B then 0x02 else if r = 0x04 then 0x23 else if r = 0x02 \<or> r = 0x00 then 0x59 else if r = 0x07 then 0x31
     else if r = 0x08 then 0x12 else if r = 0x09 then 0x24 else 0)"

theorem rtc_read_correct_witness:
  "\<exists>r. rtc_read (\<lambda>_. new_year) 0 = Some r \<and> unat (hour r) = 23 \<and> unat (minute r) = 59 \<and> unat (day r) = 31 \<and> unat (year r) = 2024"
proof -
  have "steady (\<lambda>_. new_year) 0 new_year" "new_year 0x0B AND 0x02 \<noteq> 0" by (simp_all add: steady_def new_year_def)
  moreover have "new_year 0x00 = encode (new_year 0x0B) 59" "new_year 0x02 = encode (new_year 0x0B) 59" "new_year 0x04 = encode (new_year 0x0B) 23"
    "new_year 0x07 = encode (new_year 0x0B) 31" "new_year 0x08 = encode (new_year 0x0B) 12" "new_year 0x09 = encode (new_year 0x0B) 24"
    by (simp_all add: new_year_def encode_def to_bcd_def)
  ultimately show ?thesis using rtc_read_correct [of "\<lambda>_. new_year" 0 new_year 24 12 31 23 59 59] by auto
qed

text \<open>In 12-hour mode noon, which is 12 with the afternoon bit, is read as hour 0.\<close>

lemma rtc_noon_is_midnight: "hour (rtc_decode 0 \<lparr>second = 0, minute = 0, hour = 0x92, day = 1, month = 1, year = 0\<rparr>) = 0"
  by code_simp

end
