(* ===== verification/Shell.thy ===== *)
theory Shell
  imports Libc
begin

text \<open>
  The shell (\<^verbatim>\<open>user/shell.c\<close>): editing a line, splitting it into words, and what the line makes the
  shell do. The characters typed are a list; \<open>None\<close> is waiting for more. The system calls that
  run a program are the action \<open>Run\<close>.
\<close>

section \<open>Reading a line\<close>

text \<open>
  The line so far, the bytes echoed and the characters still to come. \<^verbatim>\<open>char\<close> is signed, so bytes
  from 128 on are negative and ignored.
\<close>

fun read_line_loop :: "nat \<Rightarrow> cstr \<Rightarrow> u8 list \<Rightarrow> u8 list \<Rightarrow> (cstr \<times> u8 list \<times> u8 list) option" where
  "read_line_loop mx buf echo [] = None"
| "read_line_loop mx buf echo (c # cs) =
     (if c = 10 then Some (buf, echo @ [10], cs)
      else if c = 8 then
        (if buf \<noteq> [] then read_line_loop mx (butlast buf) (echo @ [8, 32, 8]) cs else read_line_loop mx buf echo cs)
      else if 32 \<le> c \<and> c < 127 then
        (if length buf < mx - 1 then read_line_loop mx (buf @ [c]) (echo @ [c]) cs else read_line_loop mx buf echo cs)
      else read_line_loop mx buf echo cs)"

definition read_line :: "nat \<Rightarrow> u8 list \<Rightarrow> (cstr \<times> u8 list \<times> u8 list) option" where
  "read_line mx typed = read_line_loop mx [] [] typed"

section \<open>Words\<close>

abbreviation (input) MAX_ARGS :: nat where "MAX_ARGS \<equiv> 16"

text \<open>The words are cut off in place; \<open>n\<close> is how many may still be stored.\<close>

fun tokenize :: "nat \<Rightarrow> cstr \<Rightarrow> cstr list" where
  "tokenize 0 p = []"
| "tokenize (Suc n) p =
     (let p = dropWhile (\<lambda>c. c = 32) p in
      if p = [] then []
      else takeWhile (\<lambda>c. c \<noteq> 32) p # tokenize n (drop 1 (dropWhile (\<lambda>c. c \<noteq> 32) p)))"

text \<open>The number of characters of the command that fit, and of the extension.\<close>

definition build_path :: "cstr \<Rightarrow> nat \<Rightarrow> cstr" where
  "build_path cmd mx =
     (let out = [47] @ take (mx - 6 - 1) cmd
      in out @ take (mx - 1 - length out) (cstr_lit ''.elf''))"

section \<open>Commands\<close>

datatype shell_action = Nothing | Exit_shell | Help | Run cstr "cstr list" "cstr option" | Null_command

text \<open>The words before \<open>>\<close>, and the word behind it.\<close>

definition redirect :: "cstr list \<Rightarrow> cstr list \<times> cstr option" where
  "redirect args =
     (case dropWhile (\<lambda>w. strcmp w (cstr_lit ''>'') \<noteq> 0) args of
        [] \<Rightarrow> (args, None)
      | _ # rest \<Rightarrow> (takeWhile (\<lambda>w. strcmp w (cstr_lit ''>'') \<noteq> 0) args, case rest of [] \<Rightarrow> None | f # _ \<Rightarrow> Some f))"

text \<open>
  One round of the main loop for a line. When the line starts with \<open>>\<close> the command is a null
  pointer, which \<^verbatim>\<open>build_path\<close> reads from.
\<close>

definition shell_command :: "cstr \<Rightarrow> shell_action" where
  "shell_command line =
     (if line = [] then Nothing
      else case tokenize (MAX_ARGS - 1) line of
        [] \<Rightarrow> Nothing
      | cmd # ws \<Rightarrow>
          if strcmp cmd (cstr_lit ''exit'') = 0 then Exit_shell
          else if strcmp cmd (cstr_lit ''help'') = 0 then Help
          else (case redirect (cmd # ws) of
                  ([], f) \<Rightarrow> Null_command
                | (c # as, f) \<Rightarrow> Run (build_path c 140) (c # as) f))"

section \<open>Words survive being typed\<close>

definition word_ok :: "cstr \<Rightarrow> bool" where
  "word_ok w \<longleftrightarrow> w \<noteq> [] \<and> (\<forall>c \<in> set w. 32 < c \<and> c < 127)"

fun join_words :: "cstr list \<Rightarrow> cstr" where
  "join_words [] = []"
| "join_words [w] = w"
| "join_words (w # ws) = w @ 32 # join_words ws"

lemma read_line_printable:
  "(\<forall>c \<in> set cs. 32 \<le> c \<and> c < 127) \<Longrightarrow> length buf + length cs < mx \<Longrightarrow>
    read_line_loop mx buf echo (cs @ 10 # rest) = Some (buf @ cs, echo @ cs @ [10], rest)"
proof (induction cs arbitrary: buf echo)
  case (Cons c cs)
  then have "c \<noteq> 10" "c \<noteq> 8" by (auto simp: word_le_nat_alt)
  then show ?case using Cons by (auto simp: Suc_le_eq less_diff_conv)
qed simp

lemma word_no_space: "word_ok w \<Longrightarrow> c \<in> set w \<Longrightarrow> c \<noteq> 32"
  by (auto simp: word_ok_def)

lemma takeWhile_word: "word_ok w \<Longrightarrow> takeWhile (\<lambda>c. c \<noteq> 32) w = w" "word_ok w \<Longrightarrow> dropWhile (\<lambda>c. c \<noteq> 32) w = []"
  "word_ok w \<Longrightarrow> takeWhile (\<lambda>c. c \<noteq> 32) (w @ 32 # p) = w" "word_ok w \<Longrightarrow> dropWhile (\<lambda>c. c \<noteq> 32) (w @ 32 # p) = 32 # p"
  using word_no_space by (simp_all add: takeWhile_append2 dropWhile_append2 takeWhile_eq_all_conv)

lemma tokenize_word:
  assumes "word_ok w"
  shows "tokenize (Suc n) w = [w]" "tokenize (Suc n) (w @ 32 # p) = w # tokenize n p"
proof -
  have d: "dropWhile (\<lambda>c. c = 32) (w @ q) = w @ q" "w @ q \<noteq> []" for q using assms by (cases w; auto simp: word_ok_def)+
  note d0 = d [of "[]", unfolded append_Nil2]
  have "tokenize n [] = []" by (cases n) simp_all
  then show "tokenize (Suc n) w = [w]" unfolding tokenize.simps Let_def d0(1) takeWhile_word [OF assms] using d0(2) by simp
  show "tokenize (Suc n) (w @ 32 # p) = w # tokenize n p"
    unfolding tokenize.simps Let_def d(1) takeWhile_word [OF assms] using d(2) by simp
qed

lemma tokenize_join: "\<forall>w \<in> set ws. word_ok w \<Longrightarrow> length ws \<le> n \<Longrightarrow> tokenize n (join_words ws) = ws"
proof (induction ws arbitrary: n rule: join_words.induct)
  case 1
  then show ?case by (cases n) simp_all
next
  case (2 w)
  then show ?case using tokenize_word(1) by (cases n) (auto simp del: tokenize.simps)
next
  case (3 w v ws)
  then obtain m where "n = Suc m" by (cases n) auto
  then show ?case using 3 tokenize_word(2) by (simp del: tokenize.simps)
qed

lemma join_printable: "\<forall>w \<in> set ws. word_ok w \<Longrightarrow> c \<in> set (join_words ws) \<Longrightarrow> 32 \<le> c \<and> c < 127"
  by (induction ws rule: join_words.induct) (auto simp: word_ok_def order.strict_implies_order)

lemma cstr_of_word: "word_ok w \<Longrightarrow> cstr_of w = w"
  by (force simp: cstr_of_def word_ok_def takeWhile_eq_all_conv)

lemma strcmp_word: "word_ok w \<Longrightarrow> word_ok v \<Longrightarrow> strcmp w v = 0 \<longleftrightarrow> w = v"
  by (simp add: strcmp_0_iff cstr_of_word)

lemma literal_words: "word_ok (cstr_lit ''>'')" "word_ok (cstr_lit ''exit'')" "word_ok (cstr_lit ''help'')"
  by (simp_all add: word_ok_def cstr_lit_def)

lemma redirect_words:
  assumes "\<forall>w \<in> set ws. word_ok w \<and> w \<noteq> cstr_lit ''>''"
  shows "redirect (ws @ (case out of None \<Rightarrow> [] | Some f \<Rightarrow> [cstr_lit ''>'', f])) = (ws, out)"
proof -
  have "\<forall>w \<in> set ws. strcmp w (cstr_lit ''>'') \<noteq> 0" using assms strcmp_word literal_words(1) by blast
  then have d: "dropWhile (\<lambda>w. strcmp w (cstr_lit ''>'') \<noteq> 0) (ws @ xs) = dropWhile (\<lambda>w. strcmp w (cstr_lit ''>'') \<noteq> 0) xs"
    "takeWhile (\<lambda>w. strcmp w (cstr_lit ''>'') \<noteq> 0) (ws @ xs) = ws @ takeWhile (\<lambda>w. strcmp w (cstr_lit ''>'') \<noteq> 0) xs" for xs
    by (simp_all add: dropWhile_append2 takeWhile_append2)
  have "strcmp (cstr_lit ''>'') (cstr_lit ''>'') = 0" using strcmp_word literal_words(1) by blast
  then show ?thesis unfolding redirect_def d by (cases out) simp_all
qed

lemma join_word_length: "w \<in> set ws \<Longrightarrow> length w \<le> length (join_words ws)"
  by (induction ws rule: join_words.induct) auto

lemma run_spec:
  assumes "ws \<noteq> []" "\<forall>w \<in> set ws. word_ok w \<and> w \<noteq> cstr_lit ''>''" "\<forall>f \<in> set_option out. word_ok f"
    and "hd ws \<noteq> cstr_lit ''exit''" "hd ws \<noteq> cstr_lit ''help''"
    and "line = join_words (ws @ (case out of None \<Rightarrow> [] | Some f \<Rightarrow> [cstr_lit ''>'', f]))"
    and "length ws \<le> 13" "length line < 128"
  shows "read_line 128 (line @ 10 # rest) = Some (line, line @ [10], rest) \<and>
    shell_command line = Run (cstr_lit ''/'' @ hd ws @ cstr_lit ''.elf'') ws out"
proof
  let ?ws = "ws @ (case out of None \<Rightarrow> [] | Some f \<Rightarrow> [cstr_lit ''>'', f])"
  have ok: "\<forall>w \<in> set ?ws. word_ok w" using assms(2,3) literal_words by (auto split: option.splits)
  show "read_line 128 (line @ 10 # rest) = Some (line, line @ [10], rest)"
    unfolding read_line_def using read_line_printable [of line "[]" 128 "[]" rest] join_printable [OF ok] assms(6,8) by auto
  obtain c cs where c: "ws = c # cs" using assms(1) by (cases ws) auto
  have tok: "tokenize 15 line = ?ws" using tokenize_join [OF ok, of 15] assms(6,7) by (auto split: option.splits)
  have "word_ok c" "c \<noteq> cstr_lit ''exit''" "c \<noteq> cstr_lit ''help''" using assms(2,4,5) c by auto
  then have cmp: "strcmp c (cstr_lit ''exit'') \<noteq> 0" "strcmp c (cstr_lit ''help'') \<noteq> 0" using strcmp_word literal_words by blast+
  have "length c \<le> length line" using join_word_length [of c ?ws] c assms(6) by simp
  then have "build_path c 140 = cstr_lit ''/'' @ c @ cstr_lit ''.elf''" using assms(8) by (simp add: build_path_def Let_def cstr_lit_def)
  moreover have "line \<noteq> []" using \<open>length c \<le> length line\<close> \<open>word_ok c\<close> by (auto simp: word_ok_def)
  ultimately show "shell_command line = Run (cstr_lit ''/'' @ hd ws @ cstr_lit ''.elf'') ws out"
    using cmp tok c redirect_words [OF assms(2), of out] by (simp add: shell_command_def)
qed

text \<open>
  The shell runs the command typed. When the words of a command, with an output file behind
  \<open>>\<close> or without, are typed with a blank between them and a newline at the end, and they fit, the
  line is read and echoed as typed and the shell runs the program of the first word with all
  words as arguments and the output file as given.
\<close>

theorem shell_runs_typed_command:
  assumes "ws \<noteq> []" "\<forall>w \<in> set ws. word_ok w \<and> w \<noteq> cstr_lit ''>''" "\<forall>f \<in> set_option out. word_ok f"
    and "hd ws \<noteq> cstr_lit ''exit''" "hd ws \<noteq> cstr_lit ''help''"
    and "line = join_words (ws @ (case out of None \<Rightarrow> [] | Some f \<Rightarrow> [cstr_lit ''>'', f]))"
    and "length ws \<le> 13" "length line < 128"
  shows "read_line 128 (line @ 10 # rest) = Some (line, line @ [10], rest) \<and>
    shell_command line = Run (cstr_lit ''/'' @ hd ws @ cstr_lit ''.elf'') ws out"
  by (rule run_spec [OF assms])

theorem shell_runs_typed_command_witness:
  "shell_command (cstr_lit ''cat a > b'') = Run (cstr_lit ''/cat.elf'') [cstr_lit ''cat'', cstr_lit ''a''] (Some (cstr_lit ''b''))"
  using shell_runs_typed_command [of "[cstr_lit ''cat'', cstr_lit ''a'']" "Some (cstr_lit ''b'')" "cstr_lit ''cat a > b''"]
  by (simp add: word_ok_def cstr_lit_def)

lemma redirect_without_command_crashes: "shell_command (cstr_lit ''> f'') = Null_command"
  by code_simp

end
