(* ===== verification/Boot.thy ===== *)
theory Boot
  imports Vfs
begin

text \<open>
  Bringing the system up (\<^verbatim>\<open>kernel_main\<close> in \<^verbatim>\<open>kernel/kernel.c\<close>): the memory managers on top of the page
  directory that \<^verbatim>\<open>boot.s\<close> leaves, and the disk with its first file. The messages are left out.
\<close>

section \<open>Memory\<close>

text \<open>
  The memory map, the page allocator, the recursive entry of the page directory and the heap. The
  addresses \<^verbatim>\<open>_kernel_start\<close>, \<^verbatim>\<open>_kernel_end\<close> and \<^verbatim>\<open>boot_page_directory\<close> come from the linker. \<open>Inl ()\<close> is
  the panic without a memory map, \<open>None\<close> a page fault.
\<close>

definition boot_memory ::
  "(u32 \<Rightarrow> multiboot_mmap_entry) \<Rightarrow> multiboot_info \<Rightarrow> u32 \<Rightarrow> u32 \<Rightarrow> u32 \<Rightarrow> heap \<Rightarrow> (unit + heap) option" where
  "boot_memory entry_at mboot kernel_start kernel_end pd_phys h =
     (case memory_map_init entry_at mboot of (ok, g) \<Rightarrow>
        if \<not> ok then Some (Inl ())
        else let m = (mach h)\<lparr>pmm_state := pmm_init g kernel_start kernel_end\<rparr>;
                 m = vmm_init pd_phys m
             in map_option Inr (heap_init (h\<lparr>mach := m\<rparr>)))"

section \<open>The disk\<close>

definition hello_name :: cstr where "hello_name = cstr_lit ''hello.txt''"
definition hello_text :: cstr where "hello_text = cstr_lit ''Hello from PumpsFS''"

definition boot_mount :: "pfs \<Rightarrow> pfs" where
  "boot_mount p =
     (case pfs_mount p of (ok, p) \<Rightarrow>
        if ok then p else snd (pfs_mount (p\<lparr>dev := pfs_mkfs (dev p)\<rparr>)))"

definition boot_seed :: "pfs \<Rightarrow> pfs" where
  "boot_seed p =
     (if pfs_lookup hello_name p < 0
      then (case pfs_create hello_name p of (seed_ino, p) \<Rightarrow>
              if seed_ino > 0
              then snd (pfs_write_file (of_int seed_ino) hello_text (of_nat (strlen hello_text)) p)
              else p)
      else p)"

definition boot_disk :: "vfs_state \<Rightarrow> vfs_state" where
  "boot_disk s =
     (let s = s\<lparr>fs := boot_mount (fs s)\<rparr>;
          (pfs_root, s) = pfs_vfs_init s;
          s = vfs_mount (cstr_lit ''disk'') pfs_root s
      in s\<lparr>fs := boot_seed (fs s)\<rparr>)"

section \<open>The memory managers come up\<close>

text \<open>
  The page directory as \<^verbatim>\<open>boot.s\<close> leaves it: only entry 768 is present and points to the one boot
  page table.
\<close>

definition boot_directory :: "u32 \<Rightarrow> u32 \<Rightarrow> machine \<Rightarrow> bool" where
  "boot_directory pd pt m \<longleftrightarrow> cr3 m = pd \<and> (\<forall>i<1023. pde m i = (if i = 768 then pt OR 3 else 0))"

text \<open>A page of the kernel image, between two addresses of the linker.\<close>

definition image_page :: "u32 \<Rightarrow> u32 \<Rightarrow> u32 \<Rightarrow> bool" where
  "image_page kernel_start kernel_end a \<longleftrightarrow> unat a mod 4096 = 0 \<and>
     unat kernel_start \<le> unat a \<and> unat a < unat (kernel_end - 0xC0000000)"

lemma image_page_used:
  assumes "image_page ks ke a" "\<forall>f. unat ks div 4096 \<le> f \<and> 4096 * f < unat (ke - 0xC0000000) \<longrightarrow> f \<in> U"
  shows "pte_frame a \<in> U"
proof -
  have "4096 * (unat a div 4096) = unat a" "unat ks div 4096 \<le> unat a div 4096"
    using assms(1) by (auto simp: image_page_def div_le_mono)
  then show ?thesis using assms by (simp add: image_page_def pte_frame_unat)
qed

lemma vmm_init_wf:
  assumes "pmm_inv (pmm_state m)" "boot_directory pd pt m" "pte_frame pd \<noteq> pte_frame pt"
    and "pte_frame pd \<in> used_frames (pmm_state m)" "pte_frame pt \<in> used_frames (pmm_state m)"
  shows "vm_wf (vmm_init pd m)"
proof -
  let ?m = "vmm_init pd m"
  have f: "pte_frame (pd OR 3) = pte_frame pd" "pte_frame (pt OR 3) = pte_frame pt" by (simp_all add: pte_frame_or_low)
  have "pdf ?m = pte_frame pd" "pdf m = pte_frame pd" using assms(2) by (simp_all add: vmm_init_def pdf_def boot_directory_def)
  then have e: "pde ?m i = (if i = 1023 then pd OR 3 else if i = 768 then pt OR 3 else 0)" if "i < 1024" for i
    using assms(2) that by (auto simp: pde_def vmm_init_def boot_directory_def)
  have pr: "present (x OR 3)" "\<not> present 0" for x by (simp_all add: bit.conj_disj_distrib2 or_eq_0_iff)
  have t: "table_indices ?m = {768, 1023}" using e pr by (auto simp: table_indices_def split: if_splits)
  have p: "pmm_state ?m = pmm_state m" by (simp add: vmm_init_def)
  have i: "pde ?m 1023 = pd OR 3" "pde ?m 768 = pt OR 3" using e [of 1023] e [of 768] by simp_all
  show ?thesis
    using assms(1,3-5) \<open>pdf ?m = _\<close> pr by (simp add: vm_wf_def rec_ok_def t p i f)
qed


definition boot_entries :: "u32 \<Rightarrow> multiboot_mmap_entry" where
  "boot_entries a =
     (if a = 0xC0001000 then \<lparr>entry_size = 20, entry_addr = 0, entry_len = 0x9FC00, entry_type = 1\<rparr>
      else \<lparr>entry_size = 20, entry_addr = 0x100000, entry_len = 0x7EE0000, entry_type = 1\<rparr>)"

definition boot_info :: multiboot_info where
  "boot_info = \<lparr>mb_flags = 65, mem_lower = 639, mem_upper = 129920, boot_device = 0, mb_cmdline = 0, mods_count = 0, mods_addr = 0,
     mmap_length = 48, mmap_addr = 0x1000, framebuffer_addr = 0, framebuffer_pitch = 0, framebuffer_width = 0,
     framebuffer_height = 0, framebuffer_bpp = 0\<rparr>"

definition boot_heap :: heap where
  "boot_heap = heap_example\<lparr>mach := vm_example\<lparr>pmem := st32 (\<lambda>_ _. 0) 0x200 768 0x201003, cr3 := 0x200000\<rparr>\<rparr>"


section \<open>The disk comes up\<close>

text \<open>A write of one block fails only when no block is free before it.\<close>

lemma write_one_block:
  assumes "fs_wf p" "live_file p (unat ino)" "length data = unat len" "0 < unat len" "unat len \<le> 512" "c < 32768" "\<not> bbit p c"
  shows "fst (pfs_write_file ino data len p)"
proof -
  let ?nd = "inode_at p (unat ino)"
  have ok: "fs_ok p" "bbit p 0" "nd_ok p ?nd" and lt: "unat ino < 4096" "itype ?nd = 1"
    using assms(1,2) by (auto simp: fs_wf_def live_file_def)
  obtain nd1 p1 where ws: "write_slot 0 ?nd p = (Some nd1, p1)" "extends p ?nd p1 nd1" "iblocks nd1 ! 0 \<noteq> 0"
    using write_slot_at [OF ok(1,3,2), of 0] assms(6,7) by auto
  have ok1: "fs_ok p1" "inode_ok nd1" "nd_ok p1 nd1" using ws(2) by (auto simp: extends_def nd_ok_def)
  then have "unat (iblocks nd1 ! 0) < 32768" using blocks_of_nth [of nd1 0] ws(3) by (auto simp: nd_ok_def)
  from wr_data [OF ok1(1) this, of "file_sector data 0"] obtain d where
    wr: "ata_write_sector (data_start_sec (sb p1) + iblocks nd1 ! 0) (file_sector data 0) (dev p1) = (True, d)"
      "p1\<lparr>dev := d\<rparr> = set_data (unat (iblocks nd1 ! 0)) (file_sector data 0) p1" by auto
  have "unat (len + PFS_BLOCK_SIZE - 1) = unat len + 511"
    using assms(5) unat_add_u32 [of len 511] by (simp add: add_diff_eq [symmetric])
  then have bn: "unat ((len + PFS_BLOCK_SIZE - 1) div PFS_BLOCK_SIZE) = 1" using assms(4,5) by simp
  have wb: "write_blocks [0..<1] data len 0 ?nd p = (Some nd1, p1\<lparr>dev := d\<rparr>)"
    using ws(1) wr(1) written_sector(1) [OF assms(3), of 0 0, OF _ _ refl] assms(4) by (simp add: Let_def)
  have p2: "fs_ok (p1\<lparr>dev := d\<rparr>)" "inode_ok (nd1\<lparr>isize := len\<rparr>)"
    using ok1 unfolding wr(2) by (auto intro!: fs_ok_setters simp: inode_ok_def)
  show ?thesis
    using write_inode_at [OF p2(1) lt(1) p2(2)] wb read_inode_at [OF ok(1) lt(1)] lt(2) bn
    by (simp add: pfs_write_file_def Let_def word_less_nat_alt)
qed

lemma hello_names:
  "cstr_of hello_name = hello_name" "hello_name \<noteq> [46]" "hello_name \<noteq> [46, 46]" "length hello_name = 9"
  "length hello_text = 18" "strlen hello_text = 18"
  by code_simp+

lemma boot_mount_formats:
  assumes "ata_ok (dev p)" "\<not> fst (pfs_mount p)"
  shows "boot_mount p = formatted (dev p)"
proof -
  obtain q where "pfs_mount p = (False, q)" "dev q = dev p"
    using assms(2) by (auto simp: pfs_mount_def Let_def split: option.splits)
  then show ?thesis using mount_formatted [OF assms(1)] by (cases q) (simp add: boot_mount_def)
qed

lemma boot_seed_reads:
  assumes "ata_ok a"
  shows "\<exists>n. pfs_lookup hello_name (boot_seed (formatted a)) = int n \<and>
    pfs_read_file (of_nat n) 6144 (boot_seed (formatted a)) = Some hello_text"
proof -
  note wf = formatted_wf [OF assms]
  have no: "pfs_lookup hello_name (formatted a) = -1" using formatted_lookup_none [OF assms, of hello_name] hello_names by simp
  have dw: "dir_wf (data_at (formatted a) 0)" by (simp add: formatted_dir mkfs_dir_wf)
  obtain n p where p: "pfs_create hello_name (formatted a) = (int n, p)" "n < 4096" "\<not> ibit (formatted a) n"
    "fs_wf p" "dir_wf (data_at p 0)" "live_file p n" "pfs_lookup hello_name p = int n" "\<forall>c<32768. bbit p c = bbit (formatted a) c"
    using create_spec [OF wf dw _ no] formatted_room [OF assms] hello_names by auto
  have "ibit (formatted a) 0" using wf by (simp add: fs_wf_def)
  then have n0: "0 < n" using p(3) by (metis gr0I)
  have u: "unat (of_nat n :: u32) = n" using p(2) by (simp add: unat_of_nat_u32)
  obtain ok p' where w: "pfs_write_file (of_nat n) hello_text 18 p = (ok, p')" by fastforce
  have l: "live_file p (unat (of_nat n :: u32))" "length hello_text = unat (18 :: u32)" using u p(6) hello_names by simp_all
  have ok: ok using write_one_block [OF p(4) l, of 1] w p(8) formatted_free_block by simp
  have r: "fs_wf p'" "data_at p' 0 = data_at p 0" "pfs_read_file (of_nat n) 6144 p' = Some hello_text"
    using write_read_spec [OF p(4) l _ w, of 6144] ok hello_names by simp_all
  then have "dir_wf (data_at p' 0)" using p(5) by simp
  then have "pfs_lookup hello_name p' = pfs_lookup hello_name p"
    unfolding lookup_at [OF r(1) \<open>dir_wf (data_at p' 0)\<close>] lookup_at [OF p(4,5)] r(2) by simp
  moreover have "boot_seed (formatted a) = p'" using no p(1) n0 w hello_names by (simp add: boot_seed_def)
  ultimately show ?thesis using p(7) r(3) by auto
qed

lemma boot_disk_mounts:
  assumes "length (mounts s) = 4" "\<forall>m \<in> set (mounts s). \<not> mused m"
  shows "find_mount (cstr_lit ''disk'') (boot_disk s) = Some \<lparr>prefix = cstr_lit ''disk'', mroot = Pfs_root, mused = True\<rparr>"
proof -
  obtain m ms where m: "mounts s = m # ms" using assms(1) by (cases "mounts s") auto
  then have "find (\<lambda>i. \<not> mused (mounts s ! i)) [0..<4] = Some 0" using assms(2) by (simp add: upt_rec)
  moreover have "name_copy (cstr_lit ''disk'') 63 = cstr_lit ''disk''" "strcmp (cstr_lit ''disk'') (cstr_lit ''disk'') = 0"
    by code_simp+
  ultimately show ?thesis using m by (simp add: find_mount_def boot_disk_def vfs_mount_def pfs_vfs_init_def Let_def)
qed

text \<open>
  C17: an unformatted disk is ready for use after the start. When the drive works and holds no file
  system, and nothing is mounted yet, the start formats it, mounts it as \<^verbatim>\<open>/disk\<close> and
  stores the first file: opening \<^verbatim>\<open>/disk/hello.txt\<close> finds a file, and reading it returns the greeting.
\<close>

theorem boot_disk_seeds:
  assumes "ata_ok (dev (fs s))" "\<not> fst (pfs_mount (fs s))" "vfs_root s = Some root"
    and "length (mounts s) = 4" "\<forall>m \<in> set (mounts s). \<not> mused m"
  shows "\<exists>s'. vfs_lookup (Some (cstr_lit ''/disk/hello.txt'')) (boot_disk s) = (Some Pfs_lookup_node, s') \<and>
    vfs_read self (Some Pfs_lookup_node) 0 64 s' = (Some (cstr_lit ''Hello from PumpsFS''), s')"
proof -
  let ?s = "boot_disk s"
  have st: "vfs_root ?s = Some root" "fs ?s = boot_seed (formatted (dev (fs s)))"
    "flags (vnodes ?s Pfs_root) = VFS_DIRECTORY" "finddir_fn (vnodes ?s Pfs_root) = Some Pfs_vfs_finddir"
    using assms(3) boot_mount_formats [OF assms(1,2)]
    by (simp_all add: boot_disk_def vfs_mount_def pfs_vfs_init_def Let_def split: option.split)
  obtain n where n: "pfs_lookup hello_name (fs ?s) = int n" "pfs_read_file (of_nat n) 6144 (fs ?s) = Some hello_text"
    using boot_seed_reads [OF assms(1)] st(2) by auto
  let ?s' = "pfs_make_node Pfs_lookup_node (of_nat n) hello_name ?s"
  have path: "skip_slash (cstr_lit ''/disk/hello.txt'') = cstr_lit ''disk/hello.txt''" "deref (cstr_lit ''disk/hello.txt'') \<noteq> 0"
    "path_component (cstr_lit ''disk/hello.txt'') 63 = (cstr_lit ''disk'', cstr_lit ''/hello.txt'')"
    "skip_slash (cstr_lit ''/hello.txt'') = hello_name" "deref hello_name \<noteq> 0" by code_simp+
  have "vfs_lookup (Some (cstr_lit ''/disk/hello.txt'')) ?s = (Some Pfs_lookup_node, ?s')"
    using st(1,3,4) n(1) path boot_disk_mounts [OF assms(4,5)] by (simp add: vfs_lookup_def vfs_finddir_def pfs_vfs_finddir_def Let_def)
  moreover have "ninode (vnodes ?s' Pfs_lookup_node) = of_nat n" "read_fn (vnodes ?s' Pfs_lookup_node) = Some Pfs_vfs_read" "fs ?s' = fs ?s"
    by (simp_all add: pfs_make_node_def Let_def split: option.split)
  then have "vfs_read self (Some Pfs_lookup_node) 0 64 ?s' = (Some hello_text, ?s')"
    using n(2) hello_names by (simp add: vfs_read_def pfs_vfs_read_def Let_def)
  ultimately show ?thesis by (auto simp: hello_text_def)
qed

text \<open>A disk of zeros, with the RAM disk as the root.\<close>

definition blank_disk :: vfs_state where
  "blank_disk = initrd_example\<lparr>vfs_root := Some Initrd_root, fs := \<lparr>dev = ata_example, sb = std_sb\<rparr>\<rparr>"

theorem boot_disk_seeds_witness:
  "\<exists>s'. vfs_lookup (Some (cstr_lit ''/disk/hello.txt'')) (boot_disk blank_disk) = (Some Pfs_lookup_node, s') \<and>
    vfs_read 0 (Some Pfs_lookup_node) 0 64 s' = (Some (cstr_lit ''Hello from PumpsFS''), s')"
proof (rule boot_disk_seeds)
  let ?p = "\<lparr>dev = ata_example, sb = std_sb\<rparr>"
  have "ata_read_sector 0 (dev ?p) = Some zero_sector"
    using rd_sec [of ?p 0] ata_example_ok by (simp add: fs_ok_def sec_def ata_example_def zero_sector_def)
  then have "\<not> fst (pfs_mount ?p)" by (simp add: pfs_mount_def superblock_of_def Let_def)
  then show "\<not> fst (pfs_mount (fs blank_disk))" by (simp add: blank_disk_def)
  show "ata_ok (dev (fs blank_disk))" "vfs_root blank_disk = Some Initrd_root" "length (mounts blank_disk) = 4"
    "\<forall>m \<in> set (mounts blank_disk). \<not> mused m"
    by (simp_all add: blank_disk_def ata_example_ok initrd_example_def)
qed

end
