(* ===== verification/User_Programs.thy ===== *)
theory User_Programs
  imports Syscall Shell Printf
begin

text \<open>
  Programs in user mode (\<^verbatim>\<open>user/cat.c\<close>, \<^verbatim>\<open>user/echo.c\<close>) running on the kernel: the system-call stubs and
  \<^verbatim>\<open>putchar\<close> of the C library enter the dispatcher of \<open>Syscall\<close> with the registers of the caller \<open>rg\<close>.
  Variables on the stack of a program are given by their addresses. \<open>None\<close> is a page fault, or a loop that
  does not end. None of the calls made here blocks, so the calling task stays the current one.
\<close>

section \<open>System-call stubs\<close>

definition int80 :: "sys_env \<Rightarrow> registers \<Rightarrow> u32 \<Rightarrow> u32 \<Rightarrow> u32 \<Rightarrow> u32 \<Rightarrow> kernel \<Rightarrow> (u32 \<times> kernel) option" where
  "int80 env rg num b c d k =
     map_option (\<lambda>(r, k). (r_eax r, k)) (syscall_dispatch env (rg\<lparr>r_eax := num, r_ebx := b, r_ecx := c, r_edx := d\<rparr>) k)"

definition u_write :: "sys_env \<Rightarrow> registers \<Rightarrow> u32 \<Rightarrow> u32 \<Rightarrow> u32 \<Rightarrow> kernel \<Rightarrow> (u32 \<times> kernel) option" where
  "u_write env rg fd buf len k = int80 env rg 1 fd buf len k"

definition u_read :: "sys_env \<Rightarrow> registers \<Rightarrow> u32 \<Rightarrow> u32 \<Rightarrow> u32 \<Rightarrow> kernel \<Rightarrow> (u32 \<times> kernel) option" where
  "u_read env rg fd buf len k = int80 env rg 5 fd buf len k"

definition u_open :: "sys_env \<Rightarrow> registers \<Rightarrow> u32 \<Rightarrow> u32 \<Rightarrow> kernel \<Rightarrow> (u32 \<times> kernel) option" where
  "u_open env rg path flgs k = int80 env rg 6 path flgs (r_edx rg) k"

definition u_close :: "sys_env \<Rightarrow> registers \<Rightarrow> u32 \<Rightarrow> kernel \<Rightarrow> (u32 \<times> kernel) option" where
  "u_close env rg fd k = int80 env rg 7 fd (r_ecx rg) (r_edx rg) k"

section \<open>Output\<close>

text \<open>\<open>tmp\<close> is the address of the local variable \<^verbatim>\<open>c\<close> of \<^verbatim>\<open>putchar\<close>.\<close>

definition u_putchar :: "sys_env \<Rightarrow> registers \<Rightarrow> u32 \<Rightarrow> u8 \<Rightarrow> kernel \<Rightarrow> kernel option" where
  "u_putchar env rg tmp c k =
     do { k \<leftarrow> user_write tmp [c] k; (r, k) \<leftarrow> u_write env rg 1 tmp 1 k; Some k }"

fun u_print :: "sys_env \<Rightarrow> registers \<Rightarrow> u32 \<Rightarrow> u8 list \<Rightarrow> kernel \<Rightarrow> kernel option" where
  "u_print env rg tmp [] k = Some k"
| "u_print env rg tmp (c # cs) k = do { k \<leftarrow> u_putchar env rg tmp c k; u_print env rg tmp cs k }"

definition u_printf :: "sys_env \<Rightarrow> registers \<Rightarrow> u32 \<Rightarrow> calls \<Rightarrow> kernel \<Rightarrow> kernel option" where
  "u_printf env rg tmp cs k = do { out \<leftarrow> emit cs; u_print env rg tmp out k }"

section \<open>cat\<close>

partial_function (option) cat_loop :: "sys_env \<Rightarrow> registers \<Rightarrow> u32 \<Rightarrow> u32 \<Rightarrow> kernel \<Rightarrow> kernel option" where
  "cat_loop env rg fd buf k =
     Option.bind (u_read env rg fd buf 128 k) (\<lambda>(n, k).
       if 0 < sint n then Option.bind (u_write env rg 1 buf n k) (\<lambda>(r, k). cat_loop env rg fd buf k)
       else Some k)"

text \<open>The arguments are given with the address of the second one; the result is the exit code.\<close>

definition cat :: "sys_env \<Rightarrow> registers \<Rightarrow> cstr list \<Rightarrow> u32 \<Rightarrow> u32 \<Rightarrow> u32 \<Rightarrow> kernel \<Rightarrow> (int \<times> kernel) option" where
  "cat env rg argv path buf tmp k =
     (if length argv < 2 then
        map_option (Pair 1) (u_printf env rg tmp [line ''%s'' [Str (cstr_lit ''usage: cat <file>'')]] k)
      else do {
        (fd, k) \<leftarrow> u_open env rg path 0 k;
        if sint fd < 0 then
          map_option (Pair 1) (u_printf env rg tmp [line ''cat: cannot open %s'' [Str (argv ! 1)]] k)
        else do {
          k \<leftarrow> cat_loop env rg fd buf k;
          (r, k) \<leftarrow> u_close env rg fd k;
          Some (0, k) } })"

section \<open>echo\<close>

fun echo_words :: "cstr list \<Rightarrow> calls" where
  "echo_words [] = []"
| "echo_words [w] = [part ''%s'' [Str w]]"
| "echo_words (w # v # ws) = part ''%s'' [Str w] # part '' '' [] # echo_words (v # ws)"

definition echo :: "sys_env \<Rightarrow> registers \<Rightarrow> cstr list \<Rightarrow> u32 \<Rightarrow> kernel \<Rightarrow> (int \<times> kernel) option" where
  "echo env rg argv tmp k =
     map_option (Pair 0) (u_printf env rg tmp (echo_words (tl argv) @ [line '''' []]) k)"

section \<open>Files as sequences of bytes\<close>

text \<open>What a program relies on when it reads a file: any read gives the bytes at the position, as far as there are any.\<close>

locale file_backend =
  fixes read_op :: "vref \<Rightarrow> u32 \<Rightarrow> u32 \<Rightarrow> vfs_state \<Rightarrow> u8 list"
    and whole :: "vref \<Rightarrow> vfs_state \<Rightarrow> u8 list"
    and good :: "vref \<Rightarrow> vfs_state \<Rightarrow> bool"
  assumes read_slice: "good n s \<Longrightarrow> unat off + unat len < 2 ^ 32 \<Longrightarrow> read_op n off len s = slice (unat off) (unat len) (whole n s)"
begin

lemma read_ends: "good n s \<Longrightarrow> unat off + unat len < 2 ^ 32 \<Longrightarrow> 0 < unat len \<Longrightarrow>
    read_op n off len s = [] \<longleftrightarrow> length (whole n s) \<le> unat off"
  by (auto simp: read_slice slice_def)

lemma read_pieces: "good n s \<Longrightarrow> unat off + unat len + unat len' < 2 ^ 32 \<Longrightarrow>
    read_op n off len s @ read_op n (off + len) len' s = read_op n off (len + len') s"
  by (simp add: read_slice unat_add_u32 slice_def take_add drop_drop add.commute)

end

definition initrd_whole :: "vref \<Rightarrow> vfs_state \<Rightarrow> u8 list" where
  "initrd_whole n s = (let f = initrd_files s ! unat (ninode (vnodes s n)) in mem_bytes (memory s) (fdata f) (unat (fsize f)))"

definition pfs_whole :: "vref \<Rightarrow> vfs_state \<Rightarrow> u8 list" where
  "pfs_whole n s = (case pfs_read_file (ninode (vnodes s n)) 6144 (fs s) of None \<Rightarrow> [] | Some bs \<Rightarrow> bs)"

interpretation ramdisk: file_backend initrd_read initrd_whole "\<lambda>n s. ninode (vnodes s n) < initrd_file_count s"
proof
  fix n and s :: vfs_state and off len :: u32
  assume "ninode (vnodes s n) < initrd_file_count s" "unat off + unat len < 2 ^ 32"
  then show "initrd_read n off len s = slice (unat off) (unat len) (initrd_whole n s)"
    using initrd_read_slice [of s n "unat (ninode (vnodes s n))" off len] by (simp add: initrd_whole_def Let_def word_less_nat_alt)
qed

interpretation pfs_disk: file_backend pfs_vfs_read pfs_whole "\<lambda>n s. True"
  by unfold_locales (auto simp: pfs_vfs_read_def pfs_whole_def slice_def Let_def min_def split: option.split)

text \<open>A node whose reads give the bytes of \<open>data\<close>.\<close>

definition file_has :: "vref \<Rightarrow> u8 list \<Rightarrow> vfs_state \<Rightarrow> bool" where
  "file_has n data s \<longleftrightarrow>
     (read_fn (vnodes s n) = Some Initrd_read \<and> ninode (vnodes s n) < initrd_file_count s \<and> data = initrd_whole n s \<or>
      read_fn (vnodes s n) = Some Pfs_vfs_read \<and> data = pfs_whole n s)"

lemma file_has_bytes:
  "file_has n data s \<Longrightarrow> unat off + unat len < 2 ^ 32 \<Longrightarrow> is_file n s \<and> file_bytes n off len s = slice (unat off) (unat len) data"
  by (auto simp: file_has_def is_file_def file_bytes_def ramdisk.read_slice pfs_disk.read_slice)

lemma file_has_frame [simp]:
  "file_has n data (set_machine m s) = file_has n data s" "file_has n data (s\<lparr>tty_out := out\<rparr>) = file_has n data s"
  by (simp_all add: file_has_def set_machine_def initrd_whole_def pfs_whole_def Let_def)

section \<open>Writing to the console\<close>

lemma vread_bytes_nth:
  "unat v + length bs \<le> 0xC0000000 \<Longrightarrow>
    (\<forall>w. unat v \<le> unat w \<and> unat w < unat v + length bs \<longrightarrow> vread8 w m = Some (bs ! (unat w - unat v))) \<Longrightarrow>
    vread_bytes v (length bs) m = Some bs"
proof (induction bs arbitrary: v)
  case (Cons b bs)
  have u: "unat (v + 1) = unat v + 1" using Cons.prems(1) by (simp add: unat_add_u32)
  have "vread8 v m = Some b" using Cons.prems(2) by simp
  moreover have "vread_bytes (v + 1) (length bs) m = Some bs"
  proof (rule Cons.IH)
    show "\<forall>w. unat (v + 1) \<le> unat w \<and> unat w < unat (v + 1) + length bs \<longrightarrow> vread8 w m = Some (bs ! (unat w - unat (v + 1)))"
      using Cons.prems(2) u by (auto simp: nth_Cons')
  qed (use Cons.prems(1) u in simp)
  ultimately show ?case by simp
qed simp

lemma console_write_spec:
  assumes "length (fds k) = 16" "fd_map k 1 = Some (Some Console, co)" "write_fn (vnodes (vfs k) Console) = Some Console_write"
    and "\<not> bad_range buf len" "vread_bytes buf (unat len) (kmach k) = Some bs" "length bs = unat len"
  shows "\<exists>k'. u_write env rg 1 buf len k = Some (len, k') \<and> length (fds k') = 16 \<and>
    fd_map k' = (fd_map k)(1 := Some (Some Console, co + len)) \<and> vfs k' = (vfs k)\<lparr>tty_out := tty_out (vfs k) @ bs\<rparr>"
proof -
  have f: "used (fds k ! 1)" "fnode (fds k ! 1) = Some Console" "offset (fds k ! 1) = co"
    using assms(2) by (auto simp: fd_map_def split: if_splits)
  let ?k = "k\<lparr>vfs := (vfs k)\<lparr>tty_out := tty_out (vfs k) @ bs\<rparr>\<rparr>"
  let ?k' = "set_fd 1 ((fds k ! 1)\<lparr>offset := co + len\<rparr>) ?k"
  have w: "vfs_write (Some Console) co len bs (vfs k) = Some (len, (vfs k)\<lparr>tty_out := tty_out (vfs k) @ bs\<rparr>)"
    using assms(3,6) by (simp add: vfs_write_def console_write_def)
  have "\<not> (16 :: u32) \<le> 1" by (simp add: word_le_nat_alt)
  then have "sys_write (rg\<lparr>r_eax := 1, r_ebx := 1, r_ecx := buf, r_edx := len\<rparr>) k = Some (Returned len, ?k')"
    unfolding sys_write_def Let_def range_guard using f w assms(3,4,5) by (simp add: fds_def takes_data_def)
  then have "u_write env rg 1 buf len k = Some (len, ?k')" by (simp add: u_write_def int80_def syscall_defs word_le_nat_alt)
  moreover have eq: "fds ?k = fds k" "fd_map ?k = fd_map k" by (simp_all add: fds_def fd_map_def fun_eq_iff)
  moreover have "fd_map ?k' = (fd_map k)(1 := Some (Some Console, co + len))"
    using fd_map_set_fd [of ?k 1] f eq assms(1) by simp
  moreover have "length (fds ?k') = 16" using eq(1) assms(1) by simp
  moreover have "vfs ?k' = (vfs k)\<lparr>tty_out := tty_out (vfs k) @ bs\<rparr>" by (simp add: set_fd_def set_task_def)
  ultimately show ?thesis by blast
qed

section \<open>A file is copied to the console\<close>

text \<open>
  A program reading \<open>data\<close> through descriptor \<open>fd\<close>, now at position \<open>off\<close>, with standard output on the
  console and a mapped buffer of 128 bytes.
\<close>

definition reading :: "vref \<Rightarrow> u8 list \<Rightarrow> u32 \<Rightarrow> u32 \<Rightarrow> u32 \<Rightarrow> kernel \<Rightarrow> bool" where
  "reading n data fd buf off k \<longleftrightarrow> space_wf (kmach k) \<and> length (fds k) = 16 \<and> fd \<noteq> 1 \<and>
     fd_map k (unat fd) = Some (Some n, off) \<and> (\<exists>co. fd_map k 1 = Some (Some Console, co)) \<and>
     write_fn (vnodes (vfs k) Console) = Some Console_write \<and> file_has n data (vfs k) \<and>
     length data + 128 < 2 ^ 32 \<and> unat off \<le> length data \<and> \<not> bad_range buf 128 \<and>
     (\<forall>w. unat buf \<le> unat w \<and> unat w < unat buf + 128 \<longrightarrow> translate (kmach k) w \<noteq> None)"

lemma read_step:
  assumes "reading n data fd buf off k" "bs = slice (unat off) 128 data"
  shows "\<exists>k'. u_read env rg fd buf 128 k = Some (of_nat (length bs), k') \<and> reading n data fd buf (off + of_nat (length bs)) k' \<and>
    vread_bytes buf (length bs) (kmach k') = Some bs \<and> tty_out (vfs k') = tty_out (vfs k) \<and>
    (\<forall>i. i \<noteq> unat fd \<longrightarrow> fd_map k' i = fd_map k i)"
proof -
  let ?r = "rg\<lparr>r_eax := 5, r_ebx := fd, r_ecx := buf, r_edx := 128\<rparr>"
  note r = assms(1) [unfolded reading_def]
  have o: "unat off + unat (128 :: u32) < 2 ^ 32" using r by simp
  then have fb: "is_file n (vfs k)" "bs = file_bytes n off 128 (vfs k)" using file_has_bytes [OF _ o, of n data "vfs k"] r assms(2) by auto
  have len: "length bs \<le> 128" "unat off + length bs \<le> length data" using assms(2) r by (auto simp: slice_def)
  then have uo: "unat (off + of_nat (length bs)) = unat off + length bs"
    using r by (subst unat_add_u32) (simp_all add: unat_of_nat_u32)
  obtain k' where k': "sys_read env ?r k = Some (Returned (of_nat (length bs)), k')" "length (fds k') = 16"
    "fd_map k' = (fd_map k)(unat fd := Some (Some n, off + of_nat (length bs)))"
    "vfs k' = set_machine (kmach k') (vfs k)" "same_map (kmach k) (kmach k')"
    "\<forall>w. user_addr w \<longrightarrow> vread8 w (kmach k') = (if unat buf \<le> unat w \<and> unat w < unat buf + length bs
        then Some (bs ! (unat w - unat buf)) else vread8 w (kmach k))"
    using sys_read_spec [of k ?r n off bs env] r fb by (simp cong: if_cong) blast
  have b: "unat buf + 128 \<le> 0xC0000000" using r by (auto simp: bad_range_def)
  then have vb: "vread_bytes buf (length bs) (kmach k') = Some bs" using k'(6) len by (intro vread_bytes_nth) auto
  obtain m where v: "vfs k' = set_machine m (vfs k)" using k'(4) by blast
  have "vnodes (vfs k') = vnodes (vfs k)" "file_has n data (vfs k')" and tty: "tty_out (vfs k') = tty_out (vfs k)"
    using r by (simp_all add: v) (simp_all add: set_machine_def)
  moreover have "unat fd \<noteq> 1" using r by (auto simp: word_eq_unat)
  moreover have "translate (kmach k') = translate (kmach k)" "space_wf (kmach k')" using k'(5) by (simp_all add: same_map_def)
  ultimately have "reading n data fd buf (off + of_nat (length bs)) k'"
    unfolding reading_def k'(3) uo using r k'(2) len(2) by simp
  moreover have "u_read env rg fd buf 128 k = Some (of_nat (length bs), k')" using k'(1) by (simp add: u_read_def int80_def syscall_defs)
  moreover have "\<forall>i. i \<noteq> unat fd \<longrightarrow> fd_map k' i = fd_map k i" using k'(3) by simp
  ultimately show ?thesis using vb tty by blast
qed

lemma write_step:
  assumes "reading n data fd buf off k" "vread_bytes buf (length bs) (kmach k) = Some bs" "length bs \<le> 128"
  shows "\<exists>k'. u_write env rg 1 buf (of_nat (length bs)) k = Some (of_nat (length bs), k') \<and> reading n data fd buf off k' \<and>
    tty_out (vfs k') = tty_out (vfs k) @ bs \<and> (\<forall>i. i \<noteq> 1 \<longrightarrow> fd_map k' i = fd_map k i)"
proof -
  note r = assms(1) [unfolded reading_def]
  have u: "unat (of_nat (length bs) :: u32) = length bs" using assms(3) by (simp add: unat_of_nat_u32)
  obtain co where co: "fd_map k 1 = Some (Some Console, co)" using r by blast
  have "\<not> bad_range buf (of_nat (length bs))" using r assms(3) u by (auto simp: bad_range_def)
  from console_write_spec [OF _ co _ this, of bs env rg] r assms(2) u
  obtain k' where k': "u_write env rg 1 buf (of_nat (length bs)) k = Some (of_nat (length bs), k')" "length (fds k') = 16"
    "fd_map k' = (fd_map k)(1 := Some (Some Console, co + of_nat (length bs)))" "vfs k' = (vfs k)\<lparr>tty_out := tty_out (vfs k) @ bs\<rparr>"
    by auto
  moreover have "unat fd \<noteq> 1" using r by (auto simp: word_eq_unat)
  ultimately show ?thesis using r by (intro exI [of _ k']) (auto simp: reading_def)
qed

lemma cat_loop_prints:
  "reading n data fd buf off k \<Longrightarrow>
    \<exists>k'. cat_loop env rg fd buf k = Some k' \<and> reading n data fd buf (of_nat (length data)) k' \<and>
      tty_out (vfs k') = tty_out (vfs k) @ drop (unat off) data \<and> (\<forall>i. i \<noteq> 1 \<and> i \<noteq> unat fd \<longrightarrow> fd_map k' i = fd_map k i)"
proof (induction "length data - unat off" arbitrary: off k rule: less_induct)
  case less
  let ?bs = "slice (unat off) 128 data"
  note r = less.prems [unfolded reading_def]
  obtain k1 where k1: "u_read env rg fd buf 128 k = Some (of_nat (length ?bs), k1)" "reading n data fd buf (off + of_nat (length ?bs)) k1"
    "vread_bytes buf (length ?bs) (kmach k1) = Some ?bs" "tty_out (vfs k1) = tty_out (vfs k)" "\<forall>i. i \<noteq> unat fd \<longrightarrow> fd_map k1 i = fd_map k i"
    using read_step [OF less.prems refl] by blast
  have len: "length ?bs = min 128 (length data - unat off)" by (simp add: slice_def)
  have s: "sint (of_nat (length ?bs) :: u32) = int (length ?bs)" using len by (simp add: signed_of_nat signed_take_bit_int_eq_self)
  show ?case
  proof (cases "unat off = length data")
    case True
    then have "of_nat (length data) = off" by (simp flip: True)
    then show ?thesis using k1 True len by (subst cat_loop.simps) (simp add: slice_def)
  next
    case False
    then have pos: "0 < length ?bs" "length ?bs \<le> 128" "unat off \<le> length data" using r len by auto
    obtain k2 where k2: "u_write env rg 1 buf (of_nat (length ?bs)) k1 = Some (of_nat (length ?bs), k2)"
      "reading n data fd buf (off + of_nat (length ?bs)) k2" "tty_out (vfs k2) = tty_out (vfs k1) @ ?bs"
      "\<forall>i. i \<noteq> 1 \<longrightarrow> fd_map k2 i = fd_map k1 i"
      using write_step [OF k1(2,3) pos(2)] by blast
    have uo: "unat (off + of_nat (length ?bs)) = unat off + length ?bs"
      using r pos len by (subst unat_add_u32) (simp_all add: unat_of_nat_u32 min_def)
    have "length data - unat (off + of_nat (length ?bs)) < length data - unat off" using uo pos False by linarith
    from less.hyps [OF this k2(2)] obtain k3 where "cat_loop env rg fd buf k2 = Some k3" "reading n data fd buf (of_nat (length data)) k3"
      "tty_out (vfs k3) = tty_out (vfs k2) @ drop (unat off + length ?bs) data" "\<forall>i. i \<noteq> 1 \<and> i \<noteq> unat fd \<longrightarrow> fd_map k3 i = fd_map k2 i"
      using uo by auto
    moreover have "?bs @ drop (unat off + length ?bs) data = drop (unat off) data"
      by (simp add: slice_def min_def) (metis add.commute append_take_drop_id drop_drop)
    moreover have "cat_loop env rg fd buf k = cat_loop env rg fd buf k2"
      using k1(1) k2(1) s pos by (subst cat_loop.simps) simp
    ultimately show ?thesis using k1(4,5) k2(3,4) by auto
  qed
qed

text \<open>Looking up a path prints nothing and leaves memory alone.\<close>

lemma finddir_frame: "tty_out (snd (vfs_finddir d name s)) = tty_out s \<and> kheap (snd (vfs_finddir d name s)) = kheap s"
  by (simp add: vfs_finddir_def pfs_vfs_finddir_def pfs_make_node_def Let_def split: option.split finddir_func.split)

lemma walk_frame: "tty_out (snd (walk_path p d s)) = tty_out s \<and> kheap (snd (walk_path p d s)) = kheap s"
proof (induction p d s rule: walk_path.induct)
  case (1 p d s)
  show ?case
  proof (cases "deref p = 0 \<or> d = None")
    case False
    then show ?thesis using 1 finddir_frame [of d] by (subst (1 2) walk_path.simps) (simp add: Let_def)
  qed (simp add: walk_path.simps)
qed

lemma lookup_frame:
  assumes "vfs_lookup path s = (r, v)"
  shows "tty_out v = tty_out s" "kheap v = kheap s"
  using assms walk_frame finddir_frame
  by (auto simp: vfs_lookup_def Let_def split: option.splits if_splits prod.splits) (metis snd_conv)+

text \<open>
  C8: \<^verbatim>\<open>cat\<close> prints the file. Run in a process whose standard output is the console, with a path to a file of
  the RAM disk or of the disk, a mapped buffer and a free descriptor, the program ends with exit
  code 0 and has put out exactly the bytes of the file, each once and in order, through the system
  calls of the kernel; its descriptors other than standard output are as before.
\<close>

theorem cat_prints_file:
  assumes "space_wf (kmach k)" "length (fds k) = 16" "fd_map k 1 = Some (Some Console, co)"
    and "path < KERNEL_BASE" "copy_in 127 path (kmach k) = Some name" "vfs_lookup (Some name) (vfs k) = (Some n, v)"
    and "file_has n data v" "length data + 128 < 2 ^ 32" "write_fn (vnodes v Console) = Some Console_write"
    and "\<exists>i. 3 \<le> i \<and> i < 16 \<and> fd_map k i = None" "\<not> bad_range buf 128"
    and "\<forall>w. unat buf \<le> unat w \<and> unat w < unat buf + 128 \<longrightarrow> translate (kmach k) w \<noteq> None"
  shows "\<exists>k'. cat env rg [cstr_lit ''cat'', name] path buf tmp k = Some (0, k') \<and>
    tty_out (vfs k') = tty_out (vfs k) @ data \<and> (\<forall>i. i \<noteq> 1 \<longrightarrow> fd_map k' i = fd_map k i)"
proof -
  let ?r = "rg\<lparr>r_eax := 6, r_ebx := path, r_ecx := 0, r_edx := r_edx rg\<rparr>"
  note fr = lookup_frame [OF assms(6)]
  have nf: "\<not> (\<forall>i. 3 \<le> i \<and> i < 16 \<longrightarrow> fd_map k i \<noteq> None)" using assms(10) by blast
  have "\<exists>k1. vfs k1 = v \<and> length (fds k1) = 16 \<and> (\<exists>fd. syscall_dispatch env ?r k = Some (?r\<lparr>r_eax := of_nat fd\<rparr>, k1) \<and>
      3 \<le> fd \<and> fd < 16 \<and> fd_map k fd = None \<and> (\<forall>i. 3 \<le> i \<and> i < fd \<longrightarrow> fd_map k i \<noteq> None) \<and>
      fd_map k1 = (fd_map k)(fd := Some (Some n, 0)))"
    using sys_open_lowest_descriptor [of ?r k name n v env, unfolded if_not_P [OF nf]] assms(2,4,5,6) by simp
  then obtain k1 fd where k1: "vfs k1 = v" "length (fds k1) = 16" "syscall_dispatch env ?r k = Some (?r\<lparr>r_eax := of_nat fd\<rparr>, k1)"
    "3 \<le> fd" "fd < 16" "fd_map k fd = None" "fd_map k1 = (fd_map k)(fd := Some (Some n, 0))" by blast
  let ?fd = "of_nat fd :: u32"
  have u: "unat ?fd = fd" "sint ?fd = int fd" using k1(5) by (simp_all add: unat_of_nat_u32 signed_of_nat signed_take_bit_int_eq_self)
  have "?fd \<noteq> 1" using u(1) k1(4) by (auto simp: word_eq_unat)
  then have "reading n data ?fd buf 0 k1"
    using assms(1,3,7-12) k1 u fr(2) by (simp add: reading_def)
  from cat_loop_prints [OF this, of env rg] obtain k2 where k2: "cat_loop env rg ?fd buf k1 = Some k2"
    "reading n data ?fd buf (of_nat (length data)) k2" "tty_out (vfs k2) = tty_out v @ data"
    "\<forall>i. i \<noteq> 1 \<and> i \<noteq> fd \<longrightarrow> fd_map k2 i = fd_map k1 i" using k1(1) u by auto
  let ?k3 = "set_fd fd \<lparr>fnode = None, offset = 0, used = False\<rparr> k2"
  have d: "fd_map k2 fd = Some (Some n, of_nat (length data))" "length (fds k2) = 16" using k2(2) u by (auto simp: reading_def)
  then have "used (fds k2 ! fd)" "\<not> 16 \<le> ?fd" using k1(5) u by (auto simp: fd_map_def word_le_nat_alt split: if_splits)
  then have "u_close env rg ?fd k2 = Some (0, ?k3)"
    using u by (simp add: u_close_def int80_def syscall_defs sys_close_def fds_def word_le_nat_alt)
  then have "cat env rg [cstr_lit ''cat'', name] path buf tmp k = Some (0, ?k3)"
    using k1(3) k2(1) u by (simp add: cat_def u_open_def int80_def)
  moreover have "fd_map ?k3 = (fd_map k2)(fd := None)" using fd_map_set_fd [OF d(2) k1(5)] by simp
  moreover have "vfs ?k3 = vfs k2" by (simp add: set_fd_def set_task_def)
  ultimately show ?thesis using k2(3,4) k1(6,7) fr(1) by auto
qed

section \<open>Words are printed\<close>

lemma printf_str: "length w < 2147483647 \<Longrightarrow> printf (cstr_lit ''%s'') [Str w] = Some (int (length w), w)"
  by (simp add: printf_def cstr_lit_def conversion_def convert_def)

lemma printf_plain: "printf (cstr_lit '' '') [] = Some (1, [32])" "printf [10] [] = Some (1, [10])"
  by code_simp+

lemma emit_append: "emit (xs @ ys) = (case (emit xs, emit ys) of (Some a, Some b) \<Rightarrow> Some (a @ b) | _ \<Rightarrow> None)"
  by (induction xs rule: emit.induct) (auto split: option.splits)

lemma emit_echo_words: "\<forall>w \<in> set ws. length w < 2147483647 \<Longrightarrow> emit (echo_words ws) = Some (join_words ws)"
  by (induction ws rule: echo_words.induct) (simp_all add: part_def printf_str printf_plain)

lemma emit_echo: "\<forall>w \<in> set ws. length w < 2147483647 \<Longrightarrow> emit (echo_words ws @ [line '''' []]) = Some (join_words ws @ [10])"
  by (simp add: emit_append emit_echo_words line_def printf_plain cstr_lit_def)

text \<open>A process that can print: standard output is the console and the local variable of \<^verbatim>\<open>putchar\<close> is mapped.\<close>

definition printing :: "u32 \<Rightarrow> kernel \<Rightarrow> bool" where
  "printing tmp k \<longleftrightarrow> space_wf (kmach k) \<and> length (fds k) = 16 \<and> (\<exists>co. fd_map k 1 = Some (Some Console, co)) \<and>
     write_fn (vnodes (vfs k) Console) = Some Console_write \<and> tmp < KERNEL_BASE \<and> translate (kmach k) tmp \<noteq> None"

lemma putchar_prints:
  assumes "printing tmp k"
  shows "\<exists>k'. u_putchar env rg tmp c k = Some k' \<and> printing tmp k' \<and> tty_out (vfs k') = tty_out (vfs k) @ [c]"
proof -
  note p = assms [unfolded printing_def]
  obtain co where co: "fd_map k 1 = Some (Some Console, co)" using p by blast
  have t: "unat tmp < 0xC0000000" using p by (simp add: word_less_nat_alt)
  have "translate (kmach k) w \<noteq> None" if "unat tmp \<le> unat w \<and> unat w < unat tmp + length [c]" for w
  proof -
    have "w = tmp" using that by (auto simp: word_eq_unat)
    then show ?thesis using p by simp
  qed
  then obtain m where m: "vwrite_bytes tmp [c] (kmach k) = Some m" "same_map (kmach k) m" "vread8 tmp m = Some c"
    using bytes_write [of "kmach k" tmp "[c]"] p t by auto
  define k1 where "k1 = set_kmach m k"
  have k1: "kmach k1 = m" "fds k1 = fds k" "fd_map k1 = fd_map k" "vnodes (vfs k1) = vnodes (vfs k)" "tty_out (vfs k1) = tty_out (vfs k)"
    by (simp_all add: k1_def set_kmach_def fds_def fd_map_def fun_eq_iff) (simp_all add: set_machine_def)
  have "\<not> bad_range tmp 1" using t by (simp add: bad_range_def)
  moreover have "vread_bytes tmp (unat (1 :: u32)) (kmach k1) = Some [c]" using k1(1) m(3) by (simp add: numeral_eq_Suc)
  ultimately obtain k2 where k2: "u_write env rg 1 tmp 1 k1 = Some (1, k2)" "length (fds k2) = 16"
    "fd_map k2 = (fd_map k1)(1 := Some (Some Console, co + 1))" "vfs k2 = (vfs k1)\<lparr>tty_out := tty_out (vfs k1) @ [c]\<rparr>"
    using console_write_spec [of k1 co tmp 1 "[c]" env rg] k1 co p by auto
  have "kmach k2 = kmach k1" using k2(4) by simp
  moreover have "u_putchar env rg tmp c k = Some k2" using m(1) k2(1) by (simp add: u_putchar_def user_write_def k1_def)
  moreover have "space_wf m" "translate m = translate (kmach k)" using m(2) by (simp_all add: same_map_def)
  ultimately show ?thesis using k1 k2 p by (intro exI [of _ k2]) (simp add: printing_def)
qed

lemma print_prints:
  "printing tmp k \<Longrightarrow> \<exists>k'. u_print env rg tmp cs k = Some k' \<and> printing tmp k' \<and> tty_out (vfs k') = tty_out (vfs k) @ cs"
proof (induction cs arbitrary: k)
  case (Cons c cs)
  obtain k1 where k1: "u_putchar env rg tmp c k = Some k1" "printing tmp k1" "tty_out (vfs k1) = tty_out (vfs k) @ [c]"
    using putchar_prints [OF Cons.prems] by blast
  then show ?case using Cons.IH [OF k1(2)] by auto
qed simp


section \<open>Witness\<close>

text \<open>A process with the path \<^verbatim>\<open>a\<close> in its memory, on a RAM disk that holds the file \<^verbatim>\<open>a\<close>.\<close>

definition cat_machine :: machine where
  "cat_machine = the (vwrite_bytes 0x500000 [97] user_machine)"

definition cat_vfs :: vfs_state where
  "cat_vfs = console_init (elf_example\<lparr>vfs_root := Some Initrd_root,
     vnodes := (vnodes elf_example)(Initrd_root := zero_node\<lparr>flags := VFS_DIRECTORY, finddir_fn := Some Initrd_finddir\<rparr>)\<rparr>)"

definition cat_kernel :: kernel where
  "cat_kernel = user_kernel\<lparr>vfs := set_machine cat_machine cat_vfs\<rparr>"

lemma cat_machine_ok:
  shows "space_wf cat_machine" "vread8 0x500000 cat_machine = Some 97" "vread8 0x500001 cat_machine = Some 0"
    and "unat w div 4096 = 1280 \<Longrightarrow> translate cat_machine w \<noteq> None"
proof -
  have t: "translate user_machine w \<noteq> None" if "unat (0x500000 :: u32) \<le> unat w \<and> unat w < unat (0x500000 :: u32) + length [97 :: u8]" for w
  proof -
    have "unat w div 4096 = 1280" using that by (simp, linarith)
    then show ?thesis using user_machine_ok(2) [of w] by simp
  qed
  obtain m where m: "vwrite_bytes 0x500000 [97] user_machine = Some m" "same_map user_machine m"
    "\<forall>w. user_addr w \<longrightarrow> vread8 w m = (if unat (0x500000 :: u32) \<le> unat w \<and> unat w < unat (0x500000 :: u32) + length [97 :: u8]
       then Some ([97] ! (unat w - unat (0x500000 :: u32))) else vread8 w user_machine)"
    using bytes_write [OF user_machine_ok(1), of "0x500000" "[97]"] t by auto
  have e: "cat_machine = m" using m(1) by (simp add: cat_machine_def)
  show "space_wf cat_machine" using e m(2) by (simp add: same_map_def)
  show "vread8 0x500000 cat_machine = Some 97" using e m(3) [rule_format, of "0x500000"] by simp
  show "vread8 0x500001 cat_machine = Some 0"
    using e m(3) [rule_format, of "0x500001"] user_machine_ok(2) [of "0x500001"] by simp
  show "unat w div 4096 = 1280 \<Longrightarrow> translate cat_machine w \<noteq> None"
    using e m(2) user_machine_ok(2) [of w] by (simp add: same_map_def)
qed

lemma cat_file: "file_has (Initrd_node 0) elf_image cat_vfs"
proof -
  have "initrd_read (Initrd_node 0) 0 85 elf_example = elf_image"
    using elf_example_bytes [of 0 85] by (simp add: file_bytes_def elf_example_def slice_def elf_image_def)
  moreover have "initrd_whole (Initrd_node 0) cat_vfs = initrd_whole (Initrd_node 0) elf_example"
    by (simp add: initrd_whole_def cat_vfs_def console_init_def)
  moreover have "initrd_whole (Initrd_node 0) elf_example = initrd_read (Initrd_node 0) 0 85 elf_example"
    using ramdisk.read_slice [of elf_example "Initrd_node 0" 0 85]
    by (simp add: slice_def initrd_whole_def elf_example_def zero_node_def)
  ultimately show ?thesis by (simp add: file_has_def cat_vfs_def console_init_def elf_example_def zero_node_def)
qed

lemma cat_lookup: "vfs_lookup (Some [97]) (set_machine m cat_vfs) = (Some (Initrd_node 0), set_machine m cat_vfs)"
proof -
  have m: "find_mount [97] (set_machine m cat_vfs) = None"
    by (simp add: find_mount_def set_machine_def cat_vfs_def console_init_def elf_example_def initrd_example_def numeral_eq_Suc)
  have f: "vfs_finddir (Some Initrd_root) [97] (set_machine m cat_vfs) = (Some (Initrd_node 0), set_machine m cat_vfs)"
    by (simp add: vfs_finddir_def initrd_finddir_def set_machine_def cat_vfs_def console_init_def elf_example_def strcmp.simps)
  have r: "vfs_root (set_machine m cat_vfs) = Some Initrd_root"
    by (simp add: set_machine_def cat_vfs_def console_init_def)
  have c: "path_component [97] 63 = ([97], [])" by code_simp
  show ?thesis using m f r c by (simp add: vfs_lookup_def skip_slash_def walk_path.simps Let_def)
qed

lemma cat_kernel_ok:
  "vfs cat_kernel = set_machine cat_machine cat_vfs" "kmach cat_kernel = cat_machine" "fds cat_kernel = fds user_kernel"
  "fd_map cat_kernel = fd_map user_kernel" "tty_out (vfs cat_kernel) = []"
  "write_fn (vnodes (vfs cat_kernel) Console) = Some Console_write"
proof -
  show v: "vfs cat_kernel = set_machine cat_machine cat_vfs" by (simp add: cat_kernel_def)
  then show "kmach cat_kernel = cat_machine" by simp
  show "fds cat_kernel = fds user_kernel" "fd_map cat_kernel = fd_map user_kernel"
    by (simp_all add: cat_kernel_def fds_def fd_map_def fun_eq_iff)
  show "tty_out (vfs cat_kernel) = []" "write_fn (vnodes (vfs cat_kernel) Console) = Some Console_write" unfolding v
    by (simp_all add: set_machine_def cat_vfs_def console_init_def elf_example_def initrd_example_def)
qed

theorem cat_prints_file_witness:
  "\<exists>k'. cat env_example (regs_example 0 0 0 0) [cstr_lit ''cat'', cstr_lit ''a''] 0x500000 0x500010 0 cat_kernel = Some (0, k') \<and>
    tty_out (vfs k') = elf_image"
proof -
  note v = cat_kernel_ok(1) and m = cat_kernel_ok(2) and d = cat_kernel_ok(3,4)
  have c: "copy_in 127 0x500000 (kmach cat_kernel) = Some [97]"
    using cat_machine_ok(2,3) m copy_in.simps(2) [of 126 "0x500000"] copy_in.simps(2) [of 125 "0x500001"] by simp
  have "translate (kmach cat_kernel) w \<noteq> None" if "unat (0x500010 :: u32) \<le> unat w \<and> unat w < unat (0x500010 :: u32) + 128" for w
  proof -
    have "unat w div 4096 = 1280" using that by (simp, linarith)
    then show ?thesis using cat_machine_ok(4) m by simp
  qed
  then have t: "\<forall>w. unat (0x500010 :: u32) \<le> unat w \<and> unat w < unat (0x500010 :: u32) + 128 \<longrightarrow> translate (kmach cat_kernel) w \<noteq> None"
    by blast
  have len: "length elf_image = 85" by (simp add: elf_image_def)
  note o = cat_kernel_ok(5) and w = cat_kernel_ok(6)
  have "\<exists>i. 3 \<le> i \<and> i < 16 \<and> fd_map cat_kernel i = None" using d user_kernel_map(4) by (intro exI [of _ 4]) simp
  moreover have "\<not> bad_range 0x500010 128" by (simp add: bad_range_def)
  ultimately have "\<exists>k'. cat env_example (regs_example 0 0 0 0) [cstr_lit ''cat'', [97]] 0x500000 0x500010 0 cat_kernel = Some (0, k') \<and>
    tty_out (vfs k') = tty_out (vfs cat_kernel) @ elf_image \<and> (\<forall>i. i \<noteq> 1 \<longrightarrow> fd_map k' i = fd_map cat_kernel i)"
    using cat_machine_ok(1) user_kernel_map(1,3) cat_file c t len w d m
    by (intro cat_prints_file [where n = "Initrd_node 0" and co = 0 and v = "vfs cat_kernel"])
      (simp_all add: v cat_lookup)
  then show ?thesis using o by (auto simp: cstr_lit_def)
qed


end
