(* ===== verification/Ps2.thy ===== *)
theory Ps2
  imports Keyboard Framebuffer Pic_Rtc Cpu_Tables
begin

text \<open>
  The PS/2 controller (\<^verbatim>\<open>arch/i386/ps2.c\<close>) and the set-up of the keyboard and the mouse behind it
  (\<^verbatim>\<open>keyboard_init\<close>, \<^verbatim>\<open>mouse_init\<close>), against a model of the 8042 chip. Messages and \<^verbatim>\<open>io_wait\<close> are left out.
  Interrupts are off while this runs.
\<close>

section \<open>The chip\<close>

text \<open>
  The configuration byte, the bytes waiting for the processor, the command whose data byte is
  expected next, whether the keyboard scans and the mouse reports.
\<close>

record i8042 =
  kc_config :: u8
  kc_out :: "u8 list"
  kc_expect :: "u8 option"
  kc_scanning :: bool
  kc_reporting :: bool

text \<open>
  Bit 4 of the configuration stops the clock of the first port, bit 5 that of the second; a
  device without a clock does not answer.
\<close>

definition chip_cmd :: "u8 \<Rightarrow> i8042 \<Rightarrow> i8042" where
  "chip_cmd v c =
     (let c = c\<lparr>kc_expect := None\<rparr> in
      if v = 0xAD then c\<lparr>kc_config := kc_config c OR 0x10\<rparr>
      else if v = 0xAE then c\<lparr>kc_config := kc_config c AND NOT 0x10\<rparr>
      else if v = 0xA7 then c\<lparr>kc_config := kc_config c OR 0x20\<rparr>
      else if v = 0xA8 then c\<lparr>kc_config := kc_config c AND NOT 0x20\<rparr>
      else if v = 0x20 then c\<lparr>kc_out := kc_out c @ [kc_config c]\<rparr>
      else if v = 0x60 \<or> v = 0xD4 then c\<lparr>kc_expect := Some v\<rparr>
      else c)"

definition to_keyboard :: "u8 \<Rightarrow> i8042 \<Rightarrow> i8042" where
  "to_keyboard v c =
     (if bit (kc_config c) 4 then c
      else c\<lparr>kc_out := kc_out c @ [0xFA], kc_scanning := (if v = 0xF4 then True else if v = 0xF5 then False else kc_scanning c)\<rparr>)"

definition to_mouse :: "u8 \<Rightarrow> i8042 \<Rightarrow> i8042" where
  "to_mouse v c =
     (if bit (kc_config c) 5 then c
      else if v = 0xFF then c\<lparr>kc_out := kc_out c @ [0xFA, 0xAA, 0x00], kc_reporting := False\<rparr>
      else c\<lparr>kc_out := kc_out c @ [0xFA], kc_reporting := (if v = 0xF4 then True else if v = 0xF5 then False else kc_reporting c)\<rparr>)"

definition chip_dat :: "u8 \<Rightarrow> i8042 \<Rightarrow> i8042" where
  "chip_dat v c =
     (let d = c\<lparr>kc_expect := None\<rparr> in
      case kc_expect c of
        None \<Rightarrow> to_keyboard v d
      | Some e \<Rightarrow> if e = 0x60 then d\<lparr>kc_config := v\<rparr> else to_mouse v d)"

text \<open>
  The chip takes time: \<open>busy\<close> and \<open>late\<close> count the reads of the status register until it can take
  the next byte and until the first waiting byte is there, at most \<open>lat\<close> each. A byte written too
  early is lost, a byte read too early is the last one again.
\<close>

record ps2_bus =
  chip :: i8042
  busy :: nat
  late :: nat
  lat :: nat
  latch :: u8

definition in_status :: "ps2_bus \<Rightarrow> u8 \<times> ps2_bus" where
  "in_status b =
     ((if kc_out (chip b) \<noteq> [] \<and> late b = 0 then 1 else 0) OR (if busy b > 0 then 2 else 0),
      b\<lparr>busy := busy b - 1, late := late b - 1\<rparr>)"

definition in_data :: "ps2_bus \<Rightarrow> u8 \<times> ps2_bus" where
  "in_data b =
     (if kc_out (chip b) = [] \<or> late b > 0 then (latch b, b)
      else (hd (kc_out (chip b)), b\<lparr>chip := (chip b)\<lparr>kc_out := tl (kc_out (chip b))\<rparr>, latch := hd (kc_out (chip b))\<rparr>))"

definition out_port :: "(i8042 \<Rightarrow> i8042) \<Rightarrow> ps2_bus \<Rightarrow> ps2_bus" where
  "out_port f b =
     (if busy b > 0 then b
      else b\<lparr>chip := f (chip b), busy := lat b, late := (if kc_out (chip b) = [] then lat b else late b)\<rparr>)"

section \<open>The driver\<close>

abbreviation (input) PS2_TIMEOUT :: nat where "PS2_TIMEOUT \<equiv> 100000"

fun ps2_wait_output :: "nat \<Rightarrow> ps2_bus \<Rightarrow> bool \<times> ps2_bus" where
  "ps2_wait_output 0 b = (False, b)"
| "ps2_wait_output (Suc timeout) b =
     (case in_status b of (status, b) \<Rightarrow> if status AND 1 \<noteq> 0 then (True, b) else ps2_wait_output timeout b)"

fun ps2_wait_input :: "nat \<Rightarrow> ps2_bus \<Rightarrow> bool \<times> ps2_bus" where
  "ps2_wait_input 0 b = (False, b)"
| "ps2_wait_input (Suc timeout) b =
     (case in_status b of (status, b) \<Rightarrow> if status AND 2 = 0 then (True, b) else ps2_wait_input timeout b)"

lemma status_bits:
  "fst (in_status b) AND 1 \<noteq> 0 \<longleftrightarrow> kc_out (chip b) \<noteq> [] \<and> late b = 0"
  "fst (in_status b) AND 2 \<noteq> 0 \<longleftrightarrow> busy b > 0"
  by (simp_all add: in_status_def)

function ps2_flush :: "ps2_bus \<Rightarrow> ps2_bus" where
  "ps2_flush b =
     (if fst (in_status b) AND 1 \<noteq> 0 then ps2_flush (snd (in_data (snd (in_status b)))) else snd (in_status b))"
  by pat_completeness auto

termination
  by (relation "measure (\<lambda>b. length (kc_out (chip b)))") (auto simp: status_bits in_data_def, simp_all add: in_status_def)

declare ps2_flush.simps [simp del]

definition ps2_read_data :: "ps2_bus \<Rightarrow> u8 \<times> ps2_bus" where
  "ps2_read_data b = in_data (snd (ps2_wait_output PS2_TIMEOUT b))"

definition ps2_read_data_nonblock :: "ps2_bus \<Rightarrow> u8 option \<times> ps2_bus" where
  "ps2_read_data_nonblock b =
     (case in_status b of (status, b) \<Rightarrow>
        if status AND 1 \<noteq> 0 then (case in_data b of (d, b) \<Rightarrow> (Some d, b)) else (None, b))"

definition ps2_write_data :: "u8 \<Rightarrow> ps2_bus \<Rightarrow> ps2_bus" where
  "ps2_write_data v b = out_port (chip_dat v) (snd (ps2_wait_input PS2_TIMEOUT b))"

definition ps2_send_command :: "u8 \<Rightarrow> ps2_bus \<Rightarrow> ps2_bus" where
  "ps2_send_command v b = out_port (chip_cmd v) (snd (ps2_wait_input PS2_TIMEOUT b))"

definition ps2_init :: "ps2_bus \<Rightarrow> ps2_bus" where
  "ps2_init b =
     (let b = ps2_send_command 0xAD b;
          b = ps2_send_command 0xA7 b;
          b = ps2_flush b;
          b = ps2_send_command 0x20 b;
          (config, b) = ps2_read_data b;
          config = config OR 0x01;
          config = config AND NOT 0x02;
          config = config OR 0x40;
          b = ps2_send_command 0x60 b;
          b = ps2_write_data config b
      in ps2_send_command 0xAE b)"

section \<open>Keyboard and mouse\<close>

text \<open>What the two drivers share; \<open>woken\<close> are the tasks that the keyboard interrupt made ready.\<close>

record input_devices =
  bus :: ps2_bus
  chips :: pics
  keyb :: keyboard
  scr :: screen
  woken :: "u32 list"

definition keyboard_irq :: "input_devices \<Rightarrow> input_devices" where
  "keyboard_irq s =
     (case in_data (bus s) of (scancode, b) \<Rightarrow>
      case keyboard_irq_handler scancode (keyb s) of (w, k) \<Rightarrow>
        s\<lparr>bus := b, keyb := k, woken := woken s @ (case w of None \<Rightarrow> [] | Some t \<Rightarrow> [t]), chips := pic_send_eoi 1 (chips s)\<rparr>)"

definition mouse_irq :: "input_devices \<Rightarrow> input_devices" where
  "mouse_irq s =
     (case in_data (bus s) of (data, b) \<Rightarrow>
        s\<lparr>bus := b, scr := mouse_irq_handler data (scr s), chips := pic_send_eoi 12 (chips s)\<rparr>)"

definition keyboard_start :: "input_devices \<Rightarrow> input_devices handlers \<Rightarrow> input_devices \<times> input_devices handlers" where
  "keyboard_start s hs =
     (let s = s\<lparr>keyb := keyboard_init (keyb s), bus := ps2_init (bus s)\<rparr>;
          hs = isr_register_handler 33 keyboard_irq hs;
          s = s\<lparr>chips := pic_clear_mask 1 (chips s)\<rparr>;
          b = ps2_write_data 0xF4 (bus s);
          (ok, b) = ps2_wait_output PS2_TIMEOUT b;
          b = (if ok then snd (in_data b) else b)
      in (s\<lparr>bus := b\<rparr>, hs))"

definition mouse_command :: "u8 \<Rightarrow> ps2_bus \<Rightarrow> ps2_bus" where
  "mouse_command cmd b = ps2_write_data cmd (ps2_send_command 0xD4 b)"

definition mouse_init :: "input_devices \<Rightarrow> input_devices handlers \<Rightarrow> input_devices \<times> input_devices handlers" where
  "mouse_init s hs =
     (let b = ps2_send_command 0xA8 (bus s);
          b = ps2_send_command 0x20 b;
          (config, b) = ps2_read_data b;
          config = config OR 0x02;
          config = config AND NOT 0x20;
          b = ps2_send_command 0x60 b;
          b = ps2_write_data config b;
          b = mouse_command 0xFF b;
          (r_ack, b) = ps2_read_data b;
          (r_test, b) = ps2_read_data b;
          (r_id, b) = ps2_read_data b;
          b = mouse_command 0xF4 b;
          (r_en, b) = ps2_read_data b;
          hs = isr_register_handler 44 mouse_irq hs;
          p = pic_clear_mask 2 (chips s);
          p = pic_clear_mask 12 p;
          d = (scr s)\<lparr>mouse_x := fb_width (scr s) div 2, mouse_y := fb_height (scr s) div 2, packet_index := 0\<rparr>
      in (s\<lparr>bus := b, chips := p, scr := d\<rparr>, hs))"

section \<open>No byte is lost\<close>

definition prompt_bus :: "ps2_bus \<Rightarrow> bool" where
  "prompt_bus b \<longleftrightarrow> busy b \<le> lat b \<and> late b \<le> lat b \<and> lat b < PS2_TIMEOUT"

lemma wait_input_spec:
  "busy b < t \<Longrightarrow> ps2_wait_input t b = (True, b\<lparr>busy := 0, late := late b - (busy b + 1)\<rparr>)"
proof (induction t arbitrary: b)
  case (Suc t)
  show ?case
  proof (cases "busy b = 0")
    case True
    then show ?thesis by (simp add: in_status_def)
  next
    case False
    then have "fst (in_status b) AND 2 \<noteq> 0" by (simp add: status_bits)
    then have "ps2_wait_input (Suc t) b = ps2_wait_input t (snd (in_status b))" by (simp add: case_prod_beta)
    then show ?thesis using Suc.IH [of "snd (in_status b)"] Suc.prems False by (simp add: in_status_def)
  qed
qed simp

lemma wait_output_spec:
  "late b < t \<Longrightarrow> kc_out (chip b) \<noteq> [] \<Longrightarrow> ps2_wait_output t b = (True, b\<lparr>busy := busy b - (late b + 1), late := 0\<rparr>)"
proof (induction t arbitrary: b)
  case (Suc t)
  show ?case
  proof (cases "late b = 0")
    case True
    then show ?thesis using Suc.prems by (simp add: in_status_def)
  next
    case False
    then have "fst (in_status b) AND 1 = 0" using status_bits(1) [of b] by simp
    then have "ps2_wait_output (Suc t) b = ps2_wait_output t (snd (in_status b))" by (simp add: case_prod_beta)
    then show ?thesis using Suc.IH [of "snd (in_status b)"] Suc.prems False by (simp add: in_status_def)
  qed
qed simp

lemma ps2_out_spec:
  assumes "prompt_bus b"
  shows "chip (ps2_send_command v b) = chip_cmd v (chip b)" "prompt_bus (ps2_send_command v b)"
    "chip (ps2_write_data v b) = chip_dat v (chip b)" "prompt_bus (ps2_write_data v b)"
    "kc_out (chip b) \<noteq> [] \<Longrightarrow> late (ps2_send_command v b) \<le> late b"
  using assms wait_input_spec [of b PS2_TIMEOUT] by (auto simp: prompt_bus_def ps2_send_command_def ps2_write_data_def out_port_def)

lemma ps2_read_spec:
  assumes "prompt_bus b" "kc_out (chip b) = x # xs"
  shows "fst (ps2_read_data b) = x" "chip (snd (ps2_read_data b)) = (chip b)\<lparr>kc_out := xs\<rparr>" "prompt_bus (snd (ps2_read_data b))"
  using assms wait_output_spec [of b PS2_TIMEOUT] by (auto simp: prompt_bus_def ps2_read_data_def in_data_def)

lemma ps2_flush_spec:
  "prompt_bus b \<Longrightarrow> kc_out (chip b) \<noteq> [] \<longrightarrow> late b = 0 \<Longrightarrow>
    chip (ps2_flush b) = (chip b)\<lparr>kc_out := []\<rparr> \<and> prompt_bus (ps2_flush b)"
proof (induction b rule: ps2_flush.induct)
  case (1 b)
  show ?case
  proof (cases "kc_out (chip b) = []")
    case True
    then have "\<not> fst (in_status b) AND 1 \<noteq> 0" using status_bits(1) [of b] by simp
    then have "ps2_flush b = snd (in_status b)" by (subst ps2_flush.simps) simp
    then show ?thesis using 1(2) True by (auto simp: in_status_def prompt_bus_def)
  next
    case False
    let ?b = "snd (in_data (snd (in_status b)))"
    have s: "fst (in_status b) AND 1 \<noteq> 0" using 1(3) False status_bits(1) [of b] by simp
    have c: "chip ?b = (chip b)\<lparr>kc_out := tl (kc_out (chip b))\<rparr>" "prompt_bus ?b" "late ?b = 0"
      using 1(2,3) False by (auto simp: in_status_def in_data_def prompt_bus_def)
    have "ps2_flush b = ps2_flush ?b" using s by (subst ps2_flush.simps) simp
    then show ?thesis using 1(1) [OF s c(2)] c by simp
  qed
qed

text \<open>The configuration byte after each of the two set-ups, by evaluation of all 256 cases.\<close>

lemma all_bytes: "list_all (\<lambda>n. P (of_nat n :: u8)) [0..<256] \<Longrightarrow> P c"
  using unsigned_less [of c] by (auto simp: list_all_iff dest: bspec [where x = "unat c"])

lemma config_bits:
  "((((c OR 0x10) OR 0x20 OR 0x01) AND NOT 0x02) OR 0x40) AND NOT 0x10 = ((c OR 0x61) AND NOT 0x12 :: u8)"
  "(((((c OR 0x61) AND NOT 0x12) AND NOT 0x20) OR 0x02) AND NOT 0x20) = ((c OR 0x43) AND NOT 0x30 :: u8)"
  "\<not> bit ((c OR 0x61) AND NOT 0x12 :: u8) 4" "\<not> bit ((c OR 0x43) AND NOT 0x30 :: u8) 5"
  by (rule all_bytes [where P = "\<lambda>c. ((((c OR 0x10) OR 0x20 OR 0x01) AND NOT 0x02) OR 0x40) AND NOT 0x10 = ((c OR 0x61) AND NOT 0x12 :: u8)"], code_simp)
    (rule all_bytes [where P = "\<lambda>c. (((((c OR 0x61) AND NOT 0x12) AND NOT 0x20) OR 0x02) AND NOT 0x20) = ((c OR 0x43) AND NOT 0x30 :: u8)"], code_simp,
     rule all_bytes [where P = "\<lambda>c. \<not> bit ((c OR 0x61) AND NOT 0x12 :: u8) 4"], code_simp,
     rule all_bytes [where P = "\<lambda>c. \<not> bit ((c OR 0x43) AND NOT 0x30 :: u8) 5"], code_simp)

lemma ps2_read_step:
  assumes "prompt_bus b" "kc_out (chip b) = x # xs"
  obtains b' where "ps2_read_data b = (x, b')" "chip b' = (chip b)\<lparr>kc_out := xs\<rparr>" "prompt_bus b'"
  using ps2_read_spec [OF assms] that by (metis prod.collapse)

lemma ps2_init_spec:
  assumes "prompt_bus b" "kc_out (chip b) \<noteq> [] \<longrightarrow> late b = 0"
  shows "chip (ps2_init b) = (chip b)\<lparr>kc_config := (kc_config (chip b) OR 0x61) AND NOT 0x12, kc_out := [], kc_expect := None\<rparr>"
    "prompt_bus (ps2_init b)"
proof -
  define b1 where "b1 = ps2_send_command 0xA7 (ps2_send_command 0xAD b)"
  define b2 where "b2 = ps2_send_command 0x20 (ps2_flush b1)"
  let ?c = "(kc_config (chip b) OR 0x10) OR 0x20"
  have c1: "chip (ps2_send_command 0xAD b) = (chip b)\<lparr>kc_config := kc_config (chip b) OR 0x10, kc_expect := None\<rparr>"
    "prompt_bus (ps2_send_command 0xAD b)" using ps2_out_spec [OF assms(1)] by (simp_all add: chip_cmd_def)
  then have b1: "chip b1 = (chip b)\<lparr>kc_config := ?c, kc_expect := None\<rparr>" "prompt_bus b1"
    using ps2_out_spec [OF c1(2)] by (simp_all add: b1_def chip_cmd_def)
  have "kc_out (chip b1) \<noteq> [] \<longrightarrow> late b1 = 0"
    using assms ps2_out_spec(5) [OF assms(1), of "0xAD"] ps2_out_spec(5) [OF c1(2), of "0xA7"] c1(1) b1(1) by (auto simp: b1_def)
  from ps2_flush_spec [OF b1(2) this] have f: "chip (ps2_flush b1) = (chip b1)\<lparr>kc_out := []\<rparr>" "prompt_bus (ps2_flush b1)" by simp_all
  have b2: "chip b2 = (chip b)\<lparr>kc_config := ?c, kc_expect := None, kc_out := [?c]\<rparr>" "prompt_bus b2"
    using ps2_out_spec [OF f(2)] f(1) b1(1) by (simp_all add: b2_def chip_cmd_def)
  then have "kc_out (chip b2) = ?c # []" by simp
  from ps2_read_step [OF b2(2) this] obtain b3 where b3: "ps2_read_data b2 = (?c, b3)" "chip b3 = (chip b2)\<lparr>kc_out := []\<rparr>" "prompt_bus b3" .
  let ?d = "((?c OR 0x01) AND NOT 0x02) OR 0x40"
  have e: "ps2_init b = ps2_send_command 0xAE (ps2_write_data ?d (ps2_send_command 0x60 b3))"
    using b3(1) by (simp only: ps2_init_def Let_def b2_def [symmetric] b1_def [symmetric] case_prod_conv)
  note s1 = ps2_out_spec [OF b3(3)]
  note s2 = ps2_out_spec [OF s1(2)]
  note s3 = ps2_out_spec [OF s2(4)]
  show "prompt_bus (ps2_init b)" using e s3(2) by simp
  show "chip (ps2_init b) = (chip b)\<lparr>kc_config := (kc_config (chip b) OR 0x61) AND NOT 0x12, kc_out := [], kc_expect := None\<rparr>"
    unfolding e s3(1) s2(3) s1(1) b3(2) b2(1) using config_bits(1) [of "kc_config (chip b)"] by (simp add: chip_cmd_def chip_dat_def or.assoc)
qed

lemma keyboard_start_spec:
  assumes "prompt_bus (bus s)" "kc_out (chip (bus s)) \<noteq> [] \<longrightarrow> late (bus s) = 0"
  obtains b where "keyboard_start s hs = (s\<lparr>bus := b, chips := pic_clear_mask 1 (chips s), keyb := keyboard_init (keyb s)\<rparr>, hs(33 \<mapsto> keyboard_irq))"
    "prompt_bus b" "chip b = (chip (bus s))\<lparr>kc_config := (kc_config (chip (bus s)) OR 0x61) AND NOT 0x12, kc_out := [], kc_expect := None, kc_scanning := True\<rparr>"
proof -
  note i = ps2_init_spec [OF assms]
  define b1 where "b1 = ps2_write_data 0xF4 (ps2_init (bus s))"
  let ?c = "(chip (bus s))\<lparr>kc_config := (kc_config (chip (bus s)) OR 0x61) AND NOT 0x12, kc_out := [], kc_expect := None, kc_scanning := True\<rparr>"
  have b1: "chip b1 = ?c\<lparr>kc_out := [0xFA]\<rparr>" "prompt_bus b1"
    using ps2_out_spec(3,4) [OF i(2), of "0xF4"] i(1) config_bits(3) [of "kc_config (chip (bus s))"] by (simp_all add: b1_def chip_dat_def to_keyboard_def)
  then have "late b1 < PS2_TIMEOUT" "kc_out (chip b1) = [0xFA]" by (simp_all add: prompt_bus_def)
  then have "ps2_wait_output PS2_TIMEOUT b1 = (True, b1\<lparr>busy := busy b1 - (late b1 + 1), late := 0\<rparr>)" by (intro wait_output_spec) simp_all
  then have "keyboard_start s hs = (s\<lparr>bus := snd (ps2_read_data b1), chips := pic_clear_mask 1 (chips s), keyb := keyboard_init (keyb s)\<rparr>, hs(33 \<mapsto> keyboard_irq))"
    by (simp add: keyboard_start_def Let_def b1_def [symmetric] isr_register_handler_def ps2_read_data_def)
  moreover have "chip (snd (ps2_read_data b1)) = ?c" "prompt_bus (snd (ps2_read_data b1))"
    using ps2_read_spec [OF b1(2), of "0xFA" "[]"] b1(1) by simp_all
  ultimately show ?thesis using that by blast
qed

lemma mouse_command_spec:
  assumes "prompt_bus b" "kc_out (chip b) = []" "\<not> bit (kc_config (chip b)) 5"
  shows "prompt_bus (mouse_command v b)"
    "chip (mouse_command 0xFF b) = (chip b)\<lparr>kc_out := [0xFA, 0xAA, 0x00], kc_expect := None, kc_reporting := False\<rparr>"
    "chip (mouse_command 0xF4 b) = (chip b)\<lparr>kc_out := [0xFA], kc_expect := None, kc_reporting := True\<rparr>"
proof -
  note s1 = ps2_out_spec [OF assms(1), of "0xD4"]
  note s2 = ps2_out_spec(3,4) [OF s1(2)]
  show "prompt_bus (mouse_command v b)" using s2(2) by (simp add: mouse_command_def)
  show "chip (mouse_command 0xFF b) = (chip b)\<lparr>kc_out := [0xFA, 0xAA, 0x00], kc_expect := None, kc_reporting := False\<rparr>"
    "chip (mouse_command 0xF4 b) = (chip b)\<lparr>kc_out := [0xFA], kc_expect := None, kc_reporting := True\<rparr>"
    unfolding mouse_command_def s2(1) s1(1) using assms(2,3) by (simp_all add: chip_cmd_def chip_dat_def to_mouse_def)
qed

lemma mouse_init_spec:
  assumes "prompt_bus (bus s)" "kc_out (chip (bus s)) = []" "kc_config (chip (bus s)) = (c OR 0x61) AND NOT 0x12"
  obtains b where "mouse_init s hs = (s\<lparr>bus := b, chips := pic_clear_mask 12 (pic_clear_mask 2 (chips s)),
      scr := (scr s)\<lparr>mouse_x := fb_width (scr s) div 2, mouse_y := fb_height (scr s) div 2, packet_index := 0\<rparr>\<rparr>, hs(44 \<mapsto> mouse_irq))"
    "chip b = (chip (bus s))\<lparr>kc_config := (c OR 0x43) AND NOT 0x30, kc_expect := None, kc_reporting := True\<rparr>"
proof -
  let ?c = "((c OR 0x61) AND NOT 0x12) AND NOT 0x20" and ?d = "(c OR 0x43) AND NOT 0x30"
  define b1 where "b1 = ps2_send_command 0x20 (ps2_send_command 0xA8 (bus s))"
  note s1 = ps2_out_spec [OF assms(1), of "0xA8"]
  have b1: "chip b1 = (chip (bus s))\<lparr>kc_config := ?c, kc_out := [?c], kc_expect := None\<rparr>" "prompt_bus b1"
    using ps2_out_spec [OF s1(2), of "0x20"] s1(1) assms(2,3) by (simp_all add: b1_def chip_cmd_def)
  then have "kc_out (chip b1) = ?c # []" by simp
  from ps2_read_step [OF b1(2) this] obtain b2 where b2: "ps2_read_data b1 = (?c, b2)" "chip b2 = (chip b1)\<lparr>kc_out := []\<rparr>" "prompt_bus b2" .
  define b3 where "b3 = ps2_write_data ?d (ps2_send_command 0x60 b2)"
  note s2 = ps2_out_spec [OF b2(3), of "0x60"]
  have b3: "chip b3 = (chip (bus s))\<lparr>kc_config := ?d, kc_out := [], kc_expect := None\<rparr>" "prompt_bus b3"
    using ps2_out_spec(3,4) [OF s2(2), of ?d] s2(1) b2(2) b1(1) by (simp_all add: b3_def chip_cmd_def chip_dat_def)
  have "kc_out (chip b3) = []" "\<not> bit (kc_config (chip b3)) 5" using b3(1) config_bits(4) [of c] by simp_all
  note m1 = mouse_command_spec [OF b3(2) this]
  have "kc_out (chip (mouse_command 0xFF b3)) = 0xFA # [0xAA, 0x00]" using m1(2) by simp
  from ps2_read_step [OF m1(1) this] obtain b4 where b4: "ps2_read_data (mouse_command 0xFF b3) = (0xFA, b4)"
    "chip b4 = (chip (mouse_command 0xFF b3))\<lparr>kc_out := [0xAA, 0x00]\<rparr>" "prompt_bus b4" .
  then have "kc_out (chip b4) = 0xAA # [0x00]" by simp
  from ps2_read_step [OF b4(3) this] obtain b5 where b5: "ps2_read_data b4 = (0xAA, b5)" "chip b5 = (chip b4)\<lparr>kc_out := [0x00]\<rparr>" "prompt_bus b5" .
  then have "kc_out (chip b5) = 0x00 # []" by simp
  from ps2_read_step [OF b5(3) this] obtain b6 where b6: "ps2_read_data b5 = (0x00, b6)" "chip b6 = (chip b5)\<lparr>kc_out := []\<rparr>" "prompt_bus b6" .
  have c6: "chip b6 = (chip (bus s))\<lparr>kc_config := ?d, kc_out := [], kc_expect := None, kc_reporting := False\<rparr>"
    using b6(2) b5(2) b4(2) m1(2) b3(1) by simp
  then have "kc_out (chip b6) = []" "\<not> bit (kc_config (chip b6)) 5" using config_bits(4) [of c] by simp_all
  note m2 = mouse_command_spec [OF b6(3) this]
  have "kc_out (chip (mouse_command 0xF4 b6)) = 0xFA # []" using m2(3) by simp
  from ps2_read_step [OF m2(1) this] obtain b7 where b7: "ps2_read_data (mouse_command 0xF4 b6) = (0xFA, b7)"
    "chip b7 = (chip (mouse_command 0xF4 b6))\<lparr>kc_out := []\<rparr>" "prompt_bus b7" .
  have d: "(?c OR 0x02) AND NOT 0x20 = ?d" by (rule config_bits(2))
  have "mouse_init s hs = (s\<lparr>bus := b7, chips := pic_clear_mask 12 (pic_clear_mask 2 (chips s)),
      scr := (scr s)\<lparr>mouse_x := fb_width (scr s) div 2, mouse_y := fb_height (scr s) div 2, packet_index := 0\<rparr>\<rparr>, hs(44 \<mapsto> mouse_irq))"
    by (simp only: mouse_init_def Let_def b1_def [symmetric] b2(1) case_prod_conv d b3_def [symmetric] b4(1) b5(1) b6(1) b7(1))
      (simp add: isr_register_handler_def)
  moreover have "chip b7 = (chip (bus s))\<lparr>kc_config := ?d, kc_expect := None, kc_reporting := True\<rparr>"
    using b7(2) m2(3) c6 assms(2) by simp
  ultimately show ?thesis using that by blast
qed

lemma final_config: "n < 8 \<Longrightarrow> bit ((c OR 0x43) AND NOT 0x30 :: u8) n = (n \<in> {0, 1, 6} \<or> n \<notin> {4, 5} \<and> bit c n)"
proof -
  have "\<forall>n \<in> set [0..<8]. bit ((c OR 0x43) AND NOT 0x30 :: u8) n = (n \<in> {0, 1, 6} \<or> n \<notin> {4, 5} \<and> bit c n)"
    by (rule all_bytes [where P = "\<lambda>c. \<forall>n \<in> set [0..<8]. bit ((c OR 0x43) AND NOT 0x30 :: u8) n = (n \<in> {0, 1, 6} \<or> n \<notin> {4, 5} \<and> bit c n)"]) code_simp
  then show "n < 8 \<Longrightarrow> bit ((c OR 0x43) AND NOT 0x30 :: u8) n = (n \<in> {0, 1, 6} \<or> n \<notin> {4, 5} \<and> bit c n)" by simp
qed

text \<open>
  Keyboard and mouse come up. When the controller answers within the time the driver waits, and
  whatever it was configured to and had waiting, then after both set-ups both devices are clocked,
  raise interrupts and send, no byte is left over that an interrupt would take for input, the other
  configuration bits are as before, and the lines 1, 2 and 12 are unmasked. An interrupt on the
  two lines runs the handler of its device, and the drivers start with an empty buffer and the
  pointer in the middle of the screen.
\<close>

theorem input_devices_ready:
  assumes "prompt_bus (bus s)" "kc_out (chip (bus s)) \<noteq> [] \<longrightarrow> late (bus s) = 0" "pics_ready (chips s)"
    and "keyboard_start s hs = (s1, hs1)" "mouse_init s1 hs1 = (s2, hs2)"
  shows "(\<forall>n<8. bit (kc_config (chip (bus s2))) n = (n \<in> {0, 1, 6} \<or> n \<notin> {4, 5} \<and> bit (kc_config (chip (bus s))) n)) \<and>
    kc_scanning (chip (bus s2)) \<and> kc_reporting (chip (bus s2)) \<and> kc_out (chip (bus s2)) = [] \<and> kc_expect (chip (bus s2)) = None \<and>
    (\<forall>i<16. irq_masked i (chips s2) = (i \<notin> {1, 2, 12} \<and> irq_masked i (chips s))) \<and>
    isr_handler eoi hs2 33 x = Returned_to (keyboard_irq x) \<and> isr_handler eoi hs2 44 x = Returned_to (mouse_irq x) \<and>
    kbd_queue (keyb s2) = [] \<and> packet_index (scr s2) = 0 \<and>
    mouse_x (scr s2) = fb_width (scr s) div 2 \<and> mouse_y (scr s2) = fb_height (scr s) div 2"
proof -
  let ?c = "kc_config (chip (bus s))"
  obtain b where b0: "keyboard_start s hs = (s\<lparr>bus := b, chips := pic_clear_mask 1 (chips s), keyb := keyboard_init (keyb s)\<rparr>, hs(33 \<mapsto> keyboard_irq))"
    and b: "prompt_bus b" "chip b = (chip (bus s))\<lparr>kc_config := (?c OR 0x61) AND NOT 0x12, kc_out := [], kc_expect := None, kc_scanning := True\<rparr>"
    by (rule keyboard_start_spec [OF assms(1,2)])
  have s1: "s1 = s\<lparr>bus := b, chips := pic_clear_mask 1 (chips s), keyb := keyboard_init (keyb s)\<rparr>" "hs1 = hs(33 \<mapsto> keyboard_irq)"
    using b0 assms(4) by simp_all
  then have m: "prompt_bus (bus s1)" "kc_out (chip (bus s1)) = []" "kc_config (chip (bus s1)) = (?c OR 0x61) AND NOT 0x12" using b by simp_all
  obtain b' where b1: "mouse_init s1 hs1 = (s1\<lparr>bus := b', chips := pic_clear_mask 12 (pic_clear_mask 2 (chips s1)),
      scr := (scr s1)\<lparr>mouse_x := fb_width (scr s1) div 2, mouse_y := fb_height (scr s1) div 2, packet_index := 0\<rparr>\<rparr>, hs1(44 \<mapsto> mouse_irq))"
    and b': "chip b' = (chip (bus s1))\<lparr>kc_config := (?c OR 0x43) AND NOT 0x30, kc_expect := None, kc_reporting := True\<rparr>"
    by (rule mouse_init_spec [OF m])
  have s2: "s2 = s1\<lparr>bus := b', chips := pic_clear_mask 12 (pic_clear_mask 2 (chips s1)),
      scr := (scr s1)\<lparr>mouse_x := fb_width (scr s1) div 2, mouse_y := fb_height (scr s1) div 2, packet_index := 0\<rparr>\<rparr>" "hs2 = hs1(44 \<mapsto> mouse_irq)"
    using b1 assms(5) by simp_all
  have r: "pics_ready (pic_clear_mask i p)" if "pics_ready p" for i p
    using that by (simp add: pic_clear_mask_def data1_def data2_def chip_data_def pics_ready_def)
  have p: "chips s2 = pic_clear_mask (of_nat 12) (pic_clear_mask (of_nat 2) (pic_clear_mask (of_nat 1) (chips s)))" using s1(1) s2(1) by simp
  have "irq_masked i (chips s2) = (i \<notin> {1, 2, 12} \<and> irq_masked i (chips s))" if "i < 16" for i
    using p set_masked(2) [OF r [OF r [OF assms(3)]], of 12 i] set_masked(2) [OF r [OF assms(3)], of 2 i] set_masked(2) [OF assms(3), of 1 i] that
    by auto
  moreover have "kbd_queue (keyb s2) = []" using s1(1) s2(1) by (simp add: keyboard_init_def kbd_queue_def ring_list_def ring_count_def)
  moreover have "bit (kc_config (chip (bus s2))) n = (n \<in> {0, 1, 6} \<or> n \<notin> {4, 5} \<and> bit ?c n)" if "n < 8" for n
    using final_config [OF that, of ?c] s2(1) b' by simp
  moreover have "isr_handler eoi hs2 33 x = Returned_to (keyboard_irq x)" "isr_handler eoi hs2 44 x = Returned_to (mouse_irq x)"
    using s1(2) s2(2) by (simp_all add: isr_handler_def)
  ultimately show ?thesis using s1(1) s2(1) b b' by simp
qed


text \<open>A controller that takes 9 status reads for each byte, with two bytes waiting from before.\<close>

definition slow_bus :: ps2_bus where
  "slow_bus = \<lparr>chip = \<lparr>kc_config = 0x74, kc_out = [0x1C, 0xAA], kc_expect = Some 0x60, kc_scanning = False, kc_reporting = False\<rparr>,
     busy = 4, late = 0, lat = 9, latch = 0\<rparr>"

theorem input_devices_ready_witness:
  "\<forall>k d hs eoi x. let s = \<lparr>bus = slow_bus, chips = reset_pics, keyb = k, scr = d, woken = []\<rparr>;
      (s1, hs1) = keyboard_start s hs; (s2, hs2) = mouse_init s1 hs1
    in kc_reporting (chip (bus s2)) \<and> kc_out (chip (bus s2)) = [] \<and> bit (kc_config (chip (bus s2))) 2 \<and>
       isr_handler eoi hs2 44 x = Returned_to (mouse_irq x)"
proof (intro allI)
  fix k d hs eoi x
  define s where "s = \<lparr>bus = slow_bus, chips = reset_pics, keyb = k, scr = d, woken = []\<rparr>"
  obtain s1 hs1 s2 hs2 where r: "keyboard_start s hs = (s1, hs1)" "mouse_init s1 hs1 = (s2, hs2)" by fastforce
  have h: "prompt_bus (bus s)" "kc_out (chip (bus s)) \<noteq> [] \<longrightarrow> late (bus s) = 0" "pics_ready (chips s)" "bit (kc_config (chip (bus s))) 2"
    by (simp_all add: s_def slow_bus_def prompt_bus_def reset_pics_def pics_ready_def Let_def)
  from input_devices_ready [OF h(1-3) r, of eoi x] h(4)
  have "kc_reporting (chip (bus s2)) \<and> kc_out (chip (bus s2)) = [] \<and> bit (kc_config (chip (bus s2))) 2 \<and>
       isr_handler eoi hs2 44 x = Returned_to (mouse_irq x)" by simp
  then show "let s = \<lparr>bus = slow_bus, chips = reset_pics, keyb = k, scr = d, woken = []\<rparr>;
      (s1, hs1) = keyboard_start s hs; (s2, hs2) = mouse_init s1 hs1
    in kc_reporting (chip (bus s2)) \<and> kc_out (chip (bus s2)) = [] \<and> bit (kc_config (chip (bus s2))) 2 \<and>
       isr_handler eoi hs2 44 x = Returned_to (mouse_irq x)"
    using r by (simp add: s_def [symmetric])
qed

end
