(* ===== verification/Tty.thy ===== *)
theory Tty
  imports Desktop Libc
begin

text \<open>
  Text output of the kernel (\<^verbatim>\<open>arch/i386/tty.c\<close>, \<^verbatim>\<open>arch/i386/vga.h\<close>): the 80 by 25 cells of VGA text mode, and the
  choice between the terminal window and the console on the frame buffer. \<open>None\<close> is an access outside the
  text buffer.
\<close>

section \<open>Text mode\<close>

abbreviation (input) VGA_WIDTH :: nat where "VGA_WIDTH \<equiv> 80"
abbreviation (input) VGA_HEIGHT :: nat where "VGA_HEIGHT \<equiv> 25"

definition vga_entry_color :: "u8 \<Rightarrow> u8 \<Rightarrow> u8" where
  "vga_entry_color fg bg = fg OR push_bit 4 bg"

definition vga_entry :: "u8 \<Rightarrow> u8 \<Rightarrow> u16" where
  "vga_entry uc color = ucast uc OR push_bit 8 (ucast color)"

record vga =
  terminal_row :: nat
  terminal_column :: nat
  terminal_color :: u8
  terminal_buffer :: "u16 list"

definition cell_get :: "nat \<Rightarrow> vga \<Rightarrow> u16 option" where
  "cell_get i t = (if i < length (terminal_buffer t) then Some (terminal_buffer t ! i) else None)"

definition cell_put :: "nat \<Rightarrow> u16 \<Rightarrow> vga \<Rightarrow> vga option" where
  "cell_put i v t =
     (if i < length (terminal_buffer t) then Some (t\<lparr>terminal_buffer := (terminal_buffer t)[i := v]\<rparr>) else None)"

fun each :: "('a \<Rightarrow> vga \<Rightarrow> vga option) \<Rightarrow> 'a list \<Rightarrow> vga \<Rightarrow> vga option" where
  "each f [] t = Some t"
| "each f (i # is) t = do { t \<leftarrow> f i t; each f is t }"

definition terminal_putentryat :: "u8 \<Rightarrow> u8 \<Rightarrow> nat \<Rightarrow> nat \<Rightarrow> vga \<Rightarrow> vga option" where
  "terminal_putentryat c color x y t = cell_put (y * VGA_WIDTH + x) (vga_entry c color) t"

definition terminal_initialize :: "vga \<Rightarrow> vga option" where
  "terminal_initialize t =
     (let t = t\<lparr>terminal_row := 0, terminal_column := 0, terminal_color := vga_entry_color 7 0\<rparr>
      in each (\<lambda>y. each (\<lambda>x t. cell_put (y * VGA_WIDTH + x) (vga_entry 32 (terminal_color t)) t) [0..<VGA_WIDTH]) [0..<VGA_HEIGHT] t)"

definition terminal_setcolor :: "u8 \<Rightarrow> vga \<Rightarrow> vga" where
  "terminal_setcolor color t = t\<lparr>terminal_color := color\<rparr>"

definition terminal_scroll :: "vga \<Rightarrow> vga option" where
  "terminal_scroll t =
     do {
       t \<leftarrow> each (\<lambda>i. each (\<lambda>j t. do { v \<leftarrow> cell_get ((i + 1) * VGA_WIDTH + j) t; cell_put (i * VGA_WIDTH + j) v t })
              [0..<VGA_WIDTH]) [0..<VGA_HEIGHT - 1] t;
       each (\<lambda>i t. cell_put ((VGA_HEIGHT - 1) * VGA_WIDTH + i) (vga_entry 32 (terminal_color t)) t) [0..<VGA_WIDTH] t }"

text \<open>The common end of both branches of \<^verbatim>\<open>terminal_putchar\<close>.\<close>

definition next_row :: "vga \<Rightarrow> vga option" where
  "next_row t =
     (let t = t\<lparr>terminal_row := terminal_row t + 1\<rparr> in
      if terminal_row t = VGA_HEIGHT
      then do { t \<leftarrow> terminal_scroll t; Some (t\<lparr>terminal_row := VGA_HEIGHT - 1\<rparr>) }
      else Some t)"

definition terminal_putchar :: "u8 \<Rightarrow> vga \<Rightarrow> vga option" where
  "terminal_putchar c t =
     (if c = 10 then next_row (t\<lparr>terminal_column := 0\<rparr>)
      else do {
        t \<leftarrow> terminal_putentryat c (terminal_color t) (terminal_column t) (terminal_row t) t;
        let t = t\<lparr>terminal_column := terminal_column t + 1\<rparr>;
        if terminal_column t = VGA_WIDTH then next_row (t\<lparr>terminal_column := 0\<rparr>) else Some t })"

section \<open>Where text goes\<close>

text \<open>The terminal window and the console paint on the same screen.\<close>

definition terminal_write :: "u8 list \<Rightarrow> desktop \<times> fbcon \<Rightarrow> (desktop \<times> fbcon) option" where
  "terminal_write bs s =
     (case s of (d, f) \<Rightarrow>
        if have_term d then map_option (\<lambda>d. (d, f\<lparr>con_screen := dscreen d\<rparr>)) (term_write bs d)
        else let f = fbcon_write bs (f\<lparr>con_screen := dscreen d\<rparr>) in Some (d\<lparr>dscreen := con_screen f\<rparr>, f))"

definition terminal_writestring :: "cstr \<Rightarrow> desktop \<times> fbcon \<Rightarrow> (desktop \<times> fbcon) option" where
  "terminal_writestring data = terminal_write (take (strlen data) data)"

section \<open>The loops over the buffer\<close>

text \<open>A buffer of 2000 cells with the contents \<open>f\<close>.\<close>

definition with_cells :: "(nat \<Rightarrow> u16) \<Rightarrow> vga \<Rightarrow> vga" where
  "with_cells f t = t\<lparr>terminal_buffer := map f [0..<2000]\<rparr>"

lemma with_cells_id: "length (terminal_buffer t) = 2000 \<Longrightarrow> with_cells (nth (terminal_buffer t)) t = t"
  using map_nth [of "terminal_buffer t"] by (simp add: with_cells_def)

lemma with_cells_access [simp]:
  "i < 2000 \<Longrightarrow> cell_get i (with_cells f t) = Some (f i)" "i < 2000 \<Longrightarrow> cell_put i v (with_cells f t) = Some (with_cells (f(i := v)) t)"
  "terminal_color (with_cells f t) = terminal_color t" "terminal_row (with_cells f t) = terminal_row t"
  "terminal_column (with_cells f t) = terminal_column t" "length (terminal_buffer (with_cells f t)) = 2000"
  "i < 2000 \<Longrightarrow> terminal_buffer (with_cells f t) ! i = f i"
proof -
  have "i < 2000 \<Longrightarrow> (map f [0..<2000])[i := v] = map (f(i := v)) [0..<2000]" by (auto intro!: nth_equalityI simp: nth_list_update)
  then show "i < 2000 \<Longrightarrow> cell_put i v (with_cells f t) = Some (with_cells (f(i := v)) t)" by (simp add: cell_put_def with_cells_def)
qed (simp_all add: cell_get_def with_cells_def)

lemma with_cells_cong: "(\<And>k. f k = g k) \<Longrightarrow> with_cells f t = with_cells g t"
  by (simp add: with_cells_def)

lemma each_Suc: "each f [0..<Suc n] t = do { t \<leftarrow> each f [0..<n] t; f n t }"
proof -
  have "each f (xs @ ys) t = do { t \<leftarrow> each f xs t; each f ys t }" for xs ys
    by (induction xs arbitrary: t) (auto split: bind_splits)
  moreover have "each f [] = Some" by (simp add: fun_eq_iff)
  ultimately show ?thesis by simp
qed

lemma fill_row:
  "n \<le> 80 \<Longrightarrow> b + 80 \<le> 2000 \<Longrightarrow> each (\<lambda>x t. cell_put (b + x) (vga_entry 32 (terminal_color t)) t) [0..<n] (with_cells f t) =
    Some (with_cells (\<lambda>k. if b \<le> k \<and> k < b + n then vga_entry 32 (terminal_color t) else f k) t)"
proof (induction n)
  case (Suc n)
  then show ?case by (simp del: upt_Suc add: each_Suc) (auto intro!: with_cells_cong)
qed (auto intro!: with_cells_cong)

lemma fill_rows:
  "m \<le> 25 \<Longrightarrow> each (\<lambda>y. each (\<lambda>x t. cell_put (y * 80 + x) (vga_entry 32 (terminal_color t)) t) [0..<80]) [0..<m] (with_cells f t) =
    Some (with_cells (\<lambda>k. if k < m * 80 then vga_entry 32 (terminal_color t) else f k) t)"
proof (induction m)
  case (Suc m)
  then show ?case by (simp del: upt_Suc add: each_Suc fill_row) (auto intro!: with_cells_cong)
qed (auto intro!: with_cells_cong)

lemma move_row:
  "n \<le> 80 \<Longrightarrow> i < 24 \<Longrightarrow> each (\<lambda>j t. do { v \<leftarrow> cell_get ((i + 1) * 80 + j) t; cell_put (i * 80 + j) v t }) [0..<n] (with_cells f t) =
    Some (with_cells (\<lambda>k. if i * 80 \<le> k \<and> k < i * 80 + n then f (k + 80) else f k) t)"
proof (induction n)
  case (Suc n)
  then show ?case by (simp del: upt_Suc add: each_Suc) (auto intro!: with_cells_cong simp: algebra_simps)
qed (auto intro!: with_cells_cong)

lemma move_rows:
  "m \<le> 24 \<Longrightarrow> each (\<lambda>i. each (\<lambda>j t. do { v \<leftarrow> cell_get ((i + 1) * 80 + j) t; cell_put (i * 80 + j) v t }) [0..<80]) [0..<m] (with_cells f t) =
    Some (with_cells (\<lambda>k. if k < m * 80 then f (k + 80) else f k) t)"
proof (induction m)
  case (Suc m)
  then show ?case using move_row [of 80 m] by (simp del: upt_Suc add: each_Suc) (auto intro!: with_cells_cong)
qed (auto intro!: with_cells_cong)

lemma scroll_spec:
  "terminal_scroll (with_cells f t) = Some (with_cells (\<lambda>k. if k < 1920 then f (k + 80) else vga_entry 32 (terminal_color t)) t)"
  using move_rows [of 24 f t] fill_row [of 80 1920]
  by (simp del: upt_Suc add: terminal_scroll_def) (auto simp: with_cells_def)

section \<open>The buffer shows the end of a sheet\<close>

text \<open>
  A sheet without end: what text mode would show with enough rows. A row beyond the first screen is
  blank in the colour that was set when it was reached.
\<close>

record sheet =
  sheet_cell :: "nat \<Rightarrow> nat \<Rightarrow> u16"
  sheet_x :: nat
  sheet_y :: nat

definition blank_sheet :: "u8 \<Rightarrow> sheet" where
  "blank_sheet color = \<lparr>sheet_cell = (\<lambda>_ _. vga_entry 32 color), sheet_x = 0, sheet_y = 0\<rparr>"

definition sheet_newline :: "u8 \<Rightarrow> sheet \<Rightarrow> sheet" where
  "sheet_newline color s =
     s\<lparr>sheet_x := 0, sheet_y := sheet_y s + 1,
       sheet_cell := (if sheet_y s + 1 < 25 then sheet_cell s else (sheet_cell s)(sheet_y s + 1 := (\<lambda>_. vga_entry 32 color)))\<rparr>"

definition sheet_type :: "u8 \<Rightarrow> u8 \<Rightarrow> sheet \<Rightarrow> sheet" where
  "sheet_type color c s =
     (if c = 10 then sheet_newline color s
      else let s = s\<lparr>sheet_cell := (sheet_cell s)(sheet_y s := (sheet_cell s (sheet_y s))(sheet_x s := vga_entry c color)), sheet_x := sheet_x s + 1\<rparr>
           in if sheet_x s = 80 then sheet_newline color s else s)"

definition shows_sheet :: "vga \<Rightarrow> sheet \<Rightarrow> bool" where
  "shows_sheet t s \<longleftrightarrow> length (terminal_buffer t) = 2000 \<and> sheet_x s < 80 \<and> terminal_column t = sheet_x s \<and> terminal_row t = min (sheet_y s) 24 \<and>
     (\<forall>r<25. \<forall>x<80. terminal_buffer t ! (r * 80 + x) = sheet_cell s (sheet_y s - terminal_row t + r) x)"

lemma vga_row_shows:
  assumes "shows_sheet (t\<lparr>terminal_column := x\<rparr>) (s\<lparr>sheet_x := x\<rparr>)"
  shows "\<exists>t'. next_row (t\<lparr>terminal_column := 0\<rparr>) = Some t' \<and> shows_sheet t' (sheet_newline (terminal_color t) s) \<and> terminal_color t' = terminal_color t"
proof (cases "sheet_y s < 24")
  case True
  then show ?thesis using assms by (auto simp: next_row_def shows_sheet_def sheet_newline_def)
next
  case False
  let ?t = "t\<lparr>terminal_column := 0, terminal_row := 25\<rparr>"
  have r: "terminal_row t = 24" "length (terminal_buffer t) = 2000" using assms False by (auto simp: shows_sheet_def)
  have "terminal_scroll ?t = Some (with_cells (\<lambda>k. if k < 1920 then terminal_buffer t ! (k + 80) else vga_entry 32 (terminal_color t)) ?t)"
    using scroll_spec [of "nth (terminal_buffer ?t)" ?t] with_cells_id [of ?t] r by (simp cong: if_cong)
  then have n: "next_row (t\<lparr>terminal_column := 0\<rparr>) =
      Some ((with_cells (\<lambda>k. if k < 1920 then terminal_buffer t ! (k + 80) else vga_entry 32 (terminal_color t)) ?t)\<lparr>terminal_row := 24\<rparr>)"
    using r by (simp add: next_row_def)
  have c: "terminal_buffer t ! (q * 80 + y) = sheet_cell s (sheet_y s - 24 + q) y" if "q < 25" "y < 80" for q y
    using assms that r(1) by (simp add: shows_sheet_def)
  have "(if q * 80 + y < 1920 then terminal_buffer t ! (q * 80 + y + 80) else vga_entry 32 (terminal_color t)) =
      sheet_cell (sheet_newline (terminal_color t) s) (sheet_y s + 1 - 24 + q) y" if q: "q < 25" "y < 80" for q y
  proof (cases "q < 24")
    case True
    then have i: "sheet_y s + 1 - 24 + q = sheet_y s - 24 + (q + 1)" "sheet_y s - 24 + (q + 1) \<noteq> sheet_y s + 1" "(q + 1) * 80 + y = q * 80 + y + 80"
      using False by (linarith, linarith, simp)
    then show ?thesis unfolding i(1) using c [of "q + 1" y, unfolded i(3)] True q i(2) False by (simp add: sheet_newline_def)
  next
    case F: False
    then have "q = 24" using q by simp
    then show ?thesis using q False by (simp add: sheet_newline_def)
  qed
  then show ?thesis using n False by (auto simp: shows_sheet_def sheet_newline_def)
qed


lemma putchar_shows:
  assumes "shows_sheet t s"
  shows "\<exists>t'. terminal_putchar c t = Some t' \<and> shows_sheet t' (sheet_type (terminal_color t) c s) \<and> terminal_color t' = terminal_color t"
proof (cases "c = 10")
  case True
  have "shows_sheet (t\<lparr>terminal_column := sheet_x s\<rparr>) (s\<lparr>sheet_x := sheet_x s\<rparr>)" using assms by (simp add: shows_sheet_def)
  from vga_row_shows [OF this] show ?thesis using True by (simp add: terminal_putchar_def sheet_type_def)
next
  case False
  let ?k = "terminal_row t * 80 + terminal_column t" and ?v = "vga_entry c (terminal_color t)"
  let ?t = "t\<lparr>terminal_buffer := (terminal_buffer t)[?k := ?v]\<rparr>"
  let ?s = "s\<lparr>sheet_cell := (sheet_cell s)(sheet_y s := (sheet_cell s (sheet_y s))(sheet_x s := ?v))\<rparr>"
  have b: "terminal_row t < 25" "terminal_column t = sheet_x s" "sheet_x s < 80" "terminal_row t = min (sheet_y s) 24" "length (terminal_buffer t) = 2000"
    using assms by (auto simp: shows_sheet_def)
  then have k: "?k < 2000" by linarith
  then have put: "terminal_putentryat c (terminal_color t) (terminal_column t) (terminal_row t) t = Some ?t"
    using b by (simp add: terminal_putentryat_def cell_put_def)
  have "(terminal_buffer t)[?k := ?v] ! (r * 80 + x) = sheet_cell ?s (sheet_y s - terminal_row t + r) x" if "r < 25" "x < 80" for r x
  proof -
    have "r * 80 + x = ?k \<longleftrightarrow> r = terminal_row t \<and> x = terminal_column t" using that b by (metis add_right_cancel div_mult_self3 div_less mod_less mod_mult_self3 add.commute add_0 zero_neq_numeral)
    moreover have "sheet_y s - terminal_row t + r = sheet_y s \<longleftrightarrow> r = terminal_row t" using b that by auto
    ultimately show ?thesis using that b k assms by (auto simp: shows_sheet_def nth_list_update)
  qed
  then have sh: "shows_sheet (?t\<lparr>terminal_column := y\<rparr>) (?s\<lparr>sheet_x := y\<rparr>)" if "y < 80" for y using b that by (simp add: shows_sheet_def)
  show ?thesis
  proof (cases "sheet_x s + 1 = 80")
    case True
    have "sheet_newline (terminal_color t) (?s\<lparr>sheet_x := y\<rparr>) = sheet_newline (terminal_color t) ?s" for y by (simp add: sheet_newline_def)
    then show ?thesis using vga_row_shows [OF sh [of 0]] put b(2) False True
      by (simp add: terminal_putchar_def sheet_type_def Let_def)
  next
    case F: False
    then show ?thesis using sh [of "sheet_x s + 1"] put b(2,3) False by (simp add: terminal_putchar_def sheet_type_def Let_def)
  qed
qed

text \<open>
  Text mode refines a sheet without end. Initialisation shows the blank sheet, and writing characters
  never leaves the buffer: the buffer then shows the last 25 rows of the sheet with the characters
  typed on it, in the colours that were set.
\<close>

theorem text_mode_refines_sheet:
  "(length (terminal_buffer t) = 2000 \<longrightarrow> (\<exists>t'. terminal_initialize t = Some t' \<and> terminal_color t' = 7 \<and> shows_sheet t' (blank_sheet 7))) \<and>
   (shows_sheet u s \<longrightarrow> (\<exists>u'. each terminal_putchar cs u = Some u' \<and> terminal_color u' = terminal_color u \<and>
      shows_sheet u' (fold (sheet_type (terminal_color u)) cs s)))"
proof (intro conjI impI)
  assume l: "length (terminal_buffer t) = 2000"
  let ?t = "t\<lparr>terminal_row := 0, terminal_column := 0, terminal_color := 7\<rparr>"
  have "terminal_initialize t = Some (with_cells (\<lambda>k. if k < 2000 then vga_entry 32 7 else terminal_buffer t ! k) ?t)"
    using fill_rows [of 25 "nth (terminal_buffer t)" ?t] with_cells_id [of ?t] l
    by (simp del: upt_Suc add: terminal_initialize_def vga_entry_color_def cong: if_cong)
  then show "\<exists>t'. terminal_initialize t = Some t' \<and> terminal_color t' = 7 \<and> shows_sheet t' (blank_sheet 7)"
    by (simp add: shows_sheet_def blank_sheet_def)
next
  show "shows_sheet u s \<Longrightarrow> \<exists>u'. each terminal_putchar cs u = Some u' \<and> terminal_color u' = terminal_color u \<and>
      shows_sheet u' (fold (sheet_type (terminal_color u)) cs s)"
  proof (induction cs arbitrary: u s)
    case (Cons c cs)
    from putchar_shows [OF Cons.prems, of c] obtain v where "terminal_putchar c u = Some v" "shows_sheet v (sheet_type (terminal_color u) c s)"
      "terminal_color v = terminal_color u" by blast
    then show ?case using Cons.IH [of v "sheet_type (terminal_color u) c s"] by simp
  qed simp
qed

text \<open>After 24 newlines a character stands at the start of the last row.\<close>

theorem text_mode_refines_sheet_witness:
  "\<exists>t'. each terminal_putchar (replicate 24 10 @ [65]) (with_cells (\<lambda>_. vga_entry 32 7) \<lparr>terminal_row = 0, terminal_column = 0, terminal_color = 7, terminal_buffer = []\<rparr>) = Some t' \<and>
     terminal_buffer t' ! 1920 = vga_entry 65 7"
proof -
  let ?t = "with_cells (\<lambda>_. vga_entry 32 7) \<lparr>terminal_row = 0, terminal_column = 0, terminal_color = 7, terminal_buffer = []\<rparr>"
  have "shows_sheet ?t (blank_sheet 7)" by (simp add: shows_sheet_def blank_sheet_def)
  with text_mode_refines_sheet [of undefined ?t "blank_sheet 7" "replicate 24 10 @ [65]"]
  obtain t' where t': "each terminal_putchar (replicate 24 10 @ [65]) ?t = Some t'"
    "shows_sheet t' (fold (sheet_type 7) (replicate 24 10 @ [65]) (blank_sheet 7))" by auto
  define s where "s = fold (sheet_type 7) (replicate 24 10 @ [65]) (blank_sheet 7)"
  have "sheet_y s = 24" "sheet_cell s 24 0 = vga_entry 65 7" unfolding s_def by code_simp+
  moreover have "terminal_buffer t' ! (24 * 80 + 0) = sheet_cell s (sheet_y s - terminal_row t' + 24) 0" "terminal_row t' = min (sheet_y s) 24"
  proof -
    have *: "\<forall>r<25. \<forall>x<80. terminal_buffer t' ! (r * 80 + x) = sheet_cell s (sheet_y s - terminal_row t' + r) x" "terminal_row t' = min (sheet_y s) 24"
      using t'(2) unfolding shows_sheet_def s_def [symmetric] by blast+
    show "terminal_buffer t' ! (24 * 80 + 0) = sheet_cell s (sheet_y s - terminal_row t' + 24) 0" by (rule *(1) [rule_format]) simp_all
    show "terminal_row t' = min (sheet_y s) 24" by (rule *(2))
  qed
  ultimately show ?thesis using t'(1) by auto
qed

end
