(* ===== verification/Dma.thy ===== *)
theory Dma
  imports E1000 Pci Pic_Rtc Cpu_Tables
begin

text \<open>
  Memory that the drivers share with their cards, and the set-up of the network card
  (\<^verbatim>\<open>e1000_init\<close> in \<^verbatim>\<open>arch/i386/e1000.c\<close>) and of the sound card (\<^verbatim>\<open>ac97_init\<close> in \<^verbatim>\<open>arch/i386/ac97.c\<close>). What is read from
  the registers of a card is an argument; what is written is kept in the state. Messages and delays
  are left out.
\<close>

section \<open>The network card\<close>

text \<open>
  \<open>nreg\<close> holds the last value written to each register of the card, \<open>ndma\<close> is \<^verbatim>\<open>dma_next_virt\<close>, and a ring
  is the physical address of its descriptors with its buffers.
\<close>

record nic_system =
  npci :: pci_bus
  nvm :: machine
  nreg :: "u32 \<Rightarrow> u32"
  ndma :: u32
  npic :: pics
  nirq :: u8
  nic :: e1000
  tx_dma :: "u32 \<times> (u32 \<times> u32) list"
  rx_dma :: "u32 \<times> (u32 \<times> u32) list"

abbreviation (input) VMEM_E1000_MMIO :: u32 where "VMEM_E1000_MMIO \<equiv> 0xE8000000"
abbreviation (input) VMEM_NET_DMA :: u32 where "VMEM_NET_DMA \<equiv> 0xE9000000"
abbreviation (input) E1000_TDT :: u32 where "E1000_TDT \<equiv> 0x3818"
abbreviation (input) E1000_MTA :: u32 where "E1000_MTA \<equiv> 0x5200"
abbreviation (input) E1000_RAL :: u32 where "E1000_RAL \<equiv> 0x5400"
abbreviation (input) E1000_RAH :: u32 where "E1000_RAH \<equiv> 0x5404"
abbreviation (input) E1000_RDBAL :: u32 where "E1000_RDBAL \<equiv> 0x2800"
abbreviation (input) E1000_RDLEN :: u32 where "E1000_RDLEN \<equiv> 0x2808"
abbreviation (input) E1000_TDBAL :: u32 where "E1000_TDBAL \<equiv> 0x3800"
abbreviation (input) E1000_TDLEN :: u32 where "E1000_TDLEN \<equiv> 0x3808"

definition e1000_write :: "u32 \<Rightarrow> u32 \<Rightarrow> nic_system \<Rightarrow> nic_system" where
  "e1000_write reg val s = s\<lparr>nreg := (nreg s)(reg := val)\<rparr>"

definition tx_registers :: "u32 \<Rightarrow> nic_system \<Rightarrow> nic_system" where
  "tx_registers ring_phys s =
     (let s = e1000_write E1000_TDBAL ring_phys s;
          s = e1000_write 0x3804 0 s;
          s = e1000_write E1000_TDLEN (of_nat (TX_DESC_COUNT * 16)) s;
          s = e1000_write 0x3810 0 s;
          s = e1000_write E1000_TDT 0 s;
          s = e1000_write 0x0400 (2 OR 8 OR push_bit 4 15 OR push_bit 12 64) s
      in e1000_write 0x0410 (10 OR push_bit 10 8 OR push_bit 20 6) s)"

definition rx_registers :: "u32 \<Rightarrow> nic_system \<Rightarrow> nic_system" where
  "rx_registers ring_phys s =
     (let m = mac (nic s);
          ral = ucast (m ! 0) OR push_bit 8 (ucast (m ! 1)) OR push_bit 16 (ucast (m ! 2)) OR push_bit 24 (ucast (m ! 3));
          rah = ucast (m ! 4) OR push_bit 8 (ucast (m ! 5)) OR push_bit 31 1;
          s = e1000_write E1000_RAL ral s;
          s = e1000_write E1000_RAH rah s;
          s = fold (\<lambda>i. e1000_write (E1000_MTA + of_nat i * 4) 0) [0..<128] s;
          s = e1000_write E1000_RDBAL ring_phys s;
          s = e1000_write 0x2804 0 s;
          s = e1000_write E1000_RDLEN (of_nat (RX_DESC_COUNT * 16)) s;
          s = e1000_write 0x2810 0 s;
          s = e1000_write 0x2818 (of_nat (RX_DESC_COUNT - 1)) s;
          s = s\<lparr>nic := (nic s)\<lparr>rx_cur := 0\<rparr>\<rparr>
      in e1000_write 0x0100 (2 OR push_bit 15 1 OR push_bit 26 1) s)"

fun map_registers :: "u32 \<Rightarrow> nat list \<Rightarrow> machine \<Rightarrow> (bool \<times> machine) option" where
  "map_registers bar0 [] m = Some (True, m)"
| "map_registers bar0 (i # is) m =
     do {
       (ok, m) \<leftarrow> vmm_map_page (VMEM_E1000_MMIO + of_nat i * 0x1000) (bar0 + of_nat i * 0x1000) (PTE_PRESENT OR PTE_WRITABLE) m;
       if ok then map_registers bar0 is m else Some (False, m) }"

text \<open>The interrupt; \<open>icr\<close> is the value of the cause register.\<close>

definition e1000_irq :: "(nic_system \<Rightarrow> u32) \<Rightarrow> nic_system \<Rightarrow> nic_system" where
  "e1000_irq icr s = s\<lparr>nic := e1000_irq_handler (icr s) (nic s), npic := pic_send_eoi (nirq s) (npic s)\<rparr>"

text \<open>
  The argument \<open>hw\<close> stands for what is read: the register \<^verbatim>\<open>EERD\<close> while the EEPROM is looked for, the
  same register for each word, and the receive address after a reset. The word read last
  stays in \<^verbatim>\<open>EERD\<close>. The transmit ring exists once its page is there, even when the set-up fails after it.
\<close>

record nic_reads =
  rd_detect :: "nat \<Rightarrow> u32"
  rd_word :: "u8 \<Rightarrow> nat \<Rightarrow> u32"
  rd_ral :: u32
  rd_rah :: u32

definition mac_of :: "nic_reads \<Rightarrow> u8 list" where
  "mac_of hw =
     e1000_read_mac (if e1000_detect_eeprom (rd_detect hw) then Some (map (\<lambda>a. eeprom_read (rd_word hw a)) [0, 1, 2]) else None)
       (rd_ral hw) (rd_rah hw)"

definition enable_irq :: "u8 \<Rightarrow> pics \<Rightarrow> pics" where
  "enable_irq irq p = pic_clear_mask irq (if irq \<ge> 8 then pic_clear_mask 2 p else p)"

definition start_rings :: "nic_system \<Rightarrow> (bool \<times> nic_system) option" where
  "start_rings s =
     do {
       (tx, v, m) \<leftarrow> e1000_setup_tx (ndma s) (nvm s);
       let s = s\<lparr>nic := (nic s)\<lparr>tx_ready := tx_ready (nic s) \<or> v \<noteq> ndma s\<rparr>, ndma := v, nvm := m\<rparr>;
       case tx of
         None \<Rightarrow> Some (False, s)
       | Some tx \<Rightarrow> do {
           let s = tx_registers (fst tx) (s\<lparr>tx_dma := tx, nic := (nic s)\<lparr>tdt := 0\<rparr>\<rparr>);
           (rx, v, m) \<leftarrow> e1000_setup_rx (ndma s) (nvm s);
           let s = s\<lparr>ndma := v, nvm := m\<rparr>;
           case rx of
             None \<Rightarrow> Some (False, s)
           | Some rx \<Rightarrow>
               Some (True, rx_registers (fst rx) (s\<lparr>rx_dma := rx,
                 nic := (nic s)\<lparr>rx_ring := map (\<lambda>d. d\<lparr>rx_status := 0\<rparr>) (rx_ring (nic s)), rdt := RX_DESC_COUNT - 1\<rparr>\<rparr>)) } }"

definition e1000_init :: "nic_reads \<Rightarrow> (nic_system \<Rightarrow> u32) \<Rightarrow> nic_system \<Rightarrow> nic_system handlers \<Rightarrow> (bool \<times> nic_system \<times> nic_system handlers) option" where
  "e1000_init hw icr s hs =
     (case pci_find_by_id 0x8086 0x100E (npci s) of
        (None, p) \<Rightarrow> Some (False, s\<lparr>npci := p\<rparr>, hs)
      | (Some d, p) \<Rightarrow> do {
          let s = s\<lparr>nirq := pci_irq_line d, npci := pci_enable_device d p\<rparr>;
          (ok, m) \<leftarrow> map_registers (bar d ! 0 AND 0xFFFFFFF0) [0..<32] (nvm s);
          let s = s\<lparr>nvm := m\<rparr>;
          if \<not> ok then Some (False, s, hs)
          else do {
            let s = e1000_write 0x0014 (if e1000_detect_eeprom (rd_detect hw) then push_bit 8 2 OR 1 else 1) s;
            (ok, s) \<leftarrow> start_rings (s\<lparr>nic := (nic s)\<lparr>mac := mac_of hw\<rparr>\<rparr>);
            if \<not> ok then Some (False, s, hs)
            else do {
              let hs = isr_register_handler (32 + nirq s) (e1000_irq icr) hs;
              let s = s\<lparr>npic := enable_irq (nirq s) (npic s)\<rparr>;
              Some (True, e1000_write 0x00D0 (0x80 OR 0x10 OR 0x40 OR 0x04) s, hs) } } })"

section \<open>The sound card\<close>

text \<open>
  \<open>aport\<close> holds the last value written to each port, \<open>adma\<close> is \<^verbatim>\<open>audio_dma_virt\<close>. \<^verbatim>\<open>alloc_audio_page\<close> has the text of
  \<^verbatim>\<open>alloc_dma_page\<close>.
\<close>

record ac97_system =
  apci :: pci_bus
  avm :: machine
  aport :: "u16 \<Rightarrow> u32"
  adma :: u32
  nam_base :: u16
  nabm_base :: u16
  bdl_phys :: u32
  audio_bufs :: "(u32 \<times> u32) list"

abbreviation (input) VMEM_AUDIO_DMA :: u32 where "VMEM_AUDIO_DMA \<equiv> 0xEA000000"

definition alloc_audio_page :: "u32 \<Rightarrow> machine \<Rightarrow> (u32 \<times> u32 \<times> machine) option" where
  "alloc_audio_page virt m =
     (case pmm_alloc_page (pmm_state m) of (p, phys) \<Rightarrow>
        let m = m\<lparr>pmm_state := p\<rparr> in
        if phys = 0 then Some (0, virt, m)
        else do {
          (ok, m) \<leftarrow> vmm_map_page virt phys (PTE_PRESENT OR PTE_WRITABLE) m;
          if \<not> ok then Some (0, virt, free_frame phys m)
          else do { m \<leftarrow> vzero_page virt m; Some (phys, virt + PAGE_SIZE, m) } })"

fun audio_pages :: "nat \<Rightarrow> u32 \<Rightarrow> machine \<Rightarrow> ((u32 \<times> u32) list option \<times> u32 \<times> machine) option" where
  "audio_pages 0 virt m = Some (Some [], virt, m)"
| "audio_pages (Suc n) virt m =
     do {
       (phys, virt', m) \<leftarrow> alloc_audio_page virt m;
       if phys = 0 then Some (None, virt', m)
       else do {
         (bufs, virt'', m) \<leftarrow> audio_pages n virt' m;
         Some (map_option (\<lambda>bs. (virt, phys) # bs) bufs, virt'', m) } }"

definition outp :: "u16 \<Rightarrow> u32 \<Rightarrow> ac97_system \<Rightarrow> ac97_system" where
  "outp port val s = s\<lparr>aport := (aport s)(port := val)\<rparr>"

text \<open>\<open>codec\<close> is what the mixer answers when the volume is read back.\<close>

definition ac97_init :: "u16 \<Rightarrow> ac97_system \<Rightarrow> (bool \<times> ac97_system) option" where
  "ac97_init codec s =
     (case pci_find_by_id 0x8086 0x2415 (apci s) of
        (None, p) \<Rightarrow> Some (False, s\<lparr>apci := p\<rparr>)
      | (Some d, p) \<Rightarrow> do {
          let s = s\<lparr>apci := pci_enable_device d p, nam_base := ucast (bar d ! 0 AND 0xFFFFFFFC), nabm_base := ucast (bar d ! 1 AND 0xFFFFFFFC)\<rparr>;
          let s = outp (nabm_base s + 0x2C) 2 s;
          let s = outp (nam_base s) 0 s;
          let s = outp (nam_base s + 0x02) 0 s;
          let s = outp (nam_base s + 0x18) 0 s;
          if codec = 0xFFFF then Some (False, s)
          else do {
            (phys, v, m) \<leftarrow> alloc_audio_page (adma s) (avm s);
            let s = s\<lparr>bdl_phys := phys, adma := v, avm := m\<rparr>;
            if phys = 0 then Some (False, s)
            else do {
              (bufs, v, m) \<leftarrow> audio_pages 32 (adma s) (avm s);
              let s = s\<lparr>adma := v, avm := m\<rparr>;
              case bufs of None \<Rightarrow> Some (False, s) | Some bs \<Rightarrow> Some (True, s\<lparr>audio_bufs := bs\<rparr>) } } })"

section \<open>Pages for a card\<close>

lemma freed_vm_wf:
  assumes "vm_wf m" "pmm_alloc_page (pmm_state m) = (p, phys)" "phys \<noteq> 0"
  shows "vm_wf (free_frame phys (m\<lparr>pmm_state := p\<rparr>))" "used_frames (pmm_state (free_frame phys (m\<lparr>pmm_state := p\<rparr>))) = used_frames (pmm_state m)"
proof -
  have "pmm_inv (pmm_state m)" using assms(1) by (simp add: vm_wf_def)
  note af = pmm_frames.alloc_free_roundtrip [OF this assms(2,3)]
  show "used_frames (pmm_state (free_frame phys (m\<lparr>pmm_state := p\<rparr>))) = used_frames (pmm_state m)" using af by (simp add: free_frame_def)
  show "vm_wf (free_frame phys (m\<lparr>pmm_state := p\<rparr>))" using vm_wf_pmm_mono [OF assms(1)] af by (simp add: free_frame_def)
qed

definition page_at :: "machine \<Rightarrow> u32 \<Rightarrow> u32 \<Rightarrow> bool" where
  "page_at m v p \<longleftrightarrow> unat p mod 4096 = 0 \<and>
     (\<forall>w. unat w div 4096 = unat v div 4096 \<longrightarrow> translate m w = Some (unat p div 4096, unat w mod 4096))"

lemma alloc_dma_page_spec:
  assumes "vm_wf m" "unat v < 0xFFC00000"
  shows "\<exists>phys v' m'. alloc_dma_page v m = Some (phys, v', m') \<and> vm_wf m' \<and> used_frames (pmm_state m) \<subseteq> used_frames (pmm_state m') \<and>
    (\<forall>w. unat w < 0xFFC00000 \<and> unat w div 4096 \<noteq> unat v div 4096 \<longrightarrow> translate m' w = translate m w) \<and>
    (phys = 0 \<longrightarrow> v' = v) \<and>
    (phys \<noteq> 0 \<longrightarrow> v' = v + 4096 \<and> unat phys div 4096 \<in> used_frames (pmm_state m') - used_frames (pmm_state m) \<and> page_at m' v phys)"
proof -
  obtain p phys where al: "pmm_alloc_page (pmm_state m) = (p, phys)" by fastforce
  have inv: "pmm_inv (pmm_state m)" using assms(1) by (simp add: vm_wf_def)
  show ?thesis
  proof (cases "phys = 0")
    case True
    then have "p = pmm_state m" using pmm_frames.alloc_fail [OF inv] al by blast
    then have "m\<lparr>pmm_state := p\<rparr> = m" by simp
    then show ?thesis using al True assms(1) by (simp add: alloc_dma_page_def)
  next
    case False
    let ?m = "m\<lparr>pmm_state := p\<rparr>"
    note fr = fresh_frame [OF assms(1) al False]
    have wf: "vm_wf ?m" using fr(1,2) by (intro vm_wf_pmm_mono [OF assms(1)]) auto
    from map_page_spec [OF wf assms(2), of phys "PTE_PRESENT OR PTE_WRITABLE"] obtain ok m1
      where m1: "vmm_map_page v phys (PTE_PRESENT OR PTE_WRITABLE) ?m = Some (ok, m1)" "vm_wf m1"
        "ok \<Longrightarrow> unat w div 4096 = unat v div 4096 \<Longrightarrow> translate m1 w = Some (unat phys div 4096, unat w mod 4096)"
        "unat w < 0xFFC00000 \<Longrightarrow> unat w div 4096 \<noteq> unat v div 4096 \<Longrightarrow> translate m1 w = translate ?m w"
        "\<not> ok \<Longrightarrow> m1 = ?m" for w by blast
    show ?thesis
    proof (cases ok)
      case no: False
      then have e: "alloc_dma_page v m = Some (0, v, free_frame phys ?m)" using al False m1(1,5) by (simp add: alloc_dma_page_def)
      then show ?thesis using freed_vm_wf [OF assms(1) al False] by (simp add: free_frame_def)
    next
      case True
      have "vmm_map_page v phys (PTE_PRESENT OR PTE_WRITABLE) ?m = Some (True, m1)" using m1(1) True by simp
      from map_page_frames [OF wf assms(2) this] obtain F where F: "F \<inter> used_frames p = {}" "table_frames m1 = table_frames ?m \<union> F"
        "used_frames (pmm_state m1) = used_frames p \<union> F" by auto
      have new: "unat phys div 4096 \<in> used_frames p" "unat phys div 4096 \<notin> used_frames (pmm_state m)"
        using fr(2,5) by (simp_all add: pte_frame_unat)
      have "unat phys div 4096 \<notin> table_frames m"
        using new(2) assms(1) by (auto simp: vm_wf_def table_frames_def)
      then have nt: "unat phys div 4096 \<notin> table_frames m1" using F(1,2) new(1) by (auto simp: table_frames_def)
      let ?m2 = "m1\<lparr>pmem := (pmem m1)(unat phys div 4096 := (\<lambda>_. 0))\<rparr>"
      note dw = data_frame_write [OF m1(2) nt refl, of "\<lambda>_. 0"]
      have "vzero_page v m1 = Some ?m2" using m1(3) [of v] True by (simp add: vzero_page_def)
      then have e: "alloc_dma_page v m = Some (phys, v + 4096, ?m2)" using al False m1(1) True by (simp add: alloc_dma_page_def)
      have "unat phys mod 4096 = 0" using pmm_frames.alloc_ok [OF inv al False] by simp
      then have "page_at ?m2 v phys" using m1(3) True dw(3) by (simp add: page_at_def)
      moreover have "used_frames (pmm_state m) \<subseteq> used_frames (pmm_state ?m2)" using F(3) fr(2) by auto
      moreover have "translate ?m2 w = translate m w" if "unat w < 0xFFC00000" "unat w div 4096 \<noteq> unat v div 4096" for w
        using that m1(4) dw(3) by simp
      ultimately show ?thesis using e False dw(4) new F(3)
        by (intro exI [of _ phys] exI [of _ "v + 4096"] exI [of _ ?m2]) simp
    qed
  qed
qed


text \<open>Pages of fresh memory from the address \<open>v\<close> on: the card gets the address of the frame that the driver reaches.\<close>

definition fresh_pages :: "machine \<Rightarrow> machine \<Rightarrow> u32 \<Rightarrow> u32 list \<Rightarrow> bool" where
  "fresh_pages m m' v ps \<longleftrightarrow> distinct (map (\<lambda>p. unat p div 4096) ps) \<and>
     (\<forall>p \<in> set ps. unat p div 4096 \<in> used_frames (pmm_state m') - used_frames (pmm_state m)) \<and>
     (\<forall>i < length ps. page_at m' (v + of_nat (4096 * i)) (ps ! i))"

definition half_pages :: "u32 \<Rightarrow> u32 list \<Rightarrow> (u32 \<times> u32) list" where
  "half_pages v ps = concat (map (\<lambda>i. let w = v + of_nat (4096 * i) in [(w, ps ! i), (w + 2048, ps ! i + 2048)]) [0..<length ps])"

definition grows :: "u32 \<Rightarrow> nat \<Rightarrow> machine \<Rightarrow> machine \<Rightarrow> bool" where
  "grows v n m m' \<longleftrightarrow> vm_wf m' \<and> used_frames (pmm_state m) \<subseteq> used_frames (pmm_state m') \<and>
     (\<forall>w. unat w < 0xFFC00000 \<and> \<not> (unat v \<le> unat w \<and> unat w < unat v + 4096 * n) \<longrightarrow> translate m' w = translate m w)"

lemma dma_page_step:
  assumes "unat (v :: u32) mod 4096 = 0" "unat v + 4096 * Suc n \<le> 0xFFC00000"
  shows "unat (v + 4096) = unat v + 4096" "i \<le> n \<Longrightarrow> unat (v + of_nat (4096 * i)) = unat v + 4096 * i"
    "unat w div 4096 = unat v div 4096 \<longleftrightarrow> unat v \<le> unat w \<and> unat w < unat v + 4096"
proof -
  show "unat (v + 4096) = unat v + 4096" using assms(2) by (subst unat_add_u32) simp_all
  show "i \<le> n \<Longrightarrow> unat (v + of_nat (4096 * i)) = unat v + 4096 * i"
    using assms(2) by (subst unat_add_u32) (simp_all add: unat_of_nat_u32 del: of_nat_mult)
  obtain k where "unat v = 4096 * k" using assms(1) by (metis mult_div_mod_eq add.right_neutral)
  then show "unat w div 4096 = unat v div 4096 \<longleftrightarrow> unat v \<le> unat w \<and> unat w < unat v + 4096" by auto
qed

lemma page_at_keep:
  assumes "page_at m v p" "\<forall>w. unat w div 4096 = unat v div 4096 \<longrightarrow> translate m' w = translate m w"
  shows "page_at m' v p"
  using assms by (simp add: page_at_def)

lemma fresh_pages_Cons:
  assumes a: "unat p div 4096 \<in> used_frames (pmm_state m1) - used_frames (pmm_state m)" "page_at m1 v p" "used_frames (pmm_state m) \<subseteq> used_frames (pmm_state m1)"
    and f: "fresh_pages m1 m' (v + 4096) ps" and g: "grows (v + 4096) n m1 m'"
    and v: "unat v mod 4096 = 0" "unat v + 4096 * Suc n \<le> 0xFFC00000"
  shows "fresh_pages m m' v (p # ps)"
proof -
  have "page_at m' v p"
  proof (rule page_at_keep [OF a(2)], intro allI impI)
    fix w :: u32 assume "unat w div 4096 = unat v div 4096"
    then have "unat w < unat v + 4096" using dma_page_step(3) [OF v] by simp
    then show "translate m' w = translate m1 w" using g v(2) dma_page_step(1) [OF v] by (simp add: grows_def)
  qed
  moreover have "page_at m' (v + of_nat (4096 * Suc i)) (ps ! i)" if "i < length ps" for i
    using f that by (simp add: fresh_pages_def algebra_simps)
  ultimately have "\<forall>i < length (p # ps). page_at m' (v + of_nat (4096 * i)) ((p # ps) ! i)"
    by (auto simp: nth_Cons split: nat.split simp del: of_nat_Suc of_nat_mult)
  moreover have "unat p div 4096 \<notin> (\<lambda>p. unat p div 4096) ` set ps" using f a(1) by (auto simp: fresh_pages_def)
  ultimately show ?thesis using f a g by (auto simp: fresh_pages_def grows_def)
qed

lemma half_pages_Cons: "half_pages v (p # ps) = (v, p) # (v + 2048, p + 2048) # half_pages (v + 4096) ps"
proof -
  have "[0..<length (p # ps)] = 0 # map Suc [0..<length ps]" by (simp add: upt_conv_Cons map_Suc_upt del: upt_Suc)
  then show ?thesis by (simp add: half_pages_def comp_def algebra_simps Let_def)
qed

lemma dma_buffers_spec:
  "vm_wf m \<Longrightarrow> unat v mod 4096 = 0 \<Longrightarrow> unat v + 4096 * n \<le> 0xFFC00000 \<Longrightarrow>
    \<exists>r v' m'. dma_buffers n v m = Some (r, v', m') \<and> grows v n m m' \<and>
      (\<forall>bufs. r = Some bufs \<longrightarrow> v' = v + of_nat (4096 * n) \<and> (\<exists>ps. length ps = n \<and> bufs = half_pages v ps \<and> fresh_pages m m' v ps))"
proof (induction n arbitrary: v m)
  case 0
  then show ?case by (simp add: grows_def half_pages_def fresh_pages_def)
next
  case (Suc n)
  note ps = dma_page_step [OF Suc.prems(2,3)]
  have "unat v < 0xFFC00000" using Suc.prems(3) by simp
  from alloc_dma_page_spec [OF Suc.prems(1) this] obtain p v1 m1
    where a: "alloc_dma_page v m = Some (p, v1, m1)" "vm_wf m1" "used_frames (pmm_state m) \<subseteq> used_frames (pmm_state m1)"
      "\<And>w. unat w < 0xFFC00000 \<Longrightarrow> unat w div 4096 \<noteq> unat v div 4096 \<Longrightarrow> translate m1 w = translate m w"
      "p \<noteq> 0 \<Longrightarrow> v1 = v + 4096" "p \<noteq> 0 \<Longrightarrow> unat p div 4096 \<in> used_frames (pmm_state m1) - used_frames (pmm_state m)" "p \<noteq> 0 \<Longrightarrow> page_at m1 v p"
    by blast
  have tr: "translate m1 w = translate m w" if "unat w < 0xFFC00000" "\<not> (unat v \<le> unat w \<and> unat w < unat v + 4096 * Suc n)" for w
    using a(4) ps(3) [of w] that by auto
  show ?case
  proof (cases "p = 0")
    case True
    then show ?thesis using a(1-3) tr by (simp add: grows_def)
  next
    case False
    have "unat (v + 4096) mod 4096 = 0" "unat (v + 4096) + 4096 * n \<le> 0xFFC00000" using ps(1) Suc.prems(2,3) by simp_all
    from Suc.IH [OF a(2) this] obtain r v' m'
      where d: "dma_buffers n (v + 4096) m1 = Some (r, v', m')" "grows (v + 4096) n m1 m'"
        "\<And>bufs. r = Some bufs \<Longrightarrow> v' = v + 4096 + of_nat (4096 * n) \<and> (\<exists>ps. length ps = n \<and> bufs = half_pages (v + 4096) ps \<and> fresh_pages m1 m' (v + 4096) ps)"
      by blast
    have "grows v (Suc n) m m'" using d(2) tr a(3) ps(1) by (auto simp: grows_def)
    moreover have "\<exists>qs. length qs = Suc n \<and> (v, p) # (v + 2048, p + 2048) # bufs = half_pages v qs \<and> fresh_pages m m' v qs" if r: "r = Some bufs" for bufs
    proof -
      obtain qs where qs: "length qs = n" "bufs = half_pages (v + 4096) qs" "fresh_pages m1 m' (v + 4096) qs" using d(3) [OF r] by blast
      then show ?thesis using fresh_pages_Cons [OF a(6) [OF False] a(7) [OF False] a(3) qs(3) d(2) Suc.prems(2,3)]
        by (intro exI [of _ "p # qs"]) (simp add: half_pages_Cons)
    qed
    moreover have "dma_buffers (Suc n) v m = Some (map_option (\<lambda>bs. (v, p) # (v + 2048, p + 2048) # bs) r, v', m')"
      using a(1,5) d(1) False by simp
    ultimately show ?thesis using d(3) by (auto simp: algebra_simps)
  qed
qed


lemma fresh_pages_append:
  assumes f: "fresh_pages m m1 v ps" "fresh_pages m1 m' (v + of_nat (4096 * length ps)) qs"
    and g: "grows v (length ps) m m1" "grows (v + of_nat (4096 * length ps)) n m1 m'"
    and v: "unat v mod 4096 = 0" "unat v + 4096 * (length ps + n) \<le> 0xFFC00000"
  shows "fresh_pages m m' v (ps @ qs)"
proof -
  have u: "unat (v + of_nat (4096 * i)) = unat v + 4096 * i" if "i \<le> length ps" for i
  proof -
    have "4096 * i \<le> 4096 * length ps" using that by simp
    then have "unat v + 4096 * i < 2 ^ 32" "4096 * i < 2 ^ 32" using v(2) by simp_all
    then show ?thesis by (subst unat_add_u32) (simp_all add: unat_of_nat_u32 del: of_nat_mult)
  qed
  have "page_at m' (v + of_nat (4096 * i)) (ps ! i)" if i: "i < length ps" for i
  proof (rule page_at_keep)
    show "page_at m1 (v + of_nat (4096 * i)) (ps ! i)" using f(1) i by (simp add: fresh_pages_def)
    have "unat (v + of_nat (4096 * i)) div 4096 = unat v div 4096 + i" using u [of i] i by simp
    moreover have "unat v div 4096 + i < unat (v + of_nat (4096 * length ps)) div 4096" using u [of "length ps"] i by simp
    ultimately have "unat w < unat (v + of_nat (4096 * length ps))" if "unat w div 4096 = unat (v + of_nat (4096 * i)) div 4096" for w :: u32
      using that by (metis div_le_mono leD leI)
    then show "\<forall>w. unat w div 4096 = unat (v + of_nat (4096 * i)) div 4096 \<longrightarrow> translate m' w = translate m1 w"
      using g(2) u [of "length ps"] v(2) unfolding grows_def by fastforce
  qed
  moreover have "page_at m' (v + of_nat (4096 * (length ps + i))) (qs ! i)" if "i < length qs" for i
    using f(2) that by (simp add: fresh_pages_def algebra_simps)
  ultimately have "page_at m' (v + of_nat (4096 * i)) ((ps @ qs) ! i)" if "i < length (ps @ qs)" for i
  proof (cases "i < length ps")
    case False
    then show ?thesis using that \<open>\<And>i. i < length qs \<Longrightarrow> page_at m' (v + of_nat (4096 * (length ps + i))) (qs ! i)\<close> [of "i - length ps"]
      by (simp add: nth_append)
  qed (simp add: nth_append)
  moreover have "(\<lambda>p. unat p div 4096) ` set ps \<inter> (\<lambda>p. unat p div 4096) ` set qs = {}" using f by (auto simp: fresh_pages_def)
  ultimately show ?thesis using f g by (auto simp: fresh_pages_def grows_def)
qed

lemma half_pages_append: "half_pages v (ps @ qs) = half_pages v ps @ half_pages (v + of_nat (4096 * length ps)) qs"
proof (induction ps arbitrary: v)
  case (Cons p ps)
  then show ?case by (simp add: half_pages_Cons algebra_simps)
qed (simp add: half_pages_def)

lemma half_pages_nth:
  "k < 2 * length ps \<Longrightarrow> half_pages v ps ! k = (v + of_nat (2048 * k), ps ! (k div 2) + of_nat (2048 * (k mod 2)))"
proof (induction ps arbitrary: v k)
  case (Cons p ps)
  show ?case
  proof (cases "k < 2")
    case True
    then have "k = 0 \<or> k = 1" by auto
    then show ?thesis by (auto simp: half_pages_Cons)
  next
    case False
    then obtain j where j: "k = Suc (Suc j)" by (metis One_nat_def Suc_1 less_2_cases_iff not0_implies_Suc)
    then show ?thesis using Cons.IH [of j "v + 4096"] Cons.prems by (simp add: half_pages_Cons algebra_simps)
  qed
qed simp

lemma half_pages_length: "length (half_pages v ps) = 2 * length ps"
  by (induction ps arbitrary: v) (simp_all add: half_pages_Cons, simp add: half_pages_def)


text \<open>
  Buffers of \<open>sz\<close> bytes for the driver at the first and for the card at the second address: byte for
  byte they are the same memory, it was free before, and no two buffers overlap.
\<close>

definition dma_safe :: "machine \<Rightarrow> machine \<Rightarrow> nat \<Rightarrow> (u32 \<times> u32) list \<Rightarrow> bool" where
  "dma_safe m m' sz bufs \<longleftrightarrow>
     (\<forall>i < length bufs. \<forall>b < sz. case bufs ! i of (v, p) \<Rightarrow>
        translate m' (v + of_nat b) = Some ((unat p + b) div 4096, (unat p + b) mod 4096) \<and>
        (unat p + b) div 4096 \<in> used_frames (pmm_state m') - used_frames (pmm_state m)) \<and>
     (\<forall>i j. i < j \<and> j < length bufs \<longrightarrow>
        unat (snd (bufs ! i)) + sz \<le> unat (snd (bufs ! j)) \<or> unat (snd (bufs ! j)) + sz \<le> unat (snd (bufs ! i)))"

lemma half_page_arith:
  assumes "unat (p :: u32) mod 4096 = 0" "h < 2" "b < 2048"
  shows "unat (p + of_nat (2048 * h)) = unat p + 2048 * h" "(unat p + 2048 * h + b) div 4096 = unat p div 4096"
    "(unat p + 2048 * h + b) mod 4096 = 2048 * h + b"
proof -
  obtain k where k: "unat p = 4096 * k" using assms(1) by (metis mult_div_mod_eq add.right_neutral)
  moreover have "unat p < 2 ^ 32" using unsigned_less [of p] by simp
  ultimately have "4096 * k + 4096 \<le> 2 ^ 32" by simp
  then show "unat (p + of_nat (2048 * h)) = unat p + 2048 * h"
    using assms(2) k by (subst unat_add_u32) (simp_all add: unat_of_nat_u32 del: of_nat_mult)
  have "2048 * h + b < 4096" using assms(2,3) by linarith
  then show "(unat p + 2048 * h + b) div 4096 = unat p div 4096" "(unat p + 2048 * h + b) mod 4096 = 2048 * h + b"
    using k by (simp_all add: add.assoc)
qed

lemma half_pages_mapped:
  assumes "fresh_pages m m' v ps" "unat v mod 4096 = 0" "unat v + 4096 * length ps \<le> 0xFFC00000" "i < 2 * length ps" "b < 2048"
  shows "translate m' (v + of_nat (2048 * i) + of_nat b) = Some (unat (ps ! (i div 2)) div 4096, 2048 * (i mod 2) + b)"
proof -
  have q: "i div 2 < length ps" using assms(4) by auto
  have i: "2048 * i = 4096 * (i div 2) + 2048 * (i mod 2)" using mult_div_mod_eq [of 2 i] by linarith
  obtain k where k: "unat v = 4096 * k" using assms(2) by (metis mult_div_mod_eq add.right_neutral)
  have bd: "2048 * i + b < 4096 * length ps" "4096 * (i div 2) < 4096 * length ps" using assms(4,5) q by simp_all
  then have uv: "unat (v + of_nat (2048 * i) + of_nat b) = unat v + 2048 * i + b" "unat (v + of_nat (4096 * (i div 2))) = unat v + 4096 * (i div 2)"
    using assms(3) by (simp_all add: unat_add_u32 unat_of_nat_u32 del: of_nat_mult)
  have "unat (v + of_nat (2048 * i) + of_nat b) = 4096 * (k + i div 2) + (2048 * (i mod 2) + b)" using uv(1) i k by simp
  moreover have "2048 * (i mod 2) + b < 4096" using assms(5) mod_less_divisor [of 2 i] by linarith
  moreover have "(4096 * x + y) div 4096 = x" "(4096 * x + y) mod 4096 = y" if "y < 4096" for x y :: nat using that by simp_all
  ultimately have "unat (v + of_nat (2048 * i) + of_nat b) div 4096 = k + i div 2" "unat (v + of_nat (2048 * i) + of_nat b) mod 4096 = 2048 * (i mod 2) + b"
    by metis+
  moreover have "unat (v + of_nat (4096 * (i div 2))) div 4096 = k + i div 2" using uv(2) k by simp
  moreover have "page_at m' (v + of_nat (4096 * (i div 2))) (ps ! (i div 2))" using assms(1) q by (simp add: fresh_pages_def)
  ultimately show ?thesis unfolding page_at_def by metis
qed

lemma half_pages_safe:
  assumes "fresh_pages m m' v ps" "unat v mod 4096 = 0" "unat v + 4096 * length ps \<le> 0xFFC00000"
  shows "dma_safe m m' 2048 (half_pages v ps)"
proof -
  have al: "unat (ps ! i) mod 4096 = 0" "unat (ps ! i) div 4096 \<in> used_frames (pmm_state m') - used_frames (pmm_state m)" if "i < length ps" for i
    using assms(1) that by (simp_all add: fresh_pages_def page_at_def)
  have nth: "i < 2 * length ps \<Longrightarrow> half_pages v ps ! i = (v + of_nat (2048 * i), ps ! (i div 2) + of_nat (2048 * (i mod 2)))" for i
    by (rule half_pages_nth)
  have un: "unat (ps ! (i div 2) + of_nat (2048 * (i mod 2))) = unat (ps ! (i div 2)) + 2048 * (i mod 2)" if "i < 2 * length ps" for i
    using that by (intro half_page_arith(1) [where b = 0] al) auto
  have one: "translate m' (fst (half_pages v ps ! i) + of_nat b) = Some ((unat (snd (half_pages v ps ! i)) + b) div 4096, (unat (snd (half_pages v ps ! i)) + b) mod 4096) \<and>
        (unat (snd (half_pages v ps ! i)) + b) div 4096 \<in> used_frames (pmm_state m') - used_frames (pmm_state m)" if i: "i < 2 * length ps" and b: "b < 2048" for i b
  proof -
    have q: "i div 2 < length ps" "i mod 2 < 2" using i by auto
    show ?thesis using half_pages_mapped [OF assms i b] half_page_arith(2,3) [OF al(1) [OF q(1)] q(2) b] al(2) [OF q(1)] nth [OF i] un [OF i] by simp
  qed
  have two: "unat (snd (half_pages v ps ! i)) + 2048 \<le> unat (snd (half_pages v ps ! j)) \<or> unat (snd (half_pages v ps ! j)) + 2048 \<le> unat (snd (half_pages v ps ! i))"
    if ij: "i < j" "j < 2 * length ps" for i j
  proof -
    have q: "i div 2 < length ps" "j div 2 < length ps" using ij by auto
    obtain k l where kl: "unat (ps ! (i div 2)) = 4096 * k" "unat (ps ! (j div 2)) = 4096 * l"
      using al(1) [OF q(1)] al(1) [OF q(2)] by (metis mult_div_mod_eq add.right_neutral)
    obtain a b where h: "i mod 2 = a" "a < 2" "j mod 2 = b" "b < 2" by simp
    show ?thesis
    proof (cases "i div 2 = j div 2")
      case True
      then have "i mod 2 = 0" "j mod 2 = 1" using ij(1) by presburger+
      then show ?thesis using nth [of i] nth [of j] un [of i] un [of j] ij True by auto
    next
      case False
      then have "unat (ps ! (i div 2)) div 4096 \<noteq> unat (ps ! (j div 2)) div 4096"
        using assms(1) q by (auto simp: fresh_pages_def distinct_conv_nth)
      then have "k \<noteq> l" using kl by simp
      then have "4096 * k + 4096 \<le> 4096 * l \<or> 4096 * l + 4096 \<le> 4096 * k" by linarith
      moreover have "unat (snd (half_pages v ps ! i)) = 4096 * k + 2048 * a" using nth [of i] un [of i] kl(1) ij h(1) by simp
      moreover have "unat (snd (half_pages v ps ! j)) = 4096 * l + 2048 * b" using nth [of j] un [of j] kl(2) ij h(3) by simp
      ultimately show ?thesis using h(2,4) by linarith
    qed
  qed
  show ?thesis unfolding dma_safe_def half_pages_length using one two by (auto simp: case_prod_beta)
qed


section \<open>The network card comes up\<close>

lemma setup_as_buffers:
  "e1000_setup_tx v m = do { (r, v', m') \<leftarrow> dma_buffers 5 v m; Some (map_option (\<lambda>bs. (snd (hd bs), drop 2 bs)) r, v', m') }"
  "e1000_setup_rx v m = do { (r, v', m') \<leftarrow> dma_buffers 9 v m; Some (map_option (\<lambda>bs. (snd (hd bs), drop 2 bs)) r, v', m') }"
  unfolding e1000_setup_tx_def e1000_setup_rx_def
  using dma_buffers.simps(2) [of 4 v m] dma_buffers.simps(2) [of 8 v m]
  by (auto split: bind_splits prod.splits simp: option.map_comp comp_def)

definition ring_pages :: "u32 \<Rightarrow> u32 \<times> (u32 \<times> u32) list \<Rightarrow> (u32 \<times> u32) list" where
  "ring_pages v r = (v, fst r) # (v + 2048, fst r + 2048) # snd r"

lemma ring_pages_half: "ps \<noteq> [] \<Longrightarrow> ring_pages v (snd (hd (half_pages v ps)), drop 2 (half_pages v ps)) = half_pages v ps"
  by (cases ps) (simp_all add: half_pages_Cons ring_pages_def)

lemma ring_setup_spec:
  assumes "vm_wf m" "unat v mod 4096 = 0" "unat v + 4096 * n \<le> 0xFFC00000" "0 < n"
  shows "\<exists>r v' m'. do { (r, v', m') \<leftarrow> dma_buffers n v m; Some (map_option (\<lambda>bs. (snd (hd bs), drop 2 bs)) r, v', m') } = Some (r, v', m') \<and>
    grows v n m m' \<and> (\<forall>t. r = Some t \<longrightarrow> v' = v + of_nat (4096 * n) \<and> (\<exists>ps. length ps = n \<and> ring_pages v t = half_pages v ps \<and> fresh_pages m m' v ps))"
proof -
  from dma_buffers_spec [OF assms(1-3)] obtain r v' m' where d: "dma_buffers n v m = Some (r, v', m')" "grows v n m m'"
    "\<And>bufs. r = Some bufs \<Longrightarrow> v' = v + of_nat (4096 * n) \<and> (\<exists>ps. length ps = n \<and> bufs = half_pages v ps \<and> fresh_pages m m' v ps)" by blast
  show ?thesis
  proof (cases r)
    case None
    then show ?thesis using d(1,2) by simp
  next
    case (Some bufs)
    then obtain ps where ps: "length ps = n" "bufs = half_pages v ps" "fresh_pages m m' v ps" "v' = v + of_nat (4096 * n)" using d(3) by blast
    then have "ps \<noteq> []" using assms(4) by auto
    from ring_pages_half [OF this] show ?thesis using d(1,2) ps Some by auto
  qed
qed

lemmas setup_tx_spec = ring_setup_spec [where n = 5, folded setup_as_buffers]
lemmas setup_rx_spec = ring_setup_spec [where n = 9, folded setup_as_buffers]

lemma rings_spec:
  assumes "vm_wf m" "e1000_setup_tx 0xE9000000 m = Some (Some tx, v1, m1)" "e1000_setup_rx v1 m1 = Some (Some rx, v2, m2)"
  shows "vm_wf m2" "dma_safe m m2 2048 (ring_pages 0xE9000000 tx @ ring_pages 0xE9005000 rx)"
proof -
  have t: "grows 0xE9000000 5 m m1" "v1 = 0xE9005000" "\<exists>ps. length ps = 5 \<and> ring_pages 0xE9000000 tx = half_pages 0xE9000000 ps \<and> fresh_pages m m1 0xE9000000 ps"
    using setup_tx_spec [OF assms(1), of "0xE9000000"] assms(2) by (cases tx; simp)+
  have "vm_wf m1" using t(1) by (simp add: grows_def)
  then have r: "grows 0xE9005000 9 m1 m2" "\<exists>ps. length ps = 9 \<and> ring_pages 0xE9005000 rx = half_pages 0xE9005000 ps \<and> fresh_pages m1 m2 0xE9005000 ps"
    using setup_rx_spec [of m1 "0xE9005000"] assms(3) t(2) by (cases rx; simp)+
  obtain ps qs where ps: "length ps = 5" "ring_pages 0xE9000000 tx = half_pages 0xE9000000 ps" "fresh_pages m m1 0xE9000000 ps"
    and qs: "length qs = 9" "ring_pages 0xE9005000 rx = half_pages 0xE9005000 qs" "fresh_pages m1 m2 0xE9005000 qs" using t(3) r(2) by blast
  have "fresh_pages m m2 0xE9000000 (ps @ qs)"
    using t(1) r(1) ps qs by (intro fresh_pages_append [where n = 9]) simp_all
  then have "dma_safe m m2 2048 (half_pages 0xE9000000 (ps @ qs))"
    using ps(1) qs(1) by (intro half_pages_safe) simp_all
  then show "dma_safe m m2 2048 (ring_pages 0xE9000000 tx @ ring_pages 0xE9005000 rx)" using ps(1,2) qs(2) by (simp add: half_pages_append)
  show "vm_wf m2" using r(1) by (simp add: grows_def)
qed


lemma map_registers_spec:
  "vm_wf m \<Longrightarrow> \<forall>i \<in> set is. i < 32 \<Longrightarrow> \<exists>ok m'. map_registers bar0 is m = Some (ok, m') \<and> vm_wf m' \<and> used_frames (pmm_state m) \<subseteq> used_frames (pmm_state m')"
proof (induction "is" arbitrary: m)
  case (Cons i "is")
  let ?v = "0xE8000000 + of_nat i * 0x1000 :: u32" and ?p = "bar0 + of_nat i * 0x1000"
  have "unat ?v < 0xFFC00000" using Cons.prems(2) unat_of_nat_u32 [of "i * 4096"] by (simp add: unat_add_u32)
  moreover obtain ok m1 where m1: "vmm_map_page ?v ?p (PTE_PRESENT OR PTE_WRITABLE) m = Some (ok, m1)" "vm_wf m1" "\<not> ok \<Longrightarrow> m1 = m"
    using map_page_spec [OF Cons.prems(1) calculation] by blast
  ultimately have u: "used_frames (pmm_state m) \<subseteq> used_frames (pmm_state m1)"
    using map_page_frames [OF Cons.prems(1), of ?v ?p] by (cases ok) auto
  show ?case
  proof (cases ok)
    case True
    then show ?thesis using Cons.IH [OF m1(2)] Cons.prems(2) m1(1) u by fastforce
  next
    case False
    then show ?thesis using m1 by (intro exI [of _ False] exI [of _ m]) simp
  qed
qed auto

lemma dma_safe_mono: "dma_safe m1 m' sz bufs \<Longrightarrow> used_frames (pmm_state m) \<subseteq> used_frames (pmm_state m1) \<Longrightarrow> dma_safe m m' sz bufs"
  by (fastforce simp: dma_safe_def case_prod_beta)

lemma clear_mta:
  "n \<le> 128 \<Longrightarrow> \<exists>r. fold (\<lambda>i. e1000_write (E1000_MTA + of_nat i * 4) 0) [0..<n] s = s\<lparr>nreg := r\<rparr> \<and>
    (\<forall>a. unat a < 0x5200 \<or> 0x5400 \<le> unat a \<longrightarrow> r a = nreg s a)"
proof (induction n)
  case 0
  show ?case by (intro exI [of _ "nreg s"]) simp
next
  case (Suc n)
  then obtain r where r: "fold (\<lambda>i. e1000_write (E1000_MTA + of_nat i * 4) 0) [0..<n] s = s\<lparr>nreg := r\<rparr>"
    "\<forall>a. unat a < 0x5200 \<or> 0x5400 \<le> unat a \<longrightarrow> r a = nreg s a" by auto
  have "unat (E1000_MTA + of_nat n * 4) = 0x5200 + n * 4" using Suc.prems unat_of_nat_u32 [of "n * 4"] by (simp add: unat_add_u32)
  then have "\<forall>a. unat a < 0x5200 \<or> 0x5400 \<le> unat a \<longrightarrow> a \<noteq> E1000_MTA + of_nat n * 4" using Suc.prems by auto
  moreover have "e1000_write a 0 (s\<lparr>nreg := r\<rparr>) = s\<lparr>nreg := r(a := 0)\<rparr>" for a by (simp add: e1000_write_def)
  ultimately show ?case using r by (intro exI [of _ "r(E1000_MTA + of_nat n * 4 := 0)"]) (simp add: fun_upd_def)
qed

lemma mac_length: "length (mac_of hw) = 6"
  by (simp add: mac_of_def e1000_read_mac_def)

lemma address_registers:
  fixes a b c d e f :: u8
  defines "ral \<equiv> ucast a OR push_bit 8 (ucast b) OR push_bit 16 (ucast c) OR push_bit 24 (ucast d) :: u32"
    and "rah \<equiv> ucast e OR push_bit 8 (ucast f) OR push_bit 31 1 :: u32"
  shows "e1000_read_mac None ral rah = [a, b, c, d, e, f]"
proof -
  have m: "(0xFF :: u32) = mask 8" by (simp add: mask_eq_exp_minus_1)
  have z: "\<not> bit (x :: u8) (8 + n)" "\<not> bit x (16 + n)" "\<not> bit x (24 + n)" for x n
    using bit_imp_le_length [of x "8 + n"] bit_imp_le_length [of x "16 + n"] bit_imp_le_length [of x "24 + n"] by auto
  have "(2147483648 :: int) = 2 ^ 31" "(8388608 :: int) = 2 ^ 23" by simp_all
  then have k: "\<not> bit (2147483648 :: int) n" "\<not> bit (8388608 :: int) n" if "n < 8" for n using that by (simp_all only: bit_exp_iff) auto
  show ?thesis unfolding e1000_read_mac_def option.case ral_def rah_def m
    by (auto intro!: bit_word_eqI simp: bit_simps z k)
qed


lemma rx_registers_spec:
  assumes "length (mac (nic s)) = 6" "s' = rx_registers ring s"
  shows "nvm s' = nvm s" "tx_dma s' = tx_dma s" "rx_dma s' = rx_dma s" "nirq s' = nirq s" "npic s' = npic s" "npci s' = npci s"
    "nic s' = (nic s)\<lparr>rx_cur := 0\<rparr>" "nreg s' E1000_RDBAL = ring" "nreg s' E1000_RDLEN = 256"
    "nreg s' E1000_TDBAL = nreg s E1000_TDBAL" "nreg s' E1000_TDLEN = nreg s E1000_TDLEN"
    "e1000_read_mac None (nreg s' E1000_RAL) (nreg s' E1000_RAH) = mac (nic s)"
proof -
  let ?m = "mac (nic s)"
  let ?ral = "ucast (?m ! 0) OR push_bit 8 (ucast (?m ! 1)) OR push_bit 16 (ucast (?m ! 2)) OR push_bit 24 (ucast (?m ! 3)) :: u32"
  let ?rah = "ucast (?m ! 4) OR push_bit 8 (ucast (?m ! 5)) OR push_bit 31 1 :: u32"
  let ?s = "e1000_write E1000_RAH ?rah (e1000_write E1000_RAL ?ral s)"
  obtain r where r: "fold (\<lambda>i. e1000_write (E1000_MTA + of_nat i * 4) 0) [0..<128] ?s = ?s\<lparr>nreg := r\<rparr>"
    "\<forall>a. unat a < 0x5200 \<or> 0x5400 \<le> unat a \<longrightarrow> r a = nreg ?s a" using clear_mta [of 128 ?s] by auto
  have keep: "r E1000_RAL = ?ral" "r E1000_RAH = ?rah" "r E1000_TDBAL = nreg s E1000_TDBAL" "r E1000_TDLEN = nreg s E1000_TDLEN"
    using r(2) by (simp_all add: e1000_write_def)
  have s': "s' = s\<lparr>nreg := r(E1000_RDBAL := ring, 0x2804 := 0, E1000_RDLEN := 256, 0x2810 := 0, 0x2818 := 15,
      0x0100 := 2 OR push_bit 15 1 OR push_bit 26 1), nic := (nic s)\<lparr>rx_cur := 0\<rparr>\<rparr>"
    unfolding assms(2) rx_registers_def Let_def r(1) by (simp add: e1000_write_def)
  show "nvm s' = nvm s" "tx_dma s' = tx_dma s" "rx_dma s' = rx_dma s" "nirq s' = nirq s" "npic s' = npic s" "npci s' = npci s"
    "nic s' = (nic s)\<lparr>rx_cur := 0\<rparr>" "nreg s' E1000_RDBAL = ring" "nreg s' E1000_RDLEN = 256"
    "nreg s' E1000_TDBAL = nreg s E1000_TDBAL" "nreg s' E1000_TDLEN = nreg s E1000_TDLEN" using keep by (simp_all add: s')
  have "nreg s' E1000_RAL = ?ral" "nreg s' E1000_RAH = ?rah" using keep by (simp_all add: s')
  moreover have "?m = [?m ! 0, ?m ! 1, ?m ! 2, ?m ! 3, ?m ! 4, ?m ! 5]"
    using assms(1) by (intro nth_equalityI) (auto simp: less_Suc_eq numeral_eq_Suc)
  ultimately show "e1000_read_mac None (nreg s' E1000_RAL) (nreg s' E1000_RAH) = ?m" using address_registers by metis
qed


section \<open>Enough memory is enough\<close>

text \<open>The number of pages that the allocator can still hand out.\<close>

definition free_count :: "machine \<Rightarrow> nat" where
  "free_count m = card ({..<alloc_limit (pmm_state m)} - used_frames (pmm_state m))"

lemma alloc_free_count:
  assumes "vm_wf m" "pmm_alloc_page (pmm_state m) = (p, a)"
  shows "a = 0 \<Longrightarrow> free_count m = 0" "a \<noteq> 0 \<Longrightarrow> free_count m = Suc (free_count (m'\<lparr>pmm_state := p\<rparr>))"
proof -
  have inv: "pmm_inv (pmm_state m)" using assms(1) by (simp add: vm_wf_def)
  show "free_count m = 0" if "a = 0"
  proof -
    have "{..<alloc_limit (pmm_state m)} \<subseteq> used_frames (pmm_state m)"
      using inv assms(2) that by (cases rule: pmm_alloc_page_cases) (auto simp: alloc_limit_def)
    then show ?thesis by (simp add: free_count_def Diff_eq_empty_iff [THEN iffD2])
  qed
  assume a: "a \<noteq> 0"
  note ok = pmm_frames.alloc_ok [OF inv assms(2) a]
  have l: "alloc_limit p = alloc_limit (pmm_state m)" using ok by (simp add: alloc_limit_def)
  have "unat a div 4096 < alloc_limit (pmm_state m)"
    using inv assms(2) a by (cases rule: pmm_alloc_page_cases) auto
  then have "{..<alloc_limit (pmm_state m)} - used_frames (pmm_state m) = insert (unat a div 4096) ({..<alloc_limit p} - used_frames p)"
    using ok l by auto
  then show "free_count m = Suc (free_count (m'\<lparr>pmm_state := p\<rparr>))" using ok by (simp add: free_count_def)
qed

lemma map_free_count:
  assumes "vm_wf m" "unat v < 0xFFC00000" "1 \<le> free_count m"
  shows "\<exists>m'. vmm_map_page v pa flags m = Some (True, m') \<and> vm_wf m' \<and> free_count m \<le> free_count m' + 1"
proof -
  obtain p a where al: "pmm_alloc_page (pmm_state m) = (p, a)" by fastforce
  then have fc: "a \<noteq> 0" "free_count m = Suc (free_count (m'\<lparr>pmm_state := p\<rparr>))" for m'
    using alloc_free_count(1) [OF assms(1) al] alloc_free_count(2) [OF assms(1) al, of m'] assms(3) by (cases "a = 0"; simp)+
  from map_page_spec [OF assms(1,2), of pa flags] fc(1) al obtain m' where m': "vmm_map_page v pa flags m = Some (True, m')" "vm_wf m'" by auto
  have "unat (pd_index v) \<noteq> 1023" using assms(2) by (simp add: pd_index_kernel)
  from vmm_map_page_steps [OF assms(1) this, of pa flags, unfolded al Let_def prod.case] m'(1) fc(1)
  have "pmm_state m' = pmm_state m \<or> pmm_state m' = p" by (auto split: if_splits)
  then have "free_count m' = free_count m \<or> free_count m' = free_count (m'\<lparr>pmm_state := p\<rparr>)" by (auto simp: free_count_def)
  then show ?thesis using m' fc(2) [of m'] by auto
qed

lemma page_free_count:
  assumes "vm_wf m" "unat v < 0xFFC00000" "2 \<le> free_count m"
  shows "\<exists>phys m'. alloc_dma_page v m = Some (phys, v + 4096, m') \<and> phys \<noteq> 0 \<and> vm_wf m' \<and> free_count m \<le> free_count m' + 2"
proof -
  obtain p a where al: "pmm_alloc_page (pmm_state m) = (p, a)" by fastforce
  then have fc: "a \<noteq> 0" "free_count m = Suc (free_count (m\<lparr>pmm_state := p\<rparr>))"
    using alloc_free_count(1) [OF assms(1) al] alloc_free_count(2) [OF assms(1) al, of m] assms(3) by (cases "a = 0"; simp)+
  have "vm_wf (m\<lparr>pmm_state := p\<rparr>)" using fresh_frame(1,2) [OF assms(1) al fc(1)] by (intro vm_wf_pmm_mono [OF assms(1)]) auto
  from map_free_count [OF this assms(2), of a "PTE_PRESENT OR PTE_WRITABLE"] fc assms(3)
  obtain m1 where m1: "vmm_map_page v a (PTE_PRESENT OR PTE_WRITABLE) (m\<lparr>pmm_state := p\<rparr>) = Some (True, m1)" "free_count m \<le> free_count m1 + 2" by auto
  obtain phys v' m' where s: "alloc_dma_page v m = Some (phys, v', m')" "vm_wf m'" "phys \<noteq> 0 \<Longrightarrow> v' = v + 4096"
    using alloc_dma_page_spec [OF assms(1,2)] by blast
  then have "phys = a" "pmm_state m' = pmm_state m1" using al fc(1) m1(1) by (auto simp: alloc_dma_page_def vzero_page_def split: bind_splits)
  then show ?thesis using s fc(1) m1(2) by (simp add: free_count_def)
qed

lemma buffers_free_count:
  "vm_wf m \<Longrightarrow> unat v mod 4096 = 0 \<Longrightarrow> unat v + 4096 * n \<le> 0xFFC00000 \<Longrightarrow> 2 * n \<le> free_count m \<Longrightarrow>
    \<exists>bufs v' m'. dma_buffers n v m = Some (Some bufs, v', m') \<and> free_count m \<le> free_count m' + 2 * n"
proof (induction n arbitrary: v m)
  case (Suc n)
  note ps = dma_page_step [OF Suc.prems(2,3)]
  obtain phys m1 where a: "alloc_dma_page v m = Some (phys, v + 4096, m1)" "phys \<noteq> 0" "vm_wf m1" "free_count m \<le> free_count m1 + 2"
    using page_free_count [of m v] Suc.prems by auto
  moreover have "unat (v + 4096) mod 4096 = 0" "unat (v + 4096) + 4096 * n \<le> 0xFFC00000" using ps(1) Suc.prems(2,3) by simp_all
  ultimately show ?case using Suc.IH [of m1 "v + 4096"] Suc.prems(4) by fastforce
qed simp

lemma registers_free_count:
  "vm_wf m \<Longrightarrow> \<forall>i \<in> set is. i < 32 \<Longrightarrow> length is \<le> free_count m \<Longrightarrow>
    \<exists>m'. map_registers bar0 is m = Some (True, m') \<and> free_count m \<le> free_count m' + length is"
proof (induction "is" arbitrary: m)
  case (Cons i "is")
  let ?v = "0xE8000000 + of_nat i * 0x1000 :: u32" and ?p = "bar0 + of_nat i * 0x1000"
  have "unat ?v < 0xFFC00000" using Cons.prems(2) unat_of_nat_u32 [of "i * 4096"] by (simp add: unat_add_u32)
  from map_free_count [OF Cons.prems(1) this, of ?p "PTE_PRESENT OR PTE_WRITABLE"] Cons.prems(3)
  obtain m1 where "vmm_map_page ?v ?p (PTE_PRESENT OR PTE_WRITABLE) m = Some (True, m1)" "vm_wf m1" "free_count m \<le> free_count m1 + 1" by auto
  then show ?case using Cons.IH [of m1] Cons.prems(2,3) by fastforce
qed simp

text \<open>What the driver and the card agree on after a successful start.\<close>

definition nic_started :: "nic_reads \<Rightarrow> machine \<Rightarrow> nic_system \<Rightarrow> bool" where
  "nic_started hw m s \<longleftrightarrow> vm_wf (nvm s) \<and>
     dma_safe m (nvm s) TX_BUF_SIZE (ring_pages 0xE9000000 (tx_dma s) @ ring_pages 0xE9005000 (rx_dma s)) \<and>
     nreg s E1000_TDBAL = fst (tx_dma s) \<and> nreg s E1000_TDLEN = 16 * of_nat TX_DESC_COUNT \<and>
     nreg s E1000_RDBAL = fst (rx_dma s) \<and> nreg s E1000_RDLEN = 16 * of_nat RX_DESC_COUNT \<and>
     length (snd (tx_dma s)) = TX_DESC_COUNT \<and> length (snd (rx_dma s)) = RX_DESC_COUNT \<and>
     mac (nic s) = mac_of hw \<and> e1000_read_mac None (nreg s E1000_RAL) (nreg s E1000_RAH) = mac_of hw \<and>
     tx_ready (nic s) \<and> tdt (nic s) = 0 \<and> rx_cur (nic s) = 0 \<and> rdt (nic s) = 15 \<and> (\<forall>d \<in> set (rx_ring (nic s)). rx_status d = 0)"

lemma ring_length:
  assumes "ring_pages v t = half_pages v ps"
  shows "length (snd t) = 2 * length ps - 2"
  using arg_cong [OF assms, of length] by (simp add: ring_pages_def half_pages_length)

lemma start_rings_spec:
  assumes "vm_wf (nvm s)" "ndma s = 0xE9000000" "mac (nic s) = mac_of hw"
  shows "\<exists>ok s'. start_rings s = Some (ok, s') \<and> nirq s' = nirq s \<and> npic s' = npic s \<and> npci s' = npci s \<and> (ok \<longrightarrow> nic_started hw (nvm s) s') \<and>
    (28 \<le> free_count (nvm s) \<longrightarrow> ok)"
proof -
  obtain tx v1 m1 where t: "e1000_setup_tx 0xE9000000 (nvm s) = Some (tx, v1, m1)" "grows 0xE9000000 5 (nvm s) m1"
    "\<And>x. tx = Some x \<Longrightarrow> v1 = 0xE9000000 + of_nat (4096 * 5) \<and> (\<exists>ps. length ps = 5 \<and> ring_pages 0xE9000000 x = half_pages 0xE9000000 ps)"
    using setup_tx_spec [OF assms(1), of "0xE9000000"] by auto blast
  have ft: "tx \<noteq> None \<and> 18 \<le> free_count m1" if "28 \<le> free_count (nvm s)"
    using buffers_free_count [OF assms(1), of "0xE9000000" 5] that t(1) by (auto simp: setup_as_buffers)
  show ?thesis
  proof (cases tx)
    case None
    then show ?thesis using t(1) assms(2) ft by (intro exI [of _ False]) (auto simp: start_rings_def)
  next
    case tx: (Some x)
    have v1: "v1 = 0xE9005000" and lx: "length (snd x) = 8" using t(3) [OF tx] ring_length by fastforce+
    have "vm_wf m1" using t(2) by (simp add: grows_def)
    from setup_rx_spec [OF this, of "0xE9005000"] obtain rx v2 m2 where r: "e1000_setup_rx 0xE9005000 m1 = Some (rx, v2, m2)" "grows 0xE9005000 9 m1 m2"
      "\<And>y. rx = Some y \<Longrightarrow> \<exists>ps. length ps = 9 \<and> ring_pages 0xE9005000 y = half_pages 0xE9005000 ps" by auto blast
    have fr: "rx \<noteq> None" if "28 \<le> free_count (nvm s)"
      using buffers_free_count [of m1 "0xE9005000" 9] ft [OF that] \<open>vm_wf m1\<close> r(1) by (auto simp: setup_as_buffers)
    let ?n = "(nic s)\<lparr>tx_ready := True, tdt := 0\<rparr>"
    define s1 where "s1 = tx_registers (fst x) (s\<lparr>ndma := 0xE9005000, nvm := m1, tx_dma := x, nic := ?n\<rparr>)"
    have s1: "nvm s1 = m1" "nic s1 = ?n" "tx_dma s1 = x" "nirq s1 = nirq s" "npic s1 = npic s" "npci s1 = npci s"
      "nreg s1 E1000_TDBAL = fst x" "nreg s1 E1000_TDLEN = 128" "ndma s1 = 0xE9005000"
      by (simp_all add: s1_def tx_registers_def Let_def e1000_write_def)
    have st: "start_rings s = (case rx of None \<Rightarrow> Some (False, s1\<lparr>ndma := v2, nvm := m2\<rparr>) | Some y \<Rightarrow>
        Some (True, rx_registers (fst y) (s1\<lparr>ndma := v2, nvm := m2, rx_dma := y, nic := ?n\<lparr>rx_ring := map (\<lambda>d. d\<lparr>rx_status := 0\<rparr>) (rx_ring (nic s)), rdt := 15\<rparr>\<rparr>)))"
      unfolding start_rings_def using t(1) tx assms(2) v1 r(1) s1 by (simp add: s1_def [symmetric] Let_def split: option.split)
    show ?thesis
    proof (cases rx)
      case None
      then show ?thesis using st s1 fr by (intro exI [of _ False]) auto
    next
      case rx: (Some y)
      have ly: "length (snd y) = 16" using r(3) [OF rx] ring_length by fastforce
      define s2 where "s2 = s1\<lparr>ndma := v2, nvm := m2, rx_dma := y, nic := ?n\<lparr>rx_ring := map (\<lambda>d. d\<lparr>rx_status := 0\<rparr>) (rx_ring (nic s)), rdt := 15\<rparr>\<rparr>"
      define s3 where "s3 = rx_registers (fst y) s2"
      have "length (mac (nic s2)) = 6" using mac_length [of hw] assms(3) by (simp add: s2_def)
      note r3 = rx_registers_spec [OF this s3_def]
      have "start_rings s = Some (True, s3)" using st rx by (simp add: s3_def s2_def)
      moreover have "nic_started hw (nvm s) s3"
        using rings_spec [of "nvm s" x v1 m1 y v2 m2] assms(1,3) t(1) tx r(1) rx v1 r3 s1 lx ly by (simp add: nic_started_def s2_def)
      ultimately show ?thesis using r3 s1 by (intro exI [of _ True] exI [of _ s3]) (simp add: s2_def)
    qed
  qed
qed


lemma clear_mask_any:
  assumes "pics_ready p"
  shows "\<not> irq_masked i p \<Longrightarrow> \<not> irq_masked i (pic_clear_mask irq p)" "pics_ready (pic_clear_mask irq p)"
  using assms by (auto simp: irq_masked_def pic_clear_mask_def pics_ready_def data1_def data2_def chip_data_def bit_simps)

lemma enable_irq_spec:
  assumes "pics_ready p"
  shows "\<not> irq_masked i p \<Longrightarrow> \<not> irq_masked i (enable_irq irq p)" "irq < 16 \<Longrightarrow> \<not> irq_masked (unat irq) (enable_irq irq p)"
proof -
  define q where "q = (if irq \<ge> 8 then pic_clear_mask 2 p else p)"
  have q: "pics_ready q" "\<not> irq_masked i p \<Longrightarrow> \<not> irq_masked i q" using assms clear_mask_any [OF assms] by (auto simp: q_def)
  show "\<not> irq_masked i p \<Longrightarrow> \<not> irq_masked i (enable_irq irq p)" using clear_mask_any(1) [OF q(1)] q(2) by (simp add: enable_irq_def q_def)
  assume "irq < 16"
  then have "unat irq < 16" by (simp add: word_less_nat_alt)
  then show "\<not> irq_masked (unat irq) (enable_irq irq p)"
    using set_masked(2) [OF q(1), of "unat irq" "unat irq"] by (simp add: enable_irq_def q_def)
qed

text \<open>
  C22: the network card is started safely. On well-formed paging the set-up returns without a page
  fault, whatever the bus and the card say. When it reports success, both rings and all their buffers
  are memory that was free before: byte for byte the card is given the addresses of the memory the
  driver uses, and no two of them overlap. The registers hold the addresses and lengths of the rings,
  the card is told the hardware address that the driver read, and the interrupt line of the card runs
  the driver and is open; no other line is closed by it. It does report success when the card is there
  and 60 pages are free.
\<close>

theorem e1000_init_safe:
  assumes "vm_wf (nvm s)" "ndma s = VMEM_NET_DMA" "pics_ready (npic s)"
  shows "\<exists>ok s' hs'. e1000_init hw icr s hs = Some (ok, s', hs') \<and>
    (ok \<longrightarrow> nic_started hw (nvm s) s' \<and> hs' (unat (32 + nirq s')) = Some (e1000_irq icr) \<and>
       (\<forall>i<16. \<not> irq_masked i (npic s) \<longrightarrow> \<not> irq_masked i (npic s')) \<and> (nirq s' < 16 \<longrightarrow> \<not> irq_masked (unat (nirq s')) (npic s'))) \<and>
    (fst (pci_find_by_id 0x8086 0x100E (npci s)) \<noteq> None \<and> 60 \<le> free_count (nvm s) \<longrightarrow> ok)"
proof -
  obtain d p where f: "pci_find_by_id 0x8086 0x100E (npci s) = (d, p)" by fastforce
  show ?thesis
  proof (cases d)
    case None
    then show ?thesis using f by (intro exI [of _ False]) (simp add: e1000_init_def)
  next
    case (Some dv)
    let ?s = "s\<lparr>nirq := pci_irq_line dv, npci := pci_enable_device dv p\<rparr>"
    obtain ok m where m: "map_registers (bar dv ! 0 AND 0xFFFFFFF0) [0..<32] (nvm s) = Some (ok, m)" "vm_wf m" "used_frames (pmm_state (nvm s)) \<subseteq> used_frames (pmm_state m)"
      using map_registers_spec [OF assms(1), of "[0..<32]"] by fastforce
    have fm: "ok \<and> 28 \<le> free_count m" if "60 \<le> free_count (nvm s)"
      using registers_free_count [OF assms(1), of "[0..<32]" "bar dv ! 0 AND 0xFFFFFFF0"] that m(1) by fastforce
    show ?thesis
    proof (cases ok)
      case False
      then show ?thesis using f Some m(1) fm by (intro exI [of _ False]) (auto simp add: e1000_init_def del: upt_rec_numeral)
    next
      case True
      define s1 where "s1 = (e1000_write 0x0014 (if e1000_detect_eeprom (rd_detect hw) then push_bit 8 2 OR 1 else 1) (?s\<lparr>nvm := m\<rparr>))"
      define s2 where "s2 = s1\<lparr>nic := (nic s1)\<lparr>mac := mac_of hw\<rparr>\<rparr>"
      have s2: "nvm s2 = m" "ndma s2 = 0xE9000000" "mac (nic s2) = mac_of hw" "npic s2 = npic s" using assms(2) by (simp_all add: s2_def s1_def e1000_write_def)
      from start_rings_spec [of s2 hw] s2 m(2) obtain ok2 s3 where r: "start_rings s2 = Some (ok2, s3)" "npic s3 = npic s" "ok2 \<Longrightarrow> nic_started hw m s3"
        "28 \<le> free_count m \<Longrightarrow> ok2" by auto
      show ?thesis
      proof (cases ok2)
        case False
        then show ?thesis using f Some m(1) True r(1,4) fm
          by (intro exI [of _ False]) (auto simp: e1000_init_def s2_def s1_def del: upt_rec_numeral)
      next
        case ok2: True
        let ?s4 = "e1000_write 0x00D0 (0x80 OR 0x10 OR 0x40 OR 0x04) (s3\<lparr>npic := enable_irq (nirq s3) (npic s3)\<rparr>)"
        have e: "e1000_init hw icr s hs = Some (True, ?s4, hs(unat (32 + nirq s3) \<mapsto> e1000_irq icr))"
          using f Some m(1) True r(1) ok2 by (simp add: e1000_init_def s2_def s1_def isr_register_handler_def del: upt_rec_numeral)
        have "nic_started hw m ?s4" using r(3) ok2 by (simp add: nic_started_def e1000_write_def)
        then have "nic_started hw (nvm s) ?s4" using dma_safe_mono m(3) by (auto simp: nic_started_def)
        moreover have "npic ?s4 = enable_irq (nirq s3) (npic s)" using r(2) by (simp add: e1000_write_def)
        then have "\<forall>i<16. \<not> irq_masked i (npic s) \<longrightarrow> \<not> irq_masked i (npic ?s4)" "nirq ?s4 < 16 \<longrightarrow> \<not> irq_masked (unat (nirq ?s4)) (npic ?s4)"
          using enable_irq_spec [OF assms(3)] by (simp_all add: e1000_write_def)
        moreover have "nirq ?s4 = nirq s3" by (simp add: e1000_write_def)
        ultimately show ?thesis using e by (intro exI [of _ True] exI [of _ ?s4] exI [of _ "hs(unat (32 + nirq s3) \<mapsto> e1000_irq icr)"]) simp
      qed
    qed
  qed
qed


section \<open>The sound card comes up\<close>

fun evens :: "'a list \<Rightarrow> 'a list" where
  "evens (x # y # zs) = x # evens zs"
| "evens _ = []"

lemma audio_is_dma:
  "alloc_audio_page v m = alloc_dma_page v m"
  "audio_pages n v m = do { (r, v', m') \<leftarrow> dma_buffers n v m; Some (map_option evens r, v', m') }"
proof -
  show a: "alloc_audio_page v m = alloc_dma_page v m" for v m by (simp add: alloc_audio_page_def alloc_dma_page_def)
  show "audio_pages n v m = do { (r, v', m') \<leftarrow> dma_buffers n v m; Some (map_option evens r, v', m') }"
  proof (induction n arbitrary: v m)
    case (Suc n)
    then show ?case by (auto simp: a option.map_comp comp_def split: bind_splits prod.splits)
  qed simp
qed

definition whole_pages :: "u32 \<Rightarrow> u32 list \<Rightarrow> (u32 \<times> u32) list" where
  "whole_pages v ps = map (\<lambda>i. (v + of_nat (4096 * i), ps ! i)) [0..<length ps]"

lemma whole_pages_Cons: "whole_pages v (p # ps) = (v, p) # whole_pages (v + 4096) ps"
proof -
  have "[0..<length (p # ps)] = 0 # map Suc [0..<length ps]" by (simp add: upt_conv_Cons map_Suc_upt del: upt_Suc)
  then show ?thesis by (simp add: whole_pages_def comp_def algebra_simps)
qed

lemma evens_half_pages: "evens (half_pages v ps) = whole_pages v ps"
  by (induction ps arbitrary: v) (simp_all add: half_pages_Cons whole_pages_Cons, simp add: half_pages_def whole_pages_def)

lemma whole_pages_safe:
  assumes "fresh_pages m m' v ps" "unat v mod 4096 = 0" "unat v + 4096 * length ps \<le> 0xFFC00000"
  shows "dma_safe m m' 4096 (whole_pages v ps)"
proof -
  obtain k where k: "unat v = 4096 * k" using assms(2) by (metis mult_div_mod_eq add.right_neutral)
  have dm: "(4096 * x + y) div 4096 = x" "(4096 * x + y) mod 4096 = y" if "y < 4096" for x y :: nat using that by simp_all
  have al: "unat (ps ! i) = 4096 * (unat (ps ! i) div 4096)" "unat (ps ! i) div 4096 \<in> used_frames (pmm_state m') - used_frames (pmm_state m)" if "i < length ps" for i
    using assms(1) that by (auto simp: fresh_pages_def page_at_def)
  have one: "translate m' (v + of_nat (4096 * i) + of_nat b) = Some ((unat (ps ! i) + b) div 4096, (unat (ps ! i) + b) mod 4096) \<and>
      (unat (ps ! i) + b) div 4096 \<in> used_frames (pmm_state m') - used_frames (pmm_state m)" if i: "i < length ps" and b: "b < 4096" for i b
  proof -
    have "4096 * i + b < 4096 * length ps" using i b by simp
    then have u: "unat (v + of_nat (4096 * i) + of_nat b) = 4096 * (k + i) + b" "unat (v + of_nat (4096 * i)) = 4096 * (k + i) + 0"
      using assms(3) k by (simp_all add: unat_add_u32 unat_of_nat_u32 del: of_nat_mult)
    have "page_at m' (v + of_nat (4096 * i)) (ps ! i)" using assms(1) i by (simp add: fresh_pages_def)
    then have "translate m' (v + of_nat (4096 * i) + of_nat b) = Some (unat (ps ! i) div 4096, b)"
      unfolding page_at_def using u dm [OF b] dm [of 0] by (metis zero_less_numeral)
    moreover have "(unat (ps ! i) + b) div 4096 = unat (ps ! i) div 4096" "(unat (ps ! i) + b) mod 4096 = b"
      using dm [OF b] al(1) [OF i] by metis+
    ultimately show ?thesis using al(2) [OF i] by simp
  qed
  have two: "unat (ps ! i) + 4096 \<le> unat (ps ! j) \<or> unat (ps ! j) + 4096 \<le> unat (ps ! i)" if ij: "i < j" "j < length ps" for i j
  proof -
    have "unat (ps ! i) div 4096 \<noteq> unat (ps ! j) div 4096" using assms(1) ij by (auto simp: fresh_pages_def distinct_conv_nth)
    then show ?thesis using al(1) [of i] al(1) [of j] ij by linarith
  qed
  show ?thesis unfolding dma_safe_def using one two by (auto simp: whole_pages_def)
qed

lemma audio_pages_spec:
  assumes "vm_wf m" "unat v mod 4096 = 0" "unat v + 4096 * n \<le> 0xFFC00000"
  shows "\<exists>r v' m'. audio_pages n v m = Some (r, v', m') \<and> vm_wf m' \<and>
    (\<forall>bs. r = Some bs \<longrightarrow> dma_safe m m' 4096 bs \<and> length bs = n) \<and> (2 * n \<le> free_count m \<longrightarrow> r \<noteq> None)"
proof -
  from dma_buffers_spec [OF assms] obtain r v' m' where d: "dma_buffers n v m = Some (r, v', m')" "grows v n m m'"
    "\<And>bufs. r = Some bufs \<Longrightarrow> \<exists>ps. length ps = n \<and> bufs = half_pages v ps \<and> fresh_pages m m' v ps" by blast
  have "dma_safe m m' 4096 (evens bufs) \<and> length (evens bufs) = n" if r: "r = Some bufs" for bufs
  proof -
    obtain ps where ps: "length ps = n" "bufs = half_pages v ps" "fresh_pages m m' v ps" using d(3) [OF r] by blast
    then have "dma_safe m m' 4096 (whole_pages v ps)" using assms(2,3) by (intro whole_pages_safe) simp_all
    then show ?thesis using ps by (simp add: evens_half_pages) (simp add: whole_pages_def)
  qed
  moreover have "2 * n \<le> free_count m \<longrightarrow> r \<noteq> None" using buffers_free_count [OF assms] d(1) by auto
  ultimately show ?thesis using d(1,2) by (auto simp: audio_is_dma(2) grows_def)
qed

lemma audio_pages_step:
  "audio_pages (Suc n) v m = Some (r, w, m') \<longleftrightarrow>
    (\<exists>p v1 m1. alloc_audio_page v m = Some (p, v1, m1) \<and>
       (if p = 0 then r = None \<and> w = v1 \<and> m' = m1
        else \<exists>r1. audio_pages n v1 m1 = Some (r1, w, m') \<and> r = map_option (\<lambda>bs. (v, p) # bs) r1))"
  by (auto split: bind_splits prod.splits if_splits)

text \<open>
  The sound card is started safely. The set-up returns without a page fault, and when it reports
  success the table of buffers and the 32 buffers are memory that was free before, the same for the
  card as for the driver, and without overlap. It reports success when the card is there, its codec
  answers and 66 pages are free.
\<close>

theorem ac97_init_safe:
  assumes "vm_wf (avm s)" "adma s = VMEM_AUDIO_DMA"
  shows "\<exists>ok s'. ac97_init codec s = Some (ok, s') \<and> vm_wf (avm s') \<and>
    (ok \<longrightarrow> dma_safe (avm s) (avm s') 4096 ((VMEM_AUDIO_DMA, bdl_phys s') # audio_bufs s') \<and> length (audio_bufs s') = 32) \<and>
    (fst (pci_find_by_id 0x8086 0x2415 (apci s)) \<noteq> None \<and> codec \<noteq> 0xFFFF \<and> 66 \<le> free_count (avm s) \<longrightarrow> ok)"
proof -
  obtain d p where f: "pci_find_by_id 0x8086 0x2415 (apci s) = (d, p)" by fastforce
  from audio_pages_spec [OF assms(1), of "0xEA000000" "Suc 32"] obtain r v' m'
    where a: "audio_pages (Suc 32) 0xEA000000 (avm s) = Some (r, v', m')" "vm_wf m'"
      "\<And>bs. r = Some bs \<Longrightarrow> dma_safe (avm s) m' 4096 bs \<and> length bs = Suc 32" "66 \<le> free_count (avm s) \<Longrightarrow> r \<noteq> None" by auto
  show ?thesis
  proof (cases "d = None \<or> codec = 0xFFFF")
    case True
    then show ?thesis using f assms(1) by (cases d) (auto simp: ac97_init_def outp_def Let_def intro!: exI [of _ False])
  next
    case False
    then obtain dv where dv: "d = Some dv" "codec \<noteq> 0xFFFF" by auto
    from a(1) [unfolded audio_pages_step] obtain q v1 m1 where q: "alloc_audio_page 0xEA000000 (avm s) = Some (q, v1, m1)"
      "if q = 0 then r = None \<and> v' = v1 \<and> m' = m1 else \<exists>r1. audio_pages 32 v1 m1 = Some (r1, v', m') \<and> r = map_option (\<lambda>bs. (0xEA000000, q) # bs) r1" by blast
    show ?thesis
    proof (cases "q = 0")
      case True
      then show ?thesis using f dv q a(2,4) assms(2) by (auto simp: ac97_init_def outp_def Let_def intro!: exI [of _ False])
    next
      case False
      then obtain r1 where r1: "audio_pages 32 v1 m1 = Some (r1, v', m')" "r = map_option (\<lambda>bs. (0xEA000000, q) # bs) r1" using q(2) by auto
      show ?thesis
      proof (cases r1)
        case None
        then show ?thesis using f dv q(1) False r1 a(2,4) assms(2)
          by (auto simp: ac97_init_def outp_def Let_def simp del: audio_pages.simps intro!: exI [of _ False])
      next
        case (Some bs)
        then show ?thesis using f dv q(1) False r1 a(2,3) assms(2)
          by (auto simp: ac97_init_def outp_def Let_def simp del: audio_pages.simps intro!: exI [of _ True])
      qed
    qed
  qed
qed

section \<open>Witness\<close>

text \<open>A machine with 125 free pages and a network card as the first device on the bus.\<close>

definition roomy_pmm :: pmm where
  "roomy_pmm = \<lparr>bitmap = (\<lambda>i. if i = 0 then 7 else if i < 16 then 0 else 0xFF), total_pages = 128, used_pages = 3\<rparr>"

definition roomy_machine :: machine where
  "roomy_machine = vmm_init 0x1000 \<lparr>pmm_state = roomy_pmm, pmem = (\<lambda>_ _. 0), cr3 = 0x1000, preemption_enabled = True\<rparr>"

definition nic_bus :: pci_bus where
  "nic_bus = \<lparr>config_address = 0, config_space = (\<lambda>a. if a = 0x80000000 then 0x100E8086 else if a = 0x8000003C then 0x0B else 0)\<rparr>"

definition nic_hw :: nic_reads where
  "nic_hw = \<lparr>rd_detect = (\<lambda>_. 0), rd_word = (\<lambda>_ _. 0), rd_ral = 0x12005452, rd_rah = 0x5634\<rparr>"

lemma roomy_frames: "used_frames roomy_pmm \<inter> {..<128} = {..<3}" "pmm_inv roomy_pmm"
proof -
  have "(7 :: int) = mask 3" by (simp add: mask_eq_exp_minus_1)
  then have b: "bit (7 :: int) n \<longleftrightarrow> n < 3" for n by (simp only: bit_mask_iff) simp
  show u: "used_frames roomy_pmm \<inter> {..<128} = {..<3}"
    by (auto simp: used_frames_def pmm_bit_def roomy_pmm_def b split: if_splits)
  have "{128..<MAX_PAGES} \<subseteq> used_frames roomy_pmm" "0 \<in> used_frames roomy_pmm"
    by (auto simp: used_frames_def pmm_bit_def roomy_pmm_def b bit_255_int)
  moreover have "total_pages roomy_pmm = 128" "used_pages roomy_pmm = 3" by (simp_all add: roomy_pmm_def)
  ultimately show "pmm_inv roomy_pmm" using u by (simp add: pmm_inv_def pmm_count_ok_def)
qed

lemma roomy_machine_ok: "vm_wf roomy_machine" "60 \<le> free_count roomy_machine"
proof -
  have pde: "pde roomy_machine i = (if i = 1023 then 0x1003 else 0)" for i
    by (simp add: roomy_machine_def vmm_init_def pde_def pdf_def pte_frame_unat ld32_def [of "\<lambda>_ _. 0"] un_le32_def)
  have "table_indices roomy_machine = {1023}" by (auto simp: table_indices_def pde)
  moreover have p: "pmm_state roomy_machine = roomy_pmm" "pdf roomy_machine = 1"
    by (simp_all add: roomy_machine_def vmm_init_def pdf_def pte_frame_unat)
  moreover have "(1 :: nat) \<in> used_frames roomy_pmm \<inter> {..<128}" unfolding roomy_frames(1) by simp
  ultimately show "vm_wf roomy_machine"
    using roomy_frames(2) by (simp add: vm_wf_def rec_ok_def pde pte_frame_unat)
  have "{..<128} - used_frames roomy_pmm = {..<128} - (used_frames roomy_pmm \<inter> {..<128})" by blast
  also have "\<dots> = {3..<128}" unfolding roomy_frames(1) by auto
  finally have "{..<128} - used_frames roomy_pmm = {3..<128}" .
  then show "60 \<le> free_count roomy_machine" using p(1) by (simp add: free_count_def alloc_limit_def roomy_pmm_def)
qed

lemma nic_bus_find: "fst (pci_find_by_id 0x8086 0x100E nic_bus) \<noteq> None"
proof -
  have "case pci_probe 0 0 0 nic_bus of (Some d, _) \<Rightarrow> vendor_id d = 0x8086 \<and> device_id d = 0x100E | _ \<Rightarrow> False" by code_simp
  then obtain d p where d: "pci_probe 0 0 0 nic_bus = (Some d, p)" "vendor_id d = 0x8086" "device_id d = 0x100E"
    by (auto split: prod.splits option.splits)
  let ?M = "\<lambda>d. vendor_id d = 0x8086 \<and> device_id d = 0x100E"
  have u: "[0..<n] = 0 # [1..<n]" if "0 < n" for n :: nat using that by (simp add: upt_conv_Cons)
  have "find_func ?M 0 0 (0 # fs) nic_bus = (Some d, p)" for fs using d by simp
  then have "find_func ?M 0 (of_nat 0) [0..<8] nic_bus = (Some d, p)" unfolding u [of 8, simplified] by simp
  then have "find_dev ?M 0 (0 # ds) nic_bus = (Some d, p)" for ds unfolding find_dev.simps by (simp only: prod.case option.case)
  then have "find_dev ?M (of_nat 0) [0..<32] nic_bus = (Some d, p)" unfolding u [of 32, simplified] by simp
  then have "find_bus ?M (0 # bs) nic_bus = (Some d, p)" for bs unfolding find_bus.simps by (simp only: prod.case option.case)
  then have "find_bus ?M [0..<256] nic_bus = (Some d, p)" unfolding u [of 256, simplified] by simp
  then show ?thesis by (simp only: pci_find_by_id_def fst_conv) simp
qed

theorem e1000_init_safe_witness:
  "\<forall>icr (s :: nic_system) hs. \<exists>s' hs'. e1000_init nic_hw icr (s\<lparr>npci := nic_bus, nvm := roomy_machine, ndma := 0xE9000000, npic := reset_pics\<rparr>) hs = Some (True, s', hs') \<and>
     mac (nic s') = [0x52, 0x54, 0, 0x12, 0x34, 0x56] \<and> nreg s' E1000_RDLEN = 256 \<and> length (snd (rx_dma s')) = 16"
proof (intro allI)
  fix icr and s :: nic_system and hs
  let ?s = "s\<lparr>npci := nic_bus, nvm := roomy_machine, ndma := 0xE9000000, npic := reset_pics\<rparr>"
  have "pics_ready (npic ?s)" by (simp add: pics_ready_def reset_pics_def Let_def)
  with e1000_init_safe [of ?s nic_hw icr hs] roomy_machine_ok nic_bus_find
  obtain s' hs' where "e1000_init nic_hw icr ?s hs = Some (True, s', hs')" "nic_started nic_hw roomy_machine s'" by auto
  moreover have "mac_of nic_hw = [0x52, 0x54, 0, 0x12, 0x34, 0x56]"
    by (simp add: mac_of_def nic_hw_def e1000_detect_eeprom_def e1000_read_mac_def)
  ultimately show "\<exists>s' hs'. e1000_init nic_hw icr ?s hs = Some (True, s', hs') \<and>
     mac (nic s') = [0x52, 0x54, 0, 0x12, 0x34, 0x56] \<and> nreg s' E1000_RDLEN = 256 \<and> length (snd (rx_dma s')) = 16" by (auto simp: nic_started_def)
qed

end
