(* ===== verification/Spec2Isabelle.thy ===== *)
theory Spec2Isabelle
  imports Memory_Map Pmm Vmm Kheap Libc Ata Pfs Fifo Keyboard Pfs_Vfs Initrd Vfs Vmm_Space Elf Task Scheduler Syscall Execve Net Audio Window_Manager Debugger Pci Cpu_Tables Pic_Rtc Shell Boot User_Programs Ps2 Tty Dma
begin

text \<open>
  A verification of pumpsOS, a 32-bit x86 operating system: the kernel (\<^verbatim>\<open>src/kernel\<close>), the C library
  (\<^verbatim>\<open>src/libc\<close>) and the programs that run on it (\<^verbatim>\<open>src/user\<close>).

  \<^bold>\<open>The program.\<close> \<^verbatim>\<open>kernel_main\<close> sets up the processor tables, the memory managers (a bitmap of page
  frames, two-level paging with the page directory mapped into itself, a heap of linked blocks), the
  RAM disk, the devices, the file system on the disk, the desktop, the network and the scheduler, and
  starts the shell. Programs enter the kernel through interrupt 0x80; the virtual file system sends
  their reads and writes to the RAM disk, the disk, the console or the keyboard; the timer wakes
  sleeping tasks and switches between the ready ones; the idle loop reaps tasks, handles the queued
  network frames, refills the buffers of the sound card and moves the windows under the mouse.

  \<^bold>\<open>How it is modelled.\<close> Pure functions are HOL functions; what changes state takes the state (a record
  of the static variables of the C file, or of the device behind the ports) and returns it. Machine
  integers are words of their width, so sums wrap as in C. Byte-addressed memory is a map from
  addresses, and \<open>machine\<close> (\<open>Vmm\<close>) holds physical memory, the page-directory register and the frame
  bitmap: an access to a virtual address walks the page tables in that memory, and an unmapped one is
  \<open>None\<close>, a page fault. Structures that the code reaches through pointers (heap blocks, tasks) are maps
  from their addresses. Errors that the code returns are values (-1, 0, \<open>False\<close>); a fault, a read outside
  an array or a loop that does not end is \<open>None\<close>. What the compiler, linker, boot assembly or a device
  decides is a parameter: addresses of symbols, the values read from a register, a memory map.

  \<^bold>\<open>Theories and sources\<close> (file names under \<^verbatim>\<open>src/kernel/kernel\<close> and \<^verbatim>\<open>src/kernel/arch/i386\<close>, unless they
  say otherwise).

  \<^item> \<open>Pumps_Prelude\<close>: widths, words and bytes, slices, lists and least indices, shared by all.
  \<^item> \<open>Memory_Map\<close> (\<^verbatim>\<open>memory_map.c\<close>), \<open>Pmm\<close> (\<^verbatim>\<open>pmm.c\<close>), \<open>Vmm\<close> and \<open>Vmm_Space\<close> (\<^verbatim>\<open>vmm.c\<close>), \<open>Kheap\<close> (\<^verbatim>\<open>heap.c\<close>):
    memory. The allocator is first-fit and keeps its counters (and is an instance of the locale
    \<open>frame_allocator\<close>, on which the paging proofs rest); after its initialisation only frames of available
    memory are free. Mapping and unmapping change the translation of exactly one page and keep the
    page tables well-formed (\<open>vm_wf\<close>: no table is shared, every table has a frame of its own); a new
    address space has an empty user half. Heap blocks are disjoint and adjacent, allocation and release
    keep them so.
  \<^item> \<open>Libc\<close> (\<^verbatim>\<open>src/libc/string\<close>) and \<open>Printf\<close> (\<^verbatim>\<open>src/libc/stdio\<close>): string functions, the format interpreter.
    A well-typed call is defined, whatever the format; numbers survive printing and reading.
  \<^item> \<open>Ata\<close> (\<^verbatim>\<open>ata.c\<close>), \<open>Pfs\<close> (\<^verbatim>\<open>pfs.c\<close>), \<open>Pfs_Vfs\<close> (\<^verbatim>\<open>pfs_vfs.c\<close>), \<open>Initrd\<close> (\<^verbatim>\<open>initrd.c\<close>), \<open>Vfs\<close> (\<^verbatim>\<open>vfs.c\<close>,
    \<^verbatim>\<open>console.c\<close>): storage. The drive is an instance of the locale \<open>sector_device\<close>; the file system has an
    invariant (inodes and blocks in use are marked, no block belongs to two files) that creating and
    writing keep, and what is written is read back; path lookup is the walk over the components.
  \<^item> \<open>Fifo\<close>, \<open>Keyboard\<close> (\<^verbatim>\<open>keyboard.c\<close>), \<open>E1000\<close> (\<^verbatim>\<open>e1000.c\<close>): the locale \<open>bounded_fifo\<close> of ring buffers, of which
    the keyboard buffer and the frame queue of the network card are instances; the scan-code decoder.
  \<^item> \<open>Elf\<close> (\<^verbatim>\<open>elf.c\<close>), \<open>Task\<close> and \<open>Scheduler\<close> (\<^verbatim>\<open>task.c\<close>, \<^verbatim>\<open>timer.c\<close>), \<open>Syscall\<close> and \<open>Execve\<close> (\<^verbatim>\<open>syscall.c\<close>): programs and
    tasks. The inductive relation of \<open>Scheduler\<close> has a step for each operation on tasks; in every state it
    reaches the task list is a ring, and scheduling picks the next ready task of highest priority, in
    turn. System calls reject bad arguments without effect, and reading copies exactly the bytes of the
    file. The argument vector reaches the new program unchanged.
  \<^item> \<open>Checksum\<close>, \<open>Net_Ip\<close>, \<open>Dns\<close>, \<open>Tcp\<close>, \<open>Net\<close> (\<^verbatim>\<open>net.c\<close>): the network stack. Frames are handled once and in order,
    pings answered with valid checksums, names decoded within bounds, and the TCP receiver delivers
    consecutive bytes of the stream.
  \<^item> \<open>Framebuffer\<close> (\<^verbatim>\<open>framebuffer.c\<close>, \<^verbatim>\<open>cursor.c\<close>), \<open>Fbcon\<close> (\<^verbatim>\<open>fbcon.c\<close>, \<^verbatim>\<open>font8x16.h\<close>), \<open>Desktop\<close> and \<open>Window_Manager\<close>
    (\<^verbatim>\<open>window.c\<close>, \<^verbatim>\<open>terminal.c\<close>, \<^verbatim>\<open>mouse.c\<close>), \<open>Audio\<close> (\<^verbatim>\<open>wav.c\<close>, \<^verbatim>\<open>ac97.c\<close>): what is seen and heard. Every pixel is
    the one of the topmost window there; the grid shows the last rows of what was written; the samples
    of the file reach the card in order, whatever the interleaving of reader and card.
  \<^item> \<open>Panic\<close> (\<^verbatim>\<open>panic.c\<close>), \<open>Debugger\<close> (\<^verbatim>\<open>debugger.c\<close>), \<open>Pci\<close> (\<^verbatim>\<open>pci.c\<close>), \<open>Cpu_Tables\<close> (\<^verbatim>\<open>gdt.c\<close>, \<^verbatim>\<open>tss.c\<close>, \<^verbatim>\<open>idt.c\<close>,
    \<^verbatim>\<open>isr.c\<close>), \<open>Pic_Rtc\<close> (\<^verbatim>\<open>pic.c\<close>, \<^verbatim>\<open>rtc.c\<close>): the report of a panic and the debugger end and never fault, the
    search on the bus finds the first match, each vector enters its own gate, interrupt lines are
    masked one at a time, the clock is read right in 24-hour mode.
  \<^item> \<open>Ps2\<close> (\<^verbatim>\<open>ps2.c\<close>, \<^verbatim>\<open>keyboard_init\<close>, \<^verbatim>\<open>mouse_init\<close>), \<open>Tty\<close> (\<^verbatim>\<open>tty.c\<close>, \<^verbatim>\<open>vga.h\<close>), \<open>Dma\<close> (\<^verbatim>\<open>e1000_init\<close>, \<^verbatim>\<open>ac97_init\<close>): setting devices
    up. Keyboard and mouse end up sending and with their interrupts open, without a byte left over;
    text mode shows the last rows of what was written; the memory shared with a card was free, is the
    same for card and driver, and its buffers do not overlap.
  \<^item> \<open>Shell\<close> (\<^verbatim>\<open>src/user/shell.c\<close>), \<open>User_Programs\<close> (\<^verbatim>\<open>cat.c\<close>, \<^verbatim>\<open>echo.c\<close> and the stubs of \<^verbatim>\<open>src/libc/arch/i386/syscall.c\<close>),
    \<open>Boot\<close> (\<^verbatim>\<open>kernel.c\<close>): compositions. The start of the memory managers and of the disk, one on top of the
    other; \<^verbatim>\<open>cat\<close> prints the file through open, read, write and close of the kernel, on either file system
    (instances of the locale \<open>file_backend\<close>); a typed \<^verbatim>\<open>echo\<close> is run and printed.

  \<^bold>\<open>Loops and bounds.\<close> Loops that end for a visible reason are \<open>fun\<close> or \<open>function\<close> with a measure. Loops that
  the code bounds itself keep its bound: 16 jumps in a DNS name, 16 frames in a stack trace, 100000
  reads of the EEPROM register, 32 chunks of a sound file, 1024 tasks reaped in one call, 102 blocks of
  the heap check. Loops that may run for ever are \<open>partial_function (option)\<close> (\<open>kmalloc_loop\<close>, the heap and
  task listings, \<open>net_poll\<close>, \<open>wav_prefill\<close>, the waits for the clock, \<open>cat_loop\<close>), and that they return is proved
  where the properties rely on it.

  \<^bold>\<open>Where the code is wrong\<close>, the definitions follow the code, the properties state the condition under
  which it is right, and a lemma evaluates the definition on an input where it is not, for instance
  \<open>kmalloc_hands_out_a_block_twice\<close>, \<open>segment_guard_wraps\<close>, \<open>lying_frame_faults\<close>, \<open>rtc_noon_is_midnight\<close>.

  \<^bold>\<open>Not modelled.\<close> Assembly and linker scripts (what they leave is a hypothesis: the page directory in
  \<open>Boot\<close>, the saved registers in \<open>Task\<close>); the wrappers around port instructions; the TLB and
  caches; preemption in the middle of an operation, because the kernel disables it there; messages on
  the console outside the panic report, the debugger and the PCI scan; the sample data of \<^verbatim>\<open>wav_data.h\<close>;
  the rest of \<^verbatim>\<open>kernel_main\<close>, which calls the modelled set-up functions once in a row; the programs \<^verbatim>\<open>ls\<close>, \<^verbatim>\<open>touch\<close>, \<^verbatim>\<open>sleeptest\<close> and \<^verbatim>\<open>thread\<close>,
  which try out system calls one by one.
\<close>

end
